(* ===== verification/Prelude.thy ===== *)
theory Prelude
  imports Main "HOL-Library.Word" "HOL-Library.Multiset" "HOL-Library.List_Lexorder"
    "HOL-Library.Sublist"
begin

text \<open>
  The vocabulary the component theories share: names for the machine types of the Rust
  sources, saturating and wrapping conversions, little-endian encodings, insertion-ordered
  sets, stable sorting by a comparison, and the list lemmas the component proofs lean on.
  The two \<open>named_theorems\<close> collections hold the facts that most component proofs give to
  the simplifier.
\<close>

named_theorems text_simps \<open>rewrite rules for the Rust string functions\<close>
named_theorems inv_intros \<open>introduction rules for component invariants\<close>

type_synonym byte = "8 word"
type_synonym bytes = "byte list"

text \<open>
  Counters, indices and identifiers (\<^verbatim>\<open>u32\<close>, \<^verbatim>\<open>u64\<close>, \<^verbatim>\<open>usize\<close>) that are only counted up,
  compared or printed are natural numbers, and signed 64-bit file times are integers. The
  conversions that can change a value are written out.
\<close>

type_synonym u32 = nat
type_synonym u64 = nat
type_synonym usize = nat
type_synonym i64 = int

definition u64_max :: nat where
  "u64_max = 18446744073709551615"

definition saturating_add64 :: "u64 \<Rightarrow> u64 \<Rightarrow> u64" where
  "saturating_add64 a b = min (a + b) u64_max"

definition u64_as_i64 :: "u64 \<Rightarrow> i64" where
  "u64_as_i64 n = (if n < 9223372036854775808 then int n else int n - 18446744073709551616)"

lemma saturating_add64_le [simp]: "saturating_add64 a b \<le> u64_max"
  by (simp add: saturating_add64_def)

lemma saturating_add64_exact: "a + b \<le> u64_max \<Longrightarrow> saturating_add64 a b = a + b"
  by (simp add: saturating_add64_def)

text \<open>Rust's integer division and remainder on signed values round towards zero.\<close>

definition rust_div :: "int \<Rightarrow> int \<Rightarrow> int" where
  "rust_div a b = sgn a * sgn b * (\<bar>a\<bar> div \<bar>b\<bar>)"

lemma rust_div_nonneg [simp]: "0 \<le> a \<Longrightarrow> 0 < b \<Longrightarrow> rust_div a b = a div b"
  by (cases "a = 0") (simp_all add: rust_div_def)

subsection \<open>Little-endian bytes\<close>

fun le_bytes :: "nat \<Rightarrow> nat \<Rightarrow> bytes" where
  "le_bytes 0 n = []"
| "le_bytes (Suc k) n = word_of_nat n # le_bytes k (n div 256)"

fun of_le_bytes :: "bytes \<Rightarrow> nat" where
  "of_le_bytes [] = 0"
| "of_le_bytes (b # bs) = unat b + 256 * of_le_bytes bs"

lemma length_le_bytes [simp]: "length (le_bytes k n) = k"
  by (induction k n rule: le_bytes.induct) auto

lemma of_le_bytes_le_bytes: "n < 256 ^ k \<Longrightarrow> of_le_bytes (le_bytes k n) = n"
proof (induction k n rule: le_bytes.induct)
  case (1 n)
  then show ?case by simp
next
  case (2 k n)
  from "2.prems" have "n div 256 < 256 ^ k"
    by (simp add: less_mult_imp_div_less mult.commute)
  then have "of_le_bytes (le_bytes k (n div 256)) = n div 256"
    by (rule "2.IH")
  then show ?case by (simp add: unat_of_nat)
qed

lemma le_bytes_inject:
  "n < 256 ^ k \<Longrightarrow> m < 256 ^ k \<Longrightarrow> le_bytes k n = le_bytes k m \<longleftrightarrow> n = m"
  by (metis of_le_bytes_le_bytes)

lemma of_le_bytes_bound: "of_le_bytes bs < 256 ^ length bs"
proof (induction bs)
  case Nil
  then show ?case by simp
next
  case (Cons b bs)
  have "unat b < 256" using unsigned_less [of b] by simp
  with Cons show ?case by simp
qed

subsection \<open>Hash sets whose size is read\<close>

text \<open>
  A \<^verbatim>\<open>HashSet\<close> that the code only inserts into and counts is a duplicate-free list in
  insertion order.
\<close>

definition set_insert :: "'a \<Rightarrow> 'a list \<Rightarrow> 'a list" where
  "set_insert x xs = (if x \<in> set xs then xs else xs @ [x])"

lemma set_set_insert [simp]: "set (set_insert x xs) = insert x (set xs)"
  by (auto simp: set_insert_def)

lemma distinct_set_insert [simp]: "distinct (set_insert x xs) = distinct xs"
  by (auto simp: set_insert_def)

lemma length_set_insert_ge: "length xs \<le> length (set_insert x xs)"
  by (simp add: set_insert_def)

subsection \<open>Stable sorting by a comparison\<close>

fun insert_by :: "('a \<Rightarrow> 'a \<Rightarrow> bool) \<Rightarrow> 'a \<Rightarrow> 'a list \<Rightarrow> 'a list" where
  "insert_by le x [] = [x]"
| "insert_by le x (y # ys) = (if le x y then x # y # ys else y # insert_by le x ys)"

definition sort_by :: "('a \<Rightarrow> 'a \<Rightarrow> bool) \<Rightarrow> 'a list \<Rightarrow> 'a list" where
  "sort_by le xs = foldr (insert_by le) xs []"

lemma mset_insert_by [simp]: "mset (insert_by le x xs) = add_mset x (mset xs)"
  by (induction xs) auto

lemma mset_sort_by [simp]: "mset (sort_by le xs) = mset xs"
  by (induction xs) (auto simp: sort_by_def)

lemma set_sort_by [simp]: "set (sort_by le xs) = set xs"
  by (rule mset_eq_setD) simp

lemma length_sort_by [simp]: "length (sort_by le xs) = length xs"
  by (rule mset_eq_length) simp

lemma distinct_sort_by [simp]: "distinct (sort_by le xs) = distinct xs"
  by (rule mset_eq_imp_distinct_iff) simp

lemma sort_by_eq_Nil [simp]: "sort_by le xs = [] \<longleftrightarrow> xs = []"
  by (metis length_0_conv length_sort_by)

text \<open>
  The interface a comparison offers to code that sorts by it. The laws are those of Rust's
  \<^verbatim>\<open>Ord\<close> contract, relative to the set of values being sorted.
\<close>

locale ranking =
  fixes le :: "'a \<Rightarrow> 'a \<Rightarrow> bool" and carrier :: "'a set"
  assumes le_total: "x \<in> carrier \<Longrightarrow> y \<in> carrier \<Longrightarrow> le x y \<or> le y x"
    and le_trans: "x \<in> carrier \<Longrightarrow> y \<in> carrier \<Longrightarrow> z \<in> carrier \<Longrightarrow>
      le x y \<Longrightarrow> le y z \<Longrightarrow> le x z"
begin

lemma le_self: "x \<in> carrier \<Longrightarrow> le x x"
  using le_total by blast

lemma sorted_insert_by:
  "x \<in> carrier \<Longrightarrow> set xs \<subseteq> carrier \<Longrightarrow> sorted_wrt le xs \<Longrightarrow> sorted_wrt le (insert_by le x xs)"
proof (induction xs)
  case Nil
  then show ?case by simp
next
  case (Cons y ys)
  have set_ins: "set (insert_by le x ys) = insert x (set ys)"
    by (metis mset_insert_by set_mset_add_mset_insert set_mset_mset)
  show ?case
  proof (cases "le x y")
    case True
    with Cons.prems show ?thesis by (auto intro: le_trans)
  next
    case False
    with Cons.prems have "le y x" using le_total by auto
    with Cons False set_ins show ?thesis by auto
  qed
qed

lemma sorted_sort_by: "set xs \<subseteq> carrier \<Longrightarrow> sorted_wrt le (sort_by le xs)"
proof (induction xs)
  case Nil
  then show ?case by (simp add: sort_by_def)
next
  case (Cons x xs)
  then have "sorted_wrt le (insert_by le x (sort_by le xs))"
    by (intro sorted_insert_by) auto
  then show ?case by (simp add: sort_by_def)
qed

lemma hd_sort_by_least:
  assumes "set xs \<subseteq> carrier" and "x \<in> set xs"
  shows "le (hd (sort_by le xs)) x"
proof -
  from assms(2) have ne: "sort_by le xs \<noteq> []" by auto
  then obtain y ys where ys: "sort_by le xs = y # ys" by (cases "sort_by le xs") auto
  from assms have "x \<in> set (y # ys)" by (simp flip: ys)
  moreover have "sorted_wrt le (y # ys)" using sorted_sort_by [OF assms(1)] by (simp add: ys)
  moreover have "y \<in> carrier" using assms(1) ys by (metis list.set_intros(1) set_sort_by subsetD)
  ultimately show ?thesis by (auto simp: ys le_self)
qed

end

lemma hd_sort_by_in: "xs \<noteq> [] \<Longrightarrow> hd (sort_by le xs) \<in> set xs"
  by (metis hd_in_set set_sort_by sort_by_eq_Nil)

subsection \<open>Lists\<close>

lemma length_filter_partition:
  "length (filter P xs) + length (filter (\<lambda>x. \<not> P x) xs) = length xs"
  by (rule sum_length_filter_compl)

lemma distinct_concat_nth_unique:
  assumes "distinct (concat xss)" and "g < length xss" and "h < length xss"
    and "x \<in> set (xss ! g)" and "x \<in> set (xss ! h)"
  shows "g = h"
  using assms
proof (induction xss arbitrary: g h)
  case Nil
  then show ?case by simp
next
  case (Cons xs xss)
  show ?case
  proof (cases g; cases h)
    fix g' h' assume "g = Suc g'" "h = Suc h'"
    with Cons show ?thesis by auto
  next
    fix h' assume "g = 0" "h = Suc h'"
    with Cons.prems have "x \<in> set xs" "x \<in> set (concat xss)" by auto
    with Cons.prems(1) show ?thesis by auto
  next
    fix g' assume "g = Suc g'" "h = 0"
    with Cons.prems have "x \<in> set xs" "x \<in> set (concat xss)" by auto
    with Cons.prems(1) show ?thesis by auto
  qed simp
qed

lemma split_at_first:
  assumes "a @ x # r = b @ x # s" and "x \<notin> set a" and "x \<notin> set b"
  shows "a = b \<and> r = s"
  using assms
proof (induction a arbitrary: b)
  case Nil
  then show ?case by (cases b) auto
next
  case (Cons y a)
  then show ?case by (cases b) auto
qed

lemma mset_concat_update:
  "g < length xss \<Longrightarrow> mset (concat (xss[g := xss ! g @ ys])) = mset (concat xss) + mset ys"
proof (induction xss arbitrary: g)
  case (Cons xs xss)
  then show ?case by (cases g) auto
qed simp

lemma map_hd_append_update:
  "g < length xss \<Longrightarrow> xss ! g \<noteq> [] \<Longrightarrow> map hd (xss[g := xss ! g @ ys]) = map hd xss"
  by (intro nth_equalityI) (auto simp: nth_list_update hd_append)

lemma hd_append_update:
  "g < length xss \<Longrightarrow> xss ! g \<noteq> [] \<Longrightarrow> h < length xss \<Longrightarrow> hd (xss[g := xss ! g @ ys] ! h) = hd (xss ! h)"
  by (auto simp: nth_list_update hd_append)

text \<open>Loops over an indexed list keep an invariant that each pass keeps.\<close>

lemma fold_enumerate_inv:
  assumes "P 0 s" and "\<And>k s. k < length xs \<Longrightarrow> P k s \<Longrightarrow> P (Suc k) (f (k, xs ! k) s)"
  shows "P (length xs) (fold f (enumerate 0 xs) s)"
proof -
  have "n \<le> length xs \<Longrightarrow> P n (fold f (enumerate 0 (take n xs)) s)" for n
  proof (induction n)
    case (Suc n)
    then have "n < length xs" by simp
    then have "enumerate 0 (take (Suc n) xs) = enumerate 0 (take n xs) @ [(n, xs ! n)]"
      by (simp add: take_Suc_conv_app_nth enumerate_append_eq)
    with Suc assms(2) [of n] show ?case by simp
  qed (simp add: assms(1))
  from this [of "length xs"] show ?thesis by simp
qed

end
