(* ===== verification/Rust_Text.thy ===== *)
theory Rust_Text
  imports Prelude Unicode_Tables
begin

text \<open>
  Rust strings. A \<^verbatim>\<open>char\<close> is a Unicode scalar value, here its code point, and a
  \<^verbatim>\<open>String\<close> the list of its characters; the bytes the code hashes and the byte lengths it
  compares come from the UTF-8 encoding \<open>utf8\<close>. The string order of the library theory
  \<open>List_Lexorder\<close> on code points is Rust's byte order, because UTF-8 preserves it. The
  functions below are those of the Rust standard library that the modelled crates call.
\<close>

type_synonym uchar = nat
type_synonym str = "uchar list"

definition lit :: "string \<Rightarrow> str" where
  "lit s = map of_char s"

lemma lit_simps [simp]:
  "lit [] = []" "lit (c # cs) = of_char c # lit cs"
  by (simp_all add: lit_def)

lemma lit_append: "lit (a @ b) = lit a @ lit b"
  by (simp add: lit_def)

lemma lit_eq_iff: "lit a = lit b \<longleftrightarrow> a = b"
  by (simp add: lit_def inj_map_eq_map inj_of_char)

lemma lit_ascii: "c \<in> set (lit s) \<Longrightarrow> c < 256"
  by (auto simp: lit_def of_char_of)

subsection \<open>UTF-8\<close>

definition utf8_char :: "uchar \<Rightarrow> bytes" where
  "utf8_char c = map word_of_nat
    (if c < 128 then [c]
     else if c < 2048 then [192 + c div 64, 128 + c mod 64]
     else if c < 65536 then [224 + c div 4096, 128 + c div 64 mod 64, 128 + c mod 64]
     else [240 + c div 262144, 128 + c div 4096 mod 64, 128 + c div 64 mod 64, 128 + c mod 64])"

definition utf8 :: "str \<Rightarrow> bytes" where
  "utf8 s = concat (map utf8_char s)"

definition str_len :: "str \<Rightarrow> usize" where
  "str_len s = length (utf8 s)"

lemma utf8_simps [simp]:
  "utf8 [] = []" "utf8 (c # s) = utf8_char c @ utf8 s" "utf8 (s @ t) = utf8 s @ utf8 t"
  by (simp_all add: utf8_def)

lemma utf8_char_ascii [simp]: "c < 128 \<Longrightarrow> utf8_char c = [word_of_nat c]"
  by (simp add: utf8_char_def)


subsection \<open>Trimming and splitting\<close>

definition is_whitespace :: "uchar \<Rightarrow> bool" where
  "is_whitespace c \<longleftrightarrow>
     (9 \<le> c \<and> c \<le> 13) \<or> c = 32 \<or> c = 133 \<or> c = 160 \<or> c = 5760 \<or>
     (8192 \<le> c \<and> c \<le> 8202) \<or> c = 8232 \<or> c = 8233 \<or> c = 8239 \<or> c = 8287 \<or> c = 12288"

definition trim_start_by :: "(uchar \<Rightarrow> bool) \<Rightarrow> str \<Rightarrow> str" where
  "trim_start_by P s = dropWhile P s"

definition trim_end_by :: "(uchar \<Rightarrow> bool) \<Rightarrow> str \<Rightarrow> str" where
  "trim_end_by P s = rev (dropWhile P (rev s))"

definition trim_start :: "str \<Rightarrow> str" where
  "trim_start s = trim_start_by is_whitespace s"

definition trim :: "str \<Rightarrow> str" where
  "trim s = trim_end_by is_whitespace (trim_start_by is_whitespace s)"

definition trim_matches :: "uchar \<Rightarrow> str \<Rightarrow> str" where
  "trim_matches c s = trim_end_by (\<lambda>x. x = c) (trim_start_by (\<lambda>x. x = c) s)"

fun split_on :: "uchar \<Rightarrow> str \<Rightarrow> str list" where
  "split_on d [] = [[]]"
| "split_on d (c # s) =
     (if c = d then [] # split_on d s
      else (case split_on d s of [] \<Rightarrow> [[c]] | p # ps \<Rightarrow> (c # p) # ps))"

fun join_with :: "str \<Rightarrow> str list \<Rightarrow> str" where
  "join_with sep [] = []"
| "join_with sep [s] = s"
| "join_with sep (s # t # ts) = s @ sep @ join_with sep (t # ts)"

fun str_contains :: "str \<Rightarrow> str \<Rightarrow> bool" where
  "str_contains [] pat = (pat = [])"
| "str_contains (c # s) pat = (prefix pat (c # s) \<or> str_contains s pat)"

fun find_char :: "uchar \<Rightarrow> str \<Rightarrow> nat option" where
  "find_char d [] = None"
| "find_char d (c # s) = (if c = d then Some 0 else map_option Suc (find_char d s))"

lemma str_contains_iff: "str_contains s pat \<longleftrightarrow> (\<exists>a b. s = a @ pat @ b)"
proof (induction s)
  case Nil
  then show ?case by auto
next
  case (Cons c s)
  have "(\<exists>a b. c # s = a @ pat @ b) \<longleftrightarrow> prefix pat (c # s) \<or> (\<exists>a b. s = a @ pat @ b)"
    by (auto simp: prefix_def Cons_eq_append_conv)
  with Cons show ?case by simp
qed

lemma trim_end_by_append:
  "trim_end_by P (s @ t) = (if \<forall>c\<in>set t. P c then trim_end_by P s else s @ trim_end_by P t)"
  by (auto simp: trim_end_by_def dropWhile_append)

lemma trim_end_by_snoc_keep [simp]: "\<not> P c \<Longrightarrow> trim_end_by P (s @ [c]) = s @ [c]"
  by (simp add: trim_end_by_def)

lemma trim_Nil [simp]: "trim [] = []"
  by (simp add: trim_def trim_end_by_def trim_start_by_def)

lemma trim_start_by_hd: "trim_start_by P s \<noteq> [] \<Longrightarrow> \<not> P (hd (trim_start_by P s))"
  by (simp add: trim_start_by_def hd_dropWhile)

lemma trim_end_by_last: "trim_end_by P s \<noteq> [] \<Longrightarrow> \<not> P (last (trim_end_by P s))"
  by (simp add: trim_end_by_def last_rev hd_dropWhile)

lemma trim_end_by_prefix: "\<exists>t. s = trim_end_by P s @ t \<and> (\<forall>c\<in>set t. P c)"
proof -
  have "rev s = takeWhile P (rev s) @ dropWhile P (rev s)" by simp
  then have "s = trim_end_by P s @ rev (takeWhile P (rev s))"
    unfolding trim_end_by_def by (metis rev_append rev_rev_ident)
  moreover have "\<forall>c\<in>set (rev (takeWhile P (rev s))). P c"
    by (auto dest: set_takeWhileD)
  ultimately show ?thesis by blast
qed

lemma trim_start_by_suffix: "\<exists>t. s = t @ trim_start_by P s \<and> (\<forall>c\<in>set t. P c)"
  unfolding trim_start_by_def by (metis set_takeWhileD takeWhile_dropWhile_id)

text \<open>
  A string is trimmed when neither end is a whitespace character; \<open>trim\<close> returns such a
  string, leaves it alone, and removes exactly a whitespace margin.
\<close>

definition trimmed :: "str \<Rightarrow> bool" where
  "trimmed s \<longleftrightarrow> s = [] \<or> (\<not> is_whitespace (hd s) \<and> \<not> is_whitespace (last s))"

lemma trim_trimmed:
  assumes "trimmed s"
  shows "trim s = s"
proof (cases "s = []")
  case False
  with assms have "dropWhile is_whitespace s = s" and "dropWhile is_whitespace (rev s) = rev s"
    by (simp_all add: trimmed_def dropWhile_eq_self_iff hd_rev)
  then show ?thesis by (simp add: trim_def trim_start_by_def trim_end_by_def)
qed simp

lemma trimmed_trim [simp]: "trimmed (trim s)"
proof (cases "trim s = []")
  case False
  let ?m = "trim_start_by is_whitespace s"
  obtain t where t: "?m = trim s @ t"
    using trim_end_by_prefix [of ?m is_whitespace] by (auto simp: trim_def)
  with False have "?m \<noteq> []" and "hd ?m = hd (trim s)" by auto
  with trim_start_by_hd [of is_whitespace s] have "\<not> is_whitespace (hd (trim s))" by simp
  moreover have "\<not> is_whitespace (last (trim s))"
    using False trim_end_by_last [of is_whitespace ?m] by (simp add: trim_def)
  ultimately show ?thesis by (simp add: trimmed_def)
qed (simp add: trimmed_def)

lemma trim_idem [simp]: "trim (trim s) = trim s"
  by (simp add: trim_trimmed)

lemma trim_margins:
  assumes "\<forall>c\<in>set a. is_whitespace c" and "\<forall>c\<in>set b. is_whitespace c" and "trimmed s"
  shows "trim (a @ s @ b) = s"
proof (cases "s = []")
  case True
  with assms show ?thesis
    by (auto simp: trim_def trim_end_by_def trim_start_by_def dest: set_dropWhileD)
next
  case False
  with assms(3) have "\<not> is_whitespace (hd s)" and l: "\<not> is_whitespace (last s)"
    by (auto simp: trimmed_def)
  with False assms(1) have "trim_start_by is_whitespace (a @ s @ b) = s @ b"
    by (cases s) (auto simp: trim_start_by_def)
  moreover from False l have "trim_end_by is_whitespace s = s"
    by (cases s rule: rev_cases) auto
  ultimately show ?thesis
    using assms(2) by (simp add: trim_def trim_end_by_append)
qed

lemma trim_append_whitespace:
  assumes "\<forall>c\<in>set w. is_whitespace c"
  shows "trim (s @ w) = trim s"
proof (cases "\<forall>c\<in>set s. is_whitespace c")
  case True
  with assms have "trim ([] @ [] @ s @ w) = []" and "trim ([] @ [] @ s) = []"
    by (intro trim_margins; auto simp: trimmed_def)+
  then show ?thesis by simp
next
  case False
  with assms show ?thesis
    by (auto simp: trim_def trim_start_by_def dropWhile_append trim_end_by_append)
qed

lemma trim_trim_end: "trim (trim_end_by is_whitespace s) = trim s"
  using trim_end_by_prefix [of s is_whitespace] trim_append_whitespace by metis

lemma length_trim_le: "length (trim s) \<le> length s"
  using length_dropWhile_le
  by (metis dual_order.trans length_rev trim_def trim_end_by_def trim_start_by_def)

lemma set_trim_subset: "set (trim s) \<subseteq> set s"
  by (auto simp: trim_def trim_end_by_def trim_start_by_def dest!: set_dropWhileD)

subsection \<open>Letter case\<close>

definition ascii_lower :: "uchar \<Rightarrow> uchar" where
  "ascii_lower c = (if 65 \<le> c \<and> c \<le> 90 then c + 32 else c)"

definition ascii_upper :: "uchar \<Rightarrow> uchar" where
  "ascii_upper c = (if 97 \<le> c \<and> c \<le> 122 then c - 32 else c)"

definition to_ascii_lowercase :: "str \<Rightarrow> str" where
  "to_ascii_lowercase s = map ascii_lower s"

definition to_ascii_uppercase :: "str \<Rightarrow> str" where
  "to_ascii_uppercase s = map ascii_upper s"

definition eq_ignore_ascii_case :: "str \<Rightarrow> str \<Rightarrow> bool" where
  "eq_ignore_ascii_case a b \<longleftrightarrow> to_ascii_lowercase a = to_ascii_lowercase b"

fun lower_in_runs :: "(nat \<times> nat \<times> nat \<times> int) list \<Rightarrow> uchar \<Rightarrow> uchar" where
  "lower_in_runs [] c = c"
| "lower_in_runs ((lo, hi, step, delta) # rs) c =
     (if lo \<le> c \<and> c \<le> hi \<and> (c - lo) mod step = 0 then nat (int c + delta)
      else lower_in_runs rs c)"

definition lower_char :: "uchar \<Rightarrow> str" where
  "lower_char c =
     (if c < 128 then [ascii_lower c]
      else if c = 304 then [105, 775]
      else [lower_in_runs lower_runs c])"

definition in_ranges :: "(nat \<times> nat) list \<Rightarrow> uchar \<Rightarrow> bool" where
  "in_ranges rs c = list_ex (\<lambda>(lo, hi). lo \<le> c \<and> c \<le> hi) rs"

definition case_ignorable_then_cased :: "uchar list \<Rightarrow> bool" where
  "case_ignorable_then_cased cs =
     (case dropWhile (in_ranges case_ignorable_ranges) cs of
        [] \<Rightarrow> False | c # _ \<Rightarrow> in_ranges cased_ranges c)"

text \<open>
  \<^verbatim>\<open>str::to_lowercase\<close>: character by character, but a capital sigma becomes the final form
  when a cased letter precedes it and none follows. \<open>before\<close> holds the characters already
  passed, nearest first.
\<close>

fun lower_from :: "uchar list \<Rightarrow> str \<Rightarrow> str" where
  "lower_from before [] = []"
| "lower_from before (c # s) =
     (if c = 931
      then [if case_ignorable_then_cased before \<and> \<not> case_ignorable_then_cased s then 962 else 963]
      else lower_char c) @ lower_from (c # before) s"

definition to_lowercase :: "str \<Rightarrow> str" where
  "to_lowercase s = lower_from [] s"

definition ascii_str :: "str \<Rightarrow> bool" where
  "ascii_str s \<longleftrightarrow> (\<forall>c\<in>set s. c < 128)"

lemma ascii_str_simps [simp]:
  "ascii_str []" "ascii_str (c # s) \<longleftrightarrow> c < 128 \<and> ascii_str s"
  "ascii_str (s @ t) \<longleftrightarrow> ascii_str s \<and> ascii_str t"
  by (auto simp: ascii_str_def)

lemma lower_from_ascii: "ascii_str s \<Longrightarrow> lower_from b s = to_ascii_lowercase s"
  by (induction s arbitrary: b) (auto simp: to_ascii_lowercase_def lower_char_def)

lemma to_lowercase_ascii [text_simps]: "ascii_str s \<Longrightarrow> to_lowercase s = to_ascii_lowercase s"
  by (simp add: to_lowercase_def lower_from_ascii)

lemmas text_eval = trim_def trim_start_by_def trim_end_by_def is_whitespace_def to_lowercase_ascii
  to_ascii_lowercase_def ascii_lower_def

lemma lower_from_ascii_append:
  "ascii_str p \<Longrightarrow> lower_from b (p @ s) = to_ascii_lowercase p @ lower_from (rev p @ b) s"
  by (induction p arbitrary: b) (auto simp: to_ascii_lowercase_def lower_char_def)

lemma to_lowercase_Nil [simp]: "to_lowercase [] = []"
  by (simp add: to_lowercase_def)

lemma lower_from_eq_Nil [simp]: "lower_from b s = [] \<longleftrightarrow> s = []"
  by (cases s) (auto simp: lower_char_def)

lemma to_lowercase_eq_Nil [simp]: "to_lowercase s = [] \<longleftrightarrow> s = []"
  by (simp add: to_lowercase_def)

lemma ascii_lower_idem [simp]: "ascii_lower (ascii_lower c) = ascii_lower c"
  by (simp add: ascii_lower_def)

lemma to_ascii_lowercase_idem [simp]:
  "to_ascii_lowercase (to_ascii_lowercase s) = to_ascii_lowercase s"
  by (simp add: to_ascii_lowercase_def)

lemma eq_ignore_ascii_case_refl [simp]: "eq_ignore_ascii_case s s"
  by (simp add: eq_ignore_ascii_case_def)

subsection \<open>Numbers as text\<close>

fun show_nat :: "nat \<Rightarrow> str" where
  "show_nat n = (if n < 10 then [48 + n] else show_nat (n div 10) @ [48 + n mod 10])"

declare show_nat.simps [simp del]

definition show_int :: "int \<Rightarrow> str" where
  "show_int i = (if i < 0 then 45 # show_nat (nat (- i)) else show_nat (nat i))"

fun digits_value :: "str \<Rightarrow> nat \<Rightarrow> nat" where
  "digits_value [] acc = acc"
| "digits_value (c # s) acc = digits_value s (10 * acc + (c - 48))"

lemma digits_value_append: "digits_value (s @ t) acc = digits_value t (digits_value s acc)"
  by (induction s arbitrary: acc) auto

lemma digits_value_show_nat [simp]: "digits_value (show_nat n) 0 = n"
proof (induction n rule: show_nat.induct)
  case (1 n)
  then show ?case
    by (cases "n < 10") (simp_all add: show_nat.simps [of n] digits_value_append)
qed

lemma show_nat_inject [simp]: "show_nat a = show_nat b \<longleftrightarrow> a = b"
  by (metis digits_value_show_nat)

lemma show_nat_digits: "c \<in> set (show_nat n) \<Longrightarrow> 48 \<le> c \<and> c \<le> 57"
proof (induction n rule: show_nat.induct)
  case (1 n)
  then show ?case
    by (cases "n < 10") (auto simp: show_nat.simps [of n])
qed

lemma show_nat_neq_Nil [simp]: "show_nat n \<noteq> []"
  by (simp add: show_nat.simps [of n])

lemma show_int_inject [simp]: "show_int a = show_int b \<longleftrightarrow> a = b"
proof
  assume eq: "show_int a = show_int b"
  have no_minus: "show_nat n \<noteq> 45 # t" for n t
    using show_nat_digits [of 45 n] by auto
  from eq show "a = b"
    by (auto simp: show_int_def no_minus no_minus [symmetric] split: if_splits)
qed simp

subsection \<open>UTF-8 is injective\<close>

definition wf_str :: "str \<Rightarrow> bool" where
  "wf_str s \<longleftrightarrow> (\<forall>c\<in>set s. c < 1114112)"

definition utf8_units :: "uchar \<Rightarrow> nat list" where
  "utf8_units c =
    (if c < 128 then [c]
     else if c < 2048 then [192 + c div 64, 128 + c mod 64]
     else if c < 65536 then [224 + c div 4096, 128 + c div 64 mod 64, 128 + c mod 64]
     else [240 + c div 262144, 128 + c div 4096 mod 64, 128 + c div 64 mod 64, 128 + c mod 64])"

lemma utf8_char_units: "utf8_char c = map word_of_nat (utf8_units c)"
  by (simp add: utf8_char_def utf8_units_def)

lemma utf8_units_bound:
  assumes "c < 1114112" and "b \<in> set (utf8_units c)"
  shows "b < 256"
proof -
  consider "c < 128" | "128 \<le> c" "c < 2048" | "2048 \<le> c" "c < 65536" | "65536 \<le> c"
    by linarith
  then show ?thesis
  proof cases
    case 1
    with assms show ?thesis by (simp add: utf8_units_def)
  next
    case 2
    then have "c div 64 < 32" and "c mod 64 < 64" by simp_all
    with 2 assms show ?thesis by (auto simp: utf8_units_def)
  next
    case 3
    then have "c div 4096 < 16" and "c div 64 mod 64 < 64" and "c mod 64 < 64" by simp_all
    with 3 assms show ?thesis by (auto simp: utf8_units_def)
  next
    case 4
    with assms have "c div 262144 < 5" by simp
    moreover have "c div 4096 mod 64 < 64" and "c div 64 mod 64 < 64" and "c mod 64 < 64"
      by simp_all
    ultimately show ?thesis using 4 assms by (auto simp: utf8_units_def)
  qed
qed

lemma utf8_units_neq_Nil [simp]: "utf8_units c \<noteq> []"
  by (simp add: utf8_units_def)

lemma length_utf8_units:
  "length (utf8_units c) =
     (if hd (utf8_units c) < 128 then 1 else if hd (utf8_units c) < 224 then 2
      else if hd (utf8_units c) < 240 then 3 else 4)"
proof -
  have "c < 2048 \<longrightarrow> c div 64 < 32" and "c < 65536 \<longrightarrow> c div 4096 < 16" by auto
  then show ?thesis by (auto simp: utf8_units_def)
qed

lemma utf8_units_inject: "utf8_units c = utf8_units d \<Longrightarrow> c = d"
proof -
  assume eq: "utf8_units c = utf8_units d"
  have split64: "x = x div 64 * 64 + x mod 64" for x :: nat by simp
  have split4096: "x = x div 4096 * 4096 + x div 64 mod 64 * 64 + x mod 64" for x :: nat
  proof -
    have "x div 64 div 64 = x div 4096" by (simp add: div_mult2_eq [symmetric])
    with split64 [of x] split64 [of "x div 64"] show ?thesis by linarith
  qed
  have split262144: "x = x div 262144 * 262144 + x div 4096 mod 64 * 4096 + x div 64 mod 64 * 64 + x mod 64"
    for x :: nat
  proof -
    have "x div 4096 div 64 = x div 262144" by (simp add: div_mult2_eq [symmetric])
    with split4096 [of x] split64 [of "x div 4096"] show ?thesis by linarith
  qed
  from eq have len: "length (utf8_units c) = length (utf8_units d)" by simp
  show "c = d"
  proof -
    consider "length (utf8_units c) = 1" | "length (utf8_units c) = 2"
      | "length (utf8_units c) = 3" | "length (utf8_units c) = 4"
      using length_utf8_units [of c] by (metis (full_types))
    then show ?thesis
    proof cases
      case 1
      with eq len show ?thesis by (auto simp: utf8_units_def split: if_splits)
    next
      case 2
      with eq len have "c div 64 = d div 64" "c mod 64 = d mod 64"
        by (auto simp: utf8_units_def split: if_splits)
      then show ?thesis using split64 [of c] split64 [of d] by simp
    next
      case 3
      with eq len have "c div 4096 = d div 4096" "c div 64 mod 64 = d div 64 mod 64" "c mod 64 = d mod 64"
        by (auto simp: utf8_units_def split: if_splits)
      then show ?thesis using split4096 [of c] split4096 [of d] by metis
    next
      case 4
      with eq len have "c div 262144 = d div 262144" "c div 4096 mod 64 = d div 4096 mod 64"
        "c div 64 mod 64 = d div 64 mod 64" "c mod 64 = d mod 64"
        by (auto simp: utf8_units_def split: if_splits)
      then show ?thesis using split262144 [of c] split262144 [of d] by metis
    qed
  qed
qed

lemma utf8_units_prefix_free:
  assumes "utf8_units c @ s = utf8_units d @ t"
  shows "c = d \<and> s = t"
proof -
  have "hd (utf8_units c) = hd (utf8_units d)"
    using assms by (metis hd_append2 utf8_units_neq_Nil)
  then have "length (utf8_units c) = length (utf8_units d)"
    by (simp add: length_utf8_units)
  with assms have "utf8_units c = utf8_units d" and "s = t" by (simp_all add: append_eq_append_conv)
  then show ?thesis using utf8_units_inject by blast
qed

lemma concat_utf8_units_inject:
  "concat (map utf8_units s) = concat (map utf8_units t) \<Longrightarrow> s = t"
proof (induction s arbitrary: t)
  case Nil
  then show ?case by (cases t) auto
next
  case (Cons c s)
  then obtain d t' where t: "t = d # t'"
    by (cases t) auto
  with Cons.prems have "c = d \<and> concat (map utf8_units s) = concat (map utf8_units t')"
    by (intro utf8_units_prefix_free) simp
  with Cons.IH t show ?case by simp
qed

lemma map_word_of_nat_inject:
  assumes "\<forall>x\<in>set xs. x < 256" and "\<forall>y\<in>set ys. y < 256"
    and "map (word_of_nat :: nat \<Rightarrow> byte) xs = map word_of_nat ys"
  shows "xs = ys"
proof -
  have "map unat (map (word_of_nat :: nat \<Rightarrow> byte) zs) = zs" if "\<forall>z\<in>set zs. z < 256" for zs
    using that by (induction zs) (auto simp: unat_of_nat)
  with assms show ?thesis by metis
qed

lemma utf8_inject:
  assumes "wf_str s" and "wf_str t" and "utf8 s = utf8 t"
  shows "s = t"
proof (rule concat_utf8_units_inject, rule map_word_of_nat_inject)
  show "\<forall>x\<in>set (concat (map utf8_units s)). x < 256"
    using assms(1) utf8_units_bound by (auto simp: wf_str_def)
  show "\<forall>x\<in>set (concat (map utf8_units t)). x < 256"
    using assms(2) utf8_units_bound by (auto simp: wf_str_def)
  have "utf8 u = map word_of_nat (concat (map utf8_units u))" for u
    by (induction u) (auto simp: utf8_char_units)
  with assms(3) show "map (word_of_nat :: nat \<Rightarrow> byte) (concat (map utf8_units s))
      = map word_of_nat (concat (map utf8_units t))" by simp
qed

subsection \<open>Enumerations with a text form\<close>

text \<open>
  Most configuration enums come with \<^verbatim>\<open>as_str\<close> and \<^verbatim>\<open>parse\<close>. The contract: parsing the
  printed form gives back the value, up to aliases (\<open>canon\<close> names the variant an alias
  stands for, the identity where there are none).
\<close>

locale text_codec =
  fixes as_str :: "'a \<Rightarrow> str" and parse :: "str \<Rightarrow> 'a option" and canon :: "'a \<Rightarrow> 'a"
  assumes parse_as_str: "parse (as_str x) = Some (canon x)"
    and as_str_canon: "as_str (canon x) = as_str x"
begin

lemma canon_idem: "canon (canon x) = canon x"
  using parse_as_str [of "canon x"] parse_as_str [of x] by (simp add: as_str_canon)

lemma as_str_eq_iff: "as_str x = as_str y \<longleftrightarrow> canon x = canon y"
  by (metis as_str_canon option.inject parse_as_str)

lemma reparse: "parse s = Some x \<Longrightarrow> parse (as_str x) = Some (canon x)"
  by (rule parse_as_str)

end

end
