(* ===== verification/Recipient.thy ===== *)
theory Recipient
  imports Rust_Text
begin

text \<open>
  Recipient rows (\<^verbatim>\<open>pst-reader/src/messaging/recipient.rs\<close>): the MAPI recipient type, the row
  record, and the cascade that turns a row into the identity key the strong content hash uses.
  Reading the rows out of the table of a message is in \<^verbatim>\<open>Recipient_Reader\<close>.
\<close>

datatype RecipientType = RtTo | RtCc | RtBcc | RtOther u32

fun rt_from_mapi :: "u32 \<Rightarrow> RecipientType" where
  "rt_from_mapi v =
     (if v = 1 then RtTo else if v = 2 then RtCc else if v = 3 then RtBcc else RtOther v)"

fun rt_to_mapi :: "RecipientType \<Rightarrow> u32" where
  "rt_to_mapi RtTo = 1"
| "rt_to_mapi RtCc = 2"
| "rt_to_mapi RtBcc = 3"
| "rt_to_mapi (RtOther v) = v"

record Recipient =
  rcp_recipient_type :: RecipientType
  rcp_display_name :: "str option"
  rcp_address_type :: "str option"
  rcp_email_address :: "str option"
  rcp_smtp_address :: "str option"

definition nonempty_str :: "str option \<Rightarrow> str option" where
  "nonempty_str s =
     (case s of None \<Rightarrow> None | Some t \<Rightarrow> (let u = trim t in if u = [] then None else Some u))"

definition looks_like_smtp :: "str \<Rightarrow> bool" where
  "looks_like_smtp addr =
     (case find_char 64 addr of
        None \<Rightarrow> False
      | Some i \<Rightarrow> 0 < i \<and> i + 1 < length addr \<and> 46 \<in> set (drop (i + 1) addr))"

definition looks_like_x500_dn :: "str \<Rightarrow> bool" where
  "looks_like_x500_dn s =
     (let u = to_ascii_uppercase s
      in str_contains u (lit ''/O='') \<or> str_contains u (lit ''/OU='') \<or>
         str_contains u (lit ''/CN=''))"

definition is_ex_address :: "str option \<Rightarrow> str \<Rightarrow> bool" where
  "is_ex_address type_upper email =
     (if type_upper = Some (lit ''EX'') then True else looks_like_x500_dn email)"

definition identity_key :: "Recipient \<Rightarrow> str option" where
  "identity_key r =
     (case nonempty_str (rcp_smtp_address r) of
        Some smtp \<Rightarrow> Some (to_ascii_lowercase smtp)
      | None \<Rightarrow>
          (let fallback = map_option to_ascii_lowercase (nonempty_str (rcp_display_name r));
               type_upper = map_option to_ascii_uppercase (nonempty_str (rcp_address_type r))
           in case nonempty_str (rcp_email_address r) of
                None \<Rightarrow> fallback
              | Some email \<Rightarrow>
                  (let is_smtp_type = (type_upper = Some (lit ''SMTP''));
                       type_missing = (type_upper = None);
                       smtp_shaped = looks_like_smtp email
                   in if is_smtp_type \<or> (type_missing \<and> smtp_shaped)
                      then Some (to_ascii_lowercase email)
                      else if is_ex_address type_upper email
                      then Some (to_ascii_uppercase email)
                      else fallback)))"

definition identity_is_x500 :: "Recipient \<Rightarrow> bool" where
  "identity_is_x500 r =
     (if (case nonempty_str (rcp_address_type r) of
            None \<Rightarrow> False | Some t \<Rightarrow> eq_ignore_ascii_case t (lit ''EX''))
      then True
      else if (case nonempty_str (rcp_email_address r) of
                 None \<Rightarrow> False | Some email \<Rightarrow> looks_like_x500_dn email)
      then True
      else (case identity_key r of None \<Rightarrow> False | Some k \<Rightarrow> looks_like_x500_dn k))"

subsection \<open>Lemmas\<close>

lemma nonempty_str_Some:
  "nonempty_str s = Some u \<longleftrightarrow> (\<exists>t. s = Some t \<and> trim t = u \<and> u \<noteq> [])"
  by (auto simp: nonempty_str_def Let_def split: option.splits if_splits)

lemma nonempty_str_None:
  "nonempty_str s = None \<longleftrightarrow> (\<forall>t. s = Some t \<longrightarrow> trim t = [])"
  by (auto simp: nonempty_str_def Let_def split: option.splits if_splits)

lemma length_to_ascii [simp]:
  "length (to_ascii_lowercase s) = length s" "length (to_ascii_uppercase s) = length s"
  by (simp_all add: to_ascii_lowercase_def to_ascii_uppercase_def)

lemma to_ascii_eq_Nil [simp]:
  "to_ascii_lowercase s = [] \<longleftrightarrow> s = []" "to_ascii_uppercase s = [] \<longleftrightarrow> s = []"
  by (simp_all add: to_ascii_lowercase_def to_ascii_uppercase_def)

lemma ascii_lower_whitespace [simp]: "is_whitespace (ascii_lower c) \<longleftrightarrow> is_whitespace c"
  by (auto simp: ascii_lower_def is_whitespace_def)

lemma ascii_upper_whitespace [simp]: "is_whitespace (ascii_upper c) \<longleftrightarrow> is_whitespace c"
  by (auto simp: ascii_upper_def is_whitespace_def)

lemma trimmed_map:
  assumes "\<And>c. is_whitespace (f c) = is_whitespace c"
  shows "trimmed (map f s) \<longleftrightarrow> trimmed s"
  by (cases "s = []") (simp_all add: trimmed_def hd_map last_map assms)

lemma trimmed_to_ascii [simp]:
  "trimmed (to_ascii_lowercase s) \<longleftrightarrow> trimmed s" "trimmed (to_ascii_uppercase s) \<longleftrightarrow> trimmed s"
  by (simp_all add: to_ascii_lowercase_def to_ascii_uppercase_def trimmed_map)

lemma identity_key_trimmed_nonempty:
  assumes "identity_key r = Some k"
  shows "k \<noteq> [] \<and> trimmed k"
proof -
  have tr: "u \<noteq> [] \<and> trimmed u" if "nonempty_str s = Some u" for s u
    using that by (auto simp: nonempty_str_Some)
  from assms show ?thesis
    by (auto simp: identity_key_def Let_def split: option.splits if_splits
        dest!: tr)
qed

end
