(* ===== verification/Grouping.thy ===== *)
theory Grouping
  imports Recipient
begin

text \<open>
  Grouping configuration and bind provenance (\<^verbatim>\<open>dedup-engine/src/grouping.rs\<close>): the enums with
  their text forms, the grouping context with its effective guards, the honesty counters, the
  recipient normalisation, and the Message-ID compatibility table for joining a group by
  content hash.
\<close>

subsection \<open>Enumerations\<close>

datatype DedupeScope = Global | PerSource

fun scope_as_str :: "DedupeScope \<Rightarrow> str" where
  "scope_as_str Global = lit ''global''"
| "scope_as_str PerSource = lit ''per-source''"

definition scope_parse :: "str \<Rightarrow> DedupeScope option" where
  "scope_parse s =
     (if s = lit ''global'' then Some Global
      else if s = lit ''per-source'' \<or> s = lit ''per_source'' then Some PerSource
      else None)"

datatype IdentityLevel = IdOff | IdV1 | IdBody | IdBodyRecip | IdBodyRecipAttach

fun identity_as_str :: "IdentityLevel \<Rightarrow> str" where
  "identity_as_str IdOff = lit ''off''"
| "identity_as_str IdV1 = lit ''off''"
| "identity_as_str IdBody = lit ''body''"
| "identity_as_str IdBodyRecip = lit ''body-recip''"
| "identity_as_str IdBodyRecipAttach = lit ''body-recip-attach''"

fun identity_version :: "IdentityLevel \<Rightarrow> str" where
  "identity_version IdOff = lit ''v1''"
| "identity_version IdV1 = lit ''v1''"
| "identity_version IdBody = lit ''v2''"
| "identity_version IdBodyRecip = lit ''v2''"
| "identity_version IdBodyRecipAttach = lit ''v2''"

definition is_strong :: "IdentityLevel \<Rightarrow> bool" where
  "is_strong l \<longleftrightarrow> \<not> (l = IdOff \<or> l = IdV1)"

definition includes_body :: "IdentityLevel \<Rightarrow> bool" where
  "includes_body l = is_strong l"

definition includes_recipients :: "IdentityLevel \<Rightarrow> bool" where
  "includes_recipients l \<longleftrightarrow> l = IdBodyRecip \<or> l = IdBodyRecipAttach"

definition includes_attach_content :: "IdentityLevel \<Rightarrow> bool" where
  "includes_attach_content l \<longleftrightarrow> l = IdBodyRecipAttach"

definition identity_parse :: "str \<Rightarrow> IdentityLevel option" where
  "identity_parse s =
     (if s = lit ''off'' \<or> s = lit ''v1'' then Some IdOff
      else if s = lit ''body'' then Some IdBody
      else if s = lit ''body-recip'' \<or> s = lit ''body_recip'' then Some IdBodyRecip
      else if s = lit ''body-recip-attach'' \<or> s = lit ''body_recip_attach''
      then Some IdBodyRecipAttach
      else None)"

datatype Tier1Verify = TvOff | TvContent | TvBody

fun tier1_verify_as_str :: "Tier1Verify \<Rightarrow> str" where
  "tier1_verify_as_str TvOff = lit ''off''"
| "tier1_verify_as_str TvContent = lit ''content''"
| "tier1_verify_as_str TvBody = lit ''body''"

definition tier1_verify_parse :: "str \<Rightarrow> Tier1Verify option" where
  "tier1_verify_parse s =
     (if s = lit ''off'' then Some TvOff
      else if s = lit ''content'' then Some TvContent
      else if s = lit ''body'' then Some TvBody
      else None)"

datatype BoundBy = Seed | ByMessageId | ByContentHash | ByStrongContentHash

fun bound_by_as_str :: "BoundBy \<Rightarrow> str" where
  "bound_by_as_str Seed = lit ''seed''"
| "bound_by_as_str ByMessageId = lit ''message_id''"
| "bound_by_as_str ByContentHash = lit ''content_hash''"
| "bound_by_as_str ByStrongContentHash = lit ''content_hash_strong''"

fun tier_csv :: "BoundBy \<Rightarrow> str option" where
  "tier_csv Seed = None"
| "tier_csv ByMessageId = Some (lit ''message_id'')"
| "tier_csv ByContentHash = Some (lit ''content_hash'')"
| "tier_csv ByStrongContentHash = Some (lit ''content_hash_strong'')"

interpretation scope_text: text_codec scope_as_str scope_parse "\<lambda>x. x"
proof
  show "scope_parse (scope_as_str x) = Some x" for x
    by (cases x) (simp_all add: scope_parse_def lit_eq_iff)
qed simp

interpretation identity_text: text_codec identity_as_str identity_parse
  "\<lambda>l. if l = IdV1 then IdOff else l"
proof
  show "identity_parse (identity_as_str x) = Some (if x = IdV1 then IdOff else x)" for x
    by (cases x) (simp_all add: identity_parse_def lit_eq_iff)
qed simp

interpretation tier1_verify_text: text_codec tier1_verify_as_str tier1_verify_parse "\<lambda>x. x"
proof
  show "tier1_verify_parse (tier1_verify_as_str x) = Some x" for x
    by (cases x) (simp_all add: tier1_verify_parse_def lit_eq_iff)
qed simp

subsection \<open>The grouping context\<close>

record GroupingContext =
  gx_tier2_enabled :: bool
  gx_scope :: DedupeScope
  gx_tier1_authority :: bool
  gx_require_readable_body :: bool
  gx_identity :: IdentityLevel
  gx_tier1_verify :: Tier1Verify
  gx_allow_degenerate_tier2 :: bool
  gx_allow_crc_suspect_tier2 :: bool
  gx_allow_cross_mid_tier2 :: bool
  gx_tier1_backfill :: bool
  gx_ignore_inline_attachments :: bool

definition default_context :: GroupingContext where
  "default_context =
     \<lparr> gx_tier2_enabled = True, gx_scope = Global, gx_tier1_authority = True,
       gx_require_readable_body = True, gx_identity = IdOff, gx_tier1_verify = TvOff,
       gx_allow_degenerate_tier2 = False, gx_allow_crc_suspect_tier2 = False,
       gx_allow_cross_mid_tier2 = False, gx_tier1_backfill = False,
       gx_ignore_inline_attachments = False \<rparr>"

definition pre_0076 :: GroupingContext where
  "pre_0076 = default_context
     \<lparr> gx_tier1_authority := False, gx_require_readable_body := False,
       gx_allow_degenerate_tier2 := True, gx_allow_cross_mid_tier2 := True \<rparr>"

definition allow_crc_suspect_tier2_for :: "GroupingContext \<Rightarrow> str \<Rightarrow> bool" where
  "allow_crc_suspect_tier2_for ctx path_key = gx_allow_crc_suspect_tier2 ctx"

definition with_tier2 :: "bool \<Rightarrow> GroupingContext" where
  "with_tier2 enabled = default_context \<lparr> gx_tier2_enabled := enabled \<rparr>"

definition block_cross_mid :: "GroupingContext \<Rightarrow> bool" where
  "block_cross_mid ctx \<longleftrightarrow> gx_tier1_authority ctx \<and> \<not> gx_allow_cross_mid_tier2 ctx"

definition enforce_readable_body :: "GroupingContext \<Rightarrow> bool" where
  "enforce_readable_body ctx \<longleftrightarrow> gx_require_readable_body ctx \<and> \<not> gx_allow_degenerate_tier2 ctx"

subsection \<open>Counters\<close>

record GroupingStats =
  gs_tier2_blocked_unreadable_body :: u64
  gs_tier2_blocked_degenerate :: u64
  gs_tier2_blocked_crc_suspect :: u64
  gs_cross_mid_blocked :: u64
  gs_cross_mid_blocked_groups :: u64
  gs_cross_mid_blocked_max_group :: u64
  gs_tier1_divergent_body :: u64
  gs_tier1_divergent_metadata :: u64
  gs_tier1_divergent_recipients :: u64
  gs_tier1_backfill_candidates :: u64
  gs_tier2_5_splits :: u64
  gs_tier2_5_splits_bcc_only :: u64
  gs_tier2_5_splits_recipients_only :: u64
  gs_x500_recipient_items :: u64
  gs_inline_attachments_ignored :: u64
  gs_strong_hash_attach_unread :: u64
  gs_strong_hash_attach_digested :: u64
  gs_strong_hash_attach_bytes :: u64
  gs_strong_hash_attach_truncated :: u64
  gs_strong_hash_embedded_parsed :: u64
  gs_strong_hash_embedded_depth_limit :: u64
  gs_strong_hash_embedded_unparsed :: u64
  gs_tier2_preview_bytes_over_budget :: u64

definition default_stats :: GroupingStats where
  "default_stats =
     \<lparr> gs_tier2_blocked_unreadable_body = 0, gs_tier2_blocked_degenerate = 0,
       gs_tier2_blocked_crc_suspect = 0, gs_cross_mid_blocked = 0,
       gs_cross_mid_blocked_groups = 0, gs_cross_mid_blocked_max_group = 0,
       gs_tier1_divergent_body = 0, gs_tier1_divergent_metadata = 0,
       gs_tier1_divergent_recipients = 0, gs_tier1_backfill_candidates = 0,
       gs_tier2_5_splits = 0, gs_tier2_5_splits_bcc_only = 0,
       gs_tier2_5_splits_recipients_only = 0, gs_x500_recipient_items = 0,
       gs_inline_attachments_ignored = 0, gs_strong_hash_attach_unread = 0,
       gs_strong_hash_attach_digested = 0, gs_strong_hash_attach_bytes = 0,
       gs_strong_hash_attach_truncated = 0, gs_strong_hash_embedded_parsed = 0,
       gs_strong_hash_embedded_depth_limit = 0, gs_strong_hash_embedded_unparsed = 0,
       gs_tier2_preview_bytes_over_budget = 0 \<rparr>"

definition merge_from :: "GroupingStats \<Rightarrow> GroupingStats \<Rightarrow> GroupingStats" where
  "merge_from s o' =
     \<lparr> gs_tier2_blocked_unreadable_body =
         gs_tier2_blocked_unreadable_body s + gs_tier2_blocked_unreadable_body o',
       gs_tier2_blocked_degenerate =
         gs_tier2_blocked_degenerate s + gs_tier2_blocked_degenerate o',
       gs_tier2_blocked_crc_suspect =
         gs_tier2_blocked_crc_suspect s + gs_tier2_blocked_crc_suspect o',
       gs_cross_mid_blocked = gs_cross_mid_blocked s + gs_cross_mid_blocked o',
       gs_cross_mid_blocked_groups =
         gs_cross_mid_blocked_groups s + gs_cross_mid_blocked_groups o',
       gs_cross_mid_blocked_max_group =
         max (gs_cross_mid_blocked_max_group s) (gs_cross_mid_blocked_max_group o'),
       gs_tier1_divergent_body = gs_tier1_divergent_body s + gs_tier1_divergent_body o',
       gs_tier1_divergent_metadata =
         gs_tier1_divergent_metadata s + gs_tier1_divergent_metadata o',
       gs_tier1_divergent_recipients =
         gs_tier1_divergent_recipients s + gs_tier1_divergent_recipients o',
       gs_tier1_backfill_candidates =
         gs_tier1_backfill_candidates s + gs_tier1_backfill_candidates o',
       gs_tier2_5_splits = gs_tier2_5_splits s + gs_tier2_5_splits o',
       gs_tier2_5_splits_bcc_only =
         gs_tier2_5_splits_bcc_only s + gs_tier2_5_splits_bcc_only o',
       gs_tier2_5_splits_recipients_only =
         gs_tier2_5_splits_recipients_only s + gs_tier2_5_splits_recipients_only o',
       gs_x500_recipient_items = gs_x500_recipient_items s + gs_x500_recipient_items o',
       gs_inline_attachments_ignored =
         gs_inline_attachments_ignored s + gs_inline_attachments_ignored o',
       gs_strong_hash_attach_unread =
         gs_strong_hash_attach_unread s + gs_strong_hash_attach_unread o',
       gs_strong_hash_attach_digested =
         gs_strong_hash_attach_digested s + gs_strong_hash_attach_digested o',
       gs_strong_hash_attach_bytes =
         gs_strong_hash_attach_bytes s + gs_strong_hash_attach_bytes o',
       gs_strong_hash_attach_truncated =
         gs_strong_hash_attach_truncated s + gs_strong_hash_attach_truncated o',
       gs_strong_hash_embedded_parsed =
         gs_strong_hash_embedded_parsed s + gs_strong_hash_embedded_parsed o',
       gs_strong_hash_embedded_depth_limit =
         gs_strong_hash_embedded_depth_limit s + gs_strong_hash_embedded_depth_limit o',
       gs_strong_hash_embedded_unparsed =
         gs_strong_hash_embedded_unparsed s + gs_strong_hash_embedded_unparsed o',
       gs_tier2_preview_bytes_over_budget =
         gs_tier2_preview_bytes_over_budget s + gs_tier2_preview_bytes_over_budget o' \<rparr>"

definition any_guard_fired :: "GroupingStats \<Rightarrow> bool" where
  "any_guard_fired s \<longleftrightarrow>
     gs_tier2_blocked_unreadable_body s > 0 \<or> gs_tier2_blocked_degenerate s > 0 \<or>
     gs_tier2_blocked_crc_suspect s > 0 \<or> gs_cross_mid_blocked s > 0 \<or>
     gs_tier2_preview_bytes_over_budget s > 0 \<or> gs_tier1_divergent_body s > 0"

text \<open>Merging counters is the operation of a commutative monoid, so the order does not matter.\<close>

interpretation stats_merge: comm_monoid merge_from default_stats
proof
  show "merge_from (merge_from a b) c = merge_from a (merge_from b c)" for a b c
    by (simp add: merge_from_def add.assoc max.assoc)
  show "merge_from a b = merge_from b a" for a b
    by (simp add: merge_from_def add.commute max.commute)
  show "merge_from a default_stats = a" for a
    by (simp add: merge_from_def default_stats_def)
qed

subsection \<open>Recipients on the canonical pipeline\<close>

datatype CanonicalRecipientType = CrTo | CrCc | CrBcc | CrOther u32

fun crt_from_reader :: "RecipientType \<Rightarrow> CanonicalRecipientType" where
  "crt_from_reader RtTo = CrTo"
| "crt_from_reader RtCc = CrCc"
| "crt_from_reader RtBcc = CrBcc"
| "crt_from_reader (RtOther v) = CrOther v"

fun crt_to_mapi :: "CanonicalRecipientType \<Rightarrow> u32" where
  "crt_to_mapi CrTo = 1"
| "crt_to_mapi CrCc = 2"
| "crt_to_mapi CrBcc = 3"
| "crt_to_mapi (CrOther v) = v"

definition crt_is_bcc :: "CanonicalRecipientType \<Rightarrow> bool" where
  "crt_is_bcc t \<longleftrightarrow> t = CrBcc"

record CanonicalRecipient =
  cr_recipient_type :: CanonicalRecipientType
  cr_display_name :: "str option"
  cr_address_type :: "str option"
  cr_email_address :: "str option"
  cr_smtp_address :: "str option"

definition cr_from_reader :: "Recipient \<Rightarrow> CanonicalRecipient" where
  "cr_from_reader r =
     \<lparr> cr_recipient_type = crt_from_reader (rcp_recipient_type r),
       cr_display_name = rcp_display_name r, cr_address_type = rcp_address_type r,
       cr_email_address = rcp_email_address r, cr_smtp_address = rcp_smtp_address r \<rparr>"

text \<open>Both delegating methods rebuild the reader's row and ask it.\<close>

fun crt_to_reader :: "CanonicalRecipientType \<Rightarrow> RecipientType" where
  "crt_to_reader CrTo = RtTo"
| "crt_to_reader CrCc = RtCc"
| "crt_to_reader CrBcc = RtBcc"
| "crt_to_reader (CrOther v) = RtOther v"

definition cr_to_reader :: "CanonicalRecipient \<Rightarrow> Recipient" where
  "cr_to_reader r =
     \<lparr> rcp_recipient_type = crt_to_reader (cr_recipient_type r),
       rcp_display_name = cr_display_name r, rcp_address_type = cr_address_type r,
       rcp_email_address = cr_email_address r, rcp_smtp_address = cr_smtp_address r \<rparr>"

definition cr_identity_key :: "CanonicalRecipient \<Rightarrow> str option" where
  "cr_identity_key r = identity_key (cr_to_reader r)"

definition cr_identity_is_x500 :: "CanonicalRecipient \<Rightarrow> bool" where
  "cr_identity_is_x500 r = identity_is_x500 (cr_to_reader r)"

definition normalize_recipients :: "str \<Rightarrow> str" where
  "normalize_recipients s =
     join_with (lit '';'')
       (sort (filter (\<lambda>p. p \<noteq> []) (map (\<lambda>p. to_lowercase (trim p)) (split_on 59 s))))"

definition normalize_recipient_identity_keys :: "str list \<Rightarrow> str" where
  "normalize_recipient_identity_keys keys =
     join_with (lit '';'') (sort (filter (\<lambda>k. k \<noteq> []) (map trim keys)))"

definition recipient_has_x500 :: "str \<Rightarrow> bool" where
  "recipient_has_x500 s = looks_like_x500_dn s"

subsection \<open>Message-ID compatibility\<close>

definition mid_present :: "str option \<Rightarrow> str option" where
  "mid_present mid = (case mid of None \<Rightarrow> None | Some m \<Rightarrow> if m = [] then None else Some m)"

definition mid_join_compatible :: "str option \<Rightarrow> str option \<Rightarrow> bool \<Rightarrow> bool \<times> str option" where
  "mid_join_compatible group_bound_mid item_mid block =
     (case (mid_present group_bound_mid, mid_present item_mid) of
        (None, None) \<Rightarrow> (True, None)
      | (None, Some m) \<Rightarrow> (True, Some m)
      | (Some gm, None) \<Rightarrow> (True, Some gm)
      | (Some gm, Some im) \<Rightarrow>
          if gm = im then (True, Some gm)
          else if \<not> block then (True, Some gm)
          else (False, None))"

subsection \<open>Lemmas\<close>

lemma cr_identity_key_from_reader [simp]: "cr_identity_key (cr_from_reader r) = identity_key r"
proof -
  have "crt_to_reader (crt_from_reader t) = t" for t by (cases t) auto
  then have "cr_to_reader (cr_from_reader r) = r"
    by (simp add: cr_to_reader_def cr_from_reader_def)
  then show ?thesis by (simp add: cr_identity_key_def)
qed

lemma mid_present_simps [simp]:
  "mid_present None = None" "mid_present (Some []) = None"
  "mid_present (Some (c # cs)) = Some (c # cs)"
  by (simp_all add: mid_present_def)

lemma mid_present_Some: "mid_present x = Some m \<longleftrightarrow> x = Some m \<and> m \<noteq> []"
  by (auto simp: mid_present_def split: option.splits)

lemma mid_present_idem [simp]: "mid_present (mid_present x) = mid_present x"
  by (auto simp: mid_present_def split: option.splits)

lemma mid_join_ok_iff:
  "fst (mid_join_compatible g i block) \<longleftrightarrow>
     \<not> block \<or> mid_present g = None \<or> mid_present i = None \<or> mid_present g = mid_present i"
  by (auto simp: mid_join_compatible_def split: option.splits)

lemma mid_join_bound:
  assumes "mid_join_compatible g i block = (True, nb)"
  shows "nb = (if mid_present g = None then mid_present i else mid_present g)"
  using assms by (auto simp: mid_join_compatible_def split: option.splits if_splits)

end
