(* ===== verification/Hasher.thy ===== *)
theory Hasher
  imports Grouping
begin

text \<open>
  Tiered hashing (\<^verbatim>\<open>dedup-engine/src/hasher.rs\<close>) and the identity hash of embedded messages
  (\<^verbatim>\<open>dedup-engine/src/embedded_hash.rs\<close>). SHA-256 comes from a third-party crate and is the
  parameter \<open>sha\<close> of every function that hashes; an incremental hasher fed with
  \<^verbatim>\<open>update\<close> calls is \<open>sha\<close> of the concatenation of what it was fed.
\<close>

type_synonym sha = "bytes \<Rightarrow> bytes"

subsection \<open>Data\<close>

record DedupKeys =
  dk_message_id :: "str option"
  dk_content_hash :: bytes
  dk_preview_bytes_over_budget :: bool
  dk_fp_header :: u64
  dk_fp_body :: u64
  dk_fp_recipients :: u64
  dk_fp_attachments :: u64
  dk_strong_content_hash :: "bytes option"

record AttachmentInfo =
  ai_filename :: str
  ai_size :: u32
  ai_is_inline :: bool
  ai_content_sha256 :: "bytes option"

definition attachment_new :: "str \<Rightarrow> u32 \<Rightarrow> AttachmentInfo" where
  "attachment_new filename sz =
     \<lparr> ai_filename = filename, ai_size = sz, ai_is_inline = False, ai_content_sha256 = None \<rparr>"

record StrongHashInput =
  sh_identity :: IdentityLevel
  sh_body_sha256 :: "bytes option"
  sh_body_char_len :: "u64 option"
  sh_display_to :: "str option"
  sh_display_cc :: "str option"
  sh_display_bcc :: "str option"
  sh_recipients :: "CanonicalRecipient list option"
  sh_ignore_inline_attachments :: bool

definition default_strong :: StrongHashInput where
  "default_strong =
     \<lparr> sh_identity = IdOff, sh_body_sha256 = None, sh_body_char_len = None, sh_display_to = None,
       sh_display_cc = None, sh_display_bcc = None, sh_recipients = None,
       sh_ignore_inline_attachments = False \<rparr>"

datatype Tier2IneligibleReason = UnreadableBody | Degenerate | ReasonCrcSuspect

subsection \<open>Attachment slots\<close>

definition ATTACH_UNREAD_DOMAIN :: bytes where
  "ATTACH_UNREAD_DOMAIN = utf8 (lit ''pst-dedup/attach-unread/v1'' @ [0])"

definition attach_unread_preimage :: "str \<Rightarrow> u32 \<Rightarrow> bytes" where
  "attach_unread_preimage filename sz =
     ATTACH_UNREAD_DOMAIN @ utf8 (to_lowercase filename) @ [0] @ le_bytes 4 sz"

definition attach_unread_sentinel :: "sha \<Rightarrow> str \<Rightarrow> u32 \<Rightarrow> bytes" where
  "attach_unread_sentinel sha filename sz = sha (attach_unread_preimage filename sz)"

definition attach_content_slot :: "sha \<Rightarrow> str \<Rightarrow> u32 \<Rightarrow> bytes option \<Rightarrow> bool \<Rightarrow> bytes" where
  "attach_content_slot sha filename sz content is_unread =
     (if is_unread then attach_unread_sentinel sha filename sz
      else (case content of None \<Rightarrow> attach_unread_sentinel sha filename sz | Some d \<Rightarrow> d))"

subsection \<open>Text normalisation\<close>

definition normalize_message_id :: "str \<Rightarrow> str" where
  "normalize_message_id mid =
     to_lowercase (trim (trim_end_by (\<lambda>c. c = 62) (trim_start_by (\<lambda>c. c = 60) (trim mid))))"

definition normalize_body_text :: "str \<Rightarrow> str" where
  "normalize_body_text body = to_lowercase (filter (\<lambda>c. \<not> is_whitespace c \<or> c = 32) body)"

text \<open>
  Slicing a string at a byte offset: \<open>None\<close> when the offset is not on a character
  boundary.
\<close>

fun slice_from :: "nat \<Rightarrow> str \<Rightarrow> str option" where
  "slice_from k s =
     (if k = 0 then Some s
      else (case s of
              [] \<Rightarrow> None
            | c # t \<Rightarrow>
                if length (utf8_char c) \<le> k then slice_from (k - length (utf8_char c)) t
                else None))"

declare slice_from.simps [simp del]

definition reply_strip_len :: "str \<Rightarrow> nat option" where
  "reply_strip_len lower =
     (if prefix (lit ''re:'') lower then Some 3
      else if prefix (lit ''fwd:'') lower then Some 4
      else if prefix (lit ''fw:'') lower then Some 3
      else None)"

lemma slice_from_shorter: "slice_from k s = Some u \<Longrightarrow> 0 < k \<Longrightarrow> length u < length s"
proof (induction k s arbitrary: u rule: slice_from.induct)
  case (1 k s)
  from "1.prems" obtain c t where s: "s = c # t" and le: "length (utf8_char c) \<le> k"
    and rest: "slice_from (k - length (utf8_char c)) t = Some u"
    by (auto simp: slice_from.simps [of k s] split: list.splits if_splits)
  show ?case
  proof (cases "k - length (utf8_char c) = 0")
    case True
    with rest s show ?thesis by (simp add: slice_from.simps)
  next
    case False
    with "1.IH" "1.prems" s le rest have "length u < length t" by simp
    with s show ?thesis by simp
  qed
qed

lemma reply_strip_len_pos: "reply_strip_len l = Some k \<Longrightarrow> 0 < k"
  by (auto simp: reply_strip_len_def split: if_splits)

text \<open>The prefix-stripping loop of \<^verbatim>\<open>normalize_subject\<close>, as a recursion on the shrinking subject.\<close>

function subject_loop :: "str \<Rightarrow> str" where
  "subject_loop s =
     (let trimmed_s = trim s; lower = to_lowercase trimmed_s
      in case reply_strip_len lower of
           None \<Rightarrow> s
         | Some strip_len \<Rightarrow>
             (case slice_from strip_len trimmed_s of
                None \<Rightarrow> s
              | Some rest \<Rightarrow> subject_loop rest))"
  by pat_completeness auto
termination
proof (relation "measure length")
  fix s trimmed_s lower strip_len rest
  assume "trimmed_s = trim s" "lower = to_lowercase trimmed_s"
    "reply_strip_len lower = Some strip_len" "slice_from strip_len trimmed_s = Some rest"
  then have "length rest < length (trim s)"
    using reply_strip_len_pos slice_from_shorter by metis
  then show "(rest, s) \<in> measure length"
    using length_trim_le [of s] by simp
qed simp

declare subject_loop.simps [simp del]

definition normalize_subject :: "str \<Rightarrow> str" where
  "normalize_subject subject = to_lowercase (trim (subject_loop (trim subject)))"

subsection \<open>Hashes\<close>

definition fingerprint64 :: "bytes \<Rightarrow> u64" where
  "fingerprint64 digest = of_le_bytes (take 8 digest)"

definition attachment_meta_strings :: "AttachmentInfo list \<Rightarrow> bool \<Rightarrow> str list" where
  "attachment_meta_strings attachments ignore_inline =
     sort (map (\<lambda>a. to_lowercase (ai_filename a) @ lit '':'' @ show_nat (ai_size a))
            (filter (\<lambda>a. \<not> (ignore_inline \<and> ai_is_inline a)) attachments))"

definition opt_bytes :: "('a \<Rightarrow> str) \<Rightarrow> 'a option \<Rightarrow> bytes" where
  "opt_bytes f x = (case x of None \<Rightarrow> [] | Some v \<Rightarrow> utf8 (f v))"

abbreviation bar :: bytes where
  "bar \<equiv> utf8 (lit ''|'')"

abbreviation semi :: bytes where
  "semi \<equiv> utf8 (lit '';'')"

definition header_preimage :: "str option \<Rightarrow> i64 option \<Rightarrow> str option \<Rightarrow> bytes" where
  "header_preimage subject submit_time sender_email =
     opt_bytes normalize_subject subject @ bar @
     opt_bytes show_int submit_time @ bar @
     opt_bytes (\<lambda>s. to_lowercase (trim s)) sender_email @ bar"

definition body_preview_text :: "str \<Rightarrow> str" where
  "body_preview_text body = take 4096 (normalize_body_text body)"

definition attach_preimage :: "AttachmentInfo list \<Rightarrow> bool \<Rightarrow> bytes" where
  "attach_preimage attachments ignore_inline =
     concat (map (\<lambda>a. utf8 a @ semi) (attachment_meta_strings attachments ignore_inline))"

definition content_preimage ::
  "str option \<Rightarrow> i64 option \<Rightarrow> str option \<Rightarrow> str option \<Rightarrow> AttachmentInfo list \<Rightarrow> bool \<Rightarrow> bytes" where
  "content_preimage subject submit_time sender_email body_preview attachments ignore_inline =
     header_preimage subject submit_time sender_email @
     opt_bytes body_preview_text body_preview @ bar @
     attach_preimage attachments ignore_inline"

definition compute_content_hash_detailed ::
  "sha \<Rightarrow> str option \<Rightarrow> i64 option \<Rightarrow> str option \<Rightarrow> str option \<Rightarrow> AttachmentInfo list \<Rightarrow> bool \<Rightarrow>
   bytes \<times> bool \<times> (u64 \<times> u64 \<times> u64 \<times> u64)" where
  "compute_content_hash_detailed sha subject submit_time sender_email body_preview attachments
       ignore_inline =
     (let content_hash =
            sha (content_preimage subject submit_time sender_email body_preview attachments
                  ignore_inline);
          preview_over =
            (case body_preview of None \<Rightarrow> False | Some b \<Rightarrow> str_len (normalize_body_text b) > 4096);
          fp_header = fingerprint64 (sha (header_preimage subject submit_time sender_email));
          fp_body = fingerprint64 (sha (opt_bytes body_preview_text body_preview));
          fp_recipients = 0;
          fp_attachments = fingerprint64 (sha (attach_preimage attachments ignore_inline))
      in (content_hash, preview_over, (fp_header, fp_body, fp_recipients, fp_attachments)))"


definition hash_full_body :: "sha \<Rightarrow> str \<Rightarrow> bytes \<times> u64" where
  "hash_full_body sha body =
     (let normalized = normalize_body_text body in (sha (utf8 normalized), length normalized))"

text \<open>
  The recipient fragment: sorted identity keys when the table yields any, the three display
  strings otherwise. The fingerprint, the strong preimage and the embedded hash each contain a
  copy of this choice; \<open>keys_of_rows\<close> is what they share.
\<close>

definition keys_of_rows :: "CanonicalRecipient list option \<Rightarrow> str list" where
  "keys_of_rows recipients =
     (case recipients of None \<Rightarrow> [] | Some rows \<Rightarrow> List.map_filter cr_identity_key rows)"

definition unwrap_or_empty :: "str option \<Rightarrow> str" where
  "unwrap_or_empty s = (case s of None \<Rightarrow> [] | Some t \<Rightarrow> t)"

definition recipients_fingerprint_ex ::
  "sha \<Rightarrow> str option \<Rightarrow> str option \<Rightarrow> str option \<Rightarrow> CanonicalRecipient list option \<Rightarrow> u64" where
  "recipients_fingerprint_ex sha display_to display_cc display_bcc recipients =
     (if keys_of_rows recipients \<noteq> []
      then fingerprint64 (sha (utf8 (normalize_recipient_identity_keys (keys_of_rows recipients))))
      else fingerprint64 (sha
        (utf8 (normalize_recipients (unwrap_or_empty display_to)) @ bar @
         utf8 (normalize_recipients (unwrap_or_empty display_cc)) @ bar @
         utf8 (normalize_recipients (unwrap_or_empty display_bcc)))))"

definition recipients_fingerprint ::
  "sha \<Rightarrow> str option \<Rightarrow> str option \<Rightarrow> str option \<Rightarrow> u64" where
  "recipients_fingerprint sha display_to display_cc display_bcc =
     recipients_fingerprint_ex sha display_to display_cc display_bcc None"

definition recipient_strong_preimage :: "StrongHashInput \<Rightarrow> str" where
  "recipient_strong_preimage strong =
     (if keys_of_rows (sh_recipients strong) \<noteq> []
      then normalize_recipient_identity_keys (keys_of_rows (sh_recipients strong))
      else normalize_recipients (unwrap_or_empty (sh_display_to strong)) @ lit ''|'' @
           normalize_recipients (unwrap_or_empty (sh_display_cc strong)) @ lit ''|'' @
           normalize_recipients (unwrap_or_empty (sh_display_bcc strong)))"

definition attach_slots :: "sha \<Rightarrow> AttachmentInfo list \<Rightarrow> StrongHashInput \<Rightarrow> bytes list" where
  "attach_slots sha attachments strong =
     sort (map (\<lambda>a. attach_content_slot sha (ai_filename a) (ai_size a) (ai_content_sha256 a) False)
            (filter (\<lambda>a. \<not> (sh_ignore_inline_attachments strong \<and> ai_is_inline a)) attachments))"

definition strong_extras :: "sha \<Rightarrow> AttachmentInfo list \<Rightarrow> StrongHashInput \<Rightarrow> bytes" where
  "strong_extras sha attachments strong =
     (if includes_body (sh_identity strong)
      then (case sh_body_sha256 strong of None \<Rightarrow> [] | Some b \<Rightarrow> b) @ bar @
           opt_bytes show_nat (sh_body_char_len strong) @ bar
      else []) @
     (if includes_recipients (sh_identity strong)
      then utf8 (recipient_strong_preimage strong) @ bar
      else []) @
     (if includes_attach_content (sh_identity strong)
      then concat (map (\<lambda>d. d @ semi) (attach_slots sha attachments strong))
      else [])"

definition strong_preimage ::
  "sha \<Rightarrow> str option \<Rightarrow> i64 option \<Rightarrow> str option \<Rightarrow> str option \<Rightarrow> AttachmentInfo list \<Rightarrow>
   StrongHashInput \<Rightarrow> bytes" where
  "strong_preimage sha subject submit_time sender_email body_preview attachments strong =
     opt_bytes normalize_subject subject @ bar @
     opt_bytes show_int submit_time @ bar @
     opt_bytes (\<lambda>s. to_lowercase (trim s)) sender_email @ bar @
     opt_bytes (\<lambda>b. take 4096 (normalize_body_text b)) body_preview @ bar @
     concat (map (\<lambda>a. utf8 a @ semi)
       (attachment_meta_strings attachments (sh_ignore_inline_attachments strong))) @
     utf8 (lit ''|v2|'') @
     strong_extras sha attachments strong"

definition compute_strong_content_hash ::
  "sha \<Rightarrow> str option \<Rightarrow> i64 option \<Rightarrow> str option \<Rightarrow> str option \<Rightarrow> AttachmentInfo list \<Rightarrow>
   StrongHashInput \<Rightarrow> bytes" where
  "compute_strong_content_hash sha subject submit_time sender_email body_preview attachments strong =
     sha (strong_preimage sha subject submit_time sender_email body_preview attachments strong)"

definition compute_dedup_keys_ex ::
  "sha \<Rightarrow> str option \<Rightarrow> str option \<Rightarrow> i64 option \<Rightarrow> str option \<Rightarrow> str option \<Rightarrow>
   AttachmentInfo list \<Rightarrow> StrongHashInput \<Rightarrow> DedupKeys" where
  "compute_dedup_keys_ex sha message_id subject submit_time sender_email body_preview attachments
       strong =
     (let (content_hash, preview_over, fp_header, fp_body, _, fp_attachments) =
            compute_content_hash_detailed sha subject submit_time sender_email body_preview
              attachments (sh_ignore_inline_attachments strong)
      in \<lparr> dk_message_id = map_option normalize_message_id message_id,
           dk_content_hash = content_hash,
           dk_preview_bytes_over_budget = preview_over,
           dk_fp_header = fp_header,
           dk_fp_body = fp_body,
           dk_fp_recipients =
             recipients_fingerprint_ex sha (sh_display_to strong) (sh_display_cc strong)
               (sh_display_bcc strong) (sh_recipients strong),
           dk_fp_attachments = fp_attachments,
           dk_strong_content_hash =
             (if is_strong (sh_identity strong)
              then Some (compute_strong_content_hash sha subject submit_time sender_email
                          body_preview attachments strong)
              else None) \<rparr>)"

definition compute_dedup_keys ::
  "sha \<Rightarrow> str option \<Rightarrow> str option \<Rightarrow> i64 option \<Rightarrow> str option \<Rightarrow> str option \<Rightarrow>
   AttachmentInfo list \<Rightarrow> DedupKeys" where
  "compute_dedup_keys sha message_id subject submit_time sender_email body_preview attachments =
     compute_dedup_keys_ex sha message_id subject submit_time sender_email body_preview attachments
       default_strong"

subsection \<open>Tier-2 eligibility\<close>

definition count_weak_fields :: "bool \<Rightarrow> bool \<Rightarrow> bool \<Rightarrow> usize \<Rightarrow> u32" where
  "count_weak_fields subject_nonempty submit_time_present sender_nonempty attach_count =
     (if subject_nonempty then 1 else 0) + (if submit_time_present then 1 else 0) +
     (if sender_nonempty then 1 else 0) + (if attach_count \<ge> 1 then 1 else 0)"

definition tier2_eligibility ::
  "bool \<Rightarrow> bool \<Rightarrow> bool \<Rightarrow> bool \<Rightarrow> bool \<Rightarrow> bool \<Rightarrow> usize \<Rightarrow> Tier2IneligibleReason + unit" where
  "tier2_eligibility body_incomplete body_unavailable has_body_preview subject_nonempty
       submit_time_present sender_nonempty attach_count =
     (if body_incomplete \<or> body_unavailable then Inl UnreadableBody
      else if has_body_preview then Inr ()
      else
        (let weak =
           (if subject_nonempty then 1 else 0) + (if submit_time_present then 1 else 0) +
           (if sender_nonempty then 1 else 0) + (if attach_count \<ge> 1 then (1::u32) else 0)
         in if weak < 2 then Inl Degenerate else Inr ()))"

subsection \<open>Embedded messages\<close>

definition EMBEDDED_MSG_HASH_DOMAIN :: bytes where
  "EMBEDDED_MSG_HASH_DOMAIN = utf8 (lit ''pst-dedup/embedded-msg-hash/v1'' @ [0])"

definition ATTACH_DEPTH_LIMIT_DOMAIN :: bytes where
  "ATTACH_DEPTH_LIMIT_DOMAIN = utf8 (lit ''pst-dedup/attach-depth-limit/v1'' @ [0])"

definition EMBEDDED_BODY_MISSING_DOMAIN :: bytes where
  "EMBEDDED_BODY_MISSING_DOMAIN = utf8 (lit ''pst-dedup/embedded-body-missing/v1'' @ [0])"

definition MAX_EMBEDDED_MSG_DEPTH :: nat where
  "MAX_EMBEDDED_MSG_DEPTH = 3"

definition embedded_body_missing_hash :: "sha \<Rightarrow> bytes" where
  "embedded_body_missing_hash sha = sha EMBEDDED_BODY_MISSING_DOMAIN"

definition depth_limit_preimage :: "str \<Rightarrow> u32 \<Rightarrow> bytes" where
  "depth_limit_preimage filename sz =
     ATTACH_DEPTH_LIMIT_DOMAIN @ utf8 (to_lowercase filename) @ [0] @ le_bytes 4 sz"

definition attach_depth_limit_sentinel :: "sha \<Rightarrow> str \<Rightarrow> u32 \<Rightarrow> bytes" where
  "attach_depth_limit_sentinel sha filename sz = sha (depth_limit_preimage filename sz)"

definition embedded_header_hash :: "sha \<Rightarrow> str option \<Rightarrow> i64 option \<Rightarrow> str option \<Rightarrow> bytes" where
  "embedded_header_hash sha subject submit_time sender =
     sha (opt_bytes normalize_subject subject @ bar @ opt_bytes show_int submit_time @ bar @
          opt_bytes (\<lambda>s. to_lowercase (trim s)) sender)"

definition recipient_strong_preimage_bytes ::
  "str option \<Rightarrow> str option \<Rightarrow> str option \<Rightarrow> CanonicalRecipient list option \<Rightarrow> str" where
  "recipient_strong_preimage_bytes display_to display_cc display_bcc recipients =
     (if keys_of_rows recipients \<noteq> []
      then normalize_recipient_identity_keys (keys_of_rows recipients)
      else normalize_recipients (unwrap_or_empty display_to) @ lit ''|'' @
           normalize_recipients (unwrap_or_empty display_cc) @ lit ''|'' @
           normalize_recipients (unwrap_or_empty display_bcc))"

definition embedded_recipients_hash ::
  "sha \<Rightarrow> str option \<Rightarrow> str option \<Rightarrow> str option \<Rightarrow> CanonicalRecipient list option \<Rightarrow> bytes" where
  "embedded_recipients_hash sha display_to display_cc display_bcc recipients =
     sha (utf8 (recipient_strong_preimage_bytes display_to display_cc display_bcc recipients))"

definition embedded_attachments_hash :: "sha \<Rightarrow> bytes list \<Rightarrow> bytes" where
  "embedded_attachments_hash sha child_digests_in_index_order =
     sha (concat (map (\<lambda>d. d @ semi) child_digests_in_index_order))"

definition embedded_msg_preimage :: "byte \<Rightarrow> bytes \<Rightarrow> bytes \<Rightarrow> bytes \<Rightarrow> bytes \<Rightarrow> bytes" where
  "embedded_msg_preimage depth header_hash body_hash recipients_hash attachments_hash =
     EMBEDDED_MSG_HASH_DOMAIN @ [depth] @ header_hash @ body_hash @ recipients_hash @
     attachments_hash"

definition compute_embedded_msg_hash_v1 ::
  "sha \<Rightarrow> byte \<Rightarrow> bytes \<Rightarrow> bytes \<Rightarrow> bytes \<Rightarrow> bytes \<Rightarrow> bytes" where
  "compute_embedded_msg_hash_v1 sha depth header_hash body_hash recipients_hash attachments_hash =
     sha (embedded_msg_preimage depth header_hash body_hash recipients_hash attachments_hash)"


subsection \<open>Lemmas: reply prefixes\<close>

lemma subject_loop_trim: "trim (subject_loop s) = trim (subject_loop (trim s))"
  by (auto simp: subject_loop.simps [of s] subject_loop.simps [of "trim s"] Let_def
      split: option.splits)

lemma normalize_subject_alt: "normalize_subject s = to_lowercase (trim (subject_loop s))"
  by (metis normalize_subject_def subject_loop_trim)

definition reply_prefix :: "str \<Rightarrow> bool" where
  "reply_prefix p \<longleftrightarrow> ascii_str p \<and>
     (to_ascii_lowercase p = lit ''re:'' \<or> to_ascii_lowercase p = lit ''fwd:'' \<or>
      to_ascii_lowercase p = lit ''fw:'')"

lemma slice_from_ascii: "ascii_str p \<Longrightarrow> slice_from (length p) (p @ s) = Some s"
proof (induction p)
  case Nil
  then show ?case by (simp add: slice_from.simps)
next
  case (Cons c p)
  then show ?case by (simp add: slice_from.simps [of "Suc (length p)"])
qed

lemma trim_reply_prefix:
  assumes "reply_prefix p"
  shows "trim (p @ s) = p @ trim_end_by is_whitespace s"
proof -
  from assms have last: "ascii_lower (last p) = 58" and first: "\<not> is_whitespace (hd p)"
    and ne: "p \<noteq> []"
    by (auto simp: reply_prefix_def to_ascii_lowercase_def map_eq_Cons_conv ascii_lower_def
        is_whitespace_def)
  from last have "\<not> is_whitespace (last p)"
    by (auto simp: ascii_lower_def is_whitespace_def split: if_splits)
  with ne have pe: "trim_end_by is_whitespace p = p"
    by (cases p rule: rev_cases) auto
  from ne first have "trim_start_by is_whitespace (p @ s) = p @ s"
    by (cases p) (auto simp: trim_start_by_def)
  moreover have "trim_end_by is_whitespace s = []" if "\<forall>c\<in>set s. is_whitespace c"
    using that by (simp add: trim_end_by_def)
  ultimately show ?thesis by (simp add: trim_def trim_end_by_append pe)
qed

lemma reply_strip_len_prefix:
  assumes "reply_prefix p"
  shows "reply_strip_len (to_ascii_lowercase p @ t) = Some (length p)"
  using assms
  by (auto simp: reply_prefix_def reply_strip_len_def dest: arg_cong [where f = length])

lemma subject_loop_reply:
  assumes "reply_prefix p"
  shows "subject_loop (p @ s) = subject_loop (trim_end_by is_whitespace s)"
proof -
  from assms have a: "ascii_str p" by (simp add: reply_prefix_def)
  let ?t = "trim_end_by is_whitespace s"
  have "to_lowercase (trim (p @ s)) = to_ascii_lowercase p @ lower_from (rev p) ?t"
    using a by (simp add: trim_reply_prefix [OF assms] to_lowercase_def lower_from_ascii_append)
  then have "reply_strip_len (to_lowercase (trim (p @ s))) = Some (length p)"
    by (simp add: reply_strip_len_prefix [OF assms])
  moreover have "slice_from (length p) (trim (p @ s)) = Some ?t"
    using a by (simp add: trim_reply_prefix [OF assms] slice_from_ascii)
  ultimately show ?thesis
    by (simp add: subject_loop.simps [of "p @ s"] Let_def)
qed

text \<open>
  A reply or forward prefix in any letter case does not change the normalised subject, so
  a message and its copies that differ only by stacked prefixes feed the same subject bytes to
  the content hash.
\<close>

theorem normalize_subject_reply_prefix:
  assumes "reply_prefix p"
  shows "normalize_subject (p @ s) = normalize_subject s"
proof -
  have "trim (subject_loop (p @ s)) = trim (subject_loop s)"
    using subject_loop_trim [of s] subject_loop_trim [of "trim_end_by is_whitespace s"]
    by (simp add: subject_loop_reply [OF assms] trim_trim_end)
  then show ?thesis by (simp add: normalize_subject_alt)
qed

theorem normalize_subject_reply_prefix_witness:
  "normalize_subject (lit ''FWD:'' @ lit '' Plan'') = normalize_subject (lit '' Plan'')"
  by (rule normalize_subject_reply_prefix)
    (simp add: reply_prefix_def to_ascii_lowercase_def ascii_lower_def)

subsection \<open>Lemmas: no reply prefix is left\<close>

text \<open>
  The lower-case table sends no character outside ASCII to a letter of a reply prefix; the
  only ASCII images are the first letter of the two-character image of U+0130 and that of the
  Kelvin sign.
\<close>

lemma lower_in_runs_nonascii:
  assumes "list_all (\<lambda>(lo, hi, step, delta). int lo + delta \<ge> 128 \<or> lo = hi \<and> int lo + delta = 107) rs"
    and "c \<ge> 128"
  shows "lower_in_runs rs c \<ge> 128 \<or> lower_in_runs rs c = 107"
  using assms
proof (induction rs c rule: lower_in_runs.induct)
  case (1 c)
  then show ?case by simp
next
  case (2 lo hi step delta rs c)
  show ?case
  proof (cases "lo \<le> c \<and> c \<le> hi \<and> (c - lo) mod step = 0")
    case True
    with "2.prems" have "int c + delta \<ge> 128 \<or> int c + delta = 107" by auto
    then have "nat (int c + delta) \<ge> 128 \<or> nat (int c + delta) = 107" by linarith
    with True show ?thesis by simp
  next
    case False
    then have "lower_in_runs ((lo, hi, step, delta) # rs) c = lower_in_runs rs c" by auto
    with 2 False show ?thesis by simp
  qed
qed

lemma lower_runs_images:
  "list_all (\<lambda>(lo, hi, step, delta). int lo + delta \<ge> 128 \<or> lo = hi \<and> int lo + delta = 107) lower_runs"
  by (simp add: lower_runs_def)

lemma lower_char_hd:
  assumes "c \<ge> 128"
  shows "hd (lower_char c) \<ge> 128 \<or> hd (lower_char c) = 105 \<or> hd (lower_char c) = 107"
  using assms lower_in_runs_nonascii [OF lower_runs_images assms] by (auto simp: lower_char_def)

lemma lower_from_hd_ascii:
  assumes "lower_from b s = d # r" and "d < 128" and "d \<noteq> 105" and "d \<noteq> 107"
  shows "\<exists>c t. s = c # t \<and> c < 128 \<and> ascii_lower c = d \<and> r = lower_from (c # b) t"
proof (cases s)
  case Nil
  with assms show ?thesis by simp
next
  case (Cons c t)
  have "c < 128"
  proof (rule ccontr)
    assume "\<not> c < 128"
    then have big: "c \<ge> 128" by simp
    with assms Cons have "c \<noteq> 931" by (auto split: if_splits)
    with assms(1) Cons have "hd (lower_char c) = d"
      by (auto simp: lower_char_def split: if_splits)
    with lower_char_hd [OF big] assms(2-4) show False by auto
  qed
  with assms(1) Cons show ?thesis by (auto simp: lower_char_def)
qed

lemma reply_strip_len_slice:
  assumes "reply_strip_len (lower_from [] s) = Some k"
  shows "slice_from k s \<noteq> None"
proof -
  have step: "\<exists>c t. s = c # t \<and> c < 128 \<and> prefix p (lower_from (c # b) t)"
    if "prefix (d # p) (lower_from b s)" "d < 128" "d \<noteq> 105" "d \<noteq> 107" for d p b s
  proof -
    from that(1) obtain r where "lower_from b s = d # r" and "prefix p r"
      by (auto simp: prefix_def)
    with lower_from_hd_ascii [OF this(1) that(2-4)] show ?thesis by auto
  qed
  from assms consider "prefix (lit ''re:'') (lower_from [] s)" "k = 3"
    | "prefix (lit ''fwd:'') (lower_from [] s)" "k = 4"
    | "prefix (lit ''fw:'') (lower_from [] s)" "k = 3"
    by (auto simp: reply_strip_len_def split: if_splits)
  then show ?thesis
    by cases (auto simp: slice_from.simps dest!: step)
qed

text \<open>
  C33: normalisation removes every reply prefix. The loop only stops at a subject with none
  left, the early exit for a byte offset inside a character is never taken, and so no normalised
  subject starts with one of the three prefixes.
\<close>

theorem normalize_subject_no_reply_prefix:
  "reply_strip_len (normalize_subject s) = None"
proof -
  have "reply_strip_len (to_lowercase (trim (subject_loop s))) = None" for s
  proof (induction s rule: subject_loop.induct)
    case (1 s)
    show ?case
    proof (cases "reply_strip_len (to_lowercase (trim s))")
      case None
      then show ?thesis by (simp add: subject_loop.simps [of s])
    next
      case (Some k)
      then obtain u where "slice_from k (trim s) = Some u"
        using reply_strip_len_slice by (fastforce simp: to_lowercase_def)
      with Some "1.IH" show ?thesis by (simp add: subject_loop.simps [of s])
    qed
  qed
  then show ?thesis by (simp add: normalize_subject_alt)
qed

subsection \<open>Message-ID normalisation\<close>

text \<open>
  Every spelling of a Message-ID - with any run of enclosing angle brackets and any outer
  whitespace - normalises to the lower-cased identifier, so all spellings share one Tier-1 key.
\<close>

theorem normalize_message_id_spellings:
  assumes "trimmed m" and "m \<noteq> []" and "hd m \<noteq> 60" and "last m \<noteq> 62"
    and "\<forall>c\<in>set a. is_whitespace c" and "\<forall>c\<in>set b. is_whitespace c"
  shows "normalize_message_id (a @ replicate i 60 @ m @ replicate j 62 @ b) = to_lowercase m"
proof -
  let ?core = "replicate i 60 @ m @ replicate j 62"
  have "\<not> is_whitespace 60" and "\<not> is_whitespace 62" by (simp_all add: is_whitespace_def)
  with assms(1,2) have "trimmed ?core"
    by (cases i; cases j) (auto simp: trimmed_def last_append)
  then have "trim (a @ ?core @ b) = ?core"
    using assms(5,6) by (intro trim_margins)
  moreover have "trim_start_by (\<lambda>c. c = 60) ?core = m @ replicate j 62"
    using assms(2,3) by (cases m) (auto simp: trim_start_by_def dropWhile_append)
  moreover have "trim_end_by (\<lambda>c. c = 62) (m @ replicate j 62) = m"
  proof -
    have "trim_end_by (\<lambda>c. c = 62) (m @ replicate j 62) = trim_end_by (\<lambda>c. c = 62) m"
      by (simp add: trim_end_by_append)
    also have "\<dots> = m"
      using assms(2,4) by (cases m rule: rev_cases) auto
    finally show ?thesis .
  qed
  ultimately show ?thesis
    using assms(1) by (simp add: normalize_message_id_def trim_trimmed)
qed

theorem normalize_message_id_spellings_witness:
  "normalize_message_id (lit '' '' @ replicate 1 60 @ lit ''A@B'' @ replicate 1 62 @ lit '' '')
     = to_lowercase (lit ''A@B'')"
  by (rule normalize_message_id_spellings) (simp_all add: trimmed_def is_whitespace_def)


subsection \<open>Lemmas: bytes of a text\<close>

lemma utf8_char_bar:
  assumes "c < 1114112" and "(124 :: byte) \<in> set (utf8_char c)"
  shows "c = 124"
proof -
  from assms(2) obtain u where u: "u \<in> set (utf8_units c)" "(124 :: byte) = word_of_nat u"
    by (auto simp: utf8_char_units)
  have "u < 256" using utf8_units_bound [OF assms(1)] u(1) by auto
  moreover have "unat (word_of_nat u :: byte) = 124" by (simp flip: u(2))
  ultimately have "u = 124" by (simp add: unat_of_nat)
  with u(1) show ?thesis by (auto simp: utf8_units_def split: if_splits)
qed

definition bar_free :: "str \<Rightarrow> bool" where
  "bar_free s \<longleftrightarrow> wf_str s \<and> 124 \<notin> set s"

lemma utf8_bar_free: "bar_free s \<Longrightarrow> (124 :: byte) \<notin> set (utf8 s)"
  using utf8_char_bar by (fastforce simp: bar_free_def wf_str_def utf8_def)

lemma bar_eq: "bar = [124]"
  by simp

lemma split_at_bar:
  assumes "a @ [124 :: byte] @ r = b @ [124] @ s" and "124 \<notin> set a" and "124 \<notin> set b"
  shows "a = b \<and> r = s"
  using split_at_first [of a 124 r b s] assms by simp

lemma show_int_bar_free: "bar_free (show_int i)"
proof -
  have "c < 124" if "c \<in> set (show_int i)" for c
    using that show_nat_digits [of c "nat (- i)"] show_nat_digits [of c "nat i"]
    by (auto simp: show_int_def split: if_splits)
  then show ?thesis by (force simp: bar_free_def wf_str_def)
qed

lemma show_int_neq_Nil [simp]: "show_int i \<noteq> []"
  by (simp add: show_int_def)

lemma utf8_eq_Nil [simp]: "utf8 s = [] \<longleftrightarrow> s = []"
  by (cases s) (auto simp: utf8_char_def)

lemma str_len_ge_length: "length s \<le> str_len s"
proof (induction s)
  case Nil
  then show ?case by simp
next
  case (Cons c s)
  have "1 \<le> length (utf8_char c)" by (simp add: utf8_char_def)
  with Cons show ?case by (simp add: str_len_def)
qed

definition opt_text :: "('a \<Rightarrow> str) \<Rightarrow> 'a option \<Rightarrow> str" where
  "opt_text f x = (case x of None \<Rightarrow> [] | Some v \<Rightarrow> f v)"

lemma opt_bytes_text: "opt_bytes f x = utf8 (opt_text f x)"
  by (simp add: opt_bytes_def opt_text_def split: option.splits)

subsection \<open>What the content hash distinguishes\<close>

text \<open>
  C31: as long as the normalised subject and sender contain no vertical bar, the preimage of
  the content hash determines the normalised subject, the presence and value of the submit
  time, the normalised sender, and the bytes of body and attachments together: messages that
  differ in one of those are hashed from different bytes.
\<close>

theorem content_preimage_fields:
  assumes "content_preimage sub1 time1 snd1 body1 atts1 ign1
         = content_preimage sub2 time2 snd2 body2 atts2 ign2"
    and "bar_free (opt_text normalize_subject sub1)" "bar_free (opt_text normalize_subject sub2)"
    and "bar_free (opt_text (\<lambda>s. to_lowercase (trim s)) snd1)"
    and "bar_free (opt_text (\<lambda>s. to_lowercase (trim s)) snd2)"
  shows "opt_text normalize_subject sub1 = opt_text normalize_subject sub2 \<and> time1 = time2 \<and>
    opt_text (\<lambda>s. to_lowercase (trim s)) snd1 = opt_text (\<lambda>s. to_lowercase (trim s)) snd2 \<and>
    opt_bytes body_preview_text body1 @ bar @ attach_preimage atts1 ign1
      = opt_bytes body_preview_text body2 @ bar @ attach_preimage atts2 ign2"
proof -
  let ?sender = "opt_text (\<lambda>s. to_lowercase (trim s))"
  have time_free: "bar_free (opt_text show_int t)" for t :: "i64 option"
    by (cases t) (simp_all add: opt_text_def show_int_bar_free, simp add: bar_free_def wf_str_def)
  note free = assms(2-5) [THEN utf8_bar_free] time_free [THEN utf8_bar_free]
  from assms(1) have all:
    "utf8 (opt_text normalize_subject sub1) @ [124] @ utf8 (opt_text show_int time1) @ [124] @
       utf8 (?sender snd1) @ [124] @ opt_bytes body_preview_text body1 @ bar @ attach_preimage atts1 ign1
   = utf8 (opt_text normalize_subject sub2) @ [124] @ utf8 (opt_text show_int time2) @ [124] @
       utf8 (?sender snd2) @ [124] @ opt_bytes body_preview_text body2 @ bar @ attach_preimage atts2 ign2"
    by (simp add: content_preimage_def header_preimage_def opt_bytes_text)
  note s1 = split_at_bar [OF all free(1,2)]
  note s2 = split_at_bar [OF s1 [THEN conjunct2] free(5,5)]
  note s3 = split_at_bar [OF s2 [THEN conjunct2] free(3,4)]
  have wf: "wf_str x" if "bar_free x" for x using that by (simp add: bar_free_def)
  have "opt_text normalize_subject sub1 = opt_text normalize_subject sub2"
    by (rule utf8_inject) (use s1 assms(2,3) wf in auto)
  moreover have "?sender snd1 = ?sender snd2"
    by (rule utf8_inject) (use s3 assms(4,5) wf in auto)
  moreover have "opt_text show_int time1 = opt_text show_int time2"
    by (rule utf8_inject) (use s2 time_free wf in auto)
  then have "time1 = time2"
    by (cases time1; cases time2) (auto simp: opt_text_def dest: sym)
  ultimately show ?thesis using s3 by blast
qed

theorem content_preimage_fields_witness:
  "opt_text normalize_subject (Some (lit ''a'')) = opt_text normalize_subject (Some (lit ''Re: A '')) \<and>
   Some (7 :: i64) = Some 7 \<and>
   opt_text (\<lambda>s. to_lowercase (trim s)) None = opt_text (\<lambda>s. to_lowercase (trim s)) None \<and>
   opt_bytes body_preview_text None @ bar @ attach_preimage [] False
     = opt_bytes body_preview_text None @ bar @ attach_preimage [] False"
proof (rule content_preimage_fields)
  have a: "normalize_subject (lit ''a'') = lit ''a''" and b: "normalize_subject (lit ''Re: A '') = lit ''a''"
    by (simp_all add: text_eval normalize_subject_def subject_loop.simps reply_strip_len_def
        slice_from.simps)
  from a b show "content_preimage (Some (lit ''a'')) (Some 7) None None [] False =
      content_preimage (Some (lit ''Re: A '')) (Some 7) None None [] False"
    by (simp add: content_preimage_def header_preimage_def opt_bytes_def)
qed (simp_all add: opt_text_def bar_free_def wf_str_def text_eval normalize_subject_def
  subject_loop.simps reply_strip_len_def slice_from.simps)


text \<open>
  When the over-budget flag of a computed key set is not raised, the body preview was
  hashed whole: clamping to 4096 characters dropped nothing, since a text of at most 4096 bytes
  has at most 4096 characters.
\<close>

theorem preview_not_over_budget_whole:
  assumes "\<not> dk_preview_bytes_over_budget
    (compute_dedup_keys_ex sha mid subject submit sender (Some body) atts strong)"
  shows "dk_content_hash (compute_dedup_keys_ex sha mid subject submit sender (Some body) atts strong)
    = sha (header_preimage subject submit sender @ utf8 (normalize_body_text body) @ bar @
           attach_preimage atts (sh_ignore_inline_attachments strong))"
proof -
  from assms have "str_len (normalize_body_text body) \<le> 4096"
    by (simp add: compute_dedup_keys_ex_def compute_content_hash_detailed_def Let_def)
  then have "length (normalize_body_text body) \<le> 4096"
    using str_len_ge_length le_trans by blast
  then show ?thesis
    by (simp add: compute_dedup_keys_ex_def compute_content_hash_detailed_def Let_def
        content_preimage_def opt_bytes_def body_preview_text_def)
qed

theorem preview_not_over_budget_whole_witness:
  "dk_content_hash (compute_dedup_keys_ex id None None None None (Some (lit ''Hi'')) [] default_strong)
    = id (header_preimage None None None @ utf8 (normalize_body_text (lit ''Hi'')) @ bar @
        attach_preimage [] (sh_ignore_inline_attachments default_strong))"
  by (rule preview_not_over_budget_whole)
    (simp add: compute_dedup_keys_ex_def compute_content_hash_detailed_def normalize_body_text_def
      text_eval str_len_def Let_def)

subsection \<open>Order of attachments and recipients\<close>

lemma sort_mset_cong: "mset xs = mset ys \<Longrightarrow> sort xs = sort ys"
  by (metis mset_sort properties_for_sort sorted_sort)

lemma mset_map_filter_cong: "mset xs = mset ys \<Longrightarrow> mset (map f (filter P xs)) = mset (map f (filter P ys))"
  by (metis mset_filter mset_map)

text \<open>
  C34: the dedup keys of a message do not depend on the order in which its attachments are
  listed, at any identity level and with or without inline attachments.
\<close>

theorem dedup_keys_attachment_order:
  assumes "mset atts = mset atts'"
  shows "compute_dedup_keys_ex sha mid subject submit sender body atts strong
       = compute_dedup_keys_ex sha mid subject submit sender body atts' strong"
proof -
  have meta: "attachment_meta_strings atts ign = attachment_meta_strings atts' ign" for ign
    unfolding attachment_meta_strings_def
    using assms by (intro sort_mset_cong mset_map_filter_cong)
  have "attach_slots sha atts strong = attach_slots sha atts' strong"
    unfolding attach_slots_def using assms by (intro sort_mset_cong mset_map_filter_cong)
  with meta show ?thesis
    by (simp add: compute_dedup_keys_ex_def compute_content_hash_detailed_def content_preimage_def
        attach_preimage_def compute_strong_content_hash_def strong_preimage_def strong_extras_def)
qed

theorem dedup_keys_attachment_order_witness:
  "compute_dedup_keys_ex id None None None None None
       [attachment_new (lit ''a'') 1, attachment_new (lit ''b'') 2] default_strong
   = compute_dedup_keys_ex id None None None None None
       [attachment_new (lit ''b'') 2, attachment_new (lit ''a'') 1] default_strong"
  by (rule dedup_keys_attachment_order) simp

lemma split_on_neq_Nil [simp]: "split_on d s \<noteq> []"
  by (induction s) (auto split: list.splits)

lemma split_on_append: "d \<notin> set p \<Longrightarrow> split_on d (p @ d # s) = p # split_on d s"
  by (induction p) (auto split: list.splits)

lemma split_on_free: "d \<notin> set p \<Longrightarrow> split_on d p = [p]"
  by (induction p) auto

lemma split_on_join:
  assumes "ps \<noteq> []" and "\<forall>p\<in>set ps. d \<notin> set p"
  shows "split_on d (join_with [d] ps) = ps"
  using assms by (induction "[d]" ps rule: join_with.induct) (auto simp: split_on_append split_on_free)

text \<open>
  The normalised recipient list depends neither on the order of the recipients nor on
  their letter case and outer whitespace; empty entries are ignored.
\<close>

theorem normalize_recipients_order:
  assumes "ps \<noteq> []" "qs \<noteq> []" and "\<forall>p\<in>set ps. 59 \<notin> set p" "\<forall>q\<in>set qs. 59 \<notin> set q"
    and "image_mset (\<lambda>p. to_lowercase (trim p)) (filter_mset (\<lambda>p. trim p \<noteq> []) (mset ps))
       = image_mset (\<lambda>p. to_lowercase (trim p)) (filter_mset (\<lambda>p. trim p \<noteq> []) (mset qs))"
  shows "normalize_recipients (join_with [59] ps) = normalize_recipients (join_with [59] qs)"
proof -
  have eq: "mset (filter (\<lambda>p. p \<noteq> []) (map (\<lambda>p. to_lowercase (trim p)) xs))
      = image_mset (\<lambda>p. to_lowercase (trim p)) (filter_mset (\<lambda>p. trim p \<noteq> []) (mset xs))" for xs
    by (induction xs) auto
  have "sort (filter (\<lambda>p. p \<noteq> []) (map (\<lambda>p. to_lowercase (trim p)) ps))
      = sort (filter (\<lambda>p. p \<noteq> []) (map (\<lambda>p. to_lowercase (trim p)) qs))"
    by (rule sort_mset_cong) (simp only: eq assms(5))
  with assms(1-4) show ?thesis by (simp add: normalize_recipients_def split_on_join)
qed

theorem normalize_recipients_order_witness:
  "normalize_recipients (join_with [59] [lit ''B@x'', lit '' a@x''])
     = normalize_recipients (join_with [59] [lit ''a@x'', [], lit ''b@X''])"
  by (rule normalize_recipients_order) (simp_all add: text_eval)

subsection \<open>Sentinels and the strong hash\<close>

lemma suffix_fixed_inject:
  "length c = length d \<Longrightarrow> a @ x # c = b @ x # d \<longleftrightarrow> a = b \<and> c = d"
  by auto

text \<open>
  For a hash without a collision on the two preimages, the sentinel of an attachment that
  could not be read is shared by exactly the attachments with the same lower-cased name and the
  same size, and it never equals the sentinel of an attachment cut off by the depth limit.
\<close>

theorem attach_unread_sentinel_inject:
  assumes "inj_on sha {attach_unread_preimage f n, attach_unread_preimage g m, depth_limit_preimage g m}"
    and "wf_str (to_lowercase f)" "wf_str (to_lowercase g)" and "n < 2 ^ 32" "m < 2 ^ 32"
  shows "(attach_unread_sentinel sha f n = attach_unread_sentinel sha g m
            \<longleftrightarrow> to_lowercase f = to_lowercase g \<and> n = m)
         \<and> attach_unread_sentinel sha f n \<noteq> attach_depth_limit_sentinel sha g m"
proof -
  have pre: "attach_unread_preimage f n = attach_unread_preimage g m
      \<longleftrightarrow> to_lowercase f = to_lowercase g \<and> n = m"
    using assms(2-5) utf8_inject [of "to_lowercase f" "to_lowercase g"] le_bytes_inject [of n 4 m]
    by (auto simp: attach_unread_preimage_def suffix_fixed_inject)
  have "take 18 (attach_unread_preimage f n) \<noteq> take 18 (depth_limit_preimage g m)"
    by (simp add: attach_unread_preimage_def depth_limit_preimage_def ATTACH_UNREAD_DOMAIN_def
        ATTACH_DEPTH_LIMIT_DOMAIN_def)
  then have "attach_unread_preimage f n \<noteq> depth_limit_preimage g m" by metis
  moreover have "sha (attach_unread_preimage f n) = sha (attach_unread_preimage g m)
      \<longleftrightarrow> attach_unread_preimage f n = attach_unread_preimage g m"
    by (rule inj_on_eq_iff [OF assms(1)]) simp_all
  moreover have "sha (attach_unread_preimage f n) = sha (depth_limit_preimage g m)
      \<longleftrightarrow> attach_unread_preimage f n = depth_limit_preimage g m"
    by (rule inj_on_eq_iff [OF assms(1)]) simp_all
  ultimately show ?thesis
    using pre unfolding attach_unread_sentinel_def attach_depth_limit_sentinel_def by blast
qed

theorem attach_unread_sentinel_inject_witness:
  "(attach_unread_sentinel id (lit ''A'') 5 = attach_unread_sentinel id (lit ''a'') 6
      \<longleftrightarrow> to_lowercase (lit ''A'') = to_lowercase (lit ''a'') \<and> (5 :: nat) = 6)
   \<and> attach_unread_sentinel id (lit ''A'') 5 \<noteq> attach_depth_limit_sentinel id (lit ''a'') 6"
  by (rule attach_unread_sentinel_inject) (simp_all add: text_eval wf_str_def)




end
