(* ===== verification/Dedup_Index.thy ===== *)
theory Dedup_Index
  imports Hasher
begin

text \<open>
  The streaming dedup index (\<^verbatim>\<open>dedup-engine/src/index.rs\<close>). Messages are inserted in scan
  order; each insertion answers whether the message is the first of its group or a duplicate
  of an earlier one, and why. The two hash maps are partial functions, the index is passed
  through every operation, and \<open>check_and_insert_item\<close> is split at the section comments of
  its body into the Message-ID phase, the content-hash phase and the insertion of a new group.
\<close>

subsection \<open>Data\<close>

datatype DedupTier = TierMessageId | TierContentHash | TierStrongContentHash

fun dedup_tier_display :: "DedupTier \<Rightarrow> str" where
  "dedup_tier_display TierMessageId = lit ''Message-ID''"
| "dedup_tier_display TierContentHash = lit ''Content Hash''"
| "dedup_tier_display TierStrongContentHash = lit ''Strong Content Hash''"

fun tier_of_bound :: "BoundBy \<Rightarrow> DedupTier option" where
  "tier_of_bound Seed = None"
| "tier_of_bound ByMessageId = Some TierMessageId"
| "tier_of_bound ByContentHash = Some TierContentHash"
| "tier_of_bound ByStrongContentHash = Some TierStrongContentHash"

record MessageRef =
  mr_pst_index :: usize
  mr_pst_name :: str
  mr_folder_path :: str
  mr_nid :: u64
  mr_subject :: str
  mr_submit_time :: "i64 option"
  mr_sender :: str
  mr_size :: u32

datatype DedupResult =
    Unique
  | DuplicateOf (original: MessageRef) (tier: DedupTier) (dup_bound_by: BoundBy)

definition is_unique :: "DedupResult \<Rightarrow> bool" where
  "is_unique r \<longleftrightarrow> r = Unique"

fun result_bound_by :: "DedupResult \<Rightarrow> BoundBy" where
  "result_bound_by Unique = Seed"
| "result_bound_by (DuplicateOf _ _ b) = b"

record IndexItem =
  ii_message_id :: "str option"
  ii_content_hash :: bytes
  ii_strong_content_hash :: "bytes option"
  ii_tier2_eligible :: bool
  ii_source_key :: str
  ii_fp_body :: u64
  ii_fp_header :: u64
  ii_fp_recipients :: u64
  ii_fp_attachments :: u64
  ii_msg_ref :: MessageRef

definition classic :: "str option \<Rightarrow> bytes \<Rightarrow> MessageRef \<Rightarrow> IndexItem" where
  "classic message_id content_hash msg_ref =
     \<lparr> ii_message_id = message_id, ii_content_hash = content_hash, ii_strong_content_hash = None,
       ii_tier2_eligible = True, ii_source_key = [], ii_fp_body = 0, ii_fp_header = 0,
       ii_fp_recipients = 0, ii_fp_attachments = 0, ii_msg_ref = msg_ref \<rparr>"

record GroupSlot =
  sl_msg_ref :: MessageRef
  sl_bound_mid :: "str option"
  sl_bind_hash :: bytes
  sl_fp_body :: u64
  sl_fp_header :: u64
  sl_fp_recipients :: u64
  sl_fp_attachments :: u64

record DedupIndex =
  ix_ctx :: GroupingContext
  ix_message_ids :: "str \<rightharpoonup> GroupSlot"
  ix_content_hashes :: "bytes \<rightharpoonup> GroupSlot"
  ix_unique_count :: u64
  ix_duplicate_count :: u64
  ix_tier1_hits :: u64
  ix_tier2_hits :: u64
  ix_stats :: GroupingStats
  ix_cross_mid_hash_seen :: "bytes list"
  ix_cross_mid_cluster :: "bytes \<rightharpoonup> str list"

definition with_context :: "GroupingContext \<Rightarrow> DedupIndex" where
  "with_context ctx =
     \<lparr> ix_ctx = ctx, ix_message_ids = Map.empty, ix_content_hashes = Map.empty,
       ix_unique_count = 0, ix_duplicate_count = 0, ix_tier1_hits = 0, ix_tier2_hits = 0,
       ix_stats = default_stats, ix_cross_mid_hash_seen = [], ix_cross_mid_cluster = Map.empty \<rparr>"

definition index_new :: DedupIndex where
  "index_new = with_context default_context"

subsection \<open>Keys\<close>

definition scope_prefix :: "GroupingContext \<Rightarrow> str \<Rightarrow> str" where
  "scope_prefix ctx source_key =
     (case gx_scope ctx of Global \<Rightarrow> [] | PerSource \<Rightarrow> source_key @ [0])"

definition mid_key :: "GroupingContext \<Rightarrow> str \<Rightarrow> str \<Rightarrow> str" where
  "mid_key ctx source_key mid = scope_prefix ctx source_key @ mid"

definition hash_map_key :: "GroupingContext \<Rightarrow> str \<Rightarrow> bytes \<Rightarrow> bytes" where
  "hash_map_key ctx source_key hash = utf8 (scope_prefix ctx source_key) @ hash"

definition tier2_bind_hash :: "IndexItem \<Rightarrow> IdentityLevel \<Rightarrow> bytes" where
  "tier2_bind_hash item identity =
     (if is_strong identity
      then (case ii_strong_content_hash item of None \<Rightarrow> ii_content_hash item | Some h \<Rightarrow> h)
      else ii_content_hash item)"

definition bound_by_for_tier2 :: "IdentityLevel \<Rightarrow> BoundBy" where
  "bound_by_for_tier2 identity = (if is_strong identity then ByStrongContentHash else ByContentHash)"

fun tier_for_bound :: "BoundBy \<Rightarrow> DedupTier" where
  "tier_for_bound ByMessageId = TierMessageId"
| "tier_for_bound ByStrongContentHash = TierStrongContentHash"
| "tier_for_bound ByContentHash = TierContentHash"
| "tier_for_bound Seed = TierContentHash"

subsection \<open>Insertion\<close>

definition should_split_tier1 :: "GroupingContext \<Rightarrow> GroupSlot \<Rightarrow> IndexItem \<Rightarrow> bool" where
  "should_split_tier1 ctx slot item =
     (case gx_tier1_verify ctx of
        TvOff \<Rightarrow> False
      | TvContent \<Rightarrow> tier2_bind_hash item (gx_identity ctx) \<noteq> sl_bind_hash slot
      | TvBody \<Rightarrow> ii_fp_body item \<noteq> sl_fp_body slot)"

definition note_tier1_divergence_fps ::
  "DedupIndex \<Rightarrow> u64 \<times> u64 \<times> u64 \<times> u64 \<Rightarrow> IndexItem \<Rightarrow> DedupIndex" where
  "note_tier1_divergence_fps ix slot_fps item =
     (let (gb, gh, gr, ga) = slot_fps;
          body_diff = ii_fp_body item \<noteq> gb;
          meta_diff = ii_fp_header item \<noteq> gh \<or> ii_fp_attachments item \<noteq> ga;
          recip_diff = ii_fp_recipients item \<noteq> gr;
          s = ix_stats ix
      in if body_diff
         then ix \<lparr> ix_stats := s \<lparr> gs_tier1_divergent_body := gs_tier1_divergent_body s + 1 \<rparr> \<rparr>
         else if recip_diff \<and> \<not> meta_diff
         then ix \<lparr> ix_stats := s \<lparr> gs_tier1_divergent_recipients :=
                                   gs_tier1_divergent_recipients s + 1 \<rparr> \<rparr>
         else if meta_diff
         then ix \<lparr> ix_stats := s \<lparr> gs_tier1_divergent_metadata :=
                                   gs_tier1_divergent_metadata s + 1 \<rparr> \<rparr>
         else ix)"

definition tier1_phase :: "DedupIndex \<Rightarrow> IndexItem \<Rightarrow> str option \<Rightarrow> DedupIndex \<times> DedupResult option" where
  "tier1_phase ix item mid =
     (case mid of
        None \<Rightarrow> (ix, None)
      | Some m \<Rightarrow>
          (case ix_message_ids ix (mid_key (ix_ctx ix) (ii_source_key item) m) of
             None \<Rightarrow> (ix, None)
           | Some slot \<Rightarrow>
               (let slot_fps = (sl_fp_body slot, sl_fp_header slot, sl_fp_recipients slot,
                                sl_fp_attachments slot);
                    split = should_split_tier1 (ix_ctx ix) slot item;
                    original = sl_msg_ref slot;
                    ix' = note_tier1_divergence_fps ix slot_fps item
                in if \<not> split
                   then (ix' \<lparr> ix_duplicate_count := ix_duplicate_count ix' + 1,
                               ix_tier1_hits := ix_tier1_hits ix' + 1 \<rparr>,
                         Some (DuplicateOf original TierMessageId ByMessageId))
                   else (ix', None))))"

definition tier2_eligible_now :: "DedupIndex \<Rightarrow> IndexItem \<Rightarrow> bool" where
  "tier2_eligible_now ix item \<longleftrightarrow>
     ii_tier2_eligible item \<or> \<not> enforce_readable_body (ix_ctx ix)"

definition slot_of_item :: "GroupingContext \<Rightarrow> IndexItem \<Rightarrow> MessageRef \<Rightarrow> str option \<Rightarrow> GroupSlot" where
  "slot_of_item ctx item msg_ref bound_mid =
     \<lparr> sl_msg_ref = msg_ref, sl_bound_mid = bound_mid,
       sl_bind_hash = tier2_bind_hash item (gx_identity ctx), sl_fp_body = ii_fp_body item,
       sl_fp_header = ii_fp_header item, sl_fp_recipients = ii_fp_recipients item,
       sl_fp_attachments = ii_fp_attachments item \<rparr>"

definition adopt_mid :: "DedupIndex \<Rightarrow> IndexItem \<Rightarrow> bytes \<Rightarrow> GroupSlot \<Rightarrow> str option \<Rightarrow> DedupIndex" where
  "adopt_mid ix item hkey slot new_bound =
     (case new_bound of
        None \<Rightarrow> ix
      | Some nb \<Rightarrow>
          (let ix1 = (if sl_bound_mid slot = None
                      then ix \<lparr> ix_content_hashes :=
                                  (ix_content_hashes ix)(hkey \<mapsto> slot \<lparr> sl_bound_mid := Some nb \<rparr>) \<rparr>
                      else ix);
               mk = mid_key (ix_ctx ix) (ii_source_key item) nb
           in if ix_message_ids ix1 mk = None
              then ix1 \<lparr> ix_message_ids :=
                           (ix_message_ids ix1)(mk \<mapsto>
                             slot_of_item (ix_ctx ix) item (sl_msg_ref slot) (Some nb)) \<rparr>
              else ix1))"

definition note_cross_mid_block :: "DedupIndex \<Rightarrow> bytes \<Rightarrow> GroupSlot \<Rightarrow> str option \<Rightarrow> DedupIndex" where
  "note_cross_mid_block ix hkey slot mid =
     (let s0 = ix_stats ix;
          s1 = s0 \<lparr> gs_cross_mid_blocked := gs_cross_mid_blocked s0 + 1 \<rparr>;
          s2 = (if hkey \<notin> set (ix_cross_mid_hash_seen ix)
                then s1 \<lparr> gs_cross_mid_blocked_groups := gs_cross_mid_blocked_groups s1 + 1 \<rparr>
                else s1);
          ix2 = ix \<lparr> ix_stats := s2,
                     ix_cross_mid_hash_seen := set_insert hkey (ix_cross_mid_hash_seen ix) \<rparr>
      in case mid of
           None \<Rightarrow> ix2
         | Some m \<Rightarrow>
             (let cluster0 = (case ix_cross_mid_cluster ix2 hkey of None \<Rightarrow> [] | Some c \<Rightarrow> c);
                  cluster1 = (case sl_bound_mid slot of
                                None \<Rightarrow> cluster0
                              | Some existing \<Rightarrow> set_insert existing cluster0);
                  cluster = set_insert m cluster1
              in ix2 \<lparr> ix_cross_mid_cluster := (ix_cross_mid_cluster ix2)(hkey \<mapsto> cluster),
                       ix_stats := s2 \<lparr> gs_cross_mid_blocked_max_group :=
                                          max (gs_cross_mid_blocked_max_group s2)
                                              (length cluster) \<rparr> \<rparr>))"

definition tier2_phase :: "DedupIndex \<Rightarrow> IndexItem \<Rightarrow> str option \<Rightarrow> DedupIndex \<times> DedupResult option" where
  "tier2_phase ix item mid =
     (if gx_tier2_enabled (ix_ctx ix) \<and> tier2_eligible_now ix item then
        (let bind_hash = tier2_bind_hash item (gx_identity (ix_ctx ix));
             hkey = hash_map_key (ix_ctx ix) (ii_source_key item) bind_hash
         in case ix_content_hashes ix hkey of
              None \<Rightarrow> (ix, None)
            | Some slot \<Rightarrow>
                (let (ok, new_bound) =
                       mid_join_compatible (sl_bound_mid slot) mid (block_cross_mid (ix_ctx ix))
                 in if ok then
                      (let ix' = adopt_mid ix item hkey slot new_bound;
                           bound_by = bound_by_for_tier2 (gx_identity (ix_ctx ix))
                       in (ix' \<lparr> ix_duplicate_count := ix_duplicate_count ix' + 1,
                                 ix_tier2_hits := ix_tier2_hits ix' + 1 \<rparr>,
                           Some (DuplicateOf (sl_msg_ref slot) (tier_for_bound bound_by) bound_by)))
                    else (note_cross_mid_block ix hkey slot mid, None)))
      else (ix, None))"

definition insert_unique :: "DedupIndex \<Rightarrow> IndexItem \<Rightarrow> str option \<Rightarrow> DedupIndex" where
  "insert_unique ix item mid =
     (let bind_hash = tier2_bind_hash item (gx_identity (ix_ctx ix));
          slot = slot_of_item (ix_ctx ix) item (ii_msg_ref item) mid;
          ix1 = (case mid of
                   None \<Rightarrow> ix
                 | Some m \<Rightarrow>
                     ix \<lparr> ix_message_ids :=
                            (ix_message_ids ix)(mid_key (ix_ctx ix) (ii_source_key item) m \<mapsto> slot) \<rparr>);
          hkey = hash_map_key (ix_ctx ix) (ii_source_key item) bind_hash;
          ix2 = (if gx_tier2_enabled (ix_ctx ix) \<and> tier2_eligible_now ix item
                    \<and> ix_content_hashes ix1 hkey = None
                 then ix1 \<lparr> ix_content_hashes := (ix_content_hashes ix1)(hkey \<mapsto> slot) \<rparr>
                 else ix1)
      in ix2 \<lparr> ix_unique_count := ix_unique_count ix2 + 1 \<rparr>)"

definition check_and_insert_item :: "DedupIndex \<Rightarrow> IndexItem \<Rightarrow> DedupIndex \<times> DedupResult" where
  "check_and_insert_item ix item =
     (let mid = mid_present (ii_message_id item) in
      case tier1_phase ix item mid of
        (ix1, Some r) \<Rightarrow> (ix1, r)
      | (ix1, None) \<Rightarrow>
          (case tier2_phase ix1 item mid of
             (ix2, Some r) \<Rightarrow> (ix2, r)
           | (ix2, None) \<Rightarrow> (insert_unique ix2 item mid, Unique)))"

definition check_and_insert ::
  "DedupIndex \<Rightarrow> str option \<Rightarrow> bytes \<Rightarrow> MessageRef \<Rightarrow> DedupIndex \<times> DedupResult" where
  "check_and_insert ix message_id content_hash msg_ref =
     check_and_insert_item ix (classic message_id content_hash msg_ref)"

definition index_total :: "DedupIndex \<Rightarrow> u64" where
  "index_total ix = ix_unique_count ix + ix_duplicate_count ix"

text \<open>The counters that callers report while scanning.\<close>

definition record_tier2_block_unreadable :: "DedupIndex \<Rightarrow> DedupIndex" where
  "record_tier2_block_unreadable ix = ix \<lparr> ix_stats := (ix_stats ix)
     \<lparr> gs_tier2_blocked_unreadable_body := gs_tier2_blocked_unreadable_body (ix_stats ix) + 1 \<rparr> \<rparr>"

definition record_tier2_block_degenerate :: "DedupIndex \<Rightarrow> DedupIndex" where
  "record_tier2_block_degenerate ix = ix \<lparr> ix_stats := (ix_stats ix)
     \<lparr> gs_tier2_blocked_degenerate := gs_tier2_blocked_degenerate (ix_stats ix) + 1 \<rparr> \<rparr>"

definition record_tier2_block_crc_suspect :: "DedupIndex \<Rightarrow> DedupIndex" where
  "record_tier2_block_crc_suspect ix = ix \<lparr> ix_stats := (ix_stats ix)
     \<lparr> gs_tier2_blocked_crc_suspect := gs_tier2_blocked_crc_suspect (ix_stats ix) + 1 \<rparr> \<rparr>"

definition record_preview_over_budget :: "DedupIndex \<Rightarrow> DedupIndex" where
  "record_preview_over_budget ix = ix \<lparr> ix_stats := (ix_stats ix)
     \<lparr> gs_tier2_preview_bytes_over_budget :=
         gs_tier2_preview_bytes_over_budget (ix_stats ix) + 1 \<rparr> \<rparr>"

definition record_inline_attachment_ignored :: "DedupIndex \<Rightarrow> DedupIndex" where
  "record_inline_attachment_ignored ix = ix \<lparr> ix_stats := (ix_stats ix)
     \<lparr> gs_inline_attachments_ignored := gs_inline_attachments_ignored (ix_stats ix) + 1 \<rparr> \<rparr>"

definition record_x500_recipient_item :: "DedupIndex \<Rightarrow> DedupIndex" where
  "record_x500_recipient_item ix = ix \<lparr> ix_stats := (ix_stats ix)
     \<lparr> gs_x500_recipient_items := gs_x500_recipient_items (ix_stats ix) + 1 \<rparr> \<rparr>"

definition record_strong_hash_attach_unread :: "DedupIndex \<Rightarrow> DedupIndex" where
  "record_strong_hash_attach_unread ix = ix \<lparr> ix_stats := (ix_stats ix)
     \<lparr> gs_strong_hash_attach_unread := gs_strong_hash_attach_unread (ix_stats ix) + 1 \<rparr> \<rparr>"

definition record_strong_hash_attach_digested :: "DedupIndex \<Rightarrow> u64 \<Rightarrow> DedupIndex" where
  "record_strong_hash_attach_digested ix n = ix \<lparr> ix_stats := (ix_stats ix)
     \<lparr> gs_strong_hash_attach_digested := gs_strong_hash_attach_digested (ix_stats ix) + 1,
       gs_strong_hash_attach_bytes :=
         saturating_add64 (gs_strong_hash_attach_bytes (ix_stats ix)) n \<rparr> \<rparr>"

definition record_strong_hash_attach_truncated :: "DedupIndex \<Rightarrow> DedupIndex" where
  "record_strong_hash_attach_truncated ix = ix \<lparr> ix_stats := (ix_stats ix)
     \<lparr> gs_strong_hash_attach_truncated :=
         saturating_add64 (gs_strong_hash_attach_truncated (ix_stats ix)) 1 \<rparr> \<rparr>"

definition record_strong_hash_embedded_parsed :: "DedupIndex \<Rightarrow> DedupIndex" where
  "record_strong_hash_embedded_parsed ix = ix \<lparr> ix_stats := (ix_stats ix)
     \<lparr> gs_strong_hash_embedded_parsed :=
         saturating_add64 (gs_strong_hash_embedded_parsed (ix_stats ix)) 1 \<rparr> \<rparr>"

definition record_strong_hash_embedded_depth_limit :: "DedupIndex \<Rightarrow> DedupIndex" where
  "record_strong_hash_embedded_depth_limit ix = ix \<lparr> ix_stats := (ix_stats ix)
     \<lparr> gs_strong_hash_embedded_depth_limit :=
         saturating_add64 (gs_strong_hash_embedded_depth_limit (ix_stats ix)) 1 \<rparr> \<rparr>"

definition record_strong_hash_embedded_unparsed :: "DedupIndex \<Rightarrow> DedupIndex" where
  "record_strong_hash_embedded_unparsed ix = ix \<lparr> ix_stats := (ix_stats ix)
     \<lparr> gs_strong_hash_embedded_unparsed :=
         saturating_add64 (gs_strong_hash_embedded_unparsed (ix_stats ix)) 1 \<rparr> \<rparr>"

text \<open>A scan: the items inserted one after the other, with the answers in scan order.\<close>

fun insert_all :: "DedupIndex \<Rightarrow> IndexItem list \<Rightarrow> DedupIndex \<times> DedupResult list" where
  "insert_all ix [] = (ix, [])"
| "insert_all ix (item # items) =
     (let (ix1, r) = check_and_insert_item ix item; (ix2, rs) = insert_all ix1 items
      in (ix2, r # rs))"

subsection \<open>Well-formed items and their keys\<close>

text \<open>
  What the Rust types guarantee of an item (valid strings, 32-byte digests), and that a file
  path holds no NUL character.
\<close>

definition wf_item :: "IndexItem \<Rightarrow> bool" where
  "wf_item item \<longleftrightarrow> wf_str (ii_source_key item) \<and> 0 \<notin> set (ii_source_key item) \<and>
     length (ii_content_hash item) = 32 \<and>
     (\<forall>h. ii_strong_content_hash item = Some h \<longrightarrow> length h = 32)"

abbreviation item_mid :: "IndexItem \<Rightarrow> str option" where
  "item_mid item \<equiv> mid_present (ii_message_id item)"

abbreviation item_hash :: "GroupingContext \<Rightarrow> IndexItem \<Rightarrow> bytes" where
  "item_hash ctx item \<equiv> tier2_bind_hash item (gx_identity ctx)"

abbreviation item_hash_key :: "GroupingContext \<Rightarrow> IndexItem \<Rightarrow> bytes" where
  "item_hash_key ctx item \<equiv> hash_map_key ctx (ii_source_key item) (item_hash ctx item)"

definition item_eligible :: "GroupingContext \<Rightarrow> IndexItem \<Rightarrow> bool" where
  "item_eligible ctx item \<longleftrightarrow> gx_tier2_enabled ctx \<and>
     (ii_tier2_eligible item \<or> \<not> enforce_readable_body ctx)"

definition same_scope :: "GroupingContext \<Rightarrow> IndexItem \<Rightarrow> IndexItem \<Rightarrow> bool" where
  "same_scope ctx a b \<longleftrightarrow> gx_scope ctx = Global \<or> ii_source_key a = ii_source_key b"

lemma scope_prefix_eq_iff:
  "scope_prefix ctx (ii_source_key a) = scope_prefix ctx (ii_source_key b) \<longleftrightarrow> same_scope ctx a b"
  by (auto simp: scope_prefix_def same_scope_def split: DedupeScope.splits)

lemma mid_key_source:
  assumes "0 \<notin> set a" and "0 \<notin> set b"
  shows "mid_key ctx a m = mid_key ctx b n \<longleftrightarrow> scope_prefix ctx a = scope_prefix ctx b \<and> m = n"
proof (cases "gx_scope ctx")
  case PerSource
  have "a @ 0 # m = b @ 0 # n \<longleftrightarrow> a = b \<and> m = n"
  proof
    assume "a @ 0 # m = b @ 0 # n"
    from split_at_first [OF this assms] show "a = b \<and> m = n" .
  qed simp
  with PerSource show ?thesis by (simp add: mid_key_def scope_prefix_def)
qed (simp add: mid_key_def scope_prefix_def)

lemma hash_map_key_source:
  assumes "wf_str a" and "wf_str b" and "length h = length k"
  shows "hash_map_key ctx a h = hash_map_key ctx b k
    \<longleftrightarrow> scope_prefix ctx a = scope_prefix ctx b \<and> h = k"
proof -
  have "wf_str (scope_prefix ctx a)" "wf_str (scope_prefix ctx b)"
    using assms by (auto simp: wf_str_def scope_prefix_def split: DedupeScope.splits)
  then have "utf8 (scope_prefix ctx a) = utf8 (scope_prefix ctx b)
      \<longleftrightarrow> scope_prefix ctx a = scope_prefix ctx b"
    by (metis utf8_inject)
  with assms(3) show ?thesis by (simp add: hash_map_key_def append_eq_append_conv)
qed

lemma mid_key_eq_iff:
  assumes "wf_item a" and "wf_item b"
  shows "mid_key ctx (ii_source_key a) m = mid_key ctx (ii_source_key b) n
    \<longleftrightarrow> same_scope ctx a b \<and> m = n"
  using assms by (simp add: mid_key_source wf_item_def scope_prefix_eq_iff)

lemma length_item_hash: "wf_item a \<Longrightarrow> length (item_hash ctx a) = 32"
  by (auto simp: tier2_bind_hash_def wf_item_def split: option.splits)

lemma item_hash_key_eq_iff:
  assumes "wf_item a" and "wf_item b"
  shows "item_hash_key ctx a = item_hash_key ctx b
    \<longleftrightarrow> same_scope ctx a b \<and> item_hash ctx a = item_hash ctx b"
  using assms length_item_hash [OF assms(1)] length_item_hash [OF assms(2)]
  by (simp add: hash_map_key_source wf_item_def scope_prefix_eq_iff)

subsection \<open>What an insertion leaves unchanged\<close>

lemma note_divergence_fields [simp]:
  "ix_ctx (note_tier1_divergence_fps ix fps item) = ix_ctx ix"
  "ix_message_ids (note_tier1_divergence_fps ix fps item) = ix_message_ids ix"
  "ix_content_hashes (note_tier1_divergence_fps ix fps item) = ix_content_hashes ix"
  "ix_unique_count (note_tier1_divergence_fps ix fps item) = ix_unique_count ix"
  "ix_duplicate_count (note_tier1_divergence_fps ix fps item) = ix_duplicate_count ix"
  "ix_tier1_hits (note_tier1_divergence_fps ix fps item) = ix_tier1_hits ix"
  "ix_tier2_hits (note_tier1_divergence_fps ix fps item) = ix_tier2_hits ix"
  by (cases fps; simp add: note_tier1_divergence_fps_def Let_def)+

lemma note_cross_mid_fields [simp]:
  "ix_ctx (note_cross_mid_block ix k slot mid) = ix_ctx ix"
  "ix_message_ids (note_cross_mid_block ix k slot mid) = ix_message_ids ix"
  "ix_content_hashes (note_cross_mid_block ix k slot mid) = ix_content_hashes ix"
  "ix_unique_count (note_cross_mid_block ix k slot mid) = ix_unique_count ix"
  "ix_duplicate_count (note_cross_mid_block ix k slot mid) = ix_duplicate_count ix"
  "ix_tier1_hits (note_cross_mid_block ix k slot mid) = ix_tier1_hits ix"
  "ix_tier2_hits (note_cross_mid_block ix k slot mid) = ix_tier2_hits ix"
  by (cases mid; simp add: note_cross_mid_block_def Let_def)+

lemma adopt_mid_fields [simp]:
  "ix_ctx (adopt_mid ix item k slot nb) = ix_ctx ix"
  "ix_unique_count (adopt_mid ix item k slot nb) = ix_unique_count ix"
  "ix_duplicate_count (adopt_mid ix item k slot nb) = ix_duplicate_count ix"
  "ix_tier1_hits (adopt_mid ix item k slot nb) = ix_tier1_hits ix"
  "ix_tier2_hits (adopt_mid ix item k slot nb) = ix_tier2_hits ix"
  by (cases nb; simp add: adopt_mid_def Let_def)+

lemma insert_unique_fields [simp]:
  "ix_ctx (insert_unique ix item mid) = ix_ctx ix"
  "ix_unique_count (insert_unique ix item mid) = Suc (ix_unique_count ix)"
  "ix_duplicate_count (insert_unique ix item mid) = ix_duplicate_count ix"
  "ix_tier1_hits (insert_unique ix item mid) = ix_tier1_hits ix"
  "ix_tier2_hits (insert_unique ix item mid) = ix_tier2_hits ix"
  by (cases mid; simp add: insert_unique_def Let_def)+

text \<open>
  The three ways through an insertion. Each proof about \<open>check_and_insert_item\<close> is a proof of
  these three cases.
\<close>

lemma tier1_phase_cases:
  assumes "tier1_phase ix item mid = (ix1, r)"
  obtains (hit) m slot where "mid = Some m"
      "ix_message_ids ix (mid_key (ix_ctx ix) (ii_source_key item) m) = Some slot"
      "\<not> should_split_tier1 (ix_ctx ix) slot item"
      "r = Some (DuplicateOf (sl_msg_ref slot) TierMessageId ByMessageId)"
      "ix_ctx ix1 = ix_ctx ix" "ix_message_ids ix1 = ix_message_ids ix"
      "ix_content_hashes ix1 = ix_content_hashes ix" "ix_unique_count ix1 = ix_unique_count ix"
      "ix_duplicate_count ix1 = Suc (ix_duplicate_count ix)"
      "ix_tier1_hits ix1 = Suc (ix_tier1_hits ix)" "ix_tier2_hits ix1 = ix_tier2_hits ix"
  | (miss) "r = None" "ix_ctx ix1 = ix_ctx ix" "ix_message_ids ix1 = ix_message_ids ix"
      "ix_content_hashes ix1 = ix_content_hashes ix" "ix_unique_count ix1 = ix_unique_count ix"
      "ix_duplicate_count ix1 = ix_duplicate_count ix" "ix_tier1_hits ix1 = ix_tier1_hits ix"
      "ix_tier2_hits ix1 = ix_tier2_hits ix"
      "\<And>m slot. mid = Some m \<Longrightarrow>
         ix_message_ids ix (mid_key (ix_ctx ix) (ii_source_key item) m) = Some slot \<Longrightarrow>
         should_split_tier1 (ix_ctx ix) slot item"
  using assms by (fastforce simp: tier1_phase_def Let_def split: option.splits if_splits)

lemma tier2_phase_cases:
  assumes "tier2_phase ix item mid = (ix1, r)"
  obtains (join) slot nb where "item_eligible (ix_ctx ix) item"
      "ix_content_hashes ix (item_hash_key (ix_ctx ix) item) = Some slot"
      "mid_join_compatible (sl_bound_mid slot) mid (block_cross_mid (ix_ctx ix)) = (True, nb)"
      "r = Some (DuplicateOf (sl_msg_ref slot)
             (tier_for_bound (bound_by_for_tier2 (gx_identity (ix_ctx ix))))
             (bound_by_for_tier2 (gx_identity (ix_ctx ix))))"
      "ix1 = (let ix' = adopt_mid ix item (item_hash_key (ix_ctx ix) item) slot nb
              in ix' \<lparr> ix_duplicate_count := ix_duplicate_count ix' + 1,
                       ix_tier2_hits := ix_tier2_hits ix' + 1 \<rparr>)"
  | (none) "r = None" "ix_ctx ix1 = ix_ctx ix" "ix_message_ids ix1 = ix_message_ids ix"
      "ix_content_hashes ix1 = ix_content_hashes ix" "ix_unique_count ix1 = ix_unique_count ix"
      "ix_duplicate_count ix1 = ix_duplicate_count ix" "ix_tier1_hits ix1 = ix_tier1_hits ix"
      "ix_tier2_hits ix1 = ix_tier2_hits ix"
      "\<And>slot. item_eligible (ix_ctx ix) item \<Longrightarrow>
         ix_content_hashes ix (item_hash_key (ix_ctx ix) item) = Some slot \<Longrightarrow>
         \<not> fst (mid_join_compatible (sl_bound_mid slot) mid (block_cross_mid (ix_ctx ix)))"
  using assms
  by (force simp: tier2_phase_def item_eligible_def tier2_eligible_now_def Let_def
      split: option.splits if_splits prod.splits)

lemma check_and_insert_cases:
  assumes "check_and_insert_item ix item = (ix', r)"
  obtains (mid_hit) m slot where "item_mid item = Some m"
      "ix_message_ids ix (mid_key (ix_ctx ix) (ii_source_key item) m) = Some slot"
      "r = DuplicateOf (sl_msg_ref slot) TierMessageId ByMessageId"
      "ix_ctx ix' = ix_ctx ix" "ix_message_ids ix' = ix_message_ids ix"
      "ix_content_hashes ix' = ix_content_hashes ix" "ix_unique_count ix' = ix_unique_count ix"
      "ix_duplicate_count ix' = Suc (ix_duplicate_count ix)"
      "ix_tier1_hits ix' = Suc (ix_tier1_hits ix)" "ix_tier2_hits ix' = ix_tier2_hits ix"
  | (hash_hit) ix1 slot nb where
      "ix_ctx ix1 = ix_ctx ix" "ix_message_ids ix1 = ix_message_ids ix"
      "ix_content_hashes ix1 = ix_content_hashes ix" "ix_unique_count ix1 = ix_unique_count ix"
      "ix_duplicate_count ix1 = ix_duplicate_count ix" "ix_tier1_hits ix1 = ix_tier1_hits ix"
      "ix_tier2_hits ix1 = ix_tier2_hits ix"
      "item_eligible (ix_ctx ix) item"
      "ix_content_hashes ix (item_hash_key (ix_ctx ix) item) = Some slot"
      "mid_join_compatible (sl_bound_mid slot) (item_mid item) (block_cross_mid (ix_ctx ix)) = (True, nb)"
      "r = DuplicateOf (sl_msg_ref slot)
             (tier_for_bound (bound_by_for_tier2 (gx_identity (ix_ctx ix))))
             (bound_by_for_tier2 (gx_identity (ix_ctx ix)))"
      "ix' = (let ix'' = adopt_mid ix1 item (item_hash_key (ix_ctx ix) item) slot nb
              in ix'' \<lparr> ix_duplicate_count := ix_duplicate_count ix'' + 1,
                        ix_tier2_hits := ix_tier2_hits ix'' + 1 \<rparr>)"
  | (new) ix2 where
      "ix_ctx ix2 = ix_ctx ix" "ix_message_ids ix2 = ix_message_ids ix"
      "ix_content_hashes ix2 = ix_content_hashes ix" "ix_unique_count ix2 = ix_unique_count ix"
      "ix_duplicate_count ix2 = ix_duplicate_count ix" "ix_tier1_hits ix2 = ix_tier1_hits ix"
      "ix_tier2_hits ix2 = ix_tier2_hits ix"
      "r = Unique" "ix' = insert_unique ix2 item (item_mid item)"
      "\<And>m slot. item_mid item = Some m \<Longrightarrow>
         ix_message_ids ix (mid_key (ix_ctx ix) (ii_source_key item) m) = Some slot \<Longrightarrow>
         should_split_tier1 (ix_ctx ix) slot item"
      "\<And>slot. item_eligible (ix_ctx ix) item \<Longrightarrow>
         ix_content_hashes ix (item_hash_key (ix_ctx ix) item) = Some slot \<Longrightarrow>
         \<not> fst (mid_join_compatible (sl_bound_mid slot) (item_mid item) (block_cross_mid (ix_ctx ix)))"
proof -
  obtain ix1 r1 where t1: "tier1_phase ix item (item_mid item) = (ix1, r1)" by fastforce
  show thesis
    using t1
  proof (cases rule: tier1_phase_cases)
    case (hit m slot)
    with t1 assms show thesis
      by (intro mid_hit [of m slot]) (auto simp: check_and_insert_item_def)
  next
    case miss
    obtain ix2 r2 where t2: "tier2_phase ix1 item (item_mid item) = (ix2, r2)" by fastforce
    show thesis
      using t2
    proof (cases rule: tier2_phase_cases)
      case (join slot nb)
      with miss t1 t2 assms show thesis
        by (intro hash_hit [of ix1 slot nb]) (auto simp: check_and_insert_item_def)
    next
      case none
      with miss t1 t2 assms show thesis
        by (intro new [of ix2]) (auto simp: check_and_insert_item_def)
    qed
  qed
qed

lemma adopt_mid_message_ids:
  "ix_message_ids (adopt_mid ix item k slot nb) =
     (case nb of None \<Rightarrow> ix_message_ids ix
      | Some m \<Rightarrow>
          (if ix_message_ids ix (mid_key (ix_ctx ix) (ii_source_key item) m) = None
           then (ix_message_ids ix)(mid_key (ix_ctx ix) (ii_source_key item) m \<mapsto>
                  slot_of_item (ix_ctx ix) item (sl_msg_ref slot) (Some m))
           else ix_message_ids ix))"
  by (auto simp: adopt_mid_def Let_def split: option.splits)

lemma adopt_mid_content_hashes:
  "ix_content_hashes (adopt_mid ix item k slot nb) =
     (case nb of None \<Rightarrow> ix_content_hashes ix
      | Some m \<Rightarrow> (if sl_bound_mid slot = None
                  then (ix_content_hashes ix)(k \<mapsto> slot \<lparr> sl_bound_mid := Some m \<rparr>)
                  else ix_content_hashes ix))"
  by (auto simp: adopt_mid_def Let_def split: option.splits)

lemma insert_unique_message_ids:
  "ix_message_ids (insert_unique ix item mid) =
     (case mid of None \<Rightarrow> ix_message_ids ix
      | Some m \<Rightarrow> (ix_message_ids ix)(mid_key (ix_ctx ix) (ii_source_key item) m \<mapsto>
                    slot_of_item (ix_ctx ix) item (ii_msg_ref item) mid))"
  by (auto simp: insert_unique_def Let_def split: option.splits)

lemma insert_unique_content_hashes:
  "ix_content_hashes (insert_unique ix item mid) =
     (if item_eligible (ix_ctx ix) item \<and> ix_content_hashes ix (item_hash_key (ix_ctx ix) item) = None
      then (ix_content_hashes ix)(item_hash_key (ix_ctx ix) item \<mapsto>
             slot_of_item (ix_ctx ix) item (ii_msg_ref item) mid)
      else ix_content_hashes ix)"
  by (auto simp: insert_unique_def item_eligible_def tier2_eligible_now_def Let_def
      split: option.splits)

subsection \<open>The invariant: every slot stands for an earlier unique item\<close>

definition hash_slot_ok :: "GroupingContext \<Rightarrow> IndexItem set \<Rightarrow> bytes \<Rightarrow> GroupSlot \<Rightarrow> bool" where
  "hash_slot_ok ctx us k s \<longleftrightarrow>
     (\<exists>u\<in>us. sl_msg_ref s = ii_msg_ref u \<and> k = item_hash_key ctx u \<and> item_eligible ctx u \<and>
       mid_present (sl_bound_mid s) = sl_bound_mid s \<and>
       (item_mid u = None \<or> sl_bound_mid s = item_mid u))"

definition mid_slot_ok :: "GroupingContext \<Rightarrow> IndexItem set \<Rightarrow> str \<Rightarrow> GroupSlot \<Rightarrow> bool" where
  "mid_slot_ok ctx us k s \<longleftrightarrow>
     (\<exists>u\<in>us. \<exists>m. sl_msg_ref s = ii_msg_ref u \<and> k = mid_key ctx (ii_source_key u) m \<and>
       (item_mid u = None \<or> item_mid u = Some m))"

definition index_inv :: "GroupingContext \<Rightarrow> IndexItem set \<Rightarrow> DedupIndex \<Rightarrow> bool" where
  "index_inv ctx us ix \<longleftrightarrow> ix_ctx ix = ctx \<and> (\<forall>u\<in>us. wf_item u) \<and>
     (\<forall>k s. ix_content_hashes ix k = Some s \<longrightarrow> hash_slot_ok ctx us k s) \<and>
     (\<forall>k s. ix_message_ids ix k = Some s \<longrightarrow> mid_slot_ok ctx us k s)"

definition dup_justified :: "GroupingContext \<Rightarrow> BoundBy \<Rightarrow> IndexItem \<Rightarrow> IndexItem \<Rightarrow> bool" where
  "dup_justified ctx b u x \<longleftrightarrow> same_scope ctx u x \<and>
     (if b = ByMessageId
      then item_mid x \<noteq> None \<and> (item_mid u = None \<or> item_mid u = item_mid x)
      else b = bound_by_for_tier2 (gx_identity ctx) \<and> item_eligible ctx u \<and> item_eligible ctx x \<and>
           item_hash ctx u = item_hash ctx x \<and>
           (block_cross_mid ctx \<longrightarrow>
              item_mid u = None \<or> item_mid x = None \<or> item_mid u = item_mid x))"

lemma hash_slot_ok_mono: "hash_slot_ok ctx us k s \<Longrightarrow> us \<subseteq> vs \<Longrightarrow> hash_slot_ok ctx vs k s"
  unfolding hash_slot_ok_def by blast

lemma mid_slot_ok_mono: "mid_slot_ok ctx us k s \<Longrightarrow> us \<subseteq> vs \<Longrightarrow> mid_slot_ok ctx vs k s"
  unfolding mid_slot_ok_def by blast

lemma index_inv_empty: "index_inv ctx {} (with_context ctx)"
  by (simp add: index_inv_def with_context_def)

lemma index_inv_new:
  assumes inv: "index_inv ctx us ix" and wf: "wf_item item"
    and eq: "ix_ctx ix2 = ix_ctx ix" "ix_message_ids ix2 = ix_message_ids ix"
      "ix_content_hashes ix2 = ix_content_hashes ix"
  shows "index_inv ctx (insert item us) (insert_unique ix2 item (item_mid item))"
proof -
  from inv eq have ctx: "ix_ctx ix2 = ctx" by (simp add: index_inv_def)
  have "hash_slot_ok ctx (insert item us) k s"
    if "ix_content_hashes (insert_unique ix2 item (item_mid item)) k = Some s" for k s
  proof (cases "ix_content_hashes ix2 k = Some s")
    case True
    with inv eq have "hash_slot_ok ctx us k s" by (simp add: index_inv_def)
    then show ?thesis by (rule hash_slot_ok_mono) auto
  next
    case False
    with that ctx show ?thesis
      by (auto simp: insert_unique_content_hashes hash_slot_ok_def slot_of_item_def
          split: if_splits)
  qed
  moreover have "mid_slot_ok ctx (insert item us) k s"
    if "ix_message_ids (insert_unique ix2 item (item_mid item)) k = Some s" for k s
  proof (cases "ix_message_ids ix2 k = Some s")
    case True
    with inv eq have "mid_slot_ok ctx us k s" by (simp add: index_inv_def)
    then show ?thesis by (rule mid_slot_ok_mono) auto
  next
    case False
    with that ctx show ?thesis
      by (auto simp: insert_unique_message_ids mid_slot_ok_def slot_of_item_def
          split: if_splits option.splits)
  qed
  ultimately show ?thesis using inv wf ctx by (simp add: index_inv_def)
qed

lemma index_inv_join:
  assumes inv: "index_inv ctx us ix" and wf: "wf_item item"
    and eq: "ix_ctx ix1 = ix_ctx ix" "ix_message_ids ix1 = ix_message_ids ix"
      "ix_content_hashes ix1 = ix_content_hashes ix"
    and slot: "ix_content_hashes ix (item_hash_key ctx item) = Some slot"
    and ok: "mid_join_compatible (sl_bound_mid slot) (item_mid item) b = (True, nb)"
  shows "index_inv ctx us (adopt_mid ix1 item (item_hash_key ctx item) slot nb)"
proof -
  from inv eq have ctx: "ix_ctx ix1 = ctx" by (simp add: index_inv_def)
  from inv slot have "hash_slot_ok ctx us (item_hash_key ctx item) slot" by (simp add: index_inv_def)
  then obtain u where u: "u \<in> us" "sl_msg_ref slot = ii_msg_ref u"
      "item_hash_key ctx item = item_hash_key ctx u" "item_eligible ctx u"
      "mid_present (sl_bound_mid slot) = sl_bound_mid slot"
      "item_mid u = None \<or> sl_bound_mid slot = item_mid u"
    unfolding hash_slot_ok_def by blast
  from inv u(1) have "wf_item u" by (simp add: index_inv_def)
  with wf u(3) have scope: "same_scope ctx item u" using item_hash_key_eq_iff by blast
  have nb: "nb = (if sl_bound_mid slot = None then item_mid item else sl_bound_mid slot)"
    using mid_join_bound [OF ok] u(5) by simp
  have "hash_slot_ok ctx us k s"
    if "ix_content_hashes (adopt_mid ix1 item (item_hash_key ctx item) slot nb) k = Some s" for k s
  proof (cases "ix_content_hashes ix1 k = Some s")
    case True
    with inv eq show ?thesis by (simp add: index_inv_def)
  next
    case False
    with that have "k = item_hash_key ctx item" "sl_bound_mid slot = None"
      "\<exists>m. nb = Some m \<and> s = slot \<lparr> sl_bound_mid := Some m \<rparr>"
      by (auto simp: adopt_mid_content_hashes split: option.splits if_splits)
    with u nb show ?thesis
      unfolding hash_slot_ok_def by (auto intro!: bexI [of _ u] simp: mid_present_Some)
  qed
  moreover have "mid_slot_ok ctx us k s"
    if "ix_message_ids (adopt_mid ix1 item (item_hash_key ctx item) slot nb) k = Some s" for k s
  proof (cases "ix_message_ids ix1 k = Some s")
    case True
    with inv eq show ?thesis by (simp add: index_inv_def)
  next
    case False
    with that ctx obtain m where "nb = Some m" "k = mid_key ctx (ii_source_key item) m"
      "s = slot_of_item ctx item (sl_msg_ref slot) (Some m)"
      by (auto simp: adopt_mid_message_ids split: option.splits if_splits)
    moreover from this scope have "k = mid_key ctx (ii_source_key u) m"
      using scope_prefix_eq_iff [of ctx item u] by (simp add: mid_key_def)
    ultimately show ?thesis
      using u nb unfolding mid_slot_ok_def
      by (auto intro!: bexI [of _ u] exI [of _ m] simp: slot_of_item_def split: if_splits)
  qed
  ultimately show ?thesis using inv ctx by (simp add: index_inv_def)
qed

lemma index_inv_cong:
  "index_inv ctx us ix \<Longrightarrow> ix_ctx ix' = ix_ctx ix \<Longrightarrow> ix_message_ids ix' = ix_message_ids ix \<Longrightarrow>
   ix_content_hashes ix' = ix_content_hashes ix \<Longrightarrow> index_inv ctx us ix'"
  by (simp add: index_inv_def)

lemma index_inv_step:
  assumes inv: "index_inv ctx us ix" and wf: "wf_item item"
    and step: "check_and_insert_item ix item = (ix', r)"
  shows "r = Unique \<and> index_inv ctx (insert item us) ix' \<or>
    (\<exists>u\<in>us. \<exists>t b. r = DuplicateOf (ii_msg_ref u) t b \<and> dup_justified ctx b u item) \<and>
    index_inv ctx us ix'"
  using step
proof (cases rule: check_and_insert_cases)
  case (mid_hit m slot)
  from inv have ctx: "ix_ctx ix = ctx" by (simp add: index_inv_def)
  with inv mid_hit have "mid_slot_ok ctx us (mid_key ctx (ii_source_key item) m) slot"
    by (simp add: index_inv_def)
  then obtain u n where u: "u \<in> us" "sl_msg_ref slot = ii_msg_ref u"
      "mid_key ctx (ii_source_key item) m = mid_key ctx (ii_source_key u) n"
      "item_mid u = None \<or> item_mid u = Some n"
    unfolding mid_slot_ok_def by blast
  from inv u(1) have "wf_item u" by (simp add: index_inv_def)
  with u(3) wf have "same_scope ctx item u" "m = n" by (simp_all add: mid_key_eq_iff)
  with u mid_hit have "dup_justified ctx ByMessageId u item"
    by (auto simp: dup_justified_def same_scope_def)
  with u mid_hit index_inv_cong [OF inv] show ?thesis by auto
next
  case (hash_hit ix1 slot nb)
  from inv have ctx: "ix_ctx ix = ctx" by (simp add: index_inv_def)
  with inv hash_hit have "hash_slot_ok ctx us (item_hash_key ctx item) slot"
    by (simp add: index_inv_def)
  then obtain u where u: "u \<in> us" "sl_msg_ref slot = ii_msg_ref u"
      "item_hash_key ctx item = item_hash_key ctx u" "item_eligible ctx u"
      "mid_present (sl_bound_mid slot) = sl_bound_mid slot"
      "item_mid u = None \<or> sl_bound_mid slot = item_mid u"
    unfolding hash_slot_ok_def by blast
  from inv u(1) have "wf_item u" by (simp add: index_inv_def)
  with u(3) wf have "same_scope ctx item u" "item_hash ctx item = item_hash ctx u"
    by (simp_all add: item_hash_key_eq_iff)
  moreover have "block_cross_mid ctx \<longrightarrow>
      item_mid u = None \<or> item_mid item = None \<or> item_mid u = item_mid item"
    using mid_join_ok_iff [of "sl_bound_mid slot" "item_mid item" "block_cross_mid ctx"] u(5,6)
      hash_hit(10) ctx by auto
  moreover have "bound_by_for_tier2 (gx_identity ctx) \<noteq> ByMessageId"
    by (simp add: bound_by_for_tier2_def)
  ultimately have "dup_justified ctx (bound_by_for_tier2 (gx_identity ctx)) u item"
    using hash_hit(8) ctx u(4) by (auto simp: dup_justified_def same_scope_def)
  moreover have "index_inv ctx us (adopt_mid ix1 item (item_hash_key ctx item) slot nb)"
    using index_inv_join [OF inv wf hash_hit(1-3)] hash_hit(9,10) ctx by blast
  then have "index_inv ctx us ix'"
    by (rule index_inv_cong) (simp_all add: hash_hit(12) ctx Let_def)
  ultimately show ?thesis using u hash_hit(11) ctx by auto
next
  case (new ix2)
  with index_inv_new [OF inv wf] show ?thesis by auto
qed

lemma insert_all_justified:
  assumes "index_inv ctx us ix" and "\<forall>x\<in>set items. wf_item x"
    and "insert_all ix items = (ix', rs)" and "i < length items" and "rs ! i = DuplicateOf orig t b"
  shows "\<exists>u. (u \<in> us \<or> (\<exists>j<i. items ! j = u \<and> rs ! j = Unique)) \<and> orig = ii_msg_ref u \<and>
    dup_justified ctx b u (items ! i)"
  using assms
proof (induction items arbitrary: us ix rs i)
  case Nil
  then show ?case by simp
next
  case (Cons item items)
  obtain ix1 r where step: "check_and_insert_item ix item = (ix1, r)" by fastforce
  obtain rs' where rest: "insert_all ix1 items = (ix', rs')" and rs: "rs = r # rs'"
    using Cons.prems(3) step by (auto split: prod.splits)
  have wf: "wf_item item" using Cons.prems(2) by simp
  note cases = index_inv_step [OF Cons.prems(1) wf step]
  show ?case
  proof (cases i)
    case 0
    with Cons.prems(5) rs cases show ?thesis by auto
  next
    case (Suc k)
    let ?vs = "if r = Unique then insert item us else us"
    have "index_inv ctx ?vs ix1" using cases by auto
    with Cons.IH [OF _ _ rest, of ?vs k] Cons.prems Suc rs
    obtain u where u: "u \<in> ?vs \<or> (\<exists>j<k. items ! j = u \<and> rs' ! j = Unique)"
        "orig = ii_msg_ref u" "dup_justified ctx b u (items ! k)"
      by auto
    from u(1) have "u \<in> us \<or> (\<exists>j<i. (item # items) ! j = u \<and> rs ! j = Unique)"
      using rs Suc by (auto split: if_splits intro: exI [of _ 0] exI [of _ "Suc _"])
    with u Suc show ?thesis by auto
  qed
qed

text \<open>
  C1: soundness of the streaming index. When the scan of any list of well-formed items answers
  that an item is a duplicate, the message it names was scanned earlier and answered unique, it
  lies in the same dedupe scope, and the recorded provenance is true: a Message-ID bind has a
  Message-ID that does not conflict with that of the original, a content-hash bind has two
  eligible items with the same hash whose Message-IDs do not conflict when the cross-Message-ID
  guard is on.
\<close>

theorem index_duplicates_justified:
  assumes "\<forall>x\<in>set items. wf_item x"
    and "insert_all (with_context ctx) items = (ix, rs)"
    and "i < length items" and "rs ! i = DuplicateOf orig t b"
  shows "\<exists>j<i. rs ! j = Unique \<and> orig = ii_msg_ref (items ! j) \<and>
    dup_justified ctx b (items ! j) (items ! i)"
  using insert_all_justified [OF index_inv_empty assms] by auto

lemma check_and_insert_counts:
  assumes "check_and_insert_item ix item = (ix', r)"
  shows "ix_unique_count ix' = ix_unique_count ix + (if r = Unique then 1 else 0) \<and>
    ix_duplicate_count ix' = ix_duplicate_count ix + (if r = Unique then 0 else 1) \<and>
    ix_tier1_hits ix' = ix_tier1_hits ix + (if result_bound_by r = ByMessageId then 1 else 0) \<and>
    ix_tier1_hits ix' + ix_tier2_hits ix' + ix_duplicate_count ix
      = ix_tier1_hits ix + ix_tier2_hits ix + ix_duplicate_count ix'"
  using assms
  by (cases rule: check_and_insert_cases) (auto simp: bound_by_for_tier2_def Let_def)

lemma insert_all_counts:
  assumes "insert_all ix items = (ix', rs)"
  shows "length rs = length items \<and>
    ix_unique_count ix' = ix_unique_count ix + length (filter is_unique rs) \<and>
    ix_duplicate_count ix' = ix_duplicate_count ix + length (filter (\<lambda>r. \<not> is_unique r) rs) \<and>
    ix_tier1_hits ix' = ix_tier1_hits ix
      + length (filter (\<lambda>r. result_bound_by r = ByMessageId) rs) \<and>
    ix_tier1_hits ix' + ix_tier2_hits ix' + ix_duplicate_count ix
      = ix_tier1_hits ix + ix_tier2_hits ix + ix_duplicate_count ix'"
  using assms
proof (induction items arbitrary: ix rs)
  case Nil
  then show ?case by simp
next
  case (Cons item items)
  obtain ix1 r where step: "check_and_insert_item ix item = (ix1, r)" by fastforce
  obtain rs' where rest: "insert_all ix1 items = (ix', rs')" and rs: "rs = r # rs'"
    using Cons.prems step by (auto split: prod.splits)
  from Cons.IH [OF rest] check_and_insert_counts [OF step] rs show ?case
    by (cases r) (auto simp: is_unique_def)
qed

text \<open>
  C27: the counters of the index account for the whole scan. Every item is answered once, the
  unique and duplicate counts are the numbers of such answers and add up to the number of items,
  and the duplicates split into the hits of the two tiers.
\<close>

theorem index_counts_conserved:
  "case insert_all (with_context ctx) items of (ix, rs) \<Rightarrow>
     length rs = length items \<and> index_total ix = length items \<and>
     ix_unique_count ix = length (filter is_unique rs) \<and>
     ix_duplicate_count ix = ix_tier1_hits ix + ix_tier2_hits ix \<and>
     ix_tier1_hits ix = length (filter (\<lambda>r. result_bound_by r = ByMessageId) rs)"
proof (cases "insert_all (with_context ctx) items")
  case (Pair ix rs)
  from insert_all_counts [OF Pair] have "length rs = length items"
    and "ix_unique_count ix = length (filter is_unique rs)"
    and "ix_duplicate_count ix = length (filter (\<lambda>r. \<not> is_unique r) rs)"
    and "ix_duplicate_count ix = ix_tier1_hits ix + ix_tier2_hits ix"
    and "ix_tier1_hits ix = length (filter (\<lambda>r. result_bound_by r = ByMessageId) rs)"
    by (simp_all add: with_context_def)
  then show ?thesis
    using sum_length_filter_compl [of is_unique rs] unfolding Pair index_total_def by simp
qed

subsection \<open>Completeness\<close>

text \<open>
  A table entry is never removed: once a key is present, it stays. Together with what an
  insertion registers this gives that a repeated key is found.
\<close>

lemma check_and_insert_keeps:
  assumes "check_and_insert_item ix item = (ix', r)"
  shows "ix_ctx ix' = ix_ctx ix \<and> dom (ix_message_ids ix) \<subseteq> dom (ix_message_ids ix') \<and>
    dom (ix_content_hashes ix) \<subseteq> dom (ix_content_hashes ix')"
  using assms
  by (cases rule: check_and_insert_cases)
    (auto simp: Let_def adopt_mid_message_ids adopt_mid_content_hashes insert_unique_message_ids
      insert_unique_content_hashes split: option.splits)

lemma insert_all_keeps:
  assumes "insert_all ix items = (ix', rs)"
  shows "ix_ctx ix' = ix_ctx ix \<and> dom (ix_message_ids ix) \<subseteq> dom (ix_message_ids ix') \<and>
    dom (ix_content_hashes ix) \<subseteq> dom (ix_content_hashes ix')"
  using assms
proof (induction items arbitrary: ix rs)
  case (Cons item items)
  obtain ix1 r where step: "check_and_insert_item ix item = (ix1, r)" by fastforce
  obtain rs' where rest: "insert_all ix1 items = (ix', rs')"
    using Cons.prems step by (auto split: prod.splits)
  from Cons.IH [OF rest] check_and_insert_keeps [OF step] show ?case
    by (blast intro: subset_trans trans)
qed simp

lemma check_and_insert_registers_mid:
  assumes "check_and_insert_item ix item = (ix', r)" and "item_mid item = Some m"
    and "block_cross_mid (ix_ctx ix)"
  shows "mid_key (ix_ctx ix) (ii_source_key item) m \<in> dom (ix_message_ids ix')"
  using assms(1)
proof (cases rule: check_and_insert_cases)
  case (hash_hit ix1 slot nb)
  have "nb = Some m"
    using mid_join_bound [OF hash_hit(10)] assms(2,3) hash_hit(10)
      mid_join_ok_iff [of "sl_bound_mid slot" "item_mid item" "block_cross_mid (ix_ctx ix)"]
      mid_present_idem [of "ii_message_id item"]
    by (auto split: if_splits)
  with hash_hit show ?thesis by (auto simp: Let_def adopt_mid_message_ids)
qed (use assms in \<open>auto simp: insert_unique_message_ids\<close>)

lemma check_and_insert_finds_mid:
  assumes "check_and_insert_item ix item = (ix', r)" and "item_mid item = Some m"
    and "gx_tier1_verify (ix_ctx ix) = TvOff"
    and "mid_key (ix_ctx ix) (ii_source_key item) m \<in> dom (ix_message_ids ix)"
  shows "result_bound_by r = ByMessageId"
  using assms(1)
proof (cases rule: check_and_insert_cases)
  case (hash_hit ix1 slot nb)
  from assms obtain s where "ix_message_ids ix (mid_key (ix_ctx ix) (ii_source_key item) m) = Some s"
    by auto
  with assms(1-3) show ?thesis
    by (simp add: check_and_insert_item_def tier1_phase_def should_split_tier1_def Let_def)
       (metis result_bound_by.simps(2) snd_conv)
next
  case (new ix2)
  with assms show ?thesis by (fastforce simp: should_split_tier1_def)
qed simp

lemma insert_all_append:
  "insert_all ix (xs @ ys) =
     (let (ix1, rs) = insert_all ix xs; (ix2, ss) = insert_all ix1 ys in (ix2, rs @ ss))"
  by (induction xs arbitrary: ix) (auto split: prod.splits)

lemma insert_all_split:
  assumes "insert_all ix items = (ix', rs)" and "i < length items"
  obtains ix1 ix2 ss where "insert_all ix (take i items) = (ix1, take i rs)"
    "check_and_insert_item ix1 (items ! i) = (ix2, rs ! i)"
    "insert_all ix2 (drop (Suc i) items) = (ix', ss)" "ss = drop (Suc i) rs"
proof -
  have items: "items = take i items @ items ! i # drop (Suc i) items"
    using assms(2) by (rule id_take_nth_drop)
  obtain ix1 as where a: "insert_all ix (take i items) = (ix1, as)" by fastforce
  obtain ix2 r where b: "check_and_insert_item ix1 (items ! i) = (ix2, r)" by fastforce
  obtain ix3 bs where c: "insert_all ix2 (drop (Suc i) items) = (ix3, bs)" by fastforce
  have "insert_all ix (take i items @ items ! i # drop (Suc i) items) = (ix3, as @ r # bs)"
    by (simp add: insert_all_append a b c)
  with assms(1) items have eq: "ix' = ix3" "rs = as @ r # bs" by auto
  have "length as = i" using insert_all_counts [OF a] assms(2) by simp
  with eq a b c that show thesis by auto
qed

text \<open>
  C23: a repeated Message-ID is always recognised. With Tier-1 verification off and the
  cross-Message-ID guard on, if two items of a scan carry the same non-empty Message-ID in the
  same scope, the later one is answered as a duplicate bound by Message-ID, however the earlier
  one was answered.
\<close>

theorem index_finds_repeated_mid:
  assumes "\<forall>x\<in>set items. wf_item x" and "insert_all (with_context ctx) items = (ix, rs)"
    and "gx_tier1_verify ctx = TvOff" and "block_cross_mid ctx"
    and "i < j" and "j < length items"
    and "item_mid (items ! i) = Some m" and "item_mid (items ! j) = Some m"
    and "same_scope ctx (items ! i) (items ! j)"
  shows "result_bound_by (rs ! j) = ByMessageId"
proof -
  let ?xs = "take j items"
  obtain ix1 ix2 ss where pre: "insert_all (with_context ctx) ?xs = (ix1, take j rs)"
    and step: "check_and_insert_item ix1 (items ! j) = (ix2, rs ! j)"
    using insert_all_split [OF assms(2,6)] by metis
  have "i < length ?xs" using assms(5,6) by simp
  then obtain iy1 iy2 us where early: "insert_all (with_context ctx) (take i ?xs) = (iy1, take i (take j rs))"
    and mid: "check_and_insert_item iy1 (?xs ! i) = (iy2, take j rs ! i)"
    and late: "insert_all iy2 (drop (Suc i) ?xs) = (ix1, us)"
    using insert_all_split [OF pre] by metis
  have ctx: "ix_ctx iy1 = ctx" "ix_ctx iy2 = ctx" "ix_ctx ix1 = ctx"
    using insert_all_keeps [OF early] check_and_insert_keeps [OF mid] insert_all_keeps [OF late]
    by (simp_all add: with_context_def)
  have "mid_key ctx (ii_source_key (items ! i)) m \<in> dom (ix_message_ids iy2)"
    using check_and_insert_registers_mid [OF mid] assms(4,5,7) ctx by simp
  then have "mid_key ctx (ii_source_key (items ! i)) m \<in> dom (ix_message_ids ix1)"
    using insert_all_keeps [OF late] by blast
  moreover have "mid_key ctx (ii_source_key (items ! i)) m = mid_key ctx (ii_source_key (items ! j)) m"
    using assms(9) by (simp add: mid_key_def scope_prefix_eq_iff)
  ultimately show ?thesis
    using check_and_insert_finds_mid [OF step assms(8)] assms(3) ctx by simp
qed



subsection \<open>A sample scan\<close>

definition sample_ref :: "u64 \<Rightarrow> MessageRef" where
  "sample_ref n =
     \<lparr> mr_pst_index = 0, mr_pst_name = lit ''a.pst'', mr_folder_path = lit ''Inbox'', mr_nid = n,
       mr_subject = lit ''s'', mr_submit_time = None, mr_sender = lit ''x'', mr_size = 1 \<rparr>"

definition sample_items :: "IndexItem list" where
  "sample_items =
     [classic (Some (lit ''m'')) (replicate 32 1) (sample_ref 1),
      classic (Some (lit ''m'')) (replicate 32 2) (sample_ref 2),
      classic None (replicate 32 1) (sample_ref 3)]"

abbreviation sample_scan :: "DedupIndex \<times> DedupResult list" where
  "sample_scan \<equiv> insert_all (with_context default_context) sample_items"

lemma sample_results:
  "snd sample_scan =
     [Unique, DuplicateOf (sample_ref 1) TierMessageId ByMessageId,
      DuplicateOf (sample_ref 1) TierContentHash ByContentHash]"
  by (simp add: sample_items_def classic_def with_context_def default_context_def
      check_and_insert_item_def tier1_phase_def tier2_phase_def insert_unique_def adopt_mid_def
      slot_of_item_def note_tier1_divergence_fps_def should_split_tier1_def tier2_eligible_now_def
      enforce_readable_body_def block_cross_mid_def mid_join_compatible_def tier2_bind_hash_def
      is_strong_def hash_map_key_def mid_key_def scope_prefix_def bound_by_for_tier2_def Let_def)

lemma sample_wf: "\<forall>x\<in>set sample_items. wf_item x" "length sample_items = 3"
  by (simp_all add: sample_items_def classic_def wf_item_def wf_str_def)

theorem index_duplicates_justified_witness:
  "\<exists>j<2. snd sample_scan ! j = Unique \<and> sample_ref 1 = ii_msg_ref (sample_items ! j) \<and>
     dup_justified default_context ByContentHash (sample_items ! j) (sample_items ! 2)"
  by (rule index_duplicates_justified [OF sample_wf(1) prod.collapse [symmetric]])
    (simp_all only: sample_results sample_wf, simp_all)

theorem index_finds_repeated_mid_witness: "result_bound_by (snd sample_scan ! 1) = ByMessageId"
  by (rule index_finds_repeated_mid [OF sample_wf(1) prod.collapse [symmetric], where i = 0])
    (simp_all only: sample_wf(2),
     simp_all add: sample_items_def classic_def same_scope_def default_context_def block_cross_mid_def)


end
