(* ===== verification/Pst_Error.thy ===== *)
theory Pst_Error
  imports Rust_Text
begin

text \<open>
  The errors of the storage layers: those of the reader (\<^verbatim>\<open>pst-reader/src/error.rs\<close>) and of
  the writer (\<^verbatim>\<open>pst-writer/src/lib.rs\<close>), with their payloads. An I/O error is its text, a path
  is its text. Results are sums with the error on the left.
\<close>

datatype PstError =
    PeIo str
  | PeInvalidMagic u32
  | PeAnsiPstNotSupported nat
  | PeInvalidClientMagic nat
  | PeInvalidPageType nat nat
  | PePageTypeMismatch nat nat
  | PeCrcMismatch u32 u32
  | PeNodeNotFound u64
  | PeBlockNotFound u64
  | PeNoSubnodeBTree u64
  | PeInvalidBlockType nat nat
  | PeInvalidHnSignature nat
  | PeInvalidBthType nat
  | PeInvalidHid u32
  | PePropertyNotFound nat
  | PePropertyTypeMismatch nat str nat
  | PeDataTruncated usize usize
  | PeSubnodeNotFound u64
  | PeUnsupportedCryptMethod nat
  | PeInvalidUtf16
  | PeResourceLimit str
  | PeBtreeCycle u64

datatype WriterError =
    WeIo str
  | WeEmlParse str
  | WeLayout str
  | WeBodyTooLarge str
  | WeAllocationFailed str
  | WeRefused str
  | WeRefusedSourceOverwrite str
  | WeCancelled

text \<open>The upper-case hexadecimal digits of \<^verbatim>\<open>{:X}\<close>, shortest form.\<close>

fun show_hex :: "nat \<Rightarrow> str" where
  "show_hex n = (let d = n mod 16; c = (if d < 10 then 48 + d else 55 + d)
                 in if n < 16 then [c] else show_hex (n div 16) @ [c])"

declare show_hex.simps [simp del]

end
