(* ===== verification/Integrity.thy ===== *)
theory Integrity
  imports Pst_Error "HOL-Library.Log_Nat"
begin

text \<open>
  Scan integrity (\<^verbatim>\<open>dedup-engine/src/integrity.rs\<close>): scan modes, the stable reason codes and how reader errors
  map to them, the classification of a message as skipped or recoverable, and the preflight
  recommendation computed from the tallies of a scan. The CSV ledger writer is file output and
  is not modelled.
\<close>

subsection \<open>Modes and statuses\<close>

datatype ScanMode = BestEffort | Strict

fun scan_mode_as_str :: "ScanMode \<Rightarrow> str" where
  "scan_mode_as_str BestEffort = lit ''best-effort''"
| "scan_mode_as_str Strict = lit ''strict''"

definition scan_mode_parse :: "str \<Rightarrow> ScanMode option" where
  "scan_mode_parse s =
     (if s = lit ''best-effort'' \<or> s = lit ''best_effort'' then Some BestEffort
      else if s = lit ''strict'' then Some Strict
      else None)"

interpretation scan_mode_text: text_codec scan_mode_as_str scan_mode_parse "\<lambda>x. x"
proof
  show "scan_mode_parse (scan_mode_as_str x) = Some x" for x
    by (cases x) (simp_all add: scan_mode_parse_def lit_eq_iff)
qed simp

datatype FileScanStatus = FsOpened | FsPartial | FsFailed

fun file_status_as_str :: "FileScanStatus \<Rightarrow> str" where
  "file_status_as_str FsOpened = lit ''opened''"
| "file_status_as_str FsPartial = lit ''partial''"
| "file_status_as_str FsFailed = lit ''failed''"

subsection \<open>Reason codes\<close>

datatype IntegrityReason =
    OpenFailed
  | AnsiUnsupported
  | UnsupportedCrypt
  | FolderWalkFailed
  | CrcMismatch
  | CrcSuspect
  | BlockNotFound
  | NodeNotFound
  | DataTruncated
  | BodyTruncated
  | BodyUnavailable
  | OrphanedNode
  | InvalidStructure
  | PropertyError
  | MessageReadFailed
  | AttachMetaFailed
  | AttachStreamOpenFailed
  | AttachStreamReadFailed
  | AttachStreamCrc
  | AttachBlockNotFound
  | AttachDataTruncated
  | AttachMethodUnsupported
  | AttachCloudLink
  | AttachProbeTruncated
  | AttachProbeTimeout
  | AttachPeerProbeCap
  | PathNotFound
  | NotPst
  | ReadError

fun reason_as_str :: "IntegrityReason \<Rightarrow> str" where
  "reason_as_str OpenFailed = lit ''OPEN_FAILED''"
| "reason_as_str AnsiUnsupported = lit ''ANSI_UNSUPPORTED''"
| "reason_as_str UnsupportedCrypt = lit ''UNSUPPORTED_CRYPT''"
| "reason_as_str FolderWalkFailed = lit ''FOLDER_WALK_FAILED''"
| "reason_as_str CrcMismatch = lit ''CRC_MISMATCH''"
| "reason_as_str CrcSuspect = lit ''CRC_SUSPECT''"
| "reason_as_str BlockNotFound = lit ''BLOCK_NOT_FOUND''"
| "reason_as_str NodeNotFound = lit ''NODE_NOT_FOUND''"
| "reason_as_str DataTruncated = lit ''DATA_TRUNCATED''"
| "reason_as_str BodyTruncated = lit ''BODY_TRUNCATED''"
| "reason_as_str BodyUnavailable = lit ''BODY_UNAVAILABLE''"
| "reason_as_str OrphanedNode = lit ''ORPHANED_NODE''"
| "reason_as_str InvalidStructure = lit ''INVALID_STRUCTURE''"
| "reason_as_str PropertyError = lit ''PROPERTY_ERROR''"
| "reason_as_str MessageReadFailed = lit ''MESSAGE_READ_FAILED''"
| "reason_as_str AttachMetaFailed = lit ''ATTACH_META_FAILED''"
| "reason_as_str AttachStreamOpenFailed = lit ''ATTACH_STREAM_OPEN_FAILED''"
| "reason_as_str AttachStreamReadFailed = lit ''ATTACH_STREAM_READ_FAILED''"
| "reason_as_str AttachStreamCrc = lit ''ATTACH_STREAM_CRC''"
| "reason_as_str AttachBlockNotFound = lit ''ATTACH_BLOCK_NOT_FOUND''"
| "reason_as_str AttachDataTruncated = lit ''ATTACH_DATA_TRUNCATED''"
| "reason_as_str AttachMethodUnsupported = lit ''ATTACH_METHOD_UNSUPPORTED''"
| "reason_as_str AttachCloudLink = lit ''ATTACH_CLOUD_LINK''"
| "reason_as_str AttachProbeTruncated = lit ''ATTACH_PROBE_TRUNCATED''"
| "reason_as_str AttachProbeTimeout = lit ''ATTACH_PROBE_TIMEOUT''"
| "reason_as_str AttachPeerProbeCap = lit ''ATTACH_PEER_PROBE_CAP''"
| "reason_as_str PathNotFound = lit ''PATH_NOT_FOUND''"
| "reason_as_str NotPst = lit ''NOT_PST''"
| "reason_as_str ReadError = lit ''READ_ERROR''"

text \<open>The deserialiser's match is an association list; an unknown code is an error with its text.\<close>

definition reason_table :: "(str \<times> IntegrityReason) list" where
  "reason_table =
     [(lit ''OPEN_FAILED'', OpenFailed),
      (lit ''ANSI_UNSUPPORTED'', AnsiUnsupported),
      (lit ''UNSUPPORTED_CRYPT'', UnsupportedCrypt),
      (lit ''FOLDER_WALK_FAILED'', FolderWalkFailed),
      (lit ''CRC_MISMATCH'', CrcMismatch),
      (lit ''CRC_SUSPECT'', CrcSuspect),
      (lit ''BLOCK_NOT_FOUND'', BlockNotFound),
      (lit ''NODE_NOT_FOUND'', NodeNotFound),
      (lit ''DATA_TRUNCATED'', DataTruncated),
      (lit ''BODY_TRUNCATED'', BodyTruncated),
      (lit ''BODY_UNAVAILABLE'', BodyUnavailable),
      (lit ''ORPHANED_NODE'', OrphanedNode),
      (lit ''INVALID_STRUCTURE'', InvalidStructure),
      (lit ''PROPERTY_ERROR'', PropertyError),
      (lit ''MESSAGE_READ_FAILED'', MessageReadFailed),
      (lit ''ATTACH_META_FAILED'', AttachMetaFailed),
      (lit ''ATTACH_STREAM_OPEN_FAILED'', AttachStreamOpenFailed),
      (lit ''ATTACH_STREAM_READ_FAILED'', AttachStreamReadFailed),
      (lit ''ATTACH_STREAM_CRC'', AttachStreamCrc),
      (lit ''ATTACH_BLOCK_NOT_FOUND'', AttachBlockNotFound),
      (lit ''ATTACH_DATA_TRUNCATED'', AttachDataTruncated),
      (lit ''ATTACH_METHOD_UNSUPPORTED'', AttachMethodUnsupported),
      (lit ''ATTACH_CLOUD_LINK'', AttachCloudLink),
      (lit ''ATTACH_PROBE_TRUNCATED'', AttachProbeTruncated),
      (lit ''ATTACH_PROBE_TIMEOUT'', AttachProbeTimeout),
      (lit ''ATTACH_PEER_PROBE_CAP'', AttachPeerProbeCap),
      (lit ''PATH_NOT_FOUND'', PathNotFound),
      (lit ''NOT_PST'', NotPst),
      (lit ''READ_ERROR'', ReadError)]"

definition reason_deserialize :: "str \<Rightarrow> str + IntegrityReason" where
  "reason_deserialize s =
     (case map_of reason_table s of
        Some r \<Rightarrow> Inr r
      | None \<Rightarrow> Inl (lit ''unknown integrity reason '' @ [39] @ s @ [39]))"

definition reason_parse :: "str \<Rightarrow> IntegrityReason option" where
  "reason_parse s = (case reason_deserialize s of Inl _ \<Rightarrow> None | Inr r \<Rightarrow> Some r)"

interpretation reason_text: text_codec reason_as_str reason_parse "\<lambda>x. x"
proof
  show "reason_parse (reason_as_str x) = Some x" for x
    by (cases x) (simp_all add: reason_parse_def reason_deserialize_def reason_table_def lit_eq_iff)
qed simp

definition is_attach_probe_fail :: "IntegrityReason \<Rightarrow> bool" where
  "is_attach_probe_fail r \<longleftrightarrow>
     r \<in> {AttachStreamOpenFailed, AttachStreamReadFailed, AttachStreamCrc, AttachBlockNotFound,
          AttachDataTruncated, AttachMethodUnsupported, AttachCloudLink, AttachProbeTimeout,
          AttachMetaFailed}"

fun reason_from_pst_error :: "PstError \<Rightarrow> IntegrityReason" where
  "reason_from_pst_error (PeAnsiPstNotSupported _) = AnsiUnsupported"
| "reason_from_pst_error (PeUnsupportedCryptMethod _) = UnsupportedCrypt"
| "reason_from_pst_error (PeCrcMismatch _ _) = CrcMismatch"
| "reason_from_pst_error (PeBlockNotFound _) = BlockNotFound"
| "reason_from_pst_error (PeNodeNotFound _) = NodeNotFound"
| "reason_from_pst_error (PeSubnodeNotFound _) = NodeNotFound"
| "reason_from_pst_error (PeNoSubnodeBTree _) = NodeNotFound"
| "reason_from_pst_error (PeDataTruncated _ _) = DataTruncated"
| "reason_from_pst_error (PeInvalidMagic _) = InvalidStructure"
| "reason_from_pst_error (PeInvalidClientMagic _) = InvalidStructure"
| "reason_from_pst_error (PeInvalidPageType _ _) = InvalidStructure"
| "reason_from_pst_error (PePageTypeMismatch _ _) = InvalidStructure"
| "reason_from_pst_error (PeInvalidBlockType _ _) = InvalidStructure"
| "reason_from_pst_error (PeInvalidHnSignature _) = InvalidStructure"
| "reason_from_pst_error (PeInvalidBthType _) = InvalidStructure"
| "reason_from_pst_error (PeInvalidHid _) = InvalidStructure"
| "reason_from_pst_error PeInvalidUtf16 = InvalidStructure"
| "reason_from_pst_error (PeResourceLimit _) = InvalidStructure"
| "reason_from_pst_error (PeBtreeCycle _) = InvalidStructure"
| "reason_from_pst_error (PePropertyNotFound _) = PropertyError"
| "reason_from_pst_error (PePropertyTypeMismatch _ _ _) = PropertyError"
| "reason_from_pst_error (PeIo _) = OpenFailed"

definition attach_reason_from_pst_error :: "PstError \<Rightarrow> IntegrityReason" where
  "attach_reason_from_pst_error err =
     (case err of
        PeCrcMismatch _ _ \<Rightarrow> AttachStreamCrc
      | PeBlockNotFound _ \<Rightarrow> AttachBlockNotFound
      | PeDataTruncated _ _ \<Rightarrow> AttachDataTruncated
      | PeNodeNotFound _ \<Rightarrow> AttachStreamOpenFailed
      | PeSubnodeNotFound _ \<Rightarrow> AttachStreamOpenFailed
      | PeNoSubnodeBTree _ \<Rightarrow> AttachStreamOpenFailed
      | PePropertyNotFound _ \<Rightarrow> AttachStreamOpenFailed
      | PePropertyTypeMismatch _ _ _ \<Rightarrow> AttachStreamOpenFailed
      | PeIo _ \<Rightarrow> AttachStreamOpenFailed
      | _ \<Rightarrow> AttachStreamOpenFailed)"

definition is_body_truncation_or_crc :: "PstError \<Rightarrow> bool" where
  "is_body_truncation_or_crc err =
     (case err of PeDataTruncated _ _ \<Rightarrow> True | PeCrcMismatch _ _ \<Rightarrow> True | _ \<Rightarrow> False)"

subsection \<open>Integrity of one message\<close>

record SkipRecord =
  sk_source_path :: str
  sk_source_pst :: str
  sk_folder_path :: str
  sk_is_orphaned :: bool
  sk_nid :: u64
  sk_reason :: IntegrityReason
  sk_detail :: str
  sk_mode :: ScanMode

record RecoverableIntegrity =
  in_is_orphaned :: bool
  in_degraded :: bool
  in_degraded_reasons :: "IntegrityReason list"

definition clean :: RecoverableIntegrity where
  "clean = \<lparr> in_is_orphaned = False, in_degraded = False, in_degraded_reasons = [] \<rparr>"

definition with_degraded :: "IntegrityReason list \<Rightarrow> bool \<Rightarrow> RecoverableIntegrity" where
  "with_degraded reasons is_orphaned =
     (let degraded = (reasons \<noteq> [] \<or> is_orphaned);
          degraded_reasons =
            (if is_orphaned \<and> OrphanedNode \<notin> set reasons then reasons @ [OrphanedNode] else reasons)
      in \<lparr> in_is_orphaned = is_orphaned, in_degraded = (degraded \<or> degraded_reasons \<noteq> []),
           in_degraded_reasons = degraded_reasons \<rparr>)"

datatype MessageClassification =
    Skip IntegrityReason str
  | Recoverable RecoverableIntegrity

definition classify_body_flags :: "ScanMode \<Rightarrow> bool \<Rightarrow> bool \<Rightarrow> MessageClassification" where
  "classify_body_flags mode body_incomplete body_unavailable =
     (if body_incomplete then
        (case mode of
           BestEffort \<Rightarrow> Recoverable (with_degraded [BodyTruncated] False)
         | Strict \<Rightarrow> Skip BodyTruncated (lit ''body truncated due to corruption''))
      else if body_unavailable then
        (case mode of
           BestEffort \<Rightarrow> Recoverable (with_degraded [BodyUnavailable] False)
         | Strict \<Rightarrow> Skip BodyUnavailable (lit ''body property unreadable''))
      else Recoverable clean)"

definition classify_attach_meta_fail :: "ScanMode \<Rightarrow> str \<Rightarrow> MessageClassification" where
  "classify_attach_meta_fail mode detail =
     (case mode of
        BestEffort \<Rightarrow> Recoverable (with_degraded [AttachMetaFailed] False)
      | Strict \<Rightarrow> Skip AttachMetaFailed detail)"

definition classify_attach_enum_for_identity :: "bool \<Rightarrow> ScanMode \<Rightarrow> str \<Rightarrow> MessageClassification" where
  "classify_attach_enum_for_identity need_attach_content mode detail =
     (if need_attach_content
      then Skip AttachMetaFailed
             (lit ''body-recip-attach requires attachment enumeration: '' @ detail)
      else classify_attach_meta_fail mode detail)"

definition classify_orphaned :: "ScanMode \<Rightarrow> MessageClassification" where
  "classify_orphaned mode =
     (case mode of
        BestEffort \<Rightarrow> Recoverable (with_degraded [OrphanedNode] True)
      | Strict \<Rightarrow> Skip OrphanedNode (lit ''message hierarchy path unresolved''))"

fun merge_recoverable_loop ::
  "MessageClassification list \<Rightarrow> IntegrityReason list \<Rightarrow> bool \<Rightarrow> MessageClassification" where
  "merge_recoverable_loop [] reasons is_orphaned = Recoverable (with_degraded reasons is_orphaned)"
| "merge_recoverable_loop (Skip reason detail # parts) reasons is_orphaned = Skip reason detail"
| "merge_recoverable_loop (Recoverable integrity # parts) reasons is_orphaned =
     merge_recoverable_loop parts
       (fold set_insert (in_degraded_reasons integrity) reasons)
       (is_orphaned \<or> in_is_orphaned integrity)"

definition merge_recoverable :: "MessageClassification list \<Rightarrow> MessageClassification" where
  "merge_recoverable parts = merge_recoverable_loop parts [] False"

subsection \<open>Double-precision rates\<close>

text \<open>
  A 64-bit float in the range the rates need (zero, or between \<open>2\<^sup>-\<^sup>6\<^sup>4\<close> and \<open>2\<^sup>6\<^sup>4\<close>, where no
  subnormal or infinite value occurs) is the rational it denotes. \<open>f64_round\<close> is IEEE rounding
  to nearest, ties to even, with a 53-bit significand; integer conversion and division round
  once each.
\<close>

type_synonym f64 = rat

definition round_half_even :: "rat \<Rightarrow> int" where
  "round_half_even y =
     (let d = y - of_int \<lfloor>y\<rfloor> in
      if d < 1 / 2 then \<lfloor>y\<rfloor>
      else if d > 1 / 2 then \<lfloor>y\<rfloor> + 1
      else if even \<lfloor>y\<rfloor> then \<lfloor>y\<rfloor> else \<lfloor>y\<rfloor> + 1)"

definition f64_round :: "rat \<Rightarrow> f64" where
  "f64_round x =
     (if x \<le> 0 then 0
      else let n = nat \<lfloor>x * 2 ^ 116\<rfloor>;
               q = 2 ^ (floorlog 2 n - 53) / 2 ^ 116
           in of_int (round_half_even (x / q)) * q)"



subsection \<open>Preflight\<close>

record IntegrityThresholds =
  th_max_skip_rate :: f64
  th_max_crc_skip_rate :: f64
  th_max_failed_file_rate :: f64
  th_max_attach_fail_rate :: f64

definition default_max_attach_fail_rate :: f64 where
  "default_max_attach_fail_rate = f64_round (1 / 20)"

definition default_thresholds :: IntegrityThresholds where
  "default_thresholds =
     \<lparr> th_max_skip_rate = f64_round (1 / 20), th_max_crc_skip_rate = f64_round (1 / 100),
       th_max_failed_file_rate = 0, th_max_attach_fail_rate = default_max_attach_fail_rate \<rparr>"




datatype PreflightRecommendation = PfOk | ReExportRecommended | NotExportReady

fun recommendation_as_str :: "PreflightRecommendation \<Rightarrow> str" where
  "recommendation_as_str PfOk = lit ''ok''"
| "recommendation_as_str ReExportRecommended = lit ''re_export_recommended''"
| "recommendation_as_str NotExportReady = lit ''not_export_ready''"

fun recommendation_rank :: "PreflightRecommendation \<Rightarrow> nat" where
  "recommendation_rank PfOk = 0"
| "recommendation_rank ReExportRecommended = 1"
| "recommendation_rank NotExportReady = 2"

definition recommendation_max ::
  "PreflightRecommendation \<Rightarrow> PreflightRecommendation \<Rightarrow> PreflightRecommendation" where
  "recommendation_max a b = (if recommendation_rank a \<ge> recommendation_rank b then a else b)"

interpretation recommendation_join: semilattice_neutr recommendation_max PfOk
proof
  fix a b c
  show "recommendation_max (recommendation_max a b) c = recommendation_max a (recommendation_max b c)"
    by (cases a; cases b; cases c) (simp_all add: recommendation_max_def)
  show "recommendation_max a b = recommendation_max b a"
    by (cases a; cases b) (simp_all add: recommendation_max_def)
qed (simp_all add: recommendation_max_def)


record PreflightInputs =
  pi_mode :: ScanMode
  pi_recoverable :: u64
  pi_skipped :: u64
  pi_crc_skips :: u64
  pi_failed_files :: u64
  pi_input_file_count :: u64
  pi_thresholds :: IntegrityThresholds
  pi_attach_probe_enabled :: bool
  pi_attach_probe_level :: str
  pi_attach_attempted :: u64
  pi_attach_failed :: u64
  pi_attach_probe_truncated :: bool
  pi_peer_probe_capped_groups :: u64
  pi_attach_probe_cancelled :: bool
  pi_attach_probe_bytes :: u64
  pi_attach_digest_stream_skips :: u64
  pi_attach_budget_exhausted_reason :: "str option"
  pi_attach_candidate_attaches_total :: "u64 option"
  pi_attach_unprobed_candidate_attaches :: "u64 option"

definition without_attach_probe ::
  "ScanMode \<Rightarrow> u64 \<Rightarrow> u64 \<Rightarrow> u64 \<Rightarrow> u64 \<Rightarrow> u64 \<Rightarrow> IntegrityThresholds \<Rightarrow> PreflightInputs" where
  "without_attach_probe mode recoverable skipped crc_skips failed_files input_file_count thresholds =
     \<lparr> pi_mode = mode, pi_recoverable = recoverable, pi_skipped = skipped,
       pi_crc_skips = crc_skips, pi_failed_files = failed_files,
       pi_input_file_count = input_file_count, pi_thresholds = thresholds,
       pi_attach_probe_enabled = False, pi_attach_probe_level = lit ''off'',
       pi_attach_attempted = 0, pi_attach_failed = 0, pi_attach_probe_truncated = False,
       pi_peer_probe_capped_groups = 0, pi_attach_probe_cancelled = False,
       pi_attach_probe_bytes = 0, pi_attach_digest_stream_skips = 0,
       pi_attach_budget_exhausted_reason = None, pi_attach_candidate_attaches_total = None,
       pi_attach_unprobed_candidate_attaches = None \<rparr>"






definition tally_reason :: "(str \<rightharpoonup> u64) \<Rightarrow> IntegrityReason \<Rightarrow> (str \<rightharpoonup> u64)" where
  "tally_reason m reason =
     m(reason_as_str reason \<mapsto>
         (case m (reason_as_str reason) of None \<Rightarrow> 0 | Some n \<Rightarrow> n) + 1)"

subsection \<open>Lemmas\<close>

lemma f64_round_zero [simp]: "f64_round 0 = 0"
  by (simp add: f64_round_def)

lemma set_fold_set_insert [simp]: "set (fold set_insert xs ys) = set ys \<union> set xs"
  by (induction xs arbitrary: ys) auto

lemma distinct_fold_set_insert [simp]: "distinct (fold set_insert xs ys) = distinct ys"
  by (induction xs arbitrary: ys) auto

lemma merge_loop_recoverable:
  assumes "merge_recoverable_loop parts reasons orphan = Recoverable i"
  shows "\<forall>p\<in>set parts. \<exists>j. p = Recoverable j"
    and "set (in_degraded_reasons i) =
      set reasons \<union> (\<Union>j\<in>{j. Recoverable j \<in> set parts}. set (in_degraded_reasons j)) \<union>
      (if in_is_orphaned i then {OrphanedNode} else {})"
    and "in_is_orphaned i \<longleftrightarrow> orphan \<or> (\<exists>j. Recoverable j \<in> set parts \<and> in_is_orphaned j)"
    and "in_degraded i \<longleftrightarrow> in_degraded_reasons i \<noteq> []"
  using assms
  by (induction parts reasons orphan rule: merge_recoverable_loop.induct)
    (auto simp: with_degraded_def Let_def split: if_splits)

text \<open>
  C35: merging the verdicts on body, attachments and hierarchy loses nothing. The merged verdict
  is a recoverable message exactly when every part is one, and then its reasons are those of the
  parts (with the orphan reason when a part is orphaned), it is orphaned when a part is, and it
  counts as degraded exactly when it has a reason.
\<close>

theorem merge_recoverable_union:
  "(case merge_recoverable parts of
      Skip r d \<Rightarrow> Skip r d \<in> set parts
    | Recoverable i \<Rightarrow>
        (\<forall>p\<in>set parts. \<exists>j. p = Recoverable j) \<and>
        set (in_degraded_reasons i) =
          (\<Union>j\<in>{j. Recoverable j \<in> set parts}. set (in_degraded_reasons j)) \<union>
          (if in_is_orphaned i then {OrphanedNode} else {}) \<and>
        (in_is_orphaned i \<longleftrightarrow> (\<exists>j. Recoverable j \<in> set parts \<and> in_is_orphaned j)) \<and>
        (in_degraded i \<longleftrightarrow> in_degraded_reasons i \<noteq> []))"
proof (cases "merge_recoverable parts")
  case (Skip r d)
  have "merge_recoverable_loop ps rs oo = Skip r d \<Longrightarrow> Skip r d \<in> set ps" for ps rs oo
    by (induction ps rs oo rule: merge_recoverable_loop.induct) auto
  with Skip show ?thesis by (simp add: merge_recoverable_def)
next
  case (Recoverable i)
  note merge_loop_recoverable [OF Recoverable [unfolded merge_recoverable_def]]
  with Recoverable show ?thesis by simp
qed

theorem merge_recoverable_union_witness:
  "\<exists>i. merge_recoverable [classify_orphaned BestEffort, classify_body_flags BestEffort True False] = Recoverable i \<and>
     set (in_degraded_reasons i) = {OrphanedNode, BodyTruncated}"
proof -
  let ?parts = "[classify_orphaned BestEffort, classify_body_flags BestEffort True False]"
  obtain i where i: "merge_recoverable ?parts = Recoverable i" "in_is_orphaned i"
    by (simp add: merge_recoverable_def classify_orphaned_def classify_body_flags_def with_degraded_def)
  with merge_recoverable_union [of ?parts] have
    "set (in_degraded_reasons i) = (\<Union>j\<in>{j. Recoverable j \<in> set ?parts}. set (in_degraded_reasons j)) \<union> {OrphanedNode}"
    by simp
  moreover have "{j. Recoverable j \<in> set ?parts} =
      {with_degraded [OrphanedNode] True, with_degraded [BodyTruncated] False}"
    by (auto simp: classify_orphaned_def classify_body_flags_def)
  ultimately show ?thesis using i(1) by (auto simp: with_degraded_def)
qed









end
