(* ===== verification/Keep_Items.thy ===== *)
theory Keep_Items
  imports Hasher Integrity
begin

text \<open>
  The candidates that a scan collects for keep-set resolution (the core types of
  \<^verbatim>\<open>dedup-engine/src/keepset.rs\<close>): the locus of a message, the recoverable item with its
  identity fields, its path key and its Tier-2 eligibility. Whether the program was built for
  Windows is the argument \<open>windows\<close>; MD5 comes from a third-party crate and is the argument
  \<open>md5\<close>.
\<close>

record MessageLocus =
  lo_source_path :: str
  lo_source_pst :: str
  lo_folder_path :: str
  lo_nid :: u64
  lo_is_orphaned :: bool

record RecoverableScanItem =
  sc_locus :: MessageLocus
  sc_message_id_norm :: "str option"
  sc_content_hash :: bytes
  sc_size :: u32
  sc_integrity :: RecoverableIntegrity
  sc_scan_order :: u64
  sc_submit_time :: "i64 option"
  sc_delivery_time :: "i64 option"
  sc_has_bcc :: bool
  sc_has_body_preview :: bool
  sc_subject_nonempty :: bool
  sc_sender_nonempty :: bool
  sc_attach_count :: u32
  sc_body_sha256 :: "bytes option"
  sc_body_char_len :: "u64 option"
  sc_display_to :: "str option"
  sc_display_cc :: "str option"
  sc_display_bcc :: "str option"
  sc_strong_content_hash :: "bytes option"
  sc_fp_header :: u64
  sc_fp_body :: u64
  sc_fp_recipients :: u64
  sc_fp_attachments :: u64
  sc_preview_bytes_over_budget :: bool

subsection \<open>Hexadecimal text\<close>

definition hex_digit :: "nat \<Rightarrow> uchar" where
  "hex_digit n = (if n < 10 then 48 + n else 87 + n)"

definition hex_encode :: "bytes \<Rightarrow> str" where
  "hex_encode bs = concat (map (\<lambda>b. [hex_digit (unat b div 16), hex_digit (unat b mod 16)]) bs)"

text \<open>
  The serde form of a digest. Reading slices the text two bytes at a time: a slice that is not on
  character boundaries panics, and each piece goes through \<^verbatim>\<open>u8::from_str_radix\<close>, which allows a
  leading plus sign.
\<close>

datatype HashText = HashOk bytes | HashErr str | HashPanic

definition hash_serialize :: "bytes \<Rightarrow> str" where
  "hash_serialize h = hex_encode h"

definition hex_value :: "uchar \<Rightarrow> nat option" where
  "hex_value c =
     (if 48 \<le> c \<and> c \<le> 57 then Some (c - 48)
      else if 97 \<le> c \<and> c \<le> 102 then Some (c - 87)
      else if 65 \<le> c \<and> c \<le> 70 then Some (c - 55)
      else None)"

definition from_str_radix16 :: "uchar \<Rightarrow> uchar \<Rightarrow> byte option" where
  "from_str_radix16 c d =
     (if c = 43 then map_option word_of_nat (hex_value d)
      else (case (hex_value c, hex_value d) of
              (Some h, Some l) \<Rightarrow> Some (word_of_nat (16 * h + l))
            | _ \<Rightarrow> None))"

fun hash_bytes :: "nat \<Rightarrow> str \<Rightarrow> HashText" where
  "hash_bytes 0 s = HashOk []"
| "hash_bytes (Suc n) (c # d # s) =
     (if c < 128 \<and> d < 128 then
        (case from_str_radix16 c d of
           None \<Rightarrow> HashErr (lit ''invalid digit found in string'')
         | Some b \<Rightarrow>
             (case hash_bytes n s of HashOk bs \<Rightarrow> HashOk (b # bs) | e \<Rightarrow> e))
      else if c \<ge> 128 \<and> length (utf8_char c) = 2
      then HashErr (lit ''invalid digit found in string'')
      else HashPanic)"
| "hash_bytes (Suc n) [c] =
     (if c \<ge> 128 \<and> length (utf8_char c) = 2
      then HashErr (lit ''invalid digit found in string'') else HashPanic)"
| "hash_bytes (Suc n) [] = HashPanic"

definition hash_deserialize :: "str \<Rightarrow> HashText" where
  "hash_deserialize s =
     (if str_len s \<noteq> 64 then HashErr (lit ''content_hash hex must be 64 chars'')
      else hash_bytes 32 s)"

subsection \<open>Keys\<close>

definition path_compare_key :: "bool \<Rightarrow> str \<Rightarrow> str" where
  "path_compare_key windows path = (if windows then to_lowercase path else path)"

definition sort_input_paths :: "bool \<Rightarrow> str list \<Rightarrow> str list" where
  "sort_input_paths windows paths = sort_key (path_compare_key windows) paths"

definition path_key :: "bool \<Rightarrow> RecoverableScanItem \<Rightarrow> str" where
  "path_key windows item = path_compare_key windows (lo_source_path (sc_locus item))"

definition content_hash_hex :: "RecoverableScanItem \<Rightarrow> str" where
  "content_hash_hex item = hex_encode (sc_content_hash item)"

definition edrm_mih_hex :: "(bytes \<Rightarrow> bytes) \<Rightarrow> str \<Rightarrow> str" where
  "edrm_mih_hex md5 message_id_norm = hex_encode (md5 (utf8 message_id_norm))"

definition item_edrm_mih_hex :: "(bytes \<Rightarrow> bytes) \<Rightarrow> RecoverableScanItem \<Rightarrow> str option" where
  "item_edrm_mih_hex md5 item =
     (case sc_message_id_norm item of
        None \<Rightarrow> None
      | Some m \<Rightarrow> if m = [] then None else Some (edrm_mih_hex md5 m))"

subsection \<open>Tier-2 eligibility of an item\<close>

definition body_unreadable :: "RecoverableScanItem \<Rightarrow> bool" where
  "body_unreadable item \<longleftrightarrow>
     list_ex (\<lambda>r. r = BodyTruncated \<or> r = BodyUnavailable) (in_degraded_reasons (sc_integrity item))"

definition assess_tier2_eligibility :: "RecoverableScanItem \<Rightarrow> Tier2IneligibleReason + unit" where
  "assess_tier2_eligibility item =
     (let reasons = in_degraded_reasons (sc_integrity item) in
      if CrcSuspect \<in> set reasons then Inl ReasonCrcSuspect
      else tier2_eligibility (BodyTruncated \<in> set reasons) (BodyUnavailable \<in> set reasons)
             (sc_has_body_preview item) (sc_subject_nonempty item)
             (sc_submit_time item \<noteq> None) (sc_sender_nonempty item) (sc_attach_count item))"

definition sc_bind_hash :: "RecoverableScanItem \<Rightarrow> IdentityLevel \<Rightarrow> bytes" where
  "sc_bind_hash item identity =
     (if is_strong identity
      then (case sc_strong_content_hash item of None \<Rightarrow> sc_content_hash item | Some h \<Rightarrow> h)
      else sc_content_hash item)"

abbreviation sc_mid :: "RecoverableScanItem \<Rightarrow> str option" where
  "sc_mid item \<equiv> mid_present (sc_message_id_norm item)"

definition recipient_strings_have_x500 :: "RecoverableScanItem \<Rightarrow> bool" where
  "recipient_strings_have_x500 item \<longleftrightarrow>
     (case sc_display_to item of None \<Rightarrow> False | Some s \<Rightarrow> recipient_has_x500 s) \<or>
     (case sc_display_cc item of None \<Rightarrow> False | Some s \<Rightarrow> recipient_has_x500 s) \<or>
     (case sc_display_bcc item of None \<Rightarrow> False | Some s \<Rightarrow> recipient_has_x500 s)"

definition recip_display_eq :: "str option \<Rightarrow> str option \<Rightarrow> bool" where
  "recip_display_eq a b =
     (case (a, b) of
        (None, None) \<Rightarrow> True
      | (Some x, Some y) \<Rightarrow> normalize_recipients x = normalize_recipients y
      | _ \<Rightarrow> False)"

text \<open>
  Which candidates may form a content identity. An item is Tier-2 eligible exactly when no
  integrity reason makes its bytes doubtful (CRC suspicion, truncated or unavailable body) and it
  has either a readable body or at least two of subject, submit time, sender and attachments.
\<close>

theorem tier2_eligible_iff:
  "assess_tier2_eligibility item = Inr () \<longleftrightarrow>
     CrcSuspect \<notin> set (in_degraded_reasons (sc_integrity item)) \<and> \<not> body_unreadable item \<and>
     (sc_has_body_preview item \<or>
      2 \<le> count_weak_fields (sc_subject_nonempty item) (sc_submit_time item \<noteq> None)
            (sc_sender_nonempty item) (sc_attach_count item))"
proof -
  have "body_unreadable item \<longleftrightarrow> BodyTruncated \<in> set (in_degraded_reasons (sc_integrity item)) \<or>
      BodyUnavailable \<in> set (in_degraded_reasons (sc_integrity item))"
    by (auto simp: body_unreadable_def list_ex_iff)
  then show ?thesis
    by (auto simp: assess_tier2_eligibility_def tier2_eligibility_def count_weak_fields_def Let_def)
qed

lemma hex_digit_value:
  "n < 16 \<Longrightarrow> hex_value (hex_digit n) = Some n" "n < 16 \<Longrightarrow> hex_digit n \<noteq> 43" "n < 16 \<Longrightarrow> hex_digit n < 128"
  by (auto simp: hex_value_def hex_digit_def)

lemma length_hex_encode [simp]: "length (hex_encode bs) = 2 * length bs"
  by (induction bs) (simp_all add: hex_encode_def)

lemma ascii_hex_encode: "ascii_str (hex_encode bs)"
proof (induction bs)
  case (Cons b bs)
  have "unat b < 256" using unsigned_less [of b] by simp
  then have "unat b div 16 < 16" "unat b mod 16 < 16" by simp_all
  with Cons show ?case by (simp add: hex_encode_def hex_digit_value)
qed (simp add: hex_encode_def)

lemma str_len_ascii: "ascii_str s \<Longrightarrow> str_len s = length s"
  by (induction s) (simp_all add: str_len_def)

lemma hash_bytes_hex_encode: "hash_bytes (length bs) (hex_encode bs @ r) = HashOk bs"
proof (induction bs)
  case (Cons b bs)
  have lt: "unat b < 256" using unsigned_less [of b] by simp
  let ?h = "unat b div 16" and ?l = "unat b mod 16"
  from lt have d: "?h < 16" "?l < 16" by simp_all
  have "16 * ?h + ?l = unat b" by simp
  then have "word_of_nat (16 * ?h + ?l) = b" by (simp only: of_nat_unat ucast_id)
  then show ?case using Cons d
    by (simp add: hex_encode_def hex_digit_value from_str_radix16_def)
qed (simp add: hex_encode_def)

text \<open>
  The text form of a digest in keep-set files. Reading back a written 32-byte digest gives
  the digest, so the hex text identifies it, and a text of any other byte length is rejected.
\<close>

theorem content_hash_text_roundtrip:
  "(length h = 32 \<longrightarrow> hash_deserialize (hash_serialize h) = HashOk h) \<and>
   (str_len s \<noteq> 64 \<longrightarrow> hash_deserialize s = HashErr (lit ''content_hash hex must be 64 chars''))"
proof -
  have "hash_deserialize (hash_serialize h) = HashOk h" if "length h = 32"
    using hash_bytes_hex_encode [of h "[]"] that
    by (simp add: hash_deserialize_def hash_serialize_def str_len_ascii ascii_hex_encode)
  then show ?thesis by (simp add: hash_deserialize_def)
qed

theorem content_hash_text_roundtrip_witness:
  "hash_deserialize (hash_serialize (replicate 32 7)) = HashOk (replicate 32 7) \<and>
   hash_deserialize (lit ''ab'') = HashErr (lit ''content_hash hex must be 64 chars'')"
  using content_hash_text_roundtrip [of "replicate 32 7" "lit ''ab''"]
  by (simp add: str_len_def utf8_char_def)

text \<open>
  The reader of digest texts panics on some inputs instead of reporting an error: a text of
  64 bytes whose second byte lies inside a multi-byte character is sliced inside that character.
\<close>

theorem content_hash_text_panics:
  "hash_deserialize (lit ''a'' @ [233] @ replicate 61 97) = HashPanic"
proof -
  have "str_len (replicate 61 97) = 61" by (simp add: str_len_ascii ascii_str_def)
  then have "str_len (lit ''a'' @ [233] @ replicate 61 97) = 64"
    by (simp add: str_len_def utf8_char_def)
  moreover have "hash_bytes (Suc 31) (97 # 233 # replicate 61 97) = HashPanic"
    by (simp only: hash_bytes.simps) simp
  then have "hash_bytes 32 (97 # 233 # replicate 61 97) = HashPanic" by simp
  ultimately show ?thesis by (simp add: hash_deserialize_def)
qed

text \<open>A clean candidate with a given Message-ID, integrity reasons and node id, for evaluations.\<close>

definition sample_candidate :: "str option \<Rightarrow> IntegrityReason list \<Rightarrow> u64 \<Rightarrow> RecoverableScanItem" where
  "sample_candidate mid reasons nid =
     \<lparr> sc_locus = \<lparr> lo_source_path = lit ''/p'', lo_source_pst = lit ''p'', lo_folder_path = lit ''Inbox'',
                    lo_nid = nid, lo_is_orphaned = False \<rparr>,
       sc_message_id_norm = mid, sc_content_hash = replicate 32 1, sc_size = 1,
       sc_integrity = with_degraded reasons False, sc_scan_order = nid, sc_submit_time = None,
       sc_delivery_time = None, sc_has_bcc = False, sc_has_body_preview = True,
       sc_subject_nonempty = True, sc_sender_nonempty = True, sc_attach_count = 0,
       sc_body_sha256 = None, sc_body_char_len = None, sc_display_to = None, sc_display_cc = None,
       sc_display_bcc = None, sc_strong_content_hash = None, sc_fp_header = 0, sc_fp_body = 0,
       sc_fp_recipients = 0, sc_fp_attachments = 0, sc_preview_bytes_over_budget = False \<rparr>"

end
