(* ===== verification/Union_Find.thy ===== *)
theory Union_Find
  imports Prelude
begin

text \<open>
  The union-find structure inside \<^verbatim>\<open>apply_tier1_backfill_pass\<close> of
  \<^verbatim>\<open>dedup-engine/src/keepset.rs\<close>: a parent array with path halving and an 8-bit rank array.
  The loop of \<^verbatim>\<open>find\<close> gets as fuel the number of elements, which is enough in every forest
  (\<open>uf_find_root\<close>). The locale states what the backfill pass relies on.
\<close>

subsection \<open>Operations\<close>

type_synonym uf = "nat list \<times> nat list"

fun uf_find_loop :: "nat \<Rightarrow> nat list \<Rightarrow> nat \<Rightarrow> nat list \<times> nat" where
  "uf_find_loop 0 parent x = (parent, x)"
| "uf_find_loop (Suc fuel) parent x =
     (if parent ! x \<noteq> x
      then (let parent' = parent[x := parent ! (parent ! x)]
            in uf_find_loop fuel parent' (parent' ! x))
      else (parent, x))"

definition uf_find :: "nat list \<Rightarrow> nat \<Rightarrow> nat list \<times> nat" where
  "uf_find parent x = uf_find_loop (length parent) parent x"

definition unite :: "uf \<Rightarrow> nat \<Rightarrow> nat \<Rightarrow> uf \<times> bool" where
  "unite uf a b =
     (let (parent, rank) = uf;
          (p1, ra0) = uf_find parent a;
          (p2, rb0) = uf_find p1 b
      in if ra0 = rb0 then ((p2, rank), False)
         else
           (let (ra, rb) = (if rank ! ra0 < rank ! rb0 then (rb0, ra0) else (ra0, rb0));
                p3 = p2[rb := ra];
                rank' = (if rank ! ra = rank ! rb then rank[ra := min 255 (rank ! ra + 1)] else rank)
            in ((p3, rank'), True)))"

definition uf_init :: "nat \<Rightarrow> uf" where
  "uf_init n = ([0..<n], replicate n 0)"

text \<open>
  Merging along a list of edges, counting the edges that joined two parts, and the connectedness
  it is meant to compute.
\<close>

fun merge_all :: "('s \<Rightarrow> nat \<Rightarrow> nat \<Rightarrow> 's \<times> bool) \<Rightarrow> 's \<Rightarrow> (nat \<times> nat) list \<Rightarrow> 's \<times> nat" where
  "merge_all mrg s [] = (s, 0)"
| "merge_all mrg s ((a, b) # es) =
     (let (s1, flag) = mrg s a b; (s2, k) = merge_all mrg s1 es
      in (s2, k + (if flag then 1 else 0)))"

definition linked :: "(nat \<Rightarrow> nat \<Rightarrow> bool) \<Rightarrow> (nat \<times> nat) set \<Rightarrow> (nat \<times> nat) set" where
  "linked sm es = ({(x, y). sm x y} \<union> es \<union> es\<inverse>)\<^sup>*"

subsection \<open>The interface the merging pass uses\<close>

locale merging =
  fixes inv :: "'s \<Rightarrow> bool" and same :: "'s \<Rightarrow> nat \<Rightarrow> nat \<Rightarrow> bool"
    and merge :: "'s \<Rightarrow> nat \<Rightarrow> nat \<Rightarrow> 's \<times> bool" and parts :: "'s \<Rightarrow> nat" and n :: nat
  assumes same_refl: "inv s \<Longrightarrow> x < n \<Longrightarrow> same s x x"
    and same_sym: "inv s \<Longrightarrow> same s x y \<Longrightarrow> same s y x"
    and same_trans: "inv s \<Longrightarrow> same s x y \<Longrightarrow> same s y z \<Longrightarrow> same s x z"
    and same_bound: "inv s \<Longrightarrow> same s x y \<Longrightarrow> x < n \<and> y < n"
    and merge_inv: "inv s \<Longrightarrow> a < n \<Longrightarrow> b < n \<Longrightarrow> inv (fst (merge s a b))"
    and merge_same: "inv s \<Longrightarrow> a < n \<Longrightarrow> b < n \<Longrightarrow> same (fst (merge s a b)) x y \<longleftrightarrow>
      same s x y \<or> same s x a \<and> same s b y \<or> same s x b \<and> same s a y"
    and merge_flag: "inv s \<Longrightarrow> a < n \<Longrightarrow> b < n \<Longrightarrow> snd (merge s a b) \<longleftrightarrow> \<not> same s a b"
    and merge_parts: "inv s \<Longrightarrow> a < n \<Longrightarrow> b < n \<Longrightarrow>
      parts (fst (merge s a b)) + (if snd (merge s a b) then 1 else 0) = parts s"
begin

lemma merge_all_inv:
  "inv s \<Longrightarrow> \<forall>(a, b)\<in>set es. a < n \<and> b < n \<Longrightarrow> inv (fst (merge_all merge s es))"
proof (induction es arbitrary: s)
  case (Cons e es)
  obtain a b where e: "e = (a, b)" by fastforce
  obtain s1 fl where m: "merge s a b = (s1, fl)" by fastforce
  with Cons e merge_inv [of s a b] show ?case by (simp add: split_beta)
qed simp

lemma merge_all_parts:
  "inv s \<Longrightarrow> \<forall>(a, b)\<in>set es. a < n \<and> b < n \<Longrightarrow>
   parts (fst (merge_all merge s es)) + snd (merge_all merge s es) = parts s"
proof (induction es arbitrary: s)
  case (Cons e es)
  obtain a b where e: "e = (a, b)" by fastforce
  obtain s1 fl where m: "merge s a b = (s1, fl)" by fastforce
  obtain s2 k where r: "merge_all merge s1 es = (s2, k)" by fastforce
  from Cons.prems e m merge_inv [of s a b] have "inv s1" by simp
  with Cons.IH [of s1] Cons.prems(2) have "parts s2 + k = parts s1" by (simp add: r)
  moreover from Cons e m merge_parts [of s a b] have "parts s1 + (if fl then 1 else 0) = parts s" by simp
  ultimately show ?case by (simp add: e m r)
qed simp

text \<open>
  After merging a list of edges, two elements are together exactly when they are connected by
  what was together before and the edges, in either direction.
\<close>

lemma linked_merge:
  assumes "inv s" "a < n" "b < n"
  shows "linked (same (fst (merge s a b))) es = linked (same s) (insert (a, b) es)"
proof (rule equalityI)
  let ?s' = "fst (merge s a b)"
  have ab: "(a, b) \<in> linked (same s) (insert (a, b) es)" "(b, a) \<in> linked (same s) (insert (a, b) es)"
    unfolding linked_def by auto
  have base: "same s x y \<Longrightarrow> (x, y) \<in> linked (same s) (insert (a, b) es)" for x y
    unfolding linked_def by auto
  have trans: "(x, y) \<in> linked (same s) E \<Longrightarrow> (y, z) \<in> linked (same s) E \<Longrightarrow> (x, z) \<in> linked (same s) E" for x y z E
    unfolding linked_def by (rule rtrancl_trans)
  have "(x, y) \<in> linked (same s) (insert (a, b) es)" if "same ?s' x y" for x y
    using that merge_same [OF assms] base ab trans by metis
  then have "{(x, y). same ?s' x y} \<union> es \<union> es\<inverse> \<subseteq> linked (same s) (insert (a, b) es)"
    unfolding linked_def by auto
  then show "linked (same ?s') es \<subseteq> linked (same s) (insert (a, b) es)"
    unfolding linked_def [of "same ?s'"] using rtrancl_subset_rtrancl linked_def by metis
  have "same ?s' a b" "same ?s' b a"
    using merge_same [OF assms] same_refl assms by blast+
  then have "{(x, y). same s x y} \<union> insert (a, b) es \<union> (insert (a, b) es)\<inverse>
      \<subseteq> {(x, y). same ?s' x y} \<union> es \<union> es\<inverse>"
    using merge_same [OF assms] by auto
  then show "linked (same s) (insert (a, b) es) \<subseteq> linked (same ?s') es"
    unfolding linked_def by (rule rtrancl_mono)
qed

lemma linked_empty:
  assumes "inv s" "x < n"
  shows "(x, y) \<in> linked (same s) {} \<longleftrightarrow> same s x y"
proof
  assume "(x, y) \<in> linked (same s) {}"
  then have "(x, y) \<in> {(x, y). same s x y}\<^sup>*" by (simp add: linked_def)
  then show "same s x y"
    by (induction rule: rtrancl_induct) (use same_refl same_trans assms in blast)+
qed (auto simp: linked_def)

lemma merge_all_same:
  assumes "inv s" "\<forall>(a, b)\<in>set es. a < n \<and> b < n" "x < n"
  shows "same (fst (merge_all merge s es)) x y \<longleftrightarrow> (x, y) \<in> linked (same s) (set es)"
proof -
  have "linked (same (fst (merge_all merge s es))) {} = linked (same s) (set es)"
    using assms(1,2)
  proof (induction es arbitrary: s)
    case (Cons e es)
    obtain a b where e: "e = (a, b)" by fastforce
    obtain s1 fl where m: "merge s a b = (s1, fl)" by fastforce
    from Cons e m merge_inv [of s a b] have "linked (same (fst (merge_all merge s1 es))) {} = linked (same s1) (set es)" by simp
    also have "\<dots> = linked (same s) (insert (a, b) (set es))" using linked_merge [of s a b "set es"] Cons e m by simp
    finally show ?case by (simp add: e m split_beta)
  qed simp
  with linked_empty [OF merge_all_inv [OF assms(1,2)] assms(3)] show ?thesis by simp
qed

lemma merge_all_none:
  assumes "inv s" "\<forall>(a, b)\<in>set es. a < n \<and> b < n" "snd (merge_all merge s es) = 0"
  shows "same (fst (merge_all merge s es)) x y \<longleftrightarrow> same s x y"
  using assms
proof (induction es arbitrary: s)
  case (Cons e es)
  obtain a b where e: "e = (a, b)" by fastforce
  obtain s1 fl where m: "merge s a b = (s1, fl)" by fastforce
  from Cons.prems e m have "\<not> fl" "snd (merge_all merge s1 es) = 0" and ab: "a < n" "b < n"
    by (auto simp: split_beta split: if_splits)
  with Cons.prems(1) m have "same s a b" using merge_flag [of s a b] by simp
  then have "same s1 x y \<longleftrightarrow> same s x y"
    using merge_same [OF Cons.prems(1) ab, of x y] m same_sym same_trans Cons.prems(1)
    by (metis fst_conv)
  moreover have "inv s1" using merge_inv [OF Cons.prems(1) ab] m by simp
  ultimately show ?case
    using Cons.IH [of s1] Cons.prems(2) e m \<open>snd (merge_all merge s1 es) = 0\<close> by (simp add: split_beta)
qed simp

text \<open>The order of the edges does not matter.\<close>

lemma merge_all_order:
  assumes "inv s" "\<forall>(a, b)\<in>set es. a < n \<and> b < n" "set es = set fs" "x < n"
  shows "same (fst (merge_all merge s es)) x y \<longleftrightarrow> same (fst (merge_all merge s fs)) x y"
  using assms merge_all_same [of s es x y] merge_all_same [of s fs x y] by simp

end

subsection \<open>The forest\<close>

definition uf_height :: "nat list \<Rightarrow> (nat \<Rightarrow> nat) \<Rightarrow> bool" where
  "uf_height p h \<longleftrightarrow> (\<forall>x<length p. p ! x < length p \<and> (p ! x \<noteq> x \<longrightarrow> h x < h (p ! x)))"

definition uf_forest :: "nat list \<Rightarrow> bool" where
  "uf_forest p \<longleftrightarrow> (\<exists>h. uf_height p h)"

inductive uf_root :: "nat list \<Rightarrow> nat \<Rightarrow> nat \<Rightarrow> bool" for p where
  here: "x < length p \<Longrightarrow> p ! x = x \<Longrightarrow> uf_root p x x"
| up: "x < length p \<Longrightarrow> p ! x \<noteq> x \<Longrightarrow> uf_root p (p ! x) r \<Longrightarrow> uf_root p x r"

inductive_cases uf_rootE: "uf_root p x r"
inductive_simps uf_root_iff: "uf_root p x r"

lemma uf_root_bounds: "uf_root p x r \<Longrightarrow> x < length p \<and> r < length p \<and> p ! r = r"
  by (induction rule: uf_root.induct) auto

lemma uf_root_unique: "uf_root p x r \<Longrightarrow> uf_root p x s \<Longrightarrow> r = s"
proof (induction arbitrary: s rule: uf_root.induct)
  case (here x)
  from here(3,2) show ?case by (cases rule: uf_root.cases) simp_all
next
  case (up x r)
  from up.prems up.hyps(2) have "uf_root p (p ! x) s" by (cases rule: uf_root.cases) simp_all
  then show ?case by (rule up.IH)
qed

definition above :: "nat list \<Rightarrow> (nat \<Rightarrow> nat) \<Rightarrow> nat \<Rightarrow> nat" where
  "above p h x = card {y. y < length p \<and> h x < h y}"

lemma above_less:
  assumes "h x < h y" and "y < length p"
  shows "above p h y < above p h x"
  unfolding above_def using assms by (intro psubset_card_mono) auto

lemma above_bound: "x < length p \<Longrightarrow> above p h x < length p"
proof -
  assume "x < length p"
  then have "{y. y < length p \<and> h x < h y} \<subset> {..<length p}" by auto
  then have "card {y. y < length p \<and> h x < h y} < card {..<length p}"
    by (intro psubset_card_mono) auto
  then show ?thesis by (simp add: above_def)
qed

lemma uf_root_exists:
  assumes "uf_forest p" and "x < length p"
  shows "\<exists>r. uf_root p x r"
proof -
  from assms(1) obtain h where h: "uf_height p h" unfolding uf_forest_def by blast
  from assms(2) show ?thesis
  proof (induction "above p h x" arbitrary: x rule: less_induct)
    case less
    show ?case
    proof (cases "p ! x = x")
      case True
      with less.prems here show ?thesis by blast
    next
      case False
      with h less.prems have "p ! x < length p" "h x < h (p ! x)" by (auto simp: uf_height_def)
      with less.hyps above_less obtain r where "uf_root p (p ! x) r" by blast
      with less.prems False up show ?thesis by blast
    qed
  qed
qed

lemma uf_grandparent_neq:
  assumes "uf_height p h" and "x < length p" and "p ! x \<noteq> x"
  shows "p ! (p ! x) \<noteq> x"
proof
  assume eq: "p ! (p ! x) = x"
  from assms have "p ! x < length p" "h x < h (p ! x)" by (auto simp: uf_height_def)
  moreover from this assms(1,3) eq have "h (p ! x) < h x" by (auto simp: uf_height_def)
  ultimately show False by simp
qed

lemma uf_height_halve:
  assumes "uf_height p h" and "x < length p"
  shows "uf_height (p[x := p ! (p ! x)]) h"
proof -
  from assms have "p ! x < length p" "p ! (p ! x) < length p" by (auto simp: uf_height_def)
  moreover have "h x < h (p ! (p ! x))" if "p ! (p ! x) \<noteq> x"
  proof (cases "p ! x = x")
    case True
    with that show ?thesis by simp
  next
    case False
    with assms calculation show ?thesis
      by (cases "p ! (p ! x) = p ! x") (auto simp: uf_height_def intro: less_trans)
  qed
  ultimately show ?thesis using assms by (auto simp: uf_height_def nth_list_update)
qed

text \<open>Path halving keeps every root.\<close>

lemma uf_root_halve:
  assumes "uf_height p h" and "x < length p" and "uf_root p y r"
  shows "uf_root (p[x := p ! (p ! x)]) y r"
  using assms(3)
proof (induction rule: uf_root.induct)
  case (here y)
  then show ?case by (intro uf_root.here) (cases "y = x"; simp)+
next
  case (up y r)
  let ?p = "p[x := p ! (p ! x)]"
  show ?case
  proof (cases "y = x")
    case False
    then have "?p ! y = p ! y" by simp
    with up False show ?thesis by (simp add: uf_root.up)
  next
    case True
    have ne: "p ! (p ! x) \<noteq> x"
      using uf_grandparent_neq [OF assms(1,2)] up(2) True by simp
    have "?p ! (p ! x) = p ! (p ! x)" using up(2) True by simp
    from up.IH True have "uf_root ?p (p ! x) r" by simp
    then have "uf_root ?p (p ! (p ! x)) r"
    proof (cases rule: uf_root.cases)
      case here
      with \<open>?p ! (p ! x) = p ! (p ! x)\<close> \<open>uf_root ?p (p ! x) r\<close> show ?thesis by simp
    next
      case up
      with \<open>?p ! (p ! x) = p ! (p ! x)\<close> show ?thesis by simp
    qed
    with up(1) True ne show ?thesis by (simp add: uf_root.up)
  qed
qed

lemma uf_root_halve_iff:
  assumes "uf_height p h" and "x < length p"
  shows "uf_root (p[x := p ! (p ! x)]) y r \<longleftrightarrow> uf_root p y r"
proof
  assume r: "uf_root (p[x := p ! (p ! x)]) y r"
  then have "y < length p" using uf_root_bounds by fastforce
  then obtain s where s: "uf_root p y s" using uf_root_exists assms uf_forest_def by blast
  from uf_root_halve [OF assms s] r have "s = r" by (rule uf_root_unique)
  with s show "uf_root p y r" by simp
qed (rule uf_root_halve [OF assms])

lemma uf_find_loop_root:
  assumes "uf_height p h" and "x < length p" and "above p h x < fuel"
    and "uf_find_loop fuel p x = (p', r)"
  shows "uf_height p' h \<and> length p' = length p \<and> uf_root p x r \<and>
    (\<forall>y s. uf_root p' y s \<longleftrightarrow> uf_root p y s)"
  using assms
proof (induction fuel p x rule: uf_find_loop.induct)
  case (1 p x)
  then show ?case by simp
next
  case (2 fuel p x)
  show ?case
  proof (cases "p ! x = x")
    case True
    with 2 show ?thesis by (auto intro: uf_root.here)
  next
    case False
    let ?p = "p[x := p ! (p ! x)]"
    have h: "uf_height ?p h" and iff: "\<And>y s. uf_root ?p y s \<longleftrightarrow> uf_root p y s"
      using uf_height_halve uf_root_halve_iff 2(2,3) by blast+
    have x: "?p ! x < length ?p" "?p ! x \<noteq> x \<longrightarrow> h x < h (?p ! x)"
      using h 2(3) by (auto simp: uf_height_def)
    moreover have "?p ! x \<noteq> x"
      using uf_grandparent_neq [OF 2(2,3) False] 2(3) by simp
    ultimately have "above p h (?p ! x) < above p h x" by (intro above_less) auto
    then have "above ?p h (?p ! x) < fuel" using 2(4) by (simp add: above_def)
    from 2(1) [OF False refl h x(1) this] 2(5) False
    have ih: "uf_height p' h \<and> length p' = length ?p \<and> uf_root ?p (?p ! x) r \<and>
        (\<forall>y s. uf_root p' y s \<longleftrightarrow> uf_root ?p y s)"
      by (simp add: Let_def)
    then have "uf_root ?p x r"
      using 2(3) \<open>?p ! x \<noteq> x\<close> by (simp add: uf_root.up)
    with ih iff show ?thesis by simp
  qed
qed

text \<open>
  The fuel is enough: in every forest the loop of \<^verbatim>\<open>find\<close> ends at the root of its argument, and
  path halving changes no root.
\<close>

lemma uf_find_root:
  assumes "uf_forest p" and "x < length p" and "uf_find p x = (p', r)"
  shows "uf_forest p'" and "length p' = length p" and "uf_root p x r"
    and "uf_root p' y s \<longleftrightarrow> uf_root p y s"
proof -
  from assms(1) obtain h where h: "uf_height p h" unfolding uf_forest_def by blast
  from uf_find_loop_root [OF h assms(2) above_bound [OF assms(2)]] assms(3)
  show "uf_forest p'" "length p' = length p" "uf_root p x r" "uf_root p' y s \<longleftrightarrow> uf_root p y s"
    unfolding uf_find_def uf_forest_def by blast+
qed

subsection \<open>Linking\<close>

lemma uf_link_forest:
  assumes "uf_forest p" and "ra < length p" "rb < length p" and "p ! ra = ra" and "ra \<noteq> rb"
  shows "uf_forest (p[rb := ra])"
proof -
  from assms(1) obtain h where h: "uf_height p h" unfolding uf_forest_def by blast
  let ?h = "h(ra := max (h ra) (h rb + 1))"
  have "uf_height (p[rb := ra]) ?h"
    unfolding uf_height_def
  proof (intro allI impI)
    fix x assume "x < length (p[rb := ra])"
    then have x: "x < length p" by simp
    show "p[rb := ra] ! x < length (p[rb := ra]) \<and>
        (p[rb := ra] ! x \<noteq> x \<longrightarrow> ?h x < ?h (p[rb := ra] ! x))"
    proof (cases "x = rb")
      case True
      with x assms show ?thesis by simp
    next
      case False
      with x h have "p[rb := ra] ! x = p ! x" "p ! x < length p"
        "p ! x \<noteq> x \<longrightarrow> h x < h (p ! x)" by (auto simp: uf_height_def)
      with assms(4) show ?thesis by (auto simp: less_max_iff_disj)
    qed
  qed
  then show ?thesis unfolding uf_forest_def by blast
qed

lemma uf_link_root:
  assumes "uf_root p y r" and "ra < length p" and "p ! ra = ra" "p ! rb = rb" and "ra \<noteq> rb"
  shows "uf_root (p[rb := ra]) y (if r = rb then ra else r)"
  using assms(1)
proof (induction rule: uf_root.induct)
  case (here x)
  have ra: "uf_root (p[rb := ra]) ra ra" using assms by (intro uf_root.here) auto
  show ?case
  proof (cases "x = rb")
    case True
    with here ra assms show ?thesis by (simp add: uf_root.up)
  next
    case False
    with here show ?thesis by (simp add: uf_root.here)
  qed
next
  case (up x r)
  with assms(4) have "x \<noteq> rb" by auto
  with up show ?case by (simp add: uf_root.up)
qed

definition uf_inv :: "nat \<Rightarrow> uf \<Rightarrow> bool" where
  "uf_inv n uf \<longleftrightarrow> uf_forest (fst uf) \<and> length (fst uf) = n"

definition uf_same :: "uf \<Rightarrow> nat \<Rightarrow> nat \<Rightarrow> bool" where
  "uf_same uf x y \<longleftrightarrow> (\<exists>r. uf_root (fst uf) x r \<and> uf_root (fst uf) y r)"

definition uf_parts :: "uf \<Rightarrow> nat" where
  "uf_parts uf = card {x. x < length (fst uf) \<and> fst uf ! x = x}"

text \<open>What \<open>unite\<close> does, with the roles of the two roots settled.\<close>

lemma unite_cases:
  assumes "uf_inv n uf" and "a < n" and "b < n"
  obtains (same) p rk r where "unite uf a b = ((p, rk), False)" "uf_forest p" "length p = n"
      "uf_root (fst uf) a r" "uf_root (fst uf) b r" "\<And>y s. uf_root p y s \<longleftrightarrow> uf_root (fst uf) y s"
  | (linked) p rk r s t u where "unite uf a b = ((p[u := t], rk), True)" "uf_forest p" "length p = n"
      "uf_root (fst uf) a r" "uf_root (fst uf) b s" "r \<noteq> s" "(t, u) = (r, s) \<or> (t, u) = (s, r)"
      "\<And>y z. uf_root p y z \<longleftrightarrow> uf_root (fst uf) y z"
proof -
  obtain parent rank where uf: "uf = (parent, rank)" by fastforce
  obtain p1 ra where f1: "uf_find parent a = (p1, ra)" by fastforce
  obtain p2 rb where f2: "uf_find p1 b = (p2, rb)" by fastforce
  from assms uf have "uf_forest parent" "a < length parent" "length parent = n"
    by (simp_all add: uf_inv_def)
  note 1 = uf_find_root [OF this(1,2) f1] \<open>length parent = n\<close>
  from 1 assms have "b < length p1" by simp
  note 2 = uf_find_root [OF 1(1) this f2]
  show thesis
  proof (cases "ra = rb")
    case True
    with 1 2 f1 f2 uf show thesis
      by (intro same [of p2 rank ra]) (auto simp: unite_def)
  next
    case False
    let ?t = "if rank ! ra < rank ! rb then rb else ra" and ?u = "if rank ! ra < rank ! rb then ra else rb"
    obtain rk where "unite uf a b = ((p2[?u := ?t], rk), True)"
      using False f1 f2 uf by (cases "rank ! ra < rank ! rb") (simp_all add: unite_def Let_def)
    with 1 2 False uf show thesis
      by (intro linked [of p2 ?u ?t rk ra rb]) auto
  qed
qed

lemma uf_same_link:
  assumes "uf_forest p" and "uf_root p a r" "uf_root p b s" and "r \<noteq> s"
    and "(t, u) = (r, s) \<or> (t, u) = (s, r)"
  shows "uf_same (p[u := t], rk) x y \<longleftrightarrow>
    uf_same (p, k) x y \<or> uf_same (p, k) x a \<and> uf_same (p, k) b y \<or>
    uf_same (p, k) x b \<and> uf_same (p, k) a y"
proof -
  let ?q = "p[u := t]"
  have bnd: "t < length p" "u < length p" "p ! t = t" "p ! u = u" "t \<noteq> u"
    using assms(2-5) uf_root_bounds by auto
  have fwd: "uf_root p z w \<Longrightarrow> uf_root ?q z (if w = u then t else w)" for z w
    using uf_link_root bnd by blast
  have forest: "uf_forest ?q" using uf_link_forest assms(1) bnd by blast
  have root_iff: "uf_root ?q z v \<longleftrightarrow> (\<exists>w. uf_root p z w \<and> v = (if w = u then t else w))" for z v
  proof
    assume v: "uf_root ?q z v"
    then have "z < length p" using uf_root_bounds by fastforce
    then obtain w where w: "uf_root p z w" using uf_root_exists assms(1) by blast
    with fwd v uf_root_unique show "\<exists>w. uf_root p z w \<and> v = (if w = u then t else w)" by blast
  qed (use fwd in blast)
  have same_iff: "uf_same (p, k) z a \<longleftrightarrow> uf_root p z r" "uf_same (p, k) a z \<longleftrightarrow> uf_root p z r"
    "uf_same (p, k) z b \<longleftrightarrow> uf_root p z s" "uf_same (p, k) b z \<longleftrightarrow> uf_root p z s" for z
    using assms(2,3) uf_root_unique by (auto simp: uf_same_def)
  have "uf_same (?q, rk) x y \<longleftrightarrow>
      (\<exists>w w'. uf_root p x w \<and> uf_root p y w' \<and> (w = w' \<or> w = u \<and> w' = t \<or> w = t \<and> w' = u))"
    using bnd(5) by (auto simp: uf_same_def root_iff split: if_splits) metis+
  also have "\<dots> \<longleftrightarrow> uf_same (p, k) x y \<or> uf_root p x r \<and> uf_root p y s \<or> uf_root p x s \<and> uf_root p y r"
    using assms(5) by (auto simp: uf_same_def)
  finally show ?thesis by (simp add: same_iff)
qed

lemma uf_parts_link:
  assumes "u < length p" and "p ! u = u" and "t \<noteq> u"
  shows "uf_parts (p[u := t], rk) + 1 = uf_parts (p, k)"
proof -
  have "{x. x < length p \<and> p ! x = x} = insert u {x. x < length p \<and> p[u := t] ! x = x}"
    using assms by (auto simp: nth_list_update split: if_splits)
  moreover have "u \<notin> {x. x < length p \<and> p[u := t] ! x = x}" using assms by simp
  ultimately show ?thesis by (simp add: uf_parts_def)
qed

lemma uf_parts_cong:
  assumes "length p = length q" and "\<And>y s. uf_root p y s \<longleftrightarrow> uf_root q y s"
  shows "uf_parts (p, k) = uf_parts (q, l)"
proof -
  have root: "x < length p \<and> p ! x = x \<longleftrightarrow> uf_root p x x" for p x
    using uf_root.here uf_root_bounds by blast
  show ?thesis by (simp only: uf_parts_def fst_conv root assms(2))
qed

interpretation backfill: merging "uf_inv n" uf_same unite uf_parts n for n
proof
  fix s x y z a b
  show "uf_inv n s \<Longrightarrow> x < n \<Longrightarrow> uf_same s x x"
    using uf_root_exists by (auto simp: uf_inv_def uf_same_def)
  show "uf_same s x y \<Longrightarrow> uf_same s y x"
    by (auto simp: uf_same_def)
  show "uf_same s x y \<Longrightarrow> uf_same s y z \<Longrightarrow> uf_same s x z"
    using uf_root_unique unfolding uf_same_def by metis
  show "uf_inv n s \<Longrightarrow> uf_same s x y \<Longrightarrow> x < n \<and> y < n"
    using uf_root_bounds by (auto simp: uf_inv_def uf_same_def)
  assume s: "uf_inv n s" "a < n" "b < n"
  obtain p0 k0 where s0: "s = (p0, k0)" by fastforce
  show "uf_inv n (fst (unite s a b))"
    using s by (cases rule: unite_cases)
      (use uf_root_bounds in \<open>auto simp: uf_inv_def intro!: uf_link_forest\<close>)
  show "uf_same (fst (unite s a b)) x y \<longleftrightarrow>
      uf_same s x y \<or> uf_same s x a \<and> uf_same s b y \<or> uf_same s x b \<and> uf_same s a y"
    using s
  proof (cases rule: unite_cases)
    case (same p rk r)
    have "uf_same (fst (unite s a b)) x y \<longleftrightarrow> uf_same s x y" using same by (simp add: uf_same_def)
    moreover have "ra = r" if "uf_root (fst s) a ra \<or> uf_root (fst s) b ra" for ra
      using that same(4,5) uf_root_unique by blast
    ultimately show ?thesis unfolding uf_same_def by blast
  next
    case (linked p rk r s' t u)
    then have "uf_root p a r" "uf_root p b s'" by simp_all
    from uf_same_link [OF linked(2) this linked(6,7), of rk x y k0] linked(1,8) s0
    show ?thesis by (simp add: uf_same_def)
  qed
  show "snd (unite s a b) \<longleftrightarrow> \<not> uf_same s a b"
    using s
  proof (cases rule: unite_cases)
    case (linked p rk r s' t u)
    then have "\<not> uf_same s a b" using uf_root_unique unfolding uf_same_def by metis
    with linked(1) show ?thesis by simp
  qed (auto simp: uf_same_def)
  show "uf_parts (fst (unite s a b)) + (if snd (unite s a b) then 1 else 0) = uf_parts s"
    using s
  proof (cases rule: unite_cases)
    case (same p rk r)
    with s s0 show ?thesis using uf_parts_cong [of p p0] by (simp add: uf_inv_def)
  next
    case (linked p rk r s' t u)
    have "uf_root p u u" and "t \<noteq> u"
      using linked(4-8) uf_root_bounds uf_root.here by auto
    then have "uf_parts (p[u := t], rk) + 1 = uf_parts (p, k0)"
      using uf_root_bounds by (intro uf_parts_link) auto
    also have "\<dots> = uf_parts (p0, k0)"
      using linked(3,8) s s0 by (intro uf_parts_cong) (auto simp: uf_inv_def)
    finally show ?thesis using linked(1) s0 by simp
  qed
qed

lemma uf_init_inv: "uf_inv n (uf_init n)"
  by (auto simp: uf_inv_def uf_init_def uf_forest_def uf_height_def)

lemma uf_init_same: "uf_same (uf_init n) x y \<longleftrightarrow> x = y \<and> x < n"
proof -
  have "uf_root [0..<n] z r \<longleftrightarrow> z = r \<and> z < n" for z r
    by (subst uf_root_iff) auto
  then show ?thesis by (auto simp: uf_same_def uf_init_def)
qed

lemma uf_init_parts: "uf_parts (uf_init n) = n"
proof -
  have "{x. x < n \<and> [0..<n] ! x = x} = {..<n}" by auto
  then show ?thesis by (simp add: uf_parts_def uf_init_def)
qed

end
