(* ===== verification/Keep_Grouping.thy ===== *)
theory Keep_Grouping
  imports Keep_Items Union_Find Dedup_Index
begin

text \<open>
  Grouping of scan candidates (\<^verbatim>\<open>group_candidates_with_stats\<close> and its post-passes in
  \<^verbatim>\<open>dedup-engine/src/keepset.rs\<close>). The loop state is a record of the function's local vectors
  and maps; each pass over one item is split at the comments of the loop body. A hash map whose
  values are iterated is a list of clusters in order of first occurrence; the theory
  \<open>Keep_Backfill\<close> shows that the groups do not depend on that choice.
\<close>

subsection \<open>Data\<close>

record GroupState =
  gp_groups :: "nat list list"
  gp_bound_mid :: "str option list"
  gp_fp :: "(u64 \<times> u64 \<times> u64 \<times> u64) list"
  gp_bind_hash :: "bytes list"
  gp_mid_to_group :: "str \<rightharpoonup> nat"
  gp_hash_to_group :: "bytes \<rightharpoonup> nat"
  gp_bound_by :: "BoundBy list"
  gp_tier2_eligible :: "bool list"
  gp_stats :: GroupingStats
  gp_cross_mid_hash_seen :: "bytes list"
  gp_cross_mid_cluster :: "bytes \<rightharpoonup> str list"

record GroupingOutcome =
  go_groups :: "nat list list"
  go_bound_by :: "BoundBy list"
  go_tier2_eligible :: "bool list"
  go_stats :: GroupingStats

definition group_init :: "nat \<Rightarrow> GroupState" where
  "group_init n =
     \<lparr> gp_groups = [], gp_bound_mid = [], gp_fp = [], gp_bind_hash = [],
       gp_mid_to_group = Map.empty, gp_hash_to_group = Map.empty,
       gp_bound_by = replicate n Seed, gp_tier2_eligible = replicate n True,
       gp_stats = default_stats, gp_cross_mid_hash_seen = [], gp_cross_mid_cluster = Map.empty \<rparr>"

subsection \<open>One item\<close>

definition keep_eligibility ::
  "bool \<Rightarrow> GroupingContext \<Rightarrow> RecoverableScanItem \<Rightarrow> GroupingStats \<Rightarrow> bool \<times> GroupingStats" where
  "keep_eligibility windows ctx item stats =
     (case assess_tier2_eligibility item of
        Inr _ \<Rightarrow> (True, stats)
      | Inl UnreadableBody \<Rightarrow>
          (if enforce_readable_body ctx
           then (False, stats \<lparr> gs_tier2_blocked_unreadable_body :=
                                  gs_tier2_blocked_unreadable_body stats + 1 \<rparr>)
           else (True, stats))
      | Inl Degenerate \<Rightarrow>
          (if enforce_readable_body ctx
           then (False, stats \<lparr> gs_tier2_blocked_degenerate :=
                                  gs_tier2_blocked_degenerate stats + 1 \<rparr>)
           else (True, stats))
      | Inl ReasonCrcSuspect \<Rightarrow>
          (if allow_crc_suspect_tier2_for ctx (path_key windows item) then (True, stats)
           else (False, stats \<lparr> gs_tier2_blocked_crc_suspect :=
                                  gs_tier2_blocked_crc_suspect stats + 1 \<rparr>)))"

definition keep_scope_prefix :: "bool \<Rightarrow> GroupingContext \<Rightarrow> RecoverableScanItem \<Rightarrow> str" where
  "keep_scope_prefix windows ctx item =
     (case gx_scope ctx of Global \<Rightarrow> [] | PerSource \<Rightarrow> path_key windows item @ [0])"

definition keep_mid_key :: "bool \<Rightarrow> GroupingContext \<Rightarrow> RecoverableScanItem \<Rightarrow> str \<Rightarrow> str" where
  "keep_mid_key windows ctx item m = keep_scope_prefix windows ctx item @ m"

definition keep_hash_key :: "bool \<Rightarrow> GroupingContext \<Rightarrow> RecoverableScanItem \<Rightarrow> bytes" where
  "keep_hash_key windows ctx item =
     utf8 (keep_scope_prefix windows ctx item) @ sc_bind_hash item (gx_identity ctx)"

definition keep_note_divergence ::
  "u64 \<times> u64 \<times> u64 \<times> u64 \<Rightarrow> RecoverableScanItem \<Rightarrow> GroupingStats \<Rightarrow> GroupingStats" where
  "keep_note_divergence fps item stats =
     (let (gb, gh, gr, ga) = fps;
          body_diff = sc_fp_body item \<noteq> gb;
          meta_diff = sc_fp_header item \<noteq> gh \<or> sc_fp_attachments item \<noteq> ga;
          recip_diff = sc_fp_recipients item \<noteq> gr
      in if body_diff
         then stats \<lparr> gs_tier1_divergent_body := gs_tier1_divergent_body stats + 1 \<rparr>
         else if recip_diff \<and> \<not> meta_diff
         then stats \<lparr> gs_tier1_divergent_recipients := gs_tier1_divergent_recipients stats + 1 \<rparr>
         else if meta_diff
         then stats \<lparr> gs_tier1_divergent_metadata := gs_tier1_divergent_metadata stats + 1 \<rparr>
         else stats)"

definition keep_split_tier1 :: "GroupingContext \<Rightarrow> GroupState \<Rightarrow> nat \<Rightarrow> RecoverableScanItem \<Rightarrow> bool" where
  "keep_split_tier1 ctx st gid item =
     (case gx_tier1_verify ctx of
        TvOff \<Rightarrow> False
      | TvContent \<Rightarrow> sc_bind_hash item (gx_identity ctx) \<noteq> gp_bind_hash st ! gid
      | TvBody \<Rightarrow> sc_fp_body item \<noteq> fst (gp_fp st ! gid))"

definition keep_tier1 ::
  "bool \<Rightarrow> GroupingContext \<Rightarrow> RecoverableScanItem \<Rightarrow> GroupState \<Rightarrow>
   GroupState \<times> (nat \<times> BoundBy) option" where
  "keep_tier1 windows ctx item st =
     (case sc_mid item of
        None \<Rightarrow> (st, None)
      | Some m \<Rightarrow>
          (case gp_mid_to_group st (keep_mid_key windows ctx item m) of
             None \<Rightarrow> (st, None)
           | Some gid \<Rightarrow>
               (let st' = st \<lparr> gp_stats := keep_note_divergence (gp_fp st ! gid) item (gp_stats st) \<rparr>
                in if keep_split_tier1 ctx st gid item then (st', None)
                   else (st', Some (gid, ByMessageId)))))"

definition keep_adopt_mid ::
  "bool \<Rightarrow> GroupingContext \<Rightarrow> RecoverableScanItem \<Rightarrow> GroupState \<Rightarrow> nat \<Rightarrow> str option \<Rightarrow> GroupState" where
  "keep_adopt_mid windows ctx item st gid new_bound =
     (case new_bound of
        None \<Rightarrow> st
      | Some nb \<Rightarrow>
          if gp_bound_mid st ! gid = None then
            (let mk = keep_mid_key windows ctx item nb
             in st \<lparr> gp_bound_mid := (gp_bound_mid st)[gid := Some nb],
                     gp_mid_to_group :=
                       (if gp_mid_to_group st mk = None then (gp_mid_to_group st)(mk \<mapsto> gid)
                        else gp_mid_to_group st) \<rparr>)
          else st)"

definition keep_note_block :: "GroupState \<Rightarrow> bytes \<Rightarrow> nat \<Rightarrow> str option \<Rightarrow> GroupState" where
  "keep_note_block st hkey gid mid =
     (let s0 = gp_stats st;
          s1 = s0 \<lparr> gs_cross_mid_blocked := gs_cross_mid_blocked s0 + 1 \<rparr>;
          s2 = (if hkey \<notin> set (gp_cross_mid_hash_seen st)
                then s1 \<lparr> gs_cross_mid_blocked_groups := gs_cross_mid_blocked_groups s1 + 1 \<rparr>
                else s1);
          st2 = st \<lparr> gp_stats := s2,
                     gp_cross_mid_hash_seen := set_insert hkey (gp_cross_mid_hash_seen st) \<rparr>
      in case mid of
           None \<Rightarrow> st2
         | Some m \<Rightarrow>
             (let cluster0 = (case gp_cross_mid_cluster st2 hkey of None \<Rightarrow> [] | Some c \<Rightarrow> c);
                  cluster1 = (case gp_bound_mid st ! gid of
                                None \<Rightarrow> cluster0
                              | Some existing \<Rightarrow> set_insert existing cluster0);
                  cluster = set_insert m cluster1
              in st2 \<lparr> gp_cross_mid_cluster := (gp_cross_mid_cluster st2)(hkey \<mapsto> cluster),
                       gp_stats := s2 \<lparr> gs_cross_mid_blocked_max_group :=
                                          max (gs_cross_mid_blocked_max_group s2)
                                              (length cluster) \<rparr> \<rparr>))"

definition keep_tier2 ::
  "bool \<Rightarrow> GroupingContext \<Rightarrow> RecoverableScanItem \<Rightarrow> bool \<Rightarrow> GroupState \<Rightarrow>
   GroupState \<times> (nat \<times> BoundBy) option" where
  "keep_tier2 windows ctx item eligible st =
     (if gx_tier2_enabled ctx \<and> eligible then
        (let hkey = keep_hash_key windows ctx item
         in case gp_hash_to_group st hkey of
              None \<Rightarrow> (st, None)
            | Some gid \<Rightarrow>
                (let (ok, new_bound) =
                       mid_join_compatible (gp_bound_mid st ! gid) (sc_mid item)
                         (block_cross_mid ctx)
                 in if ok then
                      (keep_adopt_mid windows ctx item st gid new_bound,
                       Some (gid, if is_strong (gx_identity ctx) then ByStrongContentHash
                                  else ByContentHash))
                    else (keep_note_block st hkey gid (sc_mid item), None)))
      else (st, None))"

definition keep_join :: "nat \<Rightarrow> nat \<Rightarrow> BoundBy \<Rightarrow> GroupState \<Rightarrow> GroupState" where
  "keep_join i gid bb st =
     st \<lparr> gp_groups := (gp_groups st)[gid := gp_groups st ! gid @ [i]],
          gp_bound_by := (gp_bound_by st)[i := bb] \<rparr>"

definition keep_seed ::
  "bool \<Rightarrow> GroupingContext \<Rightarrow> nat \<Rightarrow> RecoverableScanItem \<Rightarrow> bool \<Rightarrow> GroupState \<Rightarrow> GroupState" where
  "keep_seed windows ctx i item eligible st =
     (let gid = length (gp_groups st);
          hkey = keep_hash_key windows ctx item
      in st \<lparr> gp_groups := gp_groups st @ [[i]],
              gp_bound_mid := gp_bound_mid st @ [sc_mid item],
              gp_fp := gp_fp st @ [(sc_fp_body item, sc_fp_header item, sc_fp_recipients item,
                                    sc_fp_attachments item)],
              gp_bind_hash := gp_bind_hash st @ [sc_bind_hash item (gx_identity ctx)],
              gp_bound_by := (gp_bound_by st)[i := Seed],
              gp_mid_to_group :=
                (case sc_mid item of
                   None \<Rightarrow> gp_mid_to_group st
                 | Some m \<Rightarrow> (gp_mid_to_group st)(keep_mid_key windows ctx item m \<mapsto> gid)),
              gp_hash_to_group :=
                (if gx_tier2_enabled ctx \<and> eligible \<and> gp_hash_to_group st hkey = None
                 then (gp_hash_to_group st)(hkey \<mapsto> gid)
                 else gp_hash_to_group st) \<rparr>)"

definition keep_place ::
  "bool \<Rightarrow> GroupingContext \<Rightarrow> nat \<Rightarrow> RecoverableScanItem \<Rightarrow> bool \<Rightarrow> GroupState \<Rightarrow> GroupState" where
  "keep_place windows ctx i item eligible st =
     (case keep_tier1 windows ctx item st of
        (st1, Some (gid, bb)) \<Rightarrow> keep_join i gid bb st1
      | (st1, None) \<Rightarrow>
          (case keep_tier2 windows ctx item eligible st1 of
             (st2, Some (gid, bb)) \<Rightarrow> keep_join i gid bb st2
           | (st2, None) \<Rightarrow> keep_seed windows ctx i item eligible st2))"

definition group_step ::
  "bool \<Rightarrow> GroupingContext \<Rightarrow> nat \<times> RecoverableScanItem \<Rightarrow> GroupState \<Rightarrow> GroupState" where
  "group_step windows ctx indexed st =
     (let (i, item) = indexed;
          s0 = gp_stats st;
          s1 = (if sc_preview_bytes_over_budget item
                then s0 \<lparr> gs_tier2_preview_bytes_over_budget :=
                            gs_tier2_preview_bytes_over_budget s0 + 1 \<rparr>
                else s0);
          (eligible, s2) = keep_eligibility windows ctx item s1;
          st1 = st \<lparr> gp_stats := s2,
                     gp_tier2_eligible := (gp_tier2_eligible st)[i := eligible] \<rparr>;
          st2 = keep_place windows ctx i item eligible st1
      in if recipient_strings_have_x500 item
         then st2 \<lparr> gp_stats := (gp_stats st2) \<lparr> gs_x500_recipient_items :=
                                  gs_x500_recipient_items (gp_stats st2) + 1 \<rparr> \<rparr>
         else st2)"

definition group_loop :: "bool \<Rightarrow> GroupingContext \<Rightarrow> RecoverableScanItem list \<Rightarrow> GroupState" where
  "group_loop windows ctx items =
     fold (group_step windows ctx) (enumerate 0 items) (group_init (length items))"

subsection \<open>Post-passes\<close>

definition item_gids :: "nat \<Rightarrow> nat list list \<Rightarrow> nat list" where
  "item_gids n groups =
     fold (\<lambda>(gid, members) v. fold (\<lambda>i v. if i < length v then v[i := gid] else v) members v)
       (enumerate 0 groups) (replicate n 0)"

text \<open>The values of a map from keys to index lists, in order of the keys' first occurrence.\<close>

definition clusters_by :: "(nat \<Rightarrow> 'k) \<Rightarrow> nat list \<Rightarrow> nat list list" where
  "clusters_by key idxs =
     map (\<lambda>k. filter (\<lambda>i. key i = k) idxs) (fold set_insert (map key idxs) [])"

fun pairs_of :: "'a list \<Rightarrow> ('a \<times> 'a) list" where
  "pairs_of [] = []"
| "pairs_of (x # xs) = map (\<lambda>y. (x, y)) xs @ pairs_of xs"

definition bound_at :: "str option list \<Rightarrow> nat \<Rightarrow> str option" where
  "bound_at bounds g = (if g < length bounds then bounds ! g else None)"

definition backfill_edge :: "str option list \<Rightarrow> nat \<times> nat \<Rightarrow> bool" where
  "backfill_edge bounds edge =
     (let (ga, gb) = edge; ma = bound_at bounds ga; mb = bound_at bounds gb
      in (mid_present ma \<noteq> None \<or> mid_present mb \<noteq> None) \<and>
         fst (mid_join_compatible ma mb True))"

definition cluster_edges :: "nat list \<Rightarrow> str option list \<Rightarrow> nat list \<Rightarrow> (nat \<times> nat) list" where
  "cluster_edges gids bounds idxs =
     (if length idxs < 2 then []
      else
        (let gs = remdups_adj (sort (map (\<lambda>i. gids ! i) idxs))
         in if length gs < 2 then [] else filter (backfill_edge bounds) (pairs_of gs)))"

definition backfill_clusters ::
  "bool \<Rightarrow> GroupingContext \<Rightarrow> RecoverableScanItem list \<Rightarrow> nat list list" where
  "backfill_clusters windows ctx items =
     clusters_by
       (\<lambda>i. (case gx_scope ctx of Global \<Rightarrow> [] | PerSource \<Rightarrow> path_key windows (items ! i),
             sc_content_hash (items ! i)))
       [0..<length items]"

definition backfill_edges ::
  "bool \<Rightarrow> GroupingContext \<Rightarrow> RecoverableScanItem list \<Rightarrow> nat list list \<Rightarrow> str option list \<Rightarrow>
   (nat \<times> nat) list" where
  "backfill_edges windows ctx items groups bounds =
     concat (map (cluster_edges (item_gids (length items) groups) bounds)
       (backfill_clusters windows ctx items))"

record Rebuild =
  rb_parent :: "nat list"
  rb_root_to_new :: "nat \<rightharpoonup> nat"
  rb_groups :: "nat list list"
  rb_bounds :: "str option list"

definition rebuild_step :: "str option list \<Rightarrow> nat \<times> nat list \<Rightarrow> Rebuild \<Rightarrow> Rebuild" where
  "rebuild_step bounds old rb =
     (let (old_gid, members) = old;
          (parent', root) = uf_find (rb_parent rb) old_gid;
          (new_gid, m1, gs1, bs1) =
            (case rb_root_to_new rb root of
               Some ngid \<Rightarrow> (ngid, rb_root_to_new rb, rb_groups rb, rb_bounds rb)
             | None \<Rightarrow>
                 (length (rb_groups rb), (rb_root_to_new rb)(root \<mapsto> length (rb_groups rb)),
                  rb_groups rb @ [[]], rb_bounds rb @ [bound_at bounds root]));
          gs2 = gs1[new_gid := gs1 ! new_gid @ members];
          bs2 = (if mid_present (bs1 ! new_gid) = None
                 then (case mid_present (bound_at bounds old_gid) of
                         None \<Rightarrow> bs1
                       | Some b \<Rightarrow> bs1[new_gid := Some b])
                 else bs1)
      in \<lparr> rb_parent = parent', rb_root_to_new = m1, rb_groups = gs2, rb_bounds = bs2 \<rparr>)"

definition rebuild_groups :: "nat list \<Rightarrow> str option list \<Rightarrow> nat list list \<Rightarrow> Rebuild" where
  "rebuild_groups parent bounds groups =
     fold (rebuild_step bounds) (enumerate 0 groups)
       \<lparr> rb_parent = parent, rb_root_to_new = Map.empty, rb_groups = [], rb_bounds = [] \<rparr>"

definition reclassify_member ::
  "GroupingContext \<Rightarrow> RecoverableScanItem list \<Rightarrow> nat \<Rightarrow> nat \<Rightarrow> BoundBy list \<Rightarrow> BoundBy list" where
  "reclassify_member ctx items seed idx bound_by =
     (if idx \<ge> length bound_by \<or> bound_by ! idx \<noteq> Seed then bound_by
      else
        (let mid_of = (\<lambda>k. if k < length items then sc_message_id_norm (items ! k) else None);
             mid_match = (case (mid_present (mid_of seed), mid_present (mid_of idx)) of
                            (Some a, Some b) \<Rightarrow> a = b | _ \<Rightarrow> False)
         in bound_by[idx := (if mid_match then ByMessageId
                             else if is_strong (gx_identity ctx) then ByStrongContentHash
                             else ByContentHash)]))"

definition reclassify_group ::
  "GroupingContext \<Rightarrow> RecoverableScanItem list \<Rightarrow> nat list \<Rightarrow> BoundBy list \<Rightarrow> BoundBy list" where
  "reclassify_group ctx items g bound_by =
     (case g of
        [] \<Rightarrow> bound_by
      | seed # rest \<Rightarrow>
          fold (reclassify_member ctx items seed) rest
            (if seed < length bound_by then bound_by[seed := Seed] else bound_by))"

definition apply_tier1_backfill_pass ::
  "bool \<Rightarrow> GroupingContext \<Rightarrow> RecoverableScanItem list \<Rightarrow> nat list list \<Rightarrow> str option list \<Rightarrow>
   BoundBy list \<Rightarrow> GroupingStats \<Rightarrow>
   nat list list \<times> str option list \<times> BoundBy list \<times> GroupingStats" where
  "apply_tier1_backfill_pass windows ctx items groups bounds bound_by stats =
     (if groups = [] \<or> items = [] then (groups, bounds, bound_by, stats)
      else
        (let edges = backfill_edges windows ctx items groups bounds;
             (uf, unions) = merge_all unite (uf_init (length groups)) edges;
             stats' = stats \<lparr> gs_tier1_backfill_candidates :=
                                gs_tier1_backfill_candidates stats + unions \<rparr>
         in if \<not> gx_tier1_backfill ctx \<or> unions = 0 then (groups, bounds, bound_by, stats')
            else
              (let rb = rebuild_groups (fst uf) bounds groups;
                   new_groups = map sort (rb_groups rb)
               in (new_groups, rb_bounds rb, fold (reclassify_group ctx items) new_groups bound_by,
                   stats'))))"

definition split_attribution ::
  "RecoverableScanItem list \<Rightarrow> nat \<times> nat \<Rightarrow> GroupingStats \<Rightarrow> GroupingStats" where
  "split_attribution items w stats =
     (let a = items ! fst w; b = items ! snd w in
      if sc_fp_body a = sc_fp_body b \<and> sc_fp_header a = sc_fp_header b \<and>
         sc_fp_attachments a = sc_fp_attachments b \<and> sc_fp_recipients a \<noteq> sc_fp_recipients b
      then
        (let stats1 = stats \<lparr> gs_tier2_5_splits_recipients_only :=
                                gs_tier2_5_splits_recipients_only stats + 1 \<rparr>;
             to_same = recip_display_eq (sc_display_to a) (sc_display_to b);
             cc_same = recip_display_eq (sc_display_cc a) (sc_display_cc b);
             bcc_diff = (\<not> recip_display_eq (sc_display_bcc a) (sc_display_bcc b) \<or>
                         sc_has_bcc a \<noteq> sc_has_bcc b)
         in if to_same \<and> cc_same \<and> bcc_diff
            then stats1 \<lparr> gs_tier2_5_splits_bcc_only := gs_tier2_5_splits_bcc_only stats1 + 1 \<rparr>
            else stats1)
      else stats)"

fun first_per_group :: "nat list \<Rightarrow> nat list \<Rightarrow> nat list \<Rightarrow> nat list" where
  "first_per_group gids seen [] = []"
| "first_per_group gids seen (i # is) =
     (if gids ! i \<in> set seen then first_per_group gids seen is
      else i # first_per_group gids (gids ! i # seen) is)"

definition windows2 :: "'a list \<Rightarrow> ('a \<times> 'a) list" where
  "windows2 xs = zip xs (tl xs)"

definition split_cluster ::
  "RecoverableScanItem list \<Rightarrow> nat list \<Rightarrow> nat list \<Rightarrow> GroupingStats \<Rightarrow> GroupingStats" where
  "split_cluster items gids idxs stats =
     (let ngids = length (fold set_insert (map (\<lambda>i. gids ! i) idxs) []) in
      if length idxs < 2 \<or> ngids \<le> 1 then stats
      else
        (let stats1 = stats \<lparr> gs_tier2_5_splits := gs_tier2_5_splits stats + (ngids - 1) \<rparr>
         in fold (split_attribution items) (windows2 (first_per_group gids [] idxs)) stats1))"

definition attribute_tier2_5_splits ::
  "RecoverableScanItem list \<Rightarrow> nat list list \<Rightarrow> bool list \<Rightarrow> GroupingStats \<Rightarrow> GroupingStats" where
  "attribute_tier2_5_splits items groups tier2_eligible stats =
     (let gids = item_gids (length items) groups;
          eligible = (\<lambda>i. if i < length tier2_eligible then tier2_eligible ! i else True);
          clusters = clusters_by (\<lambda>i. sc_content_hash (items ! i))
                       (filter eligible [0..<length items])
      in fold (split_cluster items gids) clusters stats)"

definition group_candidates_with_stats ::
  "bool \<Rightarrow> GroupingContext \<Rightarrow> RecoverableScanItem list \<Rightarrow> GroupingOutcome" where
  "group_candidates_with_stats windows ctx items =
     (let st = group_loop windows ctx items;
          (groups, bounds, bound_by, stats1) =
            apply_tier1_backfill_pass windows ctx items (gp_groups st) (gp_bound_mid st)
              (gp_bound_by st) (gp_stats st);
          stats2 = (if is_strong (gx_identity ctx)
                    then attribute_tier2_5_splits items groups (gp_tier2_eligible st) stats1
                    else stats1)
      in \<lparr> go_groups = groups, go_bound_by = bound_by, go_tier2_eligible = gp_tier2_eligible st,
           go_stats = stats2 \<rparr>)"

definition group_candidates :: "bool \<Rightarrow> RecoverableScanItem list \<Rightarrow> bool \<Rightarrow> nat list list" where
  "group_candidates windows items tier2_enabled =
     go_groups (group_candidates_with_stats windows (with_tier2 tier2_enabled) items)"

subsection \<open>The three ways an item is placed\<close>

text \<open>The part of the loop state that decides the grouping; the rest only counts.\<close>

definition core :: "GroupState \<Rightarrow> GroupState" where
  "core st = st \<lparr> gp_tier2_eligible := [], gp_stats := default_stats, gp_cross_mid_hash_seen := [],
                  gp_cross_mid_cluster := Map.empty \<rparr>"

lemma core_fields [simp]:
  "gp_groups (core st) = gp_groups st" "gp_bound_mid (core st) = gp_bound_mid st"
  "gp_fp (core st) = gp_fp st" "gp_bind_hash (core st) = gp_bind_hash st"
  "gp_mid_to_group (core st) = gp_mid_to_group st"
  "gp_hash_to_group (core st) = gp_hash_to_group st" "gp_bound_by (core st) = gp_bound_by st"
  by (simp_all add: core_def)

lemma core_updates [simp]:
  "core (st \<lparr> gp_stats := s \<rparr>) = core st" "core (st \<lparr> gp_tier2_eligible := e \<rparr>) = core st"
  by (simp_all add: core_def)

lemma core_idem [simp]: "core (core st) = core st"
  by (simp add: core_def)

definition keep_eligible :: "bool \<Rightarrow> GroupingContext \<Rightarrow> RecoverableScanItem \<Rightarrow> bool" where
  "keep_eligible windows ctx item = fst (keep_eligibility windows ctx item default_stats)"

lemma fst_keep_eligibility [simp]:
  "fst (keep_eligibility windows ctx item s) = keep_eligible windows ctx item"
  by (simp add: keep_eligible_def keep_eligibility_def
      split: sum.splits Tier2IneligibleReason.splits)

abbreviation keep_hash_bind :: "GroupingContext \<Rightarrow> BoundBy" where
  "keep_hash_bind ctx \<equiv> (if is_strong (gx_identity ctx) then ByStrongContentHash else ByContentHash)"

lemma core_note_block [simp]: "core (keep_note_block st k gid mid) = core st"
  by (auto simp: core_def keep_note_block_def Let_def split: option.splits)

lemma core_join [simp]: "core (keep_join i gid bb st) = keep_join i gid bb (core st)"
  by (simp add: core_def keep_join_def)

lemma core_adopt [simp]:
  "core (keep_adopt_mid windows ctx item st gid nb) = keep_adopt_mid windows ctx item (core st) gid nb"
  by (auto simp: core_def keep_adopt_mid_def Let_def split: option.splits)

lemma core_seed [simp]:
  "core (keep_seed windows ctx i item el st) = keep_seed windows ctx i item el (core st)"
  by (cases st; cases "sc_mid item") (simp_all add: core_def keep_seed_def Let_def)

lemma keep_place_cases:
  obtains (mid) m gid where "sc_mid item = Some m"
      "gp_mid_to_group st (keep_mid_key windows ctx item m) = Some gid"
      "\<not> keep_split_tier1 ctx st gid item"
      "core (keep_place windows ctx i item el st) = keep_join i gid ByMessageId (core st)"
  | (hash) gid nb where "gx_tier2_enabled ctx" "el"
      "gp_hash_to_group st (keep_hash_key windows ctx item) = Some gid"
      "mid_join_compatible (gp_bound_mid st ! gid) (sc_mid item) (block_cross_mid ctx) = (True, nb)"
      "core (keep_place windows ctx i item el st) =
         keep_join i gid (keep_hash_bind ctx) (keep_adopt_mid windows ctx item (core st) gid nb)"
      "\<And>m g. sc_mid item = Some m \<Longrightarrow>
         gp_mid_to_group st (keep_mid_key windows ctx item m) = Some g \<Longrightarrow>
         keep_split_tier1 ctx st g item"
  | (seed) "core (keep_place windows ctx i item el st) = keep_seed windows ctx i item el (core st)"
      "\<And>m g. sc_mid item = Some m \<Longrightarrow>
         gp_mid_to_group st (keep_mid_key windows ctx item m) = Some g \<Longrightarrow>
         keep_split_tier1 ctx st g item"
      "\<And>g. gx_tier2_enabled ctx \<Longrightarrow> el \<Longrightarrow>
         gp_hash_to_group st (keep_hash_key windows ctx item) = Some g \<Longrightarrow>
         \<not> fst (mid_join_compatible (gp_bound_mid st ! g) (sc_mid item) (block_cross_mid ctx))"
proof -
  obtain st1 f1 where t1: "keep_tier1 windows ctx item st = (st1, f1)" by fastforce
  have c1: "core st1 = core st" "gp_hash_to_group st1 = gp_hash_to_group st"
    "gp_bound_mid st1 = gp_bound_mid st"
    using t1 by (auto simp: keep_tier1_def Let_def split: option.splits if_splits)
  show thesis
  proof (cases f1)
    case (Some p)
    with t1 obtain m gid where "sc_mid item = Some m" "p = (gid, ByMessageId)"
      "gp_mid_to_group st (keep_mid_key windows ctx item m) = Some gid"
      "\<not> keep_split_tier1 ctx st gid item"
      by (auto simp: keep_tier1_def Let_def split: option.splits if_splits)
    with Some t1 c1 mid show thesis by (simp add: keep_place_def)
  next
    case None
    with t1 have miss: "keep_split_tier1 ctx st g item" if "sc_mid item = Some m"
        "gp_mid_to_group st (keep_mid_key windows ctx item m) = Some g" for m g
      using that by (auto simp: keep_tier1_def Let_def split: option.splits if_splits)
    obtain st2 f2 where t2: "keep_tier2 windows ctx item el st1 = (st2, f2)" by fastforce
    show thesis
    proof (cases f2)
      case (Some p)
      with t2 c1 obtain gid nb where "gx_tier2_enabled ctx" "el"
          "gp_hash_to_group st (keep_hash_key windows ctx item) = Some gid"
          "mid_join_compatible (gp_bound_mid st ! gid) (sc_mid item) (block_cross_mid ctx) = (True, nb)"
          "p = (gid, keep_hash_bind ctx)" "st2 = keep_adopt_mid windows ctx item st1 gid nb"
        by (auto simp: keep_tier2_def Let_def split: option.splits if_splits prod.splits)
      with None Some t1 t2 c1 miss hash show thesis by (simp add: keep_place_def)
    next
      case f2: None
      with t2 c1 have "core st2 = core st"
        by (auto simp: keep_tier2_def Let_def split: option.splits if_splits prod.splits)
      moreover have "\<not> fst (mid_join_compatible (gp_bound_mid st ! g) (sc_mid item) (block_cross_mid ctx))"
        if "gx_tier2_enabled ctx" "el" "gp_hash_to_group st (keep_hash_key windows ctx item) = Some g" for g
        using that t2 c1 f2
        by (auto simp: keep_tier2_def Let_def split: option.splits if_splits prod.splits)
      ultimately show thesis using None f2 t1 t2 miss seed by (simp add: keep_place_def)
    qed
  qed
qed

lemma group_step_core:
  "core (group_step windows ctx (i, item) st)
     = core (keep_place windows ctx i item (keep_eligible windows ctx item) (core st))"
proof -
  have place: "core (keep_place windows ctx i item el st') =
      core (keep_place windows ctx i item el (core st'))" for el st'
    by (rule keep_place_cases [of item st' windows ctx i el];
        rule keep_place_cases [of item "core st'" windows ctx i el])
      (auto simp: keep_split_tier1_def split: Tier1Verify.splits)
  let ?s1 = "if sc_preview_bytes_over_budget item
     then gp_stats st \<lparr> gs_tier2_preview_bytes_over_budget :=
                         gs_tier2_preview_bytes_over_budget (gp_stats st) + 1 \<rparr>
     else gp_stats st"
  obtain el s2 where e: "keep_eligibility windows ctx item ?s1 = (el, s2)" by fastforce
  then have el: "el = keep_eligible windows ctx item"
    using fst_keep_eligibility by (metis fst_conv)
  let ?st1 = "st \<lparr> gp_stats := s2, gp_tier2_eligible := (gp_tier2_eligible st)[i := el] \<rparr>"
  have "core (group_step windows ctx (i, item) st) = core (keep_place windows ctx i item el ?st1)"
    unfolding group_step_def Let_def by (simp only: prod.case e) simp
  with place [of el ?st1] el show ?thesis by simp
qed

subsection \<open>The shape of the groups\<close>

text \<open>
  A grouping of the first \<open>k\<close> items: every index in exactly one group, no empty group, members
  in scan order, groups in the order of their first members.
\<close>

definition grouping_of :: "nat \<Rightarrow> nat list list \<Rightarrow> bool" where
  "grouping_of k groups \<longleftrightarrow>
     mset (concat groups) = mset [0..<k] \<and>
     (\<forall>g\<in>set groups. g \<noteq> [] \<and> sorted_wrt (<) g) \<and> sorted_wrt (<) (map hd groups)"

lemma grouping_of_set: "grouping_of k groups \<Longrightarrow> \<Union> (set ` set groups) = {0..<k}"
  by (metis grouping_of_def atLeast_upt mset_eq_setD set_concat set_upt)

lemma grouping_of_less: "grouping_of k groups \<Longrightarrow> g < length groups \<Longrightarrow> i \<in> set (groups ! g) \<Longrightarrow> i < k"
  using grouping_of_set [of k groups] nth_mem by fastforce

lemma grouping_of_nonempty: "grouping_of k groups \<Longrightarrow> g < length groups \<Longrightarrow> groups ! g \<noteq> []"
  by (auto simp: grouping_of_def)

lemma grouping_of_unique:
  "grouping_of k groups \<Longrightarrow> g < length groups \<Longrightarrow> h < length groups \<Longrightarrow>
   i \<in> set (groups ! g) \<Longrightarrow> i \<in> set (groups ! h) \<Longrightarrow> g = h"
  by (metis distinct_concat_nth_unique distinct_upt grouping_of_def mset_eq_imp_distinct_iff)

lemma grouping_of_ex:
  assumes "grouping_of k groups" and "i < k"
  obtains g where "g < length groups" "i \<in> set (groups ! g)"
proof -
  from grouping_of_set [OF assms(1)] assms(2) have "i \<in> \<Union> (set ` set groups)" by simp
  then obtain xs where "xs \<in> set groups" "i \<in> set xs" by auto
  with that show thesis by (metis in_set_conv_nth)
qed

lemma grouping_of_join:
  assumes "grouping_of k groups" and "g < length groups"
  shows "grouping_of (Suc k) (groups[g := groups ! g @ [k]])"
proof -
  have ne: "groups ! g \<noteq> []" and srt: "sorted_wrt (<) (groups ! g)"
    using assms by (auto simp: grouping_of_def)
  have "\<forall>i\<in>set (groups ! g). i < k" using grouping_of_less [OF assms] by blast
  with srt have "sorted_wrt (<) (groups ! g @ [k])" by (simp add: sorted_wrt_append)
  then have "x \<noteq> [] \<and> sorted_wrt (<) x" if "x \<in> set (groups[g := groups ! g @ [k]])" for x
    using that assms set_update_subset_insert [of groups g "groups ! g @ [k]"]
    by (auto simp: grouping_of_def)
  with assms ne show ?thesis
    by (simp add: grouping_of_def mset_concat_update map_hd_append_update)
qed

lemma grouping_of_seed:
  assumes "grouping_of k groups"
  shows "grouping_of (Suc k) (groups @ [[k]])"
proof -
  have "hd g < k" if "g \<in> set groups" for g
    using that assms grouping_of_set [OF assms] by (fastforce simp: grouping_of_def)
  with assms show ?thesis by (auto simp: grouping_of_def sorted_wrt_append)
qed

subsection \<open>The loop invariant\<close>

text \<open>
  The loop invariant after \<open>k\<close> items. The tables point at existing groups whose first member
  has the recorded key and hash, every member of a group has the scope prefix of its first
  member, and the recorded provenance of every member is true of it and its group.
\<close>

definition group_inv ::
  "bool \<Rightarrow> GroupingContext \<Rightarrow> RecoverableScanItem list \<Rightarrow> nat \<Rightarrow> GroupState \<Rightarrow> bool" where
  "group_inv windows ctx items k st \<longleftrightarrow>
     grouping_of k (gp_groups st) \<and>
     length (gp_bound_mid st) = length (gp_groups st) \<and> length (gp_fp st) = length (gp_groups st) \<and>
     length (gp_bind_hash st) = length (gp_groups st) \<and> length (gp_bound_by st) = length items \<and>
     (\<forall>key g. gp_mid_to_group st key = Some g \<longrightarrow> g < length (gp_groups st) \<and>
        (\<exists>m. key = keep_mid_key windows ctx (items ! hd (gp_groups st ! g)) m \<and>
             gp_bound_mid st ! g = Some m)) \<and>
     (\<forall>key g. gp_hash_to_group st key = Some g \<longrightarrow> g < length (gp_groups st) \<and>
        gx_tier2_enabled ctx \<and> keep_eligible windows ctx (items ! hd (gp_groups st ! g)) \<and>
        key = keep_hash_key windows ctx (items ! hd (gp_groups st ! g)))"

definition member_ok ::
  "bool \<Rightarrow> GroupingContext \<Rightarrow> RecoverableScanItem list \<Rightarrow> str option \<Rightarrow> nat \<Rightarrow> BoundBy \<Rightarrow> nat \<Rightarrow> bool" where
  "member_ok windows ctx items bound seed bb i \<longleftrightarrow>
     keep_scope_prefix windows ctx (items ! i) = keep_scope_prefix windows ctx (items ! seed) \<and>
     (bb = Seed \<longleftrightarrow> i = seed) \<and>
     (block_cross_mid ctx \<longrightarrow> sc_mid (items ! i) = None \<or> sc_mid (items ! i) = bound) \<and>
     (bb = ByMessageId \<longrightarrow> sc_mid (items ! i) \<noteq> None \<and> sc_mid (items ! i) = bound) \<and>
     (bb = ByContentHash \<or> bb = ByStrongContentHash \<longrightarrow> bb = keep_hash_bind ctx \<and>
        sc_bind_hash (items ! i) (gx_identity ctx) = sc_bind_hash (items ! seed) (gx_identity ctx) \<and>
        keep_eligible windows ctx (items ! i) \<and> keep_eligible windows ctx (items ! seed))"

lemma member_ok_mid:
  "member_ok w ctx items bound seed bb i \<Longrightarrow> block_cross_mid ctx \<Longrightarrow> sc_mid (items ! i) = Some m \<Longrightarrow>
   bound = Some m"
  by (auto simp: member_ok_def)

lemma member_ok_scope:
  "member_ok w ctx items bound seed bb i \<Longrightarrow>
   keep_scope_prefix w ctx (items ! i) = keep_scope_prefix w ctx (items ! seed)"
  by (simp add: member_ok_def)

definition members_inv ::
  "bool \<Rightarrow> GroupingContext \<Rightarrow> RecoverableScanItem list \<Rightarrow> GroupState \<Rightarrow> bool" where
  "members_inv windows ctx items st \<longleftrightarrow>
     (\<forall>g<length (gp_groups st). mid_present (gp_bound_mid st ! g) = gp_bound_mid st ! g \<and>
        (sc_mid (items ! hd (gp_groups st ! g)) = None \<or>
         sc_mid (items ! hd (gp_groups st ! g)) = gp_bound_mid st ! g) \<and>
        (\<forall>i\<in>set (gp_groups st ! g).
           member_ok windows ctx items (gp_bound_mid st ! g) (hd (gp_groups st ! g))
             (gp_bound_by st ! i) i))"

subsection \<open>Keys of well-formed candidates\<close>

definition wf_scan :: "bool \<Rightarrow> RecoverableScanItem \<Rightarrow> bool" where
  "wf_scan windows item \<longleftrightarrow>
     wf_str (path_key windows item) \<and> 0 \<notin> set (path_key windows item) \<and>
     length (sc_content_hash item) = 32 \<and>
     (\<forall>h. sc_strong_content_hash item = Some h \<longrightarrow> length h = 32)"

lemma keep_scope_prefix_eq: "keep_scope_prefix windows ctx item = scope_prefix ctx (path_key windows item)"
  by (simp add: keep_scope_prefix_def scope_prefix_def)

lemma keep_mid_key_eq: "keep_mid_key windows ctx item m = mid_key ctx (path_key windows item) m"
  by (simp add: keep_mid_key_def mid_key_def keep_scope_prefix_eq)

lemma keep_hash_key_eq:
  "keep_hash_key windows ctx item = hash_map_key ctx (path_key windows item) (sc_bind_hash item (gx_identity ctx))"
  by (simp add: keep_hash_key_def hash_map_key_def keep_scope_prefix_eq)

lemma length_sc_bind_hash: "wf_scan windows item \<Longrightarrow> length (sc_bind_hash item l) = 32"
  by (auto simp: sc_bind_hash_def wf_scan_def split: option.splits)

lemma keep_mid_key_iff:
  "wf_scan windows a \<Longrightarrow> wf_scan windows b \<Longrightarrow>
   keep_mid_key windows ctx a m = keep_mid_key windows ctx b n \<longleftrightarrow>
     keep_scope_prefix windows ctx a = keep_scope_prefix windows ctx b \<and> m = n"
  by (simp add: keep_mid_key_eq keep_scope_prefix_eq mid_key_source wf_scan_def)

lemma keep_hash_key_iff:
  "wf_scan windows a \<Longrightarrow> wf_scan windows b \<Longrightarrow>
   keep_hash_key windows ctx a = keep_hash_key windows ctx b \<longleftrightarrow>
     keep_scope_prefix windows ctx a = keep_scope_prefix windows ctx b \<and>
     sc_bind_hash a (gx_identity ctx) = sc_bind_hash b (gx_identity ctx)"
  using length_sc_bind_hash [of windows a "gx_identity ctx"] length_sc_bind_hash [of windows b "gx_identity ctx"]
  by (simp add: keep_hash_key_eq keep_scope_prefix_eq hash_map_key_source wf_scan_def)

subsection \<open>The invariant is kept\<close>

lemma keep_join_fields [simp]:
  "gp_groups (keep_join i g bb st) = (gp_groups st)[g := gp_groups st ! g @ [i]]"
  "gp_bound_mid (keep_join i g bb st) = gp_bound_mid st" "gp_fp (keep_join i g bb st) = gp_fp st"
  "gp_bind_hash (keep_join i g bb st) = gp_bind_hash st"
  "gp_mid_to_group (keep_join i g bb st) = gp_mid_to_group st"
  "gp_hash_to_group (keep_join i g bb st) = gp_hash_to_group st"
  "gp_bound_by (keep_join i g bb st) = (gp_bound_by st)[i := bb]"
  by (simp_all add: keep_join_def)

lemma keep_adopt_fields [simp]:
  "gp_groups (keep_adopt_mid w ctx item st g nb) = gp_groups st"
  "gp_fp (keep_adopt_mid w ctx item st g nb) = gp_fp st"
  "gp_bind_hash (keep_adopt_mid w ctx item st g nb) = gp_bind_hash st"
  "gp_hash_to_group (keep_adopt_mid w ctx item st g nb) = gp_hash_to_group st"
  "gp_bound_by (keep_adopt_mid w ctx item st g nb) = gp_bound_by st"
  "length (gp_bound_mid (keep_adopt_mid w ctx item st g nb)) = length (gp_bound_mid st)"
  by (simp_all add: keep_adopt_mid_def Let_def split: option.splits)

lemma keep_seed_fields [simp]:
  "gp_groups (keep_seed w ctx i item el st) = gp_groups st @ [[i]]"
  "gp_bound_mid (keep_seed w ctx i item el st) = gp_bound_mid st @ [sc_mid item]"
  "gp_fp (keep_seed w ctx i item el st) = gp_fp st @ [(sc_fp_body item, sc_fp_header item,
     sc_fp_recipients item, sc_fp_attachments item)]"
  "gp_bind_hash (keep_seed w ctx i item el st) = gp_bind_hash st @ [sc_bind_hash item (gx_identity ctx)]"
  "gp_bound_by (keep_seed w ctx i item el st) = (gp_bound_by st)[i := Seed]"
  by (simp_all add: keep_seed_def Let_def)

lemma group_inv_core [simp]: "group_inv w ctx items k (core st) = group_inv w ctx items k st"
  by (simp add: group_inv_def)

lemma members_inv_core [simp]: "members_inv w ctx items (core st) = members_inv w ctx items st"
  by (simp add: members_inv_def)

lemma keep_adopt_bound:
  "g < length (gp_bound_mid st) \<Longrightarrow>
   gp_bound_mid (keep_adopt_mid w ctx item st g nb) ! h =
     (if h = g \<and> gp_bound_mid st ! g = None then nb else gp_bound_mid st ! h)"
  by (cases nb) (auto simp: keep_adopt_mid_def Let_def nth_list_update)

lemma keep_adopt_mid_to_group:
  "gp_mid_to_group (keep_adopt_mid w ctx item st g nb) key = Some h \<Longrightarrow>
   gp_mid_to_group st key = Some h \<or>
   (\<exists>m. nb = Some m \<and> gp_bound_mid st ! g = None \<and> key = keep_mid_key w ctx item m \<and> h = g)"
  by (auto simp: keep_adopt_mid_def Let_def split: option.splits if_splits)

lemma group_inv_midD:
  assumes "group_inv w ctx items k st" and "gp_mid_to_group st key = Some g"
  obtains m where "g < length (gp_groups st)" "gp_bound_mid st ! g = Some m"
    "key = keep_mid_key w ctx (items ! hd (gp_groups st ! g)) m"
  using assms unfolding group_inv_def by blast

lemma group_inv_join:
  assumes "group_inv w ctx items k st" and "g < length (gp_groups st)"
  shows "group_inv w ctx items (Suc k) (keep_join k g bb st)"
proof -
  from assms(1) have gr: "grouping_of k (gp_groups st)" by (simp add: group_inv_def)
  have hd: "hd ((gp_groups st)[g := gp_groups st ! g @ [k]] ! h) = hd (gp_groups st ! h)"
    if "h < length (gp_groups st)" for h
    using hd_append_update [OF assms(2) grouping_of_nonempty [OF gr assms(2)] that] .
  show ?thesis
    using assms grouping_of_join [OF gr assms(2)] hd unfolding group_inv_def by auto
qed

lemma group_inv_adopt:
  assumes inv: "group_inv w ctx items k st" and g: "g < length (gp_groups st)"
    and scope: "keep_scope_prefix w ctx item = keep_scope_prefix w ctx (items ! hd (gp_groups st ! g))"
  shows "group_inv w ctx items k (keep_adopt_mid w ctx item st g nb)"
proof -
  let ?st = "keep_adopt_mid w ctx item st g nb"
  have len: "length (gp_bound_mid st) = length (gp_groups st)" using inv by (simp add: group_inv_def)
  have "h < length (gp_groups st) \<and> (\<exists>m. key = keep_mid_key w ctx (items ! hd (gp_groups st ! h)) m \<and>
      gp_bound_mid ?st ! h = Some m)" if "gp_mid_to_group ?st key = Some h" for key h
  proof -
    from keep_adopt_mid_to_group [OF that] show ?thesis
    proof
      assume "gp_mid_to_group st key = Some h"
      with inv have "h < length (gp_groups st)"
        "\<exists>m. key = keep_mid_key w ctx (items ! hd (gp_groups st ! h)) m \<and> gp_bound_mid st ! h = Some m"
        by (auto simp: group_inv_def)
      with len g show ?thesis by (auto simp: keep_adopt_bound)
    qed (use len g scope in \<open>auto simp: keep_adopt_bound keep_mid_key_def\<close>)
  qed
  with inv show ?thesis by (simp add: group_inv_def)
qed

lemma group_inv_seed:
  assumes inv: "group_inv w ctx items k st" and k: "k < length items"
  shows "group_inv w ctx items (Suc k) (keep_seed w ctx k (items ! k) (keep_eligible w ctx (items ! k)) st)"
proof -
  have len: "length (gp_bound_mid st) = length (gp_groups st)" using inv by (simp add: group_inv_def)
  from inv have gr: "grouping_of k (gp_groups st)" by (simp add: group_inv_def)
  show ?thesis
    using inv len grouping_of_seed [OF gr] k unfolding group_inv_def
    by (auto simp: keep_seed_def Let_def nth_append intro: less_SucI split: option.splits if_splits)
qed

text \<open>
  Which group an item may join: the relation between the item, the group's first member and the
  recorded provenance, before the item's own Message-ID is taken over.
\<close>

lemma members_inv_join:
  assumes inv: "group_inv w ctx items k st" and mem: "members_inv w ctx items st"
    and g: "g < length (gp_groups st)" and k: "k < length items"
    and ok: "member_ok w ctx items (gp_bound_mid st ! g) (hd (gp_groups st ! g)) bb k"
  shows "members_inv w ctx items (keep_join k g bb st)"
proof -
  let ?gs = "gp_groups st"
  from inv have gr: "grouping_of k ?gs" and len: "length (gp_bound_by st) = length items"
    by (simp_all add: group_inv_def)
  have hd: "hd (?gs[g := ?gs ! g @ [k]] ! h) = hd (?gs ! h)" if "h < length ?gs" for h
    using hd_append_update [OF g grouping_of_nonempty [OF gr g] that] .
  have old: "(gp_bound_by st)[k := bb] ! i = gp_bound_by st ! i"
    if "h < length ?gs" "i \<in> set (?gs ! h)" for h i
    using grouping_of_less [OF gr that] by simp
  show ?thesis
    unfolding members_inv_def
  proof (intro allI impI)
    fix h assume "h < length (gp_groups (keep_join k g bb st))"
    then have h: "h < length ?gs" by simp
    from mem h have m: "mid_present (gp_bound_mid st ! h) = gp_bound_mid st ! h"
      "sc_mid (items ! hd (?gs ! h)) = None \<or> sc_mid (items ! hd (?gs ! h)) = gp_bound_mid st ! h"
      "\<forall>i\<in>set (?gs ! h). member_ok w ctx items (gp_bound_mid st ! h) (hd (?gs ! h)) (gp_bound_by st ! i) i"
      by (simp_all add: members_inv_def)
    have "\<forall>i\<in>set (?gs[g := ?gs ! g @ [k]] ! h).
        member_ok w ctx items (gp_bound_mid st ! h) (hd (?gs ! h)) ((gp_bound_by st)[k := bb] ! i) i"
      using m(3) old [OF h] ok g k len by (cases "h = g") auto
    with m hd [OF h] show "mid_present (gp_bound_mid (keep_join k g bb st) ! h) = gp_bound_mid (keep_join k g bb st) ! h \<and>
      (sc_mid (items ! hd (gp_groups (keep_join k g bb st) ! h)) = None \<or>
       sc_mid (items ! hd (gp_groups (keep_join k g bb st) ! h)) = gp_bound_mid (keep_join k g bb st) ! h) \<and>
      (\<forall>i\<in>set (gp_groups (keep_join k g bb st) ! h).
         member_ok w ctx items (gp_bound_mid (keep_join k g bb st) ! h) (hd (gp_groups (keep_join k g bb st) ! h))
           (gp_bound_by (keep_join k g bb st) ! i) i)"
      by simp
  qed
qed

text \<open>
  Taking over a Message-ID: a group without one has only members without one when the
  cross-Message-ID guard is on, so the new value conflicts with nobody.
\<close>

lemma member_ok_adopt:
  "member_ok w ctx items None seed bb i \<Longrightarrow> member_ok w ctx items nb seed bb i"
  by (auto simp: member_ok_def)

lemma members_inv_adopt:
  assumes inv: "group_inv w ctx items k st" and mem: "members_inv w ctx items st"
    and g: "g < length (gp_groups st)" and nb: "mid_present nb = nb"
  shows "members_inv w ctx items (keep_adopt_mid w ctx item st g nb)"
proof -
  have len: "g < length (gp_bound_mid st)" using inv g by (simp add: group_inv_def)
  show ?thesis
    using mem nb member_ok_adopt by (auto simp: members_inv_def keep_adopt_bound [OF len])
qed

lemma member_ok_seed: "member_ok w ctx items (sc_mid (items ! k)) k Seed k"
  by (simp add: member_ok_def)

lemma members_inv_seed:
  assumes inv: "group_inv w ctx items k st" and mem: "members_inv w ctx items st" and k: "k < length items"
  shows "members_inv w ctx items (keep_seed w ctx k (items ! k) el st)"
proof -
  let ?gs = "gp_groups st"
  from inv have gr: "grouping_of k ?gs" and len: "length (gp_bound_by st) = length items"
    "length (gp_bound_mid st) = length ?gs" by (simp_all add: group_inv_def)
  have old: "(gp_bound_by st)[k := Seed] ! i = gp_bound_by st ! i"
    if "h < length ?gs" "i \<in> set (?gs ! h)" for h i
    using grouping_of_less [OF gr that] by simp
  show ?thesis
    using mem old len k by (auto simp: members_inv_def nth_append member_ok_seed less_Suc_eq)
qed

lemma group_step_inv:
  assumes inv: "group_inv w ctx items k st" and mem: "members_inv w ctx items st"
    and k: "k < length items" and wf: "\<forall>x\<in>set items. wf_scan w x"
  shows "group_inv w ctx items (Suc k) (group_step w ctx (k, items ! k) st) \<and>
    members_inv w ctx items (group_step w ctx (k, items ! k) st)"
proof -
  let ?item = "items ! k" and ?gs = "gp_groups st"
  let ?place = "keep_place w ctx k ?item (keep_eligible w ctx ?item) (core st)"
  from inv have gr: "grouping_of k ?gs" by (simp add: group_inv_def)
  have wf_hd: "wf_scan w (items ! hd (?gs ! g))" if "g < length ?gs" for g
  proof -
    from grouping_of_nonempty [OF gr that] grouping_of_less [OF gr that] k
    have "hd (?gs ! g) < length items" using hd_in_set by fastforce
    with wf show ?thesis by simp
  qed
  have wf_k: "wf_scan w ?item" using wf k by simp
  have ne_seed: "k \<noteq> hd (?gs ! g)" if "g < length ?gs" for g
    using grouping_of_less [OF gr that] grouping_of_nonempty [OF gr that] hd_in_set by fastforce
  have "group_inv w ctx items (Suc k) (core ?place) \<and> members_inv w ctx items (core ?place)"
  proof (rule keep_place_cases [of ?item "core st" w ctx k "keep_eligible w ctx ?item"])
    fix m g
    assume mid: "sc_mid ?item = Some m"
      and found: "gp_mid_to_group (core st) (keep_mid_key w ctx ?item m) = Some g"
      and place: "core ?place = keep_join k g ByMessageId (core (core st))"
    from inv found obtain m' where g: "g < length ?gs" and b: "gp_bound_mid st ! g = Some m'"
      and key: "keep_mid_key w ctx ?item m = keep_mid_key w ctx (items ! hd (?gs ! g)) m'"
      using group_inv_midD [OF inv, of "keep_mid_key w ctx ?item m" g] by auto
    from key wf_k wf_hd [OF g] have "member_ok w ctx items (gp_bound_mid st ! g) (hd (?gs ! g)) ByMessageId k"
      using mid b ne_seed [OF g] by (simp add: keep_mid_key_iff member_ok_def)
    with inv mem g k place show ?thesis
      using group_inv_join [of w ctx items k "core st" g] members_inv_join [of w ctx items k "core st" g]
      by simp
  next
    fix g nb
    assume el: "keep_eligible w ctx ?item"
      and found: "gp_hash_to_group (core st) (keep_hash_key w ctx ?item) = Some g"
      and ok: "mid_join_compatible (gp_bound_mid (core st) ! g) (sc_mid ?item) (block_cross_mid ctx) = (True, nb)"
      and place: "core ?place = keep_join k g (keep_hash_bind ctx) (keep_adopt_mid w ctx ?item (core (core st)) g nb)"
    from inv found have g: "g < length ?gs" and el': "keep_eligible w ctx (items ! hd (?gs ! g))"
      and key: "keep_hash_key w ctx ?item = keep_hash_key w ctx (items ! hd (?gs ! g))"
      by (auto simp: group_inv_def)
    let ?st = "keep_adopt_mid w ctx ?item (core st) g nb"
    have len: "g < length (gp_bound_mid st)" using inv g by (simp add: group_inv_def)
    from key wf_k wf_hd [OF g]
    have scope: "keep_scope_prefix w ctx ?item = keep_scope_prefix w ctx (items ! hd (?gs ! g))"
      and hash: "sc_bind_hash ?item (gx_identity ctx) = sc_bind_hash (items ! hd (?gs ! g)) (gx_identity ctx)"
      by (simp_all add: keep_hash_key_iff)
    have pres: "mid_present (gp_bound_mid st ! g) = gp_bound_mid st ! g"
      using mem g by (simp add: members_inv_def)
    have nb: "nb = (if gp_bound_mid st ! g = None then sc_mid ?item else gp_bound_mid st ! g)"
      using mid_join_bound [OF ok] pres by simp
    have "gp_bound_mid ?st ! g = nb" using len nb by (auto simp: keep_adopt_bound)
    moreover have "block_cross_mid ctx \<longrightarrow> sc_mid ?item = None \<or> sc_mid ?item = nb"
      using mid_join_ok_iff [of "gp_bound_mid st ! g" "sc_mid ?item" "block_cross_mid ctx"] ok pres nb by auto
    ultimately have "member_ok w ctx items (gp_bound_mid ?st ! g) (hd (gp_groups ?st ! g)) (keep_hash_bind ctx) k"
      using scope hash el el' ne_seed [OF g] by (simp add: member_ok_def)
    moreover have "group_inv w ctx items k ?st" using inv g scope by (intro group_inv_adopt) simp_all
    moreover have "members_inv w ctx items ?st"
      using inv mem g nb pres by (intro members_inv_adopt [of _ _ _ k]) (simp_all split: if_splits)
    ultimately show ?thesis
      using g k place group_inv_join [of w ctx items k ?st g] members_inv_join [of w ctx items k ?st g] by simp
  next
    assume "core ?place = keep_seed w ctx k ?item (keep_eligible w ctx ?item) (core (core st))"
    then show ?thesis
      using group_inv_seed [of w ctx items k "core st"] members_inv_seed [of w ctx items k "core st"] inv mem k by simp
  qed
  then show ?thesis by (metis group_inv_core group_step_core members_inv_core)
qed

lemma group_loop_inv:
  assumes "\<forall>x\<in>set items. wf_scan w x"
  shows "group_inv w ctx items (length items) (group_loop w ctx items) \<and>
    members_inv w ctx items (group_loop w ctx items)"
  unfolding group_loop_def
proof (rule fold_enumerate_inv)
  show "group_inv w ctx items 0 (group_init (length items)) \<and> members_inv w ctx items (group_init (length items))"
    by (simp add: group_inv_def members_inv_def group_init_def grouping_of_def)
qed (use group_step_inv assms in blast)

lemma group_loop_grouping:
  assumes "\<forall>x\<in>set items. wf_scan w x"
  shows "grouping_of (length items) (gp_groups (group_loop w ctx items))"
  using group_loop_inv [OF assms] by (simp add: group_inv_def)

text \<open>
  With Tier-1 verification off, a group's Message-ID always leads back to the group.
\<close>

definition mid_registered ::
  "bool \<Rightarrow> GroupingContext \<Rightarrow> RecoverableScanItem list \<Rightarrow> GroupState \<Rightarrow> bool" where
  "mid_registered w ctx items st \<longleftrightarrow>
     (\<forall>g<length (gp_groups st). \<forall>m. gp_bound_mid st ! g = Some m \<longrightarrow>
        gp_mid_to_group st (keep_mid_key w ctx (items ! hd (gp_groups st ! g)) m) = Some g)"

lemma mid_registered_core [simp]: "mid_registered w ctx items (core st) = mid_registered w ctx items st"
  by (simp add: mid_registered_def)

lemma group_step_registered:
  assumes inv: "group_inv w ctx items k st" and mem: "members_inv w ctx items st"
    and reg: "mid_registered w ctx items st"
    and k: "k < length items" and wf: "\<forall>x\<in>set items. wf_scan w x" and off: "gx_tier1_verify ctx = TvOff"
  shows "mid_registered w ctx items (group_step w ctx (k, items ! k) st)"
proof -
  let ?item = "items ! k" and ?gs = "gp_groups st"
  let ?place = "keep_place w ctx k ?item (keep_eligible w ctx ?item) (core st)"
  from inv have gr: "grouping_of k ?gs" and len: "length (gp_bound_mid st) = length ?gs"
    by (simp_all add: group_inv_def)
  have hd: "hd (?gs[g := ?gs ! g @ [k]] ! h) = hd (?gs ! h)" if "g < length ?gs" "h < length ?gs" for g h
    using hd_append_update [OF that(1) grouping_of_nonempty [OF gr that(1)] that(2)] .
  have fresh: "gp_mid_to_group st (keep_mid_key w ctx ?item m) = None"
    if "\<And>g. gp_mid_to_group (core st) (keep_mid_key w ctx ?item m) = Some g \<Longrightarrow>
         keep_split_tier1 ctx (core st) g ?item" for m
    using that off by (cases "gp_mid_to_group st (keep_mid_key w ctx ?item m)") (auto simp: keep_split_tier1_def)
  have "mid_registered w ctx items (core ?place)"
  proof (rule keep_place_cases [of ?item "core st" w ctx k "keep_eligible w ctx ?item"])
    fix m g
    assume "gp_mid_to_group (core st) (keep_mid_key w ctx ?item m) = Some g"
      and place: "core ?place = keep_join k g ByMessageId (core (core st))"
    with inv have "g < length ?gs" using group_inv_midD by fastforce
    with reg hd place show ?thesis by (auto simp: mid_registered_def)
  next
    fix g nb
    assume found: "gp_hash_to_group (core st) (keep_hash_key w ctx ?item) = Some g"
      and ok: "mid_join_compatible (gp_bound_mid (core st) ! g) (sc_mid ?item) (block_cross_mid ctx) = (True, nb)"
      and place: "core ?place = keep_join k g (keep_hash_bind ctx) (keep_adopt_mid w ctx ?item (core (core st)) g nb)"
      and miss: "\<And>m g. sc_mid ?item = Some m \<Longrightarrow>
         gp_mid_to_group (core st) (keep_mid_key w ctx ?item m) = Some g \<Longrightarrow> keep_split_tier1 ctx (core st) g ?item"
    from inv found have g: "g < length ?gs"
      and key: "keep_hash_key w ctx ?item = keep_hash_key w ctx (items ! hd (?gs ! g))"
      by (auto simp: group_inv_def)
    have "hd (?gs ! g) < length items"
      using grouping_of_less [OF gr g] grouping_of_nonempty [OF gr g] k hd_in_set by fastforce
    with wf k key have scope: "keep_scope_prefix w ctx ?item = keep_scope_prefix w ctx (items ! hd (?gs ! g))"
      by (simp add: keep_hash_key_iff)
    show ?thesis
    proof (cases "gp_bound_mid st ! g = None \<and> nb \<noteq> None")
      case False
      then have "keep_adopt_mid w ctx ?item (core st) g nb = core st"
        by (cases nb) (auto simp: keep_adopt_mid_def)
      with reg hd g place show ?thesis by (auto simp: mid_registered_def)
    next
      case True
      with mid_join_bound [OF ok] have "nb = sc_mid ?item" by simp
      with True obtain m where m: "nb = Some m" "sc_mid ?item = Some m" by force
      have none: "gp_mid_to_group st (keep_mid_key w ctx ?item m) = None"
        by (rule fresh) (rule miss [OF m(2)])
      with True m reg hd g len scope place show ?thesis
        by (auto simp: mid_registered_def keep_adopt_mid_def Let_def nth_list_update keep_mid_key_def)
    qed
  next
    assume place: "core ?place = keep_seed w ctx k ?item (keep_eligible w ctx ?item) (core (core st))"
      and miss: "\<And>m g. sc_mid ?item = Some m \<Longrightarrow>
         gp_mid_to_group (core st) (keep_mid_key w ctx ?item m) = Some g \<Longrightarrow> keep_split_tier1 ctx (core st) g ?item"
    have "gp_mid_to_group st (keep_mid_key w ctx ?item m) = None" if "sc_mid ?item = Some m" for m
      by (rule fresh) (rule miss [OF that])
    with reg len place show ?thesis
      by (cases "sc_mid ?item") (auto simp: mid_registered_def keep_seed_def Let_def nth_append less_Suc_eq)
  qed
  then show ?thesis by (metis group_step_core mid_registered_core)
qed

lemma group_loop_registered:
  assumes "\<forall>x\<in>set items. wf_scan w x" and "gx_tier1_verify ctx = TvOff"
  shows "mid_registered w ctx items (group_loop w ctx items)"
proof -
  have "group_inv w ctx items (length items) (group_loop w ctx items) \<and>
      members_inv w ctx items (group_loop w ctx items) \<and> mid_registered w ctx items (group_loop w ctx items)"
    unfolding group_loop_def
  proof (rule fold_enumerate_inv)
    show "group_inv w ctx items 0 (group_init (length items)) \<and>
        members_inv w ctx items (group_init (length items)) \<and> mid_registered w ctx items (group_init (length items))"
      by (simp add: group_inv_def members_inv_def mid_registered_def group_init_def grouping_of_def)
  qed (use group_step_inv group_step_registered assms in blast)
  then show ?thesis by blast
qed

subsection \<open>Properties of the grouping without backfill\<close>

lemma outcome_no_backfill:
  assumes "\<not> gx_tier1_backfill ctx"
  shows "go_groups (group_candidates_with_stats w ctx items) = gp_groups (group_loop w ctx items)"
    and "go_bound_by (group_candidates_with_stats w ctx items) = gp_bound_by (group_loop w ctx items)"
  using assms
  by (simp_all add: group_candidates_with_stats_def apply_tier1_backfill_pass_def Let_def split_beta)

text \<open>
  C3: with the cross-Message-ID guard on and backfill off, two messages of one group never carry
  different Message-IDs, and in per-source scope they always come from the same source file.
\<close>

theorem groups_never_mix_mids:
  assumes "\<forall>x\<in>set items. wf_scan w x" and "\<not> gx_tier1_backfill ctx"
    and "g \<in> set (go_groups (group_candidates_with_stats w ctx items))" and "i \<in> set g" and "j \<in> set g"
  shows "(block_cross_mid ctx \<and> sc_mid (items ! i) = Some m \<and> sc_mid (items ! j) = Some n \<longrightarrow> m = n) \<and>
    (gx_scope ctx = PerSource \<longrightarrow> path_key w (items ! i) = path_key w (items ! j))"
proof -
  let ?st = "group_loop w ctx items"
  from assms(2,3) obtain h where h: "h < length (gp_groups ?st)" "g = gp_groups ?st ! h"
    by (auto simp: outcome_no_backfill in_set_conv_nth)
  from group_loop_inv [OF assms(1), of ctx] h have
    "\<forall>i\<in>set g. member_ok w ctx items (gp_bound_mid ?st ! h) (hd g) (gp_bound_by ?st ! i) i"
    by (simp add: members_inv_def)
  with assms(4,5) have "member_ok w ctx items (gp_bound_mid ?st ! h) (hd g) (gp_bound_by ?st ! i) i"
    "member_ok w ctx items (gp_bound_mid ?st ! h) (hd g) (gp_bound_by ?st ! j) j" by blast+
  note m = this [THEN member_ok_mid] and s = this [THEN member_ok_scope]
  have "m = n" if "block_cross_mid ctx" "sc_mid (items ! i) = Some m" "sc_mid (items ! j) = Some n"
    using m(1) [OF that(1,2)] m(2) [OF that(1,3)] by simp
  moreover have "path_key w (items ! i) = path_key w (items ! j)" if "gx_scope ctx = PerSource"
    using s that by (simp add: keep_scope_prefix_def)
  ultimately show ?thesis by blast
qed


text \<open>
  C25: with Tier-1 verification off, the cross-Message-ID guard on and backfill off, all messages
  with the same Message-ID in the same scope end up in one group.
\<close>

theorem same_mid_same_group:
  assumes "\<forall>x\<in>set items. wf_scan w x" and "\<not> gx_tier1_backfill ctx"
    and "gx_tier1_verify ctx = TvOff" and "block_cross_mid ctx"
    and "i < length items" and "j < length items"
    and "sc_mid (items ! i) = Some m" and "sc_mid (items ! j) = Some m"
    and "gx_scope ctx = Global \<or> path_key w (items ! i) = path_key w (items ! j)"
  shows "\<exists>g\<in>set (go_groups (group_candidates_with_stats w ctx items)). i \<in> set g \<and> j \<in> set g"
proof -
  let ?st = "group_loop w ctx items"
  note inv = group_loop_inv [OF assms(1), of ctx]
  have gr: "grouping_of (length items) (gp_groups ?st)" by (rule group_loop_grouping [OF assms(1)])
  have found: "gp_mid_to_group ?st (keep_mid_key w ctx (items ! x) m) = Some h"
    if "h < length (gp_groups ?st)" "x \<in> set (gp_groups ?st ! h)" "sc_mid (items ! x) = Some m" for h x
  proof -
    from inv that have "member_ok w ctx items (gp_bound_mid ?st ! h) (hd (gp_groups ?st ! h)) (gp_bound_by ?st ! x) x"
      by (simp add: members_inv_def)
    with assms(4) that(3) have "gp_bound_mid ?st ! h = Some m"
      "keep_scope_prefix w ctx (items ! x) = keep_scope_prefix w ctx (items ! hd (gp_groups ?st ! h))"
      by (auto simp: member_ok_def)
    with group_loop_registered [OF assms(1,3)] that(1) show ?thesis
      by (simp add: mid_registered_def keep_mid_key_def)
  qed
  obtain g where g: "g < length (gp_groups ?st)" "i \<in> set (gp_groups ?st ! g)"
    using grouping_of_ex [OF gr assms(5)] .
  obtain h where h: "h < length (gp_groups ?st)" "j \<in> set (gp_groups ?st ! h)"
    using grouping_of_ex [OF gr assms(6)] .
  have "keep_mid_key w ctx (items ! i) m = keep_mid_key w ctx (items ! j) m"
    using assms(9) by (auto simp: keep_mid_key_def keep_scope_prefix_def split: DedupeScope.splits)
  with found [OF g assms(7)] found [OF h assms(8)] have "g = h" by simp
  with g h show ?thesis using assms(2) nth_mem by (fastforce simp: outcome_no_backfill)
qed

end
