(* ===== verification/Keep_Backfill.thy ===== *)
theory Keep_Backfill
  imports Keep_Grouping
begin

text \<open>
  What the backfill pass of \<open>Keep_Grouping\<close> does to a grouping: the result is again a grouping
  of all items, two items share a group afterwards exactly when their old groups are linked by
  the edges the pass collects, and the number of merged groups is what the counter reports.
\<close>

subsection \<open>Rebuilding groups from the forest\<close>

text \<open>After \<open>j\<close> old groups: every new group is the union of the old ones with one root.\<close>

definition rebuild_forest :: "nat list \<Rightarrow> Rebuild \<Rightarrow> bool" where
  "rebuild_forest parent rb \<longleftrightarrow>
     uf_forest (rb_parent rb) \<and> length (rb_parent rb) = length parent \<and>
     (\<forall>x r. uf_root (rb_parent rb) x r \<longleftrightarrow> uf_root parent x r)"

definition rebuild_map :: "nat list \<Rightarrow> nat list list \<Rightarrow> nat \<Rightarrow> Rebuild \<Rightarrow> bool" where
  "rebuild_map parent groups j rb \<longleftrightarrow>
     inj_on (rb_root_to_new rb) (dom (rb_root_to_new rb)) \<and>
     ran (rb_root_to_new rb) = {..<length (rb_groups rb)} \<and>
     dom (rb_root_to_new rb) = {r. \<exists>k<j. uf_root parent k r} \<and>
     (\<forall>r g. rb_root_to_new rb r = Some g \<longrightarrow>
        set (rb_groups rb ! g) = (\<Union>k\<in>{k. k < j \<and> uf_root parent k r}. set (groups ! k)))"

definition rebuild_shape :: "nat list list \<Rightarrow> nat \<Rightarrow> Rebuild \<Rightarrow> bool" where
  "rebuild_shape groups j rb \<longleftrightarrow>
     mset (concat (rb_groups rb)) = mset (concat (take j groups)) \<and>
     (\<forall>g\<in>set (rb_groups rb). g \<noteq> [] \<and> hd g \<in> hd ` set (take j groups) \<and> (\<forall>i\<in>set g. hd g \<le> i)) \<and>
     sorted_wrt (<) (map hd (rb_groups rb))"

lemma rebuild_step_old:
  assumes "uf_find (rb_parent rb) o' = (p, r)" and "rb_root_to_new rb r = Some g"
  shows "rb_parent (rebuild_step bounds (o', members) rb) = p"
    and "rb_root_to_new (rebuild_step bounds (o', members) rb) = rb_root_to_new rb"
    and "rb_groups (rebuild_step bounds (o', members) rb) = (rb_groups rb)[g := rb_groups rb ! g @ members]"
    and "length (rb_bounds (rebuild_step bounds (o', members) rb)) = length (rb_bounds rb)"
  using assms by (auto simp: rebuild_step_def Let_def split: option.splits)

lemma rebuild_step_new:
  assumes "uf_find (rb_parent rb) o' = (p, r)" and "rb_root_to_new rb r = None"
  shows "rb_parent (rebuild_step bounds (o', members) rb) = p"
    and "rb_root_to_new (rebuild_step bounds (o', members) rb) = (rb_root_to_new rb)(r \<mapsto> length (rb_groups rb))"
    and "rb_groups (rebuild_step bounds (o', members) rb) = rb_groups rb @ [members]"
    and "length (rb_bounds (rebuild_step bounds (o', members) rb)) = Suc (length (rb_bounds rb))"
  using assms by (auto simp: rebuild_step_def Let_def split: option.splits)

lemma rebuild_find:
  assumes "rebuild_forest parent rb" and "k < length parent" and "uf_find (rb_parent rb) k = (p, r)"
  shows "uf_forest p" "length p = length parent" "uf_root parent k r"
    "\<And>x s. uf_root p x s \<longleftrightarrow> uf_root parent x s"
  using assms uf_find_root [of "rb_parent rb" k p r] by (simp_all add: rebuild_forest_def)

lemma rebuild_forest_step:
  assumes "rebuild_forest parent rb" and "k < length parent"
  shows "rebuild_forest parent (rebuild_step bounds (k, members) rb)"
proof -
  obtain p r where f: "uf_find (rb_parent rb) k = (p, r)" by fastforce
  have "rb_parent (rebuild_step bounds (k, members) rb) = p"
    using f by (cases "rb_root_to_new rb r") (auto simp: rebuild_step_old rebuild_step_new)
  with rebuild_find [OF assms f] show ?thesis by (simp add: rebuild_forest_def)
qed

lemma rebuild_map_step:
  assumes "rebuild_forest parent rb" and "rebuild_map parent groups j rb" and "j < length parent"
  shows "rebuild_map parent groups (Suc j) (rebuild_step bounds (j, groups ! j) rb)"
proof -
  obtain p r where f: "uf_find (rb_parent rb) j = (p, r)" by fastforce
  have root: "uf_root parent j s \<longleftrightarrow> s = r" for s
    using rebuild_find(3) [OF assms(1,3) f] uf_root_unique by blast
  have dom_Suc: "{s. \<exists>k<Suc j. uf_root parent k s} = insert r {s. \<exists>k<j. uf_root parent k s}"
    using root by (auto simp: less_Suc_eq)
  have ks: "{k. k < Suc j \<and> uf_root parent k s} =
      (if s = r then insert j {k. k < j \<and> uf_root parent k s} else {k. k < j \<and> uf_root parent k s})" for s
    using root by (auto simp: less_Suc_eq)
  show ?thesis
  proof (cases "rb_root_to_new rb r")
    case (Some g)
    have g: "g < length (rb_groups rb)"
      using assms(2) Some by (auto simp: rebuild_map_def ran_def)
    have other: "h \<noteq> g" if "rb_root_to_new rb s = Some h" "s \<noteq> r" for s h
      using that assms(2) Some by (auto simp: rebuild_map_def inj_on_def dom_def)
    show ?thesis
      using assms(2) Some g other
      by (auto simp: rebuild_map_def rebuild_step_old [OF f Some] dom_Suc ks nth_list_update)
  next
    case None
    have bound: "h < length (rb_groups rb)" if "rb_root_to_new rb s = Some h" for s h
      using that assms(2) by (auto simp: rebuild_map_def ran_def)
    have empty: "{k. k < j \<and> uf_root parent k r} = {}"
    proof -
      from None have "r \<notin> dom (rb_root_to_new rb)" by blast
      then have "r \<notin> {r. \<exists>k<j. uf_root parent k r}" using assms(2) by (simp add: rebuild_map_def)
      then show ?thesis by blast
    qed
    have "inj_on ((rb_root_to_new rb)(r \<mapsto> length (rb_groups rb))) (insert r (dom (rb_root_to_new rb)))"
    proof (rule inj_onI)
      fix x y
      assume xy: "x \<in> insert r (dom (rb_root_to_new rb))" "y \<in> insert r (dom (rb_root_to_new rb))"
        and eq: "((rb_root_to_new rb)(r \<mapsto> length (rb_groups rb))) x =
          ((rb_root_to_new rb)(r \<mapsto> length (rb_groups rb))) y"
      show "x = y"
      proof (cases "x = r \<or> y = r")
        case True
        with eq bound show ?thesis by (metis fun_upd_apply less_irrefl)
      next
        case False
        moreover have "inj_on (rb_root_to_new rb) (dom (rb_root_to_new rb))"
          using assms(2) unfolding rebuild_map_def by blast
        ultimately show ?thesis using xy eq by (metis fun_upd_apply inj_onD insertE)
      qed
    qed
    moreover have "ran ((rb_root_to_new rb)(r \<mapsto> length (rb_groups rb))) = {..<Suc (length (rb_groups rb))}"
      using assms(2) None by (auto simp: rebuild_map_def)
    ultimately show ?thesis
      using assms(2) None bound empty
      by (auto simp: rebuild_map_def rebuild_step_new [OF f None] dom_Suc ks nth_append dest: bound)
  qed
qed

lemma rebuild_shape_step:
  assumes "rebuild_shape groups j rb" and "rebuild_forest parent rb" and "rebuild_map parent groups j rb"
    and "j < length parent" and "grouping_of n groups" and "j < length groups"
  shows "rebuild_shape groups (Suc j) (rebuild_step bounds (j, groups ! j) rb)"
proof -
  obtain p r where f: "uf_find (rb_parent rb) j = (p, r)" by fastforce
  have gj: "groups ! j \<noteq> []" "sorted_wrt (<) (groups ! j)" using assms(5,6) by (auto simp: grouping_of_def)
  then have low: "\<forall>i\<in>set (groups ! j). hd (groups ! j) \<le> i" by (cases "groups ! j") auto
  have hds: "sorted_wrt (<) (map hd groups)" using assms(5) by (simp add: grouping_of_def)
  have before: "x < hd (groups ! j)" if "x \<in> hd ` set (take j groups)" for x
  proof -
    from that obtain k where "k < j" "x = hd (groups ! k)"
      using assms(6) by (auto simp: in_set_conv_nth)
    with sorted_wrt_nth_less [OF hds, of k j] assms(6) show ?thesis by simp
  qed
  have tk: "take (Suc j) groups = take j groups @ [groups ! j]"
    using assms(6) by (rule take_Suc_conv_app_nth)
  show ?thesis
  proof (cases "rb_root_to_new rb r")
    case (Some g)
    have g: "g < length (rb_groups rb)" using assms(3) Some by (auto simp: rebuild_map_def ran_def)
    let ?new = "(rb_groups rb)[g := rb_groups rb ! g @ groups ! j]"
    have old: "rb_groups rb ! g \<noteq> []" "hd (rb_groups rb ! g) \<in> hd ` set (take j groups)"
      "\<forall>i\<in>set (rb_groups rb ! g). hd (rb_groups rb ! g) \<le> i"
      using assms(1) g nth_mem unfolding rebuild_shape_def by blast+
    have "hd (rb_groups rb ! g) \<le> i" if "i \<in> set (groups ! j)" for i
      using before [OF old(2)] low that by (meson le_trans less_imp_le)
    with old have "rb_groups rb ! g @ groups ! j \<noteq> [] \<and>
        hd (rb_groups rb ! g @ groups ! j) \<in> hd ` set (take (Suc j) groups) \<and>
        (\<forall>i\<in>set (rb_groups rb ! g @ groups ! j). hd (rb_groups rb ! g @ groups ! j) \<le> i)"
      by (auto simp: tk)
    moreover have "x \<noteq> [] \<and> hd x \<in> hd ` set (take (Suc j) groups) \<and> (\<forall>i\<in>set x. hd x \<le> i)"
      if "x \<in> set (rb_groups rb)" for x
      using assms(1) that by (auto simp: rebuild_shape_def tk)
    ultimately have "\<forall>x\<in>set ?new. x \<noteq> [] \<and> hd x \<in> hd ` set (take (Suc j) groups) \<and> (\<forall>i\<in>set x. hd x \<le> i)"
      using set_update_subset_insert [of "rb_groups rb" g "rb_groups rb ! g @ groups ! j"] by blast
    moreover have "map hd ?new = map hd (rb_groups rb)" using g old(1) by (rule map_hd_append_update)
    ultimately show ?thesis
      using assms(1) mset_concat_update [OF g, of "groups ! j"]
      by (simp add: rebuild_shape_def rebuild_step_old [OF f Some] tk)
  next
    case None
    have "hd x < hd (groups ! j)" if "x \<in> set (rb_groups rb)" for x
      using assms(1) that before by (auto simp: rebuild_shape_def)
    with assms(1) gj low show ?thesis
      by (auto simp: rebuild_shape_def rebuild_step_new [OF f None] tk sorted_wrt_append)
  qed
qed

lemma rebuild_groups_inv:
  assumes "uf_forest parent" and "length parent = length groups" and "grouping_of n groups"
  shows "rebuild_map parent groups (length groups) (rebuild_groups parent bounds groups)"
    and "rebuild_shape groups (length groups) (rebuild_groups parent bounds groups)"
proof -
  have "rebuild_forest parent (rebuild_groups parent bounds groups) \<and>
      rebuild_map parent groups (length groups) (rebuild_groups parent bounds groups) \<and>
      rebuild_shape groups (length groups) (rebuild_groups parent bounds groups)"
    unfolding rebuild_groups_def
  proof (rule fold_enumerate_inv)
    let ?rb = "\<lparr> rb_parent = parent, rb_root_to_new = Map.empty, rb_groups = [], rb_bounds = [] \<rparr>"
    show "rebuild_forest parent ?rb \<and> rebuild_map parent groups 0 ?rb \<and> rebuild_shape groups 0 ?rb"
      using assms(1) by (simp add: rebuild_forest_def rebuild_map_def rebuild_shape_def)
  qed (use rebuild_forest_step rebuild_map_step rebuild_shape_step assms in auto)
  then show "rebuild_map parent groups (length groups) (rebuild_groups parent bounds groups)"
    "rebuild_shape groups (length groups) (rebuild_groups parent bounds groups)" by blast+
qed

lemma sort_strict: "distinct xs \<Longrightarrow> sorted_wrt (<) (sort (xs :: nat list))"
  by (simp add: strict_sorted_iff)

lemma hd_sort_least:
  assumes "xs \<noteq> []" and "\<forall>i\<in>set xs. hd xs \<le> i"
  shows "hd (sort xs) = (hd xs :: nat)"
proof -
  have ne: "sort xs \<noteq> []" using assms(1) by (metis length_0_conv length_sort)
  have "hd (sort xs) \<le> hd xs"
    using sorted_sort [of xs] ne assms(1) by (cases "sort xs") (metis hd_in_set list.sel(1) list.set_cases
        order_refl set_ConsD set_sort sorted_simps(2))+
  moreover have "hd xs \<le> hd (sort xs)"
    using assms ne by (metis hd_in_set set_sort)
  ultimately show ?thesis by simp
qed

lemma rebuild_grouping:
  assumes "rebuild_shape groups (length groups) rb" and "grouping_of n groups"
  shows "grouping_of n (map sort (rb_groups rb))"
proof -
  let ?gs = "rb_groups rb"
  have ms: "mset (concat ?gs) = mset [0..<n]" using assms by (simp add: rebuild_shape_def grouping_of_def)
  have "mset (concat (map sort xs)) = mset (concat xs)" for xs :: "nat list list"
    by (induction xs) auto
  with ms have 1: "mset (concat (map sort ?gs)) = mset [0..<n]" by simp
  have "distinct (concat ?gs)" using ms by (metis distinct_upt mset_eq_imp_distinct_iff)
  then have "distinct g" if "g \<in> set ?gs" for g using that by (simp add: distinct_concat_iff)
  moreover have ne: "g \<noteq> []" if "g \<in> set ?gs" for g using assms(1) that by (simp add: rebuild_shape_def)
  ultimately have 2: "\<forall>g\<in>set (map sort ?gs). g \<noteq> [] \<and> sorted_wrt (<) g"
    using sort_strict by (auto dest: arg_cong [where f = length])
  have "map hd (map sort ?gs) = map hd ?gs"
    using assms(1) hd_sort_least by (auto simp: rebuild_shape_def)
  then have "sorted_wrt (<) (map hd (map sort ?gs))" using assms(1) by (simp only: rebuild_shape_def)
  with 1 2 show ?thesis unfolding grouping_of_def by blast
qed

subsection \<open>The edges\<close>

lemma set_pairs_of: "(a, b) \<in> set (pairs_of xs) \<Longrightarrow> a \<in> set xs \<and> b \<in> set xs"
  by (induction xs) auto

lemma item_gids_correct:
  assumes "grouping_of n groups" and "g < length groups" and "i \<in> set (groups ! g)"
  shows "item_gids n groups ! i = g"
proof -
  let ?f = "\<lambda>(gid, members) v. fold (\<lambda>i v. if i < length v then v[i := gid] else v) members v"
  have inner: "length (fold (\<lambda>i v. if i < length v then v[i := gid] else v) ms v) = length v \<and>
      (\<forall>i<length v. fold (\<lambda>i v. if i < length v then v[i := gid] else v) ms v ! i =
         (if i \<in> set ms then gid else v ! i))" for gid :: nat and ms v
    by (induction ms arbitrary: v) (auto simp: nth_list_update)
  define P where "P j v \<longleftrightarrow> length v = n \<and>
    (\<forall>g<j. g < length groups \<longrightarrow> (\<forall>i\<in>set (groups ! g). v ! i = g))" for j and v :: "nat list"
  have "P (length groups) (item_gids n groups)"
    unfolding item_gids_def
  proof (rule fold_enumerate_inv)
    fix k v assume k: "k < length groups" and ih: "P k v"
    have "fold (\<lambda>i v. if i < length v then v[i := k] else v) (groups ! k) v ! i = g"
      if "g < Suc k" "g < length groups" "i \<in> set (groups ! g)" for g i
      using that inner [of k "groups ! k" v] ih grouping_of_less [OF assms(1) that(2,3)]
        grouping_of_unique [OF assms(1) k that(2)] by (auto simp: less_Suc_eq P_def)
    with inner [of k "groups ! k" v] ih
    show "P (Suc k) (?f (k, groups ! k) v)" by (simp add: P_def)
  qed (simp add: P_def)
  then have "\<forall>g<length groups. \<forall>i\<in>set (groups ! g). item_gids n groups ! i = g"
    by (simp add: P_def)
  with assms(2,3) show ?thesis by blast
qed

lemma clusters_by_subset: "c \<in> set (clusters_by key idxs) \<Longrightarrow> set c \<subseteq> set idxs"
  by (auto simp: clusters_by_def)

lemma item_gids_less:
  assumes "grouping_of n groups" and "i < n"
  shows "item_gids n groups ! i < length groups"
  using grouping_of_ex [OF assms] item_gids_correct [OF assms(1)] by metis

lemma backfill_edges_bound:
  assumes "grouping_of (length items) groups"
  shows "\<forall>(a, b)\<in>set (backfill_edges w ctx items groups bounds). a < length groups \<and> b < length groups"
proof -
  let ?gid = "\<lambda>i. item_gids (length items) groups ! i"
  have "x < length groups" if "c \<in> set (backfill_clusters w ctx items)"
    and "x \<in> set (remdups_adj (sort (map ?gid c)))" for c x
    using that item_gids_less [OF assms] clusters_by_subset [of c]
    by (force simp: backfill_clusters_def)
  then show ?thesis
    by (auto simp: backfill_edges_def cluster_edges_def Let_def dest!: set_pairs_of split: if_splits)
qed

subsection \<open>The pass\<close>

abbreviation backfill_uf ::
  "bool \<Rightarrow> GroupingContext \<Rightarrow> RecoverableScanItem list \<Rightarrow> nat list list \<Rightarrow> str option list \<Rightarrow> uf \<times> nat" where
  "backfill_uf w ctx items groups bounds \<equiv>
     merge_all unite (uf_init (length groups)) (backfill_edges w ctx items groups bounds)"

lemma backfill_uf_facts:
  assumes "grouping_of (length items) groups"
  shows "uf_inv (length groups) (fst (backfill_uf w ctx items groups bounds))"
    and "uf_parts (fst (backfill_uf w ctx items groups bounds)) + snd (backfill_uf w ctx items groups bounds)
           = length groups"
    and "a < length groups \<Longrightarrow> uf_same (fst (backfill_uf w ctx items groups bounds)) a b \<longleftrightarrow>
           (a, b) \<in> linked (=) (set (backfill_edges w ctx items groups bounds)) \<and> b < length groups"
    and "snd (backfill_uf w ctx items groups bounds) = 0 \<Longrightarrow> a < length groups \<Longrightarrow>
           uf_same (fst (backfill_uf w ctx items groups bounds)) a b \<longleftrightarrow> a = b"
proof -
  note bnd = backfill_edges_bound [OF assms, of w ctx bounds]
  let ?es = "set (backfill_edges w ctx items groups bounds)"
  show "uf_inv (length groups) (fst (backfill_uf w ctx items groups bounds))"
    by (rule backfill.merge_all_inv [OF uf_init_inv bnd])
  show "uf_parts (fst (backfill_uf w ctx items groups bounds)) + snd (backfill_uf w ctx items groups bounds)
      = length groups"
    using backfill.merge_all_parts [OF uf_init_inv bnd] by (simp add: uf_init_parts)
  { assume a: "a < length groups"
    have mem: "(x, y) \<in> linked (uf_same (uf_init (length groups))) ?es \<Longrightarrow> x < length groups \<Longrightarrow>
        (x, y) \<in> linked (=) ?es \<and> y < length groups" for x y
      unfolding linked_def
      by (induction rule: rtrancl_induct)
        (use bnd in \<open>auto simp: uf_init_same intro: rtrancl_into_rtrancl\<close>)
    moreover have "linked (=) ?es \<subseteq> linked (uf_same (uf_init (length groups))) ?es"
    proof -
      have "{(x, y). x = y} \<union> ?es \<union> ?es\<inverse> \<subseteq> linked (uf_same (uf_init (length groups))) ?es"
        unfolding linked_def by auto
      then show ?thesis unfolding linked_def by (metis rtrancl_subset_rtrancl)
    qed
    ultimately show "uf_same (fst (backfill_uf w ctx items groups bounds)) a b \<longleftrightarrow>
        (a, b) \<in> linked (=) ?es \<and> b < length groups"
      using backfill.merge_all_same [OF uf_init_inv bnd a, of b] a by blast }
  show "snd (backfill_uf w ctx items groups bounds) = 0 \<Longrightarrow> a < length groups \<Longrightarrow>
      uf_same (fst (backfill_uf w ctx items groups bounds)) a b \<longleftrightarrow> a = b"
    using backfill.merge_all_none [OF uf_init_inv bnd, of a b] by (auto simp: uf_init_same)
qed

lemma rebuild_same_group:
  assumes map: "rebuild_map p groups (length groups) rb" and forest: "uf_forest p"
    and len: "length p = length groups" and gr: "grouping_of n groups"
    and a: "a < length groups" "i \<in> set (groups ! a)" and b: "b < length groups" "j \<in> set (groups ! b)"
  shows "(\<exists>g\<in>set (map sort (rb_groups rb)). i \<in> set g \<and> j \<in> set g) \<longleftrightarrow> uf_same (p, rk) a b"
proof -
  have new: "\<exists>h. rb_root_to_new rb r = Some h \<and> h < length (rb_groups rb) \<and>
      set (rb_groups rb ! h) = (\<Union>k\<in>{k. k < length groups \<and> uf_root p k r}. set (groups ! k))"
    if "uf_root p c r" "c < length groups" for c r
  proof -
    from map that have "r \<in> dom (rb_root_to_new rb)" by (auto simp: rebuild_map_def)
    then obtain h where "rb_root_to_new rb r = Some h" by blast
    with map show ?thesis by (auto simp: rebuild_map_def ran_def)
  qed
  have root_of: "\<exists>r. rb_root_to_new rb r = Some h" if "h < length (rb_groups rb)" for h
  proof -
    from map that have "h \<in> ran (rb_root_to_new rb)" by (simp add: rebuild_map_def)
    then show ?thesis by (simp add: ran_def)
  qed
  show ?thesis
  proof
    assume "\<exists>g\<in>set (map sort (rb_groups rb)). i \<in> set g \<and> j \<in> set g"
    then obtain g where "g \<in> set (rb_groups rb)" "i \<in> set g" "j \<in> set g" by auto
    then obtain h where h: "h < length (rb_groups rb)" "i \<in> set (rb_groups rb ! h)" "j \<in> set (rb_groups rb ! h)"
      by (metis in_set_conv_nth)
    from root_of [OF h(1)] map obtain r where
      "set (rb_groups rb ! h) = (\<Union>k\<in>{k. k < length groups \<and> uf_root p k r}. set (groups ! k))"
      by (auto simp: rebuild_map_def)
    with h(2,3) obtain k l where "k < length groups" "uf_root p k r" "i \<in> set (groups ! k)"
      "l < length groups" "uf_root p l r" "j \<in> set (groups ! l)" by auto
    with grouping_of_unique [OF gr a(1) _ a(2), of k] grouping_of_unique [OF gr b(1) _ b(2), of l]
    show "uf_same (p, rk) a b" by (auto simp: uf_same_def)
  next
    assume "uf_same (p, rk) a b"
    then obtain r where r: "uf_root p a r" "uf_root p b r" by (auto simp: uf_same_def)
    from new [OF r(1) a(1)] obtain h where "h < length (rb_groups rb)"
      "set (rb_groups rb ! h) = (\<Union>k\<in>{k. k < length groups \<and> uf_root p k r}. set (groups ! k))" by blast
    with r a b have "i \<in> set (rb_groups rb ! h)" "j \<in> set (rb_groups rb ! h)" by auto
    with \<open>h < length (rb_groups rb)\<close> show "\<exists>g\<in>set (map sort (rb_groups rb)). i \<in> set g \<and> j \<in> set g"
      by (intro bexI [of _ "sort (rb_groups rb ! h)"]) simp_all
  qed
qed

lemma rebuild_count:
  assumes "rebuild_map p groups (length groups) rb" and "uf_forest p" and "length p = length groups"
  shows "length (rb_groups rb) = uf_parts (p, rk)"
proof -
  let ?m = "rb_root_to_new rb"
  have "dom ?m = {x. x < length p \<and> p ! x = x}"
  proof -
    have "(\<exists>k<length groups. uf_root p k r) \<longleftrightarrow> r < length p \<and> p ! r = r" for r
      using uf_root.here [of r p] uf_root_bounds [of p _ r] assms(3) by metis
    with assms(1) show ?thesis by (simp add: rebuild_map_def)
  qed
  moreover have "card (dom ?m) = card (?m ` dom ?m)"
    using assms(1) unfolding rebuild_map_def by (metis card_image)
  moreover have "?m ` dom ?m = Some ` ran ?m"
    by (auto simp: ran_def dom_def image_iff) (metis)
  moreover have "card (Some ` ran ?m) = card (ran ?m)" by (rule card_image) simp
  ultimately show ?thesis using assms(1) by (simp add: uf_parts_def rebuild_map_def)
qed

subsection \<open>Properties\<close>

lemma outcome_backfill:
  assumes "gx_tier1_backfill ctx" and "items \<noteq> []" and "gp_groups (group_loop w ctx items) \<noteq> []"
  defines "st \<equiv> group_loop w ctx items"
  defines "uf \<equiv> backfill_uf w ctx items (gp_groups st) (gp_bound_mid st)"
  shows "go_groups (group_candidates_with_stats w ctx items) =
    (if snd uf = 0 then gp_groups st
     else map sort (rb_groups (rebuild_groups (fst (fst uf)) (gp_bound_mid st) (gp_groups st))))"
  using assms
  by (simp add: group_candidates_with_stats_def apply_tier1_backfill_pass_def Let_def split_beta)

lemma loop_groups_nonempty:
  "\<forall>x\<in>set items. wf_scan w x \<Longrightarrow> gp_groups (group_loop w ctx items) = [] \<longleftrightarrow> items = []"
  using group_loop_grouping [of items w ctx] grouping_of_set
  by (fastforce simp: grouping_of_def group_loop_def group_init_def)

lemma outcome_grouping:
  assumes "\<forall>x\<in>set items. wf_scan w x"
  shows "grouping_of (length items) (go_groups (group_candidates_with_stats w ctx items))"
proof (cases "gx_tier1_backfill ctx \<and> items \<noteq> []")
  case False
  have "go_groups (group_candidates_with_stats w ctx items) = gp_groups (group_loop w ctx items)"
    using False by (auto simp: group_candidates_with_stats_def apply_tier1_backfill_pass_def Let_def split_beta)
  then show ?thesis using group_loop_grouping [OF assms] by simp
next
  case True
  let ?st = "group_loop w ctx items"
  have gr: "grouping_of (length items) (gp_groups ?st)" by (rule group_loop_grouping [OF assms])
  let ?uf = "backfill_uf w ctx items (gp_groups ?st) (gp_bound_mid ?st)"
  have "uf_forest (fst (fst ?uf))" "length (fst (fst ?uf)) = length (gp_groups ?st)"
    using backfill_uf_facts(1) [OF gr, where w = w and ctx = ctx and bounds = "gp_bound_mid ?st"] by (simp_all add: uf_inv_def)
  from rebuild_grouping [OF rebuild_groups_inv(2) [OF this gr] gr] gr
  show ?thesis using outcome_backfill [of ctx items w] True loop_groups_nonempty [OF assms, of ctx] by auto
qed

text \<open>
  C2: grouping loses and duplicates nothing. For every list of well-formed candidates and every
  configuration, with or without backfill, each candidate is in exactly one group, no group is
  empty, members are in scan order and groups are ordered by their first member.
\<close>

theorem grouping_is_partition:
  assumes "\<forall>x\<in>set items. wf_scan w x"
  shows "grouping_of (length items) (go_groups (group_candidates_with_stats w ctx items))"
  by (rule outcome_grouping [OF assms])

text \<open>
  C22: backfill merges exactly what its edges connect. With backfill on, two candidates share a
  final group exactly when the groups the scan had put them in are connected by pairs of groups
  that hold candidates with the same content hash, have compatible Message-IDs and at least one
  Message-ID. The order in which the hash map yields the pairs does not matter.
\<close>

theorem backfill_merges_linked:
  assumes "\<forall>x\<in>set items. wf_scan w x" and "gx_tier1_backfill ctx"
    and "a < length (gp_groups (group_loop w ctx items))" "i \<in> set (gp_groups (group_loop w ctx items) ! a)"
    and "b < length (gp_groups (group_loop w ctx items))" "j \<in> set (gp_groups (group_loop w ctx items) ! b)"
  shows "(\<exists>g\<in>set (go_groups (group_candidates_with_stats w ctx items)). i \<in> set g \<and> j \<in> set g) \<longleftrightarrow>
    (a, b) \<in> linked (=) (set (backfill_edges w ctx items (gp_groups (group_loop w ctx items))
                               (gp_bound_mid (group_loop w ctx items))))"
proof -
  let ?st = "group_loop w ctx items"
  have gr: "grouping_of (length items) (gp_groups ?st)" by (rule group_loop_grouping [OF assms(1)])
  let ?uf = "backfill_uf w ctx items (gp_groups ?st) (gp_bound_mid ?st)"
  note facts = backfill_uf_facts [OF gr, where w = w and ctx = ctx and bounds = "gp_bound_mid ?st"]
  have p: "uf_forest (fst (fst ?uf))" "length (fst (fst ?uf)) = length (gp_groups ?st)"
    using facts(1) by (simp_all add: uf_inv_def)
  have ne: "items \<noteq> []" "gp_groups ?st \<noteq> []" using assms(3) loop_groups_nonempty [OF assms(1), of ctx] by auto
  have same: "(a, b) \<in> linked (=) (set (backfill_edges w ctx items (gp_groups ?st) (gp_bound_mid ?st)))
      \<longleftrightarrow> uf_same (fst ?uf) a b" using facts(3) [OF assms(3), of b] assms(5) by simp
  show ?thesis
  proof (cases "snd ?uf = 0")
    case True
    have "(\<exists>g\<in>set (gp_groups ?st). i \<in> set g \<and> j \<in> set g) \<longleftrightarrow> a = b"
      using grouping_of_unique [OF gr] assms(3-6) by (metis in_set_conv_nth)
    with facts(4) [OF True assms(3), of b] same True show ?thesis
      using outcome_backfill [OF assms(2) ne(1,2)] by simp
  next
    case False
    with rebuild_same_group [OF rebuild_groups_inv(1) [OF p gr] p gr assms(3-6), of _ "snd (fst ?uf)"] same
    show ?thesis using outcome_backfill [OF assms(2) ne(1,2)] by simp
  qed
qed

text \<open>
  The backfill counter is the number of groups the pass absorbs: the groups of the scan are
  as many as the final groups plus the reported candidates when backfill is on.
\<close>

theorem backfill_counts_absorbed:
  assumes "\<forall>x\<in>set items. wf_scan w x" and "gx_tier1_backfill ctx" and "\<not> is_strong (gx_identity ctx)"
  shows "length (go_groups (group_candidates_with_stats w ctx items)) +
      gs_tier1_backfill_candidates (go_stats (group_candidates_with_stats w ctx items))
    = length (gp_groups (group_loop w ctx items)) +
      gs_tier1_backfill_candidates (gp_stats (group_loop w ctx items))"
proof (cases "items = []")
  case True
  then show ?thesis
    using assms(3) by (simp add: group_candidates_with_stats_def apply_tier1_backfill_pass_def Let_def split_beta)
next
  case False
  let ?st = "group_loop w ctx items"
  have gr: "grouping_of (length items) (gp_groups ?st)" by (rule group_loop_grouping [OF assms(1)])
  let ?uf = "backfill_uf w ctx items (gp_groups ?st) (gp_bound_mid ?st)"
  note facts = backfill_uf_facts [OF gr, where w = w and ctx = ctx and bounds = "gp_bound_mid ?st"]
  have p: "uf_forest (fst (fst ?uf))" "length (fst (fst ?uf)) = length (gp_groups ?st)"
    using facts(1) by (simp_all add: uf_inv_def)
  have ne: "gp_groups ?st \<noteq> []" using False loop_groups_nonempty [OF assms(1), of ctx] by auto
  have stats: "gs_tier1_backfill_candidates (go_stats (group_candidates_with_stats w ctx items)) =
      gs_tier1_backfill_candidates (gp_stats ?st) + snd ?uf"
    using False ne assms(3)
    by (simp add: group_candidates_with_stats_def apply_tier1_backfill_pass_def Let_def split_beta)
  have "length (rb_groups (rebuild_groups (fst (fst ?uf)) (gp_bound_mid ?st) (gp_groups ?st))) = uf_parts (fst ?uf)"
    using rebuild_count [OF rebuild_groups_inv(1) [OF p gr] p, of _ "snd (fst ?uf)"] by simp
  with facts(2) stats show ?thesis
    using outcome_backfill [OF assms(2) False ne] by auto
qed

end
