(* ===== verification/Civil_Date.thy ===== *)
theory Civil_Date
  imports Rust_Text
begin

text \<open>
  The date text of a decision row (\<^verbatim>\<open>format_unix_secs_rfc3339_i64\<close> in
  \<^verbatim>\<open>dedup-engine/src/keepset.rs\<close>): the closed-form civil-date computation and its proof against the
  Gregorian calendar given as a successor function on dates.
\<close>

text \<open>
  The civil date of a day number counted from 1970-01-01, and the seconds of the day. The casts to
  \<^verbatim>\<open>u64\<close> are of values that are never negative.
\<close>

definition civil_from_days :: "int \<Rightarrow> int \<times> int \<times> int" where
  "civil_from_days days =
     (let z = days + 719468;
          era = rust_div (if z \<ge> 0 then z else z - 146096) 146097;
          doe = z - era * 146097;
          yoe = (doe - doe div 1460 + doe div 36524 - doe div 146096) div 365;
          y = yoe + era * 400;
          doy = doe - (365 * yoe + yoe div 4 - yoe div 100);
          mp = (5 * doy + 2) div 153;
          d = doy - (153 * mp + 2) div 5 + 1;
          m = (if mp < 10 then mp + 3 else mp - 9)
      in (if m \<le> 2 then y + 1 else y, m, d))"

text \<open>The \<^verbatim>\<open>{:04}\<close> and \<^verbatim>\<open>{:02}\<close> formats: zero padding after a sign, never truncating.\<close>

definition pad_nat :: "nat \<Rightarrow> nat \<Rightarrow> str" where
  "pad_nat width n = (let s = show_nat n in replicate (width - length s) 48 @ s)"

definition pad_int :: "nat \<Rightarrow> int \<Rightarrow> str" where
  "pad_int width i =
     (if i < 0 then 45 # pad_nat (width - 1) (nat (- i)) else pad_nat width (nat i))"

definition format_unix_secs_rfc3339_i64 :: "i64 \<Rightarrow> str" where
  "format_unix_secs_rfc3339_i64 secs =
     (let days = secs div 86400; tod = secs mod 86400;
          (y, m, d) = civil_from_days days;
          hh = tod div 3600; mm = tod mod 3600 div 60; ss = tod mod 60
      in pad_int 4 y @ lit ''-'' @ pad_int 2 m @ lit ''-'' @ pad_int 2 d @ lit ''T'' @
         pad_int 2 hh @ lit '':'' @ pad_int 2 mm @ lit '':'' @ pad_int 2 ss @ lit ''Z'')"

subsection \<open>The Gregorian calendar\<close>

definition leap :: "int \<Rightarrow> bool" where
  "leap y \<longleftrightarrow> 4 dvd y \<and> (\<not> 100 dvd y \<or> 400 dvd y)"

definition month_length :: "int \<Rightarrow> int \<Rightarrow> int" where
  "month_length y m =
     (if m = 2 then (if leap y then 29 else 28) else if m \<in> {4, 6, 9, 11} then 30 else 31)"

fun next_day :: "int \<times> int \<times> int \<Rightarrow> int \<times> int \<times> int" where
  "next_day (y, m, d) =
     (if d < month_length y m then (y, m, d + 1)
      else if m < 12 then (y, m + 1, 1) else (y + 1, 1, 1))"

subsection \<open>Years start in March\<close>

text \<open>Day \<open>k\<close> of the year that starts on the first of March of year \<open>y\<close>.\<close>

definition march_date :: "int \<Rightarrow> int \<Rightarrow> int \<times> int \<times> int" where
  "march_date y k =
     (let mp = (5 * k + 2) div 153;
          m = (if mp < 10 then mp + 3 else mp - 9)
      in (if m \<le> 2 then y + 1 else y, m, k - (153 * mp + 2) div 5 + 1))"

text \<open>The position of a day in its era of 400 years: century, four-year cycle, year, day.\<close>

definition position :: "int \<Rightarrow> int \<Rightarrow> int \<Rightarrow> int \<Rightarrow> bool" where
  "position c q r k \<longleftrightarrow>
     0 \<le> c \<and> c \<le> 3 \<and> 0 \<le> q \<and> q \<le> 24 \<and> 0 \<le> r \<and> r \<le> 3 \<and> 0 \<le> k \<and>
     (k \<le> 364 \<or> k = 365 \<and> r = 3 \<and> (q < 24 \<or> c = 3))"

lemma div_unique: "(a :: int) = b * q + r \<Longrightarrow> 0 \<le> r \<Longrightarrow> r < b \<Longrightarrow> a div b = q"
  by (simp add: int_div_pos_eq)

lemma position_exists:
  assumes "0 \<le> doe" "doe < 146097"
  obtains c q r k where "position c q r k" "doe = 36524 * c + 1461 * q + 365 * r + k"
proof -
  define c where "c = min 3 (doe div 36524)"
  define d where "d = doe - 36524 * c"
  define q where "q = d div 1461"
  define e where "e = d mod 1461"
  define r where "r = min 3 (e div 365)"
  have c: "0 \<le> c" "c \<le> 3" "0 \<le> d" "d \<le> 36523 \<or> c = 3 \<and> d \<le> 36524"
    using assms unfolding c_def d_def by (auto simp: min_def)
  have q: "0 \<le> q" "q \<le> 24" "d = 1461 * q + e" "0 \<le> e" "e \<le> 1460"
    using c unfolding q_def e_def by (auto simp: pos_imp_zdiv_nonneg_iff)
  have r: "0 \<le> r" "r \<le> 3" "0 \<le> e - 365 * r" "e - 365 * r \<le> 364 \<or> e = 1460 \<and> r = 3"
    using q(4,5) unfolding r_def by (auto simp: min_def pos_imp_zdiv_nonneg_iff)
  have "position c q r (e - 365 * r)"
    unfolding position_def using c q r by auto
  moreover have "doe = 36524 * c + 1461 * q + 365 * r + (e - 365 * r)"
    using q(3) by (simp add: d_def)
  ultimately show ?thesis by (rule that)
qed

lemma era_floor: "rust_div (if z \<ge> 0 then z else z - 146096) 146097 = z div 146097"
  unfolding rust_div_def by (auto simp: sgn_if)

lemma civil_from_position:
  assumes pos: "position c q r k" and n: "n + 719468 = 146097 * era + (36524 * c + 1461 * q + 365 * r + k)"
  shows "civil_from_days n = march_date (400 * era + (100 * c + 4 * q + r)) k"
proof -
  define doe where "doe = 36524 * c + 1461 * q + 365 * r + k"
  define y where "y = 100 * c + 4 * q + r"
  define e1 where "e1 = (if 24 * c + q + 365 * r + k \<ge> 1460 then 1 else 0 :: int)"
  define e2 where "e2 = (if doe = 146096 then 1 else 0 :: int)"
  note p = pos [unfolded position_def]
  have doe: "0 \<le> doe" "doe < 146097" using p unfolding doe_def by auto
  have era: "(n + 719468) div 146097 = era"
    using doe n by (intro div_unique [of _ _ _ doe]) (simp_all add: doe_def)
  have d1: "doe div 1460 = 25 * c + q + e1"
    using p by (intro div_unique [of _ _ _ "24 * c + q + 365 * r + k - 1460 * e1"])
      (auto simp: doe_def e1_def)
  have d2: "doe div 36524 = c + e2"
    using p by (intro div_unique [of _ _ _ "1461 * q + 365 * r + k - 36524 * e2"])
      (auto simp: doe_def e2_def)
  have d3: "doe div 146096 = e2"
    using p doe by (intro div_unique [of _ _ _ "doe - 146096 * e2"]) (auto simp: e2_def)
  have yoe: "(doe - doe div 1460 + doe div 36524 - doe div 146096) div 365 = y"
    using p unfolding d1 d2 d3
    by (intro div_unique [of _ _ _ "k - e1"]) (auto simp: doe_def y_def e1_def)
  have y4: "y div 4 = 25 * c + q" using p by (intro div_unique [of _ _ _ r]) (auto simp: y_def)
  have y100: "y div 100 = c" using p by (intro div_unique [of _ _ _ "4 * q + r"]) (auto simp: y_def)
  have doy: "doe - (365 * y + y div 4 - y div 100) = k"
    unfolding y4 y100 by (simp add: doe_def y_def)
  have z: "n + 719468 - era * 146097 = doe" using n by (simp add: doe_def)
  show ?thesis
    unfolding civil_from_days_def march_date_def Let_def era_floor era z yoe doy
    by (simp add: y_def add.commute)
qed

subsection \<open>Stepping through a year\<close>

lemma upto_eleven: "0 \<le> m \<Longrightarrow> m \<le> 11 \<Longrightarrow> m \<in> {0, 1, 2, 3, 4, 5, 6, 7, 8, 9, 10, 11 :: int}"
  unfolding insert_iff empty_iff by presburger

lemma month_cases:
  fixes k :: int
  assumes "0 \<le> k" "k \<le> 365"
  obtains mp where "(5 * k + 2) div 153 = mp" "mp \<in> {0, 1, 2, 3, 4, 5, 6, 7, 8, 9, 10, 11}"
    "153 * mp \<le> 5 * k + 2" "5 * k + 2 \<le> 153 * mp + 152"
proof -
  let ?mp = "(5 * k + 2) div 153"
  have eq: "153 * ?mp + (5 * k + 2) mod 153 = 5 * k + 2" by simp
  have "0 \<le> (5 * k + 2) mod 153" "(5 * k + 2) mod 153 \<le> 152" using pos_mod_bound [of 153 "5 * k + 2"] by auto
  with eq have bounds: "153 * ?mp \<le> 5 * k + 2" "5 * k + 2 \<le> 153 * ?mp + 152" by linarith+
  with assms have "0 \<le> ?mp" "?mp \<le> 11" by linarith+
  then have "?mp \<in> {0, 1, 2, 3, 4, 5, 6, 7, 8, 9, 10, 11}"
    by (rule upto_eleven)
  with bounds show ?thesis by (intro that [OF refl])
qed

lemma march_date_month:
  assumes "(5 * k + 2) div 153 = mp" "0 \<le> mp" "mp \<le> 11"
  shows "march_date y k = (if mp < 10 then y else y + 1, if mp < 10 then mp + 3 else mp - 9,
    k - (153 * mp + 2) div 5 + 1)"
  using assms by (auto simp: march_date_def Let_def)

lemma next_day_march:
  assumes "0 \<le> k" "k < 364 \<or> k = 364 \<and> leap (y + 1)"
  shows "next_day (march_date y k) = march_date y (k + 1)"
proof -
  have "0 \<le> k" "k \<le> 365" using assms by auto
  then obtain mp where mp: "(5 * k + 2) div 153 = mp" "mp \<in> {0, 1, 2, 3, 4, 5, 6, 7, 8, 9, 10, 11}"
    "153 * mp \<le> 5 * k + 2" "5 * k + 2 \<le> 153 * mp + 152" by (rule month_cases)
  then have now: "march_date y k = (if mp < 10 then y else y + 1, if mp < 10 then mp + 3 else mp - 9,
      k - (153 * mp + 2) div 5 + 1)" by (intro march_date_month) auto
  show ?thesis
  proof (cases "5 * (k + 1) + 2 < 153 * mp + 153")
    case True
    then have "(5 * (k + 1) + 2) div 153 = mp"
      using mp(3) by (intro div_unique [of _ _ _ "5 * (k + 1) + 2 - 153 * mp"]) auto
    then have "march_date y (k + 1) = (if mp < 10 then y else y + 1, if mp < 10 then mp + 3 else mp - 9,
        k + 1 - (153 * mp + 2) div 5 + 1)" using mp(2) by (intro march_date_month) auto
    with now have eqs: "march_date y k = (if mp < 10 then y else y + 1, if mp < 10 then mp + 3 else mp - 9,
        k - (153 * mp + 2) div 5 + 1)" "march_date y (k + 1) = (if mp < 10 then y else y + 1,
        if mp < 10 then mp + 3 else mp - 9, k + 1 - (153 * mp + 2) div 5 + 1)" by simp_all
    have "k \<le> (153 * mp + 145) div 5" using True mult_div_mod_eq [of 5 "153 * mp + 145"] 
        pos_mod_bound [of 5 "153 * mp + 145"] by simp
    then have "k - (153 * mp + 2) div 5 + 1 < month_length (if mp < 10 then y else y + 1)
        (if mp < 10 then mp + 3 else mp - 9)"
      using mp(2) assms(2) by (elim insertE emptyE) (auto simp: month_length_def)
    then show ?thesis unfolding eqs by simp
  next
    case False
    then have "(5 * (k + 1) + 2) div 153 = mp + 1"
      using mp(4) by (intro div_unique [of _ _ _ "5 * (k + 1) + 2 - 153 * (mp + 1)"]) auto
    moreover have "mp \<noteq> 11" using False assms(2) by auto
    ultimately have later: "march_date y (k + 1) = (if mp + 1 < 10 then y else y + 1,
        if mp + 1 < 10 then mp + 4 else mp - 8, k + 1 - (153 * (mp + 1) + 2) div 5 + 1)"
      using mp(2) march_date_month [of "k + 1" "mp + 1" y] by auto
    have k: "k = (153 * mp + 150) div 5"
      using False mp(4) by (intro div_unique [symmetric, of _ _ _ "153 * mp + 150 - 5 * k"]) auto
    show ?thesis
      unfolding now later unfolding k
      using mp(2) \<open>mp \<noteq> 11\<close> by (elim insertE emptyE) (simp_all add: month_length_def)
  qed
qed

lemma next_day_march_end:
  assumes "k = (if leap (y + 1) then 365 else 364)"
  shows "next_day (march_date y k) = march_date (y + 1) 0"
  using assms by (auto simp: march_date_def month_length_def Let_def split: if_splits)

lemma leap_position:
  assumes "position c q r k"
  shows "leap (400 * era + (100 * c + 4 * q + r) + 1) \<longleftrightarrow> r = 3 \<and> (q < 24 \<or> c = 3)"
proof -
  note p = assms [unfolded position_def]
  let ?y = "400 * era + (100 * c + 4 * q + r) + 1"
  have drop: "d dvd d * a + b \<longleftrightarrow> d dvd b" for a b d :: int
    by (rule dvd_add_right_iff) simp
  have "4 dvd ?y \<longleftrightarrow> 4 dvd 4 * (100 * era + 25 * c + q) + (r + 1)" by (simp add: algebra_simps)
  also have "\<dots> \<longleftrightarrow> r = 3" unfolding drop using p by presburger
  finally have four: "4 dvd ?y \<longleftrightarrow> r = 3" .
  have "r = 3 \<Longrightarrow> 100 dvd ?y \<longleftrightarrow> 100 dvd 100 * (4 * era + c) + 4 * (q + 1)" by (simp add: algebra_simps)
  moreover have "100 dvd 4 * (q + 1) \<longleftrightarrow> q = 24" using p by presburger
  ultimately have hundred: "r = 3 \<Longrightarrow> 100 dvd ?y \<longleftrightarrow> q = 24" unfolding drop by blast
  have "r = 3 \<Longrightarrow> q = 24 \<Longrightarrow> 400 dvd ?y \<longleftrightarrow> 400 dvd 400 * era + 100 * (c + 1)" by (simp add: algebra_simps)
  moreover have "400 dvd 100 * (c + 1) \<longleftrightarrow> c = 3" using p by presburger
  ultimately have "r = 3 \<Longrightarrow> q = 24 \<Longrightarrow> 400 dvd ?y \<longleftrightarrow> c = 3" unfolding drop by blast
  with four hundred p show ?thesis unfolding leap_def by auto
qed

lemma march_date_step:
  assumes pos: "position c q r k" and n: "n + 719468 = 146097 * era + (36524 * c + 1461 * q + 365 * r + k)"
  shows "civil_from_days (n + 1) = next_day (civil_from_days n)"
proof -
  let ?y = "400 * era + (100 * c + 4 * q + r)"
  note p = pos [unfolded position_def]
  note now = civil_from_position [OF pos n]
  have later: "civil_from_days (n + 1) = march_date (400 * era' + (100 * c' + 4 * q' + r')) k'"
    if "position c' q' r' k'" and "n + 1 + 719468 = 146097 * era' + (36524 * c' + 1461 * q' + 365 * r' + k')"
    for era' c' q' r' k' using civil_from_position [OF that] .
  show ?thesis
  proof (cases "k < 364 \<or> k = 364 \<and> leap (?y + 1)")
    case True
    with p leap_position [OF pos, of era] have "position c q r (k + 1)" by (auto simp: position_def)
    from later [OF this, of era] n now next_day_march [of k ?y] True p show ?thesis by simp
  next
    case False
    with p leap_position [OF pos, of era] have k: "k = (if leap (?y + 1) then 365 else 364)" by auto
    have leap: "leap (?y + 1) \<longleftrightarrow> r = 3 \<and> (q < 24 \<or> c = 3)" by (rule leap_position [OF pos])
    have "civil_from_days (n + 1) = march_date (?y + 1) 0"
    proof -
      consider "r < 3" | "r = 3" "q < 24" | "r = 3" "q = 24" "c < 3" | "r = 3" "q = 24" "c = 3" using p by linarith
      then show ?thesis
      proof cases
        case 1
        with later [of c q "r + 1" 0 era] n k leap p show ?thesis by (simp add: position_def algebra_simps)
      next
        case 2
        with later [of c "q + 1" 0 0 era] n k leap p show ?thesis by (simp add: position_def algebra_simps)
      next
        case 3
        with later [of "c + 1" 0 0 0 era] n k leap p show ?thesis by (simp add: position_def algebra_simps)
      next
        case 4
        with later [of 0 0 0 0 "era + 1"] n k leap p show ?thesis by (simp add: position_def algebra_simps)
      qed
    qed
    with now next_day_march_end [OF k] show ?thesis by simp
  qed
qed

text \<open>
  C28: the closed-form date computation follows the Gregorian calendar: day 0 is the first of January
  1970, and for every day number, past or future, the next day number gives the next date, with
  months and leap years as in the calendar.
\<close>

theorem civil_from_days_calendar:
  "civil_from_days 0 = (1970, 1, 1) \<and> civil_from_days (n + 1) = next_day (civil_from_days n)"
proof
  show "civil_from_days 0 = (1970, 1, 1)"
    using civil_from_position [of 3 17 1 306 0 4] by (simp add: position_def march_date_def)
  have "0 \<le> (n + 719468) mod 146097" "(n + 719468) mod 146097 < 146097" by simp_all
  then obtain c q r k where "position c q r k"
    "(n + 719468) mod 146097 = 36524 * c + 1461 * q + 365 * r + k" by (rule position_exists)
  then have "n + 719468 = 146097 * ((n + 719468) div 146097) + (36524 * c + 1461 * q + 365 * r + k)"
    using mult_div_mod_eq [of 146097 "n + 719468"] by linarith
  with \<open>position c q r k\<close> show "civil_from_days (n + 1) = next_day (civil_from_days n)"
    by (rule march_date_step)
qed

end
