(* ===== verification/Keep_Rank.thy ===== *)
theory Keep_Rank
  imports Keep_Items Civil_Date "HOL-Library.Product_Lexorder"
begin

text \<open>
  The winner ladder (\<^verbatim>\<open>dedup-engine/src/keepset.rs\<close>): the policy enumerations, the fidelity, source,
  folder and policy rungs, the rank key with its \<^verbatim>\<open>Ord\<close> instance, the token that names the rung that
  decided, and the date text of a decision row. The flag \<open>windows\<close> stands for \<^verbatim>\<open>cfg!(windows)\<close>.
\<close>

subsection \<open>Enumerations\<close>

datatype KeepPolicy = FirstSeen | KeepLargest | PreferPath | EarliestDate

fun policy_as_str :: "KeepPolicy \<Rightarrow> str" where
  "policy_as_str FirstSeen = lit ''first_seen''"
| "policy_as_str KeepLargest = lit ''keep_largest''"
| "policy_as_str PreferPath = lit ''prefer_path''"
| "policy_as_str EarliestDate = lit ''earliest_date''"

definition policy_parse :: "str \<Rightarrow> KeepPolicy option" where
  "policy_parse s =
     (if s = lit ''first_seen'' then Some FirstSeen
      else if s = lit ''keep_largest'' then Some KeepLargest
      else if s = lit ''prefer_path'' then Some PreferPath
      else if s = lit ''earliest_date'' then Some EarliestDate
      else None)"

datatype FidelityMode = Binary | Graded

fun fidelity_mode_as_str :: "FidelityMode \<Rightarrow> str" where
  "fidelity_mode_as_str Binary = lit ''binary''"
| "fidelity_mode_as_str Graded = lit ''graded''"

definition fidelity_mode_parse :: "str \<Rightarrow> FidelityMode option" where
  "fidelity_mode_parse s =
     (if s = lit ''binary'' then Some Binary
      else if s = lit ''graded'' then Some Graded
      else None)"

datatype FolderRankMode = FrOff | FrBuiltin | FrCustom "str list"

datatype FolderClass =
    SentItems | Primary | Archive | JunkEmail | Drafts | Outbox | DeletedItems
  | RecoverableDeletions | RecoverableHolds | RecoverablePurges | RecoverableVersions
  | RecoverableOps | RecoverableOther

fun folder_class_as_str :: "FolderClass \<Rightarrow> str" where
  "folder_class_as_str SentItems = lit ''sent_items''"
| "folder_class_as_str Primary = lit ''primary''"
| "folder_class_as_str Archive = lit ''archive''"
| "folder_class_as_str JunkEmail = lit ''junk_email''"
| "folder_class_as_str Drafts = lit ''drafts''"
| "folder_class_as_str Outbox = lit ''outbox''"
| "folder_class_as_str DeletedItems = lit ''deleted_items''"
| "folder_class_as_str RecoverableDeletions = lit ''recoverable_deletions''"
| "folder_class_as_str RecoverableHolds = lit ''recoverable_holds''"
| "folder_class_as_str RecoverablePurges = lit ''recoverable_purges''"
| "folder_class_as_str RecoverableVersions = lit ''recoverable_versions''"
| "folder_class_as_str RecoverableOps = lit ''recoverable_ops''"
| "folder_class_as_str RecoverableOther = lit ''recoverable_other''"

fun builtin_rank :: "FolderClass \<Rightarrow> u32" where
  "builtin_rank SentItems = 0"
| "builtin_rank Primary = 1"
| "builtin_rank Archive = 2"
| "builtin_rank JunkEmail = 3"
| "builtin_rank Drafts = 4"
| "builtin_rank Outbox = 5"
| "builtin_rank DeletedItems = 6"
| "builtin_rank RecoverableDeletions = 7"
| "builtin_rank RecoverableHolds = 8"
| "builtin_rank RecoverablePurges = 9"
| "builtin_rank RecoverableVersions = 10"
| "builtin_rank RecoverableOps = 11"
| "builtin_rank RecoverableOther = 12"

definition is_recoverable_items :: "FolderClass \<Rightarrow> bool" where
  "is_recoverable_items c \<longleftrightarrow>
     c \<in> {RecoverableDeletions, RecoverableHolds, RecoverablePurges, RecoverableVersions,
          RecoverableOps, RecoverableOther}"

datatype DateSource = DsSubmit | DsDelivery | DsNone

fun date_source_as_str :: "DateSource \<Rightarrow> str" where
  "date_source_as_str DsSubmit = lit ''submit''"
| "date_source_as_str DsDelivery = lit ''delivery''"
| "date_source_as_str DsNone = lit ''none''"

record RankContext =
  rk_policy :: KeepPolicy
  rk_prefer_path :: "str list"
  rk_prefer_bcc_copy :: bool
  rk_source_rank_patterns :: "str list"
  rk_folder_rank :: FolderRankMode
  rk_folder_class_first :: bool
  rk_fidelity_mode :: FidelityMode

definition default_rank_context :: RankContext where
  "default_rank_context =
     \<lparr> rk_policy = FirstSeen, rk_prefer_path = [], rk_prefer_bcc_copy = False,
       rk_source_rank_patterns = [], rk_folder_rank = FrOff, rk_folder_class_first = False,
       rk_fidelity_mode = Binary \<rparr>"

definition rank_context_new :: "KeepPolicy \<Rightarrow> RankContext" where
  "rank_context_new policy = default_rank_context \<lparr> rk_policy := policy \<rparr>"

definition with_prefer_path :: "RankContext \<Rightarrow> str list \<Rightarrow> RankContext" where
  "with_prefer_path ctx prefer_path = ctx \<lparr> rk_prefer_path := prefer_path \<rparr>"

definition from_policy_and_prefer :: "KeepPolicy \<Rightarrow> str list \<Rightarrow> RankContext" where
  "from_policy_and_prefer policy prefer_path =
     default_rank_context \<lparr> rk_policy := policy, rk_prefer_path := prefer_path \<rparr>"

datatype FamilyPolicy = KeepAttachmentsWithParent | ParentsOnly

fun family_as_str :: "FamilyPolicy \<Rightarrow> str" where
  "family_as_str KeepAttachmentsWithParent = lit ''keep_attachments_with_parent''"
| "family_as_str ParentsOnly = lit ''parents_only''"

definition family_parse :: "str \<Rightarrow> FamilyPolicy option" where
  "family_parse s =
     (if s = lit ''keep_attachments_with_parent'' then Some KeepAttachmentsWithParent
      else if s = lit ''parents_only'' then Some ParentsOnly
      else None)"

interpretation policy_text: text_codec policy_as_str policy_parse "\<lambda>x. x"
proof
  show "policy_parse (policy_as_str x) = Some x" for x
    by (cases x) (simp_all add: policy_parse_def lit_eq_iff)
qed simp

interpretation fidelity_mode_text: text_codec fidelity_mode_as_str fidelity_mode_parse "\<lambda>x. x"
proof
  show "fidelity_mode_parse (fidelity_mode_as_str x) = Some x" for x
    by (cases x) (simp_all add: fidelity_mode_parse_def lit_eq_iff)
qed simp

interpretation family_text: text_codec family_as_str family_parse "\<lambda>x. x"
proof
  show "family_parse (family_as_str x) = Some x" for x
    by (cases x) (simp_all add: family_parse_def lit_eq_iff)
qed simp

subsection \<open>Fidelity\<close>

fun reason_fidelity_tier :: "IntegrityReason \<Rightarrow> nat" where
  "reason_fidelity_tier AttachMetaFailed = 1"
| "reason_fidelity_tier AttachProbeTruncated = 1"
| "reason_fidelity_tier AttachPeerProbeCap = 1"
| "reason_fidelity_tier AttachProbeTimeout = 1"
| "reason_fidelity_tier AttachStreamOpenFailed = 2"
| "reason_fidelity_tier AttachStreamReadFailed = 2"
| "reason_fidelity_tier AttachStreamCrc = 2"
| "reason_fidelity_tier AttachBlockNotFound = 2"
| "reason_fidelity_tier AttachDataTruncated = 2"
| "reason_fidelity_tier AttachMethodUnsupported = 2"
| "reason_fidelity_tier AttachCloudLink = 2"
| "reason_fidelity_tier BodyTruncated = 3"
| "reason_fidelity_tier BodyUnavailable = 3"
| "reason_fidelity_tier DataTruncated = 3"
| "reason_fidelity_tier CrcMismatch = 3"
| "reason_fidelity_tier CrcSuspect = 3"
| "reason_fidelity_tier BlockNotFound = 3"
| "reason_fidelity_tier OrphanedNode = 4"
| "reason_fidelity_tier InvalidStructure = 4"
| "reason_fidelity_tier MessageReadFailed = 4"
| "reason_fidelity_tier PropertyError = 4"
| "reason_fidelity_tier NodeNotFound = 4"
| "reason_fidelity_tier OpenFailed = 4"
| "reason_fidelity_tier AnsiUnsupported = 4"
| "reason_fidelity_tier UnsupportedCrypt = 4"
| "reason_fidelity_tier FolderWalkFailed = 4"
| "reason_fidelity_tier PathNotFound = 4"
| "reason_fidelity_tier NotPst = 4"
| "reason_fidelity_tier ReadError = 4"

definition graded_fidelity_rank :: "RecoverableScanItem \<Rightarrow> nat" where
  "graded_fidelity_rank item =
     (let integ = sc_integrity item in
      if \<not> in_degraded integ \<and> \<not> in_is_orphaned integ then 0
      else
        (let worst0 = (if in_is_orphaned integ then max 0 4 else 0);
             worst = fold (\<lambda>r w. max w (reason_fidelity_tier r)) (in_degraded_reasons integ) worst0
         in if worst = 0 then 3 else worst))"

definition fidelity_rank_with_mode :: "RecoverableScanItem \<Rightarrow> FidelityMode \<Rightarrow> nat" where
  "fidelity_rank_with_mode item mode =
     (let graded = graded_fidelity_rank item
      in case mode of
           Binary \<Rightarrow> if graded = 0 then 0 else 1
         | Graded \<Rightarrow> graded)"

definition fidelity_rank :: "RecoverableScanItem \<Rightarrow> nat" where
  "fidelity_rank item = fidelity_rank_with_mode item Binary"

subsection \<open>Dates\<close>

definition resolve_item_date :: "RecoverableScanItem \<Rightarrow> i64 option \<times> DateSource" where
  "resolve_item_date item =
     (let delivery = (case sc_delivery_time item of
                        Some t \<Rightarrow> if t > 0 then (Some t, DsDelivery) else (None, DsNone)
                      | None \<Rightarrow> (None, DsNone))
      in case sc_submit_time item of
           Some t \<Rightarrow> if t > 0 then (Some t, DsSubmit) else delivery
         | None \<Rightarrow> delivery)"

definition format_date_filetime_utc :: "i64 option \<Rightarrow> str" where
  "format_date_filetime_utc ft =
     (case ft of
        None \<Rightarrow> []
      | Some t \<Rightarrow>
          if t \<le> 0 then [] else format_unix_secs_rfc3339_i64 (rust_div t 10000000 - 11644473600))"

subsection \<open>Folders\<close>

definition seg_eq :: "str \<Rightarrow> str \<Rightarrow> bool" where
  "seg_eq a b = eq_ignore_ascii_case a b"

definition segment_glob_match :: "str \<Rightarrow> str \<Rightarrow> bool" where
  "segment_glob_match segment pattern =
     (let seg = to_ascii_lowercase segment; pat = to_ascii_lowercase pattern in
      if 42 \<notin> set pat then seg = pat
      else
        (let leading = prefix [42] pat; trailing = suffix [42] pat; core = trim_matches 42 pat in
         if core = [] then True
         else if leading \<and> trailing then str_contains seg core
         else if leading then suffix core seg
         else if trailing then prefix core seg
         else seg = pat))"

definition path_segments :: "str \<Rightarrow> str list" where
  "path_segments p = filter (\<lambda>s. s \<noteq> []) (map trim (split_on 47 p))"

definition match_non_recoverable_segment :: "str \<Rightarrow> FolderClass option" where
  "match_non_recoverable_segment seg =
     (if seg_eq seg (lit ''Sent Items'') \<or> seg_eq seg (lit ''Sent Mail'') then Some SentItems
      else if seg_eq seg (lit ''Deleted Items'') then Some DeletedItems
      else if seg_eq seg (lit ''Outbox'') then Some Outbox
      else if seg_eq seg (lit ''Drafts'') then Some Drafts
      else if seg_eq seg (lit ''Junk Email'') \<or> seg_eq seg (lit ''Junk E-mail'') \<or>
              seg_eq seg (lit ''Spam'') then Some JunkEmail
      else if seg_eq seg (lit ''Archive'') \<or> seg_eq seg (lit ''Online Archive'') \<or>
              segment_glob_match seg (lit ''In-Place Archive*'') then Some Archive
      else None)"

definition min_rank_class :: "FolderClass option \<Rightarrow> FolderClass \<Rightarrow> FolderClass" where
  "min_rank_class current candidate =
     (case current of
        None \<Rightarrow> candidate
      | Some c \<Rightarrow> if builtin_rank candidate < builtin_rank c then candidate else c)"

definition match_recoverable_segment :: "str \<Rightarrow> FolderClass option" where
  "match_recoverable_segment seg =
     (if seg_eq seg (lit ''Deletions'') then Some RecoverableDeletions
      else if seg_eq seg (lit ''DiscoveryHolds'') \<or> seg_eq seg (lit ''SubstrateHolds'')
      then Some RecoverableHolds
      else if seg_eq seg (lit ''Purges'') then Some RecoverablePurges
      else if seg_eq seg (lit ''Versions'') then Some RecoverableVersions
      else if seg_eq seg (lit ''Audits'') \<or> seg_eq seg (lit ''Calendar Logging'')
      then Some RecoverableOps
      else None)"

text \<open>The loop both classifiers run over a list of segments.\<close>

fun best_class :: "(str \<Rightarrow> FolderClass option) \<Rightarrow> str list \<Rightarrow> FolderClass option \<Rightarrow> FolderClass option" where
  "best_class f [] best = best"
| "best_class f (seg # segs) best =
     best_class f segs (case f seg of None \<Rightarrow> best | Some c \<Rightarrow> Some (min_rank_class best c))"

definition classify_recoverable :: "str list \<Rightarrow> FolderClass option" where
  "classify_recoverable segs =
     (case dropWhile (\<lambda>s. \<not> seg_eq s (lit ''Recoverable Items'')) segs of
        [] \<Rightarrow> None
      | ri # after \<Rightarrow>
          if after = [] then Some RecoverableOther
          else Some (case best_class match_recoverable_segment after None of
                       None \<Rightarrow> RecoverableOther | Some c \<Rightarrow> c))"

definition classify_folder :: "str \<Rightarrow> FolderClass" where
  "classify_folder folder_path =
     (let segs = path_segments folder_path in
      if segs = [] then Primary
      else
        (let best = (case classify_recoverable segs of
                       None \<Rightarrow> None | Some c \<Rightarrow> Some (min_rank_class None c))
         in case best_class match_non_recoverable_segment segs best of
              None \<Rightarrow> Primary | Some c \<Rightarrow> c))"

definition path_matches_folder_pattern :: "str list \<Rightarrow> str \<Rightarrow> bool" where
  "path_matches_folder_pattern folder_segments pattern =
     (let pat_segs = path_segments pattern; n = length folder_segments; m = length pat_segs in
      if pat_segs = [] then False
      else if m > n then False
      else list_ex (\<lambda>start. list_all (\<lambda>i. segment_glob_match (folder_segments ! (start + i)) (pat_segs ! i)) [0..<m])
             [0..<n - m + 1])"

fun first_match :: "('a \<Rightarrow> bool) \<Rightarrow> 'a list \<Rightarrow> nat option" where
  "first_match P [] = None"
| "first_match P (x # xs) = (if P x then Some 0 else map_option Suc (first_match P xs))"

definition folder_class_and_rank :: "str \<Rightarrow> FolderRankMode \<Rightarrow> FolderClass \<times> u32" where
  "folder_class_and_rank folder_path mode =
     (let cls = classify_folder folder_path
      in case mode of
           FrOff \<Rightarrow> (Primary, 0)
         | FrBuiltin \<Rightarrow> (cls, builtin_rank cls)
         | FrCustom patterns \<Rightarrow>
             (case first_match (path_matches_folder_pattern (path_segments folder_path)) patterns of
                Some i \<Rightarrow> (cls, 1 + i)
              | None \<Rightarrow> (cls, 0)))"

subsection \<open>Sources and policies\<close>

definition source_rank_of :: "bool \<Rightarrow> RecoverableScanItem \<Rightarrow> str list \<Rightarrow> u32" where
  "source_rank_of windows item patterns =
     (if patterns = [] then 0
      else
        (let key = path_key windows item
         in case first_match (\<lambda>pat. pat \<noteq> [] \<and>
                    str_contains key (if windows then to_ascii_lowercase pat else pat)) patterns of
              Some i \<Rightarrow> i
            | None \<Rightarrow> length patterns))"

definition prefer_path_policy_key :: "bool \<Rightarrow> RecoverableScanItem \<Rightarrow> str list \<Rightarrow> i64" where
  "prefer_path_policy_key windows item prefer_path =
     (let path_hay = lo_source_path (sc_locus item) @ lit ''|'' @ lo_folder_path (sc_locus item)
      in if list_ex (\<lambda>p. p \<noteq> [] \<and>
              (if windows then str_contains (to_lowercase path_hay) (to_lowercase p)
               else str_contains path_hay p)) prefer_path
         then 0 else 1)"

subsection \<open>The rank key\<close>

record RankKey =
  ky_fidelity :: nat
  ky_bcc :: nat
  ky_source :: u32
  ky_folder :: u32
  ky_policy_missing :: nat
  ky_policy_value :: i64
  ky_path_key :: str
  ky_nid :: u64
  ky_folder_class_first :: bool

datatype Ordering = Less | Equal | Greater

definition cmp :: "'a :: linorder \<Rightarrow> 'a \<Rightarrow> Ordering" where
  "cmp a b = (if a < b then Less else if a = b then Equal else Greater)"

fun and_then :: "Ordering \<Rightarrow> Ordering \<Rightarrow> Ordering" where
  "and_then Equal o2 = o2"
| "and_then o1 o2 = o1"

definition rank_cmp :: "RankKey \<Rightarrow> RankKey \<Rightarrow> Ordering" where
  "rank_cmp a b =
     (let mid = (if ky_folder_class_first a
                 then and_then (cmp (ky_folder a) (ky_folder b)) (cmp (ky_source a) (ky_source b))
                 else and_then (cmp (ky_source a) (ky_source b)) (cmp (ky_folder a) (ky_folder b)))
      in and_then (and_then (and_then (and_then (and_then (and_then
           (cmp (ky_fidelity a) (ky_fidelity b))
           (cmp (ky_bcc a) (ky_bcc b)))
           mid)
           (cmp (ky_policy_missing a) (ky_policy_missing b)))
           (cmp (ky_policy_value a) (ky_policy_value b)))
           (cmp (ky_path_key a) (ky_path_key b)))
           (cmp (ky_nid a) (ky_nid b)))"

definition policy_rung :: "bool \<Rightarrow> RecoverableScanItem \<Rightarrow> RankContext \<Rightarrow> nat \<times> i64" where
  "policy_rung windows item ctx =
     (case rk_policy ctx of
        FirstSeen \<Rightarrow> (0, u64_as_i64 (sc_scan_order item))
      | KeepLargest \<Rightarrow> (0, - int (sc_size item))
      | PreferPath \<Rightarrow> (0, prefer_path_policy_key windows item (rk_prefer_path ctx))
      | EarliestDate \<Rightarrow> (case fst (resolve_item_date item) of Some ft \<Rightarrow> (0, ft) | None \<Rightarrow> (1, 0)))"

definition rank_key :: "bool \<Rightarrow> RankContext \<Rightarrow> RecoverableScanItem \<Rightarrow> RankKey" where
  "rank_key windows ctx item =
     \<lparr> ky_fidelity = fidelity_rank_with_mode item (rk_fidelity_mode ctx),
       ky_bcc = (if rk_prefer_bcc_copy ctx then (if sc_has_bcc item then 0 else 1) else 0),
       ky_source = source_rank_of windows item (rk_source_rank_patterns ctx),
       ky_folder = snd (folder_class_and_rank (lo_folder_path (sc_locus item)) (rk_folder_rank ctx)),
       ky_policy_missing = fst (policy_rung windows item ctx),
       ky_policy_value = snd (policy_rung windows item ctx),
       ky_path_key = path_key windows item,
       ky_nid = lo_nid (sc_locus item),
       ky_folder_class_first = rk_folder_class_first ctx \<rparr>"

fun policy_token :: "KeepPolicy \<Rightarrow> str" where
  "policy_token FirstSeen = lit ''policy_first_seen''"
| "policy_token KeepLargest = lit ''policy_keep_largest''"
| "policy_token PreferPath = lit ''policy_prefer_path''"
| "policy_token EarliestDate = lit ''policy_earliest_date''"

definition decided_by_rung :: "RankKey \<Rightarrow> RankKey \<Rightarrow> KeepPolicy \<Rightarrow> bool \<Rightarrow> str" where
  "decided_by_rung self_key other_key policy self_is_winner =
     (let (a, b) = (if self_is_winner then (self_key, other_key) else (self_key, other_key)) in
      if ky_fidelity a \<noteq> ky_fidelity b then lit ''fidelity''
      else if ky_bcc a \<noteq> ky_bcc b then lit ''bcc_completeness''
      else if ky_folder_class_first a \<and> ky_folder a \<noteq> ky_folder b then lit ''folder_class''
      else if ky_source a \<noteq> ky_source b then lit ''source_rank''
      else if ky_folder a \<noteq> ky_folder b then lit ''folder_class''
      else if ky_policy_missing a \<noteq> ky_policy_missing b \<or> ky_policy_value a \<noteq> ky_policy_value b
      then policy_token policy
      else if ky_path_key a \<noteq> ky_path_key b then lit ''path_order''
      else if ky_nid a \<noteq> ky_nid b then lit ''nid''
      else lit ''path_order'')"

subsection \<open>Hints\<close>

definition multi_input_source_rank_hint :: "usize \<Rightarrow> str list \<Rightarrow> str option" where
  "multi_input_source_rank_hint input_count source_rank_patterns =
     (if input_count < 2 then None
      else if list_ex (\<lambda>p. p \<noteq> []) source_rank_patterns then None
      else Some (show_nat input_count @
        lit '' input PST(s) without --source-rank; first_seen and remaining ties use sorted path order (ASCII '-' sorts before '.', so -2.pst can crown before .pst)''))"

definition recoverable_items_hint :: "u64 \<Rightarrow> str option" where
  "recoverable_items_hint winners_from_recoverable_items =
     (if winners_from_recoverable_items = 0 then None
      else Some (show_nat winners_from_recoverable_items @
        lit '' winner(s) came from Recoverable Items folders; consider re-running with --prefer-folder-class to prefer live-mailbox copies''))"

subsection \<open>The comparison is a lexicographic order\<close>

lemma and_then_Equal [simp]: "and_then x Equal = x"
  by (cases x) simp_all

lemma and_then_assoc: "and_then (and_then x y) z = and_then x (and_then y z)"
  by (cases x) simp_all

lemma cmp_simps [simp]:
  "cmp a b = Less \<longleftrightarrow> a < b" "cmp a b = Equal \<longleftrightarrow> a = b" "cmp a b = Greater \<longleftrightarrow> b < a"
  by (auto simp: cmp_def)

lemma cmp_self [simp]: "cmp a a = Equal"
  by simp

lemma cmp_pair: "cmp (a, b) (c, d) = and_then (cmp a c) (cmp b d)"
  by (auto simp: cmp_def less_prod_def)

text \<open>The specification: the rungs as a tuple, compared lexicographically.\<close>

definition rank_tuple :: "RankKey \<Rightarrow> nat \<times> nat \<times> (nat \<times> nat) \<times> nat \<times> int \<times> str \<times> nat" where
  "rank_tuple k =
     (ky_fidelity k, ky_bcc k,
      (if ky_folder_class_first k then (ky_folder k, ky_source k) else (ky_source k, ky_folder k)),
      ky_policy_missing k, ky_policy_value k, ky_path_key k, ky_nid k)"

lemma rank_cmp_cmp:
  "ky_folder_class_first a = ky_folder_class_first b \<Longrightarrow> rank_cmp a b = cmp (rank_tuple a) (rank_tuple b)"
  by (simp add: rank_cmp_def rank_tuple_def cmp_pair and_then_assoc Let_def)

definition rank_le :: "bool \<Rightarrow> RankContext \<Rightarrow> RecoverableScanItem list \<Rightarrow> nat \<Rightarrow> nat \<Rightarrow> bool" where
  "rank_le windows ctx items a b \<longleftrightarrow>
     rank_cmp (rank_key windows ctx (items ! a)) (rank_key windows ctx (items ! b)) \<noteq> Greater"

lemma rank_key_flag [simp]: "ky_folder_class_first (rank_key w ctx item) = rk_folder_class_first ctx"
  by (simp add: rank_key_def)

lemma rank_le_tuple:
  "rank_le w ctx items a b \<longleftrightarrow>
     rank_tuple (rank_key w ctx (items ! a)) \<le> rank_tuple (rank_key w ctx (items ! b))"
  by (auto simp: rank_le_def rank_cmp_cmp)

interpretation winner: ranking "rank_le w ctx items" UNIV
  by unfold_locales (auto simp: rank_le_tuple)

text \<open>
  C20: the comparison of rank keys is the lexicographic order of the ladder. For keys built under one
  context it orders fidelity, BCC, source and folder (in the configured order), policy, path and
  node id one after the other, so it is a total order and two keys compare equal only when every
  rung agrees.
\<close>

theorem rank_cmp_lexicographic:
  assumes "ky_folder_class_first a = ky_folder_class_first b"
  shows "(rank_cmp a b = Less \<longleftrightarrow> rank_tuple a < rank_tuple b) \<and>
    (rank_cmp a b = Equal \<longleftrightarrow> a = b) \<and> (rank_cmp a b = Greater \<longleftrightarrow> rank_cmp b a = Less)"
proof -
  have "rank_tuple a = rank_tuple b \<longleftrightarrow> a = b"
    using assms by (cases a; cases b) (auto simp: rank_tuple_def)
  with assms show ?thesis by (simp add: rank_cmp_cmp)
qed

definition sample_key :: "nat \<Rightarrow> nat \<Rightarrow> bool \<Rightarrow> RankKey" where
  "sample_key source folder flag =
     \<lparr> ky_fidelity = 0, ky_bcc = 0, ky_source = source, ky_folder = folder, ky_policy_missing = 0,
       ky_policy_value = 0, ky_path_key = [], ky_nid = 0, ky_folder_class_first = flag \<rparr>"

theorem rank_cmp_lexicographic_witness:
  "rank_cmp (sample_key 0 1 False) (sample_key 1 0 False) = Less"
  using rank_cmp_lexicographic [of "sample_key 0 1 False" "sample_key 1 0 False"]
  by (simp add: sample_key_def rank_tuple_def)

text \<open>
  The flag that swaps source and folder is part of the key, but only the left operand's flag is
  consulted: two keys with different flags can each be less than the other, so the comparison is
  an order only among keys of one context.
\<close>

lemma rank_cmp_mixed_flags:
  "rank_cmp (sample_key 0 1 False) (sample_key 1 0 True) = Less \<and>
   rank_cmp (sample_key 1 0 True) (sample_key 0 1 False) = Less"
  by (simp add: rank_cmp_def sample_key_def cmp_def)

subsection \<open>The deciding rung\<close>

text \<open>The ladder with the outcome of each rung.\<close>

definition ladder :: "KeepPolicy \<Rightarrow> RankKey \<Rightarrow> RankKey \<Rightarrow> (str \<times> Ordering) list" where
  "ladder policy a b =
     [(lit ''fidelity'', cmp (ky_fidelity a) (ky_fidelity b)),
      (lit ''bcc_completeness'', cmp (ky_bcc a) (ky_bcc b))] @
     (let source = (lit ''source_rank'', cmp (ky_source a) (ky_source b));
          folder = (lit ''folder_class'', cmp (ky_folder a) (ky_folder b))
      in if ky_folder_class_first a then [folder, source] else [source, folder]) @
     [(policy_token policy, and_then (cmp (ky_policy_missing a) (ky_policy_missing b))
                              (cmp (ky_policy_value a) (ky_policy_value b))),
      (lit ''path_order'', cmp (ky_path_key a) (ky_path_key b)),
      (lit ''nid'', cmp (ky_nid a) (ky_nid b))]"

fun decision :: "(str \<times> Ordering) list \<Rightarrow> str \<times> Ordering" where
  "decision [] = (lit ''path_order'', Equal)"
| "decision ((t, c) # rungs) = (if c \<noteq> Equal then (t, c) else decision rungs)"

lemma and_then_eq_Equal: "and_then x y = Equal \<longleftrightarrow> x = Equal \<and> y = Equal"
  by (cases x) simp_all

lemma and_then_neq: "x \<noteq> Equal \<Longrightarrow> and_then x y = x"
  by (cases x) simp_all

lemma snd_decision: "snd (decision rungs) = foldr (\<lambda>r. and_then (snd r)) rungs Equal"
  by (induction rungs rule: decision.induct) (auto simp: and_then_neq)

text \<open>
  C21: the recorded reason is the real one. The token of \<open>decided_by_rung\<close> and the outcome of the
  comparison come from the same rung: the first one of the ladder on which the two keys differ.
\<close>

theorem decided_by_is_deciding_rung:
  "decision (ladder policy a b) = (decided_by_rung a b policy w, rank_cmp a b)"
proof (rule prod_eqI)
  show "fst (decision (ladder policy a b)) = fst (decided_by_rung a b policy w, rank_cmp a b)"
    by (simp add: ladder_def decided_by_rung_def and_then_eq_Equal Let_def)
  show "snd (decision (ladder policy a b)) = snd (decided_by_rung a b policy w, rank_cmp a b)"
    by (simp add: snd_decision ladder_def rank_cmp_def and_then_assoc and_then_neq Let_def)
qed

subsection \<open>Fidelity\<close>

lemma fold_max: "fold (\<lambda>r w. max w (f r)) rs w0 = Max (insert w0 (f ` set rs))"
proof (induction rs arbitrary: w0)
  case (Cons r rs)
  have "fold (\<lambda>r w. max w (f r)) (r # rs) w0 = Max (insert (max w0 (f r)) (f ` set rs))"
    using Cons by simp
  also have "\<dots> = Max (insert w0 (f ` set (r # rs)))"
    by (cases "f ` set rs = {}") (simp_all add: max.assoc)
  finally show ?case .
qed simp

lemma reason_fidelity_tier_range: "1 \<le> reason_fidelity_tier r \<and> reason_fidelity_tier r \<le> 4"
  by (cases r) simp_all

text \<open>
  Fidelity is graded by the worst problem. A candidate gets rank 0 exactly when it is neither
  degraded nor orphaned, otherwise between 1 and 4; no recorded reason is worse than the rank, an
  orphan has the worst one, and the binary mode only forgets the grade.
\<close>

theorem fidelity_rank_worst:
  "(graded_fidelity_rank item = 0 \<longleftrightarrow> \<not> in_degraded (sc_integrity item) \<and> \<not> in_is_orphaned (sc_integrity item)) \<and>
   graded_fidelity_rank item \<le> 4 \<and>
   (in_is_orphaned (sc_integrity item) \<longrightarrow> graded_fidelity_rank item = 4) \<and>
   (in_degraded (sc_integrity item) \<longrightarrow>
      (\<forall>r\<in>set (in_degraded_reasons (sc_integrity item)). reason_fidelity_tier r \<le> graded_fidelity_rank item)) \<and>
   fidelity_rank item = min 1 (graded_fidelity_rank item)"
proof -
  let ?i = "sc_integrity item"
  let ?w0 = "if in_is_orphaned ?i then 4 else 0 :: nat"
  define worst where "worst = Max (insert ?w0 (reason_fidelity_tier ` set (in_degraded_reasons ?i)))"
  have g: "graded_fidelity_rank item =
      (if \<not> in_degraded ?i \<and> \<not> in_is_orphaned ?i then 0 else if worst = 0 then 3 else worst)"
    unfolding graded_fidelity_rank_def Let_def fold_max worst_def by simp
  have le: "worst \<le> 4" using reason_fidelity_tier_range by (auto simp: worst_def)
  have "?w0 \<le> worst" by (simp add: worst_def)
  with le have orph: "in_is_orphaned ?i \<Longrightarrow> worst = 4" by (simp split: if_splits)
  have mem: "reason_fidelity_tier r \<le> worst" if "r \<in> set (in_degraded_reasons ?i)" for r
    using that by (simp add: worst_def)
  have "reason_fidelity_tier r \<noteq> 0" for r using reason_fidelity_tier_range [of r] by simp
  with le orph mem show ?thesis
    by (auto simp: fidelity_rank_def fidelity_rank_with_mode_def g)
qed

theorem fidelity_rank_worst_witness:
  "graded_fidelity_rank (sample_candidate None [AttachStreamCrc, AttachMetaFailed] 1) \<ge> 2"
  using fidelity_rank_worst [of "sample_candidate None [AttachStreamCrc, AttachMetaFailed] 1"]
  by (simp add: sample_candidate_def with_degraded_def)

subsection \<open>Folder patterns and classes\<close>

lemma ascii_lower_star [simp]: "ascii_lower c = 42 \<longleftrightarrow> c = 42"
  by (auto simp: ascii_lower_def)

lemma star_in_lowercase [simp]: "42 \<in> set (to_ascii_lowercase s) \<longleftrightarrow> 42 \<in> set s"
  by (auto simp: to_ascii_lowercase_def image_iff dest: sym)

lemma to_ascii_lowercase_append [simp]:
  "to_ascii_lowercase (s @ t) = to_ascii_lowercase s @ to_ascii_lowercase t"
  "to_ascii_lowercase (42 # t) = 42 # to_ascii_lowercase t" "to_ascii_lowercase [] = []"
  by (simp_all add: to_ascii_lowercase_def ascii_lower_def)

lemma trim_matches_star:
  assumes "c \<notin> set s" and "s \<noteq> []"
  shows "trim_matches c s = s" "trim_matches c (c # s) = s" "trim_matches c (s @ [c]) = s"
    "trim_matches c (c # s @ [c]) = s"
proof -
  have d: "dropWhile (\<lambda>x. x = c) s = s" "dropWhile (\<lambda>x. x = c) (rev s) = rev s"
    "dropWhile (\<lambda>x. x = c) (s @ [c]) = s @ [c]"
    using assms by (auto simp: dropWhile_eq_self_iff hd_append) (metis hd_in_set hd_rev last_in_set)+
  then show "trim_matches c s = s" "trim_matches c (c # s) = s" "trim_matches c (s @ [c]) = s"
    "trim_matches c (c # s @ [c]) = s"
    by (simp_all add: trim_matches_def trim_end_by_def trim_start_by_def)
qed

text \<open>
  The folder globs. A pattern segment without a star matches the same name in any ASCII letter
  case; a star at an end matches any text there, stars at both ends match names that contain the
  text between, and a lone star matches every name.
\<close>

theorem segment_glob_match_iff:
  assumes "42 \<notin> set core" and "core \<noteq> []"
  shows "(segment_glob_match seg core \<longleftrightarrow> to_ascii_lowercase seg = to_ascii_lowercase core) \<and>
    (segment_glob_match seg (42 # core) \<longleftrightarrow> (\<exists>a. to_ascii_lowercase seg = a @ to_ascii_lowercase core)) \<and>
    (segment_glob_match seg (core @ [42]) \<longleftrightarrow> (\<exists>b. to_ascii_lowercase seg = to_ascii_lowercase core @ b)) \<and>
    (segment_glob_match seg (42 # core @ [42]) \<longleftrightarrow>
       (\<exists>a b. to_ascii_lowercase seg = a @ to_ascii_lowercase core @ b)) \<and>
    segment_glob_match seg [42]"
proof -
  define c where "c = to_ascii_lowercase core"
  have c: "42 \<notin> set c" "c \<noteq> []" using assms by (simp_all add: c_def)
  then have ends: "\<not> prefix [42] c" "\<not> suffix [42] c" "\<not> prefix [42] (c @ [42])" "\<not> suffix [42] (42 # c)"
    by (auto simp: prefix_def suffix_def Cons_eq_append_conv append_eq_Cons_conv)
  have lone: "trim_matches 42 [42] = []"
    by (simp add: trim_matches_def trim_end_by_def trim_start_by_def)
  have fix_ends: "prefix [42] (42 # s)" "suffix [42] (s @ [42])" "suffix [42] (42 # s @ [42])" for s :: str
    by (auto simp: suffix_def)
  show ?thesis
    unfolding segment_glob_match_def Let_def to_ascii_lowercase_append c_def [symmetric]
    using c ends fix_ends lone trim_matches_star [OF c]
    by (auto simp: str_contains_iff prefix_def suffix_def)
qed

theorem segment_glob_match_iff_witness:
  "segment_glob_match (lit ''In-Place ARCHIVE 2'') (lit ''in-place archive'' @ [42])"
  using segment_glob_match_iff [of "lit ''in-place archive''" "lit ''In-Place ARCHIVE 2''"]
  by (simp add: to_ascii_lowercase_def ascii_lower_def)

definition class_candidates :: "str list \<Rightarrow> FolderClass set" where
  "class_candidates segs =
     set_option (classify_recoverable segs) \<union> (\<Union>s\<in>set segs. set_option (match_non_recoverable_segment s))"

definition best_of :: "FolderClass set \<Rightarrow> FolderClass option \<Rightarrow> bool" where
  "best_of cands best \<longleftrightarrow>
     (case best of
        None \<Rightarrow> cands = {}
      | Some c \<Rightarrow> c \<in> cands \<and> (\<forall>d\<in>cands. builtin_rank c \<le> builtin_rank d))"

lemma best_of_insert: "best_of cands best \<Longrightarrow> best_of (insert c cands) (Some (min_rank_class best c))"
  by (auto simp: best_of_def min_rank_class_def split: option.splits)

lemma best_class_best:
  "best_of cands best \<Longrightarrow> best_of (cands \<union> (\<Union>s\<in>set segs. set_option (f s))) (best_class f segs best)"
proof (induction segs arbitrary: cands best)
  case (Cons s segs)
  show ?case
  proof (cases "f s")
    case None
    with Cons show ?thesis by simp
  next
    case (Some c)
    with Cons.IH [OF best_of_insert [OF Cons.prems, of c]] show ?thesis by (simp add: Un_commute Un_left_commute)
  qed
qed simp

text \<open>
  The class of a folder is the best class any part of its path suggests: the Recoverable Items
  class of the path and the classes of its segments are the candidates, the one with the lowest
  built-in rank wins, and a path that suggests nothing is primary.
\<close>

theorem classify_folder_best:
  "if class_candidates (path_segments p) = {} then classify_folder p = Primary
   else classify_folder p \<in> class_candidates (path_segments p) \<and>
     builtin_rank (classify_folder p) = Min (builtin_rank ` class_candidates (path_segments p))"
proof -
  let ?segs = "path_segments p"
  let ?rec = "case classify_recoverable ?segs of None \<Rightarrow> None | Some c \<Rightarrow> Some (min_rank_class None c)"
  let ?best = "best_class match_non_recoverable_segment ?segs ?rec"
  have "best_of (set_option (classify_recoverable ?segs)) ?rec"
    by (auto simp: best_of_def min_rank_class_def split: option.splits)
  from best_class_best [OF this] have best: "best_of (class_candidates ?segs) ?best"
    by (simp add: class_candidates_def)
  have "classify_recoverable [] = None" by (simp add: classify_recoverable_def)
  then have cls: "classify_folder p = (case ?best of None \<Rightarrow> Primary | Some c \<Rightarrow> c)"
    by (simp add: classify_folder_def Let_def)
  have "finite (class_candidates ?segs)"
    by (auto simp: class_candidates_def)
  with best cls show ?thesis
    by (auto simp: best_of_def split: option.splits intro!: Min_eqI [symmetric])
qed

end
