(* ===== verification/Keep_Records.thy ===== *)
theory Keep_Records
  imports Keep_Grouping Keep_Rank
begin

text \<open>
  The records of winner resolution (\<^verbatim>\<open>dedup-engine/src/keepset.rs\<close>): keep-set entries and
  statistics, decision rows, soft-skip rows and the resolved keep set. A \<open>Platform\<close> bundles what
  comes from outside the crate: \<^verbatim>\<open>cfg!(windows)\<close>, the MD5 function of the EDRM identifier, and
  \<^verbatim>\<open>Path::file_name\<close>, whose notion of a path component depends on the platform.
\<close>

record Platform =
  pl_windows :: bool
  pl_md5 :: "bytes \<Rightarrow> bytes"
  pl_file_name :: "str \<Rightarrow> str option"

subsection \<open>Records\<close>

datatype DecisionRole = RoleUnique | RoleDupOf | RoleMaterializeFailed

fun role_as_str :: "DecisionRole \<Rightarrow> str" where
  "role_as_str RoleUnique = lit ''unique''"
| "role_as_str RoleDupOf = lit ''dup_of''"
| "role_as_str RoleMaterializeFailed = lit ''materialize_failed''"

datatype PromoteReason = MaterializeFail | AttachIncomplete | ModeCFallbackAllPeersIncomplete

fun promote_as_str :: "PromoteReason \<Rightarrow> str" where
  "promote_as_str MaterializeFail = lit ''promoted_after_materialize_fail''"
| "promote_as_str AttachIncomplete = lit ''promoted_after_attach_incomplete''"
| "promote_as_str ModeCFallbackAllPeersIncomplete = lit ''mode_c_fallback_all_peers_incomplete''"

record KeepEntry =
  ke_locus :: MessageLocus
  ke_message_id_norm :: "str option"
  ke_content_hash :: bytes
  ke_edrm_mih_hex :: "str option"
  ke_integrity :: RecoverableIntegrity
  ke_size :: u32
  ke_promoted_from_failure :: bool
  ke_folder_class :: "str option"
  ke_decided_by :: "str option"
  ke_duplicate_source_count :: u64
  ke_duplicate_sources :: "str list"
  ke_duplicate_sources_truncated :: bool

record KeepSetStats =
  st_recoverable :: u64
  st_unique :: u64
  st_duplicates :: u64
  st_tier1_dups :: u64
  st_tier2_dups :: u64
  st_degraded_winners :: u64
  st_materialize_failed :: u64
  st_promoted_from_failure :: u64
  st_groups_dropped_materialize :: u64
  st_groups :: u64
  st_groups_date_source_mixed :: u64
  st_winners_without_bcc_peer_had_bcc :: u64
  st_winners_from_recoverable_items :: u64
  st_grouping :: GroupingStats
  st_promoted_after_attach_incomplete_count :: u64
  st_mode_c_fallback_all_peers_incomplete_count :: u64

definition default_keep_stats :: KeepSetStats where
  "default_keep_stats =
     \<lparr> st_recoverable = 0, st_unique = 0, st_duplicates = 0, st_tier1_dups = 0, st_tier2_dups = 0,
       st_degraded_winners = 0, st_materialize_failed = 0, st_promoted_from_failure = 0,
       st_groups_dropped_materialize = 0, st_groups = 0, st_groups_date_source_mixed = 0,
       st_winners_without_bcc_peer_had_bcc = 0, st_winners_from_recoverable_items = 0,
       st_grouping = default_stats, st_promoted_after_attach_incomplete_count = 0,
       st_mode_c_fallback_all_peers_incomplete_count = 0 \<rparr>"

record KeepSetProvenance =
  pv_scan_integrity_schema :: str
  pv_mode :: str
  pv_input_files :: "str list"

definition KEEP_SET_SCHEMA :: str where
  "KEEP_SET_SCHEMA = lit ''keep_set_v1''"

record KeepSet =
  ks_schema :: str
  ks_policy :: KeepPolicy
  ks_family_policy :: FamilyPolicy
  ks_created_from :: "KeepSetProvenance option"
  ks_identity_level :: "str option"
  ks_dedupe_scope :: "str option"
  ks_winners :: "KeepEntry list"
  ks_stats :: KeepSetStats

text \<open>The columns of a decision row, with the two groups of columns later versions appended.\<close>

record DecisionRecordV1 =
  dr_source_path :: str
  dr_source_pst :: str
  dr_folder_path :: str
  dr_is_orphaned :: bool
  dr_nid :: u64
  dr_message_id_norm :: "str option"
  dr_content_hash_hex :: str
  dr_edrm_mih :: "str option"
  dr_role :: DecisionRole
  dr_tier :: "str option"
  dr_winner_source_pst :: "str option"
  dr_winner_folder :: "str option"
  dr_winner_nid :: "u64 option"
  dr_policy :: KeepPolicy
  dr_family_policy :: FamilyPolicy
  dr_degraded :: bool
  dr_degraded_reasons :: "str list"
  dr_size :: u32
  dr_promoted_from_failure :: bool

record DecisionRecord = DecisionRecordV1 +
  dr_folder_class :: str
  dr_folder_class_rank :: u32
  dr_source_rank :: u32
  dr_has_bcc :: bool
  dr_date_filetime_utc :: str
  dr_date_source :: str
  dr_decided_by :: str
  dr_duplicate_source_count :: u64
  dr_duplicate_sources :: str
  dr_bound_by :: str
  dr_identity_version :: str
  dr_tier2_eligible :: bool

record SoftSkipAttachRecord =
  sk_source_path :: str
  sk_source_pst :: str
  sk_folder_path :: str
  sk_msg_nid :: u64
  sk_attach_nid :: "u64 option"
  sk_attach_index :: u32
  sk_filename :: str
  sk_size :: u32
  sk_attach_method :: int
  sk_reason_code :: str
  sk_peer_source_path :: str
  sk_peer_msg_nid :: u64
  sk_cloud_provider :: str
  sk_cloud_url :: str

text \<open>The inputs of a resolution and, extending them, its per-group and per-item results.\<close>

record ResolvedInputs =
  rs_policy :: KeepPolicy
  rs_family_policy :: FamilyPolicy
  rs_prefer_path :: "str list"
  rs_rank_ctx :: RankContext
  rs_tier2_enabled :: bool
  rs_grouping_ctx :: GroupingContext
  rs_items :: "RecoverableScanItem list"
  rs_groups :: "nat list list"
  rs_created_from :: "KeepSetProvenance option"

record ResolvedKeepSet = ResolvedInputs +
  rs_provisional_winners :: "nat option list"
  rs_roles :: "DecisionRole list"
  rs_winner_of :: "nat option list"
  rs_tier_of :: "str option list"
  rs_bound_by :: "BoundBy list"
  rs_tier2_eligible :: "bool list"
  rs_grouping_stats :: GroupingStats
  rs_promoted_from_failure :: "bool list"
  rs_promote_reason :: "PromoteReason option list"
  rs_soft_skip_attach_records :: "SoftSkipAttachRecord list"
  rs_group_dropped :: "bool list"

end
