(* ===== verification/Keep_Resolve.thy ===== *)
theory Keep_Resolve
  imports Keep_Backfill Keep_Records
begin

text \<open>
  Resolution of groups to winners (\<^verbatim>\<open>dedup-engine/src/keepset.rs\<close>): \<^verbatim>\<open>resolve_groups_with_grouping\<close>
  and its wrappers, the methods of \<^verbatim>\<open>ResolvedKeepSet\<close> that build the keep set and the decision rows,
  and the theorems on winners and statistics. Item indices are always in range here, so list
  access by index is the source's indexing.
\<close>

subsection \<open>Ranking a group\<close>

definition ranked_members :: "bool \<Rightarrow> RankContext \<Rightarrow> RecoverableScanItem list \<Rightarrow> nat list \<Rightarrow> nat list" where
  "ranked_members windows ctx items g = sort_by (rank_le windows ctx items) g"

text \<open>The vectors the resolution loop writes: roles, winners, tiers and provisional winners.\<close>

type_synonym verdicts = "DecisionRole list \<times> nat option list \<times> str option list"

definition tier_for :: "BoundBy list \<Rightarrow> nat \<Rightarrow> str option" where
  "tier_for bound_by idx = (if idx < length bound_by then tier_csv (bound_by ! idx) else None)"

definition resolve_member :: "BoundBy list \<Rightarrow> nat \<Rightarrow> nat \<Rightarrow> verdicts \<Rightarrow> verdicts" where
  "resolve_member bound_by winner idx v =
     (let (roles, winner_of, tier_of) = v in
      if idx = winner
      then (roles[idx := RoleUnique], winner_of[idx := Some winner], tier_of[idx := None])
      else (roles[idx := RoleDupOf], winner_of[idx := Some winner],
            tier_of[idx := tier_for bound_by idx]))"

definition resolve_group ::
  "bool \<Rightarrow> RankContext \<Rightarrow> RecoverableScanItem list \<Rightarrow> BoundBy list \<Rightarrow> nat list \<Rightarrow>
   verdicts \<times> nat option list \<Rightarrow> verdicts \<times> nat option list" where
  "resolve_group windows ctx items bound_by members acc =
     (let (v, provisional) = acc in
      if members = [] then (v, provisional @ [None])
      else
        (let winner = hd (ranked_members windows ctx items members)
         in (fold (resolve_member bound_by winner) members v, provisional @ [Some winner])))"

definition resolve_groups_with_grouping ::
  "Platform \<Rightarrow> RecoverableScanItem list \<Rightarrow> FamilyPolicy \<Rightarrow> RankContext \<Rightarrow> GroupingContext \<Rightarrow>
   KeepSetProvenance option \<Rightarrow> ResolvedKeepSet" where
  "resolve_groups_with_grouping pl items family_policy rank_ctx grouping_ctx created_from =
     (let outcome = group_candidates_with_stats (pl_windows pl) grouping_ctx items;
          groups = go_groups outcome; n = length items;
          ((roles, winner_of, tier_of), provisional) =
            fold (resolve_group (pl_windows pl) rank_ctx items (go_bound_by outcome)) groups
              ((replicate n RoleUnique, replicate n None, replicate n None), [])
      in \<lparr> rs_policy = rk_policy rank_ctx, rs_family_policy = family_policy,
           rs_prefer_path = rk_prefer_path rank_ctx, rs_rank_ctx = rank_ctx,
           rs_tier2_enabled = gx_tier2_enabled grouping_ctx, rs_grouping_ctx = grouping_ctx,
           rs_items = items, rs_groups = groups, rs_created_from = created_from,
           rs_provisional_winners = provisional, rs_roles = roles, rs_winner_of = winner_of,
           rs_tier_of = tier_of, rs_bound_by = go_bound_by outcome,
           rs_tier2_eligible = go_tier2_eligible outcome, rs_grouping_stats = go_stats outcome,
           rs_promoted_from_failure = replicate n False, rs_promote_reason = replicate n None,
           rs_soft_skip_attach_records = [], rs_group_dropped = replicate (length groups) False \<rparr>)"

definition resolve_groups_with_ctx ::
  "Platform \<Rightarrow> RecoverableScanItem list \<Rightarrow> FamilyPolicy \<Rightarrow> RankContext \<Rightarrow> bool \<Rightarrow>
   KeepSetProvenance option \<Rightarrow> ResolvedKeepSet" where
  "resolve_groups_with_ctx pl items family_policy rank_ctx tier2_enabled created_from =
     resolve_groups_with_grouping pl items family_policy rank_ctx (with_tier2 tier2_enabled) created_from"

definition resolve_groups ::
  "Platform \<Rightarrow> RecoverableScanItem list \<Rightarrow> KeepPolicy \<Rightarrow> FamilyPolicy \<Rightarrow> str list \<Rightarrow> bool \<Rightarrow>
   KeepSetProvenance option \<Rightarrow> ResolvedKeepSet" where
  "resolve_groups pl items policy family_policy prefer_path tier2_enabled created_from =
     resolve_groups_with_ctx pl items family_policy (from_policy_and_prefer policy prefer_path)
       tier2_enabled created_from"

subsection \<open>Rows\<close>

definition source_basename :: "Platform \<Rightarrow> str \<Rightarrow> str" where
  "source_basename pl source_pst =
     (case pl_file_name pl source_pst of Some name \<Rightarrow> name | None \<Rightarrow> source_pst)"

definition DUPLICATE_SOURCES_CAP :: nat where
  "DUPLICATE_SOURCES_CAP = 8"

definition duplicate_source_aggregate ::
  "Platform \<Rightarrow> RecoverableScanItem list \<Rightarrow> nat list \<Rightarrow> nat \<Rightarrow> u64 \<times> str list \<times> bool" where
  "duplicate_source_aggregate pl items members winner_idx =
     (let base_of = (\<lambda>i. source_basename pl (lo_source_pst (sc_locus (items ! i))));
          bases = filter (\<lambda>b. b \<noteq> base_of winner_idx)
                    (map base_of (filter (\<lambda>i. i \<noteq> winner_idx) members));
          names = sort (fold set_insert bases [])
      in (length names, take DUPLICATE_SOURCES_CAP names, length names > DUPLICATE_SOURCES_CAP))"

definition group_containing :: "ResolvedKeepSet \<Rightarrow> nat \<Rightarrow> nat list" where
  "group_containing rs i =
     (case filter (\<lambda>g. i \<in> set g) (rs_groups rs) of [] \<Rightarrow> [i] | g # _ \<Rightarrow> g)"

definition best_rival :: "bool \<Rightarrow> ResolvedKeepSet \<Rightarrow> nat \<Rightarrow> nat list \<Rightarrow> RankKey option" where
  "best_rival windows rs i members =
     fold (\<lambda>j best.
         if j = i then best
         else
           (let k = rank_key windows (rs_rank_ctx rs) (rs_items rs ! j)
            in Some (case best of
                       None \<Rightarrow> k
                     | Some prev \<Rightarrow> if rank_cmp k prev = Less then k else prev)))
       members None"

definition promote_reason_at :: "ResolvedKeepSet \<Rightarrow> nat \<Rightarrow> PromoteReason option" where
  "promote_reason_at rs i =
     (if i < length (rs_promote_reason rs) then rs_promote_reason rs ! i else None)"

definition decided_by_for :: "Platform \<Rightarrow> ResolvedKeepSet \<Rightarrow> nat \<Rightarrow> str" where
  "decided_by_for pl rs i =
     (case (if rs_roles rs ! i = RoleUnique then promote_reason_at rs i else None) of
        Some reason \<Rightarrow> promote_as_str reason
      | None \<Rightarrow>
          (let members = group_containing rs i in
           if length members = 1 then lit ''sole_member''
           else
             (let self_key = rank_key (pl_windows pl) (rs_rank_ctx rs) (rs_items rs ! i)
              in case rs_roles rs ! i of
                   RoleUnique \<Rightarrow>
                     (case best_rival (pl_windows pl) rs i members of
                        Some rival \<Rightarrow> decided_by_rung self_key rival (rs_policy rs) True
                      | None \<Rightarrow> lit ''sole_member'')
                 | RoleDupOf \<Rightarrow>
                     (case rs_winner_of rs ! i of
                        Some wi \<Rightarrow>
                          decided_by_rung self_key
                            (rank_key (pl_windows pl) (rs_rank_ctx rs) (rs_items rs ! wi))
                            (rs_policy rs) False
                      | None \<Rightarrow> lit ''path_order'')
                 | RoleMaterializeFailed \<Rightarrow> lit ''path_order'')))"

definition winner_columns :: "ResolvedKeepSet \<Rightarrow> nat \<Rightarrow> str option \<times> str option \<times> u64 option" where
  "winner_columns rs i =
     (case rs_roles rs ! i of
        RoleDupOf \<Rightarrow>
          (case rs_winner_of rs ! i of
             Some wi \<Rightarrow>
               (let w = sc_locus (rs_items rs ! wi)
                in (Some (lo_source_pst w), Some (lo_folder_path w), Some (lo_nid w)))
           | None \<Rightarrow> (None, None, None))
      | _ \<Rightarrow> (None, None, None))"

definition decision_at :: "Platform \<Rightarrow> ResolvedKeepSet \<Rightarrow> nat \<Rightarrow> DecisionRecord" where
  "decision_at pl rs i =
     (let item = rs_items rs ! i; locus = sc_locus item;
          (winner_pst, winner_folder, winner_nid) = winner_columns rs i;
          (cls, folder_rank) = folder_class_and_rank (lo_folder_path locus) (rk_folder_rank (rs_rank_ctx rs));
          (date_ft, date_src) = resolve_item_date item;
          (dup_count, dup_sources) =
            (if rs_roles rs ! i = RoleUnique
             then (let (count, names, _) = duplicate_source_aggregate pl (rs_items rs) (group_containing rs i) i
                   in (count, join_with (lit ''|'') names))
             else (0, []))
      in \<lparr> dr_source_path = lo_source_path locus, dr_source_pst = lo_source_pst locus,
           dr_folder_path = lo_folder_path locus,
           dr_is_orphaned = (lo_is_orphaned locus \<or> in_is_orphaned (sc_integrity item)),
           dr_nid = lo_nid locus, dr_message_id_norm = sc_message_id_norm item,
           dr_content_hash_hex = content_hash_hex item,
           dr_edrm_mih = item_edrm_mih_hex (pl_md5 pl) item,
           dr_role = rs_roles rs ! i, dr_tier = rs_tier_of rs ! i,
           dr_winner_source_pst = winner_pst, dr_winner_folder = winner_folder,
           dr_winner_nid = winner_nid, dr_policy = rs_policy rs,
           dr_family_policy = rs_family_policy rs, dr_degraded = in_degraded (sc_integrity item),
           dr_degraded_reasons = map reason_as_str (in_degraded_reasons (sc_integrity item)),
           dr_size = sc_size item, dr_promoted_from_failure = rs_promoted_from_failure rs ! i,
           dr_folder_class = folder_class_as_str cls, dr_folder_class_rank = folder_rank,
           dr_source_rank = source_rank_of (pl_windows pl) item (rk_source_rank_patterns (rs_rank_ctx rs)),
           dr_has_bcc = sc_has_bcc item, dr_date_filetime_utc = format_date_filetime_utc date_ft,
           dr_date_source = date_source_as_str date_src, dr_decided_by = decided_by_for pl rs i,
           dr_duplicate_source_count = dup_count, dr_duplicate_sources = dup_sources,
           dr_bound_by = bound_by_as_str (if i < length (rs_bound_by rs) then rs_bound_by rs ! i else Seed),
           dr_identity_version = identity_version (gx_identity (rs_grouping_ctx rs)),
           dr_tier2_eligible =
             (if i < length (rs_tier2_eligible rs) then rs_tier2_eligible rs ! i else True) \<rparr>)"

text \<open>A callback changes a state of its own and may stop the visit with an error.\<close>

fun try_each :: "('s \<Rightarrow> 'a \<Rightarrow> 's \<times> 'e option) \<Rightarrow> 'a list \<Rightarrow> 's \<Rightarrow> 's \<times> 'e option" where
  "try_each f [] s = (s, None)"
| "try_each f (x # xs) s =
     (case f s x of (s1, Some e) \<Rightarrow> (s1, Some e) | (s1, None) \<Rightarrow> try_each f xs s1)"

definition for_each_decision ::
  "Platform \<Rightarrow> ResolvedKeepSet \<Rightarrow> ('s \<Rightarrow> DecisionRecord \<Rightarrow> 's \<times> 'e option) \<Rightarrow> 's \<Rightarrow> 's \<times> 'e option" where
  "for_each_decision pl rs f s =
     try_each (\<lambda>s i. f s (decision_at pl rs i)) [0..<length (rs_items rs)] s"

definition to_decisions :: "Platform \<Rightarrow> ResolvedKeepSet \<Rightarrow> DecisionRecord list" where
  "to_decisions pl rs =
     fst (for_each_decision pl rs (\<lambda>out row. (out @ [row], None :: unit option)) [])"

lemma to_decisions_map: "to_decisions pl rs = map (decision_at pl rs) [0..<length (rs_items rs)]"
proof -
  have "try_each (\<lambda>s i. (s @ [decision_at pl rs i], None :: unit option)) xs out
      = (out @ map (decision_at pl rs) xs, None)" for xs out
    by (induction xs arbitrary: out) simp_all
  then show ?thesis by (simp add: to_decisions_def for_each_decision_def)
qed

subsection \<open>The keep set\<close>

definition group_honesty :: "ResolvedKeepSet \<Rightarrow> nat list \<Rightarrow> KeepSetStats \<Rightarrow> KeepSetStats" where
  "group_honesty rs members stats =
     (if members = [] then stats
      else
        (let items = rs_items rs;
             saw_submit = list_ex (\<lambda>i. snd (resolve_item_date (items ! i)) = DsSubmit) members;
             saw_delivery = list_ex (\<lambda>i. snd (resolve_item_date (items ! i)) = DsDelivery) members;
             stats1 = (if saw_submit \<and> saw_delivery
                       then stats \<lparr> st_groups_date_source_mixed := st_groups_date_source_mixed stats + 1 \<rparr>
                       else stats)
         in case find (\<lambda>i. rs_roles rs ! i = RoleUnique) members of
              None \<Rightarrow> stats1
            | Some wi \<Rightarrow>
                if \<not> sc_has_bcc (items ! wi) \<and> list_ex (\<lambda>i. sc_has_bcc (items ! i)) members
                then stats1 \<lparr> st_winners_without_bcc_peer_had_bcc :=
                                st_winners_without_bcc_peer_had_bcc stats1 + 1 \<rparr>
                else stats1))"

definition keep_entry :: "Platform \<Rightarrow> ResolvedKeepSet \<Rightarrow> nat \<Rightarrow> KeepEntry" where
  "keep_entry pl rs i =
     (let item = rs_items rs ! i;
          cls = fst (folder_class_and_rank (lo_folder_path (sc_locus item)) (rk_folder_rank (rs_rank_ctx rs)));
          (dup_count, dup_sources, dup_trunc) =
            duplicate_source_aggregate pl (rs_items rs) (group_containing rs i) i
      in \<lparr> ke_locus = sc_locus item, ke_message_id_norm = sc_message_id_norm item,
           ke_content_hash = sc_content_hash item,
           ke_edrm_mih_hex = item_edrm_mih_hex (pl_md5 pl) item,
           ke_integrity = sc_integrity item, ke_size = sc_size item,
           ke_promoted_from_failure = rs_promoted_from_failure rs ! i,
           ke_folder_class = Some (folder_class_as_str cls),
           ke_decided_by = Some (decided_by_for pl rs i),
           ke_duplicate_source_count = dup_count, ke_duplicate_sources = dup_sources,
           ke_duplicate_sources_truncated = dup_trunc \<rparr>)"

definition tally_unique :: "ResolvedKeepSet \<Rightarrow> nat \<Rightarrow> KeepSetStats \<Rightarrow> KeepSetStats" where
  "tally_unique rs i s0 =
     (let item = rs_items rs ! i;
          s1 = s0 \<lparr> st_unique := st_unique s0 + 1 \<rparr>;
          s2 = (if in_degraded (sc_integrity item)
                then s1 \<lparr> st_degraded_winners := st_degraded_winners s1 + 1 \<rparr> else s1);
          s3 = (if rs_promoted_from_failure rs ! i
                then s2 \<lparr> st_promoted_from_failure := st_promoted_from_failure s2 + 1 \<rparr> else s2);
          s4 = (case promote_reason_at rs i of
                  Some AttachIncomplete \<Rightarrow>
                    s3 \<lparr> st_promoted_after_attach_incomplete_count :=
                           st_promoted_after_attach_incomplete_count s3 + 1 \<rparr>
                | Some ModeCFallbackAllPeersIncomplete \<Rightarrow>
                    s3 \<lparr> st_mode_c_fallback_all_peers_incomplete_count :=
                           st_mode_c_fallback_all_peers_incomplete_count s3 + 1 \<rparr>
                | _ \<Rightarrow> s3)
      in if is_recoverable_items (classify_folder (lo_folder_path (sc_locus item)))
         then s4 \<lparr> st_winners_from_recoverable_items := st_winners_from_recoverable_items s4 + 1 \<rparr>
         else s4)"

definition tally_dup :: "ResolvedKeepSet \<Rightarrow> nat \<Rightarrow> KeepSetStats \<Rightarrow> KeepSetStats" where
  "tally_dup rs i s0 =
     (let s1 = s0 \<lparr> st_duplicates := st_duplicates s0 + 1 \<rparr>; tier = rs_tier_of rs ! i in
      if tier = Some (lit ''message_id'') then s1 \<lparr> st_tier1_dups := st_tier1_dups s1 + 1 \<rparr>
      else if tier = Some (lit ''content_hash'') \<or> tier = Some (lit ''content_hash_strong'')
      then s1 \<lparr> st_tier2_dups := st_tier2_dups s1 + 1 \<rparr>
      else s1)"

definition tally_item ::
  "Platform \<Rightarrow> ResolvedKeepSet \<Rightarrow> nat \<Rightarrow> KeepEntry list \<times> KeepSetStats \<Rightarrow> KeepEntry list \<times> KeepSetStats" where
  "tally_item pl rs i acc =
     (let (winners, stats) = acc in
      case rs_roles rs ! i of
        RoleUnique \<Rightarrow> (winners @ [keep_entry pl rs i], tally_unique rs i stats)
      | RoleDupOf \<Rightarrow> (winners, tally_dup rs i stats)
      | RoleMaterializeFailed \<Rightarrow>
          (winners, stats \<lparr> st_materialize_failed := st_materialize_failed stats + 1 \<rparr>))"

definition entry_le :: "bool \<Rightarrow> KeepEntry \<Rightarrow> KeepEntry \<Rightarrow> bool" where
  "entry_le windows a b \<longleftrightarrow>
     and_then (cmp (path_compare_key windows (lo_source_path (ke_locus a)))
                   (path_compare_key windows (lo_source_path (ke_locus b))))
              (cmp (lo_nid (ke_locus a)) (lo_nid (ke_locus b))) \<noteq> Greater"

definition to_keep_set :: "Platform \<Rightarrow> ResolvedKeepSet \<Rightarrow> KeepSet" where
  "to_keep_set pl rs =
     (let stats0 = default_keep_stats
            \<lparr> st_recoverable := length (rs_items rs), st_groups := length (rs_groups rs),
              st_groups_dropped_materialize := length (filter (\<lambda>d. d) (rs_group_dropped rs)) \<rparr>;
          stats1 = fold (group_honesty rs) (rs_groups rs) stats0;
          (winners, stats2) = fold (tally_item pl rs) [0..<length (rs_items rs)] ([], stats1)
      in \<lparr> ks_schema = KEEP_SET_SCHEMA, ks_policy = rs_policy rs,
           ks_family_policy = rs_family_policy rs, ks_created_from = rs_created_from rs,
           ks_identity_level = Some (identity_as_str (gx_identity (rs_grouping_ctx rs))),
           ks_dedupe_scope = Some (scope_as_str (gx_scope (rs_grouping_ctx rs))),
           ks_winners = sort_by (entry_le (pl_windows pl)) winners,
           ks_stats = stats2 \<lparr> st_grouping := rs_grouping_stats rs \<rparr> \<rparr>)"

definition build_keep_set ::
  "Platform \<Rightarrow> RecoverableScanItem list \<Rightarrow> KeepPolicy \<Rightarrow> FamilyPolicy \<Rightarrow> str list \<Rightarrow> bool \<Rightarrow>
   KeepSet \<times> DecisionRecord list" where
  "build_keep_set pl items policy family_policy prefer_path tier2_enabled =
     (let resolved = resolve_groups pl items policy family_policy prefer_path tier2_enabled None
      in (to_keep_set pl resolved, to_decisions pl resolved))"

definition build_keep_set_with_ctx ::
  "Platform \<Rightarrow> RecoverableScanItem list \<Rightarrow> FamilyPolicy \<Rightarrow> RankContext \<Rightarrow> bool \<Rightarrow>
   KeepSet \<times> DecisionRecord list" where
  "build_keep_set_with_ctx pl items family_policy rank_ctx tier2_enabled =
     (let resolved = resolve_groups_with_ctx pl items family_policy rank_ctx tier2_enabled None
      in (to_keep_set pl resolved, to_decisions pl resolved))"

subsection \<open>What the resolution loop writes\<close>

definition verdict_at :: "verdicts \<Rightarrow> nat \<Rightarrow> DecisionRole \<times> nat option \<times> str option" where
  "verdict_at v i = (fst v ! i, fst (snd v) ! i, snd (snd v) ! i)"

definition verdicts_of :: "nat \<Rightarrow> verdicts \<Rightarrow> bool" where
  "verdicts_of n v \<longleftrightarrow> length (fst v) = n \<and> length (fst (snd v)) = n \<and> length (snd (snd v)) = n"

definition expected_verdict :: "BoundBy list \<Rightarrow> nat \<Rightarrow> nat \<Rightarrow> DecisionRole \<times> nat option \<times> str option" where
  "expected_verdict bound_by winner i =
     (if i = winner then (RoleUnique, Some winner, None)
      else (RoleDupOf, Some winner, tier_for bound_by i))"

lemma verdicts_of_member: "verdicts_of n v \<Longrightarrow> verdicts_of n (resolve_member bb win i v)"
  by (cases v) (auto simp: verdicts_of_def resolve_member_def)

lemma verdict_at_member:
  "verdicts_of n v \<Longrightarrow> i < n \<Longrightarrow>
   verdict_at (resolve_member bb win i v) j = (if j = i then expected_verdict bb win i else verdict_at v j)"
  by (cases v) (auto simp: verdicts_of_def resolve_member_def verdict_at_def expected_verdict_def)

lemma fold_resolve_member:
  assumes "verdicts_of n v" and "\<forall>i\<in>set g. i < n"
  shows "verdicts_of n (fold (resolve_member bb win) g v)"
    and "verdict_at (fold (resolve_member bb win) g v) j =
      (if j \<in> set g then expected_verdict bb win j else verdict_at v j)"
  using assms
proof (induction g arbitrary: v)
  case (Cons i g)
  case 1
  with Cons.IH(1) [OF verdicts_of_member] show ?case by simp
next
  case (Cons i g)
  case 2
  with Cons.IH(2) [OF verdicts_of_member] verdict_at_member [of n v i bb win j] show ?case by auto
qed simp_all

definition group_winner :: "bool \<Rightarrow> RankContext \<Rightarrow> RecoverableScanItem list \<Rightarrow> nat list \<Rightarrow> nat" where
  "group_winner windows ctx items g = hd (ranked_members windows ctx items g)"

lemma group_winner_in: "g \<noteq> [] \<Longrightarrow> group_winner w ctx items g \<in> set g"
  by (simp add: group_winner_def ranked_members_def hd_sort_by_in)

lemma group_winner_least: "i \<in> set g \<Longrightarrow> rank_le w ctx items (group_winner w ctx items g) i"
  by (simp add: group_winner_def ranked_members_def winner.hd_sort_by_least)

lemma resolve_group_step:
  "g \<noteq> [] \<Longrightarrow> resolve_group w ctx items bb g (v, p) =
     (fold (resolve_member bb (group_winner w ctx items g)) g v, p @ [Some (group_winner w ctx items g)])"
  by (simp add: resolve_group_def group_winner_def Let_def)

lemma fold_resolve_group:
  assumes "verdicts_of n v" and "\<forall>g\<in>set gs. g \<noteq> [] \<and> (\<forall>i\<in>set g. i < n)" and "distinct (concat gs)"
    and "fold (resolve_group w ctx items bb) gs (v, p) = (v', p')"
  shows "verdicts_of n v' \<and> p' = p @ map (\<lambda>g. Some (group_winner w ctx items g)) gs \<and>
    (\<forall>g\<in>set gs. \<forall>i\<in>set g. verdict_at v' i = expected_verdict bb (group_winner w ctx items g) i) \<and>
    (\<forall>i. i \<notin> set (concat gs) \<longrightarrow> verdict_at v' i = verdict_at v i)"
  using assms
proof (induction gs arbitrary: v p)
  case (Cons g gs)
  let ?win = "group_winner w ctx items g"
  let ?v = "fold (resolve_member bb ?win) g v"
  from Cons.prems(2) have g: "g \<noteq> []" "\<forall>i\<in>set g. i < n" by auto
  note step = fold_resolve_member [OF Cons.prems(1) g(2), of bb ?win]
  from Cons.prems(4) g(1) have "fold (resolve_group w ctx items bb) gs (?v, p @ [Some ?win]) = (v', p')"
    by (simp add: resolve_group_step)
  from Cons.IH [OF step(1) _ _ this] Cons.prems(2,3) have
    IH: "verdicts_of n v'" "p' = p @ map (\<lambda>g. Some (group_winner w ctx items g)) (g # gs)"
    "\<forall>g\<in>set gs. \<forall>i\<in>set g. verdict_at v' i = expected_verdict bb (group_winner w ctx items g) i"
    "\<forall>i. i \<notin> set (concat gs) \<longrightarrow> verdict_at v' i = verdict_at ?v i" by auto
  from Cons.prems(3) have "i \<notin> set (concat gs)" if "i \<in> set g" for i using that by auto
  with IH(4) step(2) have "verdict_at v' i = expected_verdict bb ?win i" if "i \<in> set g" for i
    using that by simp
  with IH step(2) show ?case by simp
qed simp

lemma grouping_of_distinct: "grouping_of k groups \<Longrightarrow> distinct (concat groups)"
  unfolding grouping_of_def by (metis distinct_upt mset_eq_imp_distinct_iff)

text \<open>The results of a resolution, per item and per group.\<close>

lemma resolve_results:
  assumes "\<forall>x\<in>set items. wf_scan (pl_windows pl) x"
    and rs_def: "rs = resolve_groups_with_grouping pl items fam ctx gctx prov"
  shows "grouping_of (length items) (rs_groups rs)"
    and "verdicts_of (length items) (rs_roles rs, rs_winner_of rs, rs_tier_of rs)"
    and "rs_provisional_winners rs =
      map (\<lambda>g. Some (group_winner (pl_windows pl) ctx items g)) (rs_groups rs)"
    and "\<And>g i. g \<in> set (rs_groups rs) \<Longrightarrow> i \<in> set g \<Longrightarrow>
      verdict_at (rs_roles rs, rs_winner_of rs, rs_tier_of rs) i =
      expected_verdict (rs_bound_by rs) (group_winner (pl_windows pl) ctx items g) i"
proof -
  let ?n = "length items"
  let ?out = "group_candidates_with_stats (pl_windows pl) gctx items"
  let ?v = "(replicate ?n RoleUnique, replicate ?n None, replicate ?n None) :: verdicts"
  let ?f = "fold (resolve_group (pl_windows pl) ctx items (go_bound_by ?out)) (go_groups ?out) (?v, [])"
  have gr: "grouping_of ?n (go_groups ?out)" by (rule outcome_grouping [OF assms(1)])
  have fields: "rs_groups rs = go_groups ?out" "rs_bound_by rs = go_bound_by ?out"
    "(rs_roles rs, rs_winner_of rs, rs_tier_of rs) = fst ?f" "rs_provisional_winners rs = snd ?f"
    by (simp_all add: rs_def resolve_groups_with_grouping_def Let_def split_beta)
  have v: "verdicts_of ?n ?v" by (simp add: verdicts_of_def)
  have ne: "\<forall>g\<in>set (go_groups ?out). g \<noteq> [] \<and> (\<forall>i\<in>set g. i < ?n)"
    using gr grouping_of_set [OF gr] by (auto simp: grouping_of_def)
  note all = fold_resolve_group [OF v ne grouping_of_distinct [OF gr], of "pl_windows pl" ctx items
    "go_bound_by ?out" "[]" "fst ?f" "snd ?f", simplified]
  show "grouping_of ?n (rs_groups rs)" using gr by (simp add: fields)
  show "verdicts_of ?n (rs_roles rs, rs_winner_of rs, rs_tier_of rs)" using all by (simp add: fields(3))
  show "rs_provisional_winners rs = map (\<lambda>g. Some (group_winner (pl_windows pl) ctx items g)) (rs_groups rs)"
    using all by (simp add: fields)
  show "verdict_at (rs_roles rs, rs_winner_of rs, rs_tier_of rs) i =
      expected_verdict (rs_bound_by rs) (group_winner (pl_windows pl) ctx items g) i"
    if "g \<in> set (rs_groups rs)" "i \<in> set g" for g i
    using all that by (simp add: fields(1,2) fields(3))
qed

lemma resolve_member_results:
  assumes "\<forall>x\<in>set items. wf_scan (pl_windows pl) x"
    and "rs = resolve_groups_with_grouping pl items fam ctx gctx prov"
    and "g \<in> set (rs_groups rs)" "i \<in> set g"
  shows "rs_roles rs ! i = (if i = group_winner (pl_windows pl) ctx items g then RoleUnique else RoleDupOf)"
    and "rs_winner_of rs ! i = Some (group_winner (pl_windows pl) ctx items g)"
    and "rs_tier_of rs ! i =
      (if i = group_winner (pl_windows pl) ctx items g then None else tier_for (rs_bound_by rs) i)"
  using resolve_results(4) [OF assms]
  by (simp_all add: verdict_at_def expected_verdict_def split: if_splits)

text \<open>
  C18: resolution picks exactly one winner per group, the best one. In every group of the resolved
  set one member has the role unique, it ranks no worse than any other member, every other member
  is a duplicate, and all members name it as their winner.
\<close>

theorem resolve_one_winner:
  assumes "\<forall>x\<in>set items. wf_scan (pl_windows pl) x"
    and "rs = resolve_groups_with_grouping pl items fam ctx gctx prov" and "g \<in> set (rs_groups rs)"
  shows "\<exists>win\<in>set g. \<forall>i\<in>set g. rank_le (pl_windows pl) ctx items win i \<and>
    rs_roles rs ! i = (if i = win then RoleUnique else RoleDupOf) \<and> rs_winner_of rs ! i = Some win"
proof -
  note res = resolve_results [OF assms(1,2)]
  have "g \<noteq> []" using res(1) assms(3) by (auto simp: grouping_of_def)
  moreover note resolve_member_results(1,2) [OF assms]
  ultimately show ?thesis
    by (intro bexI [OF _ group_winner_in]) (auto simp: group_winner_least)
qed

subsection \<open>The statistics add up\<close>

lemma tally_unique_counts [simp]:
  "st_unique (tally_unique rs i s) = st_unique s + 1" "st_duplicates (tally_unique rs i s) = st_duplicates s"
  "st_materialize_failed (tally_unique rs i s) = st_materialize_failed s"
  "st_tier1_dups (tally_unique rs i s) = st_tier1_dups s" "st_tier2_dups (tally_unique rs i s) = st_tier2_dups s"
  "st_recoverable (tally_unique rs i s) = st_recoverable s" "st_groups (tally_unique rs i s) = st_groups s"
  by (simp_all add: tally_unique_def Let_def split: option.splits PromoteReason.splits)

lemma tally_dup_counts [simp]:
  "st_unique (tally_dup rs i s) = st_unique s" "st_duplicates (tally_dup rs i s) = st_duplicates s + 1"
  "st_materialize_failed (tally_dup rs i s) = st_materialize_failed s"
  "st_recoverable (tally_dup rs i s) = st_recoverable s" "st_groups (tally_dup rs i s) = st_groups s"
  "st_tier1_dups (tally_dup rs i s) + st_tier2_dups (tally_dup rs i s) =
     st_tier1_dups s + st_tier2_dups s +
     (if rs_tier_of rs ! i \<in> {Some (lit ''message_id''), Some (lit ''content_hash''),
                               Some (lit ''content_hash_strong'')} then 1 else 0)"
  by (simp_all add: tally_dup_def Let_def lit_eq_iff)

lemma group_honesty_counts [simp]:
  "st_unique (group_honesty rs g s) = st_unique s" "st_duplicates (group_honesty rs g s) = st_duplicates s"
  "st_materialize_failed (group_honesty rs g s) = st_materialize_failed s"
  "st_recoverable (group_honesty rs g s) = st_recoverable s" "st_groups (group_honesty rs g s) = st_groups s"
  "st_tier1_dups (group_honesty rs g s) = st_tier1_dups s" "st_tier2_dups (group_honesty rs g s) = st_tier2_dups s"
  by (simp_all add: group_honesty_def Let_def split: option.splits)

definition stats_of :: "nat \<Rightarrow> nat \<Rightarrow> nat \<Rightarrow> nat \<Rightarrow> KeepSetStats \<Rightarrow> bool" where
  "stats_of u d f k s \<longleftrightarrow> st_unique s = u \<and> st_duplicates s = d \<and> st_materialize_failed s = f \<and>
     st_tier1_dups s + st_tier2_dups s \<le> d \<and> st_groups s = k"

lemma fold_group_honesty: "stats_of u d f k s \<Longrightarrow> stats_of u d f k (fold (group_honesty rs) gs s)"
  by (induction gs arbitrary: s) (simp_all add: stats_of_def)

lemma fold_group_honesty_recoverable [simp]:
  "st_recoverable (fold (group_honesty rs) gs s) = st_recoverable s"
  by (induction gs arbitrary: s) simp_all

lemma fold_tally:
  assumes "stats_of u d f k s" and "length ws = u"
  shows "case fold (tally_item pl rs) xs (ws, s) of (ws', s') \<Rightarrow>
    \<exists>u' d' f'. stats_of u' d' f' k s' \<and> length ws' = u' \<and> u' + d' + f' = u + d + f + length xs \<and>
      u' = u + length (filter (\<lambda>i. rs_roles rs ! i = RoleUnique) xs) \<and>
      f' = f + length (filter (\<lambda>i. rs_roles rs ! i = RoleMaterializeFailed) xs) \<and>
      st_recoverable s' = st_recoverable s"
  using assms
proof (induction xs arbitrary: u d f ws s)
  case (Cons i xs)
  show ?case
  proof (cases "rs_roles rs ! i")
    case RoleUnique
    with Cons.IH [of "u + 1" d f "tally_unique rs i s" "ws @ [keep_entry pl rs i]"] Cons.prems
    show ?thesis by (simp add: tally_item_def stats_of_def split: prod.splits)
  next
    case RoleDupOf
    with Cons.IH [of u "d + 1" f "tally_dup rs i s" ws] Cons.prems
    show ?thesis by (simp add: tally_item_def stats_of_def split: prod.splits)
  next
    case RoleMaterializeFailed
    with Cons.IH [of u d "f + 1" "s \<lparr> st_materialize_failed := st_materialize_failed s + 1 \<rparr>" ws] Cons.prems
    show ?thesis by (simp add: tally_item_def stats_of_def split: prod.splits)
  qed
qed auto

interpretation entries: ranking "entry_le windows" UNIV
proof
  have "entry_le windows a b \<longleftrightarrow>
      (path_compare_key windows (lo_source_path (ke_locus a)), lo_nid (ke_locus a))
      \<le> (path_compare_key windows (lo_source_path (ke_locus b)), lo_nid (ke_locus b))" for a b
    by (auto simp: entry_le_def simp flip: cmp_pair)
  then show "entry_le windows a b \<or> entry_le windows b a"
    "entry_le windows a b \<Longrightarrow> entry_le windows b c \<Longrightarrow> entry_le windows a c" for a b c
    by auto
qed

lemma to_keep_set_parts:
  "ks_stats (to_keep_set pl rs) =
     snd (fold (tally_item pl rs) [0..<length (rs_items rs)] ([], fold (group_honesty rs) (rs_groups rs)
       (default_keep_stats \<lparr> st_recoverable := length (rs_items rs), st_groups := length (rs_groups rs),
          st_groups_dropped_materialize := length (filter (\<lambda>d. d) (rs_group_dropped rs)) \<rparr>)))
     \<lparr> st_grouping := rs_grouping_stats rs \<rparr>"
  "ks_winners (to_keep_set pl rs) = sort_by (entry_le (pl_windows pl))
     (fst (fold (tally_item pl rs) [0..<length (rs_items rs)] ([], fold (group_honesty rs) (rs_groups rs)
       (default_keep_stats \<lparr> st_recoverable := length (rs_items rs), st_groups := length (rs_groups rs),
          st_groups_dropped_materialize := length (filter (\<lambda>d. d) (rs_group_dropped rs)) \<rparr>))))"
  by (simp_all add: to_keep_set_def Let_def split_beta)

lemma keep_set_counts:
  fixes rs :: ResolvedKeepSet and pl :: Platform
  defines "s \<equiv> ks_stats (to_keep_set pl rs)"
  shows "st_recoverable s = length (rs_items rs)" "st_groups s = length (rs_groups rs)"
    "st_unique s + st_duplicates s + st_materialize_failed s = length (rs_items rs)"
    "st_tier1_dups s + st_tier2_dups s \<le> st_duplicates s"
    "length (ks_winners (to_keep_set pl rs)) = st_unique s"
    "st_unique s = length (filter (\<lambda>i. rs_roles rs ! i = RoleUnique) [0..<length (rs_items rs)])"
    "st_materialize_failed s =
      length (filter (\<lambda>i. rs_roles rs ! i = RoleMaterializeFailed) [0..<length (rs_items rs)])"
proof -
  let ?s0 = "default_keep_stats \<lparr> st_recoverable := length (rs_items rs), st_groups := length (rs_groups rs),
      st_groups_dropped_materialize := length (filter (\<lambda>d. d) (rs_group_dropped rs)) \<rparr>"
  let ?s1 = "fold (group_honesty rs) (rs_groups rs) ?s0"
  let ?out = "fold (tally_item pl rs) [0..<length (rs_items rs)] ([], ?s1)"
  have "stats_of 0 0 0 (length (rs_groups rs)) ?s0" by (simp add: stats_of_def default_keep_stats_def)
  then have "stats_of 0 0 0 (length (rs_groups rs)) ?s1" by (rule fold_group_honesty)
  from fold_tally [OF this, where ws = "[]" and pl = pl and xs = "[0..<length (rs_items rs)]"]
  have "\<exists>u d f. stats_of u d f (length (rs_groups rs)) (snd ?out) \<and> length (fst ?out) = u \<and>
      u + d + f = length (rs_items rs) \<and>
      u = length (filter (\<lambda>i. rs_roles rs ! i = RoleUnique) [0..<length (rs_items rs)]) \<and>
      f = length (filter (\<lambda>i. rs_roles rs ! i = RoleMaterializeFailed) [0..<length (rs_items rs)]) \<and>
      st_recoverable (snd ?out) = length (rs_items rs)"
    by (simp add: split_beta default_keep_stats_def)
  then obtain u d f where "stats_of u d f (length (rs_groups rs)) (snd ?out)" "length (fst ?out) = u"
    "u + d + f = length (rs_items rs)" "st_recoverable (snd ?out) = length (rs_items rs)"
    "u = length (filter (\<lambda>i. rs_roles rs ! i = RoleUnique) [0..<length (rs_items rs)])"
    "f = length (filter (\<lambda>i. rs_roles rs ! i = RoleMaterializeFailed) [0..<length (rs_items rs)])"
    by (elim exE conjE)
  then show "st_recoverable s = length (rs_items rs)" "st_groups s = length (rs_groups rs)"
    "st_unique s + st_duplicates s + st_materialize_failed s = length (rs_items rs)"
    "st_tier1_dups s + st_tier2_dups s \<le> st_duplicates s"
    "length (ks_winners (to_keep_set pl rs)) = st_unique s"
    "st_unique s = length (filter (\<lambda>i. rs_roles rs ! i = RoleUnique) [0..<length (rs_items rs)])"
    "st_materialize_failed s =
      length (filter (\<lambda>i. rs_roles rs ! i = RoleMaterializeFailed) [0..<length (rs_items rs)])"
    by (simp_all add: s_def to_keep_set_parts stats_of_def)
qed

text \<open>
  C19: the keep-set statistics account for every recoverable message, before and after winners are
  materialised: unique, duplicate and failed messages add up to the recoverable ones, the listed
  winners are the unique ones, the per-tier duplicates never exceed the duplicates, and the winners
  are listed by path and node id.
\<close>

theorem keep_set_accounts:
  fixes rs :: ResolvedKeepSet
  shows "st_unique (ks_stats (to_keep_set pl rs)) + st_duplicates (ks_stats (to_keep_set pl rs)) +
      st_materialize_failed (ks_stats (to_keep_set pl rs)) = st_recoverable (ks_stats (to_keep_set pl rs)) \<and>
    st_recoverable (ks_stats (to_keep_set pl rs)) = length (to_decisions pl rs) \<and>
    length (ks_winners (to_keep_set pl rs)) = st_unique (ks_stats (to_keep_set pl rs)) \<and>
    st_tier1_dups (ks_stats (to_keep_set pl rs)) + st_tier2_dups (ks_stats (to_keep_set pl rs))
      \<le> st_duplicates (ks_stats (to_keep_set pl rs)) \<and>
    sorted_wrt (entry_le (pl_windows pl)) (ks_winners (to_keep_set pl rs))"
  using keep_set_counts [of pl rs] entries.sorted_sort_by
  by (simp add: to_decisions_map to_keep_set_parts(2))

lemma filter_unique_group:
  "distinct g \<Longrightarrow> win \<in> set g \<Longrightarrow> \<forall>i\<in>set g. P i \<longleftrightarrow> i = win \<Longrightarrow> length (filter P g) = 1"
  by (induction g) (auto simp: filter_empty_conv)

text \<open>
  The provisional keep set holds one entry per duplicate group: as many unique messages and
  winners as groups, and everything else is a duplicate.
\<close>

theorem provisional_keep_set_size:
  assumes "\<forall>x\<in>set items. wf_scan (pl_windows pl) x"
    and "rs = resolve_groups_with_grouping pl items fam ctx gctx prov"
  shows "length (ks_winners (to_keep_set pl rs)) = st_groups (ks_stats (to_keep_set pl rs)) \<and>
    st_duplicates (ks_stats (to_keep_set pl rs)) + st_groups (ks_stats (to_keep_set pl rs)) = length items"
proof -
  note res = resolve_results [OF assms]
  note counts = keep_set_counts [of pl rs]
  have items: "rs_items rs = items"
    by (simp add: assms(2) resolve_groups_with_grouping_def Let_def split_beta)
  let ?U = "\<lambda>i. rs_roles rs ! i = RoleUnique"
  have one: "length (filter ?U g) = 1" if "g \<in> set (rs_groups rs)" for g
  proof (rule filter_unique_group)
    show "distinct g" using res(1) that by (auto simp: grouping_of_def strict_sorted_iff)
    show "group_winner (pl_windows pl) ctx items g \<in> set g"
      using res(1) that by (auto simp: grouping_of_def intro: group_winner_in)
    show "\<forall>i\<in>set g. ?U i \<longleftrightarrow> i = group_winner (pl_windows pl) ctx items g"
      using resolve_member_results(1) [OF assms that] by simp
  qed
  have sum: "length (filter P (concat gs)) = length gs" if "\<forall>g\<in>set gs. length (filter P g) = 1"
    for P :: "nat \<Rightarrow> bool" and gs using that by (induction gs) simp_all
  have "mset (filter ?U [0..<length items]) = mset (filter ?U (concat (rs_groups rs)))"
    using res(1) unfolding grouping_of_def by (metis mset_filter)
  then have "length (filter ?U [0..<length items]) = length (rs_groups rs)"
    using sum [of "rs_groups rs" ?U] one by (metis size_mset)
  moreover have "rs_roles rs ! i \<noteq> RoleMaterializeFailed" if "i < length items" for i
  proof -
    from that obtain h where h: "h < length (rs_groups rs)" "i \<in> set (rs_groups rs ! h)"
      using grouping_of_ex [OF res(1)] by blast
    then show ?thesis using resolve_member_results(1) [OF assms, of "rs_groups rs ! h" i] by simp
  qed
  then have "filter (\<lambda>i. rs_roles rs ! i = RoleMaterializeFailed) [0..<length items] = []"
    by (simp add: filter_empty_conv)
  ultimately show ?thesis
    using counts items by simp
qed

subsection \<open>The tier column\<close>




end
