(* ===== verification/Keep_Message.thy ===== *)
theory Keep_Message
  imports Keep_Records
begin

text \<open>
  Materialised messages (\<^verbatim>\<open>dedup-engine/src/keepset.rs\<close>): the canonical message with its attachments
  and nested messages, attachment completeness, the soft-skip ledger rows, and the fidelity a
  materialised message hands back to its scan item.
\<close>

datatype NestedExtractFail = Unparsed | DepthLimit

datatype CanonicalAttachment = CanonicalAttachment
    (at_filename: str)
    (at_size: u32)
    (at_mime: "str option")
    (at_data: "bytes option")
    (at_stream_available: bool)
    (at_attach_nid: "u64 option")
    (at_attach_method: "int option")
    (at_is_cloud_link: bool)
    (at_cloud_provider: "str option")
    (at_cloud_url: "str option")
    (at_cloud_permission_type: "int option")
    (at_embedded_message: "NestedCanonicalMessage option")
    (at_embedded_extract_limit: bool)
and NestedCanonicalMessage = NestedCanonicalMessage
    (nm_subject: "str option")
    (nm_sender: "str option")
    (nm_display_to: "str option")
    (nm_display_cc: "str option")
    (nm_display_bcc: "str option")
    (nm_recipients: "CanonicalRecipient list")
    (nm_message_id: "str option")
    (nm_message_class: "str option")
    (nm_message_flags: "u32 option")
    (nm_submit_time: "i64 option")
    (nm_body_plain: "str option")
    (nm_body_html: "bytes option")
    (nm_attachments: "CanonicalAttachment list")
    (nm_body_incomplete: bool)
    (nm_body_unavailable: bool)
    (nm_attachments_incomplete: bool)
    (nm_source_msg_nid: "u64 option")

record CanonicalMessage =
  cm_locus :: MessageLocus
  cm_message_id :: "str option"
  cm_subject :: "str option"
  cm_sender :: "str option"
  cm_display_to :: "str option"
  cm_display_cc :: "str option"
  cm_display_bcc :: "str option"
  cm_recipients :: "CanonicalRecipient list"
  cm_message_flags :: "u32 option"
  cm_submit_time :: "i64 option"
  cm_size :: "u32 option"
  cm_message_class :: "str option"
  cm_body_plain :: "str option"
  cm_body_html :: "bytes option"
  cm_attachments :: "CanonicalAttachment list"
  cm_fidelity :: RecoverableIntegrity
  cm_message_id_norm :: "str option"
  cm_content_hash :: bytes
  cm_edrm_mih_hex :: "str option"
  cm_body_incomplete :: bool
  cm_body_unavailable :: bool

definition attach_incomplete :: "CanonicalAttachment \<Rightarrow> bool" where
  "attach_incomplete a \<longleftrightarrow> \<not> at_stream_available a \<or> at_is_cloud_link a"

definition is_attach_incomplete :: "CanonicalMessage \<Rightarrow> bool" where
  "is_attach_incomplete msg \<longleftrightarrow>
     (if list_ex attach_incomplete (cm_attachments msg) then True
      else list_ex is_attach_probe_fail (in_degraded_reasons (cm_fidelity msg)))"

definition soft_skip_reason :: "CanonicalMessage \<Rightarrow> str" where
  "soft_skip_reason msg =
     (let reasons = in_degraded_reasons (cm_fidelity msg)
      in case find (\<lambda>r. r = AttachCloudLink) reasons of
           Some r \<Rightarrow> reason_as_str r
         | None \<Rightarrow>
             (case find is_attach_probe_fail reasons of
                Some r \<Rightarrow> reason_as_str r
              | None \<Rightarrow> lit ''ATTACH_STREAM_OPEN_FAILED''))"

definition soft_skip_row ::
  "CanonicalMessage \<Rightarrow> str \<Rightarrow> u64 \<Rightarrow> nat \<times> CanonicalAttachment \<Rightarrow> SoftSkipAttachRecord" where
  "soft_skip_row msg peer_source_path peer_msg_nid ia =
     (let (i, a) = ia; locus = cm_locus msg
      in \<lparr> sk_source_path = lo_source_path locus, sk_source_pst = lo_source_pst locus,
           sk_folder_path = lo_folder_path locus, sk_msg_nid = lo_nid locus,
           sk_attach_nid = at_attach_nid a, sk_attach_index = i mod 2 ^ 32, sk_filename = at_filename a,
           sk_size = at_size a,
           sk_attach_method = (case at_attach_method a of None \<Rightarrow> - 1 | Some v \<Rightarrow> v),
           sk_reason_code = (if at_is_cloud_link a then lit ''ATTACH_CLOUD_LINK'' else soft_skip_reason msg),
           sk_peer_source_path = peer_source_path, sk_peer_msg_nid = peer_msg_nid,
           sk_cloud_provider = (case at_cloud_provider a of None \<Rightarrow> [] | Some p \<Rightarrow> p),
           sk_cloud_url = (case at_cloud_url a of None \<Rightarrow> [] | Some u \<Rightarrow> u) \<rparr>)"

definition soft_skip_records_for_msg ::
  "CanonicalMessage \<Rightarrow> str \<Rightarrow> u64 \<Rightarrow> SoftSkipAttachRecord list" where
  "soft_skip_records_for_msg msg peer_source_path peer_msg_nid =
     (let incomplete_attaches = filter (\<lambda>(i, a). attach_incomplete a) (enumerate 0 (cm_attachments msg));
          locus = cm_locus msg
      in if incomplete_attaches = [] then
           [\<lparr> sk_source_path = lo_source_path locus, sk_source_pst = lo_source_pst locus,
              sk_folder_path = lo_folder_path locus, sk_msg_nid = lo_nid locus, sk_attach_nid = None,
              sk_attach_index = 0, sk_filename = [], sk_size = 0, sk_attach_method = - 1,
              sk_reason_code = soft_skip_reason msg, sk_peer_source_path = peer_source_path,
              sk_peer_msg_nid = peer_msg_nid, sk_cloud_provider = [], sk_cloud_url = [] \<rparr>]
         else map (soft_skip_row msg peer_source_path peer_msg_nid) incomplete_attaches)"

definition merge_soft_fidelity :: "RecoverableScanItem \<Rightarrow> CanonicalMessage \<Rightarrow> RecoverableScanItem" where
  "merge_soft_fidelity item msg =
     (let integ = sc_integrity item;
          r1 = in_degraded_reasons integ;
          r2 = (if cm_body_unavailable msg then set_insert BodyUnavailable r1 else r1);
          r3 = (if cm_body_incomplete msg then set_insert BodyTruncated r2 else r2);
          reasons = fold set_insert (in_degraded_reasons (cm_fidelity msg)) r3
      in if reasons \<noteq> [] \<or> in_is_orphaned (cm_fidelity msg) \<or> in_is_orphaned integ
         then item \<lparr> sc_integrity :=
                       with_degraded reasons (in_is_orphaned integ \<or> in_is_orphaned (cm_fidelity msg)) \<rparr>
         else item)"

text \<open>What the finaliser writes into a materialised message before it is used.\<close>

definition adopt_item :: "Platform \<Rightarrow> RecoverableScanItem \<Rightarrow> CanonicalMessage \<Rightarrow> CanonicalMessage" where
  "adopt_item pl item msg =
     msg \<lparr> cm_fidelity := sc_integrity item, cm_message_id_norm := sc_message_id_norm item,
           cm_content_hash := sc_content_hash item,
           cm_edrm_mih_hex := item_edrm_mih_hex (pl_md5 pl) item \<rparr>"

end
