(* ===== verification/Keep_Finalize.thy ===== *)
theory Keep_Finalize
  imports Keep_Resolve Keep_Message
begin

text \<open>
  Materialisation of winners (\<^verbatim>\<open>finalize_with_materialize_opts\<close> in
  \<^verbatim>\<open>dedup-engine/src/keepset.rs\<close>). The materializer and the winner callback are parameters with
  states of their own. The walk over the ranked peers of a group is a recursion that stops at the
  accepted peer; the writes to the roles are a fold over the group.
\<close>

datatype KeepSetError = KseIo str | KseCsv str | KseJson str | KseOther str

datatype MaterializeError = Hard str

type_synonym 'm materializer = "'m \<Rightarrow> MessageLocus \<Rightarrow> 'm \<times> (MaterializeError + CanonicalMessage)"
type_synonym 'o winner_sink = "'o \<Rightarrow> CanonicalMessage \<Rightarrow> 'o \<times> KeepSetError option"

subsection \<open>The walk over the peers of a group\<close>

record 'm PeerWalk =
  pw_items :: "RecoverableScanItem list"
  pw_materializer :: 'm
  pw_failed :: "nat list"
  pw_soft_skipped :: "(nat \<times> CanonicalMessage) list"
  pw_had_hard_fail :: bool
  pw_had_soft_skip :: bool
  pw_mode_c_fallback :: bool
  pw_accepted :: "(nat \<times> CanonicalMessage) option"
  pw_accepted_attempt :: nat

definition walk_init :: "RecoverableScanItem list \<Rightarrow> 'm \<Rightarrow> 'm PeerWalk" where
  "walk_init items m =
     \<lparr> pw_items = items, pw_materializer = m, pw_failed = [], pw_soft_skipped = [],
       pw_had_hard_fail = False, pw_had_soft_skip = False, pw_mode_c_fallback = False,
       pw_accepted = None, pw_accepted_attempt = 0 \<rparr>"

definition accept_last_incomplete :: "nat \<Rightarrow> nat \<Rightarrow> CanonicalMessage \<Rightarrow> 'm PeerWalk \<Rightarrow> 'm PeerWalk" where
  "accept_last_incomplete attempt idx msg w =
     (case pw_soft_skipped w of
        [] \<Rightarrow> w \<lparr> pw_mode_c_fallback := True, pw_accepted := Some (idx, msg),
                 pw_accepted_attempt := attempt \<rparr>
      | first # skipped \<Rightarrow>
          w \<lparr> pw_mode_c_fallback := True, pw_accepted := Some first,
              pw_soft_skipped := skipped @ [(idx, msg)], pw_accepted_attempt := max attempt 1 \<rparr>)"

fun peer_walk ::
  "Platform \<Rightarrow> bool \<Rightarrow> 'm materializer \<Rightarrow> nat \<Rightarrow> nat list \<Rightarrow> 'm PeerWalk \<Rightarrow> 'm PeerWalk" where
  "peer_walk pl promote materialize attempt [] w = w"
| "peer_walk pl promote materialize attempt (idx # rest) w =
     (case materialize (pw_materializer w) (sc_locus (pw_items w ! idx)) of
        (m, Inl _) \<Rightarrow>
          peer_walk pl promote materialize (attempt + 1) rest
            (w \<lparr> pw_materializer := m, pw_failed := pw_failed w @ [idx], pw_had_hard_fail := True \<rparr>)
      | (m, Inr raw) \<Rightarrow>
          (let item = merge_soft_fidelity (pw_items w ! idx) raw;
               msg = adopt_item pl item raw;
               w1 = w \<lparr> pw_materializer := m, pw_items := (pw_items w)[idx := item] \<rparr>;
               incomplete = (promote \<and> is_attach_incomplete msg)
           in if incomplete \<and> rest \<noteq> []
              then peer_walk pl promote materialize (attempt + 1) rest
                     (w1 \<lparr> pw_had_soft_skip := True,
                           pw_soft_skipped := pw_soft_skipped w @ [(idx, msg)] \<rparr>)
              else if incomplete then accept_last_incomplete attempt idx msg w1
              else w1 \<lparr> pw_accepted := Some (idx, msg), pw_accepted_attempt := attempt \<rparr>))"

definition fall_back :: "'m PeerWalk \<Rightarrow> 'm PeerWalk" where
  "fall_back w =
     (case (pw_accepted w, pw_soft_skipped w) of
        (None, first # skipped) \<Rightarrow>
          w \<lparr> pw_mode_c_fallback := True, pw_accepted := Some first, pw_soft_skipped := skipped,
              pw_accepted_attempt := 1 \<rparr>
      | _ \<Rightarrow> w)"

definition promoted_by :: "'m PeerWalk \<Rightarrow> bool" where
  "promoted_by w \<longleftrightarrow> pw_accepted_attempt w > 0 \<or> pw_had_hard_fail w \<or> pw_had_soft_skip w"

definition promote_reason_of :: "'m PeerWalk \<Rightarrow> PromoteReason option" where
  "promote_reason_of w =
     (if pw_mode_c_fallback w then Some ModeCFallbackAllPeersIncomplete
      else if promoted_by w then
        (if pw_had_soft_skip w then Some AttachIncomplete
         else if pw_had_hard_fail w then Some MaterializeFail
         else Some MaterializeFail)
      else None)"

subsection \<open>Writing the outcome of a group\<close>

definition write_member ::
  "nat list \<Rightarrow> nat option \<Rightarrow> bool \<Rightarrow> PromoteReason option \<Rightarrow> nat \<Rightarrow> ResolvedKeepSet \<Rightarrow> ResolvedKeepSet" where
  "write_member failed win promoted reason idx rs =
     (case win of
        None \<Rightarrow>
          rs \<lparr> rs_roles := (rs_roles rs)[idx := RoleMaterializeFailed],
               rs_winner_of := (rs_winner_of rs)[idx := None], rs_tier_of := (rs_tier_of rs)[idx := None],
               rs_promoted_from_failure := (rs_promoted_from_failure rs)[idx := False],
               rs_promote_reason := (rs_promote_reason rs)[idx := None] \<rparr>
      | Some w \<Rightarrow>
          (if idx \<in> set failed
           then rs \<lparr> rs_roles := (rs_roles rs)[idx := RoleMaterializeFailed],
                     rs_winner_of := (rs_winner_of rs)[idx := Some w],
                     rs_tier_of := (rs_tier_of rs)[idx := None],
                     rs_promoted_from_failure := (rs_promoted_from_failure rs)[idx := False],
                     rs_promote_reason := (rs_promote_reason rs)[idx := None] \<rparr>
           else if idx = w
           then rs \<lparr> rs_roles := (rs_roles rs)[idx := RoleUnique],
                     rs_winner_of := (rs_winner_of rs)[idx := Some w],
                     rs_tier_of := (rs_tier_of rs)[idx := None],
                     rs_promoted_from_failure := (rs_promoted_from_failure rs)[idx := promoted],
                     rs_promote_reason := (rs_promote_reason rs)[idx := reason] \<rparr>
           else rs \<lparr> rs_roles := (rs_roles rs)[idx := RoleDupOf],
                     rs_winner_of := (rs_winner_of rs)[idx := Some w],
                     rs_tier_of := (rs_tier_of rs)[idx := tier_for (rs_bound_by rs) idx],
                     rs_promoted_from_failure := (rs_promoted_from_failure rs)[idx := False],
                     rs_promote_reason := (rs_promote_reason rs)[idx := None] \<rparr>))"

definition soft_skip_rows :: "RecoverableScanItem list \<Rightarrow> nat \<Rightarrow> (nat \<times> CanonicalMessage) list \<Rightarrow> SoftSkipAttachRecord list" where
  "soft_skip_rows items win skipped =
     concat (map (\<lambda>(skip_idx, skip_msg).
         if skip_idx = win then []
         else soft_skip_records_for_msg skip_msg (lo_source_path (sc_locus (items ! win)))
                (lo_nid (sc_locus (items ! win))))
       skipped)"

text \<open>The state of the finaliser: the resolved set, the two callers' states, the count, an error.\<close>

record ('m, 'o) Finalize =
  fz_resolved :: ResolvedKeepSet
  fz_materializer :: 'm
  fz_sink :: 'o
  fz_count :: u64
  fz_error :: "KeepSetError option"

definition finalize_group ::
  "Platform \<Rightarrow> bool \<Rightarrow> 'm materializer \<Rightarrow> 'o winner_sink \<Rightarrow> RankContext \<Rightarrow> nat \<times> nat list \<Rightarrow>
   ('m, 'o) Finalize \<Rightarrow> ('m, 'o) Finalize" where
  "finalize_group pl promote materialize on_winner rank_ctx numbered z =
     (let (g_idx, members) = numbered; rs = fz_resolved z in
      if fz_error z \<noteq> None \<or> members = [] then z
      else
        (let ranked = ranked_members (pl_windows pl) rank_ctx (rs_items rs) members;
             w = fall_back (peer_walk pl promote materialize 0 ranked
                   (walk_init (rs_items rs) (fz_materializer z)));
             rs1 = rs \<lparr> rs_items := pw_items w \<rparr>;
             z1 = z \<lparr> fz_resolved := rs1, fz_materializer := pw_materializer w \<rparr>
         in case pw_accepted w of
              Some (win, msg) \<Rightarrow>
                (let rs2 = rs1 \<lparr> rs_soft_skip_attach_records :=
                             rs_soft_skip_attach_records rs1 @
                             soft_skip_rows (pw_items w) win (pw_soft_skipped w) \<rparr>
                 in case on_winner (fz_sink z) msg of
                      (sink, Some e) \<Rightarrow>
                        z1 \<lparr> fz_resolved := rs2, fz_sink := sink, fz_error := Some e \<rparr>
                    | (sink, None) \<Rightarrow>
                        (let rs3 = rs2 \<lparr> rs_group_dropped := (rs_group_dropped rs2)[g_idx := False] \<rparr>
                         in z1 \<lparr> fz_resolved :=
                                   fold (write_member (pw_failed w) (Some win) (promoted_by w)
                                           (promote_reason_of w)) members rs3,
                                 fz_sink := sink, fz_count := fz_count z + 1 \<rparr>))
            | None \<Rightarrow>
                (let rs2 = rs1 \<lparr> rs_group_dropped := (rs_group_dropped rs1)[g_idx := True] \<rparr>
                 in z1 \<lparr> fz_resolved := fold (write_member (pw_failed w) None False None) members rs2 \<rparr>)))"

definition finalize_with_materialize_opts ::
  "Platform \<Rightarrow> bool \<Rightarrow> 'm materializer \<Rightarrow> 'o winner_sink \<Rightarrow> ResolvedKeepSet \<Rightarrow> 'm \<Rightarrow> 'o \<Rightarrow>
   ('m, 'o) Finalize" where
  "finalize_with_materialize_opts pl promote materialize on_winner resolved m out =
     (let rs = resolved \<lparr> rs_soft_skip_attach_records := [] \<rparr>
      in fold (finalize_group pl promote materialize on_winner (rs_rank_ctx resolved))
           (enumerate 0 (rs_groups resolved))
           \<lparr> fz_resolved = rs, fz_materializer = m, fz_sink = out, fz_count = 0, fz_error = None \<rparr>)"

definition finalize_with_materialize ::
  "Platform \<Rightarrow> 'm materializer \<Rightarrow> 'o winner_sink \<Rightarrow> ResolvedKeepSet \<Rightarrow> 'm \<Rightarrow> 'o \<Rightarrow> ('m, 'o) Finalize" where
  "finalize_with_materialize pl materialize on_winner resolved m out =
     finalize_with_materialize_opts pl False materialize on_winner resolved m out"

record MaterializeBuildOpts =
  mo_policy :: KeepPolicy
  mo_family_policy :: FamilyPolicy
  mo_prefer_path :: "str list"
  mo_tier2_enabled :: bool
  mo_created_from :: "KeepSetProvenance option"
  mo_rank_ctx :: "RankContext option"
  mo_grouping_ctx :: "GroupingContext option"
  mo_promote_on_attach_fail :: bool

definition build_keep_set_materialized ::
  "Platform \<Rightarrow> RecoverableScanItem list \<Rightarrow> MaterializeBuildOpts \<Rightarrow> 'm materializer \<Rightarrow> 'o winner_sink \<Rightarrow>
   'm \<Rightarrow> 'o \<Rightarrow> ('m \<times> 'o) \<times> (KeepSetError + KeepSet \<times> DecisionRecord list \<times> u64)" where
  "build_keep_set_materialized pl items opts materialize on_winner m out =
     (let rank_ctx = (case mo_rank_ctx opts of Some c \<Rightarrow> c
                      | None \<Rightarrow> from_policy_and_prefer (mo_policy opts) (mo_prefer_path opts));
          gctx = (case mo_grouping_ctx opts of Some g \<Rightarrow> g | None \<Rightarrow> with_tier2 (mo_tier2_enabled opts));
          resolved = resolve_groups_with_grouping pl items (mo_family_policy opts) rank_ctx gctx
                       (mo_created_from opts);
          z = finalize_with_materialize_opts pl (mo_promote_on_attach_fail opts) materialize on_winner
                resolved m out
      in ((fz_materializer z, fz_sink z),
          (case fz_error z of
             Some e \<Rightarrow> Inl e
           | None \<Rightarrow> Inr (to_keep_set pl (fz_resolved z), to_decisions pl (fz_resolved z), fz_count z))))"

subsection \<open>Which peer is accepted\<close>

text \<open>
  A materializer that gives the same answer for the same message, whatever it was asked before;
  its own state (open files, caches) may change.
\<close>

definition answers :: "'m materializer \<Rightarrow> (MessageLocus \<Rightarrow> MaterializeError + CanonicalMessage) \<Rightarrow> bool" where
  "answers materialize f \<longleftrightarrow> (\<forall>m l. snd (materialize m l) = f l)"

definition usable ::
  "(MessageLocus \<Rightarrow> MaterializeError + CanonicalMessage) \<Rightarrow> RecoverableScanItem list \<Rightarrow> nat \<Rightarrow> bool" where
  "usable f items i = (case f (sc_locus (items ! i)) of Inl _ \<Rightarrow> False | Inr _ \<Rightarrow> True)"

definition acceptable ::
  "Platform \<Rightarrow> bool \<Rightarrow> (MessageLocus \<Rightarrow> MaterializeError + CanonicalMessage) \<Rightarrow>
   RecoverableScanItem list \<Rightarrow> nat \<Rightarrow> bool" where
  "acceptable pl promote f items i =
     (case f (sc_locus (items ! i)) of
        Inl _ \<Rightarrow> False
      | Inr raw \<Rightarrow>
          \<not> (promote \<and> is_attach_incomplete (adopt_item pl (merge_soft_fidelity (items ! i) raw) raw)))"

lemma acceptable_usable: "acceptable pl promote f items i \<Longrightarrow> usable f items i"
  by (simp add: acceptable_def usable_def split: sum.splits)

lemma acceptable_any: "acceptable pl False f items i \<longleftrightarrow> usable f items i"
  by (simp add: acceptable_def usable_def split: sum.splits)

definition first_of :: "'a list \<Rightarrow> 'a option" where
  "first_of xs = (case xs of [] \<Rightarrow> None | x # _ \<Rightarrow> Some x)"

lemma first_of_simps [simp]: "first_of [] = None" "first_of (x # xs) = Some x"
  by (simp_all add: first_of_def)

lemma merge_soft_fidelity_locus [simp]: "sc_locus (merge_soft_fidelity item msg) = sc_locus item"
  by (simp add: merge_soft_fidelity_def Let_def)

definition walk_result ::
  "(nat \<Rightarrow> bool) \<Rightarrow> (nat \<Rightarrow> bool) \<Rightarrow> nat list \<Rightarrow> 'm PeerWalk \<Rightarrow> 'm PeerWalk \<Rightarrow> bool" where
  "walk_result ok use peers w w' \<longleftrightarrow>
     map_option fst (pw_accepted w') =
       (case find ok peers of
          Some i \<Rightarrow> Some i
        | None \<Rightarrow> first_of (map fst (pw_soft_skipped w) @ filter use peers)) \<and>
     pw_failed w' = pw_failed w @ filter (\<lambda>i. \<not> use i) (takeWhile (\<lambda>i. \<not> ok i) peers) \<and>
     length (pw_items w') = length (pw_items w) \<and>
     (\<forall>j. j \<notin> set peers \<longrightarrow> pw_items w' ! j = pw_items w ! j)"

lemma fall_back_fields [simp]:
  "pw_failed (fall_back w) = pw_failed w" "pw_items (fall_back w) = pw_items w"
  "pw_materializer (fall_back w) = pw_materializer w"
  by (simp_all add: fall_back_def split: option.splits list.splits)

lemma fall_back_accepted:
  "map_option fst (pw_accepted (fall_back w)) =
     (case pw_accepted w of Some (i, _) \<Rightarrow> Some i | None \<Rightarrow> first_of (map fst (pw_soft_skipped w)))"
  by (auto simp: fall_back_def split: option.splits list.splits)

lemma peer_walk_result:
  assumes "answers materialize f" and "distinct peers" and "pw_accepted w = None"
    and "\<forall>i\<in>set peers. pw_items w ! i = items ! i"
  shows "walk_result (acceptable pl promote f items) (usable f items) peers w
    (fall_back (peer_walk pl promote materialize attempt peers w))"
  using assms(2-)
proof (induction peers arbitrary: w attempt)
  case Nil
  then show ?case by (simp add: walk_result_def fall_back_accepted)
next
  case (Cons idx rest)
  let ?ok = "acceptable pl promote f items" and ?use = "usable f items"
  obtain m r where mat: "materialize (pw_materializer w) (sc_locus (pw_items w ! idx)) = (m, r)"
    by fastforce
  have r: "r = f (sc_locus (items ! idx))"
    using assms(1) mat Cons.prems(3) by (metis answers_def list.set_intros(1) snd_conv)
  show ?case
  proof (cases r)
    case (Inl e)
    with r have fi: "f (sc_locus (items ! idx)) = Inl e" by simp
    then have no: "\<not> ?use idx" "\<not> ?ok idx" by (simp_all add: usable_def acceptable_def)
    let ?w = "w \<lparr> pw_materializer := m, pw_failed := pw_failed w @ [idx], pw_had_hard_fail := True \<rparr>"
    have "walk_result ?ok ?use rest ?w (fall_back (peer_walk pl promote materialize (attempt + 1) rest ?w))"
      using Cons.prems by (intro Cons.IH) auto
    with mat Inl no show ?thesis by (cases "find ?ok rest") (simp_all add: walk_result_def)
  next
    case (Inr raw)
    let ?item = "merge_soft_fidelity (items ! idx) raw"
    let ?msg = "adopt_item pl ?item raw"
    from Inr r have fi: "f (sc_locus (items ! idx)) = Inr raw" by simp
    then have use: "?use idx" by (simp add: usable_def)
    from fi have ok: "?ok idx \<longleftrightarrow> \<not> (promote \<and> is_attach_incomplete ?msg)"
      by (simp add: acceptable_def)
    let ?w1 = "w \<lparr> pw_materializer := m, pw_items := (pw_items w)[idx := ?item] \<rparr>"
    have item: "pw_items w ! idx = items ! idx" using Cons.prems(3) by simp
    show ?thesis
    proof (cases "?ok idx")
      case True
      with ok mat Inr item use show ?thesis
        by (auto simp: walk_result_def fall_back_accepted Let_def)
    next
      case False
      show ?thesis
      proof (cases "rest = []")
        case True
        with False ok mat Inr item use Cons.prems(2) show ?thesis
          by (auto simp: walk_result_def fall_back_accepted accept_last_incomplete_def Let_def split: list.splits)
      next
        case more: False
        let ?w2 = "?w1 \<lparr> pw_had_soft_skip := True, pw_soft_skipped := pw_soft_skipped w @ [(idx, ?msg)] \<rparr>"
        have "pw_items ?w2 ! i = items ! i" if "i \<in> set rest" for i
          using Cons.prems(1,3) that by (cases "i = idx") auto
        then have "walk_result ?ok ?use rest ?w2 (fall_back (peer_walk pl promote materialize (attempt + 1) rest ?w2))"
          using Cons.prems by (intro Cons.IH) auto
        with False more ok mat Inr item use Cons.prems(1) show ?thesis
          by (cases "find ?ok rest") (simp_all add: walk_result_def Let_def)
      qed
    qed
  qed
qed

definition accepted_peer ::
  "Platform \<Rightarrow> bool \<Rightarrow> (MessageLocus \<Rightarrow> MaterializeError + CanonicalMessage) \<Rightarrow> RankContext \<Rightarrow>
   RecoverableScanItem list \<Rightarrow> nat list \<Rightarrow> nat option" where
  "accepted_peer pl promote f ctx items g =
     (let ranked = ranked_members (pl_windows pl) ctx items g
      in case find (acceptable pl promote f items) ranked of
           Some i \<Rightarrow> Some i
         | None \<Rightarrow> first_of (filter (usable f items) ranked))"

definition failed_peers ::
  "Platform \<Rightarrow> bool \<Rightarrow> (MessageLocus \<Rightarrow> MaterializeError + CanonicalMessage) \<Rightarrow> RankContext \<Rightarrow>
   RecoverableScanItem list \<Rightarrow> nat list \<Rightarrow> nat set" where
  "failed_peers pl promote f ctx items g =
     {i \<in> set (takeWhile (\<lambda>i. \<not> acceptable pl promote f items i)
                 (ranked_members (pl_windows pl) ctx items g)). \<not> usable f items i}"

lemma set_ranked [simp]: "set (ranked_members w ctx items g) = set g"
  by (simp add: ranked_members_def)

lemma find_Some_in: "find P xs = Some i \<Longrightarrow> i \<in> set xs \<and> P i"
  by (auto simp: find_Some_iff)

lemma first_of_filter: "first_of (filter P xs) = Some i \<Longrightarrow> i \<in> set xs \<and> P i"
  by (induction xs) (auto split: if_splits)

lemma first_of_None [simp]: "first_of xs = None \<longleftrightarrow> xs = []"
  by (cases xs) simp_all

lemma accepted_peer_in: "accepted_peer pl promote f ctx items g = Some i \<Longrightarrow> i \<in> set g \<and> usable f items i"
  unfolding accepted_peer_def Let_def
  by (auto split: option.splits dest!: find_Some_in first_of_filter dest: acceptable_usable)

lemma accepted_peer_None: "accepted_peer pl promote f ctx items g = None \<longleftrightarrow> (\<forall>i\<in>set g. \<not> usable f items i)"
  unfolding accepted_peer_def Let_def
  by (auto simp: filter_empty_conv find_None_iff split: option.splits dest!: find_Some_in dest: acceptable_usable)

lemma sort_by_cong:
  assumes "\<And>a b. a \<in> set xs \<Longrightarrow> b \<in> set xs \<Longrightarrow> le a b = le' a b"
  shows "sort_by le xs = sort_by le' xs"
proof -
  have ins: "insert_by le x ys = insert_by le' x ys"
    if "\<And>a b. a \<in> insert x (set ys) \<Longrightarrow> b \<in> insert x (set ys) \<Longrightarrow> le a b = le' a b" for x ys
    using that by (induction ys) auto
  show ?thesis using assms
  proof (induction xs)
    case (Cons x xs)
    then have IH: "sort_by le xs = sort_by le' xs" by simp
    have "insert_by le x (sort_by le xs) = insert_by le' x (sort_by le xs)"
      using Cons.prems by (intro ins) auto
    then show ?case using IH by (simp add: sort_by_def)
  qed (simp add: sort_by_def)
qed

lemma ranked_members_cong:
  assumes "\<forall>i\<in>set g. items ! i = items' ! i"
  shows "ranked_members w ctx items g = ranked_members w ctx items' g"
  unfolding ranked_members_def using assms by (intro sort_by_cong) (simp add: rank_le_def)

lemma usable_cong: "items ! i = items' ! i \<Longrightarrow> usable f items i = usable f items' i"
  and acceptable_cong: "items ! i = items' ! i \<Longrightarrow> acceptable pl promote f items i = acceptable pl promote f items' i"
  by (simp_all add: usable_def acceptable_def cong: sum.case_cong)

subsection \<open>What is written for a group\<close>

definition entries_of :: "nat \<Rightarrow> ResolvedKeepSet \<Rightarrow> bool" where
  "entries_of n rs \<longleftrightarrow> length (rs_roles rs) = n \<and> length (rs_winner_of rs) = n"

definition entry_at :: "ResolvedKeepSet \<Rightarrow> nat \<Rightarrow> DecisionRole \<times> nat option" where
  "entry_at rs i = (rs_roles rs ! i, rs_winner_of rs ! i)"

definition written :: "nat set \<Rightarrow> nat option \<Rightarrow> nat \<Rightarrow> DecisionRole \<times> nat option" where
  "written failed win i =
     (case win of
        None \<Rightarrow> (RoleMaterializeFailed, None)
      | Some w \<Rightarrow> (if i \<in> failed then RoleMaterializeFailed else if i = w then RoleUnique else RoleDupOf, Some w))"

lemma write_member_entries:
  "entries_of n rs \<Longrightarrow> entries_of n (write_member failed win pr re i rs)"
  "entries_of n rs \<Longrightarrow> i < n \<Longrightarrow>
    entry_at (write_member failed win pr re i rs) j = (if j = i then written (set failed) win i else entry_at rs j)"
  "rs_items (write_member failed win pr re i rs) = rs_items rs"
  "rs_groups (write_member failed win pr re i rs) = rs_groups rs"
  by (auto simp: entries_of_def entry_at_def write_member_def written_def split: option.splits)

lemma fold_write_member:
  assumes "entries_of n rs" and "\<forall>i\<in>set g. i < n"
  shows "entries_of n (fold (write_member failed win pr re) g rs)"
    and "entry_at (fold (write_member failed win pr re) g rs) j =
      (if j \<in> set g then written (set failed) win j else entry_at rs j)"
    and "rs_items (fold (write_member failed win pr re) g rs) = rs_items rs"
    and "rs_groups (fold (write_member failed win pr re) g rs) = rs_groups rs"
  using assms
proof (induction g arbitrary: rs)
  case (Cons i g)
  {
    case 1
    then have "entries_of n (write_member failed win pr re i rs)"
      by (intro write_member_entries(1)) simp
    from Cons.IH(1) [OF this] 1 show ?case by simp
  next
    case 2
    then have "entries_of n (write_member failed win pr re i rs)"
      by (intro write_member_entries(1)) simp
    from Cons.IH(2) [OF this] 2 show ?case by (auto simp: write_member_entries)
  next
    case 3
    then have "entries_of n (write_member failed win pr re i rs)"
      by (intro write_member_entries(1)) simp
    from Cons.IH(3) [OF this] 3 show ?case by (simp add: write_member_entries)
  next
    case 4
    then have "entries_of n (write_member failed win pr re i rs)"
      by (intro write_member_entries(1)) simp
    from Cons.IH(4) [OF this] 4 show ?case by (simp add: write_member_entries)
  }
qed simp_all

subsection \<open>All groups\<close>

text \<open>What the finaliser has done to the groups \<open>gs\<close>, with \<open>items\<close> the items before it ran.\<close>

definition finalized ::
  "Platform \<Rightarrow> bool \<Rightarrow> (MessageLocus \<Rightarrow> MaterializeError + CanonicalMessage) \<Rightarrow> RankContext \<Rightarrow>
   RecoverableScanItem list \<Rightarrow> nat list list \<Rightarrow> nat list list \<Rightarrow> ('m, 'o) Finalize \<Rightarrow> bool" where
  "finalized pl promote f ctx items done todo z \<longleftrightarrow>
     entries_of (length items) (fz_resolved z) \<and> length (rs_items (fz_resolved z)) = length items \<and>
     (\<forall>g\<in>set todo. \<forall>i\<in>set g. rs_items (fz_resolved z) ! i = items ! i) \<and>
     fz_count z = length (filter (\<lambda>g. accepted_peer pl promote f ctx items g \<noteq> None) done) \<and>
     (\<forall>g\<in>set done. \<forall>i\<in>set g. entry_at (fz_resolved z) i =
        written (failed_peers pl promote f ctx items g) (accepted_peer pl promote f ctx items g) i)"

lemma walk_init_fields [simp]:
  "pw_items (walk_init items m) = items" "pw_soft_skipped (walk_init items m) = []"
  "pw_failed (walk_init items m) = []" "pw_accepted (walk_init items m) = None"
  by (simp_all add: walk_init_def)

lemma walk_on_group:
  assumes "answers materialize f" and "distinct g" and "\<forall>i\<in>set g. cur ! i = items ! i"
    and w_def: "w = fall_back (peer_walk pl promote materialize 0
      (ranked_members (pl_windows pl) ctx cur g) (walk_init cur m))"
  shows "map_option fst (pw_accepted w) = accepted_peer pl promote f ctx items g"
    and "set (pw_failed w) = failed_peers pl promote f ctx items g"
    and "length (pw_items w) = length cur" and "j \<notin> set g \<Longrightarrow> pw_items w ! j = cur ! j"
proof -
  have ranked: "ranked_members (pl_windows pl) ctx cur g = ranked_members (pl_windows pl) ctx items g"
    by (rule ranked_members_cong [OF assms(3)])
  have "distinct (ranked_members (pl_windows pl) ctx items g)"
    using assms(2) by (simp add: ranked_members_def)
  from peer_walk_result [OF assms(1) this, of "walk_init cur m" items pl promote 0] assms(3)
  have "walk_result (acceptable pl promote f items) (usable f items)
      (ranked_members (pl_windows pl) ctx items g) (walk_init cur m) w"
    by (simp add: w_def ranked)
  then show "map_option fst (pw_accepted w) = accepted_peer pl promote f ctx items g"
    "set (pw_failed w) = failed_peers pl promote f ctx items g"
    "length (pw_items w) = length cur" "j \<notin> set g \<Longrightarrow> pw_items w ! j = cur ! j"
    unfolding walk_result_def walk_init_fields list.map append_Nil accepted_peer_def failed_peers_def Let_def
    by auto
qed

lemma finalize_group_error: "fz_error z \<noteq> None \<Longrightarrow> finalize_group pl p mat sink ctx ig z = z"
  by (cases ig) (simp add: finalize_group_def Let_def)

lemma finalize_group_step:
  assumes inv: "finalized pl promote f ctx items done (g # todo) z"
    and ans: "answers materialize f" and g: "g \<noteq> []" "distinct g" "\<forall>i\<in>set g. i < length items"
    and disj: "\<forall>h\<in>set done \<union> set todo. set h \<inter> set g = {}"
    and ok: "fz_error (finalize_group pl promote materialize on_winner ctx (k, g) z) = None"
  shows "finalized pl promote f ctx items (done @ [g]) todo
    (finalize_group pl promote materialize on_winner ctx (k, g) z)"
proof -
  let ?rs = "fz_resolved z"
  let ?cur = "rs_items ?rs"
  define w where "w = fall_back (peer_walk pl promote materialize 0
      (ranked_members (pl_windows pl) ctx ?cur g) (walk_init ?cur (fz_materializer z)))"
  have noerr: "fz_error z = None" using ok finalize_group_error [of z] by (metis option.distinct(1))
  have cur: "\<forall>i\<in>set g. ?cur ! i = items ! i" using inv by (simp add: finalized_def)
  note walk = walk_on_group [OF ans g(2) cur w_def]
  note inv' = inv [unfolded finalized_def]
  have entry: "entries_of (length items) rs' \<Longrightarrow> entry_at (fold (write_member (pw_failed w) win pr re) g rs') j =
      (if j \<in> set g then written (failed_peers pl promote f ctx items g) win j else entry_at rs' j)"
    "entries_of (length items) rs' \<Longrightarrow> entries_of (length items) (fold (write_member (pw_failed w) win pr re) g rs')"
    "entries_of (length items) rs' \<Longrightarrow> rs_items (fold (write_member (pw_failed w) win pr re) g rs') = rs_items rs'"
    for rs' win pr re j
    using fold_write_member [of "length items" rs' g "pw_failed w" win pr re] g(3) walk(2) by auto
  have rest: "entry_at rs' j = entry_at ?rs j" "entries_of (length items) rs'"
    if "rs_roles rs' = rs_roles ?rs" "rs_winner_of rs' = rs_winner_of ?rs" for rs' j
    using that inv' by (simp_all add: entry_at_def entries_of_def)
  have items: "pw_items w ! i = items ! i" if "h \<in> set todo" "i \<in> set h" for h i
    using inv' that disj walk(4) [of i] by fastforce
  show ?thesis
  proof (cases "pw_accepted w")
    case None
    then have none: "accepted_peer pl promote f ctx items g = None" using walk(1) by simp
    let ?rs2 = "?rs \<lparr> rs_items := pw_items w, rs_group_dropped := (rs_group_dropped ?rs)[k := True] \<rparr>"
    have z': "finalize_group pl promote materialize on_winner ctx (k, g) z =
        z \<lparr> fz_resolved := fold (write_member (pw_failed w) None False None) g ?rs2,
            fz_materializer := pw_materializer w \<rparr>"
      using None noerr g(1) by (simp add: finalize_group_def Let_def w_def)
    show ?thesis
      unfolding z' using inv' none entry [OF rest(2), of ?rs2] rest(1) [of ?rs2] items walk(3) disj
      by (auto simp: finalized_def)
  next
    case (Some wm)
    obtain win msg where wm: "wm = (win, msg)" by fastforce
    with Some have acc: "accepted_peer pl promote f ctx items g = Some win" using walk(1) by simp
    obtain sink e where sink: "on_winner (fz_sink z) msg = (sink, e)" by fastforce
    let ?rs2 = "?rs \<lparr> rs_items := pw_items w, rs_soft_skip_attach_records := rs_soft_skip_attach_records ?rs @
        soft_skip_rows (pw_items w) win (pw_soft_skipped w),
        rs_group_dropped := (rs_group_dropped ?rs)[k := False] \<rparr>"
    have "e = None" using ok Some wm sink noerr g(1)
      by (cases e) (simp_all add: finalize_group_def Let_def w_def)
    then have z': "finalize_group pl promote materialize on_winner ctx (k, g) z =
        z \<lparr> fz_resolved := fold (write_member (pw_failed w) (Some win) (promoted_by w) (promote_reason_of w)) g ?rs2,
            fz_materializer := pw_materializer w, fz_sink := sink, fz_count := fz_count z + 1 \<rparr>"
      using Some wm sink noerr g(1) by (simp add: finalize_group_def Let_def w_def)
    show ?thesis
      unfolding z' using inv' acc entry [OF rest(2), of ?rs2] rest(1) [of ?rs2] items walk(3) disj
      by (auto simp: finalized_def)
  qed
qed

lemma fold_finalize_error:
  "fz_error z \<noteq> None \<Longrightarrow> fold (finalize_group pl p mat sink ctx) igs z = z"
  by (induction igs) (simp_all add: finalize_group_error)

lemma finalize_all:
  assumes "finalized pl promote f ctx items done todo z" and "answers materialize f"
    and "\<forall>g\<in>set (done @ todo). g \<noteq> [] \<and> (\<forall>i\<in>set g. i < length items)" and "distinct (concat (done @ todo))"
    and "fz_error (fold (finalize_group pl promote materialize on_winner ctx) (enumerate k todo) z) = None"
  shows "finalized pl promote f ctx items (done @ todo) []
    (fold (finalize_group pl promote materialize on_winner ctx) (enumerate k todo) z)"
  using assms
proof (induction todo arbitrary: "done" k z)
  case (Cons g todo)
  let ?z = "finalize_group pl promote materialize on_winner ctx (k, g) z"
  have ok: "fz_error ?z = None"
    using Cons.prems(5) fold_finalize_error [of ?z] by (cases "fz_error ?z") auto
  from Cons.prems(4) have "distinct g" "\<forall>h\<in>set done \<union> set todo. set h \<inter> set g = {}" by auto
  with Cons.prems(3) have "finalized pl promote f ctx items (done @ [g]) todo ?z"
    by (intro finalize_group_step [OF Cons.prems(1,2) _ _ _ _ ok]) auto
  from Cons.IH [OF this Cons.prems(2), of "Suc k"] Cons.prems(3-5) show ?case by simp
qed simp

lemma finalize_finalized:
  assumes "\<forall>x\<in>set items. wf_scan (pl_windows pl) x" and "answers materialize f"
    and "rs = resolve_groups_with_grouping pl items fam ctx gctx prov"
    and "z = finalize_with_materialize_opts pl promote materialize on_winner rs m out"
    and "fz_error z = None"
  shows "finalized pl promote f ctx items (rs_groups rs) [] z"
proof -
  let ?rs = "rs \<lparr> rs_soft_skip_attach_records := [] \<rparr>"
  let ?z = "\<lparr> fz_resolved = ?rs, fz_materializer = m, fz_sink = out, fz_count = 0, fz_error = None \<rparr>"
  note res = resolve_results [OF assms(1,3)]
  have fields: "rs_items rs = items" "rs_rank_ctx rs = ctx"
    by (simp_all add: assms(3) resolve_groups_with_grouping_def Let_def split_beta)
  have z: "z = fold (finalize_group pl promote materialize on_winner ctx) (enumerate 0 (rs_groups rs)) ?z"
    by (simp add: assms(4) finalize_with_materialize_opts_def fields)
  have "finalized pl promote f ctx items [] (rs_groups rs) ?z"
    using res(2) by (simp add: finalized_def entries_of_def verdicts_of_def fields)
  moreover have "\<forall>g\<in>set (rs_groups rs). g \<noteq> [] \<and> (\<forall>i\<in>set g. i < length items)"
    using res(1) grouping_of_set [OF res(1)] by (auto simp: grouping_of_def)
  ultimately show ?thesis
    using finalize_all [of pl promote f ctx items "[]" "rs_groups rs" ?z materialize on_winner 0]
      assms(2,5) grouping_of_distinct [OF res(1)] by (simp add: z)
qed

text \<open>
  C17: every group ends with the right winner. When finalisation reports no error, the winner of a
  group is its first acceptable member in rank order, where any member that materialises is
  acceptable unless promotion is on and its attachments are incomplete; if none is acceptable, the
  first member that materialises wins. The winner alone is unique, the members that failed before
  the walk ended are marked failed, the rest are duplicates, all naming the winner. A group where
  nothing materialises has no winner and all its members are marked failed.
\<close>

theorem finalize_winners:
  assumes "\<forall>x\<in>set items. wf_scan (pl_windows pl) x" and "answers materialize f"
    and "rs = resolve_groups_with_grouping pl items fam ctx gctx prov"
    and "z = finalize_with_materialize_opts pl promote materialize on_winner rs m out"
    and "fz_error z = None" and "g \<in> set (rs_groups rs)" and "i \<in> set g"
  shows "case accepted_peer pl promote f ctx items g of
      None \<Rightarrow> (\<forall>j\<in>set g. \<not> usable f items j) \<and>
        rs_roles (fz_resolved z) ! i = RoleMaterializeFailed \<and> rs_winner_of (fz_resolved z) ! i = None
    | Some win \<Rightarrow> win \<in> set g \<and> usable f items win \<and> rs_winner_of (fz_resolved z) ! i = Some win \<and>
        rs_roles (fz_resolved z) ! i =
          (if i = win then RoleUnique
           else if i \<in> failed_peers pl promote f ctx items g then RoleMaterializeFailed
           else RoleDupOf)"
proof -
  have "entry_at (fz_resolved z) i =
      written (failed_peers pl promote f ctx items g) (accepted_peer pl promote f ctx items g) i"
    using finalize_finalized [OF assms(1-5)] assms(6,7) by (simp add: finalized_def)
  then show ?thesis
    using accepted_peer_in [of pl promote f ctx items g] accepted_peer_None [of pl promote f ctx items g]
    by (auto simp: entry_at_def written_def failed_peers_def split: option.splits if_splits)
qed

text \<open>
  Exactly the winners are delivered and counted. When finalisation reports no error, the
  returned count is the number of groups in which some member materialises.
\<close>

theorem finalize_count:
  assumes "\<forall>x\<in>set items. wf_scan (pl_windows pl) x" and "answers materialize f"
    and "rs = resolve_groups_with_grouping pl items fam ctx gctx prov"
    and "z = finalize_with_materialize_opts pl promote materialize on_winner rs m out"
    and "fz_error z = None"
  shows "fz_count z = length (filter (\<lambda>g. \<exists>i\<in>set g. usable f items i) (rs_groups rs))"
proof -
  have "accepted_peer pl promote f ctx items g \<noteq> None \<longleftrightarrow> (\<exists>i\<in>set g. usable f items i)" for g
    using accepted_peer_None [of pl promote f ctx items g] by auto
  then show ?thesis
    using finalize_finalized [OF assms] by (simp add: finalized_def)
qed

text \<open>
  What promotion changes. Without it the best-ranked member that materialises wins; with it the
  best-ranked complete one does, and when every one is incomplete the result is that without it.
\<close>

theorem promotion_winner:
  "accepted_peer pl False f ctx items g =
     find (usable f items) (ranked_members (pl_windows pl) ctx items g) \<and>
   accepted_peer pl True f ctx items g =
     (case find (acceptable pl True f items) (ranked_members (pl_windows pl) ctx items g) of
        None \<Rightarrow> accepted_peer pl False f ctx items g
      | Some i \<Rightarrow> Some i)"
proof -
  have "first_of (filter P xs) = find P xs" for P and xs :: "nat list"
    by (induction xs) simp_all
  moreover have "acceptable pl False f items = usable f items" by (rule ext) (rule acceptable_any)
  ultimately show ?thesis by (simp add: accepted_peer_def Let_def split: option.split)
qed

lemma finalize_group_no_error:
  assumes "\<And>s msg. snd (on_winner s msg) = None"
  shows "fz_error (finalize_group pl promote materialize on_winner ctx (k, g) z) = fz_error z"
proof (cases "fz_error z \<noteq> None \<or> g = []")
  case True
  then show ?thesis by (auto simp: finalize_group_def)
next
  case False
  define w where "w = fall_back (peer_walk pl promote materialize 0
      (ranked_members (pl_windows pl) ctx (rs_items (fz_resolved z)) g)
      (walk_init (rs_items (fz_resolved z)) (fz_materializer z)))"
  show ?thesis
  proof (cases "pw_accepted w")
    case None
    with False show ?thesis by (simp add: finalize_group_def Let_def w_def)
  next
    case (Some wm)
    obtain win msg where wm: "wm = (win, msg)" by fastforce
    from assms [of "fz_sink z" msg] obtain sink where "on_winner (fz_sink z) msg = (sink, None)"
      by (cases "on_winner (fz_sink z) msg") simp
    with False Some wm show ?thesis by (simp add: finalize_group_def Let_def w_def)
  qed
qed

lemma finalize_no_error:
  assumes "\<And>s msg. snd (on_winner s msg) = None"
  shows "fz_error (finalize_with_materialize_opts pl promote materialize on_winner rs m out) = None"
proof -
  have "fz_error (fold (finalize_group pl promote materialize on_winner ctx) igs z) = fz_error z" for ctx igs z
    using finalize_group_no_error [of on_winner pl promote materialize ctx, OF assms]
    by (induction igs arbitrary: z) auto
  then show ?thesis by (simp add: finalize_with_materialize_opts_def)
qed

end
