(* ===== verification/Keep_Samples.thy ===== *)
theory Keep_Samples
  imports Keep_Finalize
begin

section \<open>Grouping evaluated on a sample\<close>

text \<open>
  Four candidates with the same content hash: two with Message-ID \<^verbatim>\<open>a\<close>, one without a Message-ID
  that a CRC suspicion bars from Tier 2, and one with Message-ID \<^verbatim>\<open>b\<close>.
\<close>

definition sample_candidates :: "RecoverableScanItem list" where
  "sample_candidates =
     [sample_candidate (Some (lit ''a'')) [] 1, sample_candidate None [CrcSuspect] 2,
      sample_candidate (Some (lit ''b'')) [] 3, sample_candidate (Some (lit ''a'')) [] 4]"

lemma sample_candidates_wf: "\<forall>x\<in>set sample_candidates. wf_scan False x"
  by (simp add: sample_candidates_def sample_candidate_def wf_scan_def path_key_def
      path_compare_key_def wf_str_def)

lemma sample_fields:
  "sc_message_id_norm (sample_candidate m rs n) = m"
  "sc_content_hash (sample_candidate m rs n) = replicate 32 1"
  "sc_fp_header (sample_candidate m rs n) = 0" "sc_fp_body (sample_candidate m rs n) = 0"
  "sc_fp_recipients (sample_candidate m rs n) = 0" "sc_fp_attachments (sample_candidate m rs n) = 0"
  "sc_preview_bytes_over_budget (sample_candidate m rs n) = False"
  "recipient_strings_have_x500 (sample_candidate m rs n) = False"
  by (simp_all add: sample_candidate_def recipient_strings_have_x500_def)

abbreviation sample_context :: "bool \<Rightarrow> GroupingContext" where
  "sample_context b \<equiv> default_context \<lparr> gx_tier1_backfill := b \<rparr>"

lemma sample_context_fields:
  "gx_identity (sample_context b) = IdOff"
  "gx_scope (sample_context b) = Global"
  "gx_tier2_enabled (sample_context b)"
  "gx_tier1_verify (sample_context b) = TvOff"
  "block_cross_mid (sample_context b)"
  "gx_tier1_backfill (sample_context b) = b"
  "enforce_readable_body (sample_context b)"
  "\<not> allow_crc_suspect_tier2_for (sample_context b) p"
  by (simp_all add: default_context_def block_cross_mid_def enforce_readable_body_def
      allow_crc_suspect_tier2_for_def)

lemma sample_keys:
  "keep_mid_key w (sample_context b) item m = m"
  "keep_hash_key w (sample_context b) (sample_candidate m' rs n) = replicate 32 1"
  "sc_bind_hash (sample_candidate m' rs n) IdOff = replicate 32 1"
  by (simp_all add: keep_mid_key_def keep_hash_key_def keep_scope_prefix_def sample_context_fields
      sc_bind_hash_def is_strong_def sample_fields)

lemma sample_eligibility:
  "keep_eligibility w (sample_context b) (sample_candidate m [] n) s = (True, s)"
  "keep_eligibility w (sample_context b) (sample_candidate m [CrcSuspect] n) s =
     (False, s \<lparr> gs_tier2_blocked_crc_suspect := gs_tier2_blocked_crc_suspect s + 1 \<rparr>)"
  by (simp_all add: keep_eligibility_def sample_context_fields assess_tier2_eligibility_def
      sample_candidate_def with_degraded_def tier2_eligibility_def)

lemmas sample_step = group_step_def keep_place_def keep_tier1_def keep_tier2_def keep_seed_def
  keep_join_def keep_note_block_def keep_adopt_mid_def keep_note_divergence_def keep_split_tier1_def
  mid_join_compatible_def set_insert_def sample_context_fields sample_keys sample_eligibility sample_fields

lemma sample_mids:
  "mid_present (Some (lit ''a'')) = Some (lit ''a'')" "mid_present (Some (lit ''b'')) = Some (lit ''b'')"
  "lit ''a'' \<noteq> lit ''b''" "lit ''b'' \<noteq> lit ''a''" "[0..<4] = [0, 1, 2, 3]"
  by (simp_all add: upt_rec)

lemma sample_loop:
  "gp_groups (group_loop False (sample_context b) sample_candidates) = [[0, 3], [1], [2]]"
  "gp_bound_mid (group_loop False (sample_context b) sample_candidates) = [Some (lit ''a''), None, Some (lit ''b'')]"
  by (simp_all add: group_loop_def group_init_def sample_candidates_def sample_step Let_def is_strong_def
      sample_mids)

lemma sample_nonempty: "sample_candidates \<noteq> []" "length sample_candidates = 4"
  by (simp_all add: sample_candidates_def)

lemma sample_edges:
  "backfill_edges False (sample_context True) sample_candidates [[0, 3], [1], [2]]
     [Some (lit ''a''), None, Some (lit ''b'')] = [(0, 1), (1, 2)]"
proof -
  have c: "backfill_clusters False (sample_context True) sample_candidates = [[0, 1, 2, 3]]"
    by (simp add: backfill_clusters_def clusters_by_def sample_candidates_def sample_context_fields
        sample_fields set_insert_def sample_mids)
  have "item_gids 4 [[0, 3], [1], [2]] = [0, 1, 2, 0]"
    by (simp add: item_gids_def numeral_eq_Suc)
  with c show ?thesis
    by (simp add: backfill_edges_def cluster_edges_def backfill_edge_def bound_at_def sample_candidates_def
        mid_join_compatible_def sample_mids numeral_eq_Suc)
qed

lemma sample_forest:
  "merge_all unite (uf_init 3) [(0, 1), (1, 2)] = (([0, 0, 0], [1, 0, 0]), 2)"
  by (simp add: uf_init_def unite_def uf_find_def Let_def numeral_eq_Suc)

lemma sample_rebuild:
  "rb_groups (rebuild_groups [0, 0, 0] bs [[0, 3], [1], [2]]) = [[0, 3, 1, 2]]"
  by (simp add: rebuild_groups_def rebuild_step_def uf_find_def Let_def split_beta numeral_eq_Suc)

lemma sample_outcome:
  "go_groups (group_candidates_with_stats False (sample_context False) sample_candidates) = [[0, 3], [1], [2]]"
  "go_groups (group_candidates_with_stats False (sample_context True) sample_candidates) = [[0, 1, 2, 3]]"
proof -
  show "go_groups (group_candidates_with_stats False (sample_context False) sample_candidates) = [[0, 3], [1], [2]]"
    by (simp add: outcome_no_backfill sample_context_fields sample_loop)
  show "go_groups (group_candidates_with_stats False (sample_context True) sample_candidates) = [[0, 1, 2, 3]]"
    using outcome_backfill [of "sample_context True" sample_candidates False] sample_edges sample_forest
      sample_rebuild sample_nonempty
    by (simp add: sample_context_fields sample_loop numeral_3_eq_3)
qed

lemma sample_mid_at:
  "sc_mid (sample_candidates ! 0) = Some (lit ''a'')" "sc_mid (sample_candidates ! 2) = Some (lit ''b'')"
  "sc_mid (sample_candidates ! 3) = Some (lit ''a'')"
  by (simp_all add: sample_candidates_def sample_fields sample_mids)


subsection \<open>The theorems at the sample\<close>

lemma groups_never_mix_mids_witness:
  "block_cross_mid (sample_context False) \<and>
   the (sc_mid (sample_candidates ! 0)) = the (sc_mid (sample_candidates ! 3))"
  using groups_never_mix_mids [where g = "[0, 3]" and i = 0 and j = 3 and m = "lit ''a''" and n = "lit ''a''",
      OF sample_candidates_wf, of "sample_context False"]
  by (simp add: sample_context_fields sample_outcome sample_mid_at)


lemma same_mid_same_group_witness:
  "\<exists>g\<in>set (go_groups (group_candidates_with_stats False (sample_context False) sample_candidates)).
     0 \<in> set g \<and> 3 \<in> set g"
  by (rule same_mid_same_group [OF sample_candidates_wf _ _ _ _ _ sample_mid_at(1,3)])
    (simp_all add: sample_context_fields sample_nonempty)

lemma grouping_is_partition_witness:
  "grouping_of 4 (go_groups (group_candidates_with_stats False (sample_context True) sample_candidates))"
  using grouping_is_partition [OF sample_candidates_wf, of "sample_context True"] by (simp add: sample_nonempty)

lemma backfill_merges_linked_witness:
  "(0, 2) \<in> linked (=) {(0, 1), (1, 2)}"
  using backfill_merges_linked [OF sample_candidates_wf, of "sample_context True" 0 0 2 2] sample_edges
  by (simp add: sample_context_fields sample_loop sample_outcome)

lemma backfill_counts_absorbed_witness:
  "1 + gs_tier1_backfill_candidates
         (go_stats (group_candidates_with_stats False (sample_context True) sample_candidates)) =
   3 + gs_tier1_backfill_candidates (gp_stats (group_loop False (sample_context True) sample_candidates))"
  using backfill_counts_absorbed [OF sample_candidates_wf, of "sample_context True"]
  by (simp add: sample_context_fields sample_loop sample_outcome is_strong_def)

subsection \<open>Resolution of the sample\<close>

definition sample_platform :: Platform where
  "sample_platform = \<lparr> pl_windows = False, pl_md5 = (\<lambda>_. replicate 16 0), pl_file_name = Some \<rparr>"

definition sample_resolved :: "RankContext \<Rightarrow> ResolvedKeepSet" where
  "sample_resolved ctx = resolve_groups_with_grouping sample_platform sample_candidates
     KeepAttachmentsWithParent ctx (sample_context False) None"

lemma sample_platform_wf: "\<forall>x\<in>set sample_candidates. wf_scan (pl_windows sample_platform) x"
  using sample_candidates_wf by (simp add: sample_platform_def)

lemma sample_resolved_groups: "rs_groups (sample_resolved ctx) = [[0, 3], [1], [2]]"
  by (simp add: sample_resolved_def resolve_groups_with_grouping_def Let_def split_beta sample_outcome
      sample_platform_def)

lemma resolve_one_winner_witness:
  "\<exists>win\<in>{0, 3}. rs_roles (sample_resolved default_rank_context) ! win = RoleUnique"
  using resolve_one_winner [OF sample_platform_wf sample_resolved_def [of default_rank_context], of "[0, 3]"]
  by (auto simp: sample_resolved_groups)

lemma provisional_keep_set_size_witness:
  "length (ks_winners (to_keep_set sample_platform (sample_resolved default_rank_context))) = 3"
  using provisional_keep_set_size [OF sample_platform_wf sample_resolved_def [of default_rank_context]]
    keep_set_counts(2) [of sample_platform "sample_resolved default_rank_context"]
  by (simp add: sample_resolved_groups)


subsection \<open>Materialisation of the sample\<close>

definition sample_message :: CanonicalMessage where
  "sample_message =
     \<lparr> cm_locus = \<lparr> lo_source_path = [], lo_source_pst = [], lo_folder_path = [], lo_nid = 0,
                    lo_is_orphaned = False \<rparr>,
       cm_message_id = None, cm_subject = None, cm_sender = None, cm_display_to = None,
       cm_display_cc = None, cm_display_bcc = None, cm_recipients = [], cm_message_flags = None,
       cm_submit_time = None, cm_size = None, cm_message_class = None, cm_body_plain = None,
       cm_body_html = None, cm_attachments = [], cm_fidelity = clean, cm_message_id_norm = None,
       cm_content_hash = [], cm_edrm_mih_hex = None, cm_body_incomplete = False,
       cm_body_unavailable = False \<rparr>"

text \<open>A materializer that cannot read the message with node id 1, and a sink that collects.\<close>

definition sample_answer :: "MessageLocus \<Rightarrow> MaterializeError + CanonicalMessage" where
  "sample_answer l = (if lo_nid l = 1 then Inl (Hard []) else Inr sample_message)"

abbreviation sample_materialize :: "unit materializer" where
  "sample_materialize m l \<equiv> (m, sample_answer l)"

abbreviation sample_sink :: "CanonicalMessage list winner_sink" where
  "sample_sink out msg \<equiv> (out @ [msg], None)"

definition sample_final :: "(unit, CanonicalMessage list) Finalize" where
  "sample_final = finalize_with_materialize_opts sample_platform True sample_materialize sample_sink
     (sample_resolved default_rank_context) () []"

lemma sample_final_ok: "fz_error sample_final = None"
  unfolding sample_final_def by (rule finalize_no_error) simp

lemma sample_answers: "answers sample_materialize sample_answer"
  by (simp add: answers_def)

lemma sample_usable:
  "\<not> usable sample_answer sample_candidates 0" "usable sample_answer sample_candidates 1"
  "usable sample_answer sample_candidates 2" "usable sample_answer sample_candidates 3"
  by (simp_all add: usable_def sample_answer_def sample_candidates_def sample_candidate_def)

lemma finalize_winners_witness: "rs_winner_of (fz_resolved sample_final) ! 3 = Some 3"
  using finalize_winners [OF sample_platform_wf sample_answers sample_resolved_def sample_final_def
      sample_final_ok, of "[0, 3]" 3] sample_usable
  by (auto simp: sample_resolved_groups split: option.splits)

lemma finalize_count_witness: "fz_count sample_final = 3"
  using finalize_count [OF sample_platform_wf sample_answers sample_resolved_def sample_final_def
      sample_final_ok] sample_usable
  by (simp add: sample_resolved_groups)

end
