(* ===== verification/Keep_Csv.thy ===== *)
theory Keep_Csv
  imports Keep_Resolve
begin

text \<open>
  The decision CSV (\<^verbatim>\<open>DecisionCsvWriter\<close> and \<^verbatim>\<open>neutralize_csv_formula\<close> in
  \<^verbatim>\<open>dedup-engine/src/keepset.rs\<close>): the header, the cells of a row, and the writer. The csv library's
  record writer is a parameter: it takes the cells of a record and may fail with a message; quoting
  and the file are its business.
\<close>

definition DECISION_CSV_HEADER_V1 :: "str list" where
  "DECISION_CSV_HEADER_V1 =
     [lit ''SourcePath'', lit ''SourcePst'', lit ''Folder'', lit ''IsOrphaned'', lit ''NID'',
      lit ''MessageIdNorm'', lit ''ContentHash'', lit ''EdrmMih'', lit ''Role'', lit ''Tier'',
      lit ''WinnerPst'', lit ''WinnerFolder'', lit ''WinnerNid'', lit ''Policy'',
      lit ''FamilyPolicy'', lit ''Degraded'', lit ''DegradedReasons'', lit ''Size'',
      lit ''PromotedFromFailure'']"

definition DECISION_CSV_HEADER :: "str list" where
  "DECISION_CSV_HEADER =
     [lit ''SourcePath'', lit ''SourcePst'', lit ''Folder'', lit ''IsOrphaned'', lit ''NID'',
      lit ''MessageIdNorm'', lit ''ContentHash'', lit ''EdrmMih'', lit ''Role'', lit ''Tier'',
      lit ''WinnerPst'', lit ''WinnerFolder'', lit ''WinnerNid'', lit ''Policy'',
      lit ''FamilyPolicy'', lit ''Degraded'', lit ''DegradedReasons'', lit ''Size'',
      lit ''PromotedFromFailure'', lit ''folder_class'', lit ''folder_class_rank'',
      lit ''source_rank'', lit ''has_bcc'', lit ''date_filetime_utc'', lit ''date_source'',
      lit ''decided_by'', lit ''duplicate_source_count'', lit ''duplicate_sources'',
      lit ''bound_by'', lit ''identity_version'', lit ''tier2_eligible'']"

definition formula_start :: "str \<Rightarrow> bool" where
  "formula_start s \<longleftrightarrow>
     (let check = trim_start s
      in prefix (lit ''='') check \<or> prefix (lit ''+'') check \<or> prefix (lit ''-'') check \<or>
         prefix [64] check)"

definition neutralize_csv_formula :: "str \<Rightarrow> str" where
  "neutralize_csv_formula s = (if formula_start s then 39 # s else s)"

definition csv_bool :: "bool \<Rightarrow> str" where
  "csv_bool b = (if b then lit ''true'' else lit ''false'')"

definition csv_text :: "str option \<Rightarrow> str" where
  "csv_text s = (case s of None \<Rightarrow> [] | Some t \<Rightarrow> t)"

definition csv_cells :: "DecisionRecord \<Rightarrow> str list" where
  "csv_cells row =
     (let unique = (dr_role row = RoleUnique);
          dup_count = (if unique then show_nat (dr_duplicate_source_count row) else []);
          dup_sources = (if unique then neutralize_csv_formula (dr_duplicate_sources row) else [])
      in [dr_source_path row, dr_source_pst row, dr_folder_path row, csv_bool (dr_is_orphaned row),
          show_nat (dr_nid row), csv_text (dr_message_id_norm row), dr_content_hash_hex row,
          csv_text (dr_edrm_mih row), role_as_str (dr_role row), csv_text (dr_tier row),
          csv_text (dr_winner_source_pst row), csv_text (dr_winner_folder row),
          (case dr_winner_nid row of None \<Rightarrow> [] | Some n \<Rightarrow> show_nat n),
          policy_as_str (dr_policy row), family_as_str (dr_family_policy row),
          csv_bool (dr_degraded row), join_with (lit '';'') (dr_degraded_reasons row),
          show_nat (dr_size row), csv_bool (dr_promoted_from_failure row),
          neutralize_csv_formula (dr_folder_class row), show_nat (dr_folder_class_rank row),
          show_nat (dr_source_rank row), csv_bool (dr_has_bcc row),
          neutralize_csv_formula (dr_date_filetime_utc row), dr_date_source row,
          neutralize_csv_formula (dr_decided_by row), dup_count, dup_sources,
          neutralize_csv_formula (dr_bound_by row), neutralize_csv_formula (dr_identity_version row),
          csv_bool (dr_tier2_eligible row)])"

subsection \<open>The writer\<close>






subsection \<open>Theorems\<close>



text \<open>
  Every row has a cell for every column of the header, which extends the header of earlier
  versions without changing its columns. The cells the writer neutralises never start a formula,
  also after leading blanks, and neutralising twice changes nothing more; but source path, source
  file, folder, Message-ID and the winner's folder are written as they are, formulas included.
\<close>

theorem csv_row_shape:
  "length (csv_cells row) = length DECISION_CSV_HEADER \<and>
   prefix DECISION_CSV_HEADER_V1 DECISION_CSV_HEADER \<and>
   list_all (\<lambda>k. \<not> formula_start (csv_cells row ! k)) [19, 23, 25, 27, 28, 29] \<and>
   neutralize_csv_formula (neutralize_csv_formula s) = neutralize_csv_formula s \<and>
   map ((!) (csv_cells row)) [0, 1, 2, 5, 11] =
     [dr_source_path row, dr_source_pst row, dr_folder_path row, csv_text (dr_message_id_norm row),
      csv_text (dr_winner_folder row)]"
proof -
  have neutral: "\<not> formula_start (neutralize_csv_formula s)" for s
    by (auto simp: neutralize_csv_formula_def formula_start_def trim_start_def trim_start_by_def
        is_whitespace_def Let_def)
  moreover from neutral have "neutralize_csv_formula (neutralize_csv_formula s) = neutralize_csv_formula s" for s
    by (simp add: neutralize_csv_formula_def [of "neutralize_csv_formula s"])
  moreover have "\<not> formula_start []"
    by (simp add: formula_start_def trim_start_def trim_start_by_def Let_def)
  moreover have "prefix DECISION_CSV_HEADER_V1 DECISION_CSV_HEADER"
    unfolding DECISION_CSV_HEADER_V1_def DECISION_CSV_HEADER_def by (simp del: lit_simps)
  moreover have "length (csv_cells row) = length DECISION_CSV_HEADER"
    by (simp add: csv_cells_def DECISION_CSV_HEADER_def Let_def)
  ultimately show ?thesis
    by (simp add: csv_cells_def Let_def)
qed

end
