(* ===== verification/Byte_Slices.thy ===== *)
theory Byte_Slices
  imports Rust_Text
begin

text \<open>
  Byte buffers of the storage layers: slices, in-place copies into a slice, the fixed-width
  little-endian fields, and the \<^verbatim>\<open>?\<close> operator on results. A slice and a copy are only written
  where the code has checked the bounds; the lemmas say how a read sees an earlier write, a
  concatenation, or a table of equally wide records.
\<close>

named_theorems slice_simps \<open>reads of slices, fields and overwritten buffers\<close>

fun try_then :: "'e + 'a \<Rightarrow> ('a \<Rightarrow> 'e + 'b) \<Rightarrow> 'e + 'b" where
  "try_then (Inl e) f = Inl e"
| "try_then (Inr x) f = f x"

lemma try_then_Inr: "try_then r f = Inr y \<longleftrightarrow> (\<exists>x. r = Inr x \<and> f x = Inr y)"
  by (cases r) auto

text \<open>A loop that stops at the first error.\<close>

fun try_fold :: "('b \<Rightarrow> 'a \<Rightarrow> 'e + 'a) \<Rightarrow> 'b list \<Rightarrow> 'a \<Rightarrow> 'e + 'a" where
  "try_fold f [] a = Inr a"
| "try_fold f (x # xs) a = try_then (f x a) (try_fold f xs)"

lemma try_fold_append: "try_fold f (xs @ ys) a = try_then (try_fold f xs a) (try_fold f ys)"
proof (induction xs arbitrary: a)
  case (Cons x xs)
  then show ?case by (cases "f x a") simp_all
qed simp

lemma try_then_cong [fundef_cong]:
  "r = r' \<Longrightarrow> (\<And>x. r' = Inr x \<Longrightarrow> f x = f' x) \<Longrightarrow> try_then r f = try_then r' f'"
  by (cases r') simp_all

lemma try_fold_cong [fundef_cong]:
  "xs = ys \<Longrightarrow> a = b \<Longrightarrow> (\<And>x c. x \<in> set ys \<Longrightarrow> f x c = g x c) \<Longrightarrow> try_fold f xs a = try_fold g ys b"
proof (induction xs arbitrary: a b ys)
  case (Cons x xs)
  then show ?case by (cases "g x b") auto
qed simp

definition slice_of :: "nat \<Rightarrow> nat \<Rightarrow> 'a list \<Rightarrow> 'a list" where
  "slice_of a b xs = take (b - a) (drop a xs)"

definition overwrite :: "nat \<Rightarrow> 'a list \<Rightarrow> 'a list \<Rightarrow> 'a list" where
  "overwrite a ys xs = take a xs @ ys @ drop (a + length ys) xs"

definition read_u16 :: "nat \<Rightarrow> bytes \<Rightarrow> nat" where
  "read_u16 a data = of_le_bytes (slice_of a (a + 2) data)"

definition read_u32 :: "nat \<Rightarrow> bytes \<Rightarrow> u32" where
  "read_u32 a data = of_le_bytes (slice_of a (a + 4) data)"

definition read_u64 :: "nat \<Rightarrow> bytes \<Rightarrow> u64" where
  "read_u64 a data = of_le_bytes (slice_of a (a + 8) data)"

text \<open>\<^verbatim>\<open>Vec::resize\<close>: pads with a value, or truncates.\<close>

definition resize :: "nat \<Rightarrow> 'a \<Rightarrow> 'a list \<Rightarrow> 'a list" where
  "resize n x xs = take n xs @ replicate (n - length xs) x"

subsection \<open>Slices\<close>

lemma length_slice: "length (slice_of a b xs) = min (b - a) (length xs - a)"
  by (simp add: slice_of_def)

lemma length_slice_le [slice_simps]: "b \<le> length xs \<Longrightarrow> length (slice_of a b xs) = b - a"
  by (auto simp: length_slice)

lemma slice_all [slice_simps]: "slice_of 0 (length xs) xs = xs"
  by (simp add: slice_of_def)

lemma slice_append1 [slice_simps]: "b \<le> length xs \<Longrightarrow> slice_of a b (xs @ ys) = slice_of a b xs"
  by (cases "a \<le> b") (simp_all add: slice_of_def)

lemma slice_append2 [slice_simps]:
  "length xs \<le> a \<Longrightarrow> slice_of a b (xs @ ys) = slice_of (a - length xs) (b - length xs) ys"
  by (cases "a \<le> b") (simp_all add: slice_of_def)

lemma slice_exact: "a = length xs \<Longrightarrow> b = length xs + length ys \<Longrightarrow> slice_of a b (xs @ ys @ zs) = ys"
  by (simp add: slice_of_def)

lemma slice_slice:
  "c \<le> d \<Longrightarrow> a + d \<le> b \<Longrightarrow> slice_of c d (slice_of a b xs) = slice_of (a + c) (a + d) xs"
  by (auto simp: slice_of_def drop_take min_def add.commute)

lemma nth_slice: "i < b - a \<Longrightarrow> b \<le> length xs \<Longrightarrow> slice_of a b xs ! i = xs ! (a + i)"
  by (simp add: slice_of_def)

lemma slice_empty [simp]: "slice_of a a xs = []"
  by (simp add: slice_of_def)

lemma slice_join: "a \<le> b \<Longrightarrow> b \<le> c \<Longrightarrow> slice_of a b xs @ slice_of b c xs = slice_of a c xs"
proof -
  assume "a \<le> b" and "b \<le> c"
  then have "c - a = (b - a) + (c - b)" and "drop b xs = drop (b - a) (drop a xs)" by simp_all
  then show ?thesis by (simp add: slice_of_def take_add)
qed

lemma take_slice: "slice_of 0 b xs = take b xs"
  by (simp add: slice_of_def)

lemma slice_concat:
  assumes "i < length xss" and "\<forall>xs\<in>set xss. length xs = w"
  shows "slice_of (i * w) (i * w + w) (concat xss) = xss ! i"
  using assms
proof (induction xss arbitrary: i)
  case (Cons xs xss)
  show ?case
  proof (cases i)
    case 0
    with Cons.prems show ?thesis by (simp add: slice_of_def)
  next
    case (Suc j)
    with Cons show ?thesis by (simp add: slice_append2 add.commute)
  qed
qed simp

lemma length_concat_width: "\<forall>xs\<in>set xss. length xs = w \<Longrightarrow> length (concat xss) = length xss * w"
  by (induction xss) auto

lemma slice_records:
  assumes "i < length xss" and "\<forall>xs\<in>set xss. length xs = w"
  shows "slice_of (i * w) (i * w + w) (concat xss @ tail) = xss ! i"
proof -
  have "i * w + w \<le> length (concat xss)"
    using assms(1) mult_le_mono1 [of "Suc i" "length xss" w]
    by (simp add: length_concat_width [OF assms(2)] add.commute)
  with assms show ?thesis by (simp add: slice_append1 slice_concat)
qed

subsection \<open>Copies into a buffer\<close>

lemma length_overwrite [simp]: "a + length ys \<le> length xs \<Longrightarrow> length (overwrite a ys xs) = length xs"
  by (simp add: overwrite_def)

lemma slice_overwrite_same [slice_simps]:
  "a + length ys \<le> length xs \<Longrightarrow> b = a + length ys \<Longrightarrow> slice_of a b (overwrite a ys xs) = ys"
  by (simp add: slice_of_def overwrite_def)

lemma slice_overwrite_before [slice_simps]:
  "d \<le> a \<Longrightarrow> a + length ys \<le> length xs \<Longrightarrow> slice_of c d (overwrite a ys xs) = slice_of c d xs"
  by (cases "c \<le> d") (auto simp: slice_of_def overwrite_def drop_take min_def)

lemma slice_overwrite_after [slice_simps]:
  "a + length ys \<le> c \<Longrightarrow> a + length ys \<le> length xs \<Longrightarrow> slice_of c d (overwrite a ys xs) = slice_of c d xs"
  by (simp add: slice_of_def overwrite_def)

lemma slice_overwrite_inside:
  assumes "c \<le> a" and "a + length ys \<le> d" and "d \<le> length xs"
  shows "slice_of c d (overwrite a ys xs) = overwrite (a - c) ys (slice_of c d xs)"
proof -
  have "slice_of c d (overwrite a ys xs) =
      slice_of c a (overwrite a ys xs) @ slice_of a (a + length ys) (overwrite a ys xs) @
      slice_of (a + length ys) d (overwrite a ys xs)"
    using assms by (simp add: slice_join)
  also have "\<dots> = slice_of c a xs @ ys @ slice_of (a + length ys) d xs"
    using assms by (simp add: slice_simps)
  also have "\<dots> = overwrite (a - c) ys (slice_of c d xs)"
    using assms by (simp add: overwrite_def slice_of_def min_def drop_take)
  finally show ?thesis .
qed

lemma overwrite_append [slice_simps]:
  "a + length ys \<le> length xs \<Longrightarrow> overwrite a ys (xs @ zs) = overwrite a ys xs @ zs"
  by (simp add: overwrite_def)

lemma overwrite_beyond [slice_simps]:
  "length xs \<le> a \<Longrightarrow> overwrite a ys (xs @ zs) = xs @ overwrite (a - length xs) ys zs"
  by (simp add: overwrite_def)

lemma overwrite_all: "length ys = length xs \<Longrightarrow> overwrite 0 ys xs = ys"
  by (simp add: overwrite_def)

lemma nth_overwrite_other:
  "i < a \<or> a + length ys \<le> i \<Longrightarrow> a + length ys \<le> length xs \<Longrightarrow> overwrite a ys xs ! i = xs ! i"
  by (auto simp: overwrite_def nth_append)

subsection \<open>Fields\<close>

lemma le_bytes_zero: "le_bytes k 0 = replicate k 0"
  by (induction k) auto

lemma le_bytes_unfold:
  "le_bytes 2 n = [word_of_nat n, word_of_nat (n div 256)]"
  "le_bytes 4 n = [word_of_nat n, word_of_nat (n div 256), word_of_nat (n div 256 div 256),
     word_of_nat (n div 256 div 256 div 256)]"
  by (simp_all only: numeral_2_eq_2 numeral_eq_Suc pred_numeral_simps BitM.simps le_bytes.simps)

lemma read_u16_append1 [slice_simps]: "a + 2 \<le> length xs \<Longrightarrow> read_u16 a (xs @ ys) = read_u16 a xs"
  by (simp add: read_u16_def slice_append1)

lemma read_u16_append2 [slice_simps]:
  "length xs \<le> a \<Longrightarrow> read_u16 a (xs @ ys) = read_u16 (a - length xs) ys"
  by (simp add: read_u16_def slice_append2 Suc_diff_le)

lemma read_u32_append1 [slice_simps]: "a + 4 \<le> length xs \<Longrightarrow> read_u32 a (xs @ ys) = read_u32 a xs"
  by (simp add: read_u32_def slice_append1)

lemma read_u32_append2 [slice_simps]:
  "length xs \<le> a \<Longrightarrow> read_u32 a (xs @ ys) = read_u32 (a - length xs) ys"
  by (simp add: read_u32_def slice_append2)

lemma read_u64_append1 [slice_simps]: "a + 8 \<le> length xs \<Longrightarrow> read_u64 a (xs @ ys) = read_u64 a xs"
  by (simp add: read_u64_def slice_append1)

lemma read_u64_append2 [slice_simps]:
  "length xs \<le> a \<Longrightarrow> read_u64 a (xs @ ys) = read_u64 (a - length xs) ys"
  by (simp add: read_u64_def slice_append2)

lemma slice_le_bytes0: "slice_of 0 k (le_bytes k n @ ys) = le_bytes k n"
  by (simp add: slice_of_def)

lemma of_le_bytes_le_bytes_mod: "of_le_bytes (le_bytes k n) = n mod 256 ^ k"
proof (induction k n rule: le_bytes.induct)
  case (2 k n)
  have "unat (word_of_nat n :: byte) = n mod 256" by (simp add: unat_of_nat)
  moreover have "n mod 256 + 256 * (n div 256 mod 256 ^ k) = n mod (256 * 256 ^ k)"
    by (simp add: mod_mult2_eq)
  ultimately show ?case using 2 by simp
qed simp

lemma read_le_field [slice_simps]:
  "read_u16 0 (le_bytes 2 n @ ys) = n mod 65536"
  "read_u32 0 (le_bytes 4 n @ ys) = n mod 4294967296"
  "read_u64 0 (le_bytes 8 n @ ys) = n mod 18446744073709551616"
  "read_u16 0 (le_bytes 2 n) = n mod 65536"
  "read_u32 0 (le_bytes 4 n) = n mod 4294967296"
  "read_u64 0 (le_bytes 8 n) = n mod 18446744073709551616"
  using slice_le_bytes0 [of 2 n ys] slice_le_bytes0 [of 4 n ys] slice_le_bytes0 [of 8 n ys]
    slice_le_bytes0 [of 2 n "[]"] slice_le_bytes0 [of 4 n "[]"] slice_le_bytes0 [of 8 n "[]"]
  by (simp_all only: read_u16_def read_u32_def read_u64_def of_le_bytes_le_bytes_mod
      append_Nil2 add_0) simp_all

lemma read_table:
  "i < length xs \<Longrightarrow> read_u16 (i * 2) (concat (map (le_bytes 2) xs) @ tail) = xs ! i mod 65536"
  "i < length xs \<Longrightarrow> read_u64 (i * 8) (concat (map (le_bytes 8) xs) @ tail) = xs ! i mod 18446744073709551616"
  unfolding read_u16_def read_u64_def
  by (subst slice_records; auto simp: of_le_bytes_le_bytes_mod)+

lemma read_slice_of:
  "a + k + 2 \<le> b \<Longrightarrow> read_u16 k (slice_of a b xs) = read_u16 (a + k) xs"
  "a + k + 4 \<le> b \<Longrightarrow> read_u32 k (slice_of a b xs) = read_u32 (a + k) xs"
  "a + k + 8 \<le> b \<Longrightarrow> read_u64 k (slice_of a b xs) = read_u64 (a + k) xs"
  by (simp_all add: read_u16_def read_u32_def read_u64_def slice_slice add.assoc)

lemma read_overwrite_same [slice_simps]:
  "a + 2 \<le> length xs \<Longrightarrow> read_u16 a (overwrite a (le_bytes 2 n) xs) = n mod 65536"
  "a + 4 \<le> length xs \<Longrightarrow> read_u32 a (overwrite a (le_bytes 4 n) xs) = n mod 4294967296"
  "a + 8 \<le> length xs \<Longrightarrow> read_u64 a (overwrite a (le_bytes 8 n) xs) = n mod 18446744073709551616"
  by (simp_all add: read_u16_def read_u32_def read_u64_def slice_overwrite_same
      of_le_bytes_le_bytes_mod)

lemma read_overwrite_other [slice_simps]:
  "b + 2 \<le> a \<or> a + length ys \<le> b \<Longrightarrow> a + length ys \<le> length xs \<Longrightarrow>
    read_u16 b (overwrite a ys xs) = read_u16 b xs"
  "b + 4 \<le> a \<or> a + length ys \<le> b \<Longrightarrow> a + length ys \<le> length xs \<Longrightarrow>
    read_u32 b (overwrite a ys xs) = read_u32 b xs"
  "b + 8 \<le> a \<or> a + length ys \<le> b \<Longrightarrow> a + length ys \<le> length xs \<Longrightarrow>
    read_u64 b (overwrite a ys xs) = read_u64 b xs"
  by (auto simp: read_u16_def read_u32_def read_u64_def slice_overwrite_before slice_overwrite_after)

lemma read_bound:
  "read_u16 a xs < 65536" "read_u32 a xs < 4294967296" "read_u64 a xs < 18446744073709551616"
proof -
  have *: "of_le_bytes (slice_of a (a + k) xs) < 256 ^ k" for k
    using of_le_bytes_bound [of "slice_of a (a + k) xs"]
      power_increasing [of "length (slice_of a (a + k) xs)" k "256 :: nat"]
    by (metis add_diff_cancel_left' length_slice min.cobounded1 le_numeral_extra(4)
        one_le_numeral order_less_le_trans)
  show "read_u16 a xs < 65536" "read_u32 a xs < 4294967296" "read_u64 a xs < 18446744073709551616"
    using * [of 2] * [of 4] * [of 8] by (simp_all add: read_u16_def read_u32_def read_u64_def)
qed

end
