(* ===== verification/Heap_Node.thy ===== *)
theory Heap_Node
  imports Pst_Error Byte_Slices
begin

text \<open>
  Heaps on a node: the reader (\<^verbatim>\<open>pst-reader/src/ltp/hn.rs\<close>) and the two builders of the writer
  (\<^verbatim>\<open>pst-writer/src/lib.rs\<close>), one for heaps of a single block and one for heaps of many pages.
  The abstract state of a builder is the list of allocated byte strings; the theorems say that
  the builders implement it and that the reader finds every allocation again.
\<close>

subsection \<open>The reader\<close>

type_synonym Hid = u32

definition hid_type :: "Hid \<Rightarrow> nat" where
  "hid_type hid = hid mod 32"

definition hid_index :: "Hid \<Rightarrow> nat" where
  "hid_index hid = hid div 32 mod 2048"

definition hid_block_index :: "Hid \<Rightarrow> nat" where
  "hid_block_index hid = hid div 65536 mod 65536"

definition hid_is_null :: "Hid \<Rightarrow> bool" where
  "hid_is_null hid \<longleftrightarrow> hid = 0"

record HnHeader =
  hh_ib_hnpm :: nat
  hh_b_sig :: nat
  hh_b_client_sig :: nat
  hh_hid_user_root :: Hid
  hh_rgb_fill_level :: u32

record Heap =
  hp_data :: bytes
  hp_block_size :: usize
  hp_header :: HnHeader

definition heap_parse :: "bytes \<Rightarrow> usize \<Rightarrow> PstError + Heap" where
  "heap_parse data block_size =
     (if length data < 12 then Inl (PeDataTruncated 12 (length data))
      else
        let ib_hnpm = read_u16 0 data;
            b_sig = unat (data ! 2);
            b_client_sig = unat (data ! 3);
            hid_user_root = read_u32 4 data;
            rgb_fill_level = read_u32 8 data
        in if b_sig \<noteq> 236 then Inl (PeInvalidHnSignature b_sig)
           else Inr \<lparr> hp_data = data, hp_block_size = block_size,
                      hp_header = \<lparr> hh_ib_hnpm = ib_hnpm, hh_b_sig = b_sig,
                        hh_b_client_sig = b_client_sig, hh_hid_user_root = hid_user_root,
                        hh_rgb_fill_level = rgb_fill_level \<rparr> \<rparr>)"

definition heap_map_offset :: "Heap \<Rightarrow> nat \<Rightarrow> bytes \<Rightarrow> PstError + nat" where
  "heap_map_offset h block_index block_data =
     (if block_index = 0 then Inr (hh_ib_hnpm (hp_header h))
      else if length block_data < 2 then Inl (PeDataTruncated 2 (length block_data))
      else Inr (read_u16 0 block_data))"

definition heap_page_get :: "Hid \<Rightarrow> bytes \<Rightarrow> nat \<Rightarrow> nat \<Rightarrow> PstError + bytes" where
  "heap_page_get hid block_data hnpm_offset alloc_index =
     (if length block_data < hnpm_offset + 2
      then Inl (PeDataTruncated (hnpm_offset + 2) (length block_data))
      else if length block_data < hnpm_offset + 4
      then Inl (PeDataTruncated (hnpm_offset + 4) (length block_data))
      else
        let c_alloc = read_u16 hnpm_offset block_data
        in if c_alloc < alloc_index then Inl (PeInvalidHid hid)
           else
             let rgib_start = hnpm_offset + 4;
                 offset_a = rgib_start + (alloc_index - 1) * 2;
                 offset_b = rgib_start + alloc_index * 2
             in if length block_data < offset_b + 2
                then Inl (PeDataTruncated (offset_b + 2) (length block_data))
                else
                  let start = read_u16 offset_a block_data;
                      stop = read_u16 offset_b block_data
                  in if stop < start \<or> length block_data < stop
                     then Inl (PeDataTruncated stop (length block_data))
                     else Inr (slice_of start stop block_data))"

definition heap_get :: "Heap \<Rightarrow> Hid \<Rightarrow> PstError + bytes" where
  "heap_get h hid =
     (if hid_is_null hid then Inr []
      else if hid_type hid \<noteq> 0 then Inl (PeInvalidHid hid)
      else
        let block_index = hid_block_index hid; alloc_index = hid_index hid
        in if alloc_index = 0 then Inl (PeInvalidHid hid)
           else
             let block_start = block_index * hp_block_size h
             in if length (hp_data h) \<le> block_start then Inl (PeInvalidHid hid)
                else
                  let block_end = min (block_start + hp_block_size h) (length (hp_data h));
                      block_data = slice_of block_start block_end (hp_data h)
                  in try_then (heap_map_offset h block_index block_data)
                       (\<lambda>hnpm_offset. heap_page_get hid block_data hnpm_offset alloc_index))"

subsection \<open>The builder of single-block heaps\<close>

definition MAX_BLOCK_DATA :: nat where
  "MAX_BLOCK_DATA = 8176"

text \<open>The block size with which the property and table readers parse the data of a node.\<close>

definition node_block_size :: "bytes \<Rightarrow> usize" where
  "node_block_size data =
     (if length data \<le> MAX_BLOCK_DATA then length data else MAX_BLOCK_DATA)"

record HeapBuilder =
  hb_data :: bytes
  hb_allocations :: "(usize \<times> usize) list"

definition heap_new :: "byte \<Rightarrow> HeapBuilder" where
  "heap_new client_sig =
     \<lparr> hb_data = le_bytes 2 0 @ [236] @ [client_sig] @ le_bytes 4 0 @ le_bytes 4 0,
       hb_allocations = [] \<rparr>"

definition heap_alloc :: "HeapBuilder \<Rightarrow> bytes \<Rightarrow> Hid \<times> HeapBuilder" where
  "heap_alloc hb bytes =
     (let start = length (hb_data hb);
          data = hb_data hb @ bytes;
          stop = length data;
          index = length (hb_allocations hb) mod 2 ^ 32 + 1
      in (index * 32 mod 2 ^ 32,
          \<lparr> hb_data = data, hb_allocations = hb_allocations hb @ [(start, stop)] \<rparr>))"

definition heap_try_alloc :: "HeapBuilder \<Rightarrow> bytes \<Rightarrow> WriterError + Hid \<times> HeapBuilder" where
  "heap_try_alloc hb bytes =
     (let projected_alloc_count = length (hb_allocations hb) + 1;
          projected_pagemap = 4 + (projected_alloc_count + 1) * 2;
          projected = length (hb_data hb) + length bytes + projected_pagemap
      in if MAX_BLOCK_DATA < projected
         then Inl (WeLayout (lit ''heap page overflow: '' @ show_nat projected @
                lit '' bytes would exceed single-block capacity '' @ show_nat MAX_BLOCK_DATA @
                lit '' (value should be diverted to a subnode instead of inlined) [heap_data='' @
                show_nat (length (hb_data hb)) @ lit '' alloc_bytes='' @ show_nat (length bytes) @
                lit '' pagemap='' @ show_nat projected_pagemap @
                lit '' allocs='' @ show_nat projected_alloc_count @ lit '']''))
         else Inr (heap_alloc hb bytes))"

definition heap_patch_u32 :: "HeapBuilder \<Rightarrow> Hid \<Rightarrow> usize \<Rightarrow> u32 \<Rightarrow> WriterError + HeapBuilder" where
  "heap_patch_u32 hb hid field_offset v =
     (let index = hid div 32 - 1
      in if length (hb_allocations hb) \<le> index
         then Inl (WeLayout (lit ''patch_u32: hid 0x'' @ show_hex hid @
                lit '' does not identify a known heap allocation (index '' @ show_nat index @
                lit '' out of range)''))
         else
           let (start, stop) = hb_allocations hb ! index;
               at = start + field_offset
           in if stop < at + 4
              then Inl (WeLayout (lit ''patch_u32: field_offset '' @ show_nat field_offset @
                     lit '' (byte range '' @ show_nat at @ lit ''..'' @ show_nat (at + 4) @
                     lit '') does not fit within allocation hid 0x'' @ show_hex hid @
                     [39] @ lit ''s bytes ('' @ show_nat start @ lit ''..'' @ show_nat stop @ lit '')''))
              else Inr (hb \<lparr> hb_data := overwrite at (le_bytes 4 v) (hb_data hb) \<rparr>))"

definition heap_finalize :: "HeapBuilder \<Rightarrow> Hid \<Rightarrow> bytes \<times> HeapBuilder" where
  "heap_finalize hb hid_user_root =
     (let hnpm_offset = length (hb_data hb);
          c_alloc = length (hb_allocations hb);
          d1 = hb_data hb @ le_bytes 2 c_alloc @ le_bytes 2 0 @ le_bytes 2 12 @
                 concat (map (\<lambda>(_, stop). le_bytes 2 stop) (hb_allocations hb));
          d2 = overwrite 0 (le_bytes 2 hnpm_offset) d1;
          d3 = overwrite 4 (le_bytes 4 hid_user_root) d2
      in (d3, hb \<lparr> hb_data := d3 \<rparr>))"

subsection \<open>The contents of a heap\<close>

text \<open>
  \<open>spans a cs\<close> are the byte ranges of the contents \<open>cs\<close> stored one after another from offset
  \<open>a\<close>. A page holds contents when its bytes are a header followed by them and the recorded
  allocations are their ranges.
\<close>

fun spans :: "nat \<Rightarrow> bytes list \<Rightarrow> (usize \<times> usize) list" where
  "spans a [] = []"
| "spans a (c # cs) = (a, a + length c) # spans (a + length c) cs"

definition page_bytes :: "bytes \<Rightarrow> bytes list \<Rightarrow> bytes" where
  "page_bytes hdr cs = hdr @ concat cs"

definition page_table :: "nat \<Rightarrow> bytes list \<Rightarrow> bytes" where
  "page_table a cs = le_bytes 2 (length cs) @ le_bytes 2 0 @
     concat (map (le_bytes 2) (a # map snd (spans a cs)))"

definition heap_holds :: "HeapBuilder \<Rightarrow> bytes list \<Rightarrow> bool" where
  "heap_holds hb cs \<longleftrightarrow>
     (\<exists>hdr. length hdr = 12 \<and> hdr ! 2 = 236 \<and> hb_data hb = page_bytes hdr cs \<and>
        hb_allocations hb = spans 12 cs \<and> length cs < 2 ^ 27 - 1)"

lemma length_spans [simp]: "length (spans a cs) = length cs"
  by (induction cs arbitrary: a) auto

lemma spans_snoc: "spans a (cs @ [c]) =
    spans a cs @ [(a + length (concat cs), a + length (concat cs) + length c)]"
  by (induction cs arbitrary: a) (auto simp: add.assoc)

lemma nth_spans: "i < length cs \<Longrightarrow> spans a cs ! i =
    (a + length (concat (take i cs)), a + length (concat (take i cs)) + length (cs ! i))"
proof (induction cs arbitrary: a i)
  case (Cons c cs)
  then show ?case by (cases i) (auto simp: add.assoc)
qed simp

lemma spans_update:
  "length x = length (cs ! i) \<Longrightarrow> spans a (cs[i := x]) = spans a cs"
proof (induction cs arbitrary: a i)
  case (Cons c cs)
  then show ?case by (cases i) auto
qed simp

lemma nth_bounds:
  "i \<le> length cs \<Longrightarrow> (a # map snd (spans a cs)) ! i = a + length (concat (take i cs))"
proof (cases i)
  case (Suc j)
  moreover assume "i \<le> length cs"
  ultimately show ?thesis by (simp add: nth_spans take_Suc_conv_app_nth)
qed simp

lemma concat_split: "i < length cs \<Longrightarrow>
    concat cs = concat (take i cs) @ cs ! i @ concat (drop (Suc i) cs)"
  by (metis concat.simps(2) concat_append id_take_nth_drop)

lemma length_page_table [simp]: "length (page_table a cs) = 6 + 2 * length cs"
  by (simp add: page_table_def length_concat_width comp_def sum_list_triv length_concat)

lemma nth_content:
  assumes "i < length cs" and "length hdr = a"
  shows "slice_of (a + length (concat (take i cs))) (a + length (concat (take (Suc i) cs)))
           (hdr @ concat cs @ tail) = cs ! i"
proof -
  have "slice_of (a + length (concat (take i cs))) (a + length (concat (take (Suc i) cs)))
      ((hdr @ concat (take i cs)) @ cs ! i @ (concat (drop (Suc i) cs) @ tail)) = cs ! i"
    using assms by (intro slice_exact) (simp_all add: take_Suc_conv_app_nth)
  then show ?thesis
    using concat_split [OF assms(1)] by simp
qed

lemma read_bounds:
  assumes "i \<le> length cs" and "a + length (concat cs) < 65536"
  shows "read_u16 (4 + i * 2) (page_table a cs @ tail) = a + length (concat (take i cs))"
proof -
  let ?xs = "a # map snd (spans a cs)"
  have "read_u16 (4 + i * 2) (page_table a cs @ tail) =
      read_u16 (i * 2) (concat (map (le_bytes 2) ?xs) @ tail)"
    by (simp add: page_table_def read_u16_append2)
  also have "\<dots> = ?xs ! i mod 65536"
    using assms(1) by (intro read_table) simp
  also have "\<dots> = a + length (concat (take i cs))"
  proof -
    have "length (concat (take i cs)) \<le> length (concat cs)"
      by (metis append_take_drop_id concat_append le_add1 length_append)
    with assms show ?thesis by (simp only: nth_bounds) simp
  qed
  finally show ?thesis .
qed

lemma length_concat_take_le: "length (concat (take i cs)) \<le> length (concat cs)"
  by (metis append_take_drop_id concat_append le_add1 length_append)

text \<open>The reader's page lookup returns the content that the page table bounds.\<close>

lemma page_get:
  assumes i: "i < length cs" and hdr: "length hdr = a"
    and small: "a + length (concat cs) < 65536" "length cs < 65536"
  shows "heap_page_get hid (hdr @ concat cs @ pad @ page_table a cs @ fill)
           (a + length (concat cs) + length pad) (Suc i) = Inr (cs ! i)"
proof -
  let ?data = "hdr @ concat cs @ pad @ page_table a cs @ fill"
  let ?off = "a + length (concat cs) + length pad"
  have len: "length ?data = ?off + 6 + 2 * length cs + length fill"
    using hdr by simp
  have data: "?data = (hdr @ concat cs @ pad) @ page_table a cs @ fill" and
    pre: "length (hdr @ concat cs @ pad) = ?off"
    using hdr by simp_all
  have field: "read_u16 (?off + k) ?data = read_u16 k (page_table a cs @ fill)" for k
    using pre by (simp only: data read_u16_append2) simp
  have count: "read_u16 ?off ?data = length cs"
    using field [of 0] small(2) by (simp add: page_table_def slice_simps)
  have bound: "read_u16 (?off + 4 + j * 2) ?data = a + length (concat (take j cs))"
    if "j \<le> length cs" for j
    using field [of "4 + j * 2"] read_bounds [OF that small(1), of fill] by (simp add: add.assoc)
  have lower: "read_u16 (?off + 4 + (Suc i - 1) * 2) ?data = a + length (concat (take i cs))"
    and upper: "read_u16 (?off + 4 + Suc i * 2) ?data = a + length (concat (take (Suc i) cs))"
    using bound [of i] bound [of "Suc i"] i by simp_all
  have "a + length (concat (take i cs)) \<le> a + length (concat (take (Suc i) cs))"
    using i by (simp add: take_Suc_conv_app_nth)
  moreover have "a + length (concat (take (Suc i) cs)) \<le> length ?data"
    using length_concat_take_le [of "Suc i" cs] len by simp
  ultimately show ?thesis
    using i len nth_content [OF i hdr, of "pad @ page_table a cs @ fill"]
    unfolding heap_page_get_def by (simp only: Let_def count lower upper) simp
qed

lemma heap_holds_new [inv_intros]: "heap_holds (heap_new sig) []"
  unfolding heap_holds_def page_bytes_def heap_new_def
  by (rule exI [where x = "le_bytes 2 0 @ [236] @ [sig] @ le_bytes 4 0 @ le_bytes 4 0"])
    (simp add: le_bytes_zero nth_append)

lemma heap_alloc_holds:
  assumes "heap_holds hb cs" and "Suc (length cs) < 2 ^ 27 - 1"
  shows "fst (heap_alloc hb bs) = Suc (length cs) * 32"
    and "heap_holds (snd (heap_alloc hb bs)) (cs @ [bs])"
proof -
  from assms(1) obtain hdr where hdr: "length hdr = 12" "hdr ! 2 = 236"
    "hb_data hb = hdr @ concat cs" "hb_allocations hb = spans 12 cs"
    by (auto simp: heap_holds_def page_bytes_def)
  then show "fst (heap_alloc hb bs) = Suc (length cs) * 32"
    using assms(2) by (simp add: heap_alloc_def)
  from hdr assms(2) show "heap_holds (snd (heap_alloc hb bs)) (cs @ [bs])"
    by (auto simp: heap_holds_def page_bytes_def heap_alloc_def spans_snoc add.assoc
        intro!: exI [where x = hdr])
qed

lemma heap_data_length: "heap_holds hb cs \<Longrightarrow> length (hb_data hb) = 12 + length (concat cs)"
  by (auto simp: heap_holds_def page_bytes_def)

lemma heap_allocations_length: "heap_holds hb cs \<Longrightarrow> length (hb_allocations hb) = length cs"
  by (auto simp: heap_holds_def)

lemma heap_try_alloc_holds:
  assumes "heap_holds hb cs" and "heap_try_alloc hb bs = Inr (hid, hb')"
  shows "hid = Suc (length cs) * 32" and "heap_holds hb' (cs @ [bs])"
    and "12 + length (concat (cs @ [bs])) + 6 + 2 * length (cs @ [bs]) \<le> MAX_BLOCK_DATA"
proof -
  note len = heap_data_length [OF assms(1)] heap_allocations_length [OF assms(1)]
  have fits: "12 + length (concat cs) + length bs + 6 + 2 * Suc (length cs) \<le> MAX_BLOCK_DATA"
    and eq: "(hid, hb') = heap_alloc hb bs"
    using assms(2) by (auto simp: heap_try_alloc_def Let_def len split: if_splits)
  from fits show "12 + length (concat (cs @ [bs])) + 6 + 2 * length (cs @ [bs]) \<le> MAX_BLOCK_DATA"
    by simp
  from fits have "Suc (length cs) < 2 ^ 27 - 1" by (simp add: MAX_BLOCK_DATA_def)
  from heap_alloc_holds [OF assms(1) this, of bs]
  show "hid = Suc (length cs) * 32" and "heap_holds hb' (cs @ [bs])"
    by (simp_all flip: eq)
qed

lemma overwrite_content:
  assumes "i < length cs" and "length hdr = a" and "off + length bs \<le> length (cs ! i)"
  shows "overwrite (a + length (concat (take i cs)) + off) bs (page_bytes hdr cs @ rest) =
    page_bytes hdr (cs[i := overwrite off bs (cs ! i)]) @ rest"
proof -
  have "concat (cs[i := overwrite off bs (cs ! i)]) =
      concat (take i cs) @ overwrite off bs (cs ! i) @ concat (drop (Suc i) cs)"
    using assms(1) by (simp add: upd_conv_take_nth_drop)
  moreover have "page_bytes hdr cs @ rest =
      (hdr @ concat (take i cs)) @ cs ! i @ concat (drop (Suc i) cs) @ rest"
    using concat_split [OF assms(1)] by (simp add: page_bytes_def)
  ultimately show ?thesis
    using assms(2,3) by (simp add: page_bytes_def slice_simps)
qed

lemma heap_patch_holds:
  assumes "heap_holds hb cs" and "i < length cs" and "off + 4 \<le> length (cs ! i)"
  shows "\<exists>hb'. heap_patch_u32 hb (Suc i * 32) off v = Inr hb' \<and>
    heap_holds hb' (cs[i := overwrite off (le_bytes 4 v) (cs ! i)])"
proof -
  let ?cs = "cs[i := overwrite off (le_bytes 4 v) (cs ! i)]"
  from assms(1) obtain hdr where hdr: "length hdr = 12" "hdr ! 2 = 236"
    "hb_data hb = page_bytes hdr cs" "hb_allocations hb = spans 12 cs" "length cs < 2 ^ 27 - 1"
    by (auto simp: heap_holds_def)
  have "heap_patch_u32 hb (Suc i * 32) off v = Inr (hb \<lparr> hb_data := page_bytes hdr ?cs \<rparr>)"
    using assms hdr overwrite_content [OF assms(2) hdr(1), of off "le_bytes 4 v" "[]"]
    by (simp add: heap_patch_u32_def nth_spans Let_def)
  moreover have "heap_holds (hb \<lparr> hb_data := page_bytes hdr ?cs \<rparr>) ?cs"
    using hdr assms(3) by (auto simp: heap_holds_def spans_update intro!: exI [where x = hdr])
  ultimately show ?thesis by blast
qed

lemma heap_finalize_bytes:
  assumes "length hdr = 12" and "hb_data hb = page_bytes hdr cs" and "hb_allocations hb = spans 12 cs"
  shows "fst (heap_finalize hb root) =
    overwrite 4 (le_bytes 4 root) (overwrite 0 (le_bytes 2 (12 + length (concat cs))) hdr) @
    concat cs @ page_table 12 cs"
  using assms
  by (simp add: heap_finalize_def page_bytes_def page_table_def Let_def slice_simps comp_def
      case_prod_unfold add.commute)

lemma heap_parse_page:
  assumes "length hdr = 12" and "hdr ! 2 = 236"
  shows "heap_parse (overwrite 4 (le_bytes 4 root) (overwrite 0 (le_bytes 2 off) hdr) @ rest) n =
    Inr \<lparr> hp_data = overwrite 4 (le_bytes 4 root) (overwrite 0 (le_bytes 2 off) hdr) @ rest,
          hp_block_size = n,
          hp_header = \<lparr> hh_ib_hnpm = off mod 65536, hh_b_sig = 236, hh_b_client_sig = unat (hdr ! 3),
            hh_hid_user_root = root mod 4294967296, hh_rgb_fill_level = read_u32 8 hdr \<rparr> \<rparr>"
  using assms by (simp add: heap_parse_def Let_def slice_simps nth_append nth_overwrite_other)

text \<open>The parts of a heap identifier with block index \<open>b\<close> and one-based index \<open>Suc i\<close>.\<close>

lemma hid_parts:
  assumes "b < 65536" and "i < 2047"
  shows "hid_type (b * 65536 + Suc i * 32) = 0" "hid_index (b * 65536 + Suc i * 32) = Suc i"
    "hid_block_index (b * 65536 + Suc i * 32) = b" "\<not> hid_is_null (b * 65536 + Suc i * 32)"
proof -
  have "(b * 65536 + Suc i * 32) div 32 = b * 2048 + Suc i" by simp
  moreover have "(b * 2048 + Suc i) mod 2048 = Suc i" using assms(2) by (simp add: mod_less)
  ultimately show "hid_index (b * 65536 + Suc i * 32) = Suc i" by (simp only: hid_index_def)
  have "(b * 65536 + Suc i * 32) div 65536 = b" using assms(2) by simp
  with assms(1) show "hid_block_index (b * 65536 + Suc i * 32) = b"
    by (simp only: hid_block_index_def mod_less)
  have "b * 65536 + Suc i * 32 = (b * 2048 + Suc i) * 32" by simp
  then show "hid_type (b * 65536 + Suc i * 32) = 0" by (simp only: hid_type_def mod_mult_self2_is_0)
qed (simp add: hid_is_null_def)

lemma heap_get_hid:
  assumes "hid = b * 65536 + Suc i * 32" and "b < 65536" and "i < 2047"
    and "b * hp_block_size h < length (hp_data h)"
    and "blk = slice_of (b * hp_block_size h) (min (b * hp_block_size h + hp_block_size h) (length (hp_data h)))
      (hp_data h)"
  shows "heap_get h hid = try_then (heap_map_offset h b blk) (\<lambda>off. heap_page_get hid blk off (Suc i))"
  using hid_parts [OF assms(2,3)] assms(4) unfolding heap_get_def
  by (simp only: assms(1,5) Let_def) simp

lemma heap_get_beyond:
  "hid \<noteq> 0 \<Longrightarrow> hid_type hid = 0 \<Longrightarrow>
    length (hp_data h) \<le> hid_block_index hid * hp_block_size h \<Longrightarrow>
    heap_get h hid = Inl (PeInvalidHid hid)"
  by (simp add: heap_get_def Let_def hid_is_null_def)

lemma heap_finalize_get:
  assumes holds: "heap_holds hb cs" and fits: "12 + length (concat cs) + 6 + 2 * length cs \<le> MAX_BLOCK_DATA"
  obtains h where
    "heap_parse (fst (heap_finalize hb root)) (length (fst (heap_finalize hb root))) = Inr h"
    and "hh_hid_user_root (hp_header h) = root mod 4294967296"
    and "\<And>i. i < length cs \<Longrightarrow> heap_get h (Suc i * 32) =
           (if i < 2047 then Inr (cs ! i) else Inl (PeInvalidHid (Suc i * 32)))"
proof -
  from holds obtain hdr where hdr: "length hdr = 12" "hdr ! 2 = 236"
    and rep: "hb_data hb = page_bytes hdr cs" "hb_allocations hb = spans 12 cs"
    by (auto simp: heap_holds_def)
  let ?off = "12 + length (concat cs)"
  let ?hdr = "overwrite 4 (le_bytes 4 root) (overwrite 0 (le_bytes 2 ?off) hdr)"
  let ?data = "?hdr @ concat cs @ page_table 12 cs"
  have fin: "fst (heap_finalize hb root) = ?data"
    by (rule heap_finalize_bytes [OF hdr(1) rep])
  have hdr': "length ?hdr = 12" using hdr(1) by simp
  have small: "?off < 65536" "length cs < 65536"
    using fits by (simp_all add: MAX_BLOCK_DATA_def)
  obtain h where h: "heap_parse ?data (length ?data) = Inr h"
    and h_fields: "hp_data h = ?data" "hp_block_size h = length ?data"
      "hh_ib_hnpm (hp_header h) = ?off" "hh_hid_user_root (hp_header h) = root mod 4294967296"
    using heap_parse_page [OF hdr, of root ?off "concat cs @ page_table 12 cs" "length ?data"] small
    by simp
  have get: "heap_get h (Suc i * 32) = (if i < 2047 then Inr (cs ! i) else Inl (PeInvalidHid (Suc i * 32)))"
    if i: "i < length cs" for i
  proof (cases "i < 2047")
    case True
    have "heap_get h (Suc i * 32) =
        try_then (heap_map_offset h 0 ?data) (\<lambda>off. heap_page_get (Suc i * 32) ?data off (Suc i))"
      using h_fields True hdr' by (intro heap_get_hid [where b = 0]) (simp_all add: take_slice)
    also have "\<dots> = Inr (cs ! i)"
      using page_get [OF i hdr' small, of "Suc i * 32" "[]" "[]"]
      by (simp add: heap_map_offset_def h_fields(3))
    finally show ?thesis using True by simp
  next
    case False
    have "Suc i * 32 < 2 ^ 21" using i small by simp
    with False have blk: "hid_block_index (Suc i * 32) = Suc i div 2048" "1 \<le> Suc i div 2048"
      by (simp_all add: hid_block_index_def)
    have "length (hp_data h) \<le> Suc i div 2048 * hp_block_size h"
      using mult_le_mono1 [OF blk(2), of "length ?data"] h_fields by simp
    then have "heap_get h (Suc i * 32) = Inl (PeInvalidHid (Suc i * 32))"
      by (intro heap_get_beyond) (simp_all only: blk(1), simp_all add: hid_type_def)
    with False show ?thesis by simp
  qed
  from that [of h] h h_fields(4) get show thesis by (simp only: fin)
qed

subsection \<open>Reachable heaps\<close>

text \<open>
  The heaps the production path can build, with the contents they hold: a new heap, checked
  allocations, and patches of 32-bit fields inside an earlier allocation.
\<close>

inductive heap_built :: "byte \<Rightarrow> HeapBuilder \<Rightarrow> bytes list \<Rightarrow> bool" for sig where
  new: "heap_built sig (heap_new sig) []"
| alloc: "heap_built sig hb cs \<Longrightarrow> heap_try_alloc hb bs = Inr (hid, hb') \<Longrightarrow>
    heap_built sig hb' (cs @ [bs])"
| patch: "heap_built sig hb cs \<Longrightarrow> i < length cs \<Longrightarrow> heap_patch_u32 hb (Suc i * 32) off v = Inr hb' \<Longrightarrow>
    heap_built sig hb' (cs[i := overwrite off (le_bytes 4 v) (cs ! i)])"

lemma heap_patch_bounds:
  "heap_holds hb cs \<Longrightarrow> i < length cs \<Longrightarrow> heap_patch_u32 hb (Suc i * 32) off v = Inr hb' \<Longrightarrow>
    off + 4 \<le> length (cs ! i)"
  by (auto simp: heap_holds_def heap_patch_u32_def nth_spans Let_def split: if_splits)

lemma length_concat_update:
  "length x = length (cs ! i) \<Longrightarrow> length (concat (cs[i := x])) = length (concat cs)"
proof (induction cs arbitrary: i)
  case (Cons c cs)
  then show ?case by (cases i) auto
qed simp

lemma heap_built_holds:
  "heap_built sig hb cs \<Longrightarrow>
    heap_holds hb cs \<and> 12 + length (concat cs) + 6 + 2 * length cs \<le> MAX_BLOCK_DATA"
proof (induction rule: heap_built.induct)
  case new
  then show ?case by (simp add: heap_holds_new MAX_BLOCK_DATA_def)
next
  case (alloc hb cs bs hid hb')
  then show ?case using heap_try_alloc_holds by blast
next
  case (patch hb cs i off v hb')
  then have off: "off + 4 \<le> length (cs ! i)" using heap_patch_bounds by blast
  with patch heap_patch_holds [of hb cs i off v] show ?case
    by (simp add: length_concat_update)
qed

text \<open>
  C9: whatever the production path allocates and patches, the reader finds again. The finished
  heap parses, names the root, and the identifier of every allocation resolves to its bytes as
  last patched; but an identifier beyond the 2047th allocation, which the checked allocation still
  hands out, does not resolve.
\<close>

theorem heap_roundtrip:
  assumes "heap_built sig hb cs"
  shows "\<exists>h. heap_parse (fst (heap_finalize hb root)) (length (fst (heap_finalize hb root))) = Inr h \<and>
    hh_hid_user_root (hp_header h) = root mod 4294967296 \<and>
    (\<forall>i<length cs. heap_get h (Suc i * 32) =
       (if i < 2047 then Inr (cs ! i) else Inl (PeInvalidHid (Suc i * 32))))"
proof -
  from heap_built_holds [OF assms] have "heap_holds hb cs"
    "12 + length (concat cs) + 6 + 2 * length cs \<le> MAX_BLOCK_DATA" by simp_all
  from heap_finalize_get [OF this] show ?thesis by metis
qed

lemma heap_roundtrip_witness:
  "\<exists>hb h. heap_built 188 hb [[1, 2, 3]] \<and>
     heap_parse (fst (heap_finalize hb 32)) (length (fst (heap_finalize hb 32))) = Inr h \<and>
     heap_get h 32 = Inr [1, 2, 3]"
proof -
  obtain hid hb where "heap_try_alloc (heap_new 188) [1, 2, 3] = Inr (hid, hb)"
    by (simp add: heap_try_alloc_def heap_alloc_def heap_new_def MAX_BLOCK_DATA_def Let_def)
  from heap_built.alloc [OF heap_built.new this] have built: "heap_built 188 hb [[1, 2, 3]]" by simp
  from heap_roundtrip [OF this, of 32] obtain h where
    "heap_parse (fst (heap_finalize hb 32)) (length (fst (heap_finalize hb 32))) = Inr h"
    "heap_get h (Suc 0 * 32) = Inr [1, 2, 3]" by fastforce
  with built show ?thesis by auto
qed

text \<open>A heap of empty allocations reaches the first identifier that does not resolve.\<close>

lemma heap_built_empties: "n \<le> 4000 \<Longrightarrow> \<exists>hb. heap_built sig hb (replicate n [])"
proof (induction n)
  case (Suc n)
  then obtain hb where hb: "heap_built sig hb (replicate n [])" by auto
  note holds = conjunct1 [OF heap_built_holds [OF hb]]
  have "heap_try_alloc hb [] = Inr (heap_alloc hb [])"
    using Suc.prems heap_data_length [OF holds] heap_allocations_length [OF holds]
    by (simp add: heap_try_alloc_def MAX_BLOCK_DATA_def Let_def)
  with heap_built.alloc [OF hb, of "[]"] show ?case
    by (metis prod.collapse replicate_append_same replicate_Suc)
qed (auto intro: heap_built.new)

text \<open>
  C40: the checked allocation is meant to refuse what a single-page heap cannot represent, but it
  only counts bytes: the 2048th small allocation succeeds, with an identifier whose index has
  spilled into the block index, and the reader rejects it.
\<close>

theorem heap_index_overflow:
  "\<exists>hb hb' h. heap_built sig hb (replicate 2047 []) \<and>
     heap_try_alloc hb [] = Inr (65536, hb') \<and>
     heap_parse (fst (heap_finalize hb' root)) (length (fst (heap_finalize hb' root))) = Inr h \<and>
     heap_get h 65536 = Inl (PeInvalidHid 65536)"
proof -
  obtain hb where hb: "heap_built sig hb (replicate 2047 [])"
    using heap_built_empties [of 2047] by auto
  note holds = conjunct1 [OF heap_built_holds [OF hb]]
  have ok: "heap_try_alloc hb [] = Inr (heap_alloc hb [])"
    using heap_data_length [OF holds] heap_allocations_length [OF holds]
    by (simp add: heap_try_alloc_def MAX_BLOCK_DATA_def Let_def)
  obtain hid hb' where alloc: "heap_alloc hb [] = (hid, hb')" by (cases "heap_alloc hb []")
  with ok have checked: "heap_try_alloc hb [] = Inr (hid, hb')" by simp
  have hid: "hid = 65536" using heap_try_alloc_holds(1) [OF holds checked] by simp
  have "heap_built sig hb' (replicate 2047 [] @ [[]])" by (rule heap_built.alloc [OF hb checked])
  from heap_roundtrip [OF this, of root] obtain h where
    parse: "heap_parse (fst (heap_finalize hb' root)) (length (fst (heap_finalize hb' root))) = Inr h"
    and get: "heap_get h (Suc 2047 * 32) = Inl (PeInvalidHid (Suc 2047 * 32))"
    by (metis length_append_singleton length_replicate less_Suc_eq nat_less_le)
  from hb checked parse get show ?thesis by (auto simp: hid)
qed

subsection \<open>The allocation interface\<close>

text \<open>
  \<^verbatim>\<open>HeapTryAlloc\<close>, the trait the table builders write against: a heap holds a map from
  identifiers to bytes, an allocation adds a fresh identifier and a patch changes one value.
\<close>

locale heap_builder =
  fixes holds :: "'h \<Rightarrow> (Hid \<rightharpoonup> bytes) \<Rightarrow> bool"
    and try_alloc :: "'h \<Rightarrow> bytes \<Rightarrow> WriterError + Hid \<times> 'h"
    and patch_u32 :: "'h \<Rightarrow> Hid \<Rightarrow> usize \<Rightarrow> u32 \<Rightarrow> WriterError + 'h"
  assumes alloc_holds: "holds h m \<Longrightarrow> try_alloc h bs = Inr (hid, h') \<Longrightarrow>
      m hid = None \<and> hid \<noteq> 0 \<and> hid < 2 ^ 32 \<and> holds h' (m(hid \<mapsto> bs))"
    and patch_holds: "holds h m \<Longrightarrow> m hid = Some bs \<Longrightarrow> off + 4 \<le> length bs \<Longrightarrow>
      \<exists>h'. patch_u32 h hid off v = Inr h' \<and> holds h' (m(hid \<mapsto> overwrite off (le_bytes 4 v) bs))"

definition single_map :: "bytes list \<Rightarrow> Hid \<rightharpoonup> bytes" where
  "single_map cs hid =
     (if hid mod 32 = 0 \<and> 0 < hid \<and> hid div 32 \<le> length cs then Some (cs ! (hid div 32 - 1)) else None)"

definition heap_maps :: "HeapBuilder \<Rightarrow> (Hid \<rightharpoonup> bytes) \<Rightarrow> bool" where
  "heap_maps hb m \<longleftrightarrow>
     (\<exists>cs. heap_holds hb cs \<and> 12 + length (concat cs) + 6 + 2 * length cs \<le> MAX_BLOCK_DATA \<and> m = single_map cs)"

lemma single_map_Some:
  "single_map cs hid = Some bs \<longleftrightarrow> (\<exists>i<length cs. hid = Suc i * 32 \<and> bs = cs ! i)"
proof
  assume "single_map cs hid = Some bs"
  then have h: "hid mod 32 = 0" "0 < hid" "hid div 32 \<le> length cs" "bs = cs ! (hid div 32 - 1)"
    by (auto simp: single_map_def split: if_splits)
  then obtain k where k: "hid = 32 * k" by auto
  with h obtain i where "k = Suc i" by (cases k) auto
  with h k show "\<exists>i<length cs. hid = Suc i * 32 \<and> bs = cs ! i" by (intro exI [where x = i]) simp
qed (auto simp: single_map_def)

lemma single_map_snoc: "single_map (cs @ [bs]) = (single_map cs)(Suc (length cs) * 32 \<mapsto> bs)"
proof (rule ext, rule option.expand)
  fix hid
  show "(single_map (cs @ [bs]) hid = None) = (((single_map cs)(Suc (length cs) * 32 \<mapsto> bs)) hid = None)"
    by (auto simp: single_map_def)
  assume "single_map (cs @ [bs]) hid \<noteq> None"
  then obtain i where "i < Suc (length cs)" "hid = Suc i * 32" "single_map (cs @ [bs]) hid = Some ((cs @ [bs]) ! i)"
    by (auto simp: single_map_Some)
  then show "the (single_map (cs @ [bs]) hid) = the (((single_map cs)(Suc (length cs) * 32 \<mapsto> bs)) hid)"
    by (auto simp: single_map_def nth_append)
qed

lemma single_map_update:
  "i < length cs \<Longrightarrow> single_map (cs[i := x]) = (single_map cs)(Suc i * 32 \<mapsto> x)"
  by (auto simp: single_map_def fun_eq_iff nth_list_update)

lemma heap_maps_alloc:
  assumes "heap_maps hb m" and "heap_try_alloc hb bs = Inr (hid, hb')"
  shows "m hid = None \<and> hid \<noteq> 0 \<and> hid < 2 ^ 32 \<and> heap_maps hb' (m(hid \<mapsto> bs))"
proof -
  from assms(1) obtain cs where cs: "heap_holds hb cs" "m = single_map cs" by (auto simp: heap_maps_def)
  from heap_try_alloc_holds [OF cs(1) assms(2)]
  have hid: "hid = Suc (length cs) * 32" and holds: "heap_holds hb' (cs @ [bs])"
    and fits: "12 + length (concat (cs @ [bs])) + 6 + 2 * length (cs @ [bs]) \<le> MAX_BLOCK_DATA" .
  from holds fits cs(2) have "heap_maps hb' (m(hid \<mapsto> bs))"
    unfolding heap_maps_def hid by (metis single_map_snoc)
  moreover have "m hid = None" unfolding cs(2) hid by (simp add: single_map_def)
  ultimately show ?thesis using hid fits by (simp add: MAX_BLOCK_DATA_def)
qed

lemma heap_maps_patch:
  assumes "heap_maps hb m" and "m hid = Some bs" and "off + 4 \<le> length bs"
  shows "\<exists>hb'. heap_patch_u32 hb hid off v = Inr hb' \<and>
    heap_maps hb' (m(hid \<mapsto> overwrite off (le_bytes 4 v) bs))"
proof -
  from assms(1) obtain cs where cs: "heap_holds hb cs" "m = single_map cs"
    "12 + length (concat cs) + 6 + 2 * length cs \<le> MAX_BLOCK_DATA" by (auto simp: heap_maps_def)
  from assms(2) cs(2) obtain i where i: "i < length cs" "hid = Suc i * 32" "bs = cs ! i"
    by (auto simp: single_map_Some)
  let ?cs = "cs[i := overwrite off (le_bytes 4 v) bs]"
  from heap_patch_holds [OF cs(1) i(1)] assms(3) i obtain hb' where
    hb': "heap_patch_u32 hb hid off v = Inr hb'" "heap_holds hb' ?cs" by auto
  have "12 + length (concat ?cs) + 6 + 2 * length ?cs \<le> MAX_BLOCK_DATA"
    using cs(3) assms(3) i by (simp add: length_concat_update)
  with hb' have "heap_maps hb' (single_map ?cs)" unfolding heap_maps_def by blast
  with hb'(1) show ?thesis using i cs(2) by (simp add: single_map_update)
qed

interpretation single: heap_builder heap_maps heap_try_alloc heap_patch_u32
  using heap_maps_alloc heap_maps_patch by unfold_locales blast+

lemma single_map_Nil: "single_map [] = Map.empty"
  by (auto simp: fun_eq_iff single_map_def)

lemma heap_maps_new: "heap_maps (heap_new sig) Map.empty"
  unfolding heap_maps_def
  by (rule exI [where x = "[]"]) (simp add: heap_holds_new single_map_Nil MAX_BLOCK_DATA_def)

lemma heap_maps_get:
  assumes "heap_maps hb m"
  obtains h where
    "heap_parse (fst (heap_finalize hb root)) (length (fst (heap_finalize hb root))) = Inr h"
    and "hh_hid_user_root (hp_header h) = root mod 4294967296"
    and "\<And>hid bs. m hid = Some bs \<Longrightarrow> hid < 65536 \<Longrightarrow> heap_get h hid = Inr bs"
proof -
  from assms obtain cs where cs: "heap_holds hb cs" "m = single_map cs"
    "12 + length (concat cs) + 6 + 2 * length cs \<le> MAX_BLOCK_DATA" by (auto simp: heap_maps_def)
  from heap_finalize_get [OF cs(1,3), of root] obtain h where h:
    "heap_parse (fst (heap_finalize hb root)) (length (fst (heap_finalize hb root))) = Inr h"
    "hh_hid_user_root (hp_header h) = root mod 4294967296"
    and get: "\<And>i. i < length cs \<Longrightarrow> heap_get h (Suc i * 32) =
           (if i < 2047 then Inr (cs ! i) else Inl (PeInvalidHid (Suc i * 32)))" by metis
  have "heap_get h hid = Inr bs" if "m hid = Some bs" and "hid < 65536" for hid bs
    using that get unfolding cs(2) single_map_Some by auto
  from that [OF h this] show thesis .
qed

lemma heap_finalize_length:
  assumes "heap_maps hb m"
  shows "length (fst (heap_finalize hb root)) \<le> MAX_BLOCK_DATA"
  using assms by (auto simp: heap_maps_def heap_holds_def heap_finalize_bytes page_bytes_def)

end
