(* ===== verification/Heap_Pages.thy ===== *)
theory Heap_Pages
  imports Heap_Node
begin

text \<open>
  The many-page heap builder of the writer (\<^verbatim>\<open>PagedHeapBuilder\<close> in
  \<^verbatim>\<open>pst-writer/src/lib.rs\<close>), used for the heaps of recipient and attachment tables, and what the
  reader makes of its output. A failing operation returns the error alone: its callers drop the
  builder with the error.
\<close>

record HeapPage =
  pg_data :: bytes
  pg_allocations :: "(usize \<times> usize) list"
  pg_header_size :: usize

definition is_hn_bitmap_page :: "nat \<Rightarrow> bool" where
  "is_hn_bitmap_page index \<longleftrightarrow> 8 \<le> index \<and> (index - 8) mod 128 = 0"

definition page_page0 :: "byte \<Rightarrow> HeapPage" where
  "page_page0 client_sig =
     \<lparr> pg_data = le_bytes 2 0 @ [236] @ [client_sig] @ le_bytes 4 0 @ le_bytes 4 0,
       pg_allocations = [], pg_header_size = 12 \<rparr>"

definition page_continuation :: HeapPage where
  "page_continuation = \<lparr> pg_data = le_bytes 2 0, pg_allocations = [], pg_header_size = 2 \<rparr>"

definition page_projected_len :: "HeapPage \<Rightarrow> nat \<Rightarrow> nat" where
  "page_projected_len p extra_bytes =
     (let used = length (pg_data p) + extra_bytes;
          used' = (if used mod 2 = 1 then used + 1 else used);
          alloc_count = length (pg_allocations p) + 1;
          pagemap = 4 + (alloc_count + 1) * 2
      in used' + pagemap)"

definition page_fits :: "HeapPage \<Rightarrow> nat \<Rightarrow> bool" where
  "page_fits p extra_bytes \<longleftrightarrow>
     page_projected_len p extra_bytes \<le> MAX_BLOCK_DATA \<and> length (pg_allocations p) < 2047"

definition page_write_pagemap :: "HeapPage \<Rightarrow> HeapPage" where
  "page_write_pagemap p =
     (let d0 = (if length (pg_data p) mod 2 = 1 then pg_data p @ [0] else pg_data p);
          hnpm_offset = length d0;
          c_alloc = length (pg_allocations p);
          d1 = d0 @ le_bytes 2 c_alloc @ le_bytes 2 0 @ le_bytes 2 (pg_header_size p) @
                 concat (map (\<lambda>(_, stop). le_bytes 2 stop) (pg_allocations p))
      in p \<lparr> pg_data := overwrite 0 (le_bytes 2 hnpm_offset) d1 \<rparr>)"

type_synonym PagedHeapBuilder = "HeapPage list"

definition paged_new :: "byte \<Rightarrow> PagedHeapBuilder" where
  "paged_new client_sig = [page_page0 client_sig]"

definition paged_start_new_page :: "PagedHeapBuilder \<Rightarrow> WriterError + PagedHeapBuilder" where
  "paged_start_new_page pages =
     (let next = length pages
      in if is_hn_bitmap_page next
         then Inl (WeLayout (lit ''TC heap would require HNBITMAPHDR at page '' @ show_nat next @
                lit '' (pages 8/136/264/'' @ [8230] @ lit '' are unimplemented; D-0100-hn-bitmap-hdr)''))
         else if pages = [] then Inr [page_continuation]
         else
           let page = page_write_pagemap (last pages)
           in if MAX_BLOCK_DATA < length (pg_data page)
              then Inl (WeLayout (lit ''HN page '' @ show_nat (next - 1) @
                     lit '' overflowed MAX_BLOCK_DATA after pagemap ('' @
                     show_nat (length (pg_data page)) @ lit '' bytes)''))
              else Inr (butlast pages @
                     [page \<lparr> pg_data := resize MAX_BLOCK_DATA 0 (pg_data page) \<rparr>] @
                     [page_continuation]))"

definition paged_last_fits :: "PagedHeapBuilder \<Rightarrow> nat \<Rightarrow> bool" where
  "paged_last_fits pages extra_bytes \<longleftrightarrow> pages \<noteq> [] \<and> page_fits (last pages) extra_bytes"

definition paged_room :: "PagedHeapBuilder \<Rightarrow> nat \<Rightarrow> WriterError + PagedHeapBuilder" where
  "paged_room pages n =
     (if paged_last_fits pages n then Inr pages
      else try_then (paged_start_new_page pages)
        (\<lambda>pages'. if paged_last_fits pages' n then Inr pages'
           else Inl (WeLayout (lit ''allocation of '' @ show_nat n @
                  lit '' bytes does not fit on a fresh HN page (hidIndex/page budget exhausted after attempting a new page)''))))"

definition paged_try_alloc :: "PagedHeapBuilder \<Rightarrow> bytes \<Rightarrow> WriterError + Hid \<times> PagedHeapBuilder" where
  "paged_try_alloc pages bytes = try_then (paged_room pages (length bytes))
     (\<lambda>pages.
        let block = length pages - 1
        in if pages = [] then Inl (WeLayout (lit ''paged heap has no current page''))
           else
             let page = last pages
             in if 2047 \<le> length (pg_allocations page)
                then Inl (WeLayout (lit ''hidIndex would exceed 2047 on a page after attempting a new page''))
                else
                  let start = length (pg_data page);
                      data = pg_data page @ bytes;
                      allocations = pg_allocations page @ [(start, length data)];
                      hid_index = length allocations
                  in Inr (block mod 2 ^ 32 * 65536 mod 2 ^ 32 + hid_index * 32 mod 2 ^ 32,
                       butlast pages @ [page \<lparr> pg_data := data, pg_allocations := allocations \<rparr>]))"

definition paged_patch_u32 ::
  "PagedHeapBuilder \<Rightarrow> Hid \<Rightarrow> usize \<Rightarrow> u32 \<Rightarrow> WriterError + PagedHeapBuilder" where
  "paged_patch_u32 pages hid field_offset v =
     (let block = hid div 65536;
          index = hid div 32 mod 2048 - 1;
          page_count = length pages
      in if page_count \<le> block
         then Inl (WeLayout (lit ''patch_u32: hid 0x'' @ show_hex hid @ lit '' hidBlockIndex '' @
                show_nat block @ lit '' out of range ('' @ show_nat page_count @ lit '' pages)''))
         else
           let page = pages ! block
           in if length (pg_allocations page) \<le> index
              then Inl (WeLayout (lit ''patch_u32: hid 0x'' @ show_hex hid @
                     lit '' does not identify a known heap allocation (index '' @ show_nat index @
                     lit '' out of range on page '' @ show_nat block @ lit '')''))
              else
                let (start, stop) = pg_allocations page ! index;
                    at = start + field_offset
                in if stop < at + 4
                   then Inl (WeLayout (lit ''patch_u32: field_offset '' @ show_nat field_offset @
                          lit '' does not fit within hid 0x'' @ show_hex hid @ lit '' ('' @
                          show_nat start @ lit ''..'' @ show_nat stop @ lit '')''))
                   else Inr (pages[block := page \<lparr> pg_data := overwrite at (le_bytes 4 v) (pg_data page) \<rparr>]))"

definition paged_fill :: "nat \<Rightarrow> nat \<times> HeapPage \<Rightarrow> bytes" where
  "paged_fill final ip = (case ip of (i, page) \<Rightarrow>
     if i \<noteq> final \<and> length (pg_data page) < MAX_BLOCK_DATA
     then resize MAX_BLOCK_DATA 0 (pg_data page) else pg_data page)"

definition paged_finalize :: "PagedHeapBuilder \<Rightarrow> Hid \<Rightarrow> bytes" where
  "paged_finalize pages hid_user_root =
     (let p1 = (if pages = [] then pages else butlast pages @ [page_write_pagemap (last pages)]);
          p2 = (case p1 of [] \<Rightarrow> []
                | page0 # rest \<Rightarrow>
                    (if 8 \<le> length (pg_data page0)
                     then page0 \<lparr> pg_data := overwrite 4 (le_bytes 4 hid_user_root) (pg_data page0) \<rparr>
                     else page0) # rest)
      in concat (map (paged_fill (length pages - 1)) (enumerate 0 p2)))"

subsection \<open>The contents of a paged heap\<close>

text \<open>
  A page under construction is its header followed by its contents; a finished page has its table
  after them, where the first header field says, and is filled up to a full block.
\<close>

definition page_open :: "nat \<Rightarrow> HeapPage \<Rightarrow> bytes list \<Rightarrow> bool" where
  "page_open a p cs \<longleftrightarrow>
     (\<exists>hdr. length hdr = a \<and> (a = 12 \<longrightarrow> hdr ! 2 = 236) \<and> pg_data p = page_bytes hdr cs \<and>
        pg_allocations p = spans a cs \<and> pg_header_size p = a \<and>
        length cs \<le> 2047 \<and>
        a + length (concat cs) + (a + length (concat cs)) mod 2 + 6 + 2 * length cs \<le> MAX_BLOCK_DATA)"

definition page_done :: "nat \<Rightarrow> HeapPage \<Rightarrow> bytes list \<Rightarrow> bool" where
  "page_done a p cs \<longleftrightarrow>
     (\<exists>hdr pad fill. length hdr = a \<and> (a = 12 \<longrightarrow> hdr ! 2 = 236) \<and>
        pg_data p = page_bytes hdr cs @ pad @ page_table a cs @ fill \<and>
        read_u16 0 hdr = a + length (concat cs) + length pad \<and>
        pg_allocations p = spans a cs \<and> length cs \<le> 2047 \<and> length (pg_data p) \<le> MAX_BLOCK_DATA)"

lemma page_doneI:
  "length hdr = a \<Longrightarrow> a = 12 \<longrightarrow> hdr ! 2 = 236 \<Longrightarrow>
    pg_data p = page_bytes hdr cs @ pad @ page_table a cs @ fill \<Longrightarrow>
    read_u16 0 hdr = a + length (concat cs) + length pad \<Longrightarrow> pg_allocations p = spans a cs \<Longrightarrow>
    length cs \<le> 2047 \<Longrightarrow> length (pg_data p) \<le> MAX_BLOCK_DATA \<Longrightarrow> page_done a p cs"
  unfolding page_done_def by blast

lemma page_open_page0: "page_open 12 (page_page0 sig) []"
  unfolding page_open_def page_bytes_def page_page0_def
  by (rule exI [where x = "le_bytes 2 0 @ [236] @ [sig] @ le_bytes 4 0 @ le_bytes 4 0"])
    (simp add: le_bytes_zero nth_append MAX_BLOCK_DATA_def)

lemma page_open_continuation: "page_open 2 page_continuation []"
  unfolding page_open_def page_bytes_def page_continuation_def
  by (rule exI [where x = "le_bytes 2 0"]) (simp add: MAX_BLOCK_DATA_def)

lemma page_open_alloc:
  assumes "page_open a p cs" and "page_fits p (length bs)"
  shows "page_open a (p \<lparr> pg_data := pg_data p @ bs,
      pg_allocations := pg_allocations p @ [(length (pg_data p), length (pg_data p @ bs))] \<rparr>) (cs @ [bs])"
proof -
  from assms(1) obtain hdr where hdr: "length hdr = a" "a = 12 \<longrightarrow> hdr ! 2 = 236"
    "pg_data p = hdr @ concat cs" "pg_allocations p = spans a cs" "pg_header_size p = a"
    by (auto simp: page_open_def page_bytes_def)
  have "a + length (concat cs) + length bs + (a + length (concat cs) + length bs) mod 2 + 6 +
      2 * Suc (length cs) \<le> MAX_BLOCK_DATA" and "length cs < 2047"
    using assms(2) hdr by (auto simp: page_fits_def page_projected_len_def Let_def split: if_splits)
  with hdr show ?thesis
    by (auto simp: page_open_def page_bytes_def spans_snoc add.assoc intro!: exI [where x = hdr])
qed

lemma page_write_pagemap_done:
  assumes "page_open a p cs" and "2 \<le> a"
  shows "page_done a (page_write_pagemap p) cs"
proof -
  from assms(1) obtain hdr where hdr: "length hdr = a" "a = 12 \<longrightarrow> hdr ! 2 = 236"
    "pg_data p = hdr @ concat cs" "pg_allocations p = spans a cs" "pg_header_size p = a"
    and fits: "length cs \<le> 2047"
      "a + length (concat cs) + (a + length (concat cs)) mod 2 + 6 + 2 * length cs \<le> MAX_BLOCK_DATA"
    by (auto simp: page_open_def page_bytes_def)
  let ?pad = "replicate ((a + length (concat cs)) mod 2) (0 :: byte)"
  let ?off = "a + length (concat cs) + length ?pad"
  let ?hdr = "overwrite 0 (le_bytes 2 ?off) hdr"
  have pad: "(if length (pg_data p) mod 2 = 1 then pg_data p @ [0] else pg_data p) = pg_data p @ ?pad"
    using hdr by (auto simp: mod_2_eq_odd)
  have "pg_data (page_write_pagemap p) = page_bytes ?hdr cs @ ?pad @ page_table a cs @ []"
  proof -
    have off: "length (pg_data p @ ?pad) = ?off" using hdr by (simp only: length_append)
    show ?thesis
      unfolding page_write_pagemap_def Let_def pad off
      using hdr assms(2)
      by (simp add: page_bytes_def page_table_def slice_simps comp_def case_prod_unfold)
  qed
  moreover have "read_u16 0 ?hdr = ?off"
    using hdr(1) assms(2) fits by (simp add: slice_simps MAX_BLOCK_DATA_def)
  moreover have "a = 12 \<longrightarrow> ?hdr ! 2 = 236" using hdr by (simp add: nth_overwrite_other)
  ultimately show ?thesis
    using hdr assms(2) fits unfolding page_done_def
    by (intro exI [where x = ?hdr] exI [where x = ?pad] exI [where x = "[]"])
      (simp add: page_bytes_def page_write_pagemap_def Let_def)
qed

lemma page_done_fill:
  assumes "page_done a p cs"
  shows "page_done a (p \<lparr> pg_data := resize MAX_BLOCK_DATA 0 (pg_data p) \<rparr>) cs"
    and "length (resize MAX_BLOCK_DATA 0 (pg_data p)) = MAX_BLOCK_DATA"
proof -
  from assms obtain hdr pad fill where p: "length hdr = a" "a = 12 \<longrightarrow> hdr ! 2 = 236"
    "pg_data p = page_bytes hdr cs @ pad @ page_table a cs @ fill"
    "read_u16 0 hdr = a + length (concat cs) + length pad"
    "pg_allocations p = spans a cs" "length cs \<le> 2047" "length (pg_data p) \<le> MAX_BLOCK_DATA"
    by (auto simp: page_done_def)
  then show len: "length (resize MAX_BLOCK_DATA 0 (pg_data p)) = MAX_BLOCK_DATA"
    by (simp add: resize_def)
  have "resize MAX_BLOCK_DATA 0 (pg_data p) = page_bytes hdr cs @ pad @ page_table a cs @
      (fill @ replicate (MAX_BLOCK_DATA - length (pg_data p)) 0)"
    using p(3,7) by (simp add: resize_def)
  with p len show "page_done a (p \<lparr> pg_data := resize MAX_BLOCK_DATA 0 (pg_data p) \<rparr>) cs"
    unfolding page_done_def
    by (intro exI [where x = hdr] exI [where x = pad]
        exI [where x = "fill @ replicate (MAX_BLOCK_DATA - length (pg_data p)) 0"]) simp
qed

definition header_size_of :: "nat \<Rightarrow> nat" where
  "header_size_of k = (if k = 0 then 12 else 2)"

definition pages_done :: "HeapPage list \<Rightarrow> bytes list list \<Rightarrow> bool" where
  "pages_done ps ds \<longleftrightarrow> length ps = length ds \<and>
     (\<forall>k < length ps. page_done (header_size_of k) (ps ! k) (ds ! k) \<and>
        length (pg_data (ps ! k)) = MAX_BLOCK_DATA)"

definition pages_hold :: "PagedHeapBuilder \<Rightarrow> bytes list list \<Rightarrow> bool" where
  "pages_hold pages css \<longleftrightarrow> pages \<noteq> [] \<and> css \<noteq> [] \<and> length pages \<le> 8 \<and>
     pages_done (butlast pages) (butlast css) \<and>
     page_open (header_size_of (length pages - 1)) (last pages) (last css)"

lemma header_size_of_pos: "2 \<le> header_size_of k"
  by (simp add: header_size_of_def)

lemma pages_done_snoc:
  "pages_done ps ds \<Longrightarrow> page_done (header_size_of (length ps)) p cs \<Longrightarrow>
    length (pg_data p) = MAX_BLOCK_DATA \<Longrightarrow> pages_done (ps @ [p]) (ds @ [cs])"
  by (simp add: pages_done_def nth_append less_Suc_eq)

lemma pages_done_update:
  assumes "pages_done ps ds" and "page_done (header_size_of b) p cs" and "length (pg_data p) = MAX_BLOCK_DATA"
  shows "pages_done (ps[b := p]) (ds[b := cs])"
  unfolding pages_done_def
proof (intro conjI allI impI)
  show "length (ps[b := p]) = length (ds[b := cs])" using assms(1) by (simp add: pages_done_def)
  fix k assume "k < length (ps[b := p])"
  with assms show "page_done (header_size_of k) (ps[b := p] ! k) (ds[b := cs] ! k)"
    and "length (pg_data (ps[b := p] ! k)) = MAX_BLOCK_DATA"
    by (cases "k = b"; simp add: pages_done_def)+
qed

lemma pages_hold_length: "pages_hold pages css \<Longrightarrow> length css = length pages"
proof -
  assume "pages_hold pages css"
  then have "pages \<noteq> []" and "css \<noteq> []" and "length (butlast pages) = length (butlast css)"
    unfolding pages_hold_def pages_done_def by blast+
  then show ?thesis by (cases pages rule: rev_cases; cases css rule: rev_cases) auto
qed

lemma pages_hold_new [inv_intros]: "pages_hold (paged_new sig) [[]]"
  by (simp add: pages_hold_def pages_done_def paged_new_def header_size_of_def page_open_page0)

lemma pages_hold_next:
  assumes "pages_hold pages css" and "paged_start_new_page pages = Inr pages'"
  shows "pages_hold pages' (css @ [[]])"
proof -
  let ?n = "length pages - 1"
  from assms(1) have ne: "pages \<noteq> []" "css \<noteq> []" and dn: "pages_done (butlast pages) (butlast css)"
    and opn: "page_open (header_size_of ?n) (last pages) (last css)"
    by (simp_all add: pages_hold_def)
  let ?page = "page_write_pagemap (last pages)"
  let ?full = "?page \<lparr> pg_data := resize MAX_BLOCK_DATA 0 (pg_data ?page) \<rparr>"
  from assms(2) ne have bitmap: "\<not> is_hn_bitmap_page (length pages)" and
    pages': "pages' = butlast pages @ [?full] @ [page_continuation]"
    by (auto simp: paged_start_new_page_def Let_def split: if_splits)
  from bitmap assms(1) have "length pages < 8"
    by (auto simp: pages_hold_def is_hn_bitmap_page_def le_less)
  moreover have "pages_done (butlast pages @ [?full]) (butlast css @ [last css])"
    using page_done_fill [OF page_write_pagemap_done [OF opn header_size_of_pos]]
    by (intro pages_done_snoc [OF dn]) simp_all
  ultimately show ?thesis
    using ne by (simp add: pages_hold_def pages' butlast_append header_size_of_def
        page_open_continuation Suc_leI)
qed

lemma pages_hold_room:
  assumes "pages_hold pages css" and "paged_room pages n = Inr pages'"
  shows "\<exists>css'. (css' = css \<or> css' = css @ [[]]) \<and> pages_hold pages' css' \<and> page_fits (last pages') n"
proof (cases "paged_last_fits pages n")
  case True
  with assms show ?thesis by (auto simp: paged_room_def paged_last_fits_def)
next
  case False
  with assms(2) have "paged_start_new_page pages = Inr pages'" and "paged_last_fits pages' n"
    by (auto simp: paged_room_def try_then_Inr split: if_splits)
  with pages_hold_next [OF assms(1)] show ?thesis by (auto simp: paged_last_fits_def)
qed

lemma pages_hold_alloc:
  assumes "pages_hold pages css" and "paged_try_alloc pages bs = Inr (hid, pages')"
  shows "\<exists>css'. (css' = css \<or> css' = css @ [[]]) \<and>
    hid = (length css' - 1) * 65536 + Suc (length (last css')) * 32 \<and>
    pages_hold pages' (butlast css' @ [last css' @ [bs]])"
proof -
  from assms(2) obtain pages1 where room: "paged_room pages (length bs) = Inr pages1"
    by (auto simp: paged_try_alloc_def try_then_Inr)
  from pages_hold_room [OF assms(1) room] obtain css' where
    css': "css' = css \<or> css' = css @ [[]]" and hold: "pages_hold pages1 css'"
    and fits: "page_fits (last pages1) (length bs)" by auto
  from hold have ne: "pages1 \<noteq> []" "css' \<noteq> []" and le: "length pages1 \<le> 8"
    and opn: "page_open (header_size_of (length pages1 - 1)) (last pages1) (last css')"
    by (simp_all add: pages_hold_def)
  have len: "length css' = length pages1" by (rule pages_hold_length [OF hold])
  have allocs: "length (pg_allocations (last pages1)) = length (last css')" "length (last css') < 2047"
    using opn fits by (auto simp: page_open_def page_fits_def)
  let ?p = "last pages1 \<lparr> pg_data := pg_data (last pages1) @ bs,
      pg_allocations := pg_allocations (last pages1) @
        [(length (pg_data (last pages1)), length (pg_data (last pages1) @ bs))] \<rparr>"
  from assms(2) room ne have hid: "hid = (length pages1 - 1) mod 2 ^ 32 * 65536 mod 2 ^ 32 +
      Suc (length (pg_allocations (last pages1))) * 32 mod 2 ^ 32"
    and pages': "pages' = butlast pages1 @ [?p]"
    by (auto simp: paged_try_alloc_def Let_def split: if_splits)
  have "hid = (length css' - 1) * 65536 + Suc (length (last css')) * 32"
    using hid allocs len le by simp
  moreover have "pages_hold pages' (butlast css' @ [last css' @ [bs]])"
    using hold page_open_alloc [OF opn fits] ne by (simp add: pages_hold_def pages')
  ultimately show ?thesis using css' by blast
qed

lemma page_table_update:
  "length x = length (cs ! i) \<Longrightarrow> page_table a (cs[i := x]) = page_table a cs"
  by (simp add: page_table_def spans_update)

lemma page_open_patch:
  assumes "page_open a p cs" and "i < length cs" and "off + 4 \<le> length (cs ! i)"
  shows "page_open a (p \<lparr> pg_data := overwrite (a + length (concat (take i cs)) + off) (le_bytes 4 v) (pg_data p) \<rparr>)
    (cs[i := overwrite off (le_bytes 4 v) (cs ! i)])"
proof -
  from assms(1) obtain hdr where "length hdr = a" "a = 12 \<longrightarrow> hdr ! 2 = 236"
    "pg_data p = page_bytes hdr cs" and rest: "pg_allocations p = spans a cs" "pg_header_size p = a"
    "length cs \<le> 2047"
    "a + length (concat cs) + (a + length (concat cs)) mod 2 + 6 + 2 * length cs \<le> MAX_BLOCK_DATA"
    by (auto simp: page_open_def)
  with assms(2,3) overwrite_content [of i cs hdr a off "le_bytes 4 v" "[]"] show ?thesis
    unfolding page_open_def
    by (intro exI [where x = hdr]) (simp add: spans_update length_concat_update)
qed

lemma page_done_patch:
  assumes "page_done a p cs" and "i < length cs" and "off + 4 \<le> length (cs ! i)"
  shows "page_done a (p \<lparr> pg_data := overwrite (a + length (concat (take i cs)) + off) (le_bytes 4 v) (pg_data p) \<rparr>)
    (cs[i := overwrite off (le_bytes 4 v) (cs ! i)])"
    and "length (overwrite (a + length (concat (take i cs)) + off) (le_bytes 4 v) (pg_data p)) = length (pg_data p)"
proof -
  from assms(1) obtain hdr pad fill where p: "length hdr = a" "a = 12 \<longrightarrow> hdr ! 2 = 236"
    "pg_data p = page_bytes hdr cs @ pad @ page_table a cs @ fill"
    "read_u16 0 hdr = a + length (concat cs) + length pad"
    "pg_allocations p = spans a cs" "length cs \<le> 2047" "length (pg_data p) \<le> MAX_BLOCK_DATA"
    by (auto simp: page_done_def)
  have upd: "overwrite (a + length (concat (take i cs)) + off) (le_bytes 4 v) (pg_data p) =
      page_bytes hdr (cs[i := overwrite off (le_bytes 4 v) (cs ! i)]) @ pad @ page_table a cs @ fill"
    using assms(2,3) p(1) by (simp only: p(3)) (rule overwrite_content; simp)
  show len: "length (overwrite (a + length (concat (take i cs)) + off) (le_bytes 4 v) (pg_data p)) =
      length (pg_data p)"
    unfolding upd using assms(3) by (simp add: p(3) page_bytes_def length_concat_update)
  show "page_done a (p \<lparr> pg_data := overwrite (a + length (concat (take i cs)) + off) (le_bytes 4 v) (pg_data p) \<rparr>)
      (cs[i := overwrite off (le_bytes 4 v) (cs ! i)])"
    using assms(3) p(1,2,4-7) len upd
    by (intro page_doneI [where hdr = hdr and pad = pad and fill = fill])
      (simp_all add: page_table_update spans_update length_concat_update)
qed

lemma pages_done_allocations:
  "pages_done ps ds \<Longrightarrow> b < length ps \<Longrightarrow>
    pg_allocations (ps ! b) = spans (header_size_of b) (ds ! b) \<and> length (ds ! b) \<le> 2047"
  by (auto simp: pages_done_def page_done_def)

lemma pages_hold_nth:
  assumes "pages_hold pages css" and "b < length css"
  shows "pg_allocations (pages ! b) = spans (header_size_of b) (css ! b)" and "length (css ! b) \<le> 2047"
proof -
  from assms have ne: "pages \<noteq> []" "css \<noteq> []" and dn: "pages_done (butlast pages) (butlast css)"
    and opn: "page_open (header_size_of (length pages - 1)) (last pages) (last css)"
    by (simp_all add: pages_hold_def)
  note len = pages_hold_length [OF assms(1)]
  have "pg_allocations (pages ! b) = spans (header_size_of b) (css ! b) \<and> length (css ! b) \<le> 2047"
  proof (cases "b = length pages - 1")
    case True
    with ne len have "pages ! b = last pages" and "css ! b = last css"
      by (simp_all add: last_conv_nth)
    with opn True show ?thesis by (auto simp: page_open_def)
  next
    case False
    with assms(2) len have "b < length (butlast pages)" "b < length (butlast css)" by simp_all
    with pages_done_allocations [OF dn, of b] show ?thesis by (simp add: nth_butlast)
  qed
  then show "pg_allocations (pages ! b) = spans (header_size_of b) (css ! b)" "length (css ! b) \<le> 2047"
    by simp_all
qed

lemma pages_hold_patch:
  assumes hold: "pages_hold pages css" and b: "b < length css" and i: "i < length (css ! b)"
    and off: "off + 4 \<le> length (css ! b ! i)"
  shows "\<exists>pages'. paged_patch_u32 pages (b * 65536 + Suc i * 32) off v = Inr pages' \<and>
    pages_hold pages' (css[b := (css ! b)[i := overwrite off (le_bytes 4 v) (css ! b ! i)]])"
proof -
  note len = pages_hold_length [OF hold] and nth = pages_hold_nth [OF hold b]
  from hold have ne: "pages \<noteq> []" "css \<noteq> []" and le: "length pages \<le> 8"
    and dn: "pages_done (butlast pages) (butlast css)"
    and opn: "page_open (header_size_of (length pages - 1)) (last pages) (last css)"
    by (simp_all add: pages_hold_def)
  let ?cs = "(css ! b)[i := overwrite off (le_bytes 4 v) (css ! b ! i)]"
  let ?at = "header_size_of b + length (concat (take i (css ! b))) + off"
  let ?p = "(pages ! b) \<lparr> pg_data := overwrite ?at (le_bytes 4 v) (pg_data (pages ! b)) \<rparr>"
  have "b < 65536" "i < 2047" using b len le i nth(2) by simp_all
  note parts = hid_parts [OF this]
  have "(b * 65536 + Suc i * 32) div 65536 = b" using \<open>i < 2047\<close> by simp
  moreover have "(b * 65536 + Suc i * 32) div 32 mod 2048 - 1 = i"
    using parts(2) by (simp add: hid_index_def)
  ultimately have patch: "paged_patch_u32 pages (b * 65536 + Suc i * 32) off v = Inr (pages[b := ?p])"
    using b len nth i off unfolding paged_patch_u32_def Let_def by (simp only:) (simp add: nth_spans)
  have "pages_hold (pages[b := ?p]) (css[b := ?cs])"
  proof (cases "b = length pages - 1")
    case True
    with ne len have "pages ! b = last pages" and "css ! b = last css"
      by (simp_all add: last_conv_nth)
    with True page_open_patch [OF opn] i off have "page_open (header_size_of b) ?p ?cs" by simp
    with True ne len le dn show ?thesis
      by (simp add: pages_hold_def butlast_list_update last_list_update)
  next
    case False
    with b len have b': "b < length (butlast pages)" "b < length (butlast css)" by simp_all
    then have nth': "butlast pages ! b = pages ! b" "butlast css ! b = css ! b"
      by (simp_all add: nth_butlast)
    from dn b' have "page_done (header_size_of b) (pages ! b) (css ! b)" and
      full: "length (pg_data (pages ! b)) = MAX_BLOCK_DATA"
      by (auto simp: pages_done_def nth' simp del: length_butlast)
    with page_done_patch [OF this(1) i off] have "page_done (header_size_of b) ?p ?cs" and
      "length (pg_data ?p) = MAX_BLOCK_DATA" by simp_all
    with dn have "pages_done ((butlast pages)[b := ?p]) ((butlast css)[b := ?cs])"
      by (rule pages_done_update)
    with False ne len le opn show ?thesis
      by (simp add: pages_hold_def butlast_list_update last_list_update)
  qed
  with patch show ?thesis by blast
qed

subsection \<open>Reading a finished paged heap\<close>

lemma page_done_root:
  assumes "page_done 12 p cs"
  shows "page_done 12 (p \<lparr> pg_data := overwrite 4 (le_bytes 4 root) (pg_data p) \<rparr>) cs"
    and "length (overwrite 4 (le_bytes 4 root) (pg_data p)) = length (pg_data p)"
    and "read_u32 4 (overwrite 4 (le_bytes 4 root) (pg_data p)) = root mod 4294967296"
    and "18 \<le> length (pg_data p)"
proof -
  from assms obtain hdr pad fill where p: "length hdr = 12" "hdr ! 2 = 236"
    "pg_data p = page_bytes hdr cs @ pad @ page_table 12 cs @ fill"
    "read_u16 0 hdr = 12 + length (concat cs) + length pad"
    "pg_allocations p = spans 12 cs" "length cs \<le> 2047" "length (pg_data p) \<le> MAX_BLOCK_DATA"
    by (auto simp: page_done_def)
  then show "18 \<le> length (pg_data p)" by (simp add: page_bytes_def)
  let ?hdr = "overwrite 4 (le_bytes 4 root) hdr"
  have upd: "overwrite 4 (le_bytes 4 root) (pg_data p) =
      page_bytes ?hdr cs @ pad @ page_table 12 cs @ fill"
    using p(1) by (simp add: p(3) page_bytes_def slice_simps)
  show len: "length (overwrite 4 (le_bytes 4 root) (pg_data p)) = length (pg_data p)"
    unfolding upd using p(1) by (simp add: p(3) page_bytes_def)
  show "read_u32 4 (overwrite 4 (le_bytes 4 root) (pg_data p)) = root mod 4294967296"
    unfolding upd using p(1) by (simp add: page_bytes_def slice_simps)
  show "page_done 12 (p \<lparr> pg_data := overwrite 4 (le_bytes 4 root) (pg_data p) \<rparr>) cs"
    using p(1,2,4-7) len upd
    by (intro page_doneI [where hdr = ?hdr and pad = pad and fill = fill])
      (simp_all add: slice_simps nth_overwrite_other)
qed

lemma page_done_sig: "page_done 12 p cs \<Longrightarrow> pg_data p ! 2 = 236"
  by (auto simp: page_done_def page_bytes_def nth_append)

lemma page_done_length: "page_done a p cs \<Longrightarrow> a + 6 \<le> length (pg_data p) \<and> length cs \<le> 2047 \<and>
    length (pg_data p) \<le> MAX_BLOCK_DATA"
  by (auto simp: page_done_def page_bytes_def)

lemma page_done_get:
  assumes "page_done a p cs" and "i < length cs" and "2 \<le> a"
  shows "heap_page_get hid (pg_data p) (read_u16 0 (pg_data p)) (Suc i) = Inr (cs ! i)"
proof -
  from assms(1) obtain hdr pad fill where p: "length hdr = a" "a = 12 \<longrightarrow> hdr ! 2 = 236"
    "pg_data p = hdr @ concat cs @ pad @ page_table a cs @ fill"
    "read_u16 0 hdr = a + length (concat cs) + length pad"
    "length cs \<le> 2047" "length (pg_data p) \<le> MAX_BLOCK_DATA"
    unfolding page_done_def page_bytes_def append_assoc by blast
  have off: "read_u16 0 (pg_data p) = a + length (concat cs) + length pad"
    using p(1,4) assms(3) by (simp add: p(3) slice_simps)
  have "a + length (concat cs) < 65536" "length cs < 65536"
    using p by (simp_all add: MAX_BLOCK_DATA_def)
  from page_get [OF assms(2) p(1) this] show
    "heap_page_get hid (pg_data p) (read_u16 0 (pg_data p)) (Suc i) = Inr (cs ! i)"
    unfolding off unfolding p(3) .
qed

text \<open>The pages that finalisation concatenates: every page is done and only the last may be short.\<close>

definition final_pages :: "HeapPage list \<Rightarrow> bytes list list \<Rightarrow> bool" where
  "final_pages ps css \<longleftrightarrow> length ps = length css \<and> 0 < length ps \<and>
     (\<forall>k < length ps. page_done (header_size_of k) (ps ! k) (css ! k)) \<and>
     (\<forall>k < length ps - 1. length (pg_data (ps ! k)) = MAX_BLOCK_DATA)"

lemma final_pages_done:
  "final_pages ps css \<Longrightarrow> k < length ps \<Longrightarrow> page_done (header_size_of k) (ps ! k) (css ! k)"
  by (simp add: final_pages_def)

lemma final_pages_bytes:
  assumes "final_pages ps css"
  shows "concat (map (paged_fill (length ps - 1)) (enumerate 0 ps)) = concat (map pg_data ps)"
proof -
  have "map (paged_fill (length ps - 1)) (enumerate 0 ps) = map pg_data ps"
    using assms by (intro nth_equalityI) (auto simp: final_pages_def paged_fill_def nth_enumerate_eq)
  then show ?thesis by simp
qed

lemma pages_hold_final:
  assumes "pages_hold pages css"
  shows "final_pages (butlast pages @ [page_write_pagemap (last pages)]) css"
proof -
  let ?ps = "butlast pages @ [page_write_pagemap (last pages)]"
  from assms have ne: "pages \<noteq> []" "css \<noteq> []" and dn: "pages_done (butlast pages) (butlast css)"
    and opn: "page_open (header_size_of (length pages - 1)) (last pages) (last css)"
    by (simp_all add: pages_hold_def)
  have len: "length css = length ?ps" using ne pages_hold_length [OF assms] by simp
  from page_write_pagemap_done [OF opn header_size_of_pos]
  have last: "page_done (header_size_of (length (butlast pages))) (page_write_pagemap (last pages)) (last css)"
    by simp
  have eq: "length (butlast pages) = length (butlast css)" using dn by (simp add: pages_done_def)
  have "page_done (header_size_of k) (?ps ! k) ((butlast css @ [last css]) ! k)" if "k < length ?ps" for k
    using that dn last eq
    by (cases "k = length (butlast pages)") (auto simp: pages_done_def nth_append)
  moreover have "length (pg_data (?ps ! k)) = MAX_BLOCK_DATA" if "k < length ?ps - 1" for k
    using that dn by (simp add: pages_done_def nth_append)
  ultimately show ?thesis using ne len by (simp add: final_pages_def)
qed

lemma final_pages_root:
  assumes "final_pages (p # ps) css"
  shows "final_pages (p \<lparr> pg_data := overwrite 4 (le_bytes 4 root) (pg_data p) \<rparr> # ps) css"
    and "18 \<le> length (pg_data p)"
proof -
  let ?p = "p \<lparr> pg_data := overwrite 4 (le_bytes 4 root) (pg_data p) \<rparr>"
  from assms have "page_done 12 p (css ! 0)" by (auto simp: final_pages_def header_size_of_def)
  note root = page_done_root [OF this]
  show "18 \<le> length (pg_data p)" by (rule root(4))
  have "page_done (header_size_of k) ((?p # ps) ! k) (css ! k)" if "k < length (?p # ps)" for k
    using that assms root(1) by (cases k) (auto simp: final_pages_def header_size_of_def)
  moreover have "length (pg_data ((?p # ps) ! k)) = MAX_BLOCK_DATA" if "k < length (?p # ps) - 1" for k
    using that assms root(2) by (cases k) (auto simp: final_pages_def)
  moreover have "length css = Suc (length ps)" using assms by (simp add: final_pages_def)
  ultimately show "final_pages (?p # ps) css" by (simp add: final_pages_def)
qed

lemma final_pages_slice:
  assumes "final_pages ps css" and "b < length ps" and "data = concat (map pg_data ps)"
  shows "slice_of (b * node_block_size data)
           (min (b * node_block_size data + node_block_size data) (length data)) data = pg_data (ps ! b)"
    and "b * node_block_size data < length data"
proof -
  let ?n = "length ps - 1" and ?bs = "node_block_size data"
  from assms(1) have ne: "ps \<noteq> []" and full: "\<And>k. k < ?n \<Longrightarrow> length (pg_data (ps ! k)) = MAX_BLOCK_DATA"
    by (auto simp: final_pages_def)
  have last: "length (pg_data (last ps)) \<le> MAX_BLOCK_DATA" "0 < length (pg_data (last ps))"
    using page_done_length [OF final_pages_done [OF assms(1), of ?n]] ne by (auto simp: last_conv_nth)
  have widths: "\<forall>xs\<in>set (map pg_data (butlast ps)). length xs = MAX_BLOCK_DATA"
    using full by (auto simp: in_set_conv_nth nth_butlast)
  have data: "data = concat (map pg_data (butlast ps)) @ pg_data (last ps)"
  proof -
    have "concat (map pg_data (butlast ps @ [last ps])) =
        concat (map pg_data (butlast ps)) @ pg_data (last ps)" by simp
    with ne assms(3) show ?thesis by simp
  qed
  have front: "length (concat (map pg_data (butlast ps))) = ?n * MAX_BLOCK_DATA"
    using length_concat_width [OF widths] by simp
  have total: "length data = ?n * MAX_BLOCK_DATA + length (pg_data (last ps))"
    using data front by simp
  show "slice_of (b * ?bs) (min (b * ?bs + ?bs) (length data)) data = pg_data (ps ! b)"
    and "b * ?bs < length data"
  proof (atomize (full), cases "?n = 0")
    case True
    with assms(2) have b0: "b = 0" by simp
    with True ne have b: "b = 0" "ps ! b = last ps" by (simp_all add: last_conv_nth)
    from True ne have "data = pg_data (last ps)" using data front by simp
    with b last show "slice_of (b * ?bs) (min (b * ?bs + ?bs) (length data)) data = pg_data (ps ! b) \<and>
        b * ?bs < length data"
      by (simp add: node_block_size_def slice_simps)
  next
    case False
    then have bs: "?bs = MAX_BLOCK_DATA"
      using total last(2) by (cases ?n) (simp_all add: node_block_size_def)
    show "slice_of (b * ?bs) (min (b * ?bs + ?bs) (length data)) data = pg_data (ps ! b) \<and>
        b * ?bs < length data"
    proof (cases "b = ?n")
      case True
      with ne have "ps ! b = last ps" by (simp add: last_conv_nth)
      moreover have "slice_of (?n * MAX_BLOCK_DATA) (length data)
          (concat (map pg_data (butlast ps)) @ pg_data (last ps)) = pg_data (last ps)"
        by (simp only: total slice_append2 front) (simp add: slice_simps)
      then have "slice_of (b * ?bs) (length data) data = pg_data (last ps)"
        unfolding True bs data [symmetric] .
      moreover have "min (b * ?bs + ?bs) (length data) = length data"
        using True bs total last(1) by simp
      ultimately show ?thesis using True bs total last(2) by simp
    next
      case False
      with assms(2) have b: "b < length (butlast ps)" by simp
      have le: "b * ?bs + ?bs \<le> ?n * MAX_BLOCK_DATA"
        using b bs mult_le_mono1 [of "Suc b" ?n MAX_BLOCK_DATA] by simp
      have "slice_of (b * MAX_BLOCK_DATA) (b * MAX_BLOCK_DATA + MAX_BLOCK_DATA)
          (concat (map pg_data (butlast ps)) @ pg_data (last ps)) = pg_data (ps ! b)"
        using b slice_records [OF _ widths, of b] by (simp add: nth_butlast)
      then have "slice_of (b * ?bs) (b * ?bs + ?bs) data = pg_data (ps ! b)"
        unfolding bs data [symmetric] .
      moreover have "b * ?bs < length data" using le total last(2) by linarith
      moreover have "min (b * ?bs + ?bs) (length data) = b * ?bs + ?bs" using le total by simp
      ultimately show ?thesis by simp
    qed
  qed
qed

text \<open>The bytes of a finished heap are its pages, one after another.\<close>

lemma pages_hold_bytes:
  assumes hold: "pages_hold pages css"
  obtains p ps where "final_pages (p # ps) css"
    and "paged_finalize pages root =
      concat (map pg_data (p \<lparr> pg_data := overwrite 4 (le_bytes 4 root) (pg_data p) \<rparr> # ps))"
proof -
  from hold have ne: "pages \<noteq> []" by (simp add: pages_hold_def)
  obtain p ps where ps: "butlast pages @ [page_write_pagemap (last pages)] = p # ps"
    by (cases "butlast pages @ [page_write_pagemap (last pages)]") auto
  have fin: "final_pages (p # ps) css" using pages_hold_final [OF hold] by (simp only: ps)
  note root = final_pages_root [OF fin]
  have "length pages - 1 = length (p # ps) - 1"
    using ps ne by (metis One_nat_def Suc_pred length_append_singleton length_butlast length_Cons
        length_greater_0_conv)
  then have "paged_finalize pages root =
      concat (map pg_data (p \<lparr> pg_data := overwrite 4 (le_bytes 4 root) (pg_data p) \<rparr> # ps))"
    using ne root(2) final_pages_bytes [OF root(1)]
    by (simp add: paged_finalize_def ps del: upt_Suc enumerate_simps)
  with fin show thesis by (rule that)
qed

lemma pages_hold_size:
  assumes "pages_hold pages css"
  shows "0 < length (paged_finalize pages root)" and "length (paged_finalize pages root) \<le> 8 * MAX_BLOCK_DATA"
proof -
  from pages_hold_bytes [OF assms, of root] obtain p ps where fin: "final_pages (p # ps) css"
    and data: "paged_finalize pages root =
      concat (map pg_data (p \<lparr> pg_data := overwrite 4 (le_bytes 4 root) (pg_data p) \<rparr> # ps))" .
  let ?ps = "p \<lparr> pg_data := overwrite 4 (le_bytes 4 root) (pg_data p) \<rparr> # ps"
  note fin1 = final_pages_root(1) [OF fin, of root]
  have len: "length ?ps \<le> 8"
    using fin1 pages_hold_length [OF assms] assms by (simp add: final_pages_def pages_hold_def)
  have each: "length (pg_data (?ps ! k)) \<le> MAX_BLOCK_DATA \<and> 0 < length (pg_data (?ps ! k))" if "k < length ?ps" for k
    using page_done_length [OF final_pages_done [OF fin1 that]] by auto
  then have "length (pg_data q) \<le> MAX_BLOCK_DATA" if "q \<in> set ?ps" for q
    using that by (metis in_set_conv_nth)
  from sum_list_mono [of ?ps "length \<circ> pg_data" "\<lambda>_. MAX_BLOCK_DATA", unfolded comp_apply, OF this] have "(\<Sum>q\<leftarrow>?ps. length (pg_data q)) \<le> length ?ps * MAX_BLOCK_DATA"
    by (simp add: sum_list_triv)
  also have "\<dots> \<le> 8 * MAX_BLOCK_DATA" using mult_le_mono1 [OF len, of MAX_BLOCK_DATA] by simp
  finally show "length (paged_finalize pages root) \<le> 8 * MAX_BLOCK_DATA"
    unfolding data by (simp add: length_concat comp_def)
  show "0 < length (paged_finalize pages root)" unfolding data using each [of 0] by simp
qed

lemma pages_hold_get:
  assumes hold: "pages_hold pages css"
  obtains h where
    "heap_parse (paged_finalize pages root) (node_block_size (paged_finalize pages root)) = Inr h"
    and "hh_hid_user_root (hp_header h) = root mod 4294967296"
    and "\<And>b i. b < length css \<Longrightarrow> i < length (css ! b) \<Longrightarrow>
           heap_get h (b * 65536 + Suc i * 32) = Inr (css ! b ! i)"
proof -
  let ?data = "paged_finalize pages root"
  from hold have ne: "pages \<noteq> []" and le: "length pages \<le> 8" by (simp_all add: pages_hold_def)
  from pages_hold_bytes [OF hold, of root] obtain p ps where fin0: "final_pages (p # ps) css"
    and data: "?data = concat (map pg_data (p \<lparr> pg_data := overwrite 4 (le_bytes 4 root) (pg_data p) \<rparr> # ps))" .
  let ?p = "p \<lparr> pg_data := overwrite 4 (le_bytes 4 root) (pg_data p) \<rparr>"
  note root = final_pages_root [OF fin0]
  have fin: "final_pages (?p # ps) css" by (rule root(1))
  have app: "?data = pg_data ?p @ concat (map pg_data ps)" using data by simp
  have len: "length css = length (?p # ps)" and le': "length css \<le> 8"
    using fin pages_hold_length [OF hold] le by (simp_all add: final_pages_def)
  note dn = final_pages_done [OF fin]
  have first: "page_done 12 p (css ! 0)" using final_pages_done [OF fin0, of 0] by (simp add: header_size_of_def)
  have len18: "18 \<le> length (pg_data ?p)" using root(2) by simp
  have sig: "?data ! 2 = 236"
    using page_done_sig [OF page_done_root(1) [OF first, of root]] len18 by (simp add: app nth_append)
  have rt: "read_u32 4 ?data = root mod 4294967296" and map0: "read_u16 0 ?data = read_u16 0 (pg_data ?p)"
    using page_done_root(3) [OF first, of root] len18 unfolding app by (simp_all add: slice_simps)
  obtain h where h: "heap_parse ?data (node_block_size ?data) = Inr h" and fields: "hp_data h = ?data"
    "hp_block_size h = node_block_size ?data" "hh_ib_hnpm (hp_header h) = read_u16 0 (pg_data ?p)"
    "hh_hid_user_root (hp_header h) = root mod 4294967296"
    using sig rt map0 len18 by (simp add: heap_parse_def app Let_def)
  have get: "heap_get h (b * 65536 + Suc i * 32) = Inr (css ! b ! i)"
    if b: "b < length css" and i: "i < length (css ! b)" for b i
  proof -
    let ?blk = "pg_data ((?p # ps) ! b)"
    have b': "b < length (?p # ps)" using b len by simp
    note pl = page_done_length [OF dn [OF b']] and slice = final_pages_slice [OF fin b' data]
    have "heap_get h (b * 65536 + Suc i * 32) = try_then (heap_map_offset h b ?blk)
        (\<lambda>off. heap_page_get (b * 65536 + Suc i * 32) ?blk off (Suc i))"
      using b i le' pl slice by (intro heap_get_hid) (simp_all only: fields, simp_all)
    moreover have "heap_map_offset h b ?blk = Inr (read_u16 0 ?blk)"
      using pl fields(3) by (cases b) (simp_all add: heap_map_offset_def)
    ultimately show ?thesis
      using page_done_get [OF dn [OF b'] i header_size_of_pos] by simp
  qed
  from that [OF h fields(4) get] show thesis .
qed

subsection \<open>The allocation interface\<close>

definition paged_map :: "bytes list list \<Rightarrow> Hid \<rightharpoonup> bytes" where
  "paged_map css hid =
     (let b = hid div 65536; i = hid div 32 mod 2048
      in if hid mod 32 = 0 \<and> 0 < i \<and> b < length css \<and> i \<le> length (css ! b)
         then Some (css ! b ! (i - 1)) else None)"

definition paged_maps :: "PagedHeapBuilder \<Rightarrow> (Hid \<rightharpoonup> bytes) \<Rightarrow> bool" where
  "paged_maps pages m \<longleftrightarrow> (\<exists>css. pages_hold pages css \<and> m = paged_map css)"

lemma paged_hid:
  assumes "i < 2047"
  shows "(b * 65536 + Suc i * 32) div 65536 = b" and "(b * 65536 + Suc i * 32) div 32 mod 2048 = Suc i"
    and "(b * 65536 + Suc i * 32) mod 32 = 0"
proof -
  show "(b * 65536 + Suc i * 32) div 65536 = b" using assms by simp
  have "(b * 65536 + Suc i * 32) div 32 = b * 2048 + Suc i" by simp
  moreover have "(b * 2048 + Suc i) mod 2048 = Suc i" using assms by (simp add: mod_less)
  ultimately show "(b * 65536 + Suc i * 32) div 32 mod 2048 = Suc i" by (simp only:)
  have "b * 65536 + Suc i * 32 = (b * 2048 + Suc i) * 32" by simp
  then show "(b * 65536 + Suc i * 32) mod 32 = 0" by (simp only: mod_mult_self2_is_0)
qed

lemma hid_decompose:
  fixes hid :: nat
  assumes "hid mod 32 = 0"
  shows "hid = hid div 65536 * 65536 + (hid div 32 mod 2048) * 32"
proof -
  from assms obtain q where q: "hid = 32 * q" by auto
  have "hid div 65536 = q div 2048" unfolding q using div_mult_mult1 [of 32 q 2048] by simp
  moreover have "hid div 32 = q" unfolding q by simp
  moreover have "32 * q = q div 2048 * 65536 + q mod 2048 * 32"
    using div_mult_mod_eq [of q 2048] by linarith
  ultimately show ?thesis unfolding q by simp
qed

lemma paged_map_Some:
  assumes "\<forall>cs\<in>set css. length cs \<le> 2047"
  shows "paged_map css hid = Some bs \<longleftrightarrow>
    (\<exists>b i. b < length css \<and> i < length (css ! b) \<and> hid = b * 65536 + Suc i * 32 \<and> bs = css ! b ! i)"
proof
  assume "paged_map css hid = Some bs"
  then have h: "hid mod 32 = 0" "0 < hid div 32 mod 2048" "hid div 65536 < length css"
    "hid div 32 mod 2048 \<le> length (css ! (hid div 65536))"
    "bs = css ! (hid div 65536) ! (hid div 32 mod 2048 - 1)"
    by (auto simp: paged_map_def Let_def split: if_splits)
  obtain i where i: "hid div 32 mod 2048 = Suc i" using h(2) by (cases "hid div 32 mod 2048") auto
  with hid_decompose [OF h(1)] have "hid = hid div 65536 * 65536 + Suc i * 32" by simp
  moreover have "i < length (css ! (hid div 65536))" "bs = css ! (hid div 65536) ! i"
    using h i by simp_all
  ultimately show "\<exists>b i. b < length css \<and> i < length (css ! b) \<and> hid = b * 65536 + Suc i * 32 \<and> bs = css ! b ! i"
    using h(3) by blast
next
  assume "\<exists>b i. b < length css \<and> i < length (css ! b) \<and> hid = b * 65536 + Suc i * 32 \<and> bs = css ! b ! i"
  then obtain b i where b: "b < length css" "i < length (css ! b)" "hid = b * 65536 + Suc i * 32"
    "bs = css ! b ! i" by blast
  then have "i < 2047" using assms by (meson le_trans less_le_trans nth_mem)
  note parts = paged_hid [OF this, of b]
  from b show "paged_map css hid = Some bs" unfolding paged_map_def Let_def b(3) parts by simp
qed

lemma pages_hold_short: "pages_hold pages css \<Longrightarrow> \<forall>cs\<in>set css. length cs \<le> 2047"
  using pages_hold_nth(2) by (fastforce simp: in_set_conv_nth)

lemma map_eqI: "(\<And>k v. m k = Some v \<longleftrightarrow> n k = Some v) \<Longrightarrow> m = n"
  by (rule ext) (metis not_Some_eq)

lemma paged_map_new_page: "paged_map (css @ [[]]) = paged_map css"
  by (auto simp: paged_map_def fun_eq_iff nth_append Let_def)

lemma paged_map_snoc:
  assumes "css \<noteq> []" and "\<forall>cs\<in>set css. length cs \<le> 2047" and "length (last css) < 2047"
  shows "paged_map (butlast css @ [last css @ [bs]]) =
    (paged_map css)((length css - 1) * 65536 + Suc (length (last css)) * 32 \<mapsto> bs)"
    and "paged_map css ((length css - 1) * 65536 + Suc (length (last css)) * 32) = None"
proof -
  obtain ds d where css: "css = ds @ [d]" using assms(1) by (cases css rule: rev_cases) auto
  let ?hid = "length ds * 65536 + Suc (length d) * 32"
  have d: "length d < 2047" using assms(3) css by simp
  note parts = paged_hid [OF d, of "length ds"]
  have "paged_map (ds @ [d @ [bs]]) hid = ((paged_map (ds @ [d]))(?hid \<mapsto> bs)) hid" for hid
  proof (cases "hid = ?hid")
    case True
    then show ?thesis unfolding paged_map_def Let_def by (simp only: parts) (simp add: nth_append)
  next
    case False
    have "hid div 65536 = length ds \<and> hid mod 32 = 0 \<and> hid div 32 mod 2048 = Suc (length d) \<Longrightarrow> hid = ?hid"
      using hid_decompose [of hid] by simp
    with False show ?thesis
      by (auto simp: paged_map_def Let_def nth_append le_Suc_eq)
  qed
  then show "paged_map (butlast css @ [last css @ [bs]]) =
      (paged_map css)((length css - 1) * 65536 + Suc (length (last css)) * 32 \<mapsto> bs)"
    by (intro ext) (simp add: css)
  show "paged_map css ((length css - 1) * 65536 + Suc (length (last css)) * 32) = None"
    unfolding css by (simp only: paged_map_def Let_def length_append_singleton diff_Suc_1 last_snoc parts)
      (simp add: nth_append)
qed

lemma paged_map_update:
  assumes "\<forall>cs\<in>set css. length cs \<le> 2047" and "b < length css" and "i < length (css ! b)"
  shows "paged_map (css[b := (css ! b)[i := x]]) = (paged_map css)(b * 65536 + Suc i * 32 \<mapsto> x)"
proof (rule map_eqI)
  fix hid v
  have i: "i < 2047" using assms by (meson le_trans less_le_trans nth_mem)
  have short: "\<forall>cs\<in>set (css[b := (css ! b)[i := x]]). length cs \<le> 2047"
    using assms by (fastforce simp: in_set_conv_nth nth_list_update)
  have hid_inj: "b' = b \<and> i' = i" if "b' * 65536 + Suc i' * 32 = b * 65536 + Suc i * 32"
    "b' < length css" "i' < length (css ! b')" for b' i'
  proof -
    have "i' < 2047" using that assms(1) by (meson le_trans less_le_trans nth_mem)
    from paged_hid(1,2) [OF this, of b'] paged_hid(1,2) [OF i, of b] show ?thesis
      unfolding that(1) by simp
  qed
  let ?css = "css[b := (css ! b)[i := x]]"
  have same: "length (?css ! b') = length (css ! b')"
    "?css ! b' ! i' = (if b' = b \<and> i' = i then x else css ! b' ! i')"
    if "b' < length css" and "i' < length (css ! b')" for b' i'
    using that assms(2) by (auto simp: nth_list_update)
  have "paged_map ?css hid = Some v \<longleftrightarrow> (\<exists>b' i'. b' < length css \<and> i' < length (css ! b') \<and>
      hid = b' * 65536 + Suc i' * 32 \<and> v = (if b' = b \<and> i' = i then x else css ! b' ! i'))"
    unfolding paged_map_Some [OF short] using same assms(2)
    by (metis length_list_update nth_list_update_eq nth_list_update_neq)
  also have "\<dots> \<longleftrightarrow> ((paged_map css)(b * 65536 + Suc i * 32 \<mapsto> x)) hid = Some v"
  proof (cases "hid = b * 65536 + Suc i * 32")
    case True
    then show ?thesis using hid_inj assms(2,3) by auto
  next
    case False
    then show ?thesis using paged_map_Some [OF assms(1), of hid v] by auto
  qed
  finally show "paged_map ?css hid = Some v \<longleftrightarrow>
      ((paged_map css)(b * 65536 + Suc i * 32 \<mapsto> x)) hid = Some v" .
qed

lemma paged_maps_alloc:
  assumes "paged_maps pages m" and "paged_try_alloc pages bs = Inr (hid, pages')"
  shows "m hid = None \<and> hid \<noteq> 0 \<and> hid < 2 ^ 32 \<and> paged_maps pages' (m(hid \<mapsto> bs))"
proof -
  from assms(1) obtain css where css: "pages_hold pages css" "m = paged_map css"
    by (auto simp: paged_maps_def)
  from pages_hold_alloc [OF css(1) assms(2)] obtain css' where
    css': "css' = css \<or> css' = css @ [[]]"
    and hid: "hid = (length css' - 1) * 65536 + Suc (length (last css')) * 32"
    and holds: "pages_hold pages' (butlast css' @ [last css' @ [bs]])" by blast
  from css(1) css' have ne: "css' \<noteq> []" by (auto simp: pages_hold_def)
  have eq: "paged_map css' = m" using css' css(2) paged_map_new_page by auto
  have short: "\<forall>cs\<in>set css'. length cs \<le> 2047"
    using pages_hold_short [OF css(1)] css' by auto
  have last: "length (last css') < 2047" using pages_hold_short [OF holds] by simp
  note snoc = paged_map_snoc [OF ne short last]
  have "length (butlast css' @ [last css' @ [bs]]) \<le> 8"
    using holds pages_hold_length [OF holds] by (simp add: pages_hold_def)
  then have "hid < 2 ^ 32" using hid last by simp
  moreover have "paged_maps pages' (m(hid \<mapsto> bs))"
    using holds snoc(1) unfolding paged_maps_def eq hid by metis
  ultimately show ?thesis using snoc(2) hid unfolding eq by simp
qed

lemma paged_maps_patch:
  assumes "paged_maps pages m" and "m hid = Some bs" and "off + 4 \<le> length bs"
  shows "\<exists>pages'. paged_patch_u32 pages hid off v = Inr pages' \<and>
    paged_maps pages' (m(hid \<mapsto> overwrite off (le_bytes 4 v) bs))"
proof -
  from assms(1) obtain css where css: "pages_hold pages css" "m = paged_map css"
    by (auto simp: paged_maps_def)
  note short = pages_hold_short [OF css(1)]
  from assms(2) css(2) paged_map_Some [OF short] obtain b i where
    b: "b < length css" "i < length (css ! b)" "hid = b * 65536 + Suc i * 32" "bs = css ! b ! i" by auto
  from pages_hold_patch [OF css(1) b(1,2)] assms(3) b obtain pages' where
    "paged_patch_u32 pages hid off v = Inr pages'"
    "pages_hold pages' (css[b := (css ! b)[i := overwrite off (le_bytes 4 v) bs]])" by auto
  with paged_map_update [OF short b(1,2)] show ?thesis
    unfolding paged_maps_def css(2) b(3) by metis
qed

interpretation paged: heap_builder paged_maps paged_try_alloc paged_patch_u32
  using paged_maps_alloc paged_maps_patch by unfold_locales blast+

lemma paged_maps_new: "paged_maps (paged_new sig) Map.empty"
  unfolding paged_maps_def
  by (rule exI [where x = "[[]]"]) (auto simp: pages_hold_new paged_map_def fun_eq_iff Let_def)

lemma paged_maps_size:
  assumes "paged_maps pages m"
  shows "0 < length (paged_finalize pages root)" and "length (paged_finalize pages root) \<le> 8 * MAX_BLOCK_DATA"
  using assms pages_hold_size by (auto simp only: paged_maps_def)

lemma paged_maps_get:
  assumes "paged_maps pages m"
  obtains h where
    "heap_parse (paged_finalize pages root) (node_block_size (paged_finalize pages root)) = Inr h"
    and "hh_hid_user_root (hp_header h) = root mod 4294967296"
    and "\<And>hid bs. m hid = Some bs \<Longrightarrow> heap_get h hid = Inr bs"
proof -
  from assms obtain css where css: "pages_hold pages css" "m = paged_map css"
    by (auto simp: paged_maps_def)
  from pages_hold_get [OF css(1), of root] obtain h where h:
    "heap_parse (paged_finalize pages root) (node_block_size (paged_finalize pages root)) = Inr h"
    "hh_hid_user_root (hp_header h) = root mod 4294967296"
    and get: "\<And>b i. b < length css \<Longrightarrow> i < length (css ! b) \<Longrightarrow>
           heap_get h (b * 65536 + Suc i * 32) = Inr (css ! b ! i)" by blast
  have "heap_get h hid = Inr bs" if "m hid = Some bs" for hid bs
    using that get css(2) paged_map_Some [OF pages_hold_short [OF css(1)]] by auto
  from that [OF h this] show thesis .
qed

text \<open>
  The paged heaps that can be built, with the bytes each identifier holds.
\<close>

inductive paged_built :: "byte \<Rightarrow> PagedHeapBuilder \<Rightarrow> (Hid \<rightharpoonup> bytes) \<Rightarrow> bool" for sig where
  new: "paged_built sig (paged_new sig) Map.empty"
| alloc: "paged_built sig pages m \<Longrightarrow> paged_try_alloc pages bs = Inr (hid, pages') \<Longrightarrow>
    paged_built sig pages' (m(hid \<mapsto> bs))"
| patch: "paged_built sig pages m \<Longrightarrow> m hid = Some bs \<Longrightarrow> off + 4 \<le> length bs \<Longrightarrow>
    paged_patch_u32 pages hid off v = Inr pages' \<Longrightarrow>
    paged_built sig pages' (m(hid \<mapsto> overwrite off (le_bytes 4 v) bs))"

lemma paged_built_maps: "paged_built sig pages m \<Longrightarrow> paged_maps pages m"
proof (induction rule: paged_built.induct)
  case (alloc pages m bs hid pages')
  then show ?case using paged.alloc_holds by blast
next
  case (patch pages m hid bs off v pages')
  then show ?case using paged.patch_holds by (metis sum.inject(2))
qed (rule paged_maps_new)

text \<open>
  C10: a heap of many pages is read back as it was written. Every allocation gets an identifier not
  used before, whatever pages were opened meanwhile, and after finalisation the reader finds the
  root and, under every identifier, the bytes as last patched.
\<close>

theorem paged_heap_roundtrip:
  assumes "paged_built sig pages m"
  shows "(\<forall>bs hid pages'. paged_try_alloc pages bs = Inr (hid, pages') \<longrightarrow> m hid = None) \<and>
    (\<exists>h. heap_parse (paged_finalize pages root) (node_block_size (paged_finalize pages root)) = Inr h \<and>
       hh_hid_user_root (hp_header h) = root mod 4294967296 \<and>
       (\<forall>hid bs. m hid = Some bs \<longrightarrow> heap_get h hid = Inr bs))"
proof (intro conjI allI impI)
  note maps = paged_built_maps [OF assms]
  fix bs hid pages' assume "paged_try_alloc pages bs = Inr (hid, pages')"
  with paged.alloc_holds [OF maps] show "m hid = None" by blast
next
  from paged_maps_get [OF paged_built_maps [OF assms], of root]
  show "\<exists>h. heap_parse (paged_finalize pages root) (node_block_size (paged_finalize pages root)) = Inr h \<and>
       hh_hid_user_root (hp_header h) = root mod 4294967296 \<and>
       (\<forall>hid bs. m hid = Some bs \<longrightarrow> heap_get h hid = Inr bs)" by metis
qed

lemma paged_heap_roundtrip_witness:
  "\<exists>hid pages h. paged_built 124 pages [hid \<mapsto> [1, 2, 3]] \<and>
     heap_parse (paged_finalize pages hid) (node_block_size (paged_finalize pages hid)) = Inr h \<and>
     heap_get h hid = Inr [1, 2, 3]"
proof -
  obtain hid pages where "paged_try_alloc (paged_new 124) [1, 2, 3] = Inr (hid, pages)"
    by (simp add: paged_try_alloc_def paged_room_def paged_last_fits_def page_fits_def
        page_projected_len_def paged_new_def page_page0_def MAX_BLOCK_DATA_def Let_def)
  from paged_built.alloc [OF paged_built.new this]
  have built: "paged_built 124 pages [hid \<mapsto> [1, 2, 3]]" .
  from paged_heap_roundtrip [OF this, of hid] obtain h where
    "heap_parse (paged_finalize pages hid) (node_block_size (paged_finalize pages hid)) = Inr h"
    "heap_get h hid = Inr [1, 2, 3]" by fastforce
  with built show ?thesis by blast
qed

end
