(* ===== verification/Bth.thy ===== *)
theory Bth
  imports Heap_Pages
begin

text \<open>
  B-trees on a heap: the reader (\<^verbatim>\<open>pst-reader/src/ltp/bth.rs\<close>), and the writer's builders
  (\<^verbatim>\<open>build_bth_checked\<close>, \<^verbatim>\<open>build_bth_u32_checked\<close> in \<^verbatim>\<open>pst-writer/src/production.rs\<close>). The
  writer's trait \<^verbatim>\<open>HeapTryAlloc\<close> is a locale, interpreted by both heap builders. The bound checks
  inside the reader's loops cannot fire, because the number of passes is the length of the data
  divided by the record size.
\<close>

subsection \<open>The reader\<close>

record BthHeader =
  bt_b_type :: nat
  bt_cb_key :: nat
  bt_cb_ent :: nat
  bt_b_idx_levels :: nat
  bt_hid_root :: Hid

record BthRecord =
  br_key :: bytes
  br_data :: bytes

definition read_bth_header :: "Heap \<Rightarrow> Hid \<Rightarrow> PstError + BthHeader" where
  "read_bth_header heap hid = try_then (heap_get heap hid)
     (\<lambda>data. if length data < 8 then Inl (PeDataTruncated 8 (length data))
        else
          let b_type = unat (data ! 0)
          in if b_type \<noteq> 181 then Inl (PeInvalidBthType b_type)
             else Inr \<lparr> bt_b_type = b_type, bt_cb_key = unat (data ! 1), bt_cb_ent = unat (data ! 2),
                        bt_b_idx_levels = unat (data ! 3), bt_hid_root = read_u32 4 data \<rparr>)"

definition leaf_record :: "BthHeader \<Rightarrow> bytes \<Rightarrow> nat \<Rightarrow> BthRecord" where
  "leaf_record header data i =
     (let record_size = bt_cb_key header + bt_cb_ent header; offset = i * record_size
      in \<lparr> br_key = slice_of offset (offset + bt_cb_key header) data,
           br_data = slice_of (offset + bt_cb_key header) (offset + record_size) data \<rparr>)"

definition index_child :: "BthHeader \<Rightarrow> bytes \<Rightarrow> nat \<Rightarrow> Hid" where
  "index_child header data i = read_u32 (i * (bt_cb_key header + 4) + bt_cb_key header) data"

definition index_key :: "BthHeader \<Rightarrow> bytes \<Rightarrow> nat \<Rightarrow> bytes" where
  "index_key header data i =
     (let offset = i * (bt_cb_key header + 4) in slice_of offset (offset + bt_cb_key header) data)"

fun collect_level ::
  "Heap \<Rightarrow> BthHeader \<Rightarrow> Hid \<Rightarrow> nat \<Rightarrow> BthRecord list \<Rightarrow> PstError + BthRecord list" where
  "collect_level heap header hid 0 records = try_then (heap_get heap hid)
     (\<lambda>data.
        let record_size = bt_cb_key header + bt_cb_ent header
        in if record_size = 0 then Inr records
           else Inr (records @ map (leaf_record header data) [0..<length data div record_size]))"
| "collect_level heap header hid (Suc level) records = try_then (heap_get heap hid)
     (\<lambda>data. try_fold (\<lambda>i. collect_level heap header (index_child header data i) level)
        [0..<length data div (bt_cb_key header + 4)] records)"

definition collect_records :: "Heap \<Rightarrow> BthHeader \<Rightarrow> PstError + BthRecord list" where
  "collect_records heap header =
     (if hid_is_null (bt_hid_root header) then Inr []
      else collect_level heap header (bt_hid_root header) (bt_b_idx_levels header) [])"

definition best_child :: "BthHeader \<Rightarrow> bytes \<Rightarrow> bytes \<Rightarrow> Hid option" where
  "best_child header data search_key =
     (let below = takeWhile (\<lambda>i. index_key header data i \<le> search_key)
                    [0..<length data div (bt_cb_key header + 4)]
      in if below = [] then None else Some (index_child header data (last below)))"

fun lookup_level :: "Heap \<Rightarrow> BthHeader \<Rightarrow> Hid \<Rightarrow> nat \<Rightarrow> bytes \<Rightarrow> PstError + bytes option" where
  "lookup_level heap header hid 0 search_key = try_then (heap_get heap hid)
     (\<lambda>data.
        let record_size = bt_cb_key header + bt_cb_ent header
        in if record_size = 0 then Inr None
           else Inr (map_option br_data (find (\<lambda>r. br_key r = search_key)
                  (map (leaf_record header data) [0..<length data div record_size]))))"
| "lookup_level heap header hid (Suc level) search_key = try_then (heap_get heap hid)
     (\<lambda>data. case best_child header data search_key of
        Some child \<Rightarrow> lookup_level heap header child level search_key
      | None \<Rightarrow> Inr None)"

definition bth_lookup :: "Heap \<Rightarrow> BthHeader \<Rightarrow> bytes \<Rightarrow> PstError + bytes option" where
  "bth_lookup heap header search_key =
     (if hid_is_null (bt_hid_root header) then Inr None
      else lookup_level heap header (bt_hid_root header) (bt_b_idx_levels header) search_key)"

subsection \<open>The writer\<close>

definition bth_header_bytes :: "nat \<Rightarrow> nat \<Rightarrow> bytes" where
  "bth_header_bytes cb_key cb_ent = [181, word_of_nat cb_key, word_of_nat cb_ent, 0] @ le_bytes 4 0"

definition build_bth_checked ::
  "HeapBuilder \<Rightarrow> nat \<Rightarrow> nat \<Rightarrow> (nat \<times> bytes) list \<Rightarrow> WriterError + Hid \<times> HeapBuilder" where
  "build_bth_checked heap cb_key cb_ent records =
     (let sorted = sort_key fst records
      in try_then (heap_try_alloc heap (bth_header_bytes cb_key cb_ent)) (\<lambda>(hid_root, heap).
         let leaf_data = concat (map (\<lambda>(key, data). le_bytes 2 key @ data) sorted)
         in try_then (heap_try_alloc heap leaf_data) (\<lambda>(hid_leaf, heap).
            try_then (heap_patch_u32 heap hid_root 4 hid_leaf) (\<lambda>heap. Inr (hid_root, heap)))))"

definition u32_leaf_entry ::
  "nat \<Rightarrow> nat \<Rightarrow> u32 \<times> bytes \<Rightarrow> bytes \<Rightarrow> WriterError + bytes" where
  "u32_leaf_entry cb_key cb_ent kd leaf =
     (case kd of (key, data) \<Rightarrow>
        let key_bytes = le_bytes 4 key;
            leaf' = (if cb_key \<le> length key_bytes then leaf @ take cb_key key_bytes
                     else resize (length (leaf @ key_bytes) + (cb_key - 4)) 0 (leaf @ key_bytes))
        in if length data \<noteq> cb_ent
           then Inl (WeLayout (lit ''build_bth_u32_checked: record data len '' @ show_nat (length data) @
                  lit '' != cb_ent '' @ show_nat cb_ent))
           else Inr (leaf' @ data))"

definition build_bth_u32_checked ::
  "('h \<Rightarrow> bytes \<Rightarrow> WriterError + Hid \<times> 'h) \<Rightarrow> ('h \<Rightarrow> Hid \<Rightarrow> usize \<Rightarrow> u32 \<Rightarrow> WriterError + 'h) \<Rightarrow>
   'h \<Rightarrow> nat \<Rightarrow> nat \<Rightarrow> (u32 \<times> bytes) list \<Rightarrow> WriterError + Hid \<times> 'h" where
  "build_bth_u32_checked try_alloc patch_u32 heap cb_key cb_ent records =
     (if cb_key < 4
      then Inl (WeLayout (lit ''build_bth_u32_checked: cb_key='' @ show_nat cb_key @
             lit '' must be >= 4 for u32 row-id keys''))
      else if cb_ent = 0
      then Inl (WeLayout (lit ''build_bth_u32_checked: cb_ent must be non-zero''))
      else
        let sorted = sort_key fst records
        in try_then (try_alloc heap (bth_header_bytes cb_key cb_ent)) (\<lambda>(hid_root, heap).
           try_then (try_fold (u32_leaf_entry cb_key cb_ent) sorted []) (\<lambda>leaf_data.
           try_then (try_alloc heap leaf_data) (\<lambda>(hid_leaf, heap).
           try_then (patch_u32 heap hid_root 4 hid_leaf) (\<lambda>heap. Inr (hid_root, heap))))))"

subsection \<open>What the builders leave in the heap\<close>

context heap_builder
begin

lemma alloc_extends:
  "holds h m \<Longrightarrow> try_alloc h bs = Inr (hid, h') \<Longrightarrow>
    \<exists>m'. holds h' m' \<and> m \<subseteq>\<^sub>m m' \<and> m' hid = Some bs \<and> m hid = None \<and> hid \<noteq> 0 \<and> hid < 2 ^ 32"
  using alloc_holds [of h m bs hid h'] by (auto simp: map_le_def intro!: exI [where x = "m(hid \<mapsto> bs)"])

lemma bth_block:
  assumes "holds h m" and "try_alloc h hdr = Inr (r, h1)" and "try_alloc h1 leaf = Inr (l, h2)"
    and "length hdr = 8"
  shows "\<exists>h3 m3. patch_u32 h2 r 4 l = Inr h3 \<and> holds h3 m3 \<and> m \<subseteq>\<^sub>m m3 \<and>
    m3 r = Some (overwrite 4 (le_bytes 4 l) hdr) \<and> m3 l = Some leaf \<and> l \<noteq> 0 \<and> l < 2 ^ 32"
proof -
  from alloc_holds [OF assms(1,2)] have r: "m r = None" and h1: "holds h1 (m(r \<mapsto> hdr))" by simp_all
  from alloc_holds [OF h1 assms(3)] have l: "(m(r \<mapsto> hdr)) l = None" "l \<noteq> 0" "l < 2 ^ 32"
    and h2: "holds h2 (m(r \<mapsto> hdr, l \<mapsto> leaf))" by simp_all
  from l(1) have neq: "l \<noteq> r" by auto
  let ?m = "m(r \<mapsto> hdr, l \<mapsto> leaf)" and ?hdr = "overwrite 4 (le_bytes 4 l) hdr"
  from neq have "?m r = Some hdr" by simp
  from patch_holds [OF h2 this, of 4 l] assms(4) obtain h3 where
    "patch_u32 h2 r 4 l = Inr h3" "holds h3 (?m(r \<mapsto> ?hdr))" by (metis eq_refl numeral_Bit0)
  moreover have "m \<subseteq>\<^sub>m ?m(r \<mapsto> ?hdr)"
    using r l(1) by (auto simp: map_le_def split: if_splits)
  ultimately show ?thesis using neq l(2,3) by (metis fun_upd_apply)
qed

end

lemma length_bth_header [simp]: "length (bth_header_bytes k e) = 8"
  by (simp add: bth_header_bytes_def)

lemma read_built_header:
  assumes "heap_get h r = Inr (overwrite 4 (le_bytes 4 l) (bth_header_bytes k e))"
    and "k < 256" and "e < 256" and "l < 2 ^ 32"
  shows "read_bth_header h r = Inr \<lparr> bt_b_type = 181, bt_cb_key = k, bt_cb_ent = e,
    bt_b_idx_levels = 0, bt_hid_root = l \<rparr>"
proof -
  have "overwrite 4 (le_bytes 4 l) (bth_header_bytes k e) =
      [181, word_of_nat k, word_of_nat e, 0] @ le_bytes 4 l"
    unfolding bth_header_bytes_def by (subst overwrite_beyond) (simp_all del: append.simps add: overwrite_all)
  moreover have "unat (word_of_nat k :: byte) = k" "unat (word_of_nat e :: byte) = e"
    using assms(2,3) by (simp_all add: unat_of_nat)
  ultimately show ?thesis
    using assms by (simp add: read_bth_header_def Let_def slice_simps del: append.simps)
      (simp add: nth_append)
qed

text \<open>Leaf data written as records of one width is read as those records.\<close>

lemma leaf_record_nth:
  assumes "i < length recs" and "\<forall>(key, data)\<in>set recs. length key = bt_cb_key hdr \<and> length data = bt_cb_ent hdr"
  shows "leaf_record hdr (concat (map (\<lambda>(key, data). key @ data) recs)) i =
    \<lparr> br_key = fst (recs ! i), br_data = snd (recs ! i) \<rparr>"
proof -
  let ?w = "bt_cb_key hdr + bt_cb_ent hdr"
  let ?data = "concat (map (\<lambda>(key, data). key @ data) recs)"
  have w: "\<forall>xs\<in>set (map (\<lambda>(key, data). key @ data) recs). length xs = ?w"
    using assms(2) by auto
  have i: "fst (recs ! i) @ snd (recs ! i) = slice_of (i * ?w) (i * ?w + ?w) ?data"
    using slice_concat [OF _ w, of i] assms(1) by (simp add: case_prod_unfold)
  have len: "length (fst (recs ! i)) = bt_cb_key hdr" "length (snd (recs ! i)) = bt_cb_ent hdr"
    using assms nth_mem [OF assms(1)] by (cases "recs ! i"; fastforce)+
  have "slice_of (i * ?w) (i * ?w + bt_cb_key hdr) ?data =
      slice_of 0 (bt_cb_key hdr) (slice_of (i * ?w) (i * ?w + ?w) ?data)"
    by (simp add: slice_slice)
  moreover have "slice_of (i * ?w + bt_cb_key hdr) (i * ?w + ?w) ?data =
      slice_of (bt_cb_key hdr) ?w (slice_of (i * ?w) (i * ?w + ?w) ?data)"
    by (simp add: slice_slice)
  ultimately show ?thesis
    using len unfolding leaf_record_def Let_def i [symmetric]
    by (simp add: slice_append1 slice_append2 take_slice)
qed

lemma collect_leaf:
  assumes "heap_get h (bt_hid_root hdr) = Inr (concat (map (\<lambda>(key, data). key @ data) recs))"
    and "\<forall>(key, data)\<in>set recs. length key = bt_cb_key hdr \<and> length data = bt_cb_ent hdr"
    and "bt_b_idx_levels hdr = 0" and "0 < bt_cb_key hdr" and "bt_hid_root hdr \<noteq> 0"
  shows "collect_records h hdr = Inr (map (\<lambda>(key, data). \<lparr> br_key = key, br_data = data \<rparr>) recs)"
proof -
  let ?w = "bt_cb_key hdr + bt_cb_ent hdr"
  let ?data = "concat (map (\<lambda>(key, data). key @ data) recs)"
  have "\<forall>xs\<in>set (map (\<lambda>(key, data). key @ data) recs). length xs = ?w"
    using assms(2) by auto
  then have "length ?data div ?w = length recs"
    using assms(4) length_concat_width [of "map (\<lambda>(key, data). key @ data) recs" ?w] by simp
  moreover have "map (leaf_record hdr ?data) [0..<length recs] =
      map (\<lambda>(key, data). \<lparr> br_key = key, br_data = data \<rparr>) recs"
    using leaf_record_nth [OF _ assms(2)] by (intro nth_equalityI) (auto simp: case_prod_unfold)
  ultimately show ?thesis
    using assms by (simp add: collect_records_def hid_is_null_def Let_def)
qed

lemma leaf_records_fst:
  "(\<lambda>(key, data). f key @ data) = (\<lambda>(key, data). key @ data) \<circ> map_prod f id"
  by (auto simp: fun_eq_iff)

text \<open>What the reader makes of a finished tree: its records, ordered by key.\<close>

definition bth_reads :: "Heap \<Rightarrow> Hid \<Rightarrow> nat \<Rightarrow> nat \<Rightarrow> (bytes \<times> bytes) list \<Rightarrow> bool" where
  "bth_reads h r k e recs \<longleftrightarrow>
     (\<exists>hdr. read_bth_header h r = Inr hdr \<and> bt_cb_key hdr = k \<and> bt_cb_ent hdr = e \<and>
        bt_b_idx_levels hdr = 0 \<and>
        collect_records h hdr = Inr (map (\<lambda>(key, data). \<lparr> br_key = key, br_data = data \<rparr>) recs))"

lemma bth_readsI:
  assumes "heap_get h r = Inr (overwrite 4 (le_bytes 4 l) (bth_header_bytes k e))"
    and "heap_get h l = Inr (concat (map (\<lambda>(key, data). key @ data) recs))"
    and "\<forall>(key, data)\<in>set recs. length key = k \<and> length data = e"
    and "0 < k" "k < 256" "e < 256" "l \<noteq> 0" "l < 2 ^ 32"
  shows "bth_reads h r k e recs"
  using read_built_header [OF assms(1,5,6,8)] collect_leaf [of h _ recs] assms
  unfolding bth_reads_def by (metis BthHeader.select_convs)

definition u32_key :: "nat \<Rightarrow> u32 \<Rightarrow> bytes" where
  "u32_key cb_key key = le_bytes 4 key @ replicate (cb_key - 4) 0"

lemma u32_leaf_entry_eq:
  "4 \<le> k \<Longrightarrow> u32_leaf_entry k e (key, data) leaf = Inr leaf' \<longleftrightarrow>
     length data = e \<and> leaf' = leaf @ u32_key k key @ data"
  by (auto simp: u32_leaf_entry_def u32_key_def resize_def Let_def)

lemma u32_leaf_fold:
  assumes "4 \<le> k"
  shows "try_fold (u32_leaf_entry k e) recs leaf = Inr leaf' \<longleftrightarrow>
    (\<forall>(key, data)\<in>set recs. length data = e) \<and>
    leaf' = leaf @ concat (map (\<lambda>(key, data). u32_key k key @ data) recs)"
proof (induction recs arbitrary: leaf)
  case (Cons r recs)
  obtain key data where r: "r = (key, data)" by (cases r)
  show ?case
    unfolding r try_fold.simps try_then_Inr u32_leaf_entry_eq [OF assms] using Cons by auto
qed auto

context heap_builder
begin

lemma built_bth:
  assumes "holds h m" and "try_alloc h (bth_header_bytes k e) = Inr (r, h1)"
    and "try_alloc h1 leaf = Inr (l, h2)" and "patch_u32 h2 r 4 l = Inr h3"
  obtains m' where "holds h3 m'" "m \<subseteq>\<^sub>m m'" "l \<noteq> 0" "l < 2 ^ 32"
    "m' r = Some (overwrite 4 (le_bytes 4 l) (bth_header_bytes k e))" "m' l = Some leaf"
  using bth_block [OF assms(1-3)] assms(4) by auto

lemma built_bth_u32:
  assumes "holds h m" and "build_bth_u32_checked try_alloc patch_u32 h k e recs = Inr (r, h')"
  obtains m' l where "holds h' m'" "m \<subseteq>\<^sub>m m'" "l \<noteq> 0" "l < 2 ^ 32" "4 \<le> k"
    "m' r = Some (overwrite 4 (le_bytes 4 l) (bth_header_bytes k e))"
    "m' l = Some (concat (map (\<lambda>(key, data). u32_key k key @ data) (sort_key fst recs)))"
    "\<forall>(key, data)\<in>set recs. length data = e"
proof -
  from assms(2) have k: "4 \<le> k" by (auto simp: build_bth_u32_checked_def split: if_splits)
  from assms(2) obtain h1 leaf l h2 where steps:
    "try_alloc h (bth_header_bytes k e) = Inr (r, h1)"
    "try_fold (u32_leaf_entry k e) (sort_key fst recs) [] = Inr leaf"
    "try_alloc h1 leaf = Inr (l, h2)" "patch_u32 h2 r 4 l = Inr h'"
    by (auto simp: build_bth_u32_checked_def Let_def try_then_Inr split: if_splits)
  from built_bth [OF assms(1) steps(1,3,4)] obtain m' where m': "holds h' m'" "m \<subseteq>\<^sub>m m'" "l \<noteq> 0"
    "l < 2 ^ 32" "m' r = Some (overwrite 4 (le_bytes 4 l) (bth_header_bytes k e))" "m' l = Some leaf" .
  from steps(2) have "leaf = concat (map (\<lambda>(key, data). u32_key k key @ data) (sort_key fst recs))"
    "\<forall>(key, data)\<in>set recs. length data = e"
    by (simp_all add: u32_leaf_fold [OF k])
  with that [OF m'(1-4) k m'(5)] m'(6) show thesis by simp
qed

end

lemma u32_records:
  "map (\<lambda>(key, data). u32_key k key @ data) recs =
    map (\<lambda>(key, data). key @ data) (map (map_prod (u32_key k) id) recs)"
  by (auto simp: case_prod_unfold)

lemma length_u32_key: "4 \<le> k \<Longrightarrow> length (u32_key k key) = k"
  by (simp add: u32_key_def)

lemma paged_maps_reads:
  assumes "paged_maps pages m"
  shows "\<exists>h. heap_parse (paged_finalize pages root) (node_block_size (paged_finalize pages root)) = Inr h \<and>
    hh_hid_user_root (hp_header h) = root mod 4294967296 \<and>
    (\<forall>hid bs. m hid = Some bs \<longrightarrow> heap_get h hid = Inr bs)"
  using paged_maps_get [OF assms, of root] by metis

text \<open>
  C15: the row index of a table is read back whatever heap it is built in. If the builder accepts
  the records, then in the finished heap the reader opens the tree at the identifier returned and
  collects exactly those records, ordered by their 32-bit key, each key extended by zeros to the
  key width; everything allocated before the tree is still readable.
\<close>

theorem bth_u32_roundtrip:
  assumes "paged_built sig pages m"
    and "build_bth_u32_checked paged_try_alloc paged_patch_u32 pages k e recs = Inr (r, pages')"
    and "k < 256" and "e < 256"
  shows "\<exists>h. heap_parse (paged_finalize pages' root) (node_block_size (paged_finalize pages' root)) = Inr h \<and>
    bth_reads h r k e (map (map_prod (u32_key k) id) (sort_key fst recs)) \<and>
    (\<forall>hid bs. m hid = Some bs \<longrightarrow> heap_get h hid = Inr bs)"
proof -
  from paged.built_bth_u32 [OF paged_built_maps [OF assms(1)] assms(2)] obtain m' l where m':
    "paged_maps pages' m'" "m \<subseteq>\<^sub>m m'" "l \<noteq> 0" "l < 2 ^ 32" "4 \<le> k"
    "m' r = Some (overwrite 4 (le_bytes 4 l) (bth_header_bytes k e))"
    "m' l = Some (concat (map (\<lambda>(key, data). u32_key k key @ data) (sort_key fst recs)))"
    "\<forall>(key, data)\<in>set recs. length data = e" .
  from paged_maps_reads [OF m'(1), of root] obtain h where h:
    "heap_parse (paged_finalize pages' root) (node_block_size (paged_finalize pages' root)) = Inr h"
    and get: "\<And>hid bs. m' hid = Some bs \<Longrightarrow> heap_get h hid = Inr bs" by blast
  let ?recs = "map (map_prod (u32_key k) id) (sort_key fst recs)"
  have "\<forall>(key, data)\<in>set ?recs. length key = k \<and> length data = e"
    using m'(5,8) by (auto simp: length_u32_key)
  from bth_readsI [OF get [OF m'(6)] get [OF m'(7) [unfolded u32_records]] this _ assms(3,4) m'(3,4)]
    m'(5) have "bth_reads h r k e ?recs" by simp
  moreover have "heap_get h hid = Inr bs" if "m hid = Some bs" for hid bs
    using get [of hid bs] that m'(2) by (auto simp: map_le_def dom_def)
  ultimately show ?thesis using h by blast
qed

lemma paged_alloc_single:
  "page_fits p (length bs) \<Longrightarrow>
    paged_try_alloc [p] bs = Inr (Suc (length (pg_allocations p)) * 32 mod 2 ^ 32,
      [p \<lparr> pg_data := pg_data p @ bs,
          pg_allocations := pg_allocations p @ [(length (pg_data p), length (pg_data p) + length bs)] \<rparr>])"
  by (simp add: paged_try_alloc_def paged_room_def paged_last_fits_def page_fits_def Let_def)

lemma bth_u32_roundtrip_witness:
  "\<exists>r pages h. build_bth_u32_checked paged_try_alloc paged_patch_u32 (paged_new 124) 4 1
       [(300, [7]), (2, [9])] = Inr (r, pages) \<and>
     heap_parse (paged_finalize pages r) (node_block_size (paged_finalize pages r)) = Inr h \<and>
     bth_reads h r 4 1 [([2, 0, 0, 0], [9]), ([44, 1, 0, 0], [7])]"
proof -
  let ?recs = "[(300, [7]), (2, [9])] :: (nat \<times> bytes) list"
  have sorted: "sort_key fst ?recs = [(2, [9]), (300, [7])]" by simp
  have keys: "map (map_prod (u32_key 4) id) (sort_key fst ?recs) = [([2, 0, 0, 0], [9]), ([44, 1, 0, 0], [7])]"
    unfolding sorted by (simp add: u32_key_def le_bytes_unfold)
  obtain p where p: "paged_try_alloc (paged_new 124) (bth_header_bytes 4 1) = Inr (32, [p])"
    and sizes: "length (pg_data p) = 20" "length (pg_allocations p) = 1"
    by (simp add: paged_alloc_single paged_new_def page_page0_def page_fits_def page_projected_len_def
        MAX_BLOCK_DATA_def)
  let ?leaf = "concat (map (\<lambda>(key, data). u32_key 4 key @ data) (sort_key fst ?recs))"
  have leaf: "try_fold (u32_leaf_entry 4 1) (sort_key fst ?recs) [] = Inr ?leaf" "length ?leaf = 10"
    unfolding u32_leaf_fold [OF order_refl] by (simp_all add: u32_key_def)
  obtain q where q: "paged_try_alloc [p] ?leaf = Inr (64, [q])"
    using sizes leaf(2) by (simp add: paged_alloc_single page_fits_def page_projected_len_def MAX_BLOCK_DATA_def)
  have "\<exists>r pages. build_bth_u32_checked paged_try_alloc paged_patch_u32 (paged_new 124) 4 1 ?recs = Inr (r, pages)"
    using paged.bth_block [OF paged_maps_new p q] leaf p q by (auto simp: build_bth_u32_checked_def)
  then obtain r pages where built: "build_bth_u32_checked paged_try_alloc paged_patch_u32 (paged_new 124) 4 1
      ?recs = Inr (r, pages)" by blast
  from bth_u32_roundtrip [OF paged_built.new this, of r] keys show ?thesis
    using built by auto
qed

lemma built_bth_checked:
  assumes "heap_maps hb m" and "build_bth_checked hb k e recs = Inr (r, hb')"
  obtains m' l where "heap_maps hb' m'" "m \<subseteq>\<^sub>m m'" "l \<noteq> 0" "l < 2 ^ 32"
    "m' r = Some (overwrite 4 (le_bytes 4 l) (bth_header_bytes k e))"
    "m' l = Some (concat (map (\<lambda>(key, data). key @ data) (map (map_prod (le_bytes 2) id) (sort_key fst recs))))"
proof -
  from assms(2) obtain h1 l h2 where steps:
    "heap_try_alloc hb (bth_header_bytes k e) = Inr (r, h1)"
    "heap_try_alloc h1 (concat (map (\<lambda>(key, data). le_bytes 2 key @ data) (sort_key fst recs))) = Inr (l, h2)"
    "heap_patch_u32 h2 r 4 l = Inr hb'"
    by (auto simp: build_bth_checked_def Let_def try_then_Inr)
  have "map (\<lambda>(key, data). le_bytes 2 key @ data) (sort_key fst recs) =
      map (\<lambda>(key, data). key @ data) (map (map_prod (le_bytes 2) id) (sort_key fst recs))"
    by (auto simp: case_prod_unfold)
  with single.built_bth [OF assms(1) steps] that show thesis by metis
qed

lemma heap_maps_small:
  assumes "heap_maps hb m" and "length (hb_allocations hb) \<le> 2047" and "m hid = Some bs"
  shows "hid < 65536"
proof -
  from assms(1) obtain cs where cs: "heap_holds hb cs" "m = single_map cs" by (auto simp: heap_maps_def)
  with assms(2) have "length cs \<le> 2047" using heap_allocations_length [OF cs(1)] by simp
  with assms(3) cs(2) show ?thesis by (auto simp: single_map_Some)
qed

lemma bth_checked_reads:
  assumes "heap_maps hb m" and "build_bth_checked hb 2 e recs = Inr (r, hb')"
    and "\<forall>(key, data)\<in>set recs. length data = e" and "e < 256" and "length (hb_allocations hb') \<le> 2047"
  obtains h where
    "heap_parse (fst (heap_finalize hb' root)) (length (fst (heap_finalize hb' root))) = Inr h"
    and "hh_hid_user_root (hp_header h) = root mod 4294967296"
    and "bth_reads h r 2 e (map (map_prod (le_bytes 2) id) (sort_key fst recs))"
    and "\<And>hid bs. m hid = Some bs \<Longrightarrow> heap_get h hid = Inr bs"
    and "r < 65536" and "length (fst (heap_finalize hb' root)) \<le> MAX_BLOCK_DATA"
proof -
  from built_bth_checked [OF assms(1,2)] obtain m' l where m':
    "heap_maps hb' m'" "m \<subseteq>\<^sub>m m'" "l \<noteq> 0" "l < 2 ^ 32"
    "m' r = Some (overwrite 4 (le_bytes 4 l) (bth_header_bytes 2 e))"
    "m' l = Some (concat (map (\<lambda>(key, data). key @ data) (map (map_prod (le_bytes 2) id) (sort_key fst recs))))" .
  note small = heap_maps_small [OF m'(1) assms(5)]
  from heap_maps_get [OF m'(1), of root] small obtain h where h:
    "heap_parse (fst (heap_finalize hb' root)) (length (fst (heap_finalize hb' root))) = Inr h"
    "hh_hid_user_root (hp_header h) = root mod 4294967296"
    and get: "\<And>hid bs. m' hid = Some bs \<Longrightarrow> heap_get h hid = Inr bs" by metis
  have "\<forall>(key, data)\<in>set (map (map_prod (le_bytes 2) id) (sort_key fst recs)). length key = 2 \<and> length data = e"
    using assms(3) by auto
  with bth_readsI [OF get [OF m'(5)] get [OF m'(6)]] m'(3,4) assms(4)
  have "bth_reads h r 2 e (map (map_prod (le_bytes 2) id) (sort_key fst recs))" by simp
  with that [OF h] get m'(2) small [OF m'(5)] heap_finalize_length [OF m'(1)] show thesis
    by (metis map_le_def domI)
qed

subsection \<open>Lookup\<close>

text \<open>
  On a tree without index levels, which is all the writer produces, the direct lookup is a
  search of the collected records.
\<close>

theorem bth_lookup_single_level:
  assumes "bt_b_idx_levels hdr = 0"
  shows "bth_lookup h hdr key =
    (case collect_records h hdr of Inl e \<Rightarrow> Inl e
     | Inr recs \<Rightarrow> Inr (map_option br_data (find (\<lambda>r. br_key r = key) recs)))"
proof (cases "hid_is_null (bt_hid_root hdr)")
  case False
  then show ?thesis
    by (cases "heap_get h (bt_hid_root hdr)")
      (simp_all add: bth_lookup_def collect_records_def assms Let_def)
qed (simp add: bth_lookup_def collect_records_def)

text \<open>A heap with a tree of one index level, in numeric order of its two keys, 1 and 256.\<close>

definition two_level_heap :: bytes where
  "two_level_heap =
     [40, 0, 236, 108, 32, 0, 0, 0, 0, 0, 0, 0] @
     [181, 2, 2, 1, 64, 0, 0, 0] @
     [1, 0, 96, 0, 0, 0] @ [0, 1, 128, 0, 0, 0] @
     [1, 0, 7, 7] @ [0, 1, 9, 9] @
     [4, 0, 0, 0, 12, 0, 20, 0, 32, 0, 36, 0, 40, 0]"

definition two_level :: Heap where
  "two_level = \<lparr> hp_data = two_level_heap, hp_block_size = 54,
     hp_header = \<lparr> hh_ib_hnpm = 40, hh_b_sig = 236, hh_b_client_sig = 108,
       hh_hid_user_root = 32, hh_rgb_fill_level = 0 \<rparr> \<rparr>"

lemma two_level_parse: "heap_parse two_level_heap (length two_level_heap) = Inr two_level"
  by (simp add: heap_parse_def two_level_heap_def two_level_def read_u16_def read_u32_def slice_of_def)

lemma two_level_get:
  "heap_get two_level 32 = Inr [181, 2, 2, 1, 64, 0, 0, 0]"
  "heap_get two_level 64 = Inr [1, 0, 96, 0, 0, 0, 0, 1, 128, 0, 0, 0]"
  "heap_get two_level 96 = Inr [1, 0, 7, 7]"
  "heap_get two_level 128 = Inr [0, 1, 9, 9]"
  by (simp_all add: heap_get_def two_level_def two_level_heap_def heap_map_offset_def heap_page_get_def
      hid_is_null_def hid_type_def hid_index_def hid_block_index_def read_u16_def slice_of_def)

lemma two_level_header:
  "read_bth_header two_level 32 = Inr \<lparr> bt_b_type = 181, bt_cb_key = 2, bt_cb_ent = 2,
     bt_b_idx_levels = 1, bt_hid_root = 64 \<rparr>"
  by (simp add: read_bth_header_def two_level_get read_u32_def slice_of_def)

text \<open>
  With one index level the direct lookup can miss a record that the traversal finds: keys are
  little-endian, so their byte-wise comparison does not follow their numeric order.
\<close>

theorem bth_lookup_misses:
  "\<exists>bytes h hdr recs key data. heap_parse bytes (length bytes) = Inr h \<and>
     read_bth_header h (hh_hid_user_root (hp_header h)) = Inr hdr \<and>
     collect_records h hdr = Inr recs \<and> sorted (map (of_le_bytes \<circ> br_key) recs) \<and>
     \<lparr> br_key = key, br_data = data \<rparr> \<in> set recs \<and> bth_lookup h hdr key = Inr None"
proof -
  let ?hdr = "\<lparr> bt_b_type = 181, bt_cb_key = 2, bt_cb_ent = 2, bt_b_idx_levels = 1, bt_hid_root = 64 \<rparr>"
  let ?recs = "[\<lparr> br_key = [1, 0], br_data = [7, 7] \<rparr>, \<lparr> br_key = [0, 1], br_data = [9, 9] \<rparr>] :: BthRecord list"
  have "hh_hid_user_root (hp_header two_level) = 32" by (simp add: two_level_def)
  then have "read_bth_header two_level (hh_hid_user_root (hp_header two_level)) = Inr ?hdr"
    by (simp add: two_level_header)
  moreover have "collect_records two_level ?hdr = Inr ?recs"
    by (simp add: collect_records_def hid_is_null_def two_level_get upt_rec index_child_def
        leaf_record_def read_u32_def slice_of_def)
  moreover have "sorted (map (of_le_bytes \<circ> br_key) ?recs)" by simp
  moreover have "\<lparr> br_key = [0, 1], br_data = [9, 9] \<rparr> \<in> set ?recs" by simp
  moreover have "bth_lookup two_level ?hdr [0, 1] = Inr None"
    by (simp add: bth_lookup_def hid_is_null_def two_level_get upt_rec best_child_def index_key_def slice_of_def)
  ultimately show ?thesis using two_level_parse by blast
qed

end
