(* ===== verification/Text_Codecs.thy ===== *)
theory Text_Codecs
  imports Byte_Slices
begin

text \<open>
  The text encodings of the property layer: UTF-16 as the writer stores it and
  \<^verbatim>\<open>decode_utf16le\<close> reads it back, \<^verbatim>\<open>String::from_utf8_lossy\<close> for eight-bit strings, and the
  two's complement readings of fixed-width integers.
\<close>

definition scalar_str :: "str \<Rightarrow> bool" where
  "scalar_str s \<longleftrightarrow> (\<forall>c\<in>set s. c < 1114112 \<and> \<not> (55296 \<le> c \<and> c \<le> 57343))"

lemma scalar_str_simps [simp]:
  "scalar_str []"
  "scalar_str (c # s) \<longleftrightarrow> c < 1114112 \<and> \<not> (55296 \<le> c \<and> c \<le> 57343) \<and> scalar_str s"
  by (auto simp: scalar_str_def)

subsection \<open>UTF-16\<close>

definition utf16_units :: "uchar \<Rightarrow> nat list" where
  "utf16_units c =
     (if c < 65536 then [c] else [55296 + (c - 65536) div 1024, 56320 + (c - 65536) mod 1024])"

definition utf16le_bytes :: "str \<Rightarrow> bytes" where
  "utf16le_bytes s = concat (map (le_bytes 2) (concat (map utf16_units s)))"

fun from_utf16 :: "nat list \<Rightarrow> str option" where
  "from_utf16 [] = Some []"
| "from_utf16 (u # us) =
     (if u < 55296 \<or> 57343 < u then map_option ((#) u) (from_utf16 us)
      else if 56319 < u then None
      else case us of [] \<Rightarrow> None
        | v # vs \<Rightarrow>
            if 56320 \<le> v \<and> v \<le> 57343
            then map_option ((#) (65536 + (u - 55296) * 1024 + (v - 56320))) (from_utf16 vs)
            else None)"

fun u16_chunks :: "bytes \<Rightarrow> nat list" where
  "u16_chunks (a # b # bs) = of_le_bytes [a, b] # u16_chunks bs"
| "u16_chunks _ = []"

text \<open>The odd byte at the end is dropped, by one recursive call in the code.\<close>

definition decode_utf16le :: "bytes \<Rightarrow> str option" where
  "decode_utf16le bs =
     (let even = (if length bs mod 2 \<noteq> 0 then take (length bs - 1) bs else bs)
      in from_utf16 (u16_chunks even))"

lemma u16_chunks_le_bytes: "u16_chunks (concat (map (le_bytes 2) us)) = map (\<lambda>u. u mod 65536) us"
proof (induction us)
  case (Cons u us)
  have "le_bytes 2 u = [word_of_nat u, word_of_nat (u div 256)]" by (simp add: numeral_2_eq_2)
  moreover have "of_le_bytes (le_bytes 2 u) = u mod 65536"
    using of_le_bytes_le_bytes_mod [of 2 u] by simp
  ultimately show ?case using Cons by simp
qed simp

lemma utf16_units_small: "c < 1114112 \<Longrightarrow> u \<in> set (utf16_units c) \<Longrightarrow> u < 65536"
  by (auto simp: utf16_units_def split: if_splits)

lemma from_utf16_units:
  "scalar_str s \<Longrightarrow> from_utf16 (concat (map utf16_units s)) = Some s"
proof (induction s)
  case (Cons c s)
  show ?case
  proof (cases "c < 65536")
    case True
    with Cons show ?thesis by (simp add: utf16_units_def) arith
  next
    case False
    with Cons have c: "65536 \<le> c" "c < 1114112" and s: "from_utf16 (concat (map utf16_units s)) = Some s"
      by auto
    from c have "(c - 65536) div 1024 < 1024" by auto
    moreover have "65536 + (c - 65536) div 1024 * 1024 + (c - 65536) mod 1024 = c"
      using c(1) div_mult_mod_eq [of "c - 65536" 1024] by linarith
    moreover have "utf16_units c = [55296 + (c - 65536) div 1024, 56320 + (c - 65536) mod 1024]"
      using False by (simp add: utf16_units_def)
    moreover have "(c - 65536) mod 1024 \<le> 1023" by simp
    ultimately show ?thesis using s by simp
  qed
qed simp

lemma length_utf16le: "length (utf16le_bytes s) = 2 * length (concat (map utf16_units s))"
  using length_concat_width [of "map (le_bytes 2) (concat (map utf16_units s))" 2]
  by (simp add: utf16le_bytes_def)

lemma decode_encode_utf16:
  assumes "scalar_str s"
  shows "decode_utf16le (utf16le_bytes s) = Some s"
proof -
  have "map (\<lambda>u. u mod 65536) (concat (map utf16_units s)) = concat (map utf16_units s)"
    using assms utf16_units_small by (intro map_idI) (force simp: scalar_str_def)
  with assms show ?thesis
    by (simp add: decode_utf16le_def Let_def length_utf16le)
      (simp add: utf16le_bytes_def u16_chunks_le_bytes from_utf16_units)
qed

lemma from_utf16_scalar: "(\<forall>u\<in>set us. u < 65536) \<Longrightarrow> from_utf16 us = Some s \<Longrightarrow> scalar_str s"
proof (induction us arbitrary: s rule: from_utf16.induct)
  case (2 u us)
  show ?case
  proof (cases "u < 55296 \<or> 57343 < u")
    case True
    with 2 show ?thesis by fastforce
  next
    case False
    with 2 show ?thesis by (auto split: if_splits list.splits; fastforce)
  qed
qed simp

lemma u16_chunks_bound: "u \<in> set (u16_chunks bs) \<Longrightarrow> u < 65536"
proof (induction bs rule: u16_chunks.induct)
  case (1 a b bs)
  then show ?case using of_le_bytes_bound [of "[a, b]"] by auto
qed auto

lemma decode_utf16_scalar: "decode_utf16le bs = Some s \<Longrightarrow> scalar_str s"
  using from_utf16_scalar u16_chunks_bound unfolding decode_utf16le_def Let_def by blast

subsection \<open>Lossy UTF-8\<close>

text \<open>
  What a lead byte announces: how many continuation bytes follow, its payload, and the range
  allowed for the first of them (which excludes overlong forms, surrogates and values above the
  last scalar). A sequence that breaks off is replaced as a whole by U+FFFD, and reading resumes
  at the byte that broke it.
\<close>

definition utf8_lead :: "nat \<Rightarrow> (nat \<times> nat \<times> nat \<times> nat) option" where
  "utf8_lead b =
     (if 194 \<le> b \<and> b \<le> 223 then Some (0, b - 192, 128, 191)
      else if b = 224 then Some (1, 0, 160, 191)
      else if b = 237 then Some (1, 13, 128, 159)
      else if 225 \<le> b \<and> b \<le> 239 then Some (1, b - 224, 128, 191)
      else if b = 240 then Some (2, 0, 144, 191)
      else if 241 \<le> b \<and> b \<le> 243 then Some (2, b - 240, 128, 191)
      else if b = 244 then Some (2, 4, 128, 143)
      else None)"

fun utf8_rest :: "nat \<Rightarrow> nat \<Rightarrow> nat list \<Rightarrow> uchar \<times> nat list" where
  "utf8_rest 0 acc bs = (acc, bs)"
| "utf8_rest (Suc n) acc [] = (65533, [])"
| "utf8_rest (Suc n) acc (b # bs) =
     (if 128 \<le> b \<and> b \<le> 191 then utf8_rest n (acc * 64 + (b - 128)) bs else (65533, b # bs))"

lemma utf8_rest_length: "length (snd (utf8_rest n acc bs)) \<le> length bs"
  by (induction n acc bs rule: utf8_rest.induct) auto

function lossy_units :: "nat list \<Rightarrow> str" where
  "lossy_units [] = []"
| "lossy_units (b # bs) =
     (if b < 128 then b # lossy_units bs
      else case utf8_lead b of
        None \<Rightarrow> 65533 # lossy_units bs
      | Some (n, payload, lo, hi) \<Rightarrow>
          (case bs of
             [] \<Rightarrow> [65533]
           | c # cs \<Rightarrow>
               if lo \<le> c \<and> c \<le> hi
               then let r = utf8_rest n (payload * 64 + (c - 128)) cs in fst r # lossy_units (snd r)
               else 65533 # lossy_units bs))"
  by pat_completeness auto

termination
proof (relation "measure length", goal_cases)
  case (4 b bs p n q payload r lo hi c cs rr)
  then show ?case using utf8_rest_length [of n "payload * 64 + (c - 128)" cs] by auto
qed auto

definition from_utf8_lossy :: "bytes \<Rightarrow> str" where
  "from_utf8_lossy bs = lossy_units (map unat bs)"

lemma utf8_units_small: "c < 1114112 \<Longrightarrow> u \<in> set (utf8_units c) \<Longrightarrow> u < 256"
  by (auto simp: utf8_units_def split: if_splits)

lemma lossy_four:
  assumes "a < 5" "b < 64" "d < 64" "e < 64" "a = 0 \<longrightarrow> 16 \<le> b" "a = 4 \<longrightarrow> b < 16"
  shows "lossy_units ([240 + a, 128 + b, 128 + d, 128 + e] @ us) =
    (((a * 64 + b) * 64 + d) * 64 + e) # lossy_units us"
proof -
  consider "a = 0" | "1 \<le> a" "a \<le> 3" | "a = 4" using assms(1) by linarith
  then show ?thesis
    using assms by cases (auto simp: utf8_lead_def numeral_2_eq_2)
qed

lemma lossy_char:
  assumes "c < 1114112" and "\<not> (55296 \<le> c \<and> c \<le> 57343)"
  shows "lossy_units (utf8_units c @ us) = c # lossy_units us"
proof -
  consider "c < 128" | "128 \<le> c" "c < 2048" | "2048 \<le> c" "c < 65536" | "65536 \<le> c" by linarith
  then show ?thesis
  proof cases
    case 1
    then show ?thesis by (simp add: utf8_units_def)
  next
    case 2
    have "c div 64 * 64 + c mod 64 = c" by (rule div_mult_mod_eq)
    moreover have "2 \<le> c div 64" "c div 64 < 32" using 2 by auto
    ultimately show ?thesis using 2 by (simp add: utf8_units_def utf8_lead_def)
  next
    case 3
    let ?a = "c div 4096" and ?b = "c div 64 mod 64"
    have "?a < 16" using 3 by auto
    have "c div 64 div 64 = ?a" by (simp add: div_mult2_eq)
    then have "c div 64 = ?a * 64 + ?b" using div_mult_mod_eq [of "c div 64" 64] by simp
    then have val: "(?a * 64 + ?b) * 64 + c mod 64 = c"
      using div_mult_mod_eq [of c 64] by simp
    have "?a = 0 \<Longrightarrow> 32 \<le> ?b" "?a = 13 \<Longrightarrow> ?b < 32"
      using val assms(2) 3 by (auto; linarith)+
    then show ?thesis using 3 val \<open>?a < 16\<close> by (simp add: utf8_units_def utf8_lead_def) linarith
  next
    case 4
    let ?a = "c div 262144" and ?b = "c div 4096 mod 64" and ?d = "c div 64 mod 64"
    have "?a < 5" using assms(1) by auto
    have "c div 4096 div 64 = ?a" "c div 64 div 64 = c div 4096" by (simp_all add: div_mult2_eq [symmetric])
    then have "c div 4096 = ?a * 64 + ?b" "c div 64 = c div 4096 * 64 + ?d"
      using div_mult_mod_eq [of "c div 4096" 64] div_mult_mod_eq [of "c div 64" 64] by simp_all
    then have val: "((?a * 64 + ?b) * 64 + ?d) * 64 + c mod 64 = c"
      using div_mult_mod_eq [of c 64] by simp
    have "?d < 64" "c mod 64 < 64" by simp_all
    then have "?a = 0 \<Longrightarrow> 16 \<le> ?b" "?a = 4 \<Longrightarrow> ?b < 16"
      using val assms(1) 4 by (auto; linarith)+
    with lossy_four [of ?a ?b ?d "c mod 64" us] \<open>?a < 5\<close> val 4 show ?thesis by (simp add: utf8_units_def)
  qed
qed


lemma from_utf8_lossy_utf8:
  assumes "scalar_str s"
  shows "from_utf8_lossy (utf8 s) = s"
proof -
  have "map unat (utf8_char c) = utf8_units c" if "c \<in> set s" for c
    using that assms utf8_units_small [of c]
    by (auto simp: utf8_char_units scalar_str_def unat_of_nat intro!: map_idI)
  then have "map unat (utf8 s) = concat (map utf8_units s)"
    by (simp add: utf8_def map_concat comp_def cong: map_cong)
  moreover have "lossy_units (concat (map utf8_units s)) = s"
    using assms by (induction s) (simp_all add: lossy_char)
  ultimately show ?thesis by (simp add: from_utf8_lossy_def)
qed

subsection \<open>Two's complement\<close>

definition as_signed :: "nat \<Rightarrow> nat \<Rightarrow> int" where
  "as_signed w n = (if n mod 2 ^ w < 2 ^ (w - 1) then int (n mod 2 ^ w) else int (n mod 2 ^ w) - 2 ^ w)"

definition to_unsigned :: "nat \<Rightarrow> int \<Rightarrow> nat" where
  "to_unsigned w i = nat (i mod 2 ^ w)"

lemma to_unsigned_less: "to_unsigned w i < 2 ^ w"
  unfolding to_unsigned_def by (simp add: nat_less_iff)

lemma as_signed_to_unsigned:
  assumes "- (2 ^ (w - 1)) \<le> i" and "i < 2 ^ (w - 1)" and "0 < w"
  shows "as_signed w (to_unsigned w i) = i"
proof -
  have two: "(2 :: int) ^ w = 2 * 2 ^ (w - 1)"
    using assms(3) by (metis One_nat_def Suc_pred power_Suc)
  have less: "nat (i mod 2 ^ w) mod 2 ^ w = nat (i mod 2 ^ w)"
    using to_unsigned_less [of w i] by (simp add: to_unsigned_def)
  show ?thesis
  proof (cases "0 \<le> i")
    case True
    then have "i mod 2 ^ w = i" using assms(2) two by (intro mod_pos_pos_trivial) auto
    with True assms(2) less show ?thesis
      by (simp add: as_signed_def to_unsigned_def nat_less_iff)
  next
    case False
    have "i mod 2 ^ w = (i + 2 ^ w) mod 2 ^ w" by simp
    also have "\<dots> = i + 2 ^ w" using False assms(1) two by (intro mod_pos_pos_trivial) auto
    finally have "nat (i mod 2 ^ w) = nat (i + 2 ^ w)" by simp
    moreover have "0 \<le> i + 2 ^ w" "\<not> i + 2 ^ w < 2 ^ (w - 1)"
      using assms(1) two zero_less_power [of "2 :: int" "w - 1"] by linarith+
    moreover from this have "\<not> nat (i + 2 ^ w) < 2 ^ (w - 1)" "int (nat (i + 2 ^ w)) = i + 2 ^ w"
      by (simp_all add: nat_less_iff)
    ultimately show ?thesis using less by (simp add: as_signed_def to_unsigned_def)
  qed
qed

end
