(* ===== verification/Property_Context.thy ===== *)
theory Property_Context
  imports Bth Text_Codecs
begin

text \<open>
  Property contexts: the reader (\<^verbatim>\<open>pst-reader/src/ltp/pc.rs\<close>) and the production writer's
  builder (\<^verbatim>\<open>encode_pc_value\<close>, \<^verbatim>\<open>build_pc_v2\<close> in \<^verbatim>\<open>pst-writer/src/production.rs\<close>). The
  subnode values a context was loaded with are a map from raw node identifiers to bytes.
\<close>

subsection \<open>The reader\<close>

datatype PropertyValue =
    PvI16 int
  | PvI32 int
  | PvI64 int
  | PvBool bool
  | PvString str
  | PvTime int
  | PvBinary bytes
  | PvMultiString "str list"
  | PvMultiBinary "bytes list"

record PropContext =
  px_heap :: Heap
  px_records :: "BthRecord list"
  px_subnodes :: "u32 \<rightharpoonup> bytes"

definition pc_load_with_subnodes :: "bytes \<Rightarrow> (u32 \<rightharpoonup> bytes) \<Rightarrow> PstError + PropContext" where
  "pc_load_with_subnodes data subnodes =
     (let block_size = (if length data \<le> MAX_BLOCK_DATA then length data else MAX_BLOCK_DATA)
      in try_then (heap_parse data block_size) (\<lambda>heap.
         try_then (read_bth_header heap (hh_hid_user_root (hp_header heap))) (\<lambda>bth_header.
         try_then (collect_records heap bth_header) (\<lambda>records.
           Inr \<lparr> px_heap = heap, px_records = records, px_subnodes = subnodes \<rparr>))))"

definition pc_decode :: "bytes \<Rightarrow> PstError + str" where
  "pc_decode bytes = (case decode_utf16le bytes of Some s \<Rightarrow> Inr s | None \<Rightarrow> Inl PeInvalidUtf16)"

definition pc_string_value :: "PropContext \<Rightarrow> u32 \<Rightarrow> PstError + PropertyValue option" where
  "pc_string_value pc value_hnid =
     (if hid_is_null value_hnid then Inr (Some (PvString []))
      else if hid_type value_hnid \<noteq> 0
      then (case px_subnodes pc value_hnid of
              Some bytes \<Rightarrow> try_then (pc_decode bytes) (\<lambda>s. Inr (Some (PvString s)))
            | None \<Rightarrow> Inr None)
      else try_then (heap_get (px_heap pc) value_hnid)
             (\<lambda>bytes. try_then (pc_decode bytes) (\<lambda>s. Inr (Some (PvString s)))))"

definition pc_binary_value :: "PropContext \<Rightarrow> u32 \<Rightarrow> PstError + PropertyValue option" where
  "pc_binary_value pc value_hnid =
     (if hid_is_null value_hnid then Inr (Some (PvBinary []))
      else if hid_type value_hnid \<noteq> 0
      then Inr (map_option PvBinary (px_subnodes pc value_hnid))
      else try_then (heap_get (px_heap pc) value_hnid) (\<lambda>bytes. Inr (Some (PvBinary bytes))))"

definition pc_string8_value :: "PropContext \<Rightarrow> u32 \<Rightarrow> PstError + PropertyValue option" where
  "pc_string8_value pc value_hnid =
     (if hid_is_null value_hnid then Inr (Some (PvString []))
      else if hid_type value_hnid \<noteq> 0 then Inr None
      else try_then (heap_get (px_heap pc) value_hnid)
             (\<lambda>bytes. Inr (Some (PvString (from_utf8_lossy bytes)))))"

definition pc_resolve_value :: "PropContext \<Rightarrow> nat \<Rightarrow> u32 \<Rightarrow> PstError + PropertyValue option" where
  "pc_resolve_value pc prop_type value_hnid =
     (if prop_type = 0x0002 then Inr (Some (PvI16 (as_signed 16 value_hnid)))
      else if prop_type = 0x0003 then Inr (Some (PvI32 (as_signed 32 value_hnid)))
      else if prop_type = 0x000B then Inr (Some (PvBool (value_hnid \<noteq> 0)))
      else if prop_type = 0x001F then pc_string_value pc value_hnid
      else if prop_type = 0x0014
      then try_then (heap_get (px_heap pc) value_hnid) (\<lambda>bytes.
             if 8 \<le> length bytes then Inr (Some (PvI64 (as_signed 64 (read_u64 0 bytes))))
             else Inr (Some (PvI64 (int value_hnid))))
      else if prop_type = 0x0040
      then try_then (heap_get (px_heap pc) value_hnid) (\<lambda>bytes.
             if 8 \<le> length bytes then Inr (Some (PvTime (as_signed 64 (read_u64 0 bytes))))
             else Inr None)
      else if prop_type = 0x0102 then pc_binary_value pc value_hnid
      else if prop_type = 0x001E then pc_string8_value pc value_hnid
      else Inr None)"

definition pc_get_raw_hnid :: "PropContext \<Rightarrow> nat \<Rightarrow> (nat \<times> u32) option" where
  "pc_get_raw_hnid pc prop_id =
     (case find (\<lambda>r. br_key r = le_bytes 2 prop_id) (px_records pc) of
        None \<Rightarrow> None
      | Some record \<Rightarrow>
          if length (br_data record) < 6 then None
          else Some (read_u16 0 (br_data record), read_u32 2 (br_data record)))"

definition pc_get :: "PropContext \<Rightarrow> nat \<Rightarrow> PstError + PropertyValue option" where
  "pc_get pc prop_id =
     (case find (\<lambda>r. br_key r = le_bytes 2 prop_id) (px_records pc) of
        None \<Rightarrow> Inr None
      | Some record \<Rightarrow>
          if length (br_data record) < 6 then Inr None
          else pc_resolve_value pc (read_u16 0 (br_data record)) (read_u32 2 (br_data record)))"

definition pc_get_string :: "PropContext \<Rightarrow> nat \<Rightarrow> PstError + str option" where
  "pc_get_string pc prop_id = try_then (pc_get pc prop_id)
     (\<lambda>v. case v of Some (PvString s) \<Rightarrow> Inr (Some s) | _ \<Rightarrow> Inr None)"

definition pc_get_i32 :: "PropContext \<Rightarrow> nat \<Rightarrow> PstError + int option" where
  "pc_get_i32 pc prop_id = try_then (pc_get pc prop_id)
     (\<lambda>v. case v of Some (PvI32 i) \<Rightarrow> Inr (Some i) | _ \<Rightarrow> Inr None)"

definition pc_get_bool :: "PropContext \<Rightarrow> nat \<Rightarrow> PstError + bool option" where
  "pc_get_bool pc prop_id = try_then (pc_get pc prop_id)
     (\<lambda>v. case v of Some (PvBool b) \<Rightarrow> Inr (Some b) | _ \<Rightarrow> Inr None)"

definition pc_get_time :: "PropContext \<Rightarrow> nat \<Rightarrow> PstError + int option" where
  "pc_get_time pc prop_id = try_then (pc_get pc prop_id)
     (\<lambda>v. case v of Some (PvTime i) \<Rightarrow> Inr (Some i) | _ \<Rightarrow> Inr None)"

definition pc_get_binary :: "PropContext \<Rightarrow> nat \<Rightarrow> PstError + bytes option" where
  "pc_get_binary pc prop_id = try_then (pc_get pc prop_id)
     (\<lambda>v. case v of Some (PvBinary b) \<Rightarrow> Inr (Some b) | _ \<Rightarrow> Inr None)"

definition pc_get_object :: "PropContext \<Rightarrow> nat \<Rightarrow> PstError + (u32 \<times> u32) option" where
  "pc_get_object pc prop_id =
     (case pc_get_raw_hnid pc prop_id of
        None \<Rightarrow> Inr None
      | Some (prop_type, value_hnid) \<Rightarrow>
          if prop_type \<noteq> 0x000D then Inr None
          else if hid_is_null value_hnid \<or> hid_type value_hnid \<noteq> 0 then Inl (PeDataTruncated 8 0)
          else try_then (heap_get (px_heap pc) value_hnid) (\<lambda>bytes.
                 if length bytes < 8 then Inl (PeDataTruncated 8 (length bytes))
                 else Inr (Some (read_u32 0 bytes, read_u32 4 bytes))))"

definition pc_value_byte_len :: "PropContext \<Rightarrow> nat \<Rightarrow> PstError + usize option" where
  "pc_value_byte_len pc prop_id =
     (case pc_get_raw_hnid pc prop_id of
        None \<Rightarrow> Inr None
      | Some (prop_type, value_hnid) \<Rightarrow>
          if prop_type = 0x001F \<or> prop_type = 0x001E \<or> prop_type = 0x0102
          then if hid_is_null value_hnid then Inr (Some 0)
               else if hid_type value_hnid \<noteq> 0
               then Inr (map_option length (px_subnodes pc value_hnid))
               else try_then (heap_get (px_heap pc) value_hnid) (\<lambda>bytes. Inr (Some (length bytes)))
          else Inr None)"

text \<open>The node identifiers a context refers to, and the one a single property refers to.\<close>

definition record_subnode :: "BthRecord \<Rightarrow> u32 option" where
  "record_subnode record =
     (if length (br_data record) < 6 then None
      else
        let prop_type = read_u16 0 (br_data record); value_hnid = read_u32 2 (br_data record)
        in if (prop_type = 0x001F \<or> prop_type = 0x0102) \<and> hid_type value_hnid \<noteq> 0
           then Some value_hnid else None)"

definition pc_records_of :: "bytes \<Rightarrow> PstError + BthRecord list" where
  "pc_records_of data =
     (let block_size = (if length data \<le> MAX_BLOCK_DATA then length data else MAX_BLOCK_DATA)
      in try_then (heap_parse data block_size) (\<lambda>heap.
         try_then (read_bth_header heap (hh_hid_user_root (hp_header heap)))
           (collect_records heap)))"

definition referenced_subnode_nids :: "bytes \<Rightarrow> PstError + u32 set" where
  "referenced_subnode_nids data = try_then (pc_records_of data)
     (\<lambda>records. Inr (set (List.map_filter record_subnode records)))"

definition body_subnode_value_hnid :: "bytes \<Rightarrow> nat \<Rightarrow> PstError + u32 option" where
  "body_subnode_value_hnid data body_prop_id = try_then (pc_records_of data)
     (\<lambda>records.
        case find (\<lambda>r. br_key r = le_bytes 2 body_prop_id \<and> 6 \<le> length (br_data r)) records of
          None \<Rightarrow> Inr None
        | Some record \<Rightarrow> Inr (record_subnode record))"

subsection \<open>The writer\<close>

datatype PcValue =
    PcI32 int
  | PcBool bool
  | PcTime int
  | PcString str
  | PcBinary bytes
  | PcObject u64 u32
  | PcSubnodeString u64
  | PcSubnodeBinary u64

definition pc_heap_value :: "HeapBuilder \<Rightarrow> nat \<Rightarrow> bytes \<Rightarrow> WriterError + bytes \<times> HeapBuilder" where
  "pc_heap_value heap prop_type bytes = try_then (heap_try_alloc heap bytes)
     (\<lambda>(hid, heap). Inr (le_bytes 2 prop_type @ le_bytes 4 hid, heap))"

fun encode_pc_value :: "HeapBuilder \<Rightarrow> PcValue \<Rightarrow> WriterError + bytes \<times> HeapBuilder" where
  "encode_pc_value heap (PcI32 v) = Inr (le_bytes 2 0x0003 @ le_bytes 4 (to_unsigned 32 v), heap)"
| "encode_pc_value heap (PcBool v) = Inr (le_bytes 2 0x000B @ le_bytes 4 (if v then 1 else 0), heap)"
| "encode_pc_value heap (PcTime v) = pc_heap_value heap 0x0040 (le_bytes 8 (to_unsigned 64 v))"
| "encode_pc_value heap (PcString s) = pc_heap_value heap 0x001F (utf16le_bytes s)"
| "encode_pc_value heap (PcBinary b) = pc_heap_value heap 0x0102 b"
| "encode_pc_value heap (PcObject nid sz) =
     pc_heap_value heap 0x000D (le_bytes 4 nid @ le_bytes 4 sz)"
| "encode_pc_value heap (PcSubnodeString nid) = Inr (le_bytes 2 0x001F @ le_bytes 4 nid, heap)"
| "encode_pc_value heap (PcSubnodeBinary nid) = Inr (le_bytes 2 0x0102 @ le_bytes 4 nid, heap)"

definition pc_record :: "nat \<times> PcValue \<Rightarrow> (nat \<times> bytes) list \<times> HeapBuilder \<Rightarrow>
    WriterError + (nat \<times> bytes) list \<times> HeapBuilder" where
  "pc_record prop acc = (case prop of (prop_id, value) \<Rightarrow> case acc of (records, heap) \<Rightarrow>
     try_then (encode_pc_value heap value)
       (\<lambda>(data, heap). Inr (records @ [(prop_id, data)], heap)))"

definition build_pc_v2 :: "HeapBuilder \<Rightarrow> (nat \<times> PcValue) list \<Rightarrow> WriterError + Hid \<times> HeapBuilder" where
  "build_pc_v2 heap properties = try_then (try_fold pc_record properties ([], heap))
     (\<lambda>(records, heap). build_bth_checked heap 2 6 records)"

subsection \<open>What the reader makes of a written context\<close>

text \<open>A value is a type and either the word stored in the record or the bytes put in the heap.\<close>

fun pc_parts :: "PcValue \<Rightarrow> nat \<times> (u32 + bytes)" where
  "pc_parts (PcI32 v) = (0x0003, Inl (to_unsigned 32 v))"
| "pc_parts (PcBool v) = (0x000B, Inl (if v then 1 else 0))"
| "pc_parts (PcTime v) = (0x0040, Inr (le_bytes 8 (to_unsigned 64 v)))"
| "pc_parts (PcString s) = (0x001F, Inr (utf16le_bytes s))"
| "pc_parts (PcBinary b) = (0x0102, Inr b)"
| "pc_parts (PcObject nid sz) = (0x000D, Inr (le_bytes 4 nid @ le_bytes 4 sz))"
| "pc_parts (PcSubnodeString nid) = (0x001F, Inl nid)"
| "pc_parts (PcSubnodeBinary nid) = (0x0102, Inl nid)"

definition pc_stored :: "(Hid \<rightharpoonup> bytes) \<Rightarrow> PcValue \<Rightarrow> bytes \<Rightarrow> bool" where
  "pc_stored m v data =
     (case pc_parts v of
        (t, Inl w) \<Rightarrow> data = le_bytes 2 t @ le_bytes 4 w
      | (t, Inr bs) \<Rightarrow> \<exists>hid. hid \<noteq> 0 \<and> hid < 2 ^ 32 \<and> m hid = Some bs \<and> data = le_bytes 2 t @ le_bytes 4 hid)"

lemma encode_pc_parts:
  "encode_pc_value heap v =
    (case pc_parts v of (t, Inl w) \<Rightarrow> Inr (le_bytes 2 t @ le_bytes 4 w, heap)
     | (t, Inr bs) \<Rightarrow> pc_heap_value heap t bs)"
  by (cases v) simp_all

lemma pc_stored_mono: "pc_stored m v data \<Longrightarrow> m \<subseteq>\<^sub>m m' \<Longrightarrow> pc_stored m' v data"
  by (auto simp: pc_stored_def map_le_def dom_def split: prod.splits sum.splits)

lemma pc_stored_length: "pc_stored m v data \<Longrightarrow> length data = 6"
  by (auto simp: pc_stored_def split: prod.splits sum.splits)

lemma try_alloc_count:
  "heap_try_alloc hb bs = Inr (hid, hb') \<Longrightarrow> length (hb_allocations hb') = Suc (length (hb_allocations hb))"
  by (auto simp: heap_try_alloc_def heap_alloc_def Let_def split: if_splits)

lemma patch_count:
  "heap_patch_u32 hb hid off v = Inr hb' \<Longrightarrow> length (hb_allocations hb') = length (hb_allocations hb)"
  by (auto simp: heap_patch_u32_def Let_def split: if_splits prod.splits)

lemma build_bth_count:
  "build_bth_checked hb k e recs = Inr (r, hb') \<Longrightarrow> length (hb_allocations hb') = length (hb_allocations hb) + 2"
  by (auto simp: build_bth_checked_def Let_def try_then_Inr dest!: try_alloc_count patch_count)

lemma encode_pc_stored:
  assumes "heap_maps hb m" and "encode_pc_value hb v = Inr (data, hb')"
  shows "\<exists>m'. heap_maps hb' m' \<and> m \<subseteq>\<^sub>m m' \<and> pc_stored m' v data \<and>
    length (hb_allocations hb') \<le> Suc (length (hb_allocations hb))"
proof (cases "pc_parts v")
  case (Pair t part)
  show ?thesis
  proof (cases part)
    case (Inl w)
    with assms Pair show ?thesis
      by (intro exI [where x = m]) (auto simp: encode_pc_parts pc_stored_def)
  next
    case (Inr bs)
    with assms(2) Pair obtain hid where alloc: "heap_try_alloc hb bs = Inr (hid, hb')"
      and data: "data = le_bytes 2 t @ le_bytes 4 hid"
      by (auto simp: encode_pc_parts pc_heap_value_def try_then_Inr)
    from single.alloc_extends [OF assms(1) alloc] obtain m' where
      "heap_maps hb' m'" "m \<subseteq>\<^sub>m m'" "m' hid = Some bs" "hid \<noteq> 0" "hid < 2 ^ 32" by blast
    with data Pair Inr try_alloc_count [OF alloc] show ?thesis
      by (intro exI [where x = m']) (auto simp: pc_stored_def)
  qed
qed

definition pc_stored_rel :: "(Hid \<rightharpoonup> bytes) \<Rightarrow> nat \<times> PcValue \<Rightarrow> nat \<times> bytes \<Rightarrow> bool" where
  "pc_stored_rel m prop record \<longleftrightarrow> fst prop = fst record \<and> pc_stored m (snd prop) (snd record)"

lemma pc_records_stored:
  assumes "try_fold pc_record props (recs, hb) = Inr (recs', hb')" and "heap_maps hb m"
    and "list_all2 (pc_stored_rel m) done recs"
  shows "\<exists>m'. heap_maps hb' m' \<and> m \<subseteq>\<^sub>m m' \<and> list_all2 (pc_stored_rel m') (done @ props) recs' \<and>
    length (hb_allocations hb') \<le> length (hb_allocations hb) + length props"
  using assms
proof (induction props arbitrary: recs hb m "done")
  case Nil
  then show ?case by auto
next
  case (Cons p props)
  obtain i v where p: "p = (i, v)" by (cases p)
  from Cons.prems(1) obtain acc where acc: "pc_record p (recs, hb) = Inr acc"
    and fold: "try_fold pc_record props acc = Inr (recs', hb')" by (auto simp: try_then_Inr)
  from acc obtain data hb1 where enc: "encode_pc_value hb v = Inr (data, hb1)"
    and "acc = (recs @ [(i, data)], hb1)" by (auto simp: p pc_record_def try_then_Inr)
  with fold have rest: "try_fold pc_record props (recs @ [(i, data)], hb1) = Inr (recs', hb')" by simp
  from encode_pc_stored [OF Cons.prems(2) enc] obtain m1 where m1: "heap_maps hb1 m1" "m \<subseteq>\<^sub>m m1"
    "pc_stored m1 v data" "length (hb_allocations hb1) \<le> Suc (length (hb_allocations hb))" by blast
  have "list_all2 (pc_stored_rel m1) done recs"
    using Cons.prems(3) pc_stored_mono [OF _ m1(2)] by (auto simp: pc_stored_rel_def elim!: list_all2_mono)
  with m1(3) p have "list_all2 (pc_stored_rel m1) (done @ [p]) (recs @ [(i, data)])"
    by (auto simp: pc_stored_rel_def intro: list_all2_appendI)
  from Cons.IH [OF rest m1(1) this] m1(2,4) show ?case
    by (auto intro: map_le_trans)
qed

text \<open>The value a reader gets for each value written.\<close>

fun pc_reads :: "(u32 \<rightharpoonup> bytes) \<Rightarrow> PcValue \<Rightarrow> PstError + PropertyValue option" where
  "pc_reads subnodes (PcI32 v) = Inr (Some (PvI32 v))"
| "pc_reads subnodes (PcBool v) = Inr (Some (PvBool v))"
| "pc_reads subnodes (PcTime v) = Inr (Some (PvTime v))"
| "pc_reads subnodes (PcString s) = Inr (Some (PvString s))"
| "pc_reads subnodes (PcBinary b) = Inr (Some (PvBinary b))"
| "pc_reads subnodes (PcObject nid sz) = Inr None"
| "pc_reads subnodes (PcSubnodeString nid) =
     (case subnodes nid of Some bytes \<Rightarrow> try_then (pc_decode bytes) (\<lambda>s. Inr (Some (PvString s)))
      | None \<Rightarrow> Inr None)"
| "pc_reads subnodes (PcSubnodeBinary nid) = Inr (map_option PvBinary (subnodes nid))"

text \<open>The values the fields can hold: integers of their width, scalar values in strings, and
  identifiers of subnodes, whose low five bits are not all zero.\<close>

fun pc_value_ok :: "PcValue \<Rightarrow> bool" where
  "pc_value_ok (PcI32 v) \<longleftrightarrow> - (2 ^ 31) \<le> v \<and> v < 2 ^ 31"
| "pc_value_ok (PcTime v) \<longleftrightarrow> - (2 ^ 63) \<le> v \<and> v < 2 ^ 63"
| "pc_value_ok (PcString s) \<longleftrightarrow> scalar_str s"
| "pc_value_ok (PcObject nid sz) \<longleftrightarrow> nid < 2 ^ 32 \<and> sz < 2 ^ 32"
| "pc_value_ok (PcSubnodeString nid) \<longleftrightarrow> nid < 2 ^ 32 \<and> nid mod 32 \<noteq> 0"
| "pc_value_ok (PcSubnodeBinary nid) \<longleftrightarrow> nid < 2 ^ 32 \<and> nid mod 32 \<noteq> 0"
| "pc_value_ok v \<longleftrightarrow> True"

lemma heap_get_type: "heap_get h hid = Inr bs \<Longrightarrow> 0 < hid \<Longrightarrow> hid_type hid = 0"
  by (auto simp: heap_get_def hid_is_null_def split: if_splits)

lemma pc_resolve_stored:
  assumes "pc_stored m v data" and "pc_value_ok v"
    and "\<And>hid bs. m hid = Some bs \<Longrightarrow> heap_get (px_heap pc) hid = Inr bs"
  shows "pc_resolve_value pc (read_u16 0 data) (read_u32 2 data) = pc_reads (px_subnodes pc) v"
proof -
  have u: "to_unsigned 32 i < 4294967296" "to_unsigned 64 i < 18446744073709551616" for i
    using to_unsigned_less [of 32 i] to_unsigned_less [of 64 i] by simp_all
  have read: "read_u16 0 (le_bytes 2 t @ le_bytes 4 w) = t mod 65536"
    "read_u32 2 (le_bytes 2 t @ le_bytes 4 w) = w mod 4294967296" for t w
    by (simp_all add: slice_simps)
  show ?thesis
  proof (cases v)
    case (PcI32 i)
    with assms(1,2) u as_signed_to_unsigned [of 32 i] show ?thesis
      by (simp add: pc_stored_def read pc_resolve_value_def)
  next
    case (PcTime i)
    with assms u as_signed_to_unsigned [of 64 i] show ?thesis
      by (auto simp: pc_stored_def read pc_resolve_value_def slice_simps)
  next
    case (PcString s)
    with assms(1) obtain hid where hid: "0 < hid" "hid < 2 ^ 32" "m hid = Some (utf16le_bytes s)"
      "data = le_bytes 2 31 @ le_bytes 4 hid" by (auto simp: pc_stored_def)
    note get = assms(3) [OF hid(3)]
    from hid PcString get heap_get_type [OF get hid(1)] decode_encode_utf16 [of s] assms(2) show ?thesis
      by (simp add: pc_stored_def read pc_resolve_value_def pc_string_value_def hid_is_null_def pc_decode_def)
  next
    case (PcBinary b)
    with assms(1) obtain hid where hid: "0 < hid" "hid < 2 ^ 32" "m hid = Some b"
      "data = le_bytes 2 258 @ le_bytes 4 hid" by (auto simp: pc_stored_def)
    note get = assms(3) [OF hid(3)]
    from hid PcBinary get heap_get_type [OF get hid(1)] show ?thesis
      by (simp add: pc_stored_def read pc_resolve_value_def pc_binary_value_def hid_is_null_def)
  next
    case (PcSubnodeString nid)
    with assms(1,2) show ?thesis
      by (auto simp: pc_stored_def read pc_resolve_value_def pc_string_value_def hid_is_null_def hid_type_def)
  next
    case (PcSubnodeBinary nid)
    with assms(1,2) show ?thesis
      by (auto simp: pc_stored_def read pc_resolve_value_def pc_binary_value_def hid_is_null_def hid_type_def)
  next
    case (PcBool b)
    with assms(1) show ?thesis by (simp add: pc_stored_def read pc_resolve_value_def)
  next
    case (PcObject nid sz)
    with assms(1) obtain hid where "data = le_bytes 2 13 @ le_bytes 4 hid"
      by (auto simp: pc_stored_def)
    with PcObject show ?thesis by (simp add: read pc_resolve_value_def)
  qed
qed

lemma find_hd: "find P xs = (case filter P xs of [] \<Rightarrow> None | x # _ \<Rightarrow> Some x)"
  by (induction xs) auto

text \<open>Sorting by key is stable, so it does not change which record of a key comes first.\<close>

lemma find_sort_key: "find (\<lambda>x. f x = k) (sort_key f xs) = find (\<lambda>x. f x = k) xs"
  by (simp add: find_hd sort_key_stable)

lemma find_map: "find P (map f xs) = map_option f (find (P \<circ> f) xs)"
  by (induction xs) auto

lemma find_list_all2:
  "list_all2 R xs ys \<Longrightarrow> (\<And>x y. R x y \<Longrightarrow> P x = Q y) \<Longrightarrow>
    rel_option R (find P xs) (find Q ys)"
  by (induction rule: list_all2_induct) auto

lemma find_cong_set: "(\<And>x. x \<in> set xs \<Longrightarrow> P x = Q x) \<Longrightarrow> find P xs = find Q xs"
  by (induction xs) auto

lemma find_keyed:
  assumes "\<forall>(i, _)\<in>set recs. i < 65536" and "k < 65536"
  shows "find (\<lambda>r. br_key r = le_bytes 2 k)
      (map (\<lambda>(key, data). \<lparr> br_key = key, br_data = data \<rparr>) (map (map_prod (le_bytes 2) id) (sort_key fst recs))) =
    map_option (\<lambda>(i, data). \<lparr> br_key = le_bytes 2 i, br_data = data \<rparr>) (find (\<lambda>r. fst r = k) recs)"
proof -
  have "find (\<lambda>r. le_bytes 2 (fst r) = le_bytes 2 k) (sort_key fst recs) = find (\<lambda>r. fst r = k) (sort_key fst recs)"
    using assms le_bytes_inject [of _ 2 k] by (intro find_cong_set) fastforce
  also have "\<dots> = find (\<lambda>r. fst r = k) recs" by (rule find_sort_key)
  finally show ?thesis
    by (simp add: find_map comp_def case_prod_unfold map_prod_def option.map_comp)
qed

lemma stored_records:
  assumes "list_all2 (pc_stored_rel m) props recs"
  shows "\<forall>(key, data)\<in>set recs. length data = 6"
    and "\<forall>(i, _)\<in>set props. i < n \<Longrightarrow> \<forall>(i, _)\<in>set recs. i < n"
  using assms by (induction rule: list_all2_induct) (auto simp: pc_stored_rel_def pc_stored_length)

lemma pc_built:
  assumes "build_pc_v2 (heap_new sig) props = Inr (r, hb)" and "length props \<le> 2045"
    and "\<forall>(i, _)\<in>set props. i < 65536"
  shows "\<exists>pc m recs. pc_load_with_subnodes (fst (heap_finalize hb r)) subnodes = Inr pc \<and>
    px_subnodes pc = subnodes \<and>
    (\<forall>hid bs. m hid = Some bs \<longrightarrow> heap_get (px_heap pc) hid = Inr bs) \<and>
    list_all2 (pc_stored_rel m) props recs \<and>
    set (px_records pc) = (\<lambda>(i, data). \<lparr> br_key = le_bytes 2 i, br_data = data \<rparr>) ` set recs \<and>
    (\<forall>k<65536. find (\<lambda>r. br_key r = le_bytes 2 k) (px_records pc) =
       map_option (\<lambda>(i, data). \<lparr> br_key = le_bytes 2 i, br_data = data \<rparr>) (find (\<lambda>r. fst r = k) recs))"
proof -
  from assms(1) obtain recs hb1 where fold: "try_fold pc_record props ([], heap_new sig) = Inr (recs, hb1)"
    and bth: "build_bth_checked hb1 2 6 recs = Inr (r, hb)"
    by (auto simp: build_pc_v2_def try_then_Inr)
  from pc_records_stored [OF fold heap_maps_new, of "[]"] obtain m where m: "heap_maps hb1 m"
    and stored: "list_all2 (pc_stored_rel m) props recs"
    and count: "length (hb_allocations hb1) \<le> length (hb_allocations (heap_new sig)) + length props" by auto
  have new: "length (hb_allocations (heap_new sig)) = 0" by (simp add: heap_new_def)
  have "length (hb_allocations hb) \<le> 2047"
    using build_bth_count [OF bth] count assms(2) unfolding new by simp
  moreover have widths: "\<forall>(key, data)\<in>set recs. length data = 6"
    by (rule stored_records [OF stored])
  ultimately obtain h where h:
    "heap_parse (fst (heap_finalize hb r)) (length (fst (heap_finalize hb r))) = Inr h"
    "hh_hid_user_root (hp_header h) = r mod 4294967296"
    "bth_reads h r 2 6 (map (map_prod (le_bytes 2) id) (sort_key fst recs))"
    and get: "\<And>hid bs. m hid = Some bs \<Longrightarrow> heap_get h hid = Inr bs"
    and small: "r < 65536" "length (fst (heap_finalize hb r)) \<le> MAX_BLOCK_DATA"
    using bth_checked_reads [OF m bth, of r] by auto
  from h(3) obtain hdr where hdr: "read_bth_header h r = Inr hdr"
    "collect_records h hdr = Inr (map (\<lambda>(key, data). \<lparr> br_key = key, br_data = data \<rparr>)
       (map (map_prod (le_bytes 2) id) (sort_key fst recs)))" by (auto simp: bth_reads_def)
  let ?pc = "\<lparr> px_heap = h, px_records = map (\<lambda>(key, data). \<lparr> br_key = key, br_data = data \<rparr>)
       (map (map_prod (le_bytes 2) id) (sort_key fst recs)), px_subnodes = subnodes \<rparr>"
  have ids: "\<forall>(i, _)\<in>set recs. i < 65536"
    by (rule stored_records(2) [OF stored assms(3)])
  have "pc_load_with_subnodes (fst (heap_finalize hb r)) subnodes = Inr ?pc"
    using h(1,2) small hdr by (simp add: pc_load_with_subnodes_def)
  moreover have "\<forall>hid bs. m hid = Some bs \<longrightarrow> heap_get (px_heap ?pc) hid = Inr bs"
    using get by simp
  moreover have "\<forall>k<65536. find (\<lambda>r. br_key r = le_bytes 2 k) (px_records ?pc) =
      map_option (\<lambda>(i, data). \<lparr> br_key = le_bytes 2 i, br_data = data \<rparr>) (find (\<lambda>r. fst r = k) recs)"
    using find_keyed [OF ids] by simp
  moreover have "set (px_records ?pc) = (\<lambda>(i, data). \<lparr> br_key = le_bytes 2 i, br_data = data \<rparr>) ` set recs"
    by (simp add: image_image case_prod_unfold)
  moreover have "px_subnodes ?pc = subnodes" by simp
  ultimately show ?thesis using stored by (intro exI conjI) assumption+
qed

lemma find_stored:
  assumes "list_all2 (pc_stored_rel m) props recs"
  shows "rel_option (pc_stored_rel m) (find (\<lambda>p. fst p = k) props) (find (\<lambda>r. fst r = k) recs)"
  using assms by (rule find_list_all2) (simp add: pc_stored_rel_def)

text \<open>The subnode a value names.\<close>

fun pc_subnode :: "PcValue \<Rightarrow> u64 option" where
  "pc_subnode (PcSubnodeString nid) = Some nid"
| "pc_subnode (PcSubnodeBinary nid) = Some nid"
| "pc_subnode v = None"

lemma pc_records_loaded: "pc_load_with_subnodes data subnodes = Inr pc \<Longrightarrow> pc_records_of data = Inr (px_records pc)"
  by (auto simp: pc_load_with_subnodes_def pc_records_of_def Let_def try_then_Inr)

lemma stored_subnode:
  assumes "pc_stored m v data" and "pc_value_ok v"
    and "\<And>hid bs. m hid = Some bs \<Longrightarrow> heap_get h hid = Inr bs"
  shows "record_subnode \<lparr> br_key = k, br_data = data \<rparr> = pc_subnode v"
proof -
  have read: "read_u16 0 (le_bytes 2 t @ le_bytes 4 w) = t mod 65536"
    "read_u32 2 (le_bytes 2 t @ le_bytes 4 w) = w mod 4294967296" for t w
    by (simp_all add: slice_simps)
  have hid: "hid_type hid = 0" if "m hid = Some bs" "hid \<noteq> 0" for hid bs
    using heap_get_type [OF assms(3) [OF that(1)]] that(2) by simp
  show ?thesis
    using assms(1,2) hid by (cases v) (auto simp: pc_stored_def record_subnode_def read hid_type_def)
qed

lemma stored_subnodes:
  assumes "list_all2 (pc_stored_rel m) props recs" and "\<forall>(i, v)\<in>set props. i < 65536 \<and> pc_value_ok v"
    and "\<And>hid bs. m hid = Some bs \<Longrightarrow> heap_get h hid = Inr bs"
  shows "(\<lambda>(i, data). record_subnode \<lparr> br_key = le_bytes 2 i, br_data = data \<rparr>) ` set recs = (pc_subnode \<circ> snd) ` set props"
  using assms(1,2)
proof (induction rule: list_all2_induct)
  case (Cons p props rec recs)
  obtain i v j data where pr: "p = (i, v)" "rec = (j, data)" by (cases p, cases rec)
  with Cons have "pc_stored m v data" "pc_value_ok v" by (auto simp: pc_stored_rel_def)
  from stored_subnode [OF this assms(3)] Cons pr show ?case by simp
qed simp

lemma set_map_filter: "set (List.map_filter f xs) = {y. Some y \<in> f ` set xs}"
  by (induction xs) (force simp: List.map_filter_def)+

lemma pc_written:
  assumes "build_pc_v2 (heap_new sig) props = Inr (r, hb)" and "length props \<le> 2045"
    and "\<forall>(i, v)\<in>set props. i < 65536 \<and> pc_value_ok v"
  shows "\<exists>pc. pc_load_with_subnodes (fst (heap_finalize hb r)) subnodes = Inr pc \<and>
    referenced_subnode_nids (fst (heap_finalize hb r)) = Inr (set (List.map_filter (pc_subnode \<circ> snd) props)) \<and>
    (\<forall>k<65536. pc_get pc k =
       (case find (\<lambda>p. fst p = k) props of None \<Rightarrow> Inr None | Some (_, v) \<Rightarrow> pc_reads subnodes v))"
proof -
  have "\<forall>(i, _)\<in>set props. i < 65536" using assms(3) by auto
  from pc_built [OF assms(1,2) this, of subnodes] obtain pc m recs where
    load: "pc_load_with_subnodes (fst (heap_finalize hb r)) subnodes = Inr pc"
    and subs: "px_subnodes pc = subnodes"
    and get: "\<And>hid bs. m hid = Some bs \<Longrightarrow> heap_get (px_heap pc) hid = Inr bs"
    and stored: "list_all2 (pc_stored_rel m) props recs"
    and records: "set (px_records pc) = (\<lambda>(i, data). \<lparr> br_key = le_bytes 2 i, br_data = data \<rparr>) ` set recs"
    and found: "\<And>k. k < 65536 \<Longrightarrow> find (\<lambda>r. br_key r = le_bytes 2 k) (px_records pc) =
      map_option (\<lambda>(i, data). \<lparr> br_key = le_bytes 2 i, br_data = data \<rparr>) (find (\<lambda>r. fst r = k) recs)"
    by (elim exE conjE) (rule that; (assumption | blast))
  have "referenced_subnode_nids (fst (heap_finalize hb r)) = Inr (set (List.map_filter record_subnode (px_records pc)))"
    using pc_records_loaded [OF load] by (simp add: referenced_subnode_nids_def)
  also have "set (List.map_filter record_subnode (px_records pc)) = set (List.map_filter (pc_subnode \<circ> snd) props)"
    using stored_subnodes [OF stored assms(3) get]
    by (simp add: set_map_filter records image_image case_prod_unfold)
  finally have referenced: "referenced_subnode_nids (fst (heap_finalize hb r)) =
    Inr (set (List.map_filter (pc_subnode \<circ> snd) props))" .
  have "pc_get pc k =
      (case find (\<lambda>p. fst p = k) props of None \<Rightarrow> Inr None | Some (_, v) \<Rightarrow> pc_reads subnodes v)"
    if k: "k < 65536" for k
  proof (cases "find (\<lambda>p. fst p = k) props")
    case None
    then have "find (\<lambda>r. fst r = k) recs = None" using find_stored [OF stored, of k] by simp
    with None show ?thesis by (simp add: pc_get_def found [OF k])
  next
    case (Some p)
    obtain i v where p: "p = (i, v)" by (cases p)
    from Some find_stored [OF stored, of k] obtain data where
      "find (\<lambda>r. fst r = k) recs = Some (i, data)" and st: "pc_stored m v data"
      by (auto simp: p option_rel_Some1 pc_stored_rel_def)
    moreover have "(i, v) \<in> set props" using Some p by (metis find_Some_iff nth_mem)
    then have "pc_value_ok v" using assms(3) by auto
    ultimately show ?thesis
      using Some p pc_resolve_stored [OF st _ get] pc_stored_length [OF st] subs
      by (simp add: pc_get_def found [OF k])
  qed
  with load referenced show ?thesis by blast
qed

subsection \<open>Small contexts\<close>

text \<open>The bytes a list of properties takes in the heap.\<close>

definition pc_space :: "(nat \<times> PcValue) list \<Rightarrow> nat" where
  "pc_space props = sum_list (map (\<lambda>(_, v). case pc_parts v of (_, Inl _) \<Rightarrow> 0 | (_, Inr bs) \<Rightarrow> length bs) props)"

lemma pc_space_simps [simp]:
  "pc_space [] = 0"
  "pc_space (p # ps) = (case pc_parts (snd p) of (_, Inl _) \<Rightarrow> 0 | (_, Inr bs) \<Rightarrow> length bs) + pc_space ps"
  "pc_space (ps @ qs) = pc_space ps + pc_space qs"
  by (simp_all add: pc_space_def case_prod_unfold)

lemma pc_records_fit:
  assumes "length (hb_data hb) + pc_space props + 6 + 2 * (length (hb_allocations hb) + length props) \<le> MAX_BLOCK_DATA"
    and "\<forall>r\<in>set recs. length (snd r) = 6"
  shows "\<exists>recs' hb'. try_fold pc_record props (recs, hb) = Inr (recs', hb') \<and>
    length (hb_data hb') = length (hb_data hb) + pc_space props \<and>
    length (hb_allocations hb') \<le> length (hb_allocations hb) + length props \<and>
    length recs' = length recs + length props \<and> (\<forall>r\<in>set recs'. length (snd r) = 6)"
  using assms
proof (induction props arbitrary: recs hb)
  case (Cons p props)
  obtain i v where p: "p = (i, v)" by (cases p)
  have "\<exists>data hb1. encode_pc_value hb v = Inr (data, hb1) \<and> length data = 6 \<and>
      length (hb_data hb1) = length (hb_data hb) + (case pc_parts v of (_, Inl _) \<Rightarrow> 0 | (_, Inr bs) \<Rightarrow> length bs) \<and>
      length (hb_allocations hb1) \<le> Suc (length (hb_allocations hb))"
    using Cons.prems(1) by (auto simp: p encode_pc_parts pc_heap_value_def heap_try_alloc_def heap_alloc_def Let_def
        split: prod.splits sum.splits)
  then obtain data hb1 where one: "encode_pc_value hb v = Inr (data, hb1)" "length data = 6"
    "length (hb_data hb1) = length (hb_data hb) + (case pc_parts v of (_, Inl _) \<Rightarrow> 0 | (_, Inr bs) \<Rightarrow> length bs)"
    "length (hb_allocations hb1) \<le> Suc (length (hb_allocations hb))" by blast
  have "length (hb_data hb1) + pc_space props + 6 + 2 * (length (hb_allocations hb1) + length props) \<le> MAX_BLOCK_DATA"
    using Cons.prems(1) one(3,4) by (simp add: p)
  moreover have "\<forall>r\<in>set (recs @ [(i, data)]). length (snd r) = 6" using Cons.prems(2) one(2) by simp
  ultimately obtain recs' hb' where "try_fold pc_record props (recs @ [(i, data)], hb1) = Inr (recs', hb')"
    "length (hb_data hb') = length (hb_data hb1) + pc_space props"
    "length (hb_allocations hb') \<le> length (hb_allocations hb1) + length props"
    "length recs' = length (recs @ [(i, data)]) + length props" "\<forall>r\<in>set recs'. length (snd r) = 6"
    using Cons.IH [of hb1 "recs @ [(i, data)]"] by blast
  moreover have "pc_record p (recs, hb) = Inr (recs @ [(i, data)], hb1)"
    using one(1) by (simp add: p pc_record_def)
  ultimately show ?case
    using one by (intro exI [where x = recs'] exI [where x = hb']) (simp add: p)
qed simp

lemma build_bth_fits:
  assumes "length (hb_data hb) + 8 * length recs + 18 + 2 * length (hb_allocations hb) \<le> MAX_BLOCK_DATA"
    and "\<forall>r\<in>set recs. length (snd r) = 6"
  shows "\<exists>r hb'. build_bth_checked hb 2 6 recs = Inr (r, hb') \<and>
    length (hb_data hb') = length (hb_data hb) + 8 * length recs + 8"
proof -
  let ?n = "length (hb_allocations hb)"
  have n: "?n < 10000" using assms(1) by (simp add: MAX_BLOCK_DATA_def)
  have "length (concat (map (\<lambda>(key, data). le_bytes 2 key @ data) (sort_key fst recs))) = length recs * 8"
    using assms(2) length_concat_width [of "map (\<lambda>(key, data). le_bytes 2 key @ data) (sort_key fst recs)" 8]
    by (simp add: case_prod_unfold)
  with assms(1) n show ?thesis
    by (simp add: build_bth_checked_def heap_try_alloc_def heap_alloc_def heap_patch_u32_def Let_def nth_append
        MAX_BLOCK_DATA_def)
qed

lemma pc_builds:
  assumes "pc_space props + 8 * length props + 2 * length props + 30 \<le> MAX_BLOCK_DATA"
  shows "\<exists>r hb. build_pc_v2 (heap_new sig) props = Inr (r, hb) \<and>
    length (hb_data hb) = 20 + pc_space props + 8 * length props"
proof -
  have new: "length (hb_data (heap_new sig)) = 12" "length (hb_allocations (heap_new sig)) = 0"
    by (simp_all add: heap_new_def)
  have "length (hb_data (heap_new sig)) + pc_space props + 6 + 2 * (length (hb_allocations (heap_new sig)) + length props)
      \<le> MAX_BLOCK_DATA" using assms by (simp add: new)
  from pc_records_fit [OF this, of "[]"] obtain recs hb where one:
    "try_fold pc_record props ([], heap_new sig) = Inr (recs, hb)" "length (hb_data hb) = 12 + pc_space props"
    "length (hb_allocations hb) \<le> length props" "length recs = length props" "\<forall>r\<in>set recs. length (snd r) = 6"
    by (auto simp: new)
  have "length (hb_data hb) + 8 * length recs + 18 + 2 * length (hb_allocations hb) \<le> MAX_BLOCK_DATA"
    using assms one by simp
  from build_bth_fits [OF this one(5)] one show ?thesis by (auto simp: build_pc_v2_def)
qed

text \<open>
  C11: a property context reads back as it was written. When the builder accepts a list of
  properties, loading the finished heap succeeds, every property identifier yields the value
  first listed for it, as its type reads (strings through UTF-16, large values through the
  subnode they name, objects not at all), and an identifier not listed yields nothing.
\<close>

theorem pc_roundtrip:
  assumes "build_pc_v2 (heap_new sig) props = Inr (r, hb)" and "length props \<le> 2045"
    and "\<forall>(i, v)\<in>set props. i < 65536 \<and> pc_value_ok v"
  shows "\<exists>pc. pc_load_with_subnodes (fst (heap_finalize hb r)) subnodes = Inr pc \<and>
    (\<forall>k<65536. pc_get pc k =
       (case find (\<lambda>p. fst p = k) props of None \<Rightarrow> Inr None | Some (_, v) \<Rightarrow> pc_reads subnodes v))"
  using pc_written [OF assms] by blast

lemma pc_roundtrip_witness:
  "\<exists>r hb pc. build_pc_v2 (heap_new 188) [(55, PcString [104, 128512]), (23, PcI32 (- 1)), (55, PcBool True)] = Inr (r, hb) \<and>
     pc_load_with_subnodes (fst (heap_finalize hb r)) Map.empty = Inr pc \<and>
     pc_get pc 55 = Inr (Some (PvString [104, 128512])) \<and> pc_get pc 23 = Inr (Some (PvI32 (- 1))) \<and>
     pc_get pc 24 = Inr None"
proof -
  let ?props = "[(55, PcString [104, 128512]), (23, PcI32 (- 1)), (55, PcBool True)]"
  have "\<exists>r hb. build_pc_v2 (heap_new 188) ?props = Inr (r, hb)"
    by (simp add: build_pc_v2_def pc_record_def pc_heap_value_def heap_try_alloc_def heap_alloc_def
        heap_new_def MAX_BLOCK_DATA_def Let_def build_bth_checked_def heap_patch_u32_def length_utf16le
        utf16_units_def split: prod.splits)
  then obtain r hb where built: "build_pc_v2 (heap_new 188) ?props = Inr (r, hb)" by blast
  from pc_roundtrip [OF this, of Map.empty] obtain pc where
    "pc_load_with_subnodes (fst (heap_finalize hb r)) Map.empty = Inr pc"
    "\<forall>k<65536. pc_get pc k =
       (case find (\<lambda>p. fst p = k) ?props of None \<Rightarrow> Inr None | Some (_, v) \<Rightarrow> pc_reads Map.empty v)"
    by auto
  with built show ?thesis by fastforce
qed

end
