(* ===== verification/Read_Monad.thy ===== *)
theory Read_Monad
  imports Pst_Error Byte_Slices
begin

text \<open>
  The effects of the node database reader: a read returns a value or an error, appends to the log
  of integrity notes that the telemetry counts (\<^verbatim>\<open>pst-reader/src/integrity_telemetry.rs\<close>), and
  updates the set of visited pages or blocks of the traversal it belongs to. The file is a list
  of bytes; a read past its end is the error \<^verbatim>\<open>UnexpectedEof\<close> of \<^verbatim>\<open>read_exact\<close>.
\<close>

datatype Note =
    NotePageRead
  | NoteBlockRead
  | NotePageCrc u64 u32 u32
  | NoteBlockCrc u64 u32 u32
  | NoteBlockBid u64 u64 u64

record RdState =
  rd_notes :: "Note list"
  rd_visited :: "u64 set"

type_synonym 'a rd = "RdState \<Rightarrow> (PstError + 'a) \<times> RdState"

definition rd_ret :: "'a \<Rightarrow> 'a rd" where
  "rd_ret x s = (Inr x, s)"

definition rd_fail :: "PstError \<Rightarrow> 'a rd" where
  "rd_fail e s = (Inl e, s)"

definition rd_lift :: "PstError + 'a \<Rightarrow> 'a rd" where
  "rd_lift r s = (r, s)"

definition rd_bind :: "'a rd \<Rightarrow> ('a \<Rightarrow> 'b rd) \<Rightarrow> 'b rd" where
  "rd_bind m f s = (case m s of (Inl e, s') \<Rightarrow> (Inl e, s') | (Inr x, s') \<Rightarrow> f x s')"

definition rd_note :: "Note \<Rightarrow> unit rd" where
  "rd_note n s = (Inr (), s \<lparr> rd_notes := rd_notes s @ [n] \<rparr>)"

definition rd_when :: "bool \<Rightarrow> unit rd \<Rightarrow> unit rd" where
  "rd_when b m = (if b then m else rd_ret ())"

text \<open>A loop over a list with an accumulator, left at the first error.\<close>

fun rd_each :: "('b \<Rightarrow> 'a \<Rightarrow> 'a rd) \<Rightarrow> 'b list \<Rightarrow> 'a \<Rightarrow> 'a rd" where
  "rd_each f [] a = rd_ret a"
| "rd_each f (x # xs) a = rd_bind (f x a) (rd_each f xs)"

text \<open>A traversal with its own visited set, which is dropped afterwards.\<close>

definition rd_fresh :: "'a rd \<Rightarrow> 'a rd" where
  "rd_fresh m s =
     (case m (s \<lparr> rd_visited := {} \<rparr>) of (r, s') \<Rightarrow> (r, s' \<lparr> rd_visited := rd_visited s \<rparr>))"

text \<open>Entering a page or block: the depth check, then the visit.\<close>

definition rd_enter :: "(nat \<Rightarrow> PstError) \<Rightarrow> nat \<Rightarrow> u64 \<Rightarrow> nat \<Rightarrow> unit rd" where
  "rd_enter too_deep max_depth place depth s =
     (if max_depth < depth then (Inl (too_deep depth), s)
      else if place \<in> rd_visited s then (Inl (PeBtreeCycle place), s)
      else (Inr (), s \<lparr> rd_visited := insert place (rd_visited s) \<rparr>))"

definition read_exact_at :: "bytes \<Rightarrow> u64 \<Rightarrow> usize \<Rightarrow> PstError + bytes" where
  "read_exact_at file off n =
     (if off + n \<le> length file then Inr (slice_of off (off + n) file)
      else Inl (PeIo (lit ''failed to fill whole buffer'')))"

subsection \<open>Runs that end well\<close>

text \<open>
  \<open>yields m s x\<close>: from \<open>s\<close>, the read returns \<open>x\<close>, and the only notes it adds count blocks and
  pages read: no mismatch is reported.
\<close>

definition quiet :: "Note list \<Rightarrow> bool" where
  "quiet ns \<longleftrightarrow> set ns \<subseteq> {NotePageRead, NoteBlockRead}"

definition yields :: "'a rd \<Rightarrow> 'a \<Rightarrow> bool" where
  "yields m x \<longleftrightarrow>
     (\<forall>s. \<exists>ns. quiet ns \<and> m s = (Inr x, s \<lparr> rd_notes := rd_notes s @ ns \<rparr>))"

lemma quiet_simps [simp]:
  "quiet []" "quiet (a # ns) \<longleftrightarrow> (a = NotePageRead \<or> a = NoteBlockRead) \<and> quiet ns"
  "quiet (ns @ ms) \<longleftrightarrow> quiet ns \<and> quiet ms"
  by (auto simp: quiet_def)

lemma yields_ret [simp]: "yields (rd_ret x) y \<longleftrightarrow> x = y"
proof
  assume "yields (rd_ret x) y"
  then show "x = y" unfolding yields_def rd_ret_def by (metis old.prod.inject sum.inject(2))
next
  assume "x = y"
  then show "yields (rd_ret x) y"
    unfolding yields_def rd_ret_def by (intro allI exI [where x = "[]"]) simp
qed

lemma yields_lift: "r = Inr x \<Longrightarrow> yields (rd_lift r) x"
  unfolding yields_def rd_lift_def by (intro allI exI [where x = "[]"]) simp

lemma yields_note: "quiet [n] \<Longrightarrow> yields (rd_note n) ()"
  unfolding yields_def rd_note_def by (intro allI exI [where x = "[n]"]) simp

lemma yields_bind:
  assumes "yields m x" and "yields (f x) y"
  shows "yields (rd_bind m f) y"
  unfolding yields_def
proof
  fix s
  from assms(1) obtain ns where ns: "quiet ns" "m s = (Inr x, s \<lparr> rd_notes := rd_notes s @ ns \<rparr>)"
    unfolding yields_def by blast
  from assms(2) obtain ms where "quiet ms" "f x (s \<lparr> rd_notes := rd_notes s @ ns \<rparr>) =
      (Inr y, s \<lparr> rd_notes := (rd_notes s @ ns) @ ms \<rparr>)"
    unfolding yields_def by (metis RdState.select_convs(1) RdState.surjective RdState.update_convs(1))
  with ns show "\<exists>ns. quiet ns \<and> rd_bind m f s = (Inr y, s \<lparr> rd_notes := rd_notes s @ ns \<rparr>)"
    by (intro exI [where x = "ns @ ms"]) (simp add: rd_bind_def)
qed

lemma yields_each:
  assumes "\<And>i a. i < length xs \<Longrightarrow> a = g i \<Longrightarrow> yields (f (xs ! i) a) (g (Suc i))"
  shows "yields (rd_each f xs (g 0)) (g (length xs))"
  using assms
proof (induction xs arbitrary: g)
  case (Cons x xs)
  have "yields (f x (g 0)) (g 1)" using Cons.prems [of 0 "g 0"] by simp
  moreover have "yields (rd_each f xs (g 1)) (g (Suc (length xs)))"
    using Cons.IH [of "\<lambda>i. g (Suc i)"] Cons.prems [of "Suc _"] by simp
  ultimately show ?case by (simp add: yields_bind)
qed simp

end
