(* ===== verification/Pst_Crypto.thy ===== *)
theory Pst_Crypto
  imports Pst_Error
begin

text \<open>
  Decryption of data blocks (\<^verbatim>\<open>pst-reader/src/crypto.rs\<close>): the substitution table and the
  keyed exclusive or. The encoding table of the tests serves as the reference inverse.
\<close>

unbundle bit_operations_syntax

datatype CryptMethod = CryptNone | CryptPermute | CryptCyclic

definition crypt_from_byte :: "nat \<Rightarrow> PstError + CryptMethod" where
  "crypt_from_byte b =
     (if b = 0 then Inr CryptNone else if b = 1 then Inr CryptPermute
      else if b = 2 then Inr CryptCyclic else Inl (PeUnsupportedCryptMethod b))"

definition MPBB_ENCODE :: "byte list" where
  "MPBB_ENCODE = [
     65, 54, 19, 98, 168, 33, 110, 187, 244, 22, 204, 4, 127, 100, 232, 93,
     30, 242, 203, 42, 116, 197, 94, 53, 210, 149, 71, 158, 150, 45, 154, 136,
     76, 125, 132, 63, 219, 172, 49, 182, 72, 95, 246, 196, 216, 57, 139, 231,
     35, 59, 56, 142, 200, 193, 223, 37, 177, 32, 165, 70, 96, 78, 156, 251,
     170, 211, 86, 81, 69, 124, 85, 0, 7, 201, 43, 157, 133, 155, 9, 160,
     143, 173, 179, 15, 99, 171, 137, 75, 215, 167, 21, 90, 113, 102, 66, 191,
     38, 74, 107, 152, 250, 234, 119, 83, 178, 112, 5, 44, 253, 89, 58, 134,
     126, 206, 6, 235, 130, 120, 87, 199, 141, 67, 175, 180, 28, 212, 91, 205,
     226, 233, 39, 79, 195, 8, 114, 128, 207, 176, 239, 245, 40, 109, 190, 48,
     77, 52, 146, 213, 14, 60, 34, 50, 229, 228, 249, 159, 194, 209, 10, 129,
     18, 225, 238, 145, 131, 118, 227, 151, 230, 97, 138, 23, 121, 164, 183, 220,
     144, 122, 92, 140, 2, 166, 202, 105, 222, 80, 26, 17, 147, 185, 82, 135,
     88, 252, 237, 29, 55, 73, 27, 106, 224, 41, 51, 153, 189, 108, 217, 148,
     243, 64, 84, 111, 240, 198, 115, 184, 214, 62, 101, 24, 68, 31, 221, 103,
     16, 241, 12, 25, 236, 174, 3, 161, 20, 123, 169, 11, 255, 248, 163, 192,
     162, 1, 247, 46, 188, 36, 104, 117, 13, 254, 186, 47, 181, 208, 218, 61]"

definition MPBB_DECODE :: "byte list" where
  "MPBB_DECODE = [
     71, 241, 180, 230, 11, 106, 114, 72, 133, 78, 158, 235, 226, 248, 148, 83,
     224, 187, 160, 2, 232, 90, 9, 171, 219, 227, 186, 198, 124, 195, 16, 221,
     57, 5, 150, 48, 245, 55, 96, 130, 140, 201, 19, 74, 107, 29, 243, 251,
     143, 38, 151, 202, 145, 23, 1, 196, 50, 45, 110, 49, 149, 255, 217, 35,
     209, 0, 94, 121, 220, 68, 59, 26, 40, 197, 97, 87, 32, 144, 61, 131,
     185, 67, 190, 103, 210, 70, 66, 118, 192, 109, 91, 126, 178, 15, 22, 41,
     60, 169, 3, 84, 13, 218, 93, 223, 246, 183, 199, 98, 205, 141, 6, 211,
     105, 92, 134, 214, 20, 247, 165, 102, 117, 172, 177, 233, 69, 33, 112, 12,
     135, 159, 116, 164, 34, 76, 111, 191, 31, 86, 170, 46, 179, 120, 51, 80,
     176, 163, 146, 188, 207, 25, 28, 167, 99, 203, 30, 77, 62, 75, 27, 155,
     79, 231, 240, 238, 173, 58, 181, 89, 4, 234, 64, 85, 37, 81, 229, 122,
     137, 56, 104, 82, 123, 252, 39, 174, 215, 189, 250, 7, 244, 204, 142, 95,
     239, 53, 156, 132, 43, 21, 213, 119, 52, 73, 182, 18, 10, 127, 113, 136,
     253, 157, 24, 65, 125, 147, 216, 88, 44, 206, 254, 36, 175, 222, 184, 54,
     200, 161, 128, 166, 153, 152, 168, 47, 14, 129, 101, 115, 228, 194, 162, 138,
     212, 225, 17, 208, 8, 139, 42, 242, 237, 154, 100, 63, 193, 108, 249, 236]"

definition decrypt_permute :: "bytes \<Rightarrow> bytes" where
  "decrypt_permute data = map (\<lambda>b. MPBB_DECODE ! unat b) data"

text \<open>The key is the exclusive or of two 32-bit truncations of the block identifier.\<close>

definition cyclic_key :: "u64 \<Rightarrow> bytes" where
  "cyclic_key bid = le_bytes 4 (take_bit 32 bid XOR take_bit 32 (drop_bit 16 bid))"

definition decrypt_cyclic :: "u64 \<Rightarrow> bytes \<Rightarrow> bytes" where
  "decrypt_cyclic bid data =
     map (\<lambda>(i, b). b XOR cyclic_key bid ! (i mod 4)) (enumerate 0 data)"

fun decrypt_block :: "CryptMethod \<Rightarrow> u64 \<Rightarrow> bytes \<Rightarrow> bytes" where
  "decrypt_block CryptNone bid data = data"
| "decrypt_block CryptPermute bid data = decrypt_permute data"
| "decrypt_block CryptCyclic bid data = decrypt_cyclic bid data"

text \<open>The cipher a file of the given cipher is written with.\<close>

fun encrypt_block :: "CryptMethod \<Rightarrow> u64 \<Rightarrow> bytes \<Rightarrow> bytes" where
  "encrypt_block CryptNone bid data = data"
| "encrypt_block CryptPermute bid data = map (\<lambda>b. MPBB_ENCODE ! unat b) data"
| "encrypt_block CryptCyclic bid data = decrypt_cyclic bid data"

lemma length_tables: "length MPBB_ENCODE = 256" "length MPBB_DECODE = 256"
  by (simp_all add: MPBB_ENCODE_def MPBB_DECODE_def)

lemma decode_encode_table:
  "map (\<lambda>e. MPBB_DECODE ! unat e) MPBB_ENCODE = map word_of_nat [0..<256]"
  by code_simp

lemma decode_encode:
  "MPBB_DECODE ! unat (MPBB_ENCODE ! unat b) = b" for b :: byte
proof -
  have b: "unat b < 256" using unsigned_less [of b] by simp
  have "map (\<lambda>e. MPBB_DECODE ! unat e) MPBB_ENCODE ! unat b = map word_of_nat [0..<256] ! unat b"
    by (simp only: decode_encode_table)
  with b show ?thesis by (simp add: length_tables)
qed

lemma length_decrypt_block [simp]: "length (decrypt_block crypt bid data) = length data"
  by (cases crypt) (simp_all add: decrypt_permute_def decrypt_cyclic_def)

lemma decrypt_cyclic_twice: "decrypt_cyclic bid (decrypt_cyclic bid data) = data"
  by (intro nth_equalityI) (simp_all add: decrypt_cyclic_def nth_enumerate_eq xor.assoc)

lemma decrypt_block_encrypt [simp]: "decrypt_block crypt bid (encrypt_block crypt bid data) = data"
proof (cases crypt)
  case CryptPermute
  then show ?thesis by (simp add: decrypt_permute_def comp_def decode_encode)
qed (simp_all add: decrypt_cyclic_twice)

lemma length_encrypt_block [simp]: "length (encrypt_block crypt bid data) = length data"
  using length_decrypt_block [of crypt bid "encrypt_block crypt bid data"] by simp

text \<open>
  Decryption undoes encryption for every cipher, block by block, and keeps the length, which
  is why the size of a block can be taken from the index without decrypting it.
\<close>

theorem decrypt_encrypt:
  "decrypt_block crypt bid (encrypt_block crypt bid data) = data \<and>
   length (encrypt_block crypt bid data) = length data"
  by simp

end
