(* ===== verification/Block_Reader.thy ===== *)
theory Block_Reader
  imports Read_Monad Pst_Crypto
begin

text \<open>
  Data blocks (\<^verbatim>\<open>pst-reader/src/ndb/block.rs\<close>): raw blocks with their trailer, the assembly of
  XBLOCK and XXBLOCK chains, subnode trees and leaf lists. The file is a list of bytes, the block
  index a map, and CRC-32 (the crate \<^verbatim>\<open>crc32fast\<close>) a parameter. A mismatch of the trailer is noted
  and the read goes on, as in the code.
\<close>

record Bref =
  bf_bid :: u64
  bf_ib :: u64

record BbtEntry =
  bb_bref :: Bref
  bb_cb :: nat
  bb_c_ref :: nat

type_synonym BbtIndex = "u64 \<rightharpoonup> BbtEntry"

definition MAX_XBLOCK_ASSEMBLE :: usize where
  "MAX_XBLOCK_ASSEMBLE = 64 * 1024 * 1024"

definition MAX_SUBNODE_DEPTH :: nat where
  "MAX_SUBNODE_DEPTH = 32"

definition bid_is_internal :: "u64 \<Rightarrow> bool" where
  "bid_is_internal bid \<longleftrightarrow> bit bid 1"

definition bid_is_null :: "u64 \<Rightarrow> bool" where
  "bid_is_null bid \<longleftrightarrow> bid = 0"

definition align64 :: "usize \<Rightarrow> usize" where
  "align64 n = (n + 63) div 64 * 64"

definition enter_subnode_block :: "u64 \<Rightarrow> nat \<Rightarrow> unit rd" where
  "enter_subnode_block block_id depth =
     rd_enter (\<lambda>d. PeResourceLimit (lit ''subnode depth '' @ show_nat d @ lit '' exceeds max '' @
         show_nat MAX_SUBNODE_DEPTH)) MAX_SUBNODE_DEPTH block_id depth"

subsection \<open>Raw blocks\<close>

definition validate_block_trailer :: "(bytes \<Rightarrow> 32 word) \<Rightarrow> bytes \<Rightarrow> usize \<Rightarrow> u64 rd" where
  "validate_block_trailer crc raw data_len =
     (let trailer_start = align64 data_len
      in if length raw < trailer_start + 16
         then rd_fail (PeDataTruncated (trailer_start + 16) (length raw))
         else
           let trailer = slice_of trailer_start (trailer_start + 16) raw;
               stored_crc = read_u32 0 trailer;
               bid = read_u64 4 trailer;
               computed = unat (crc (slice_of 0 data_len raw))
           in rd_bind (rd_when (computed \<noteq> stored_crc) (rd_note (NoteBlockCrc bid computed stored_crc)))
                (\<lambda>_. rd_ret bid))"

definition read_raw_block :: "(bytes \<Rightarrow> 32 word) \<Rightarrow> bytes \<Rightarrow> BbtIndex \<Rightarrow> u64 \<Rightarrow> bytes rd" where
  "read_raw_block crc file bbt bid =
     (case bbt bid of
        None \<Rightarrow> rd_fail (PeBlockNotFound bid)
      | Some entry \<Rightarrow>
          let raw_size = align64 (bb_cb entry) + 16
          in rd_bind (rd_lift (read_exact_at file (bf_ib (bb_bref entry)) raw_size)) (\<lambda>raw.
             rd_bind (rd_note NoteBlockRead) (\<lambda>_.
             rd_bind (validate_block_trailer crc raw (bb_cb entry)) (\<lambda>trailer_bid.
             rd_bind (rd_when (trailer_bid \<noteq> bid)
                        (rd_note (NoteBlockBid (bf_ib (bb_bref entry)) bid trailer_bid))) (\<lambda>_.
             rd_ret raw)))))"

definition read_payload :: "(bytes \<Rightarrow> 32 word) \<Rightarrow> bytes \<Rightarrow> BbtIndex \<Rightarrow> u64 \<Rightarrow> bytes rd" where
  "read_payload crc file bbt bid = rd_bind (read_raw_block crc file bbt bid) (\<lambda>raw.
     case bbt bid of
       None \<Rightarrow> rd_fail (PeBlockNotFound bid)
     | Some entry \<Rightarrow> rd_ret (take (bb_cb entry) raw))"

subsection \<open>Chains\<close>

definition check_xblock_assemble_limit :: "usize \<Rightarrow> unit rd" where
  "check_xblock_assemble_limit lcb_total =
     (if MAX_XBLOCK_ASSEMBLE < lcb_total
      then rd_fail (PeResourceLimit (lit ''xblock/xxblock lcbTotal '' @ show_nat lcb_total @
             lit '' exceeds max '' @ show_nat MAX_XBLOCK_ASSEMBLE))
      else rd_ret ())"

text \<open>The identifiers listed in a chain block: the loop ends at the count or at the end of the data.\<close>

definition rg_bids :: "bytes \<Rightarrow> u64 list" where
  "rg_bids data =
     map (\<lambda>i. read_u64 (8 + i * 8) data)
       (takeWhile (\<lambda>i. 8 + i * 8 + 8 \<le> length data) [0..<read_u16 2 data])"

definition append_limited :: "str \<Rightarrow> bytes \<Rightarrow> bytes \<Rightarrow> bytes rd" where
  "append_limited what result chunk =
     (if MAX_XBLOCK_ASSEMBLE < length result + length chunk
      then rd_fail (PeResourceLimit (what @ lit '' assembled size exceeds max '' @ show_nat MAX_XBLOCK_ASSEMBLE))
      else rd_ret (result @ chunk))"

definition read_xblock_data ::
  "(bytes \<Rightarrow> 32 word) \<Rightarrow> bytes \<Rightarrow> BbtIndex \<Rightarrow> CryptMethod \<Rightarrow> bytes \<Rightarrow> bytes rd" where
  "read_xblock_data crc file bbt crypt xblock_data =
     (if length xblock_data < 8 then rd_fail (PeDataTruncated 8 (length xblock_data))
      else rd_bind (check_xblock_assemble_limit (read_u32 4 xblock_data)) (\<lambda>_.
        rd_each (\<lambda>child_bid result. rd_bind (read_payload crc file bbt child_bid) (\<lambda>payload.
            append_limited (lit ''xblock'') result (decrypt_block crypt child_bid payload)))
          (rg_bids xblock_data) []))"

definition read_xxblock_data ::
  "(bytes \<Rightarrow> 32 word) \<Rightarrow> bytes \<Rightarrow> BbtIndex \<Rightarrow> CryptMethod \<Rightarrow> bytes \<Rightarrow> bytes rd" where
  "read_xxblock_data crc file bbt crypt xxblock_data =
     (if length xxblock_data < 8 then rd_fail (PeDataTruncated 8 (length xxblock_data))
      else rd_bind (check_xblock_assemble_limit (read_u32 4 xxblock_data)) (\<lambda>_.
        rd_each (\<lambda>child_bid result. rd_bind (read_payload crc file bbt child_bid) (\<lambda>xblock_payload.
            rd_bind (read_xblock_data crc file bbt crypt xblock_payload) (\<lambda>chunk.
            append_limited (lit ''xxblock'') result chunk)))
          (rg_bids xxblock_data) []))"

definition read_block_data ::
  "(bytes \<Rightarrow> 32 word) \<Rightarrow> bytes \<Rightarrow> BbtIndex \<Rightarrow> u64 \<Rightarrow> CryptMethod \<Rightarrow> bytes rd" where
  "read_block_data crc file bbt bid crypt =
     (if bid_is_null bid then rd_ret []
      else rd_bind (read_payload crc file bbt bid) (\<lambda>payload.
        if \<not> bid_is_internal bid then rd_ret (decrypt_block crypt bid payload)
        else if length payload < 2 then rd_fail (PeDataTruncated 2 (length payload))
        else
          let btype = unat (payload ! 0); clevel = unat (payload ! 1)
          in if btype = 1 \<and> clevel = 1 then read_xblock_data crc file bbt crypt payload
             else if btype = 1 \<and> clevel = 2 then read_xxblock_data crc file bbt crypt payload
             else rd_fail (PeInvalidBlockType 1 btype)))"

definition block_payload_len_hint ::
  "(bytes \<Rightarrow> 32 word) \<Rightarrow> bytes \<Rightarrow> BbtIndex \<Rightarrow> u64 \<Rightarrow> u64 rd" where
  "block_payload_len_hint crc file bbt bid =
     (if bid_is_null bid then rd_ret 0
      else rd_bind (read_payload crc file bbt bid) (\<lambda>payload.
        if \<not> bid_is_internal bid
        then (case bbt bid of None \<Rightarrow> rd_fail (PeBlockNotFound bid) | Some entry \<Rightarrow> rd_ret (bb_cb entry))
        else if length payload < 8 then rd_fail (PeDataTruncated 8 (length payload))
        else
          let btype = unat (payload ! 0); clevel = unat (payload ! 1)
          in if btype = 1 \<and> (clevel = 1 \<or> clevel = 2) then rd_ret (read_u32 4 payload)
             else rd_fail (PeInvalidBlockType 1 btype)))"

definition read_leaf_block_data ::
  "(bytes \<Rightarrow> 32 word) \<Rightarrow> bytes \<Rightarrow> BbtIndex \<Rightarrow> u64 \<Rightarrow> CryptMethod \<Rightarrow> bytes rd" where
  "read_leaf_block_data crc file bbt bid crypt =
     (if bid_is_null bid \<or> bid_is_internal bid
      then rd_fail (PeInvalidBlockType 0 (if bid_is_internal bid then 1 else 0))
      else rd_bind (read_payload crc file bbt bid) (\<lambda>payload. rd_ret (decrypt_block crypt bid payload)))"

subsection \<open>Subnode trees\<close>

text \<open>
  The recursion is bounded by the depth check, so the walks are defined by recursion on the depth
  left: \<open>k\<close> left stands for the depth \<open>33 - k\<close>, and no depth left for one beyond the maximum.
\<close>

definition depth_at :: "nat \<Rightarrow> nat" where
  "depth_at k = Suc MAX_SUBNODE_DEPTH - k"

record SubnodeEntry =
  se_nid :: u64
  se_bid_data :: u64
  se_bid_sub :: u64

definition table_rows :: "nat \<Rightarrow> bytes \<Rightarrow> nat list" where
  "table_rows width payload =
     map (\<lambda>i. 8 + i * width) (takeWhile (\<lambda>i. 8 + i * width + width \<le> length payload) [0..<read_u16 2 payload])"

definition slentry_at :: "bytes \<Rightarrow> nat \<Rightarrow> SubnodeEntry" where
  "slentry_at payload offset =
     \<lparr> se_nid = read_u64 offset payload, se_bid_data = read_u64 (offset + 8) payload,
       se_bid_sub = read_u64 (offset + 16) payload \<rparr>"

fun list_subnode_entries_at ::
  "(bytes \<Rightarrow> 32 word) \<Rightarrow> bytes \<Rightarrow> BbtIndex \<Rightarrow> nat \<Rightarrow> u64 \<Rightarrow> SubnodeEntry list rd" where
  "list_subnode_entries_at crc file bbt 0 sub_bid =
     (if bid_is_null sub_bid then rd_ret []
      else rd_bind (enter_subnode_block sub_bid (depth_at 0)) (\<lambda>_. rd_ret []))"
| "list_subnode_entries_at crc file bbt (Suc k) sub_bid =
     (if bid_is_null sub_bid then rd_ret []
      else rd_bind (enter_subnode_block sub_bid (depth_at (Suc k))) (\<lambda>_.
        rd_bind (read_payload crc file bbt sub_bid) (\<lambda>payload.
        if length payload < 8 then rd_ret []
        else
          let btype = unat (payload ! 0); clevel = unat (payload ! 1)
          in if btype = 2 \<and> clevel = 0 then rd_ret (map (slentry_at payload) (table_rows 24 payload))
             else if btype = 2 \<and> clevel = 1
             then rd_each (\<lambda>offset results.
                    rd_bind (list_subnode_entries_at crc file bbt k (read_u64 (offset + 8) payload))
                      (\<lambda>child_entries. rd_ret (results @ child_entries)))
                    (table_rows 16 payload) []
             else rd_ret [])))"

definition list_subnode_entries ::
  "(bytes \<Rightarrow> 32 word) \<Rightarrow> bytes \<Rightarrow> BbtIndex \<Rightarrow> u64 \<Rightarrow> SubnodeEntry list rd" where
  "list_subnode_entries crc file bbt sub_bid =
     rd_fresh (list_subnode_entries_at crc file bbt (Suc MAX_SUBNODE_DEPTH) sub_bid)"

definition find_subnode_entry ::
  "(bytes \<Rightarrow> 32 word) \<Rightarrow> bytes \<Rightarrow> BbtIndex \<Rightarrow> u64 \<Rightarrow> u64 \<Rightarrow> SubnodeEntry option rd" where
  "find_subnode_entry crc file bbt sub_bid target_nid =
     rd_bind (list_subnode_entries crc file bbt sub_bid)
       (\<lambda>entries. rd_ret (find (\<lambda>e. se_nid e = target_nid) entries))"

text \<open>
  A search tries the children of an intermediate block in turn; only \<^verbatim>\<open>SubnodeNotFound\<close> lets it go
  on to the next.
\<close>

fun try_children :: "('b \<Rightarrow> bytes rd) \<Rightarrow> u64 \<Rightarrow> 'b list \<Rightarrow> bytes rd" where
  "try_children f target [] = rd_fail (PeSubnodeNotFound target)"
| "try_children f target (x # xs) = (\<lambda>s. case f x s of
     (Inl (PeSubnodeNotFound _), s') \<Rightarrow> try_children f target xs s'
   | (r, s') \<Rightarrow> (r, s'))"

fun read_subnode_data_at ::
  "(bytes \<Rightarrow> 32 word) \<Rightarrow> bytes \<Rightarrow> BbtIndex \<Rightarrow> u64 \<Rightarrow> CryptMethod \<Rightarrow> nat \<Rightarrow> u64 \<Rightarrow> bytes rd" where
  "read_subnode_data_at crc file bbt target crypt 0 sub_bid =
     (if bid_is_null sub_bid then rd_fail (PeSubnodeNotFound target)
      else rd_bind (enter_subnode_block sub_bid (depth_at 0)) (\<lambda>_. rd_ret []))"
| "read_subnode_data_at crc file bbt target crypt (Suc k) sub_bid =
     (if bid_is_null sub_bid then rd_fail (PeSubnodeNotFound target)
      else rd_bind (enter_subnode_block sub_bid (depth_at (Suc k))) (\<lambda>_.
        rd_bind (read_payload crc file bbt sub_bid) (\<lambda>payload.
        if length payload < 8 then rd_fail (PeDataTruncated 8 (length payload))
        else
          let btype = unat (payload ! 0); clevel = unat (payload ! 1)
          in if btype = 2 \<and> clevel = 0
             then (case find (\<lambda>e. se_nid e = target) (map (slentry_at payload) (table_rows 24 payload)) of
                     Some e \<Rightarrow> read_block_data crc file bbt (se_bid_data e) crypt
                   | None \<Rightarrow> rd_fail (PeSubnodeNotFound target))
             else if btype = 2 \<and> clevel = 1
             then try_children (\<lambda>offset.
                    read_subnode_data_at crc file bbt target crypt k (read_u64 (offset + 8) payload))
                    target (table_rows 16 payload)
             else rd_fail (PeInvalidBlockType 2 btype))))"

definition read_subnode_data ::
  "(bytes \<Rightarrow> 32 word) \<Rightarrow> bytes \<Rightarrow> BbtIndex \<Rightarrow> u64 \<Rightarrow> u64 \<Rightarrow> CryptMethod \<Rightarrow> bytes rd" where
  "read_subnode_data crc file bbt sub_bid target crypt =
     rd_fresh (read_subnode_data_at crc file bbt target crypt (Suc MAX_SUBNODE_DEPTH) sub_bid)"

subsection \<open>Leaf lists\<close>

definition enter_xblock :: "u64 \<Rightarrow> nat \<Rightarrow> unit rd" where
  "enter_xblock bid depth =
     rd_enter (\<lambda>d. PeResourceLimit (lit ''xblock tree depth '' @ show_nat d @ lit '' exceeds max '' @
         show_nat MAX_SUBNODE_DEPTH)) MAX_SUBNODE_DEPTH bid depth"

fun collect_leaf_data_bids_at ::
  "(bytes \<Rightarrow> 32 word) \<Rightarrow> bytes \<Rightarrow> BbtIndex \<Rightarrow> nat \<Rightarrow> u64 \<Rightarrow> u64 list rd" where
  "collect_leaf_data_bids_at crc file bbt 0 bid =
     (if bid_is_null bid then rd_ret [] else if \<not> bid_is_internal bid then rd_ret [bid]
      else rd_bind (enter_xblock bid (depth_at 0)) (\<lambda>_. rd_ret []))"
| "collect_leaf_data_bids_at crc file bbt (Suc k) bid =
     (if bid_is_null bid then rd_ret [] else if \<not> bid_is_internal bid then rd_ret [bid]
      else rd_bind (enter_xblock bid (depth_at (Suc k))) (\<lambda>_.
        rd_bind (read_payload crc file bbt bid) (\<lambda>payload.
        if length payload < 8 then rd_ret []
        else
          let btype = unat (payload ! 0); clevel = unat (payload ! 1)
          in if btype = 1 \<and> clevel = 1 then rd_ret (rg_bids payload)
             else if btype = 1 \<and> clevel = 2
             then rd_each (\<lambda>child leaves.
                    rd_bind (collect_leaf_data_bids_at crc file bbt k child)
                      (\<lambda>child_leaves. rd_ret (leaves @ child_leaves)))
                    (rg_bids payload) []
             else rd_fail (PeInvalidBlockType 1 btype))))"

definition collect_leaf_data_bids ::
  "(bytes \<Rightarrow> 32 word) \<Rightarrow> bytes \<Rightarrow> BbtIndex \<Rightarrow> u64 \<Rightarrow> u64 list rd" where
  "collect_leaf_data_bids crc file bbt bid =
     rd_fresh (collect_leaf_data_bids_at crc file bbt (Suc MAX_SUBNODE_DEPTH) bid)"

end
