(* ===== verification/Block_Layout.thy ===== *)
theory Block_Layout
  imports Heap_Node Pst_Crypto "HOL-Library.FSet"
begin

text \<open>
  The layout engine of the writer (\<^verbatim>\<open>pst-writer/src/lib.rs\<close>): identifiers of blocks and nodes,
  the placement of regions around the allocation-map (AMap) pages at their fixed offsets, the
  eager writer that puts leaf blocks into the temporary file at once, and the final offsets.
  \<^verbatim>\<open>HashSet\<close>s are finite sets. The file is its bytes, the position of its cursor and a script of
  outcomes for the writes to come: \<open>None\<close>, or an error that leaves the file as it was.
\<close>

subsection \<open>Identifiers\<close>

definition bid_of :: "bool \<Rightarrow> u64 \<Rightarrow> u64" where
  "bid_of internal bid = (if internal then set_bit 1 bid else unset_bit 1 bid)"

lemma bid_of_bit: "bit (bid_of internal bid) 1 = internal"
  by (simp add: bid_of_def bit_set_bit_iff bit_unset_bit_iff)

lemma bid_of_bounds: "bid \<le> bid_of internal bid + 2" "bid_of internal bid \<le> bid + 2"
proof -
  have unset: "unset_bit 1 bid = bid mod 2 + 2 * (2 * (bid div 2 div 2))"
    using unset_bit_Suc [of 0 bid] by (simp add: unset_bit_0)
  have "bid div 2 div 2 * 4 + (bid div 2 mod 2 * 2 + bid mod 2) = bid"
    using div_mult_mod_eq [of bid 2] div_mult_mod_eq [of "bid div 2" 2] by linarith
  moreover have "bid div 2 mod 2 < 2" "bid mod 2 < 2" by simp_all
  ultimately have "unset_bit 1 bid \<le> bid" "bid \<le> unset_bit 1 bid + 2" unfolding unset by linarith+
  moreover have "bid \<le> set_bit 1 bid" "set_bit 1 bid \<le> bid + 2" by (simp_all add: set_bit_eq)
  ultimately show "bid \<le> bid_of internal bid + 2" "bid_of internal bid \<le> bid + 2"
    by (auto simp: bid_of_def)
qed

text \<open>Some used identifier bounds the counter while the search goes on.\<close>

function alloc_bid_loop :: "bool \<Rightarrow> u64 fset \<Rightarrow> u64 \<Rightarrow> u64 \<times> u64 fset \<times> u64" where
  "alloc_bid_loop internal used_bids next_bid =
     (let result = bid_of internal next_bid
      in if result |\<notin>| used_bids then (result, finsert result used_bids, next_bid + 1)
         else alloc_bid_loop internal used_bids (next_bid + 1))"
  by pat_completeness auto

termination
proof (relation "measure (\<lambda>(internal, used, n). Max (insert 0 (fset used)) + 3 - n)", goal_cases)
  case (2 internal used n result)
  then have "result \<in> fset used" by simp
  then have "result \<le> Max (insert 0 (fset used))" by (intro Max_ge) auto
  then have "n \<le> Max (insert 0 (fset used)) + 2"
    using 2(1) bid_of_bounds(1) [of n internal] by linarith
  then show ?case by simp
qed simp


declare alloc_bid_loop.simps [simp del]

subsection \<open>AMap-aware placement\<close>

definition AMAP_FIRST_OFFSET :: u64 where
  "AMAP_FIRST_OFFSET = 17408"

definition AMAP_INTERVAL :: u64 where
  "AMAP_INTERVAL = 253952"

definition HEADER_SIZE :: u64 where
  "HEADER_SIZE = 4096"

definition PAGE_SIZE :: u64 where
  "PAGE_SIZE = 512"

definition BLOCK_ALIGN :: u64 where
  "BLOCK_ALIGN = 64"

definition PTYPE_AMAP :: nat where
  "PTYPE_AMAP = 0x84"

record PageEntry =
  pe_bid :: u64
  pe_ptype :: nat
  pe_offset :: u64

definition is_amap_page_offset :: "u64 \<Rightarrow> bool" where
  "is_amap_page_offset offset \<longleftrightarrow>
     \<not> offset < AMAP_FIRST_OFFSET \<and> (offset - AMAP_FIRST_OFFSET) mod AMAP_INTERVAL = 0"

definition next_amap_at_or_after :: "u64 \<Rightarrow> u64" where
  "next_amap_at_or_after offset =
     (if offset \<le> AMAP_FIRST_OFFSET then AMAP_FIRST_OFFSET
      else
        let rel = offset - AMAP_FIRST_OFFSET; rem = rel mod AMAP_INTERVAL
        in if rem = 0 then offset else offset + (AMAP_INTERVAL - rem))"

definition align_up :: "u64 \<Rightarrow> u64 \<Rightarrow> u64" where
  "align_up value alignment = (value + (alignment - 1)) div alignment * alignment"

text \<open>The variables that placement updates by reference.\<close>

record Placing =
  pl_cursor :: u64
  pl_amap_pages :: "PageEntry list"
  pl_amap_page_offsets :: "u64 fset"
  pl_used_bids :: "u64 fset"
  pl_next_bid :: u64
  pl_scan_steps :: u64

definition amap_ensure_page :: "u64 \<Rightarrow> Placing \<Rightarrow> Placing" where
  "amap_ensure_page amap_off p =
     (if amap_off |\<in>| pl_amap_page_offsets p then p
      else
        let (bid, used, next_bid) = alloc_bid_loop True (pl_used_bids p) (pl_next_bid p)
        in p \<lparr> pl_amap_page_offsets := finsert amap_off (pl_amap_page_offsets p),
               pl_used_bids := used, pl_next_bid := next_bid,
               pl_amap_pages := pl_amap_pages p @
                 [\<lparr> pe_bid = bid, pe_ptype = PTYPE_AMAP, pe_offset = amap_off \<rparr>] \<rparr>)"

text \<open>
  The placement loop. A region that does not fit between two AMap pages would keep it running, so
  not returning is the value \<open>None\<close>.
\<close>

partial_function (option) amap_place_loop :: "u64 \<Rightarrow> u64 \<Rightarrow> Placing \<Rightarrow> Placing option" where
  "amap_place_loop size0 align p =
     (let p = p \<lparr> pl_scan_steps := saturating_add64 (pl_scan_steps p) 1 \<rparr>; cursor = pl_cursor p
      in if is_amap_page_offset cursor
         then amap_place_loop size0 align
                ((amap_ensure_page cursor p) \<lparr> pl_cursor := align_up (cursor + PAGE_SIZE) align \<rparr>)
         else
           let amap = next_amap_at_or_after cursor;
               region_end = cursor + size0;
               amap_end = amap + PAGE_SIZE
           in if cursor < amap_end \<and> amap < region_end
              then if cursor < amap \<and> region_end \<le> amap then Some p
                   else amap_place_loop size0 align
                          ((amap_ensure_page amap p) \<lparr> pl_cursor := align_up amap_end align \<rparr>)
              else Some p)"

definition amap_place_region :: "u64 \<Rightarrow> u64 \<Rightarrow> Placing \<Rightarrow> (u64 \<times> Placing) option" where
  "amap_place_region size0 align p =
     (case amap_place_loop size0 align (p \<lparr> pl_cursor := align_up (pl_cursor p) align \<rparr>) of
        None \<Rightarrow> None
      | Some p \<Rightarrow> Some (pl_cursor p, p \<lparr> pl_cursor := pl_cursor p + size0 \<rparr>))"

subsection \<open>What placement guarantees\<close>

lemma alloc_bid_loop_spec:
  "alloc_bid_loop internal used n = (bid, used', n') \<Longrightarrow>
    bid |\<notin>| used \<and> used' = finsert bid used \<and> bit bid 1 = internal \<and> n < n'"
proof (induction internal used n rule: alloc_bid_loop.induct)
  case (1 internal used n)
  show ?case
  proof (cases "bid_of internal n |\<in>| used")
    case True
    with 1 have "alloc_bid_loop internal used (n + 1) = (bid, used', n')"
      by (simp add: alloc_bid_loop.simps [of internal used n] Let_def)
    with 1 True show ?thesis by fastforce
  next
    case False
    with 1(2) show ?thesis
      using bid_of_bit [of internal n] by (auto simp: alloc_bid_loop.simps [of internal used n] Let_def)
  qed
qed

lemma amap_slot_iff: "is_amap_page_offset a \<longleftrightarrow> (\<exists>k. a = 17408 + k * 253952)"
proof
  assume "is_amap_page_offset a"
  then have "17408 \<le> a" "253952 dvd a - 17408"
    by (simp_all add: is_amap_page_offset_def AMAP_FIRST_OFFSET_def AMAP_INTERVAL_def mod_0_imp_dvd)
  then show "\<exists>k. a = 17408 + k * 253952" by (auto elim!: dvdE simp: le_iff_add mult.commute)
qed (auto simp: is_amap_page_offset_def AMAP_FIRST_OFFSET_def AMAP_INTERVAL_def)

text \<open>A position outside the AMap pages: not strictly inside any of them.\<close>

definition clear_of_amaps :: "u64 \<Rightarrow> bool" where
  "clear_of_amaps c \<longleftrightarrow> (\<forall>a. is_amap_page_offset a \<longrightarrow> c \<le> a \<or> a + PAGE_SIZE \<le> c)"

text \<open>The bookkeeping of AMap pages: one page per registered slot, with identifiers of its own.\<close>

definition amaps_ok :: "Placing \<Rightarrow> bool" where
  "amaps_ok p \<longleftrightarrow> fset (pl_amap_page_offsets p) = pe_offset ` set (pl_amap_pages p) \<and>
     distinct (map pe_offset (pl_amap_pages p)) \<and> distinct (map pe_bid (pl_amap_pages p)) \<and>
     (\<forall>x\<in>set (pl_amap_pages p). pe_ptype x = PTYPE_AMAP \<and> is_amap_page_offset (pe_offset x) \<and>
        pe_bid x |\<in>| pl_used_bids p \<and> bit (pe_bid x) 1)"

definition slots_below :: "Placing \<Rightarrow> bool" where
  "slots_below p \<longleftrightarrow>
     (\<forall>a. is_amap_page_offset a \<longrightarrow> a < pl_cursor p \<longrightarrow> a |\<in>| pl_amap_page_offsets p)"

definition placing_grows :: "Placing \<Rightarrow> Placing \<Rightarrow> bool" where
  "placing_grows p p' \<longleftrightarrow>
     (\<exists>new. pl_amap_pages p' = pl_amap_pages p @ new \<and>
        fset (pl_used_bids p') = fset (pl_used_bids p) \<union> pe_bid ` set new \<and>
        pe_bid ` set new \<inter> fset (pl_used_bids p) = {}) \<and>
     pl_amap_page_offsets p |\<subseteq>| pl_amap_page_offsets p' \<and> pl_next_bid p \<le> pl_next_bid p'"

lemma placing_grows_refl: "pl_amap_pages p' = pl_amap_pages p \<Longrightarrow> pl_used_bids p' = pl_used_bids p \<Longrightarrow>
    pl_amap_page_offsets p' = pl_amap_page_offsets p \<Longrightarrow> pl_next_bid p' = pl_next_bid p \<Longrightarrow> placing_grows p p'"
  by (auto simp: placing_grows_def)

lemma placing_grows_trans: "placing_grows p q \<Longrightarrow> placing_grows q r \<Longrightarrow> placing_grows p r"
  unfolding placing_grows_def
proof (elim conjE exE, intro conjI)
  fix new1 new2
  assume "pl_amap_pages q = pl_amap_pages p @ new1" "pl_amap_pages r = pl_amap_pages q @ new2"
    "fset (pl_used_bids q) = fset (pl_used_bids p) \<union> pe_bid ` set new1"
    "fset (pl_used_bids r) = fset (pl_used_bids q) \<union> pe_bid ` set new2"
    "pe_bid ` set new1 \<inter> fset (pl_used_bids p) = {}" "pe_bid ` set new2 \<inter> fset (pl_used_bids q) = {}"
  then show "\<exists>new. pl_amap_pages r = pl_amap_pages p @ new \<and>
      fset (pl_used_bids r) = fset (pl_used_bids p) \<union> pe_bid ` set new \<and>
      pe_bid ` set new \<inter> fset (pl_used_bids p) = {}"
    by (intro exI [where x = "new1 @ new2"]) auto
qed auto

lemma amap_ensure_page_spec:
  assumes "amaps_ok p" and "is_amap_page_offset a"
  shows "amaps_ok (amap_ensure_page a p)" and "placing_grows p (amap_ensure_page a p)"
    and "a |\<in>| pl_amap_page_offsets (amap_ensure_page a p)"
    and "pl_cursor (amap_ensure_page a p) = pl_cursor p"
    and "fset (pl_amap_page_offsets (amap_ensure_page a p)) = insert a (fset (pl_amap_page_offsets p))"
proof -
  obtain bid used n where loop: "alloc_bid_loop True (pl_used_bids p) (pl_next_bid p) = (bid, used, n)"
    by (cases "alloc_bid_loop True (pl_used_bids p) (pl_next_bid p)")
  note spec = alloc_bid_loop_spec [OF loop]
  show "amaps_ok (amap_ensure_page a p)"
  proof (cases "a |\<in>| pl_amap_page_offsets p")
    case False
    with assms have "a \<notin> pe_offset ` set (pl_amap_pages p)" by (simp add: amaps_ok_def)
    moreover have "bid \<notin> pe_bid ` set (pl_amap_pages p)" using assms(1) spec by (auto simp: amaps_ok_def)
    ultimately show ?thesis
      using False assms spec loop by (auto simp: amap_ensure_page_def amaps_ok_def Let_def)
  qed (simp add: amap_ensure_page_def assms)
  show "placing_grows p (amap_ensure_page a p)"
    using spec loop by (auto simp: amap_ensure_page_def placing_grows_def Let_def)
  show "a |\<in>| pl_amap_page_offsets (amap_ensure_page a p)"
    "pl_cursor (amap_ensure_page a p) = pl_cursor p"
    "fset (pl_amap_page_offsets (amap_ensure_page a p)) = insert a (fset (pl_amap_page_offsets p))"
    using loop by (auto simp: amap_ensure_page_def Let_def)
qed

lemma next_amap_spec:
  "is_amap_page_offset (next_amap_at_or_after c) \<and> c \<le> next_amap_at_or_after c \<and>
    (\<forall>a. is_amap_page_offset a \<longrightarrow> c \<le> a \<longrightarrow> next_amap_at_or_after c \<le> a)"
proof -
  show "is_amap_page_offset (next_amap_at_or_after c) \<and> c \<le> next_amap_at_or_after c \<and>
    (\<forall>a. is_amap_page_offset a \<longrightarrow> c \<le> a \<longrightarrow> next_amap_at_or_after c \<le> a)"
  proof (cases "c \<le> 17408")
    case True
    then show ?thesis
      by (auto simp: next_amap_at_or_after_def AMAP_FIRST_OFFSET_def amap_slot_iff)
  next
    case False
    define q s where "q = (c - 17408) div 253952" and "s = (c - 17408) mod 253952"
    have c: "c = 17408 + q * 253952 + s" and s: "s < 253952"
      using False div_mult_mod_eq [of "c - 17408" 253952] unfolding q_def s_def by simp_all
    have eq: "next_amap_at_or_after c = 17408 + (if s = 0 then q else Suc q) * 253952"
      using False c s by (simp add: next_amap_at_or_after_def AMAP_FIRST_OFFSET_def AMAP_INTERVAL_def Let_def s_def [symmetric])
    have least: "q * 253952 + s \<le> k * 253952 \<Longrightarrow> (if s = 0 then q else Suc q) * 253952 \<le> k * 253952" for k
    proof -
      assume le: "q * 253952 + s \<le> k * 253952"
      show ?thesis
      proof (cases "s = 0")
        case False
        have "q < k"
        proof (rule ccontr)
          assume "\<not> q < k"
          then have "k * 253952 \<le> q * 253952" by simp
          with le False show False by linarith
        qed
        then have "Suc q * 253952 \<le> k * 253952" by (intro mult_le_mono1) simp
        with False show ?thesis by simp
      qed (use le in simp)
    qed
    have "17408 + (if s = 0 then q else Suc q) * 253952 \<le> a"
      if "is_amap_page_offset a" "c \<le> a" for a
    proof -
      from that(1) obtain k where "a = 17408 + k * 253952" by (auto simp: amap_slot_iff)
      with least [of k] that(2) c show ?thesis by linarith
    qed
    moreover have "c \<le> 17408 + (if s = 0 then q else Suc q) * 253952" using c s by simp
    ultimately show ?thesis unfolding eq by (auto simp: amap_slot_iff)
  qed
qed

lemmas next_amap_spec' = next_amap_spec [THEN conjunct1] next_amap_spec [THEN conjunct2, THEN conjunct1]
  next_amap_spec [THEN conjunct2, THEN conjunct2, rule_format]

lemma align_up_spec:
  assumes "0 < n"
  shows "n dvd align_up c n" "c \<le> align_up c n" "n dvd a \<Longrightarrow> c \<le> a \<Longrightarrow> align_up c n \<le> a"
    "n dvd c \<Longrightarrow> align_up c n = c"
proof -
  show dvd: "n dvd align_up c n" by (simp add: align_up_def)
  have "(c + (n - 1)) div n * n + (c + (n - 1)) mod n = c + (n - 1)" by (rule div_mult_mod_eq)
  moreover have "(c + (n - 1)) mod n \<le> n - 1" using assms by (simp add: less_Suc_eq_le [symmetric])
  ultimately have le: "c \<le> align_up c n" and up: "align_up c n \<le> c + (n - 1)"
    unfolding align_up_def using assms by linarith+
  then show "c \<le> align_up c n" by simp
  show least: "align_up c n \<le> a" if "n dvd a" "c \<le> a" for a
  proof -
    from dvd that(1) obtain x y where xy: "align_up c n = n * x" "a = n * y" by (auto elim!: dvdE)
    have "n * x < n * Suc y" using up that(2) assms xy by (simp add: algebra_simps)
    then have "x < Suc y" by (simp only: mult_less_cancel1)
    with xy show ?thesis by simp
  qed
  show "align_up c n = c" if "n dvd c" using least [of c] that le by (simp add: le_antisym)
qed

lemma slot_aligned:
  assumes "is_amap_page_offset a" and "n dvd 512"
  shows "n dvd a + PAGE_SIZE" "n dvd a"
proof -
  from assms(1) obtain k where "a = 512 * (34 + k * 496)" by (auto simp: amap_slot_iff)
  then have "512 dvd a" by simp
  then show "n dvd a" "n dvd a + PAGE_SIZE" using assms(2) by (auto simp: PAGE_SIZE_def intro: dvd_trans dvd_add)
qed

lemma amap_slots_apart:
  assumes "is_amap_page_offset a" and "is_amap_page_offset b" and "a < b"
  shows "a + AMAP_INTERVAL \<le> b"
proof -
  from assms obtain i j where ij: "a = 17408 + i * 253952" "b = 17408 + j * 253952" by (auto simp: amap_slot_iff)
  with assms(3) have "i < j" by simp
  then have "Suc i * 253952 \<le> j * 253952" by (intro mult_le_mono1) simp
  with ij show ?thesis by (simp add: AMAP_INTERVAL_def)
qed

lemma clear_after_slot: "is_amap_page_offset a \<Longrightarrow> clear_of_amaps (a + PAGE_SIZE)"
  unfolding clear_of_amaps_def
proof (intro allI impI)
  fix b assume ab: "is_amap_page_offset a" "is_amap_page_offset b"
  show "a + PAGE_SIZE \<le> b \<or> b + PAGE_SIZE \<le> a + PAGE_SIZE"
    using amap_slots_apart [of a b] ab by (cases "a < b") (auto simp: AMAP_INTERVAL_def PAGE_SIZE_def)
qed

lemma clear_align_up:
  assumes "clear_of_amaps c" and "n dvd 512" and "0 < n"
  shows "clear_of_amaps (align_up c n)"
  unfolding clear_of_amaps_def
proof (intro allI impI)
  fix a assume a: "is_amap_page_offset a"
  with assms(1) have "c \<le> a \<or> a + PAGE_SIZE \<le> c" by (simp add: clear_of_amaps_def)
  then show "align_up c n \<le> a \<or> a + PAGE_SIZE \<le> align_up c n"
    using align_up_spec(2) [OF assms(3), where c = c] align_up_spec(3) [OF assms(3) slot_aligned(2) [OF a assms(2)], where c = c]
    by linarith
qed

text \<open>The result of placing a region at a position the loop accepts.\<close>

definition placed_at :: "u64 \<Rightarrow> u64 \<Rightarrow> Placing \<Rightarrow> u64 \<Rightarrow> Placing \<Rightarrow> bool" where
  "placed_at size0 align p off p' \<longleftrightarrow>
     align dvd off \<and> pl_cursor p \<le> off \<and> pl_cursor p' = off + size0 \<and>
     (\<forall>a. is_amap_page_offset a \<longrightarrow> off + size0 \<le> a \<or> a + PAGE_SIZE \<le> off) \<and>
     placing_grows p p' \<and> amaps_ok p' \<and> slots_below p'"

lemma place_loop_accepts:
  assumes "\<not> is_amap_page_offset (pl_cursor p)"
    and "pl_cursor p + size0 \<le> next_amap_at_or_after (pl_cursor p)"
  shows "amap_place_loop size0 align p = Some (p \<lparr> pl_scan_steps := saturating_add64 (pl_scan_steps p) 1 \<rparr>)"
  using assms by (subst amap_place_loop.simps) (simp add: Let_def)

text \<open>After an AMap page, a region that fits between two of them is accepted.\<close>

lemma place_loop_after_slot:
  assumes "is_amap_page_offset a" and "pl_cursor p = a + PAGE_SIZE" and "size0 + PAGE_SIZE \<le> AMAP_INTERVAL"
  shows "amap_place_loop size0 align p = Some (p \<lparr> pl_scan_steps := saturating_add64 (pl_scan_steps p) 1 \<rparr>)"
proof (rule place_loop_accepts)
  have later: "a + AMAP_INTERVAL \<le> b" if "is_amap_page_offset b" "pl_cursor p \<le> b" for b
    using amap_slots_apart [OF assms(1) that(1)] that(2) assms(2) by (simp add: PAGE_SIZE_def)
  show "\<not> is_amap_page_offset (pl_cursor p)"
    using later [of "pl_cursor p"] assms(2) by (auto simp: PAGE_SIZE_def AMAP_INTERVAL_def)
  show "pl_cursor p + size0 \<le> next_amap_at_or_after (pl_cursor p)"
    using later [OF next_amap_spec'(1,2)] assms(2,3) by simp
qed

lemma placed_atI:
  assumes "amaps_ok p" and "slots_below p" and "clear_of_amaps (pl_cursor p)" and "align dvd pl_cursor p"
    and "\<not> is_amap_page_offset (pl_cursor p)" and "pl_cursor p + size0 \<le> next_amap_at_or_after (pl_cursor p)"
  shows "placed_at size0 align p (pl_cursor p)
    (p \<lparr> pl_scan_steps := n, pl_cursor := pl_cursor p + size0 \<rparr>)"
proof -
  have free: "pl_cursor p + size0 \<le> a \<or> a + PAGE_SIZE \<le> pl_cursor p" if "is_amap_page_offset a" for a
    using assms(3,6) that next_amap_spec'(3) [OF that, of "pl_cursor p"]
    by (auto simp: clear_of_amaps_def dest!: spec [where x = a])
  moreover have "a < pl_cursor p" if "is_amap_page_offset a" "a < pl_cursor p + size0" for a
    using free [OF that(1)] that(2) by (auto simp: PAGE_SIZE_def)
  ultimately show ?thesis
    using assms by (auto simp: placed_at_def slots_below_def amaps_ok_def intro: placing_grows_refl)
qed

lemma placed_at_after_slot:
  assumes "amaps_ok p" and "slots_below p" and "is_amap_page_offset a" and "pl_cursor p \<le> a"
    and "a \<le> next_amap_at_or_after (pl_cursor p)" and "align dvd 512" "0 < align"
    and "size0 + PAGE_SIZE \<le> AMAP_INTERVAL"
  shows "\<exists>n. amap_place_loop size0 align ((amap_ensure_page a p) \<lparr> pl_cursor := align_up (a + PAGE_SIZE) align \<rparr>) =
      Some ((amap_ensure_page a p) \<lparr> pl_scan_steps := n, pl_cursor := a + PAGE_SIZE \<rparr>) \<and>
    placed_at size0 align p (a + PAGE_SIZE)
      ((amap_ensure_page a p) \<lparr> pl_scan_steps := n, pl_cursor := a + PAGE_SIZE + size0 \<rparr>)"
proof -
  let ?q = "(amap_ensure_page a p) \<lparr> pl_cursor := a + PAGE_SIZE \<rparr>"
  note ens = amap_ensure_page_spec [OF assms(1,3)]
  have up: "align_up (a + PAGE_SIZE) align = a + PAGE_SIZE"
    using align_up_spec(4) [OF assms(7) slot_aligned(1) [OF assms(3,6)]] .
  have later: "a + AMAP_INTERVAL \<le> b" if "is_amap_page_offset b" "a + PAGE_SIZE \<le> b" for b
    using amap_slots_apart [OF assms(3) that(1)] that(2) by (simp add: PAGE_SIZE_def)
  have q: "amaps_ok ?q" using ens(1) by (simp add: amaps_ok_def)
  have "b \<in> insert a (fset (pl_amap_page_offsets p))"
    if "is_amap_page_offset b" "b < a + PAGE_SIZE" for b
  proof (cases "b < pl_cursor p")
    case True
    with assms(2) that(1) show ?thesis by (simp add: slots_below_def)
  next
    case False
    with next_amap_spec'(3) [OF that(1), of "pl_cursor p"] assms(5) have "a \<le> b" by simp
    moreover have "\<not> a < b" using amap_slots_apart [OF assms(3) that(1)] that(2)
      by (auto simp: AMAP_INTERVAL_def PAGE_SIZE_def)
    ultimately show ?thesis by simp
  qed
  then have "slots_below ?q" using ens(5) by (auto simp: slots_below_def)
  moreover have "\<not> is_amap_page_offset (a + PAGE_SIZE)"
    using later [of "a + PAGE_SIZE"] by (auto simp: PAGE_SIZE_def AMAP_INTERVAL_def)
  moreover have "a + PAGE_SIZE + size0 \<le> next_amap_at_or_after (a + PAGE_SIZE)"
    using later [OF next_amap_spec'(1,2)] assms(8) by simp
  ultimately have "placed_at size0 align ?q (a + PAGE_SIZE) (?q \<lparr> pl_scan_steps := n, pl_cursor := a + PAGE_SIZE + size0 \<rparr>)" for n
    using placed_atI [OF q, of align size0 n] clear_after_slot [OF assms(3)] slot_aligned(1) [OF assms(3,6)] by simp
  then have "placed_at size0 align p (a + PAGE_SIZE)
      ((amap_ensure_page a p) \<lparr> pl_scan_steps := n, pl_cursor := a + PAGE_SIZE + size0 \<rparr>)" for n
    using placing_grows_trans [OF ens(2)] assms(4) ens(4)
    by (fastforce simp: placed_at_def placing_grows_def)
  moreover have "amap_place_loop size0 align ?q =
      Some (?q \<lparr> pl_scan_steps := saturating_add64 (pl_scan_steps ?q) 1 \<rparr>)"
    by (rule place_loop_after_slot [OF assms(3) _ assms(8)]) simp
  moreover have "?q \<lparr> pl_scan_steps := n \<rparr> =
      (amap_ensure_page a p) \<lparr> pl_scan_steps := n, pl_cursor := a + PAGE_SIZE \<rparr>" for n
    by (cases "amap_ensure_page a p") simp
  ultimately show ?thesis unfolding up by metis
qed

lemma amap_place_region_placed:
  assumes "amaps_ok p" and "slots_below p" and "clear_of_amaps (pl_cursor p)"
    and "align dvd 512" "0 < align" and "size0 + PAGE_SIZE \<le> AMAP_INTERVAL"
  shows "\<exists>off p'. amap_place_region size0 align p = Some (off, p') \<and> placed_at size0 align p off p'"
proof -
  let ?c = "align_up (pl_cursor p) align"
  let ?p = "p \<lparr> pl_cursor := ?c \<rparr>"
  let ?s = "?p \<lparr> pl_scan_steps := saturating_add64 (pl_scan_steps p) 1 \<rparr>"
  note up = align_up_spec(1,2) [OF assms(5), of "pl_cursor p"]
  note clear = clear_align_up [OF assms(3,4,5)]
  have ok: "amaps_ok ?s" using assms(1) by (simp add: amaps_ok_def)
  have slots: "slots_below ?s"
    unfolding slots_below_def
  proof (intro allI impI)
    fix a assume a: "is_amap_page_offset a" "a < pl_cursor ?s"
    have "a < pl_cursor p"
      using align_up_spec(3) [OF assms(5) slot_aligned(2) [OF a(1) assms(4)], where c = "pl_cursor p"] a(2)
      by (cases "pl_cursor p \<le> a") simp_all
    with a(1) assms(2) show "a |\<in>| pl_amap_page_offsets ?s" by (simp add: slots_below_def)
  qed
  have lift: "placed_at size0 align ?s off q \<Longrightarrow> placed_at size0 align p off q" for off q
    using up(2) by (auto simp: placed_at_def placing_grows_def)
  show ?thesis
  proof (cases "is_amap_page_offset ?c \<or> next_amap_at_or_after ?c < ?c + size0")
    case False
    then show ?thesis
      using place_loop_accepts [of ?p size0 align] placed_atI [OF ok slots, of align size0] clear up(1) lift
      by (auto simp: amap_place_region_def)
  next
    case True
    define a where "a = (if is_amap_page_offset ?c then ?c else next_amap_at_or_after ?c)"
    have a: "is_amap_page_offset a" "?c \<le> a" "a \<le> next_amap_at_or_after ?c"
      using next_amap_spec'(1,2) [of ?c] by (auto simp: a_def)
    have "amap_place_loop size0 align ?p =
        amap_place_loop size0 align ((amap_ensure_page a ?s) \<lparr> pl_cursor := align_up (a + PAGE_SIZE) align \<rparr>)"
      using True a(2) unfolding a_def
      by (subst amap_place_loop.simps) (auto simp: Let_def PAGE_SIZE_def)
    with placed_at_after_slot [OF ok slots a(1), of align size0] a assms(4,5,6) lift show ?thesis
      by (fastforce simp: amap_place_region_def)
  qed
qed

end
