(* ===== verification/Layout_Writer.thy ===== *)
theory Layout_Writer
  imports Block_Layout
begin

text \<open>
  The state of the layout engine and its operations (\<^verbatim>\<open>pst-writer/src/lib.rs\<close>, and the block
  chains of \<^verbatim>\<open>pst-writer/src/production.rs\<close>). An operation returns an error or a value together
  with the layout as it is then, since callers go on after some errors; not returning is \<open>None\<close>.
  CRC-32 is a parameter.
\<close>

record NodeEntry =
  ne_nid :: u64
  ne_bid_data :: u64
  ne_bid_sub :: u64
  ne_nid_parent :: u64

record BlockEntry =
  be_bid :: u64
  be_data :: bytes
  be_offset :: u64
  be_len :: u32
  be_on_disk :: bool

definition block_in_memory :: "u64 \<Rightarrow> bytes \<Rightarrow> BlockEntry" where
  "block_in_memory bid data =
     \<lparr> be_bid = bid, be_data = data, be_offset = 0, be_len = length data mod 2 ^ 32, be_on_disk = False \<rparr>"

definition block_on_disk :: "u64 \<Rightarrow> u64 \<Rightarrow> u32 \<Rightarrow> BlockEntry" where
  "block_on_disk bid offset len =
     \<lparr> be_bid = bid, be_data = [], be_offset = offset, be_len = len, be_on_disk = True \<rparr>"

definition block_size_of :: "usize \<Rightarrow> u64" where
  "block_size_of len = align_up len BLOCK_ALIGN + 16"

subsection \<open>The temporary file\<close>

record File =
  fl_bytes :: bytes
  fl_pos :: u64
  fl_outcomes :: "str option list"

text \<open>A write past the end fills the gap with zeros.\<close>

definition put_bytes :: "u64 \<Rightarrow> bytes \<Rightarrow> bytes \<Rightarrow> bytes" where
  "put_bytes offset data bytes =
     overwrite offset data (bytes @ replicate (offset + length data - length bytes) 0)"

definition file_write :: "u64 \<Rightarrow> bytes \<Rightarrow> File \<Rightarrow> (WriterError + unit) \<times> File" where
  "file_write offset data f =
     (case fl_outcomes f of
        Some e # rest \<Rightarrow> (Inl (WeIo e), f \<lparr> fl_outcomes := rest \<rparr>)
      | outcomes \<Rightarrow> (Inr (), f \<lparr> fl_bytes := put_bytes offset data (fl_bytes f), fl_outcomes := tl outcomes \<rparr>))"

definition positioned_write_all :: "u64 \<Rightarrow> bytes \<Rightarrow> File \<Rightarrow> u64 \<Rightarrow> (WriterError + u64) \<times> File" where
  "positioned_write_all offset data f file_pos =
     (if file_pos = offset
      then (case file_write (fl_pos f) data f of
              (Inl e, f) \<Rightarrow> (Inl e, f)
            | (Inr _, f) \<Rightarrow> (Inr (offset + length data), f \<lparr> fl_pos := fl_pos f + length data \<rparr>))
      else (case file_write offset data f of
              (Inl e, f) \<Rightarrow> (Inl e, f)
            | (Inr _, f) \<Rightarrow> (Inr (offset + length data), f \<lparr> fl_pos := offset + length data \<rparr>)))"

subsection \<open>Bytes of blocks and AMap pages\<close>

definition data_block_bytes :: "(bytes \<Rightarrow> 32 word) \<Rightarrow> u64 \<Rightarrow> bytes \<Rightarrow> bytes" where
  "data_block_bytes crc bid data =
     (let aligned_len = align_up (length data) BLOCK_ALIGN
      in data @ replicate (aligned_len - length data) 0 @
         le_bytes 4 (unat (crc data)) @ le_bytes 8 bid @ replicate 4 0)"

definition page_sig :: "u64 \<Rightarrow> u64 \<Rightarrow> nat" where
  "page_sig ib bid =
     (let value = take_bit 32 ib XOR take_bit 32 bid XOR take_bit 32 (drop_bit 32 bid)
      in take_bit 16 (drop_bit 16 value XOR take_bit 16 value))"

definition page_trailer :: "(bytes \<Rightarrow> 32 word) \<Rightarrow> nat \<Rightarrow> u64 \<Rightarrow> u64 \<Rightarrow> bytes \<Rightarrow> bytes" where
  "page_trailer crc ptype offset bid body =
     [word_of_nat ptype, word_of_nat ptype] @ le_bytes 2 (page_sig offset bid) @
     le_bytes 4 (unat (crc body)) @ le_bytes 8 bid"

definition amap_page_bytes :: "(bytes \<Rightarrow> 32 word) \<Rightarrow> u64 \<Rightarrow> u64 \<Rightarrow> bytes" where
  "amap_page_bytes crc offset bid =
     (let body = replicate 496 255 in body @ page_trailer crc PTYPE_AMAP offset bid body)"

subsection \<open>The layout\<close>

record EagerWriteCtx =
  ew_file :: File
  ew_cursor :: u64
  ew_amap_pages :: "PageEntry list"
  ew_amap_stubs_written :: "u64 fset"
  ew_amap_page_offsets :: "u64 fset"
  ew_stubbed_upto :: usize
  ew_file_pos :: u64
  ew_amap_scan_steps :: u64

record Layout =
  ly_nodes :: "NodeEntry list"
  ly_blocks :: "BlockEntry list"
  ly_pages :: "PageEntry list"
  ly_next_bid_counter :: u64
  ly_next_nid_index :: u32
  ly_used_bids :: "u64 fset"
  ly_used_nids :: "u64 fset"
  ly_eager :: "EagerWriteCtx option"

type_synonym 'a lay = "Layout \<Rightarrow> ((WriterError + 'a) \<times> Layout) option"

definition lay_ret :: "'a \<Rightarrow> 'a lay" where
  "lay_ret x lay = Some (Inr x, lay)"

definition lay_fail :: "WriterError \<Rightarrow> 'a lay" where
  "lay_fail e lay = Some (Inl e, lay)"

definition lay_bind :: "'a lay \<Rightarrow> ('a \<Rightarrow> 'b lay) \<Rightarrow> 'b lay" where
  "lay_bind m f lay =
     (case m lay of
        None \<Rightarrow> None
      | Some (Inl e, lay) \<Rightarrow> Some (Inl e, lay)
      | Some (Inr x, lay) \<Rightarrow> f x lay)"

fun lay_each :: "('b \<Rightarrow> 'a \<Rightarrow> 'a lay) \<Rightarrow> 'b list \<Rightarrow> 'a \<Rightarrow> 'a lay" where
  "lay_each f [] a = lay_ret a"
| "lay_each f (x # xs) a = lay_bind (f x a) (lay_each f xs)"

definition layout_new :: Layout where
  "layout_new =
     \<lparr> ly_nodes = [], ly_blocks = [], ly_pages = [], ly_next_bid_counter = 16,
       ly_next_nid_index = 11, ly_used_bids = {||}, ly_used_nids = {||}, ly_eager = None \<rparr>"

text \<open>The eager writer starts with a zeroed header in a new file.\<close>

definition eager_create :: "str option list \<Rightarrow> WriterError + EagerWriteCtx" where
  "eager_create outcomes =
     (case file_write 0 (replicate HEADER_SIZE 0) \<lparr> fl_bytes = [], fl_pos = 0, fl_outcomes = outcomes \<rparr> of
        (Inl e, f) \<Rightarrow> Inl e
      | (Inr _, f) \<Rightarrow> Inr \<lparr> ew_file = f \<lparr> fl_pos := HEADER_SIZE \<rparr>, ew_cursor = HEADER_SIZE,
            ew_amap_pages = [], ew_amap_stubs_written = {||}, ew_amap_page_offsets = {||},
            ew_stubbed_upto = 0, ew_file_pos = HEADER_SIZE, ew_amap_scan_steps = 0 \<rparr>)"

definition alloc_bid :: "bool \<Rightarrow> Layout \<Rightarrow> u64 \<times> Layout" where
  "alloc_bid internal lay =
     (let (bid, used, next_bid) = alloc_bid_loop internal (ly_used_bids lay) (ly_next_bid_counter lay)
      in (bid, lay \<lparr> ly_used_bids := used, ly_next_bid_counter := next_bid \<rparr>))"

definition reserve_page :: "nat \<Rightarrow> Layout \<Rightarrow> u64 \<times> Layout" where
  "reserve_page ptype lay =
     (let (bid, lay) = alloc_bid True lay
      in (bid, lay \<lparr> ly_pages := ly_pages lay @
            [\<lparr> pe_bid = bid, pe_ptype = ptype, pe_offset = 0 \<rparr>] \<rparr>))"

text \<open>Placement on behalf of the eager writer, and the write-back of its variables.\<close>

definition eager_placing :: "Layout \<Rightarrow> EagerWriteCtx \<Rightarrow> Placing" where
  "eager_placing lay ew =
     \<lparr> pl_cursor = ew_cursor ew, pl_amap_pages = ew_amap_pages ew,
       pl_amap_page_offsets = ew_amap_page_offsets ew, pl_used_bids = ly_used_bids lay,
       pl_next_bid = ly_next_bid_counter lay, pl_scan_steps = ew_amap_scan_steps ew \<rparr>"

definition eager_placed :: "Placing \<Rightarrow> EagerWriteCtx \<Rightarrow> EagerWriteCtx" where
  "eager_placed p ew =
     ew \<lparr> ew_cursor := pl_cursor p, ew_amap_pages := pl_amap_pages p,
          ew_amap_page_offsets := pl_amap_page_offsets p, ew_amap_scan_steps := pl_scan_steps p \<rparr>"

text \<open>The stubs of the AMap pages beyond the watermark, in the order of their registration.\<close>

function write_stubs :: "(bytes \<Rightarrow> 32 word) \<Rightarrow> EagerWriteCtx \<Rightarrow> (WriterError + unit) \<times> EagerWriteCtx" where
  "write_stubs crc ew =
     (if ew_stubbed_upto ew < length (ew_amap_pages ew)
      then
        let ew = ew \<lparr> ew_amap_scan_steps := saturating_add64 (ew_amap_scan_steps ew) 1 \<rparr>;
            page = ew_amap_pages ew ! ew_stubbed_upto ew
        in if pe_offset page |\<notin>| ew_amap_stubs_written ew
           then (case positioned_write_all (pe_offset page)
                        (amap_page_bytes crc (pe_offset page) (pe_bid page)) (ew_file ew) (ew_file_pos ew) of
                   (Inl e, f) \<Rightarrow> (Inl e, ew \<lparr> ew_file := f \<rparr>)
                 | (Inr file_pos, f) \<Rightarrow> write_stubs crc
                     (ew \<lparr> ew_file := f, ew_file_pos := file_pos,
                           ew_amap_stubs_written := finsert (pe_offset page) (ew_amap_stubs_written ew),
                           ew_stubbed_upto := ew_stubbed_upto ew + 1 \<rparr>))
           else write_stubs crc (ew \<lparr> ew_stubbed_upto := ew_stubbed_upto ew + 1 \<rparr>)
      else (Inr (), ew))"
  by pat_completeness auto

termination
  by (relation "measure (\<lambda>(crc, ew). length (ew_amap_pages ew) - ew_stubbed_upto ew)") auto

declare write_stubs.simps [simp del]

text \<open>\<^verbatim>\<open>place_and_write_block\<close>, on a layout whose eager writer has been taken out.\<close>

definition place_and_write_block ::
  "(bytes \<Rightarrow> 32 word) \<Rightarrow> u64 \<Rightarrow> bytes \<Rightarrow> Layout \<Rightarrow> EagerWriteCtx \<Rightarrow>
   ((WriterError + u64) \<times> Layout \<times> EagerWriteCtx) option" where
  "place_and_write_block crc bid payload lay ew =
     (case amap_place_region (block_size_of (length payload)) BLOCK_ALIGN (eager_placing lay ew) of
        None \<Rightarrow> None
      | Some (offset, p) \<Rightarrow>
          let lay = lay \<lparr> ly_used_bids := pl_used_bids p, ly_next_bid_counter := pl_next_bid p \<rparr>
          in (case write_stubs crc (eager_placed p ew) of
                (Inl e, ew) \<Rightarrow> Some (Inl e, lay, ew)
              | (Inr _, ew) \<Rightarrow>
                  (case positioned_write_all offset (data_block_bytes crc bid payload) (ew_file ew) (ew_file_pos ew) of
                     (Inl e, f) \<Rightarrow> Some (Inl e, lay, ew \<lparr> ew_file := f \<rparr>)
                   | (Inr file_pos, f) \<Rightarrow>
                       Some (Inr offset, lay, ew \<lparr> ew_file := f, ew_file_pos := file_pos \<rparr>))))"

text \<open>A failed write loses the eager writer: the code has taken it out of the layout.\<close>

definition push_leaf_block :: "(bytes \<Rightarrow> 32 word) \<Rightarrow> u64 \<Rightarrow> bytes \<Rightarrow> unit lay" where
  "push_leaf_block crc bid data lay =
     (let len = length data mod 2 ^ 32
      in case ly_eager lay of
           None \<Rightarrow> Some (Inr (), lay \<lparr> ly_blocks := ly_blocks lay @ [block_in_memory bid data] \<rparr>)
         | Some ew \<Rightarrow>
             (case place_and_write_block crc bid data (lay \<lparr> ly_eager := None \<rparr>) ew of
                None \<Rightarrow> None
              | Some (Inl e, lay, _) \<Rightarrow> Some (Inl e, lay)
              | Some (Inr offset, lay, ew) \<Rightarrow>
                  Some (Inr (), lay \<lparr> ly_blocks := ly_blocks lay @ [block_on_disk bid offset len],
                                      ly_eager := Some ew \<rparr>)))"

subsection \<open>Block chains\<close>

definition MAX_XBLOCK_ENTRIES :: usize where
  "MAX_XBLOCK_ENTRIES = (MAX_BLOCK_DATA - 8) div 8"

definition I32_MAX :: nat where
  "I32_MAX = 2147483647"

function chunks :: "nat \<Rightarrow> 'a list \<Rightarrow> 'a list list" where
  "chunks n xs = (if n = 0 \<or> xs = [] then [] else take n xs # chunks n (drop n xs))"
  by pat_completeness auto

termination
  by (relation "measure (\<lambda>(n, xs). length xs)") auto

declare chunks.simps [simp del]

definition push_block :: "bool \<Rightarrow> bytes \<Rightarrow> u64 lay" where
  "push_block internal payload lay =
     (let (bid, lay) = alloc_bid internal lay
      in Some (Inr bid, lay \<lparr> ly_blocks := ly_blocks lay @ [block_in_memory bid payload] \<rparr>))"

definition chain_payload :: "nat \<Rightarrow> nat \<Rightarrow> u32 \<Rightarrow> u64 list \<Rightarrow> bytes" where
  "chain_payload c_level c_entries lcb_total bids =
     [1, word_of_nat c_level] @ le_bytes 2 c_entries @ le_bytes 4 lcb_total @ concat (map (le_bytes 8) bids)"

definition build_xblock :: "(u64 \<times> u32) list \<Rightarrow> u64 lay" where
  "build_xblock leaves =
     push_block True (chain_payload 1 (length leaves) (sum_list (map snd leaves)) (map fst leaves))"

definition build_xxblock :: "u64 list \<Rightarrow> u32 \<Rightarrow> u64 lay" where
  "build_xxblock xblock_bids total_len =
     push_block True (chain_payload 2 (length xblock_bids) total_len xblock_bids)"

definition push_leaf :: "(bytes \<Rightarrow> 32 word) \<Rightarrow> bytes \<Rightarrow> (u64 \<times> u32) lay" where
  "push_leaf crc data lay =
     (let (bid, lay) = alloc_bid False lay
      in lay_bind (push_leaf_block crc bid data) (\<lambda>_. lay_ret (bid, length data mod 2 ^ 32)) lay)"

definition push_leaves :: "(bytes \<Rightarrow> 32 word) \<Rightarrow> bytes list \<Rightarrow> (u64 \<times> u32) list lay" where
  "push_leaves crc datas =
     lay_each (\<lambda>data acc. lay_bind (push_leaf crc data) (\<lambda>entry. lay_ret (acc @ [entry]))) datas []"

definition build_xblocks :: "(u64 \<times> u32) list list \<Rightarrow> u64 list lay" where
  "build_xblocks groups =
     lay_each (\<lambda>group acc. lay_bind (build_xblock group) (\<lambda>bid. lay_ret (acc @ [bid]))) groups []"

text \<open>The root of a chain over leaves already stored; \<open>too_many\<close> is the error of the caller.\<close>

definition build_chain_root :: "(nat \<Rightarrow> str) \<Rightarrow> u32 \<Rightarrow> (u64 \<times> u32) list \<Rightarrow> u64 lay" where
  "build_chain_root too_many total_len data_chunks =
     (if length data_chunks \<le> MAX_XBLOCK_ENTRIES then build_xblock data_chunks
      else lay_bind (build_xblocks (chunks MAX_XBLOCK_ENTRIES data_chunks)) (\<lambda>xblock_bids.
        if MAX_XBLOCK_ENTRIES < length xblock_bids
        then lay_fail (WeAllocationFailed (too_many (length xblock_bids)))
        else build_xxblock xblock_bids total_len))"

definition max_chain_text :: str where
  "max_chain_text = show_nat (MAX_XBLOCK_ENTRIES * MAX_XBLOCK_ENTRIES * MAX_BLOCK_DATA)"

definition write_data_chain :: "(bytes \<Rightarrow> 32 word) \<Rightarrow> bytes \<Rightarrow> u64 lay" where
  "write_data_chain crc data =
     (if data = [] then lay_ret 0
      else if I32_MAX < length data
      then lay_fail (WeBodyTooLarge (show_nat (length data) @ lit '' bytes exceeds i32::MAX ('' @
             show_nat I32_MAX @ lit '' bytes) '' @ [8212] @ lit '' the largest value representable by '' @
             lit ''PidTagMessageSize's PT_LONG (MS-OXPROPS) range, which every written body/html '' @
             lit ''value must fit within''))
      else if length data \<le> MAX_BLOCK_DATA
      then lay_bind (push_leaf crc data) (\<lambda>(bid, _). lay_ret bid)
      else lay_bind (push_leaves crc (chunks MAX_BLOCK_DATA data))
             (build_chain_root (\<lambda>n. lit ''data requires '' @ show_nat n @
                  lit '' XBLOCKs, exceeding one XXBLOCK's capacity of '' @ show_nat MAX_XBLOCK_ENTRIES @
                  lit '' entries (v1's two-level XBLOCK/XXBLOCK scheme represents at most ~'' @
                  max_chain_text @ lit '' bytes per value)'') (length data mod 2 ^ 32)))"

definition write_row_matrix_tree :: "(bytes \<Rightarrow> 32 word) \<Rightarrow> bytes \<Rightarrow> usize \<Rightarrow> (u64 \<times> u64) lay" where
  "write_row_matrix_tree crc row_matrix row_width =
     (if row_matrix = [] then lay_ret (0, 0)
      else if row_width = 0 then lay_fail (WeLayout (lit ''row_width is 0; cannot pack row matrix''))
      else if length row_matrix mod row_width \<noteq> 0
      then lay_fail (WeLayout (lit ''row matrix length '' @ show_nat (length row_matrix) @
             lit '' is not a multiple of row_width '' @ show_nat row_width))
      else
        let rows_per_block = MAX_BLOCK_DATA div row_width
        in if rows_per_block = 0
           then lay_fail (WeLayout (lit ''row_width '' @ show_nat row_width @
                  lit '' exceeds MAX_BLOCK_DATA '' @ show_nat MAX_BLOCK_DATA))
           else
             let payloads = chunks (rows_per_block * row_width) row_matrix;
                 padded = map (\<lambda>p. resize MAX_BLOCK_DATA 0 p) (butlast payloads) @ [last payloads]
             in lay_bind (push_leaves crc padded) (\<lambda>leaves.
                let total = sum_list (map snd leaves)
                in case leaves of
                     [(bid, _)] \<Rightarrow> lay_ret (bid, total)
                   | _ \<Rightarrow> lay_bind (build_chain_root (\<lambda>n. lit ''row matrix requires '' @ show_nat n @
                              lit '' XBLOCKs, exceeding one XXBLOCK capacity'') (total mod 2 ^ 32) leaves)
                            (\<lambda>bid. lay_ret (bid, total))))"

definition add_node_data :: "(bytes \<Rightarrow> 32 word) \<Rightarrow> u64 \<Rightarrow> bytes \<Rightarrow> u64 \<Rightarrow> u64 \<Rightarrow> u64 lay" where
  "add_node_data crc nid data nid_parent sub_bid =
     lay_bind (write_data_chain crc data) (\<lambda>bid_data lay.
       if nid |\<in>| ly_used_nids lay
       then Some (Inl (WeLayout (lit ''duplicate NBT nid 0x'' @ show_hex nid @
              lit '' (reserved template collision or double insert)'')), lay)
       else Some (Inr bid_data,
              lay \<lparr> ly_used_nids := finsert nid (ly_used_nids lay),
                    ly_nodes := ly_nodes lay @ [\<lparr> ne_nid = nid, ne_bid_data = bid_data,
                      ne_bid_sub = sub_bid, ne_nid_parent = nid_parent \<rparr>] \<rparr>))"

definition first_repeat :: "(u64 \<times> u64 \<times> u64) list \<Rightarrow> u64 option" where
  "first_repeat entries =
     map_option (\<lambda>(a, b). fst a) (find (\<lambda>(a, b). fst a = fst b) (zip entries (tl entries)))"

definition slblock_payload :: "(u64 \<times> u64 \<times> u64) list \<Rightarrow> bytes" where
  "slblock_payload entries =
     [2, 0] @ le_bytes 2 (length entries) @ le_bytes 4 0 @
     concat (map (\<lambda>(nid, bid_data, bid_sub). le_bytes 8 nid @ le_bytes 8 bid_data @ le_bytes 8 bid_sub) entries)"

definition add_subnode_leaf :: "(u64 \<times> u64 \<times> u64) list \<Rightarrow> u64 lay" where
  "add_subnode_leaf entries =
     (let rows = sort_key fst entries
      in case first_repeat rows of
           Some nid \<Rightarrow> lay_fail (WeLayout (lit ''duplicate SLENTRY nid 0x'' @ show_hex nid))
         | None \<Rightarrow>
             let payload = slblock_payload rows
             in if MAX_BLOCK_DATA < length payload
                then lay_fail (WeLayout (show_nat (length rows) @
                       lit '' subnode entries exceed v1's single-SLBLOCK capacity''))
                else push_block True payload)"

subsection \<open>Chains from a stream\<close>

text \<open>A reader is the list of what its \<^verbatim>\<open>read\<close> calls return; after the last one it is at its end.\<close>

datatype ReadOutcome = RdData bytes | RdInterrupted | RdError str

fun fill_chunk :: "ReadOutcome list \<Rightarrow> bytes \<Rightarrow> (str + bytes) \<times> ReadOutcome list" where
  "fill_chunk [] buf = (Inr buf, [])"
| "fill_chunk (r # rs) buf =
     (if MAX_BLOCK_DATA \<le> length buf then (Inr buf, r # rs)
      else case r of
        RdInterrupted \<Rightarrow> fill_chunk rs buf
      | RdError e \<Rightarrow> (Inl e, rs)
      | RdData bs \<Rightarrow>
          let room = MAX_BLOCK_DATA - length buf
          in if bs = [] then (Inr buf, rs)
             else if length bs \<le> room then fill_chunk rs (buf @ bs)
             else (Inr (buf @ take room bs), RdData (drop room bs) # rs))"

fun outcome_bytes :: "ReadOutcome \<Rightarrow> nat" where
  "outcome_bytes (RdData bs) = length bs"
| "outcome_bytes _ = 0"

lemma fill_chunk_bytes:
  "fill_chunk rs buf = (Inr buf', rs') \<Longrightarrow>
    length buf' + sum_list (map outcome_bytes rs') \<le> length buf + sum_list (map outcome_bytes rs)"
  by (induction rs buf rule: fill_chunk.induct)
    (fastforce simp: Let_def split: if_splits ReadOutcome.splits)+

text \<open>
  The chunks read before the end or an error. Reading does not depend on the layout, so the loop
  of the code, which stores each chunk before reading the next, is the chunks, then the outcome.
\<close>

function stream_chunks :: "ReadOutcome list \<Rightarrow> u64 \<Rightarrow> bytes list \<times> WriterError option" where
  "stream_chunks rs so_far =
     (case fill_chunk rs [] of
        (Inl e, _) \<Rightarrow> ([], Some (WeIo e))
      | (Inr buf, rs') \<Rightarrow>
          if buf = [] then ([], None)
          else
            let so_far = saturating_add64 so_far (length buf)
            in if I32_MAX < so_far
               then ([], Some (WeBodyTooLarge (show_nat so_far @ lit '' bytes exceeds i32::MAX ('' @
                      show_nat I32_MAX @ lit '' bytes) '' @ [8212] @ lit '' PidTagMessageSize PT_LONG range'')))
               else if length buf < MAX_BLOCK_DATA then ([buf], None)
               else let (bufs, err) = stream_chunks rs' so_far in (buf # bufs, err))"
  by pat_completeness auto

termination
proof (relation "measure (\<lambda>(rs, so_far). sum_list (map outcome_bytes rs))", goal_cases)
  case (2 rs so_far r rs' buf so_far')
  then have "length buf + sum_list (map outcome_bytes rs') \<le> sum_list (map outcome_bytes rs)"
    using fill_chunk_bytes [of rs "[]" buf rs'] by simp
  moreover have "0 < length buf" using 2 by simp
  ultimately show ?case by (simp del: length_greater_0_conv)
qed simp

declare stream_chunks.simps [simp del]

definition write_data_chain_from_reader_inner ::
  "(bytes \<Rightarrow> 32 word) \<Rightarrow> ReadOutcome list \<Rightarrow> (u64 \<times> u64) lay" where
  "write_data_chain_from_reader_inner crc rs =
     (let (bufs, err) = stream_chunks rs 0; so_far = length (concat bufs)
      in lay_bind (push_leaves crc bufs) (\<lambda>leaves.
         case err of
           Some e \<Rightarrow> lay_fail e
         | None \<Rightarrow>
             (case leaves of
                [] \<Rightarrow> lay_ret (0, 0)
              | [(bid, _)] \<Rightarrow> lay_ret (bid, so_far)
              | _ \<Rightarrow> lay_bind (build_chain_root (\<lambda>n. lit ''streamed data requires '' @ show_nat n @
                         lit '' XBLOCKs, exceeding XXBLOCK capacity (max ~'' @ max_chain_text @ lit '' bytes)'')
                         (so_far mod 2 ^ 32) leaves)
                       (\<lambda>bid. lay_ret (bid, so_far)))))"

record StreamChainCheckpoint =
  cp_blocks_len :: usize
  cp_next_bid_counter :: u64
  cp_eager_cursor :: "u64 option"
  cp_eager_amap_len :: "usize option"

definition stream_chain_checkpoint :: "Layout \<Rightarrow> StreamChainCheckpoint" where
  "stream_chain_checkpoint lay =
     \<lparr> cp_blocks_len = length (ly_blocks lay), cp_next_bid_counter = ly_next_bid_counter lay,
       cp_eager_cursor = map_option ew_cursor (ly_eager lay),
       cp_eager_amap_len = map_option (length \<circ> ew_amap_pages) (ly_eager lay) \<rparr>"

text \<open>The rollback: note that the registered offsets and the watermark of the stubs stay.\<close>

definition rollback_eager :: "StreamChainCheckpoint \<Rightarrow> EagerWriteCtx \<Rightarrow> EagerWriteCtx" where
  "rollback_eager cp ew =
     (let ew = (case cp_eager_cursor cp of
                  None \<Rightarrow> ew
                | Some cursor \<Rightarrow> ew \<lparr> ew_cursor := cursor,
                    ew_file := (ew_file ew) \<lparr> fl_bytes := resize cursor 0 (fl_bytes (ew_file ew)), fl_pos := cursor \<rparr> \<rparr>)
      in case cp_eager_amap_len cp of
           None \<Rightarrow> ew
         | Some amap_len \<Rightarrow> ew \<lparr> ew_amap_pages := take amap_len (ew_amap_pages ew),
             ew_amap_stubs_written := ew_amap_stubs_written ew |-|
               fset_of_list (map pe_offset (drop amap_len (ew_amap_pages ew))) \<rparr>)"

definition rollback_stream_chain :: "StreamChainCheckpoint \<Rightarrow> Layout \<Rightarrow> Layout" where
  "rollback_stream_chain cp lay =
     (let dropped = map be_bid (drop (cp_blocks_len cp) (ly_blocks lay));
          amap_bids = (case (ly_eager lay, cp_eager_amap_len cp) of
             (Some ew, Some amap_len) \<Rightarrow> map pe_bid (drop amap_len (ew_amap_pages ew)) | _ \<Rightarrow> [])
      in lay \<lparr> ly_blocks := take (cp_blocks_len cp) (ly_blocks lay),
               ly_used_bids := ly_used_bids lay |-| fset_of_list (dropped @ amap_bids),
               ly_next_bid_counter := cp_next_bid_counter cp,
               ly_eager := map_option (rollback_eager cp) (ly_eager lay) \<rparr>)"

definition write_data_chain_from_reader ::
  "(bytes \<Rightarrow> 32 word) \<Rightarrow> ReadOutcome list \<Rightarrow> (u64 \<times> u64) lay" where
  "write_data_chain_from_reader crc rs lay =
     (let checkpoint = stream_chain_checkpoint lay
      in case write_data_chain_from_reader_inner crc rs lay of
           None \<Rightarrow> None
         | Some (Inr v, lay) \<Rightarrow> Some (Inr v, lay)
         | Some (Inl e, lay) \<Rightarrow> Some (Inl e, rollback_stream_chain checkpoint lay))"

end
