(* ===== verification/Block_Chains.thy ===== *)
theory Block_Chains
  imports Block_Reader Layout_Writer
begin

text \<open>
  What the data chains of the writer mean: the abstract content of a block identifier, given the
  stored blocks; the reader's assembly of chains and of subnode leaves returns it, without noting a
  mismatch.
\<close>

subsection \<open>Stored blocks\<close>

text \<open>
  A block store is a relation between identifiers and payloads. The blocks a file serves are those
  whose bytes stand where the block index says, with a payload a block can hold.
\<close>

type_synonym store = "u64 \<Rightarrow> bytes \<Rightarrow> bool"

definition block_in_file :: "(bytes \<Rightarrow> 32 word) \<Rightarrow> bytes \<Rightarrow> u64 \<Rightarrow> store" where
  "block_in_file crc file offset bid payload \<longleftrightarrow>
     offset + block_size_of (length payload) \<le> length file \<and>
     slice_of offset (offset + block_size_of (length payload)) file = data_block_bytes crc bid payload"

definition serves :: "(bytes \<Rightarrow> 32 word) \<Rightarrow> bytes \<Rightarrow> BbtIndex \<Rightarrow> store" where
  "serves crc file bbt bid payload \<longleftrightarrow>
     bid < 2 ^ 64 \<and> (\<exists>entry. bbt bid = Some entry \<and> bb_cb entry = length payload \<and>
       block_in_file crc file (bf_ib (bb_bref entry)) bid payload)"

lemma align64_eq: "align64 n = align_up n BLOCK_ALIGN"
  by (simp add: align64_def align_up_def BLOCK_ALIGN_def)

lemma align_up_64:
  "n \<le> align_up n BLOCK_ALIGN" "align_up n BLOCK_ALIGN < n + 64" "64 dvd align_up n BLOCK_ALIGN"
proof -
  show "n \<le> align_up n BLOCK_ALIGN" "64 dvd align_up n BLOCK_ALIGN"
    using align_up_spec(1,2) [of BLOCK_ALIGN n] by (simp_all add: BLOCK_ALIGN_def)
  show "align_up n BLOCK_ALIGN < n + 64"
    using div_mult_mod_eq [of "n + 63" 64] by (simp add: align_up_def BLOCK_ALIGN_def)
qed

lemma block_size_of_eq: "block_size_of n = align64 n + 16"
  by (simp add: block_size_of_def align64_eq)

lemma length_data_block_bytes [simp]:
  "length (data_block_bytes crc bid data) = block_size_of (length data)"
  using align_up_64(1) [of "length data"] by (simp add: data_block_bytes_def block_size_of_def Let_def)

lemma data_block_fields:
  assumes "bid < 2 ^ 64"
  shows "take (length data) (data_block_bytes crc bid data) = data"
    and "read_u32 0 (slice_of (align64 (length data)) (align64 (length data) + 16) (data_block_bytes crc bid data)) =
      unat (crc data)"
    and "read_u64 4 (slice_of (align64 (length data)) (align64 (length data) + 16) (data_block_bytes crc bid data)) = bid"
proof -
  let ?pad = "data @ replicate (align64 (length data) - length data) 0"
  let ?trailer = "le_bytes 4 (unat (crc data)) @ le_bytes 8 bid @ replicate 4 0"
  have block: "data_block_bytes crc bid data = ?pad @ ?trailer"
    by (simp add: data_block_bytes_def align64_eq Let_def)
  have pad: "length ?pad = align64 (length data)"
    using align_up_64(1) [of "length data"] by (simp add: align64_eq)
  have trailer: "slice_of (align64 (length data)) (align64 (length data) + 16) (data_block_bytes crc bid data) = ?trailer"
    unfolding block by (subst slice_append2) (use pad in \<open>simp_all add: slice_of_def\<close>)
  have crc_bound: "unat (crc data) < 2 ^ 32" using unsigned_less [of "crc data"] by simp
  show "take (length data) (data_block_bytes crc bid data) = data" by (simp add: block)
  show "read_u32 0 (slice_of (align64 (length data)) (align64 (length data) + 16) (data_block_bytes crc bid data)) =
      unat (crc data)"
    unfolding trailer using crc_bound by (simp add: slice_simps)
  show "read_u64 4 (slice_of (align64 (length data)) (align64 (length data) + 16) (data_block_bytes crc bid data)) = bid"
    unfolding trailer using assms by (simp add: slice_simps)
qed

lemma read_raw_block_served:
  assumes "bbt bid = Some entry" and "bb_cb entry = length payload" and "bid < 2 ^ 64"
    and "block_in_file crc file (bf_ib (bb_bref entry)) bid payload"
  shows "yields (read_raw_block crc file bbt bid) (data_block_bytes crc bid payload)"
proof -
  let ?raw = "data_block_bytes crc bid payload"
  have raw: "read_exact_at file (bf_ib (bb_bref entry)) (align64 (bb_cb entry) + 16) = Inr ?raw"
    using assms(2,4) by (simp add: read_exact_at_def block_in_file_def block_size_of_eq add.assoc)
  have trailer: "yields (validate_block_trailer crc ?raw (length payload)) bid"
  proof -
    have "length ?raw = align64 (length payload) + 16" by (simp add: block_size_of_eq)
    then show ?thesis
      using data_block_fields [OF assms(3), of payload crc]
      by (auto simp: validate_block_trailer_def Let_def take_slice rd_when_def intro!: yields_bind)
  qed
  show ?thesis
    unfolding read_raw_block_def assms(1) option.case Let_def
    by (rule yields_bind [OF yields_lift [OF raw]], rule yields_bind [OF yields_note],
        simp, rule yields_bind [OF trailer [folded assms(2)]],
        rule yields_bind [where x = "()"]) (simp_all add: rd_when_def)
qed

lemma read_payload_served:
  assumes "serves crc file bbt bid payload"
  shows "yields (read_payload crc file bbt bid) payload"
proof -
  from assms obtain entry where entry: "bid < 2 ^ 64" "bbt bid = Some entry" "bb_cb entry = length payload"
    "block_in_file crc file (bf_ib (bb_bref entry)) bid payload" by (auto simp: serves_def)
  have "yields (rd_ret (take (bb_cb entry) (data_block_bytes crc bid payload))) payload"
    using data_block_fields(1) [OF entry(1)] entry(3) by simp
  with entry show ?thesis
    unfolding read_payload_def
    by (intro yields_bind [OF read_raw_block_served]) auto
qed

subsection \<open>Chains\<close>

text \<open>
  \<open>chain_data crypt S bid data\<close>: in the store, \<open>bid\<close> stands for \<open>data\<close>. The leaves of a chain
  are encrypted one by one, the blocks that list them are not.
\<close>

definition xblock_of ::
  "CryptMethod \<Rightarrow> store \<Rightarrow> u64 \<Rightarrow> (u64 \<times> bytes) list \<Rightarrow> bool" where
  "xblock_of crypt S bid leaves \<longleftrightarrow>
     bit bid 1 \<and> length leaves \<le> MAX_XBLOCK_ENTRIES \<and>
     S bid (chain_payload 1 (length leaves) (length (concat (map snd leaves))) (map fst leaves)) \<and>
     (\<forall>(leaf, data) \<in> set leaves. S leaf (encrypt_block crypt leaf data))"

inductive chain_data :: "CryptMethod \<Rightarrow> store \<Rightarrow> u64 \<Rightarrow> bytes \<Rightarrow> bool" for crypt S where
  chain_null: "chain_data crypt S 0 []"
| chain_leaf: "bid \<noteq> 0 \<Longrightarrow> \<not> bit bid 1 \<Longrightarrow> length data \<le> MAX_BLOCK_DATA \<Longrightarrow>
    S bid (encrypt_block crypt bid data) \<Longrightarrow> chain_data crypt S bid data"
| chain_xblock: "xblock_of crypt S bid leaves \<Longrightarrow> chain_data crypt S bid (concat (map snd leaves))"
| chain_xxblock: "bit bid 1 \<Longrightarrow> length groups \<le> MAX_XBLOCK_ENTRIES \<Longrightarrow>
    S bid (chain_payload 2 (length groups) (length data) (map fst groups)) \<Longrightarrow>
    \<forall>(xbid, leaves) \<in> set groups. xblock_of crypt S xbid leaves \<Longrightarrow>
    data = concat (map (concat \<circ> map snd \<circ> snd) groups) \<Longrightarrow> chain_data crypt S bid data"

lemma chain_payload_fields:
  assumes "n \<le> MAX_XBLOCK_ENTRIES" and "length bids = n" and "\<forall>b\<in>set bids. b < 2 ^ 64" and "level < 256"
  shows "length (chain_payload level n total_len bids) = 8 + n * 8"
    and "unat (chain_payload level n total_len bids ! 0) = 1"
    and "unat (chain_payload level n total_len bids ! 1) = level"
    and "read_u32 4 (chain_payload level n total_len bids) = total_len mod 2 ^ 32"
    and "rg_bids (chain_payload level n total_len bids) = bids"
proof -
  let ?p = "chain_payload level n total_len bids"
  let ?tab = "concat (map (le_bytes 8) bids)"
  have tab: "length ?tab = n * 8"
    using length_concat_width [of "map (le_bytes 8) bids" 8] assms(2) by simp
  then show len: "length ?p = 8 + n * 8" by (simp add: chain_payload_def)
  show "unat (?p ! 0) = 1" "unat (?p ! 1) = level"
    using assms(4) by (simp_all add: chain_payload_def unat_of_nat)
  have split: "?p = ([1, word_of_nat level] @ le_bytes 2 n @ le_bytes 4 total_len) @ ?tab"
    by (simp add: chain_payload_def)
  show "read_u32 4 ?p = total_len mod 2 ^ 32"
    using read_u32_append2 [of "[1, word_of_nat level] @ le_bytes 2 n" 4 "le_bytes 4 total_len @ ?tab"]
    by (simp add: chain_payload_def read_le_field)
  have count: "read_u16 2 ?p = n"
    using read_u16_append2 [of "[1, word_of_nat level]" 2 "le_bytes 2 n @ le_bytes 4 total_len @ ?tab"] assms(1)
    by (simp add: chain_payload_def read_le_field MAX_XBLOCK_ENTRIES_def MAX_BLOCK_DATA_def)
  have rows: "takeWhile (\<lambda>i. 8 + i * 8 + 8 \<le> length ?p) [0..<n] = [0..<n]"
    using len by (intro takeWhile_eq_all_conv [THEN iffD2]) auto
  have "read_u64 (8 + i * 8) ?p = bids ! i" if "i < n" for i
  proof -
    have "read_u64 (8 + i * 8) ?p = read_u64 (i * 8) ?tab"
      unfolding split by (subst read_u64_append2) simp_all
    also have "\<dots> = bids ! i mod 18446744073709551616"
      using read_table(2) [of i bids "[]"] that assms(2) by simp
    also have "\<dots> = bids ! i" using assms(3) that assms(2) by simp
    finally show ?thesis .
  qed
  then show "rg_bids ?p = bids"
    unfolding rg_bids_def count rows by (intro nth_equalityI) (simp_all add: assms(2))
qed

lemma length_concat_take: "length (concat (take i xss)) \<le> length (concat xss)"
  by (metis append_take_drop_id concat_append le_add1 length_append)

lemma append_limited_yields:
  "length result + length chunk \<le> MAX_XBLOCK_ASSEMBLE \<Longrightarrow> yields (append_limited what result chunk) (result @ chunk)"
  by (simp add: append_limited_def)

lemma read_each_chunk:
  assumes "length (concat parts) \<le> MAX_XBLOCK_ASSEMBLE" and "length bids = length parts"
    and "\<And>i. i < length bids \<Longrightarrow> yields (read (bids ! i)) (parts ! i)"
  shows "yields (rd_each (\<lambda>bid result. rd_bind (read bid) (append_limited what result)) bids []) (concat parts)"
proof -
  let ?f = "\<lambda>bid result. rd_bind (read bid) (append_limited what result)"
  have "yields (?f (bids ! i) a) (concat (take (Suc i) parts))"
    if i: "i < length bids" and a: "a = concat (take i parts)" for i a
  proof -
    have "concat (take (Suc i) parts) = a @ parts ! i"
      using i a assms(2) by (simp add: take_Suc_conv_app_nth)
    moreover from this have "length a + length (parts ! i) \<le> MAX_XBLOCK_ASSEMBLE"
      using length_concat_take [of "Suc i" parts] assms(1) by simp
    ultimately show ?thesis using yields_bind [OF assms(3) [OF i] append_limited_yields] by simp
  qed
  from yields_each [where f = ?f and g = "\<lambda>i. concat (take i parts)", OF this] show ?thesis
    by (simp add: assms(2))
qed

lemma serves_bid: "serves crc file bbt b p \<Longrightarrow> b < 2 ^ 64"
  by (simp add: serves_def)

lemma xblock_bids:
  assumes "xblock_of crypt S bid leaves" and "\<And>b p. S b p \<Longrightarrow> serves crc file bbt b p"
  shows "\<forall>b\<in>set (map fst leaves). b < 2 ^ 64"
  using assms(1) serves_bid [OF assms(2)] by (fastforce simp: xblock_of_def)

lemma group_bids:
  assumes "\<forall>(xbid, leaves) \<in> set groups. xblock_of crypt S xbid leaves"
    and "\<And>b p. S b p \<Longrightarrow> serves crc file bbt b p"
  shows "\<forall>b\<in>set (map fst groups). b < 2 ^ 64"
  using assms(1) serves_bid [OF assms(2)] by (fastforce simp: xblock_of_def)

lemma read_xblock_yields:
  assumes "xblock_of crypt S bid leaves" and "\<And>b p. S b p \<Longrightarrow> serves crc file bbt b p"
    and "length (concat (map snd leaves)) \<le> MAX_XBLOCK_ASSEMBLE"
    and payload: "payload = chain_payload 1 (length leaves) (length (concat (map snd leaves))) (map fst leaves)"
  shows "yields (read_xblock_data crc file bbt crypt payload) (concat (map snd leaves))"
proof -
  let ?total = "length (concat (map snd leaves))"
  note block = assms(1) [unfolded xblock_of_def]
  note bids = xblock_bids [OF assms(1,2)]
  note fields = chain_payload_fields [OF _ _ bids, of "length leaves" 1 ?total, folded payload]
  have small: "?total mod 2 ^ 32 = ?total" using assms(3) by (simp add: MAX_XBLOCK_ASSEMBLE_def)
  have leaf: "yields (rd_bind (read_payload crc file bbt (fst (leaves ! i)))
      (\<lambda>p. rd_ret (decrypt_block crypt (fst (leaves ! i)) p))) (snd (leaves ! i))" if "i < length leaves" for i
  proof -
    have "leaves ! i \<in> set leaves" using that by simp
    then have "serves crc file bbt (fst (leaves ! i)) (encrypt_block crypt (fst (leaves ! i)) (snd (leaves ! i)))"
      using block assms(2) by (auto simp: case_prod_beta)
    then show ?thesis by (rule yields_bind [OF read_payload_served]) simp
  qed
  have assoc: "(\<lambda>bid result. rd_bind (read_payload crc file bbt bid)
      (\<lambda>p. append_limited (lit ''xblock'') result (decrypt_block crypt bid p))) =
    (\<lambda>bid result. rd_bind (rd_bind (read_payload crc file bbt bid) (\<lambda>p. rd_ret (decrypt_block crypt bid p)))
      (append_limited (lit ''xblock'') result))"
    by (intro ext) (simp add: rd_bind_def rd_ret_def split: prod.splits sum.splits)
  have "yields (rd_each (\<lambda>bid result. rd_bind (read_payload crc file bbt bid)
      (\<lambda>p. append_limited (lit ''xblock'') result (decrypt_block crypt bid p))) (map fst leaves) [])
    (concat (map snd leaves))"
    unfolding assoc by (rule read_each_chunk) (use assms(3) leaf in simp_all)
  then show ?thesis
    using block fields small assms(3)
    by (auto simp: read_xblock_data_def check_xblock_assemble_limit_def intro!: yields_bind)
qed

lemma read_xxblock_yields:
  assumes "length groups \<le> MAX_XBLOCK_ENTRIES"
    and "\<forall>(xbid, leaves) \<in> set groups. xblock_of crypt S xbid leaves"
    and "\<And>b p. S b p \<Longrightarrow> serves crc file bbt b p"
    and data: "data = concat (map (concat \<circ> map snd \<circ> snd) groups)" and small: "length data \<le> MAX_XBLOCK_ASSEMBLE"
    and payload: "payload = chain_payload 2 (length groups) (length data) (map fst groups)"
  shows "yields (read_xxblock_data crc file bbt crypt payload) data"
proof -
  let ?part = "concat \<circ> map snd \<circ> snd"
  note bids = group_bids [OF assms(2,3)]
  note fields = chain_payload_fields [OF assms(1) _ bids, of 2 "length data", folded payload]
  have total: "length data mod 2 ^ 32 = length data" using small by (simp add: MAX_XBLOCK_ASSEMBLE_def)
  have part: "yields (rd_bind (read_payload crc file bbt (fst (groups ! i)))
      (read_xblock_data crc file bbt crypt)) (?part (groups ! i))" if "i < length groups" for i
  proof -
    obtain xbid leaves where g: "groups ! i = (xbid, leaves)" by (cases "groups ! i")
    have "(xbid, leaves) \<in> set groups" using that g by (metis nth_mem)
    with assms(2) have x: "xblock_of crypt S xbid leaves" by auto
    have "length (?part (groups ! i)) \<in> set (map length (map ?part groups))" using that by simp
    then have "length (?part (groups ! i)) \<le> length data"
      unfolding data length_concat by (intro member_le_sum_list) auto
    with small g have "length (concat (map snd leaves)) \<le> MAX_XBLOCK_ASSEMBLE" by simp
    note read = read_xblock_yields [OF x assms(3) this refl]
    have "serves crc file bbt xbid
        (chain_payload 1 (length leaves) (length (concat (map snd leaves))) (map fst leaves))"
      using x assms(3) by (simp add: xblock_of_def)
    from yields_bind [where f = "read_xblock_data crc file bbt crypt", OF read_payload_served [OF this] read]
    show ?thesis by (simp add: g)
  qed
  have assoc: "(\<lambda>bid result. rd_bind (read_payload crc file bbt bid)
      (\<lambda>p. rd_bind (read_xblock_data crc file bbt crypt p) (append_limited (lit ''xxblock'') result))) =
    (\<lambda>bid result. rd_bind (rd_bind (read_payload crc file bbt bid) (read_xblock_data crc file bbt crypt))
      (append_limited (lit ''xxblock'') result))"
    by (intro ext) (simp add: rd_bind_def split: prod.splits sum.splits)
  have "yields (rd_each (\<lambda>bid result. rd_bind (read_payload crc file bbt bid)
      (\<lambda>p. rd_bind (read_xblock_data crc file bbt crypt p) (append_limited (lit ''xxblock'') result))) (map fst groups) [])
    (concat (map ?part groups))"
    unfolding assoc by (rule read_each_chunk) (use small data part in simp_all)
  then show ?thesis
    using fields total small
    by (auto simp: read_xxblock_data_def check_xblock_assemble_limit_def data intro!: yields_bind)
qed

lemma read_chain:
  assumes "chain_data crypt S bid data" and "\<And>b p. S b p \<Longrightarrow> serves crc file bbt b p"
    and "length data \<le> MAX_XBLOCK_ASSEMBLE"
  shows "yields (read_block_data crc file bbt bid crypt) data"
  using assms(1)
proof cases
  case chain_null
  then show ?thesis by (simp add: read_block_data_def bid_is_null_def)
next
  case chain_leaf
  then have "yields (rd_bind (read_payload crc file bbt bid) (\<lambda>p. rd_ret (decrypt_block crypt bid p))) data"
    by (intro yields_bind [OF read_payload_served [OF assms(2), OF chain_leaf(4)]]) simp
  with chain_leaf show ?thesis
    by (simp add: read_block_data_def bid_is_null_def bid_is_internal_def)
next
  case (chain_xblock leaves)
  note block = chain_xblock(2) [unfolded xblock_of_def]
  note bids = xblock_bids [OF chain_xblock(2) assms(2)]
  note fields = chain_payload_fields [OF _ _ bids, of "length leaves" 1 "length data"]
  note read = read_xblock_yields [OF chain_xblock(2) assms(2) assms(3) [unfolded chain_xblock(1)] refl]
  note payload = read_payload_served [OF assms(2), OF block [THEN conjunct2, THEN conjunct2, THEN conjunct1]]
  show ?thesis
    using block read_payload_served fields read chain_xblock(1)
    by (auto simp: read_block_data_def bid_is_null_def bid_is_internal_def intro!: yields_bind [OF payload])
next
  case (chain_xxblock groups)
  note bids = group_bids [OF chain_xxblock(4) assms(2)]
  note fields = chain_payload_fields [OF chain_xxblock(2) _ bids, of 2 "length data"]
  note read = read_xxblock_yields [OF chain_xxblock(2,4) assms(2) chain_xxblock(5) assms(3) refl]
  note payload = read_payload_served [OF assms(2) [OF chain_xxblock(3)]]
  show ?thesis
    using fields read chain_xxblock(1)
    by (auto simp: read_block_data_def bid_is_null_def bid_is_internal_def intro!: yields_bind [OF payload])
qed

text \<open>A chain beyond the limit of the reader is refused before a leaf is read.\<close>

lemma read_chain_too_large:
  assumes "chain_data crypt S bid data" and "\<And>b p. S b p \<Longrightarrow> serves crc file bbt b p"
    and "MAX_XBLOCK_ASSEMBLE < length data" and "length data < 2 ^ 32"
  shows "\<exists>s'. read_block_data crc file bbt bid crypt s =
    (Inl (PeResourceLimit (lit ''xblock/xxblock lcbTotal '' @ show_nat (length data) @
       lit '' exceeds max '' @ show_nat MAX_XBLOCK_ASSEMBLE)), s')"
proof -
  have refused: "\<exists>s'. read_block_data crc file bbt bid crypt s =
      (Inl (PeResourceLimit (lit ''xblock/xxblock lcbTotal '' @ show_nat (length data) @
         lit '' exceeds max '' @ show_nat MAX_XBLOCK_ASSEMBLE)), s')"
    if bit: "bit bid 1" and level: "level = 1 \<or> level = 2" and n: "n \<le> MAX_XBLOCK_ENTRIES" "length bids = n"
      and bids: "\<forall>b\<in>set bids. b < 2 ^ 64" and S: "S bid (chain_payload level n (length data) bids)" for level n bids
  proof -
    let ?p = "chain_payload level n (length data) bids"
    have "level < 256" using level by auto
    note fields = chain_payload_fields [OF n bids this, of "length data"]
    from read_payload_served [OF assms(2) [OF S]] obtain ns where
      "read_payload crc file bbt bid s = (Inr ?p, s \<lparr> rd_notes := rd_notes s @ ns \<rparr>)" unfolding yields_def by blast
    with bit fields level assms(3,4) show ?thesis
      by (auto simp: read_block_data_def bid_is_null_def bid_is_internal_def rd_bind_def Let_def rd_fail_def
          read_xblock_data_def read_xxblock_data_def check_xblock_assemble_limit_def)
  qed
  from assms(1) show ?thesis
  proof cases
    case (chain_xblock leaves)
    with xblock_bids [OF chain_xblock(2) assms(2)] show ?thesis
      by (intro refused [of 1 "length leaves" "map fst leaves"]) (auto simp: xblock_of_def)
  next
    case (chain_xxblock groups)
    with group_bids [OF chain_xxblock(4) assms(2)] show ?thesis
      by (intro refused [of 2 "length groups" "map fst groups"]) auto
  qed (use assms(3) in \<open>auto simp: MAX_XBLOCK_ASSEMBLE_def MAX_BLOCK_DATA_def\<close>)
qed

lemma chain_data_mono:
  "chain_data crypt S bid data \<Longrightarrow> (\<And>b p. S b p \<Longrightarrow> T b p) \<Longrightarrow> chain_data crypt T bid data"
proof (induction rule: chain_data.induct)
  case (chain_xxblock bid groups data)
  have "\<forall>(xbid, leaves) \<in> set groups. xblock_of crypt T xbid leaves"
    using chain_xxblock by (fastforce simp: xblock_of_def)
  with chain_xxblock show ?case by (intro chain_data.chain_xxblock) auto
next
  case (chain_xblock bid leaves)
  then show ?case by (intro chain_data.chain_xblock) (fastforce simp: xblock_of_def)
qed (auto intro: chain_data.intros)

end
