(* ===== verification/Chain_Writer.thy ===== *)
theory Chain_Writer
  imports Block_Chains
begin

text \<open>
  The invariant of the layout while blocks are added, and what the operations that add blocks
  promise: they end, they fail only where the file fails, what is stored stays stored, and the
  identifier they return stands for the data they were given.
\<close>

subsection \<open>The invariant\<close>

definition apart :: "nat \<times> nat \<Rightarrow> nat \<times> nat \<Rightarrow> bool" where
  "apart r s \<longleftrightarrow> fst r + snd r \<le> fst s \<or> fst s + snd s \<le> fst r"

lemma apart_sym: "apart r s \<Longrightarrow> apart s r"
  by (auto simp: apart_def)

definition block_region :: "BlockEntry \<Rightarrow> nat \<times> nat" where
  "block_region b = (be_offset b, block_size_of (be_len b))"

definition clear_region :: "nat \<times> nat \<Rightarrow> bool" where
  "clear_region r \<longleftrightarrow> (\<forall>a. is_amap_page_offset a \<longrightarrow> apart r (a, PAGE_SIZE))"

text \<open>The blocks the eager writer has placed lie below its cursor and apart from one another.\<close>

definition disk_blocks_ok :: "BlockEntry list \<Rightarrow> u64 \<Rightarrow> bool" where
  "disk_blocks_ok blocks cursor \<longleftrightarrow>
     (\<forall>b\<in>set blocks. be_on_disk b \<longrightarrow> HEADER_SIZE \<le> be_offset b \<and> 64 dvd be_offset b \<and>
        be_offset b + block_size_of (be_len b) \<le> cursor \<and> clear_region (block_region b)) \<and>
     sorted_wrt apart (map block_region (filter be_on_disk blocks))"

definition eager_ok :: "Layout \<Rightarrow> EagerWriteCtx \<Rightarrow> bool" where
  "eager_ok lay ew \<longleftrightarrow>
     amaps_ok (eager_placing lay ew) \<and> slots_below (eager_placing lay ew) \<and>
     clear_of_amaps (ew_cursor ew) \<and> HEADER_SIZE \<le> ew_cursor ew \<and>
     ew_file_pos ew = fl_pos (ew_file ew) \<and> disk_blocks_ok (ly_blocks lay) (ew_cursor ew)"

definition amap_bids :: "Layout \<Rightarrow> u64 list" where
  "amap_bids lay = (case ly_eager lay of None \<Rightarrow> [] | Some ew \<Rightarrow> map pe_bid (ew_amap_pages ew))"

definition all_bids :: "Layout \<Rightarrow> u64 list" where
  "all_bids lay = map be_bid (ly_blocks lay) @ map pe_bid (ly_pages lay) @ amap_bids lay"

definition memory_block_ok :: "BlockEntry \<Rightarrow> bool" where
  "memory_block_ok b \<longleftrightarrow>
     be_len b \<le> MAX_BLOCK_DATA \<and> (\<not> be_on_disk b \<longrightarrow> be_offset b = 0 \<and> be_len b = length (be_data b))"

definition layout_ok :: "Layout \<Rightarrow> bool" where
  "layout_ok lay \<longleftrightarrow>
     16 \<le> ly_next_bid_counter lay \<and> distinct (all_bids lay) \<and> set (all_bids lay) \<subseteq> fset (ly_used_bids lay) \<and>
     (\<forall>p\<in>set (ly_pages lay). pe_offset p = 0 \<and> pe_ptype p \<noteq> PTYPE_AMAP) \<and>
     distinct (map ne_nid (ly_nodes lay)) \<and> set (map ne_nid (ly_nodes lay)) = fset (ly_used_nids lay) \<and>
     (\<forall>b\<in>set (ly_blocks lay). memory_block_ok b) \<and>
     (case ly_eager lay of None \<Rightarrow> \<forall>b\<in>set (ly_blocks lay). \<not> be_on_disk b | Some ew \<Rightarrow> eager_ok lay ew)"

text \<open>The blocks of a layout: in memory, or in the temporary file.\<close>

definition block_holds :: "(bytes \<Rightarrow> 32 word) \<Rightarrow> EagerWriteCtx option \<Rightarrow> BlockEntry \<Rightarrow> store" where
  "block_holds crc eager b bid payload \<longleftrightarrow>
     be_bid b = bid \<and> be_len b = length payload \<and>
     (if be_on_disk b
      then \<exists>ew. eager = Some ew \<and> block_in_file crc (fl_bytes (ew_file ew)) (be_offset b) bid payload
      else be_data b = payload)"

definition holds :: "(bytes \<Rightarrow> 32 word) \<Rightarrow> Layout \<Rightarrow> store" where
  "holds crc lay bid payload \<longleftrightarrow> (\<exists>b\<in>set (ly_blocks lay). block_holds crc (ly_eager lay) b bid payload)"

lemma holds_mono:
  "set (ly_blocks lay) \<subseteq> set (ly_blocks lay') \<Longrightarrow> ly_eager lay' = ly_eager lay \<Longrightarrow> holds crc lay \<le> holds crc lay'"
  by (intro le_funI le_boolI) (force simp: holds_def)

text \<open>No write to come fails.\<close>

definition io_ok :: "Layout \<Rightarrow> bool" where
  "io_ok lay \<longleftrightarrow> (\<forall>ew. ly_eager lay = Some ew \<longrightarrow> set (fl_outcomes (ew_file ew)) \<subseteq> {None})"

definition lay_keeps :: "(bytes \<Rightarrow> 32 word) \<Rightarrow> Layout \<Rightarrow> Layout \<Rightarrow> bool" where
  "lay_keeps crc lay lay' \<longleftrightarrow>
     layout_ok lay' \<and> (io_ok lay \<longrightarrow> io_ok lay') \<and> holds crc lay \<le> holds crc lay' \<and>
     ly_nodes lay' = ly_nodes lay \<and> ly_used_nids lay' = ly_used_nids lay \<and> ly_pages lay' = ly_pages lay \<and>
     ly_next_nid_index lay' = ly_next_nid_index lay \<and> (ly_eager lay' = None \<longleftrightarrow> ly_eager lay = None)"

lemma lay_keeps_trans: "lay_keeps crc a b \<Longrightarrow> lay_keeps crc b c \<Longrightarrow> lay_keeps crc a c"
  by (auto simp: lay_keeps_def)

text \<open>A complete operation uses up the identifiers of what it adds, and no others.\<close>

definition eager_pages :: "Layout \<Rightarrow> PageEntry list" where
  "eager_pages lay = (case ly_eager lay of None \<Rightarrow> [] | Some ew \<Rightarrow> ew_amap_pages ew)"

definition grows_by :: "Layout \<Rightarrow> Layout \<Rightarrow> BlockEntry list \<Rightarrow> PageEntry list \<Rightarrow> bool" where
  "grows_by lay lay' blocks amaps \<longleftrightarrow>
     ly_blocks lay' = ly_blocks lay @ blocks \<and> eager_pages lay' = eager_pages lay @ amaps \<and>
     fset (ly_used_bids lay') = fset (ly_used_bids lay) \<union> (be_bid ` set blocks \<union> pe_bid ` set amaps) \<and>
     (be_bid ` set blocks \<union> pe_bid ` set amaps) \<inter> fset (ly_used_bids lay) = {}"

lemma grows_by_trans:
  "grows_by a b new1 amaps1 \<Longrightarrow> grows_by b c new2 amaps2 \<Longrightarrow> grows_by a c (new1 @ new2) (amaps1 @ amaps2)"
  unfolding grows_by_def by (simp add: image_Un) blast

definition lay_step :: "(bytes \<Rightarrow> 32 word) \<Rightarrow> Layout \<Rightarrow> Layout \<Rightarrow> bool" where
  "lay_step crc lay lay' \<longleftrightarrow> lay_keeps crc lay lay' \<and> (\<exists>new amaps. grows_by lay lay' new amaps)"

lemma lay_step_refl: "layout_ok lay \<Longrightarrow> lay_step crc lay lay"
  by (simp add: lay_step_def lay_keeps_def grows_by_def)

lemma lay_step_trans: "lay_step crc a b \<Longrightarrow> lay_step crc b c \<Longrightarrow> lay_step crc a c"
  unfolding lay_step_def using lay_keeps_trans grows_by_trans by blast

lemma lay_stepD: "lay_step crc lay lay' \<Longrightarrow> layout_ok lay' \<and> (io_ok lay \<longrightarrow> io_ok lay') \<and> holds crc lay \<le> holds crc lay'"
  by (simp add: lay_step_def lay_keeps_def)

subsection \<open>Specifications of operations\<close>

definition lay_spec ::
  "(bytes \<Rightarrow> 32 word) \<Rightarrow> (Layout \<Rightarrow> bool) \<Rightarrow> 'a lay \<Rightarrow> ('a \<Rightarrow> Layout \<Rightarrow> bool) \<Rightarrow> bool" where
  "lay_spec crc Q m P \<longleftrightarrow>
     (\<forall>lay. layout_ok lay \<longrightarrow> Q lay \<longrightarrow>
        (\<exists>r lay'. m lay = Some (r, lay') \<and>
          (case r of Inl e \<Rightarrow> \<not> io_ok lay \<and> (\<exists>msg. e = WeIo msg) | Inr x \<Rightarrow> lay_step crc lay lay' \<and> P x lay')))"

lemma lay_specI:
  assumes "\<And>lay. layout_ok lay \<Longrightarrow> Q lay \<Longrightarrow> \<exists>x lay'. m lay = Some (Inr x, lay') \<and> lay_step crc lay lay' \<and> P x lay'"
  shows "lay_spec crc Q m P"
  unfolding lay_spec_def using assms by (metis sum.simps(6))

lemma lay_spec_ret: "(\<And>lay. Q lay \<Longrightarrow> P x lay) \<Longrightarrow> lay_spec crc Q (lay_ret x) P"
  by (auto simp: lay_spec_def lay_ret_def lay_step_refl)

lemma lay_spec_weaken:
  "lay_spec crc Q m P \<Longrightarrow> (\<And>lay. R lay \<Longrightarrow> Q lay) \<Longrightarrow> (\<And>x lay. P x lay \<Longrightarrow> P' x lay) \<Longrightarrow> lay_spec crc R m P'"
proof (unfold lay_spec_def, intro allI impI)
  fix lay
  assume spec: "\<forall>lay. layout_ok lay \<longrightarrow> Q lay \<longrightarrow> (\<exists>r lay'. m lay = Some (r, lay') \<and>
      (case r of Inl e \<Rightarrow> \<not> io_ok lay \<and> (\<exists>msg. e = WeIo msg) | Inr x \<Rightarrow> lay_step crc lay lay' \<and> P x lay'))"
    and Q: "\<And>lay. R lay \<Longrightarrow> Q lay" and P: "\<And>x lay. P x lay \<Longrightarrow> P' x lay" and lay: "layout_ok lay" "R lay"
  from spec [rule_format, OF lay(1) Q [OF lay(2)]] obtain r lay' where r: "m lay = Some (r, lay')"
    "case r of Inl e \<Rightarrow> \<not> io_ok lay \<and> (\<exists>msg. e = WeIo msg) | Inr x \<Rightarrow> lay_step crc lay lay' \<and> P x lay'" by blast
  then show "\<exists>r lay'. m lay = Some (r, lay') \<and>
      (case r of Inl e \<Rightarrow> \<not> io_ok lay \<and> (\<exists>msg. e = WeIo msg) | Inr x \<Rightarrow> lay_step crc lay lay' \<and> P' x lay')"
    using P by (cases r) auto
qed

lemma lay_spec_bind:
  assumes "lay_spec crc Q m P" and "\<And>x. lay_spec crc (P x) (f x) R"
  shows "lay_spec crc Q (lay_bind m f) R"
  unfolding lay_spec_def
proof (intro allI impI)
  fix lay assume lay: "layout_ok lay" "Q lay"
  with assms(1) obtain r lay1 where m: "m lay = Some (r, lay1)"
    "case r of Inl e \<Rightarrow> \<not> io_ok lay \<and> (\<exists>msg. e = WeIo msg) | Inr x \<Rightarrow> lay_step crc lay lay1 \<and> P x lay1"
    unfolding lay_spec_def by blast
  show "\<exists>r lay'. lay_bind m f lay = Some (r, lay') \<and>
      (case r of Inl e \<Rightarrow> \<not> io_ok lay \<and> (\<exists>msg. e = WeIo msg) | Inr x \<Rightarrow> lay_step crc lay lay' \<and> R x lay')"
  proof (cases r)
    case (Inl e)
    with m show ?thesis by (auto simp: lay_bind_def)
  next
    case (Inr x)
    with m have step: "lay_step crc lay lay1" "P x lay1" by auto
    then have "layout_ok lay1" by (simp add: lay_stepD)
    with assms(2) [of x] step(2) obtain q lay2 where f: "f x lay1 = Some (q, lay2)"
      "case q of Inl e \<Rightarrow> \<not> io_ok lay1 \<and> (\<exists>msg. e = WeIo msg) | Inr y \<Rightarrow> lay_step crc lay1 lay2 \<and> R y lay2"
      unfolding lay_spec_def by blast
    have "\<not> io_ok lay1 \<Longrightarrow> \<not> io_ok lay" using step(1) by (auto dest: lay_stepD)
    with f step(1) m(1) Inr show ?thesis
      by (auto simp: lay_bind_def split: sum.splits intro: lay_step_trans)
  qed
qed

lemma lay_spec_each:
  assumes "\<And>x a front. x \<in> set xs \<Longrightarrow> lay_spec crc (I front a) (f x a) (I (front @ [x]))"
  shows "lay_spec crc (I front a) (lay_each f xs a) (I (front @ xs))"
  using assms
proof (induction xs arbitrary: front a)
  case (Cons x xs)
  have "lay_spec crc (I (front @ [x]) b) (lay_each f xs b) (I (front @ [x] @ xs))" for b
    using Cons.IH [of "front @ [x]" b] Cons.prems by simp
  then have "lay_spec crc (I front a) (lay_bind (f x a) (lay_each f xs)) (I (front @ [x] @ xs))"
    by (intro lay_spec_bind [OF Cons.prems [of x front a]]) simp_all
  then show ?case by simp
qed (simp add: lay_spec_ret)

subsection \<open>Blocks in memory\<close>

lemma alloc_bid_loop_lower: "alloc_bid_loop internal used n = (bid, used', n') \<Longrightarrow> n \<le> bid + 2"
proof (induction internal used n rule: alloc_bid_loop.induct)
  case (1 internal used n)
  then show ?case
    using bid_of_bounds(1) [of n internal]
    by (fastforce simp: alloc_bid_loop.simps [of internal used n] Let_def split: if_splits)
qed

lemma alloc_bid_spec:
  assumes "layout_ok lay" and "alloc_bid internal lay = (bid, lay')"
  shows "bid |\<notin>| ly_used_bids lay" "bit bid 1 = internal" "0 < bid" "layout_ok lay'"
    and "\<exists>n. lay' = lay \<lparr> ly_used_bids := finsert bid (ly_used_bids lay), ly_next_bid_counter := n \<rparr>"
proof -
  obtain used n where loop: "alloc_bid_loop internal (ly_used_bids lay) (ly_next_bid_counter lay) = (bid, used, n)"
    and lay': "lay' = lay \<lparr> ly_used_bids := used, ly_next_bid_counter := n \<rparr>"
    using assms(2) by (auto simp: alloc_bid_def split: prod.splits)
  note spec = alloc_bid_loop_spec [OF loop] and lower = alloc_bid_loop_lower [OF loop]
  from assms(1) have n: "16 \<le> ly_next_bid_counter lay" by (simp add: layout_ok_def)
  from spec lay' show "bid |\<notin>| ly_used_bids lay" "bit bid 1 = internal"
    "\<exists>n. lay' = lay \<lparr> ly_used_bids := finsert bid (ly_used_bids lay), ly_next_bid_counter := n \<rparr>" by auto
  from n lower show "0 < bid" by simp
  have "eager_ok lay' ew" if "eager_ok lay ew" for ew
    using that spec unfolding lay' by (auto simp: eager_ok_def eager_placing_def amaps_ok_def slots_below_def)
  then show "layout_ok lay'"
    using assms(1) spec n unfolding lay'
    by (auto simp: layout_ok_def all_bids_def amap_bids_def split: option.splits)
qed

text \<open>Adding a block with a fresh identifier.\<close>

lemma eager_ok_memory_block:
  "\<not> be_on_disk b \<Longrightarrow> eager_ok (lay \<lparr> ly_blocks := ly_blocks lay @ [b] \<rparr>) ew \<longleftrightarrow> eager_ok lay ew"
  by (auto simp: eager_ok_def eager_placing_def disk_blocks_ok_def)

lemma add_memory_block:
  assumes "layout_ok lay" and "\<not> be_on_disk b" and "memory_block_ok b"
    and "be_bid b \<in> fset (ly_used_bids lay)" and "be_bid b \<notin> set (all_bids lay)"
  shows "lay_keeps crc lay (lay \<lparr> ly_blocks := ly_blocks lay @ [b] \<rparr>)"
    and "holds crc (lay \<lparr> ly_blocks := ly_blocks lay @ [b] \<rparr>) (be_bid b) (be_data b)"
proof -
  let ?lay = "lay \<lparr> ly_blocks := ly_blocks lay @ [b] \<rparr>"
  have "distinct (all_bids ?lay)" "set (all_bids ?lay) \<subseteq> fset (ly_used_bids ?lay)"
    using assms by (auto simp: layout_ok_def all_bids_def amap_bids_def)
  then have "layout_ok ?lay"
    using assms eager_ok_memory_block [OF assms(2)]
    by (auto simp: layout_ok_def split: option.splits)
  moreover have "holds crc lay \<le> holds crc ?lay" by (rule holds_mono) auto
  ultimately show "lay_keeps crc lay ?lay" by (auto simp: lay_keeps_def io_ok_def)
  show "holds crc ?lay (be_bid b) (be_data b)"
    using assms(2,3) by (auto simp: holds_def block_holds_def memory_block_ok_def)
qed

lemma alloc_fresh:
  assumes "layout_ok lay" and "alloc_bid internal lay = (bid, lay')"
  shows "bid \<in> fset (ly_used_bids lay')" "bid \<notin> set (all_bids lay')"
proof -
  note spec = alloc_bid_spec [OF assms]
  from spec(5) show "bid \<in> fset (ly_used_bids lay')" by auto
  from spec(5) have "all_bids lay' = all_bids lay" by (auto simp: all_bids_def amap_bids_def)
  with spec(1) assms(1) show "bid \<notin> set (all_bids lay')" by (auto simp: layout_ok_def)
qed

lemma lay_keeps_alloc:
  assumes "layout_ok lay" and "alloc_bid internal lay = (bid, lay')"
  shows "lay_keeps crc lay lay'"
proof -
  note spec = alloc_bid_spec(4,5) [OF assms]
  moreover from spec(2) have "holds crc lay \<le> holds crc lay'" by (intro holds_mono) auto
  ultimately show ?thesis by (auto simp: lay_keeps_def io_ok_def)
qed

lemma push_block_spec:
  assumes "length payload \<le> MAX_BLOCK_DATA"
  shows "lay_spec crc Q (push_block internal payload)
    (\<lambda>bid lay. 0 < bid \<and> bit bid 1 = internal \<and> holds crc lay bid payload \<and> bid |\<in>| ly_used_bids lay)"
proof (rule lay_specI)
  fix lay assume lay: "layout_ok lay"
  obtain bid lay1 where alloc: "alloc_bid internal lay = (bid, lay1)" by (cases "alloc_bid internal lay")
  note spec = alloc_bid_spec [OF lay alloc]
  let ?b = "block_in_memory bid payload"
  have b: "\<not> be_on_disk ?b" "memory_block_ok ?b" "be_bid ?b = bid" "be_data ?b = payload"
    using assms by (simp_all add: block_in_memory_def memory_block_ok_def MAX_BLOCK_DATA_def)
  note added = add_memory_block [OF spec(4) b(1,2), of crc, unfolded b(3,4), OF alloc_fresh [OF lay alloc]]
  have "push_block internal payload lay = Some (Inr bid, lay1 \<lparr> ly_blocks := ly_blocks lay1 @ [?b] \<rparr>)"
    by (simp add: push_block_def alloc)
  moreover have "bid |\<in>| ly_used_bids (lay1 \<lparr> ly_blocks := ly_blocks lay1 @ [?b] \<rparr>)" using spec(5) by auto
  moreover have "grows_by lay (lay1 \<lparr> ly_blocks := ly_blocks lay1 @ [?b] \<rparr>) [?b] []"
    using spec(1,5) b(3) by (auto simp: grows_by_def eager_pages_def)
  ultimately show "\<exists>x lay'. push_block internal payload lay = Some (Inr x, lay') \<and> lay_step crc lay lay' \<and>
      0 < x \<and> bit x 1 = internal \<and> holds crc lay' x payload \<and> x |\<in>| ly_used_bids lay'"
    using lay_keeps_trans [OF lay_keeps_alloc [OF lay alloc] added(1)] added(2) spec(2,3)
    unfolding lay_step_def by blast
qed

subsection \<open>Blocks in the temporary file\<close>

lemma length_put_bytes: "length (put_bytes offset data file) = max (length file) (offset + length data)"
  by (simp add: put_bytes_def overwrite_def)

lemma slice_put_bytes_same: "slice_of offset (offset + length data) (put_bytes offset data file) = data"
  unfolding put_bytes_def by (rule slice_overwrite_same) simp_all

lemma slice_put_bytes_apart:
  assumes "a + n \<le> length file" and "apart (a, n) (offset, length data)"
  shows "slice_of a (a + n) (put_bytes offset data file) = slice_of a (a + n) file"
proof -
  let ?zeros = "file @ replicate (offset + length data - length file) 0"
  have "slice_of a (a + n) (overwrite offset data ?zeros) = slice_of a (a + n) ?zeros"
    using assms(2) by (auto simp: apart_def slice_overwrite_before slice_overwrite_after)
  then show ?thesis using assms(1) by (simp add: put_bytes_def slice_append1)
qed

lemma block_in_file_put:
  assumes "block_in_file crc file a bid payload"
    and "apart (a, block_size_of (length payload)) (offset, length data)"
  shows "block_in_file crc (put_bytes offset data file) a bid payload"
  using assms slice_put_bytes_apart [of a "block_size_of (length payload)" "file" offset data]
  by (simp add: block_in_file_def length_put_bytes le_max_iff_disj)

lemma block_in_file_new: "block_in_file crc (put_bytes offset (data_block_bytes crc bid payload) file) offset bid payload"
  using slice_put_bytes_same [of offset "data_block_bytes crc bid payload" "file"]
  by (simp add: block_in_file_def length_put_bytes)

lemma positioned_write_all_spec:
  assumes "positioned_write_all offset data f (fl_pos f) = (r, f')"
  shows "(\<exists>e. r = Inl (WeIo e) \<and> \<not> set (fl_outcomes f) \<subseteq> {None}) \<or>
    (r = Inr (offset + length data) \<and> fl_bytes f' = put_bytes offset data (fl_bytes f) \<and>
     fl_pos f' = offset + length data \<and> set (fl_outcomes f') \<subseteq> set (fl_outcomes f))"
proof -
  have sub: "set (tl xs) \<subseteq> set xs" for xs :: "str option list" by (cases xs) auto
  show ?thesis
    using assms sub [of "fl_outcomes f"]
    by (auto simp: positioned_write_all_def file_write_def split: if_splits list.splits option.splits)
qed

definition file_kept :: "(bytes \<Rightarrow> 32 word) \<Rightarrow> nat \<times> nat \<Rightarrow> EagerWriteCtx \<Rightarrow> EagerWriteCtx \<Rightarrow> bool" where
  "file_kept crc region ew ew' \<longleftrightarrow>
     ew_file_pos ew' = fl_pos (ew_file ew') \<and>
     set (fl_outcomes (ew_file ew')) \<subseteq> set (fl_outcomes (ew_file ew)) \<and>
     (\<forall>a bid payload. clear_region (a, block_size_of (length payload)) \<longrightarrow>
        apart (a, block_size_of (length payload)) region \<longrightarrow>
        block_in_file crc (fl_bytes (ew_file ew)) a bid payload \<longrightarrow>
        block_in_file crc (fl_bytes (ew_file ew')) a bid payload)"

lemma file_kept_trans:
  "file_kept crc r ew ew1 \<Longrightarrow> file_kept crc r ew1 ew2 \<Longrightarrow> file_kept crc r ew ew2"
  unfolding file_kept_def by (metis subset_trans)

lemma length_amap_page_bytes [simp]: "length (amap_page_bytes crc offset bid) = PAGE_SIZE"
  by (simp add: amap_page_bytes_def page_trailer_def PAGE_SIZE_def Let_def)

text \<open>One write at the position the writer believes in.\<close>

lemma eager_write_spec:
  assumes "positioned_write_all offset data (ew_file ew) (ew_file_pos ew) = (r, f)"
    and "ew_file_pos ew = fl_pos (ew_file ew)"
  shows "(\<exists>e. r = Inl (WeIo e) \<and> \<not> set (fl_outcomes (ew_file ew)) \<subseteq> {None}) \<or>
    (\<exists>pos. r = Inr pos \<and> fl_bytes f = put_bytes offset data (fl_bytes (ew_file ew)) \<and> fl_pos f = pos \<and>
       set (fl_outcomes f) \<subseteq> set (fl_outcomes (ew_file ew)))"
  using positioned_write_all_spec [of offset data "ew_file ew" r f] assms by fastforce

lemma write_stubs_spec:
  assumes "ew_file_pos ew = fl_pos (ew_file ew)" and "\<forall>p\<in>set (ew_amap_pages ew). is_amap_page_offset (pe_offset p)"
    and "write_stubs crc ew = (r, ew')"
  shows "(\<exists>e. r = Inl (WeIo e) \<and> \<not> set (fl_outcomes (ew_file ew)) \<subseteq> {None}) \<or>
    (r = Inr () \<and> file_kept crc region ew ew' \<and> ew_cursor ew' = ew_cursor ew \<and>
     ew_amap_pages ew' = ew_amap_pages ew \<and> ew_amap_page_offsets ew' = ew_amap_page_offsets ew)"
  using assms
proof (induction crc ew arbitrary: ew' rule: write_stubs.induct)
  case (1 crc ew)
  show ?case
  proof (cases "ew_stubbed_upto ew < length (ew_amap_pages ew)")
    case False
    with 1(3,5) show ?thesis
      by (auto simp: write_stubs.simps [of crc ew] file_kept_def)
  next
    case more: True
    define n where "n = saturating_add64 (ew_amap_scan_steps ew) 1"
    define page where "page = ew_amap_pages ew ! ew_stubbed_upto ew"
    let ?ew = "ew \<lparr> ew_amap_scan_steps := n \<rparr>"
    let ?next = "ew_stubbed_upto ew + 1"
    have slot: "is_amap_page_offset (pe_offset page)" using 1(4) more by (simp add: page_def)
    show ?thesis
    proof (cases "pe_offset page |\<in>| ew_amap_stubs_written ew")
      case True
      with more 1(5) have rec: "write_stubs crc (?ew \<lparr> ew_stubbed_upto := ?next \<rparr>) = (r, ew')"
        by (simp add: write_stubs.simps [of crc ew] n_def page_def Let_def)
      from 1(2) [OF more refl refl, of ew'] 1(3,4) True rec show ?thesis
        by (simp add: n_def page_def file_kept_def)
    next
      case False
      obtain w f where w: "positioned_write_all (pe_offset page) (amap_page_bytes crc (pe_offset page) (pe_bid page))
          (ew_file ew) (ew_file_pos ew) = (w, f)" by (cases "positioned_write_all (pe_offset page)
          (amap_page_bytes crc (pe_offset page) (pe_bid page)) (ew_file ew) (ew_file_pos ew)")
      show ?thesis
        using eager_write_spec [OF w 1(3)]
      proof (elim disjE exE conjE)
        fix e assume "w = Inl (WeIo e)" "\<not> set (fl_outcomes (ew_file ew)) \<subseteq> {None}"
        with more False w 1(5) show ?thesis
          by (auto simp: write_stubs.simps [of crc ew] page_def Let_def)
      next
        fix pos assume ok: "w = Inr pos" "fl_bytes f = put_bytes (pe_offset page)
            (amap_page_bytes crc (pe_offset page) (pe_bid page)) (fl_bytes (ew_file ew))" "fl_pos f = pos"
          "set (fl_outcomes f) \<subseteq> set (fl_outcomes (ew_file ew))"
        let ?ew1 = "?ew \<lparr> ew_file := f, ew_file_pos := pos, ew_amap_stubs_written :=
            finsert (pe_offset page) (ew_amap_stubs_written ew), ew_stubbed_upto := ?next \<rparr>"
        have rec: "write_stubs crc ?ew1 = (r, ew')"
          using more False w ok(1) 1(5) by (simp add: write_stubs.simps [of crc ew] n_def page_def Let_def)
        have kept: "file_kept crc region ew ?ew1"
          using ok(2-4) slot unfolding file_kept_def by (auto intro!: block_in_file_put simp: clear_region_def)
        have "(\<exists>e. r = Inl (WeIo e) \<and> \<not> set (fl_outcomes f) \<subseteq> {None}) \<or>
            (r = Inr () \<and> file_kept crc region ?ew1 ew' \<and> ew_cursor ew' = ew_cursor ew \<and>
             ew_amap_pages ew' = ew_amap_pages ew \<and> ew_amap_page_offsets ew' = ew_amap_page_offsets ew)"
          using 1(1) [OF more refl refl] False w ok(1,3) 1(3,4) rec
          by (simp add: n_def page_def)
        with kept ok(4) show ?thesis using file_kept_trans [OF kept] by blast
      qed
    qed
  qed
qed

lemma block_size_fits: "n \<le> MAX_BLOCK_DATA \<Longrightarrow> block_size_of n + PAGE_SIZE \<le> AMAP_INTERVAL"
  using align_up_64(2) [of n]
  by (simp add: block_size_of_def MAX_BLOCK_DATA_def PAGE_SIZE_def AMAP_INTERVAL_def)

text \<open>The layout after a block was placed and written.\<close>

definition with_disk_block :: "Layout \<Rightarrow> Placing \<Rightarrow> u64 \<Rightarrow> u64 \<Rightarrow> usize \<Rightarrow> EagerWriteCtx \<Rightarrow> Layout" where
  "with_disk_block lay p bid off n ew =
     lay \<lparr> ly_used_bids := pl_used_bids p, ly_next_bid_counter := pl_next_bid p,
           ly_blocks := ly_blocks lay @ [block_on_disk bid off n], ly_eager := Some ew \<rparr>"

lemma place_and_write_block_spec:
  assumes "layout_ok lay" and "ly_eager lay = Some ew" and "length payload \<le> MAX_BLOCK_DATA"
  shows "\<exists>r lay' ew'. place_and_write_block crc bid payload (lay \<lparr> ly_eager := None \<rparr>) ew = Some (r, lay', ew') \<and>
    ((\<exists>e. r = Inl (WeIo e) \<and> \<not> io_ok lay) \<or>
     (\<exists>off p. r = Inr off \<and> placed_at (block_size_of (length payload)) 64 (eager_placing lay ew) off p \<and>
        lay' = lay \<lparr> ly_eager := None, ly_used_bids := pl_used_bids p, ly_next_bid_counter := pl_next_bid p \<rparr> \<and>
        ew_cursor ew' = pl_cursor p \<and> ew_amap_pages ew' = pl_amap_pages p \<and>
        ew_amap_page_offsets ew' = pl_amap_page_offsets p \<and>
        file_kept crc (off, block_size_of (length payload)) ew ew' \<and>
        block_in_file crc (fl_bytes (ew_file ew')) off bid payload))"
proof -
  let ?size = "block_size_of (length payload)"
  have ok: "eager_ok lay ew" using assms(1,2) by (simp add: layout_ok_def)
  obtain off p where place: "amap_place_region ?size BLOCK_ALIGN (eager_placing lay ew) = Some (off, p)"
    and placed: "placed_at ?size 64 (eager_placing lay ew) off p"
    using amap_place_region_placed [of "eager_placing lay ew" 64 ?size] ok block_size_fits [OF assms(3)]
    by (auto simp: eager_ok_def eager_placing_def BLOCK_ALIGN_def)
  let ?lay = "lay \<lparr> ly_eager := None, ly_used_bids := pl_used_bids p, ly_next_bid_counter := pl_next_bid p \<rparr>"
  obtain w ew1 where stubs: "write_stubs crc (eager_placed p ew) = (w, ew1)"
    by (cases "write_stubs crc (eager_placed p ew)")
  have io: "\<not> set (fl_outcomes (ew_file ew)) \<subseteq> {None} \<Longrightarrow> \<not> io_ok lay" using assms(2) by (simp add: io_ok_def)
  have fp: "ew_file_pos (eager_placed p ew) = fl_pos (ew_file (eager_placed p ew))"
    using ok by (simp add: eager_placed_def eager_ok_def)
  have slots: "\<forall>q\<in>set (ew_amap_pages (eager_placed p ew)). is_amap_page_offset (pe_offset q)"
    using placed by (auto simp: placed_at_def amaps_ok_def eager_placed_def)
  have same: "eager_placing (lay \<lparr> ly_eager := None \<rparr>) ew = eager_placing lay ew" by (simp add: eager_placing_def)
  show ?thesis
    using write_stubs_spec [OF fp slots stubs, of "(off, ?size)"]
  proof (elim disjE exE conjE)
    fix e assume "w = Inl (WeIo e)" "\<not> set (fl_outcomes (ew_file (eager_placed p ew))) \<subseteq> {None}"
    with place stubs io same show ?thesis by (simp add: place_and_write_block_def eager_placed_def)
  next
    assume w: "w = Inr ()" and kept: "file_kept crc (off, ?size) (eager_placed p ew) ew1"
      and ew1: "ew_cursor ew1 = ew_cursor (eager_placed p ew)" "ew_amap_pages ew1 = ew_amap_pages (eager_placed p ew)"
        "ew_amap_page_offsets ew1 = ew_amap_page_offsets (eager_placed p ew)"
    let ?block = "data_block_bytes crc bid payload"
    have kept': "file_kept crc (off, ?size) ew ew1" using kept by (simp add: file_kept_def eager_placed_def)
    obtain v f where wr: "positioned_write_all off ?block (ew_file ew1) (ew_file_pos ew1) = (v, f)"
      by (cases "positioned_write_all off ?block (ew_file ew1) (ew_file_pos ew1)")
    have fp1: "ew_file_pos ew1 = fl_pos (ew_file ew1)" using kept by (simp add: file_kept_def)
    show ?thesis
      using eager_write_spec [OF wr fp1]
    proof (elim disjE exE conjE)
      fix e assume "v = Inl (WeIo e)" "\<not> set (fl_outcomes (ew_file ew1)) \<subseteq> {None}"
      moreover have "set (fl_outcomes (ew_file ew1)) \<subseteq> set (fl_outcomes (ew_file ew))"
        using kept' by (simp add: file_kept_def)
      ultimately show ?thesis
        using place stubs io same w wr by (auto simp: place_and_write_block_def)
    next
      fix pos assume v: "v = Inr pos" "fl_bytes f = put_bytes off ?block (fl_bytes (ew_file ew1))" "fl_pos f = pos"
        "set (fl_outcomes f) \<subseteq> set (fl_outcomes (ew_file ew1))"
      let ?ew = "ew1 \<lparr> ew_file := f, ew_file_pos := pos \<rparr>"
      have "file_kept crc (off, ?size) ew1 ?ew"
        using v by (auto simp: file_kept_def intro!: block_in_file_put)
      then have "file_kept crc (off, ?size) ew ?ew" by (rule file_kept_trans [OF kept'])
      moreover have "block_in_file crc (fl_bytes (ew_file ?ew)) off bid payload"
        using block_in_file_new v(2) by simp
      moreover have "place_and_write_block crc bid payload (lay \<lparr> ly_eager := None \<rparr>) ew = Some (Inr off, ?lay, ?ew)"
        using place stubs same w wr v(1) by (simp add: place_and_write_block_def)
      ultimately show ?thesis
        using placed ew1
        by (intro exI [where x = "Inr off"] exI [where x = ?lay] exI [where x = ?ew])
          (auto simp: eager_placed_def intro!: exI [where x = p])
    qed
  qed
qed

lemma add_disk_block:
  assumes "layout_ok lay" and "ly_eager lay = Some ew" and "length payload \<le> MAX_BLOCK_DATA"
    and "bid \<in> fset (ly_used_bids lay)" and "bid \<notin> set (all_bids lay)"
    and placed: "placed_at (block_size_of (length payload)) 64 (eager_placing lay ew) off p"
    and ew': "ew_cursor ew' = pl_cursor p" "ew_amap_pages ew' = pl_amap_pages p"
      "ew_amap_page_offsets ew' = pl_amap_page_offsets p"
    and kept: "file_kept crc (off, block_size_of (length payload)) ew ew'"
    and stored: "block_in_file crc (fl_bytes (ew_file ew')) off bid payload"
  shows "lay_keeps crc lay (with_disk_block lay p bid off (length payload) ew')"
    and "holds crc (with_disk_block lay p bid off (length payload) ew') bid payload"
proof -
  let ?size = "block_size_of (length payload)"
  let ?lay = "with_disk_block lay p bid off (length payload) ew'"
  have ok: "eager_ok lay ew" using assms(1,2) by (simp add: layout_ok_def)
  have cursor: "ew_cursor ew \<le> off" "ew_cursor ew' = off + ?size" "64 dvd off"
    using placed ew'(1) by (simp_all add: placed_at_def eager_placing_def)
  have clear: "clear_region (off, ?size)"
    using placed by (auto simp: clear_region_def apart_def placed_at_def)
  obtain new where new: "pl_amap_pages p = ew_amap_pages ew @ new"
    "fset (pl_used_bids p) = fset (ly_used_bids lay) \<union> pe_bid ` set new"
    "pe_bid ` set new \<inter> fset (ly_used_bids lay) = {}"
    and next_bid: "ly_next_bid_counter lay \<le> pl_next_bid p"
    using placed by (auto simp: placed_at_def placing_grows_def eager_placing_def)
  have amaps: "amaps_ok p" "slots_below p" using placed by (simp_all add: placed_at_def)
  have bids: "all_bids ?lay = map be_bid (ly_blocks lay) @ [bid] @ map pe_bid (ly_pages lay) @
      map pe_bid (ew_amap_pages ew) @ map pe_bid new"
    using new(1) ew'(2) by (simp add: all_bids_def amap_bids_def with_disk_block_def block_on_disk_def)
  have old: "distinct (all_bids lay)" "set (all_bids lay) \<subseteq> fset (ly_used_bids lay)"
    using assms(1) by (simp_all add: layout_ok_def)
  have "distinct (map pe_bid (ew_amap_pages ew @ new))" using amaps(1) new(1) by (simp add: amaps_ok_def)
  then have "distinct (all_bids lay @ bid # map pe_bid new)"
    using old new(3) assms(4,5) by auto
  moreover have "mset (all_bids ?lay) = mset (all_bids lay @ bid # map pe_bid new)"
    using assms(2) unfolding bids by (simp add: all_bids_def amap_bids_def)
  ultimately have distinct: "distinct (all_bids ?lay)" by (metis mset_eq_imp_distinct_iff)
  have subset: "set (all_bids ?lay) \<subseteq> fset (ly_used_bids ?lay)"
    using old(2) new(2) assms(2,4) unfolding bids
    by (auto simp: all_bids_def amap_bids_def with_disk_block_def)
  have region: "apart (block_region b) (off, ?size)" if "b \<in> set (ly_blocks lay)" "be_on_disk b" for b
    using ok that cursor(1) by (auto simp: eager_ok_def disk_blocks_ok_def apart_def block_region_def)
  have disk: "disk_blocks_ok (ly_blocks lay @ [block_on_disk bid off (length payload)]) (ew_cursor ew')"
    using ok region clear cursor
    by (auto simp: eager_ok_def disk_blocks_ok_def sorted_wrt_append block_on_disk_def block_region_def)
  have "eager_placing ?lay ew' = p \<lparr> pl_scan_steps := ew_amap_scan_steps ew' \<rparr>"
    using ew' by (simp add: eager_placing_def with_disk_block_def)
  moreover have "amaps_ok (p \<lparr> pl_scan_steps := k \<rparr>)" "slots_below (p \<lparr> pl_scan_steps := k \<rparr>)" for k
    using amaps by (simp_all add: amaps_ok_def slots_below_def)
  moreover have "clear_of_amaps (ew_cursor ew')"
    using clear cursor(2) by (auto simp: clear_of_amaps_def clear_region_def apart_def PAGE_SIZE_def)
  moreover have "HEADER_SIZE \<le> ew_cursor ew'" using ok cursor by (simp add: eager_ok_def)
  ultimately have eager: "eager_ok ?lay ew'"
    using disk kept by (simp add: eager_ok_def file_kept_def with_disk_block_def)
  have layout: "layout_ok ?lay"
    using distinct subset eager assms(1,3) next_bid
    by (auto simp: layout_ok_def with_disk_block_def block_on_disk_def memory_block_ok_def)
  have held: "block_holds crc (Some ew') b x y" if "b \<in> set (ly_blocks lay)" "block_holds crc (Some ew) b x y" for b x y
    using that region [OF that(1)] ok kept
    by (auto simp: block_holds_def file_kept_def block_region_def eager_ok_def disk_blocks_ok_def)
  then have "holds crc lay \<le> holds crc ?lay"
    using assms(2) by (intro le_funI le_boolI) (auto simp: holds_def with_disk_block_def)
  with layout kept assms(2) show "lay_keeps crc lay ?lay"
    by (auto simp: lay_keeps_def io_ok_def with_disk_block_def file_kept_def)
  show "holds crc ?lay bid payload"
    using stored by (auto simp: holds_def block_holds_def with_disk_block_def block_on_disk_def)
qed

lemma disk_block_grows:
  assumes "bid |\<notin>| ly_used_bids lay"
    and "\<exists>n. lay1 = lay \<lparr> ly_used_bids := finsert bid (ly_used_bids lay), ly_next_bid_counter := n \<rparr>"
    and "ly_eager lay1 = Some ew" and "placed_at n 64 (eager_placing lay1 ew) off p"
    and "ew_amap_pages ew' = pl_amap_pages p"
  shows "\<exists>amaps. grows_by lay (with_disk_block lay1 p bid off k ew') [block_on_disk bid off k] amaps"
proof -
  from assms(4) obtain new where "pl_amap_pages p = ew_amap_pages ew @ new"
    "fset (pl_used_bids p) = fset (ly_used_bids lay1) \<union> pe_bid ` set new"
    "pe_bid ` set new \<inter> fset (ly_used_bids lay1) = {}"
    by (auto simp: placed_at_def placing_grows_def eager_placing_def)
  with assms(1,2,3,5) show ?thesis
    by (intro exI [where x = new])
      (auto simp: grows_by_def with_disk_block_def eager_pages_def block_on_disk_def)
qed

lemma push_leaf_spec:
  assumes "length data \<le> MAX_BLOCK_DATA"
  shows "lay_spec crc Q (push_leaf crc data)
    (\<lambda>entry lay. 0 < fst entry \<and> \<not> bit (fst entry) 1 \<and> snd entry = length data \<and> holds crc lay (fst entry) data)"
  unfolding lay_spec_def
proof (intro allI impI)
  fix lay assume lay: "layout_ok lay"
  let ?P = "\<lambda>entry lay'. 0 < fst entry \<and> \<not> bit (fst entry) 1 \<and> snd entry = length data \<and> holds crc lay' (fst entry) data"
  obtain bid lay1 where alloc: "alloc_bid False lay = (bid, lay1)" by (cases "alloc_bid False lay")
  note spec = alloc_bid_spec [OF lay alloc] and fresh = alloc_fresh [OF lay alloc]
  note step = lay_keeps_alloc [OF lay alloc, of crc]
  have len: "length data mod 2 ^ 32 = length data" using assms by (simp add: MAX_BLOCK_DATA_def)
  show "\<exists>r lay'. push_leaf crc data lay = Some (r, lay') \<and>
      (case r of Inl e \<Rightarrow> \<not> io_ok lay \<and> (\<exists>msg. e = WeIo msg) | Inr x \<Rightarrow> lay_step crc lay lay' \<and> ?P x lay')"
  proof (cases "ly_eager lay1")
    case None
    let ?b = "block_in_memory bid data"
    have b: "\<not> be_on_disk ?b" "memory_block_ok ?b" "be_bid ?b = bid" "be_data ?b = data"
      using assms len by (simp_all add: block_in_memory_def memory_block_ok_def)
    note added = add_memory_block [OF spec(4) b(1,2), of crc, unfolded b(3,4), OF fresh]
    have "push_leaf crc data lay = Some (Inr (bid, length data), lay1 \<lparr> ly_blocks := ly_blocks lay1 @ [?b] \<rparr>)"
      using None len by (simp add: push_leaf_def alloc push_leaf_block_def lay_bind_def lay_ret_def)
    moreover have "grows_by lay (lay1 \<lparr> ly_blocks := ly_blocks lay1 @ [?b] \<rparr>) [?b] []"
      using spec(1,5) b(3) by (auto simp: grows_by_def eager_pages_def)
    ultimately show ?thesis
      using lay_keeps_trans [OF step added(1)] added(2) spec(2,3) unfolding lay_step_def by fastforce
  next
    case (Some ew)
    have io: "io_ok lay \<Longrightarrow> io_ok lay1" using step by (simp add: lay_keeps_def)
    from place_and_write_block_spec [OF spec(4) Some assms, of crc bid] obtain r lay2 ew2 where
      place: "place_and_write_block crc bid data (lay1 \<lparr> ly_eager := None \<rparr>) ew = Some (r, lay2, ew2)" and
      cases: "(\<exists>e. r = Inl (WeIo e) \<and> \<not> io_ok lay1) \<or>
        (\<exists>off p. r = Inr off \<and> placed_at (block_size_of (length data)) 64 (eager_placing lay1 ew) off p \<and>
        lay2 = lay1 \<lparr> ly_eager := None, ly_used_bids := pl_used_bids p, ly_next_bid_counter := pl_next_bid p \<rparr> \<and>
        ew_cursor ew2 = pl_cursor p \<and> ew_amap_pages ew2 = pl_amap_pages p \<and>
        ew_amap_page_offsets ew2 = pl_amap_page_offsets p \<and>
        file_kept crc (off, block_size_of (length data)) ew ew2 \<and>
        block_in_file crc (fl_bytes (ew_file ew2)) off bid data)" by blast
    from cases show ?thesis
    proof (elim disjE exE conjE)
      fix e assume "r = Inl (WeIo e)" "\<not> io_ok lay1"
      with place Some io show ?thesis
        by (auto simp: push_leaf_def alloc push_leaf_block_def lay_bind_def)
    next
      fix off p assume ok: "r = Inr off" "placed_at (block_size_of (length data)) 64 (eager_placing lay1 ew) off p"
        "lay2 = lay1 \<lparr> ly_eager := None, ly_used_bids := pl_used_bids p, ly_next_bid_counter := pl_next_bid p \<rparr>"
        "ew_cursor ew2 = pl_cursor p" "ew_amap_pages ew2 = pl_amap_pages p"
        "ew_amap_page_offsets ew2 = pl_amap_page_offsets p"
        "file_kept crc (off, block_size_of (length data)) ew ew2"
        "block_in_file crc (fl_bytes (ew_file ew2)) off bid data"
      note added = add_disk_block [OF spec(4) Some assms fresh ok(2,4-8)]
      have "push_leaf crc data lay = Some (Inr (bid, length data), with_disk_block lay1 p bid off (length data) ew2)"
        using place Some ok(1,3) len
        by (simp add: push_leaf_def alloc push_leaf_block_def lay_bind_def lay_ret_def with_disk_block_def)
      moreover obtain amaps where "grows_by lay (with_disk_block lay1 p bid off (length data) ew2)
          [block_on_disk bid off (length data)] amaps"
        using disk_block_grows [OF spec(1,5) Some ok(2,5)] by blast
      ultimately show ?thesis
        using lay_keeps_trans [OF step added(1)] added(2) spec(2,3) unfolding lay_step_def by fastforce
    qed
  qed
qed

text \<open>The leaves of a chain, in order.\<close>

definition leaves_hold :: "(bytes \<Rightarrow> 32 word) \<Rightarrow> Layout \<Rightarrow> (u64 \<times> u32) list \<Rightarrow> bytes list \<Rightarrow> bool" where
  "leaves_hold crc lay entries datas \<longleftrightarrow>
     list_all2 (\<lambda>entry data. 0 < fst entry \<and> \<not> bit (fst entry) 1 \<and> snd entry = length data \<and>
       holds crc lay (fst entry) data) entries datas"

lemma leaves_hold_step: "lay_step crc lay lay' \<Longrightarrow> leaves_hold crc lay entries datas \<Longrightarrow> leaves_hold crc lay' entries datas"
  unfolding leaves_hold_def by (erule list_all2_mono) (auto dest!: lay_stepD)

text \<open>A fact that later steps keep may be carried along.\<close>

lemma lay_spec_frame:
  assumes "lay_spec crc Q m P" and "\<And>lay lay'. lay_step crc lay lay' \<Longrightarrow> F lay \<Longrightarrow> F lay'"
  shows "lay_spec crc (\<lambda>lay. Q lay \<and> F lay) m (\<lambda>x lay. P x lay \<and> F lay)"
  unfolding lay_spec_def
proof (intro allI impI, elim conjE)
  fix lay assume lay: "layout_ok lay" "Q lay" "F lay"
  with assms(1) obtain r lay' where m: "m lay = Some (r, lay')"
    "case r of Inl e \<Rightarrow> \<not> io_ok lay \<and> (\<exists>msg. e = WeIo msg) | Inr x \<Rightarrow> lay_step crc lay lay' \<and> P x lay'"
    unfolding lay_spec_def by blast
  then show "\<exists>r lay'. m lay = Some (r, lay') \<and> (case r of Inl e \<Rightarrow> \<not> io_ok lay \<and> (\<exists>msg. e = WeIo msg) |
      Inr x \<Rightarrow> lay_step crc lay lay' \<and> P x lay' \<and> F lay')"
    using assms(2) lay(3) by (cases r) auto
qed

lemma push_leaves_spec:
  assumes "\<forall>data\<in>set datas. length data \<le> MAX_BLOCK_DATA"
  shows "lay_spec crc Q (push_leaves crc datas) (\<lambda>entries lay. leaves_hold crc lay entries datas)"
proof -
  let ?I = "\<lambda>front acc lay. leaves_hold crc lay acc front"
  let ?f = "\<lambda>data acc. lay_bind (push_leaf crc data) (\<lambda>entry. lay_ret (acc @ [entry]))"
  have "lay_spec crc (?I front acc) (?f data acc) (?I (front @ [data]))" if "data \<in> set datas" for data acc front
  proof -
    have first: "lay_spec crc (\<lambda>lay. True \<and> leaves_hold crc lay acc front) (push_leaf crc data)
      (\<lambda>entry lay. (0 < fst entry \<and> \<not> bit (fst entry) 1 \<and> snd entry = length data \<and> holds crc lay (fst entry) data)
        \<and> leaves_hold crc lay acc front)"
      using assms that by (intro lay_spec_frame [OF push_leaf_spec]) (auto intro: leaves_hold_step)
    show ?thesis
      by (rule lay_spec_bind [OF first [unfolded simp_thms]], rule lay_spec_ret)
        (auto simp: leaves_hold_def intro!: list_all2_appendI)
  qed
  from lay_spec_each [of datas crc ?I ?f "[]" "[]", OF this]
  have "lay_spec crc (?I [] []) (lay_each ?f datas []) (?I ([] @ datas))" .
  then show ?thesis
    unfolding push_leaves_def by (rule lay_spec_weaken) (simp_all add: leaves_hold_def)
qed

subsection \<open>Chains\<close>

lemma chunks_Nil [simp]: "chunks n [] = []"
  by (simp add: chunks.simps)

lemma chunks_step: "0 < n \<Longrightarrow> xs \<noteq> [] \<Longrightarrow> chunks n xs = take n xs # chunks n (drop n xs)"
  by (simp add: chunks.simps)

lemma concat_chunks: "0 < n \<Longrightarrow> concat (chunks n xs) = xs"
  by (induction n xs rule: chunks.induct) (metis append_take_drop_id chunks_Nil chunks_step concat.simps less_numeral_extra(3))

lemma chunks_bounds: "ys \<in> set (chunks n xs) \<Longrightarrow> length ys \<le> n \<and> ys \<noteq> []"
proof (induction n xs rule: chunks.induct)
  case (1 n xs)
  then show ?case by (subst (asm) chunks.simps) (auto split: if_splits)
qed

lemma chunks_list_all2: "list_all2 P xs ys \<Longrightarrow> list_all2 (list_all2 P) (chunks n xs) (chunks n ys)"
proof (induction n xs arbitrary: ys rule: chunks.induct)
  case (1 n xs)
  show ?case
  proof (cases "n = 0 \<or> xs = []")
    case True
    with 1(2) have "n = 0 \<or> ys = []" by auto
    with True show ?thesis by (auto simp: chunks.simps)
  next
    case False
    with 1(2) have "ys \<noteq> []" by auto
    with False 1 show ?thesis by (simp add: chunks_step)
  qed
qed

lemma length_chunks: "0 < n \<Longrightarrow> length (chunks n xs) * n < length xs + n"
proof (induction n xs rule: chunks.induct)
  case (1 n xs)
  show ?case
  proof (cases "xs = []")
    case False
    show ?thesis
    proof (cases "length xs \<le> n")
      case True
      with False 1(2) show ?thesis by (simp add: chunks_step)
    next
      case less: False
      with False 1 have "length (chunks n (drop n xs)) * n < length (drop n xs) + n" by simp
      with False 1(2) less show ?thesis by (simp add: chunks_step)
    qed
  qed (use 1 in simp)
qed

lemma length_chain_payload: "length (chain_payload level n total_len bids) = 8 + 8 * length bids"
proof -
  have "length (concat (map (le_bytes 8) bids)) = length bids * 8"
    using length_concat_width [of "map (le_bytes 8) bids" 8] by simp
  then show ?thesis by (simp add: chain_payload_def)
qed

lemma chain_payload_fits: "length bids \<le> MAX_XBLOCK_ENTRIES \<Longrightarrow> length (chain_payload level n total_len bids) \<le> MAX_BLOCK_DATA"
  by (simp add: length_chain_payload MAX_XBLOCK_ENTRIES_def MAX_BLOCK_DATA_def)

text \<open>The leaves of a chain, as the abstract chain has them.\<close>

definition leaf_pairs :: "(u64 \<times> u32) list \<Rightarrow> bytes list \<Rightarrow> (u64 \<times> bytes) list" where
  "leaf_pairs entries datas = zip (map fst entries) datas"

lemma leaves_hold_pairs:
  assumes "leaves_hold crc lay entries datas"
  shows "map snd (leaf_pairs entries datas) = datas" "map fst (leaf_pairs entries datas) = map fst entries"
    "length (leaf_pairs entries datas) = length entries" "sum_list (map snd entries) = length (concat datas)"
    "\<forall>(leaf, data) \<in> set (leaf_pairs entries datas). holds crc lay leaf data"
proof -
  have len: "length entries = length datas" using assms by (auto simp: leaves_hold_def dest: list_all2_lengthD)
  then show "map snd (leaf_pairs entries datas) = datas" "map fst (leaf_pairs entries datas) = map fst entries"
    "length (leaf_pairs entries datas) = length entries" by (simp_all add: leaf_pairs_def)
  have "map snd entries = map length datas"
    using assms len by (intro nth_equalityI) (auto simp: leaves_hold_def list_all2_conv_all_nth)
  then show "sum_list (map snd entries) = length (concat datas)" by (simp add: length_concat)
  show "\<forall>(leaf, data) \<in> set (leaf_pairs entries datas). holds crc lay leaf data"
    using assms by (auto simp: leaves_hold_def list_all2_conv_all_nth leaf_pairs_def in_set_zip)
qed

definition xblock_holds :: "(bytes \<Rightarrow> 32 word) \<Rightarrow> Layout \<Rightarrow> u64 \<Rightarrow> (u64 \<times> u32) list \<times> bytes list \<Rightarrow> bool" where
  "xblock_holds crc lay bid grp \<longleftrightarrow> length (fst grp) = length (snd grp) \<and>
     xblock_of CryptNone (holds crc lay) bid (leaf_pairs (fst grp) (snd grp))"

lemma xblock_holds_step: "lay_step crc lay lay' \<Longrightarrow> xblock_holds crc lay bid grp \<Longrightarrow> xblock_holds crc lay' bid grp"
  by (fastforce simp: xblock_holds_def xblock_of_def dest!: lay_stepD)

lemma build_xblock_spec:
  assumes "length entries \<le> MAX_XBLOCK_ENTRIES"
  shows "lay_spec crc (\<lambda>lay. leaves_hold crc lay entries datas) (build_xblock entries)
    (\<lambda>bid lay. xblock_holds crc lay bid (entries, datas))"
proof -
  let ?payload = "chain_payload 1 (length entries) (sum_list (map snd entries)) (map fst entries)"
  have "lay_spec crc (\<lambda>lay. True \<and> leaves_hold crc lay entries datas) (push_block True ?payload)
    (\<lambda>bid lay. (0 < bid \<and> bit bid 1 = True \<and> holds crc lay bid ?payload \<and> bid |\<in>| ly_used_bids lay) \<and>
      leaves_hold crc lay entries datas)"
    using assms by (intro lay_spec_frame [OF push_block_spec] chain_payload_fits) (auto intro: leaves_hold_step)
  then show ?thesis
    unfolding build_xblock_def
  proof (rule lay_spec_weaken, simp)
    fix bid lay
    assume A: "(0 < bid \<and> bit bid 1 = True \<and> holds crc lay bid ?payload \<and> bid |\<in>| ly_used_bids lay) \<and>
      leaves_hold crc lay entries datas"
    with leaves_hold_pairs [of crc lay entries datas] assms show "xblock_holds crc lay bid (entries, datas)"
      by (auto simp: xblock_holds_def xblock_of_def leaves_hold_def dest: list_all2_lengthD)
  qed
qed

lemma lay_each_map: "lay_each f (map h xs) a = lay_each (f \<circ> h) xs a"
proof (induction xs arbitrary: a)
  case (Cons x xs)
  have "lay_each f (map h xs) = lay_each (f \<circ> h) xs" by (rule ext) (rule Cons)
  then show ?case by (simp add: comp_def)
qed simp

lemma build_xblocks_spec:
  assumes "\<forall>g\<in>set groups. length (fst g) \<le> MAX_XBLOCK_ENTRIES"
  shows "lay_spec crc (\<lambda>lay. \<forall>g\<in>set groups. leaves_hold crc lay (fst g) (snd g)) (build_xblocks (map fst groups))
    (\<lambda>bids lay. list_all2 (xblock_holds crc lay) bids groups)"
proof -
  let ?Q = "\<lambda>lay. \<forall>g\<in>set groups. leaves_hold crc lay (fst g) (snd g)"
  let ?I = "\<lambda>front acc lay. ?Q lay \<and> list_all2 (xblock_holds crc lay) acc front"
  let ?f = "\<lambda>grp acc. lay_bind (build_xblock grp) (\<lambda>bid. lay_ret (acc @ [bid]))"
  have "lay_spec crc (?I front acc) ((?f \<circ> fst) g acc) (?I (front @ [g]))" if g: "g \<in> set groups" for g acc front
  proof -
    have "lay_spec crc (\<lambda>lay. leaves_hold crc lay (fst g) (snd g) \<and> ?I front acc lay) (build_xblock (fst g))
      (\<lambda>bid lay. xblock_holds crc lay bid (fst g, snd g) \<and> ?I front acc lay)"
    proof (rule lay_spec_frame [OF build_xblock_spec])
      show "length (fst g) \<le> MAX_XBLOCK_ENTRIES" using assms g by simp
      fix lay lay' assume "lay_step crc lay lay'" "?I front acc lay"
      then show "?I front acc lay'"
        by (auto intro: leaves_hold_step elim: list_all2_mono xblock_holds_step)
    qed
    then have first: "lay_spec crc (?I front acc) (build_xblock (fst g))
      (\<lambda>bid lay. xblock_holds crc lay bid (fst g, snd g) \<and> ?I front acc lay)"
      by (rule lay_spec_weaken) (use g in auto)
    show ?thesis
      unfolding comp_def by (rule lay_spec_bind [OF first], rule lay_spec_ret) (auto intro!: list_all2_appendI)
  qed
  from lay_spec_each [of groups crc ?I "?f \<circ> fst" "[]" "[]", OF this]
  have "lay_spec crc (?I [] []) (lay_each (?f \<circ> fst) groups []) (?I ([] @ groups))" .
  then show ?thesis
    unfolding build_xblocks_def lay_each_map by (rule lay_spec_weaken) simp_all
qed

lemma concat_of_concat: "concat (concat xss) = concat (map concat xss)"
  by (induction xss) simp_all

lemma build_xxblock_spec:
  assumes "length groups \<le> MAX_XBLOCK_ENTRIES" and "length bids = length groups"
  shows "lay_spec crc (\<lambda>lay. list_all2 (xblock_holds crc lay) bids groups)
    (build_xxblock bids (length (concat (concat (map snd groups)))))
    (\<lambda>bid lay. chain_data CryptNone (holds crc lay) bid (concat (concat (map snd groups))))"
proof -
  let ?data = "concat (concat (map snd groups))"
  let ?payload = "chain_payload 2 (length bids) (length ?data) bids"
  have "lay_spec crc (\<lambda>lay. True \<and> list_all2 (xblock_holds crc lay) bids groups) (push_block True ?payload)
    (\<lambda>bid lay. (0 < bid \<and> bit bid 1 = True \<and> holds crc lay bid ?payload \<and> bid |\<in>| ly_used_bids lay) \<and>
      list_all2 (xblock_holds crc lay) bids groups)"
    using assms by (intro lay_spec_frame [OF push_block_spec] chain_payload_fits)
      (auto elim: list_all2_mono xblock_holds_step)
  then show ?thesis
    unfolding build_xxblock_def
  proof (rule lay_spec_weaken, simp)
    fix bid lay
    assume A: "(0 < bid \<and> bit bid 1 = True \<and> holds crc lay bid ?payload \<and> bid |\<in>| ly_used_bids lay) \<and>
      list_all2 (xblock_holds crc lay) bids groups"
    let ?gs = "map (\<lambda>(b, grp). (b, leaf_pairs (fst grp) (snd grp))) (zip bids groups)"
    from A have each: "\<forall>i<length bids. xblock_holds crc lay (bids ! i) (groups ! i)"
      by (simp add: list_all2_conv_all_nth)
    have "map (concat \<circ> map snd \<circ> snd) ?gs = map (concat \<circ> snd) groups"
      using each assms(2) by (intro nth_equalityI) (simp_all add: xblock_holds_def leaf_pairs_def)
    then have parts: "?data = concat (map (concat \<circ> map snd \<circ> snd) ?gs)"
      by (simp add: concat_of_concat)
    have "map fst ?gs = bids" using assms(2) by (intro nth_equalityI) simp_all
    moreover have "\<forall>(xbid, leaves) \<in> set ?gs. xblock_of CryptNone (holds crc lay) xbid leaves"
      using each by (force simp: in_set_zip xblock_holds_def)
    ultimately show "chain_data CryptNone (holds crc lay) bid ?data"
      using A assms parts by (intro chain_xxblock [where groups = ?gs]) auto
  qed
qed

lemma xblock_count: "length entries * MAX_BLOCK_DATA < I32_MAX + MAX_BLOCK_DATA \<Longrightarrow>
    length (chunks MAX_XBLOCK_ENTRIES entries) \<le> MAX_XBLOCK_ENTRIES"
  using length_chunks [of MAX_XBLOCK_ENTRIES entries]
  by (simp add: MAX_XBLOCK_ENTRIES_def MAX_BLOCK_DATA_def I32_MAX_def)

text \<open>
  The root of a chain. Data within the limit of the writer never exceeds the capacity of one
  XXBLOCK, so the error of that branch does not occur.
\<close>

lemma build_chain_root_spec:
  assumes "length entries * MAX_BLOCK_DATA < I32_MAX + MAX_BLOCK_DATA" and "length (concat datas) = total_len"
  shows "lay_spec crc (\<lambda>lay. leaves_hold crc lay entries datas) (build_chain_root msg total_len entries)
    (\<lambda>bid lay. chain_data CryptNone (holds crc lay) bid (concat datas))"
proof (cases "length entries \<le> MAX_XBLOCK_ENTRIES")
  case True
  have "lay_spec crc (\<lambda>lay. leaves_hold crc lay entries datas) (build_xblock entries)
    (\<lambda>bid lay. chain_data CryptNone (holds crc lay) bid (concat datas))"
  proof (rule lay_spec_weaken [OF build_xblock_spec [OF True, of crc datas]])
    fix bid lay
    assume "xblock_holds crc lay bid (entries, datas)"
    then have "chain_data CryptNone (holds crc lay) bid (concat (map snd (leaf_pairs entries datas)))"
      by (intro chain_xblock) (simp add: xblock_holds_def)
    moreover have "map snd (leaf_pairs entries datas) = datas"
      using \<open>xblock_holds crc lay bid (entries, datas)\<close> by (simp add: xblock_holds_def leaf_pairs_def)
    ultimately show "chain_data CryptNone (holds crc lay) bid (concat datas)" by simp
  qed
  with True show ?thesis by (simp add: build_chain_root_def)
next
  case False
  let ?n = MAX_XBLOCK_ENTRIES
  have n: "0 < ?n" by (simp add: MAX_XBLOCK_ENTRIES_def MAX_BLOCK_DATA_def)
  let ?groups = "zip (chunks ?n entries) (chunks ?n datas)"
  let ?P = "\<lambda>bids lay. list_all2 (xblock_holds crc lay) bids ?groups"
  show ?thesis
  proof (cases "length entries = length datas")
    case unequal: False
    then have "\<not> leaves_hold crc lay entries datas" for lay by (auto simp: leaves_hold_def dest: list_all2_lengthD)
    then show ?thesis by (simp add: lay_spec_def)
  next
    case True
    then have "list_all2 (\<lambda>_ _. True) entries datas" by (simp add: list_all2_conv_all_nth)
    then have "length (chunks ?n entries) = length (chunks ?n datas)"
      by (intro list_all2_lengthD [OF chunks_list_all2])
    then have groups: "map fst ?groups = chunks ?n entries" "map snd ?groups = chunks ?n datas"
      "length ?groups = length (chunks ?n entries)" by simp_all
    have small: "\<forall>g\<in>set ?groups. length (fst g) \<le> ?n"
      using chunks_bounds by (fastforce dest: set_zip_leftD)
    have "lay_spec crc (\<lambda>lay. leaves_hold crc lay entries datas) (build_xblocks (chunks ?n entries)) ?P"
      using build_xblocks_spec [OF small, of crc] unfolding groups(1)
    proof (rule lay_spec_weaken)
      fix lay assume "leaves_hold crc lay entries datas"
      then have "list_all2 (leaves_hold crc lay) (chunks ?n entries) (chunks ?n datas)"
        unfolding leaves_hold_def by (rule chunks_list_all2)
      then show "\<forall>g\<in>set ?groups. leaves_hold crc lay (fst g) (snd g)"
        by (auto simp: list_all2_conv_all_nth in_set_zip)
    qed
    then show ?thesis
      using False unfolding build_chain_root_def
    proof (simp, elim lay_spec_bind)
      fix bids
      show "lay_spec crc (?P bids) (if ?n < length bids then lay_fail (WeAllocationFailed (msg (length bids)))
            else build_xxblock bids total_len)
          (\<lambda>bid lay. chain_data CryptNone (holds crc lay) bid (concat datas))"
      proof (cases "length bids = length ?groups")
        case True
        then have le: "length bids \<le> ?n" using xblock_count [OF assms(1)] groups(3) by simp
        have "concat (concat (map snd ?groups)) = concat datas" by (simp only: groups(2) concat_chunks [OF n])
        with build_xxblock_spec [of ?groups bids crc] True le groups(3) assms(2) show ?thesis by simp
      next
        case False
        then have "\<not> ?P bids lay" for lay by (auto dest: list_all2_lengthD)
        then show ?thesis by (simp add: lay_spec_def)
      qed
    qed
  qed
qed

lemma write_data_chain_spec:
  assumes "length data \<le> I32_MAX"
  shows "lay_spec crc Q (write_data_chain crc data)
    (\<lambda>bid lay. chain_data CryptNone (holds crc lay) bid data)"
proof (cases "data = [] \<or> length data \<le> MAX_BLOCK_DATA")
  case True
  have "lay_spec crc Q (push_leaf crc data) (\<lambda>entry lay. 0 < fst entry \<and> \<not> bit (fst entry) 1 \<and>
      snd entry = length data \<and> holds crc lay (fst entry) data)"
    using True by (intro push_leaf_spec) auto
  then have "lay_spec crc Q (lay_bind (push_leaf crc data) (\<lambda>(bid, _). lay_ret bid))
      (\<lambda>bid lay. chain_data CryptNone (holds crc lay) bid data)"
    by (rule lay_spec_bind) (use True in \<open>auto intro!: lay_spec_ret chain_leaf\<close>)
  with True assms show ?thesis
    by (auto simp: write_data_chain_def chain_null intro: lay_spec_ret)
next
  case False
  have n: "0 < MAX_BLOCK_DATA" by (simp add: MAX_BLOCK_DATA_def)
  let ?datas = "chunks MAX_BLOCK_DATA data"
  have len: "length data mod 2 ^ 32 = length data" using assms by (simp add: I32_MAX_def)
  have "\<forall>d\<in>set ?datas. length d \<le> MAX_BLOCK_DATA" using chunks_bounds by blast
  note leaves = push_leaves_spec [OF this, of crc Q]
  have root: "lay_spec crc (\<lambda>lay. leaves_hold crc lay entries ?datas)
      (build_chain_root msg (length data) entries) (\<lambda>bid lay. chain_data CryptNone (holds crc lay) bid data)" for msg entries
  proof (cases "length entries = length ?datas")
    case True
    have "length entries * MAX_BLOCK_DATA < I32_MAX + MAX_BLOCK_DATA"
      using length_chunks [OF n, of data] assms True by simp
    from build_chain_root_spec [OF this, of ?datas "length data" crc msg] show ?thesis
      by (simp add: concat_chunks [OF n])
  next
    case False
    then have "\<not> leaves_hold crc lay entries ?datas" for lay by (auto simp: leaves_hold_def dest: list_all2_lengthD)
    then show ?thesis by (simp add: lay_spec_def)
  qed
  show ?thesis
    using False assms len by (simp add: write_data_chain_def lay_spec_bind [OF leaves root])
qed

text \<open>
  C7: a data chain reads back what was written. Writing a value of at most 2 GiB - 1 always returns, and
  fails only when a write to the temporary file does. Otherwise the layout keeps its invariant and every
  block it held, and from any file that serves its blocks the identifier reads back the value, unless
  the value is longer than the 64 MiB that the reader assembles: then the read is refused.
\<close>

theorem data_chain_round_trip:
  assumes "layout_ok lay" and "length data \<le> I32_MAX"
  shows "\<exists>r lay'. write_data_chain crc data lay = Some (r, lay') \<and>
    (case r of
       Inl e \<Rightarrow> \<not> io_ok lay \<and> (\<exists>msg. e = WeIo msg)
     | Inr bid \<Rightarrow> layout_ok lay' \<and> holds crc lay \<le> holds crc lay' \<and>
         (\<forall>file bbt. (\<forall>b p. holds crc lay' b p \<longrightarrow> serves crc file bbt b p) \<longrightarrow>
           (if length data \<le> MAX_XBLOCK_ASSEMBLE then yields (read_block_data crc file bbt bid CryptNone) data
            else \<forall>s. \<exists>msg s'. read_block_data crc file bbt bid CryptNone s = (Inl (PeResourceLimit msg), s'))))"
proof -
  from write_data_chain_spec [OF assms(2), of crc "\<lambda>_. True"] assms(1) obtain r lay' where
    w: "write_data_chain crc data lay = Some (r, lay')"
    "case r of Inl e \<Rightarrow> \<not> io_ok lay \<and> (\<exists>msg. e = WeIo msg)
     | Inr bid \<Rightarrow> lay_step crc lay lay' \<and> chain_data CryptNone (holds crc lay') bid data"
    unfolding lay_spec_def by blast
  show ?thesis
  proof (cases r)
    case (Inr bid)
    with w(2) have step: "lay_step crc lay lay'" and chain: "chain_data CryptNone (holds crc lay') bid data" by simp_all
    have "length data < 2 ^ 32" using assms(2) by (simp add: I32_MAX_def)
    then have "if length data \<le> MAX_XBLOCK_ASSEMBLE then yields (read_block_data crc file bbt bid CryptNone) data
        else \<forall>s. \<exists>msg s'. read_block_data crc file bbt bid CryptNone s = (Inl (PeResourceLimit msg), s')"
      if "\<forall>b p. holds crc lay' b p \<longrightarrow> serves crc file bbt b p" for "file" bbt
      using that read_chain [OF chain] read_chain_too_large [OF chain] by (simp add: not_le) blast
    with w(1) Inr lay_stepD [OF step] show ?thesis by simp
  qed (use w in auto)
qed

theorem data_chain_round_trip_witness:
  "\<exists>bid lay'. write_data_chain (\<lambda>_. 0) [1, 2, 3] layout_new = Some (Inr bid, lay') \<and> layout_ok lay' \<and>
     (\<forall>file bbt. (\<forall>b p. holds (\<lambda>_. 0) lay' b p \<longrightarrow> serves (\<lambda>_. 0) file bbt b p) \<longrightarrow>
        yields (read_block_data (\<lambda>_. 0) file bbt bid CryptNone) [1, 2, 3])"
proof -
  have lay: "layout_ok layout_new" "io_ok layout_new"
    by (simp_all add: layout_ok_def layout_new_def all_bids_def amap_bids_def io_ok_def)
  have small: "length [1, 2, 3 :: byte] \<le> I32_MAX" "length [1, 2, 3 :: byte] \<le> MAX_XBLOCK_ASSEMBLE"
    by (simp_all add: I32_MAX_def MAX_XBLOCK_ASSEMBLE_def)
  from data_chain_round_trip [OF lay(1) small(1), of "\<lambda>_. 0"] lay(2) show ?thesis
    unfolding if_P [OF small(2)] by (fastforce split: sum.splits)
qed

end
