(* ===== verification/Layout_Offsets.thy ===== *)
theory Layout_Offsets
  imports Chain_Writer
begin

text \<open>
  The final offsets of a layout (\<^verbatim>\<open>calculate_offsets\<close>, \<^verbatim>\<open>pst-writer/src/lib.rs\<close>) and the pages
  reserved for the trees (\<^verbatim>\<open>plan_tree\<close>, \<^verbatim>\<open>pst-writer/src/production.rs\<close>). The theorem: nothing
  overlaps, and every allocation-map slot below the end of the file has its page.
\<close>

subsection \<open>Node identifiers and planned pages\<close>

definition RESERVED_NID_INDICES :: "u32 list" where
  "RESERVED_NID_INDICES = [0x30, 0x33, 0x34]"

definition saturating_add32 :: "u32 \<Rightarrow> u32 \<Rightarrow> u32" where
  "saturating_add32 a b = min (a + b) (2 ^ 32 - 1)"

text \<open>Three indices are reserved, so four attempts are enough.\<close>

fun alloc_nid_loop :: "nat \<Rightarrow> u32 \<Rightarrow> u32 \<times> u32" where
  "alloc_nid_loop 0 index = (index, saturating_add32 index 1)"
| "alloc_nid_loop (Suc k) index =
     (if index \<in> set RESERVED_NID_INDICES then alloc_nid_loop k (saturating_add32 index 1)
      else (index, saturating_add32 index 1))"

definition alloc_nid :: "nat \<Rightarrow> Layout \<Rightarrow> u64 \<times> Layout" where
  "alloc_nid nid_type lay =
     (let (index, next_index) = alloc_nid_loop 4 (ly_next_nid_index lay)
      in (push_bit 5 index OR nid_type, lay \<lparr> ly_next_nid_index := next_index \<rparr>))"

definition INTERMEDIATE_ENTRY_SIZE :: usize where
  "INTERMEDIATE_ENTRY_SIZE = 24"

definition INTERMEDIATE_ENTRIES_PER_PAGE :: usize where
  "INTERMEDIATE_ENTRIES_PER_PAGE = 488 div INTERMEDIATE_ENTRY_SIZE"

definition div_ceil :: "nat \<Rightarrow> nat \<Rightarrow> nat" where
  "div_ceil a b = (a + (b - 1)) div b"

record TreePlan =
  tp_ptype :: nat
  tp_levels :: "u64 list list"
  tp_leaf_entry_size :: usize
  tp_per_leaf_capacity :: usize

fun reserve_pages :: "nat \<Rightarrow> nat \<Rightarrow> Layout \<Rightarrow> u64 list \<times> Layout" where
  "reserve_pages ptype 0 lay = ([], lay)"
| "reserve_pages ptype (Suc n) lay =
     (let (bid, lay) = reserve_page ptype lay; (bids, lay) = reserve_pages ptype n lay
      in (bid # bids, lay))"

lemma div_ceil_less: "1 < n \<Longrightarrow> max (div_ceil n INTERMEDIATE_ENTRIES_PER_PAGE) 1 < n"
  by (simp add: div_ceil_def INTERMEDIATE_ENTRIES_PER_PAGE_def INTERMEDIATE_ENTRY_SIZE_def)

text \<open>The levels above one of \<open>n\<close> pages.\<close>

function plan_levels :: "nat \<Rightarrow> nat \<Rightarrow> Layout \<Rightarrow> u64 list list \<times> Layout" where
  "plan_levels ptype n lay =
     (if 1 < n
      then
        let next_count = max (div_ceil n INTERMEDIATE_ENTRIES_PER_PAGE) 1;
            (level, lay) = reserve_pages ptype next_count lay;
            (levels, lay) = plan_levels ptype next_count lay
        in (level # levels, lay)
      else ([], lay))"
  by pat_completeness auto

termination
  by (relation "measure (\<lambda>(ptype, n, lay). n)") (use div_ceil_less in auto)

declare plan_levels.simps [simp del]

definition plan_tree :: "nat \<Rightarrow> usize \<Rightarrow> usize \<Rightarrow> Layout \<Rightarrow> TreePlan \<times> Layout" where
  "plan_tree ptype leaf_entry_size entry_count lay =
     (let per_leaf = max (488 div leaf_entry_size) 1;
          leaf_count = max (div_ceil entry_count per_leaf) 1;
          (leaves, lay) = reserve_pages ptype leaf_count lay;
          (levels, lay) = plan_levels ptype leaf_count lay
      in (\<lparr> tp_ptype = ptype, tp_levels = leaves # levels, tp_leaf_entry_size = leaf_entry_size,
            tp_per_leaf_capacity = per_leaf \<rparr>, lay))"

subsection \<open>Offsets\<close>

fun place_pages :: "PageEntry list \<Rightarrow> Placing \<Rightarrow> (PageEntry list \<times> Placing) option" where
  "place_pages [] p = Some ([], p)"
| "place_pages (page # pages) p =
     (if pe_offset page \<noteq> 0
      then map_option (apfst ((#) page))
             (place_pages pages (p \<lparr> pl_cursor := max (pl_cursor p) (pe_offset page + PAGE_SIZE) \<rparr>))
      else (case amap_place_region PAGE_SIZE 1 p of
              None \<Rightarrow> None
            | Some (offset, p) \<Rightarrow> map_option (apfst ((#) (page \<lparr> pe_offset := offset \<rparr>))) (place_pages pages p)))"

fun place_blocks :: "BlockEntry list \<Rightarrow> Placing \<Rightarrow> (BlockEntry list \<times> Placing) option" where
  "place_blocks [] p = Some ([], p)"
| "place_blocks (block # blocks) p =
     (if be_on_disk block \<and> be_offset block \<noteq> 0 then map_option (apfst ((#) block)) (place_blocks blocks p)
      else (case amap_place_region (block_size_of (be_len block)) BLOCK_ALIGN p of
              None \<Rightarrow> None
            | Some (offset, p) \<Rightarrow> map_option (apfst ((#) (block \<lparr> be_offset := offset \<rparr>))) (place_blocks blocks p)))"

text \<open>One pass over the slots below the end of the file; a pass that added a page is followed by another.\<close>

function ensure_slots :: "u64 \<Rightarrow> u64 \<Rightarrow> bool \<Rightarrow> Placing \<Rightarrow> u64 \<times> bool \<times> Placing" where
  "ensure_slots amap file_end changed p =
     (if amap < file_end
      then
        let q = amap_ensure_page amap p
        in ensure_slots (amap + AMAP_INTERVAL) (max file_end (amap + PAGE_SIZE))
             (changed \<or> length (pl_amap_pages p) < length (pl_amap_pages q)) q
      else (file_end, changed, p))"
  by pat_completeness auto

termination
  by (relation "measure (\<lambda>(amap, file_end, changed, p). file_end - amap)")
    (auto simp: PAGE_SIZE_def AMAP_INTERVAL_def)

declare ensure_slots.simps [simp del]

partial_function (option) ensure_all_slots :: "u64 \<Rightarrow> Placing \<Rightarrow> Placing option" where
  "ensure_all_slots file_end p =
     (let (file_end, changed, p) = ensure_slots AMAP_FIRST_OFFSET file_end False p
      in if changed then ensure_all_slots file_end p else Some p)"

definition eager_end :: "Layout \<Rightarrow> u64" where
  "eager_end lay =
     fold (\<lambda>block cursor. if be_on_disk block \<and> be_offset block \<noteq> 0
             then max cursor (be_offset block + block_size_of (be_len block)) else cursor)
       (ly_blocks lay) (case ly_eager lay of None \<Rightarrow> HEADER_SIZE | Some ew \<Rightarrow> max HEADER_SIZE (ew_cursor ew))"

definition calculate_offsets :: "Layout \<Rightarrow> Layout option" where
  "calculate_offsets lay =
     (let other_pages = filter (\<lambda>p. pe_ptype p \<noteq> PTYPE_AMAP) (ly_pages lay);
          amap_pages = (case ly_eager lay of Some ew \<Rightarrow> ew_amap_pages ew | None \<Rightarrow> []);
          offsets = (case ly_eager lay of Some ew \<Rightarrow> ew_amap_page_offsets ew | None \<Rightarrow> {||})
            |\<union>| fset_of_list (map pe_offset amap_pages);
          eager = map_option (\<lambda>ew. ew \<lparr> ew_amap_pages := [], ew_amap_page_offsets := {||} \<rparr>) (ly_eager lay);
          p = \<lparr> pl_cursor = eager_end lay, pl_amap_pages = amap_pages, pl_amap_page_offsets = offsets,
                pl_used_bids = ly_used_bids lay, pl_next_bid = ly_next_bid_counter lay, pl_scan_steps = 0 \<rparr>
      in case place_pages other_pages p of
           None \<Rightarrow> None
         | Some (other_pages, p) \<Rightarrow>
             (case place_blocks (ly_blocks lay) p of
                None \<Rightarrow> None
              | Some (blocks, p) \<Rightarrow>
                  let file_end = (if pl_cursor p \<le> AMAP_FIRST_OFFSET then AMAP_FIRST_OFFSET + PAGE_SIZE
                                  else pl_cursor p)
                  in case ensure_all_slots file_end p of
                       None \<Rightarrow> None
                     | Some p \<Rightarrow> Some (lay \<lparr> ly_blocks := blocks,
                         ly_pages := sort_key pe_offset (pl_amap_pages p) @ other_pages,
                         ly_used_bids := pl_used_bids p, ly_next_bid_counter := pl_next_bid p,
                         ly_eager := eager \<rparr>)))"

definition file_size :: "Layout \<Rightarrow> u64" where
  "file_size lay =
     fold (\<lambda>block m. max m (be_offset block + block_size_of (be_len block))) (ly_blocks lay)
       (fold (\<lambda>page m. max m (pe_offset page + PAGE_SIZE)) (ly_pages lay) HEADER_SIZE)"

definition ib_amap_last :: "Layout \<Rightarrow> u64 option" where
  "ib_amap_last lay =
     (case map pe_offset (filter (\<lambda>p. pe_ptype p = PTYPE_AMAP) (ly_pages lay)) of
        [] \<Rightarrow> None | o1 # os \<Rightarrow> Some (fold max os o1))"

subsection \<open>Placing a list of regions\<close>

definition placing_ok :: "Placing \<Rightarrow> bool" where
  "placing_ok p \<longleftrightarrow> amaps_ok p \<and> slots_below p \<and> clear_of_amaps (pl_cursor p)"

lemma place_one:
  assumes "placing_ok p" and "align dvd 512" "0 < align" and "size0 + PAGE_SIZE \<le> AMAP_INTERVAL"
  shows "\<exists>off p'. amap_place_region size0 align p = Some (off, p') \<and> placing_ok p' \<and> placing_grows p p' \<and>
    align dvd off \<and> pl_cursor p \<le> off \<and> pl_cursor p' = off + size0 \<and> clear_region (off, size0)"
proof -
  from amap_place_region_placed [of p align size0] assms obtain off p' where
    place: "amap_place_region size0 align p = Some (off, p')" "placed_at size0 align p off p'"
    by (auto simp: placing_ok_def)
  then have clear: "clear_region (off, size0)" by (auto simp: placed_at_def clear_region_def apart_def)
  moreover have "clear_of_amaps (off + size0)"
    using clear by (auto simp: clear_of_amaps_def clear_region_def apart_def PAGE_SIZE_def)
  ultimately show ?thesis using place by (auto simp: placed_at_def placing_ok_def)
qed

definition page_region :: "PageEntry \<Rightarrow> nat \<times> nat" where
  "page_region p = (pe_offset p, PAGE_SIZE)"

definition regions_between :: "nat \<Rightarrow> nat \<Rightarrow> (nat \<times> nat) list \<Rightarrow> bool" where
  "regions_between lo hi rs \<longleftrightarrow>
     sorted_wrt apart rs \<and> (\<forall>r\<in>set rs. lo \<le> fst r \<and> fst r + snd r \<le> hi \<and> clear_region r)"

lemma regions_between_Cons:
  assumes "regions_between mid hi rs" and "lo \<le> off" and "off + n = mid" and "clear_region (off, n)" and "mid \<le> hi"
  shows "regions_between lo hi ((off, n) # rs)"
  using assms by (auto simp: regions_between_def apart_def)

lemma place_pages_spec:
  assumes "placing_ok p" and "\<forall>page\<in>set pages. pe_offset page = 0"
  shows "\<exists>pages' p'. place_pages pages p = Some (pages', p') \<and> placing_ok p' \<and> placing_grows p p' \<and>
    pl_cursor p \<le> pl_cursor p' \<and> regions_between (pl_cursor p) (pl_cursor p') (map page_region pages') \<and>
    map (pe_offset_update (\<lambda>_. 0)) pages' = pages"
  using assms
proof (induction pages arbitrary: p)
  case Nil
  then show ?case by (auto simp: regions_between_def intro: placing_grows_refl)
next
  case (Cons page pages)
  have "PAGE_SIZE + PAGE_SIZE \<le> AMAP_INTERVAL" by (simp add: PAGE_SIZE_def AMAP_INTERVAL_def)
  from place_one [OF Cons.prems(1) _ _ this, of 1] obtain off q where
    q: "amap_place_region PAGE_SIZE 1 p = Some (off, q)" "placing_ok q" "placing_grows p q"
      "pl_cursor p \<le> off" "pl_cursor q = off + PAGE_SIZE" "clear_region (off, PAGE_SIZE)" by auto
  from Cons.IH [OF q(2)] Cons.prems(2) obtain pages' p' where
    rest: "place_pages pages q = Some (pages', p')" "placing_ok p'" "placing_grows q p'"
      "pl_cursor q \<le> pl_cursor p'" "regions_between (pl_cursor q) (pl_cursor p') (map page_region pages')"
      "map (pe_offset_update (\<lambda>_. 0)) pages' = pages" by auto
  have "regions_between (pl_cursor p) (pl_cursor p') (map page_region (page \<lparr> pe_offset := off \<rparr> # pages'))"
    using regions_between_Cons [OF rest(5) q(4) _ q(6) rest(4)] q(5) by (simp add: page_region_def)
  moreover have "pl_cursor p \<le> pl_cursor p'" using q(4,5) rest(4) by simp
  moreover have "page \<lparr> pe_offset := 0 \<rparr> = page" using Cons.prems(2) by (cases page) simp
  ultimately show ?case
    using q(1) rest(1,2,6) placing_grows_trans [OF q(3) rest(3)] Cons.prems(2) by auto
qed

definition in_place :: "BlockEntry \<Rightarrow> bool" where
  "in_place b \<longleftrightarrow> be_on_disk b \<and> be_offset b \<noteq> 0"

definition moved_from :: "BlockEntry \<Rightarrow> BlockEntry \<Rightarrow> bool" where
  "moved_from b b' \<longleftrightarrow> (\<exists>off. b' = b \<lparr> be_offset := off \<rparr>) \<and> (in_place b \<longrightarrow> b' = b) \<and>
     (\<not> in_place b \<longrightarrow> 64 dvd be_offset b')"

lemma place_blocks_spec:
  assumes "placing_ok p" and "\<forall>b\<in>set blocks. be_len b \<le> MAX_BLOCK_DATA \<and> (be_on_disk b \<longrightarrow> be_offset b \<noteq> 0)"
  shows "\<exists>blocks' p'. place_blocks blocks p = Some (blocks', p') \<and> placing_ok p' \<and> placing_grows p p' \<and>
    pl_cursor p \<le> pl_cursor p' \<and> list_all2 moved_from blocks blocks' \<and>
    regions_between (pl_cursor p) (pl_cursor p') (map block_region (filter (\<lambda>b. \<not> be_on_disk b) blocks'))"
  using assms
proof (induction blocks arbitrary: p)
  case Nil
  then show ?case by (auto simp: regions_between_def intro: placing_grows_refl)
next
  case (Cons b blocks)
  show ?case
  proof (cases "be_on_disk b")
    case True
    with Cons.prems(2) have disk: "in_place b" by (simp add: in_place_def)
    from Cons.IH [OF Cons.prems(1)] Cons.prems(2) obtain blocks' p' where
      rest: "place_blocks blocks p = Some (blocks', p')" "placing_ok p'" "placing_grows p p'"
        "pl_cursor p \<le> pl_cursor p'" "list_all2 moved_from blocks blocks'"
        "regions_between (pl_cursor p) (pl_cursor p') (map block_region (filter (\<lambda>b. \<not> be_on_disk b) blocks'))" by auto
    moreover have "moved_from b b" using disk by (cases b) (auto simp: moved_from_def)
    ultimately show ?thesis using True disk by (auto simp: in_place_def)
  next
    case False
    have "block_size_of (be_len b) + PAGE_SIZE \<le> AMAP_INTERVAL" using Cons.prems(2) block_size_fits by simp
    from place_one [OF Cons.prems(1) _ _ this, of BLOCK_ALIGN] obtain off q where
      q: "amap_place_region (block_size_of (be_len b)) BLOCK_ALIGN p = Some (off, q)" "placing_ok q" "placing_grows p q"
        "BLOCK_ALIGN dvd off" "pl_cursor p \<le> off" "pl_cursor q = off + block_size_of (be_len b)"
        "clear_region (off, block_size_of (be_len b))"
      by (auto simp: BLOCK_ALIGN_def)
    from Cons.IH [OF q(2)] Cons.prems(2) obtain blocks' p' where
      rest: "place_blocks blocks q = Some (blocks', p')" "placing_ok p'" "placing_grows q p'"
        "pl_cursor q \<le> pl_cursor p'" "list_all2 moved_from blocks blocks'"
        "regions_between (pl_cursor q) (pl_cursor p') (map block_region (filter (\<lambda>b. \<not> be_on_disk b) blocks'))" by auto
    let ?b = "b \<lparr> be_offset := off \<rparr>"
    have "regions_between (pl_cursor p) (pl_cursor p')
        (map block_region (filter (\<lambda>b. \<not> be_on_disk b) (?b # blocks')))"
      using regions_between_Cons [OF rest(6) q(5) _ q(7) rest(4)] q(6) False by (simp add: block_region_def)
    moreover have "pl_cursor p \<le> pl_cursor p'" using q(5,6) rest(4) by simp
    moreover have "moved_from b ?b" using False q(4) by (auto simp: moved_from_def in_place_def BLOCK_ALIGN_def)
    moreover have "place_blocks (b # blocks) p = Some (?b # blocks', p')"
      using q(1) rest(1) False by simp
    ultimately show ?thesis
      using rest(2,5) placing_grows_trans [OF q(3) rest(3)] by auto
  qed
qed

subsection \<open>The slots below the end of the file\<close>

definition slots_known :: "u64 \<Rightarrow> Placing \<Rightarrow> bool" where
  "slots_known file_end p \<longleftrightarrow>
     (\<forall>a. is_amap_page_offset a \<longrightarrow> a < file_end \<longrightarrow> a |\<in>| pl_amap_page_offsets p)"

lemma slot_succ:
  assumes "is_amap_page_offset a"
  shows "is_amap_page_offset (a + AMAP_INTERVAL)"
    and "is_amap_page_offset b \<Longrightarrow> b < a + AMAP_INTERVAL \<Longrightarrow> b \<le> a"
proof -
  from assms obtain k where "a = 17408 + k * 253952" by (auto simp: amap_slot_iff)
  then have "a + AMAP_INTERVAL = 17408 + Suc k * 253952" by (simp add: AMAP_INTERVAL_def)
  then show "is_amap_page_offset (a + AMAP_INTERVAL)" unfolding amap_slot_iff by blast
  show "b \<le> a" if "is_amap_page_offset b" "b < a + AMAP_INTERVAL"
    using amap_slots_apart [OF assms that(1)] that(2) by (cases "a < b") auto
qed

lemma ensure_slots_spec:
  assumes "ensure_slots amap file_end changed p = (file_end', changed', p')"
    and "is_amap_page_offset amap" and "amaps_ok p" and "slots_known amap p"
  shows "amaps_ok p' \<and> placing_grows p p' \<and> pl_cursor p' = pl_cursor p \<and> file_end \<le> file_end' \<and>
    slots_known file_end' p'"
  using assms
proof (induction amap file_end changed p rule: ensure_slots.induct)
  case (1 amap file_end changed p)
  note ens = amap_ensure_page_spec [OF 1(4,3)]
  show ?case
  proof (cases "amap < file_end")
    case True
    let ?q = "amap_ensure_page amap p"
    have "b |\<in>| pl_amap_page_offsets ?q" if "is_amap_page_offset b" "b < amap + AMAP_INTERVAL" for b
    proof (cases "b < amap")
      case True
      with 1(5) that(1) ens(5) show ?thesis by (auto simp: slots_known_def)
    next
      case False
      with slot_succ(2) [OF 1(3) that] ens(3) show ?thesis by simp
    qed
    then have known: "slots_known (amap + AMAP_INTERVAL) ?q" by (simp add: slots_known_def)
    have "ensure_slots (amap + AMAP_INTERVAL) (max file_end (amap + PAGE_SIZE))
        (changed \<or> length (pl_amap_pages p) < length (pl_amap_pages ?q)) ?q = (file_end', changed', p')"
      using 1(2) True by (simp add: ensure_slots.simps [of amap file_end] Let_def)
    from 1(1) [OF True refl this slot_succ(1) [OF 1(3)] ens(1) known] ens(2,4) show ?thesis
      using placing_grows_trans [OF ens(2)] by auto
  next
    case False
    with 1(2) have same: "file_end' = file_end" "p' = p" by (simp_all add: ensure_slots.simps [of amap file_end])
    have "slots_known file_end p" using 1(5) False by (auto simp: slots_known_def)
    with same 1(4) show ?thesis by (auto intro: placing_grows_refl)
  qed
qed

lemma ensure_slots_again:
  assumes "is_amap_page_offset amap" and "slots_known file_end p"
  shows "\<exists>fe. ensure_slots amap file_end False p = (fe, False, p)"
  using assms
proof (induction amap file_end False p rule: ensure_slots.induct)
  case (1 amap file_end p)
  show ?case
  proof (cases "amap < file_end")
    case True
    with 1(2,3) have q: "amap_ensure_page amap p = p" by (simp add: amap_ensure_page_def slots_known_def)
    have "slots_known (max file_end (amap + PAGE_SIZE)) p"
      unfolding slots_known_def
    proof (intro allI impI)
      fix b assume b: "is_amap_page_offset b" "b < max file_end (amap + PAGE_SIZE)"
      have "b < file_end"
      proof (cases "b < file_end")
        case False
        with b(2) have "b < amap + AMAP_INTERVAL" by (simp add: PAGE_SIZE_def AMAP_INTERVAL_def)
        with slot_succ(2) [OF 1(2) b(1)] True show ?thesis by simp
      qed simp
      with 1(3) b(1) show "b |\<in>| pl_amap_page_offsets p" by (simp add: slots_known_def)
    qed
    with 1(1) [OF True q [symmetric] _ slot_succ(1) [OF 1(2)]] True q show ?thesis
      by (simp add: ensure_slots.simps [of amap file_end])
  qed (simp add: ensure_slots.simps [of amap file_end])
qed

lemma ensure_all_slots_spec:
  assumes "amaps_ok p"
  shows "\<exists>p'. ensure_all_slots file_end p = Some p' \<and> amaps_ok p' \<and> placing_grows p p' \<and>
    pl_cursor p' = pl_cursor p \<and> slots_known file_end p'"
proof -
  have first: "is_amap_page_offset AMAP_FIRST_OFFSET" "slots_known AMAP_FIRST_OFFSET p"
    by (auto simp: amap_slot_iff AMAP_FIRST_OFFSET_def slots_known_def)
  obtain fe ch q where pass: "ensure_slots AMAP_FIRST_OFFSET file_end False p = (fe, ch, q)"
    by (cases "ensure_slots AMAP_FIRST_OFFSET file_end False p")
  note spec = ensure_slots_spec [OF pass first(1) assms first(2)]
  then have "slots_known file_end q" by (auto simp: slots_known_def)
  moreover have "ensure_all_slots file_end p = Some q"
  proof (cases ch)
    case True
    obtain fe2 where "ensure_slots AMAP_FIRST_OFFSET fe False q = (fe2, False, q)"
      using ensure_slots_again [OF first(1)] spec by blast
    then have "ensure_all_slots fe q = Some q" by (subst ensure_all_slots.simps) simp
    with pass True show ?thesis by (subst ensure_all_slots.simps) simp
  next
    case False
    with pass show ?thesis by (subst ensure_all_slots.simps) simp
  qed
  ultimately show ?thesis using spec by blast
qed

subsection \<open>Nothing overlaps\<close>

definition start_placing :: "Layout \<Rightarrow> Placing" where
  "start_placing lay =
     \<lparr> pl_cursor = eager_end lay, pl_amap_pages = eager_pages lay,
       pl_amap_page_offsets = (case ly_eager lay of Some ew \<Rightarrow> ew_amap_page_offsets ew | None \<Rightarrow> {||})
         |\<union>| fset_of_list (map pe_offset (eager_pages lay)),
       pl_used_bids = ly_used_bids lay, pl_next_bid = ly_next_bid_counter lay, pl_scan_steps = 0 \<rparr>"

lemma fold_max_below:
  "\<forall>x\<in>set xs. P x \<longrightarrow> f x \<le> (c :: nat) \<Longrightarrow> fold (\<lambda>x m. if P x then max m (f x) else m) xs c = c"
  by (induction xs) (auto simp: max_def)

lemma eager_end_eq:
  assumes "layout_ok lay"
  shows "eager_end lay = (case ly_eager lay of None \<Rightarrow> HEADER_SIZE | Some ew \<Rightarrow> ew_cursor ew)"
proof -
  let ?c = "case ly_eager lay of None \<Rightarrow> HEADER_SIZE | Some ew \<Rightarrow> ew_cursor ew"
  have "\<forall>b\<in>set (ly_blocks lay). be_on_disk b \<and> be_offset b \<noteq> 0 \<longrightarrow> be_offset b + block_size_of (be_len b) \<le> ?c"
    using assms by (auto simp: layout_ok_def eager_ok_def disk_blocks_ok_def split: option.splits)
  note fold_max_below [OF this]
  moreover have "(case ly_eager lay of None \<Rightarrow> HEADER_SIZE | Some ew \<Rightarrow> max HEADER_SIZE (ew_cursor ew)) = ?c"
    using assms by (auto simp: layout_ok_def eager_ok_def max_def split: option.splits)
  ultimately show ?thesis by (simp add: eager_end_def)
qed

lemma scan_steps_irrelevant:
  "amaps_ok (p \<lparr> pl_scan_steps := k \<rparr>) = amaps_ok p" "slots_below (p \<lparr> pl_scan_steps := k \<rparr>) = slots_below p"
  by (simp_all add: amaps_ok_def slots_below_def)

lemma start_placing_ok:
  assumes "layout_ok lay"
  shows "placing_ok (start_placing lay)"
proof (cases "ly_eager lay")
  case None
  have "is_amap_page_offset a \<Longrightarrow> HEADER_SIZE \<le> a" for a
    by (auto simp: amap_slot_iff HEADER_SIZE_def)
  then have "slots_below (start_placing lay)" "clear_of_amaps HEADER_SIZE"
    using None eager_end_eq [OF assms] by (fastforce simp: slots_below_def start_placing_def clear_of_amaps_def)+
  with None eager_end_eq [OF assms] show ?thesis
    by (simp add: placing_ok_def start_placing_def amaps_ok_def eager_pages_def)
next
  case (Some ew)
  with assms have ok: "eager_ok lay ew" by (simp add: layout_ok_def)
  then have "ew_amap_page_offsets ew |\<union>| fset_of_list (map pe_offset (ew_amap_pages ew)) = ew_amap_page_offsets ew"
    by (auto simp: eager_ok_def amaps_ok_def eager_placing_def fset_of_list_elem fset_eq_iff)
  then have "start_placing lay = (eager_placing lay ew) \<lparr> pl_scan_steps := 0 \<rparr>"
    using Some eager_end_eq [OF assms] by (simp add: start_placing_def eager_placing_def eager_pages_def)
  with ok show ?thesis
    by (simp add: placing_ok_def eager_ok_def scan_steps_irrelevant) (simp add: eager_placing_def)
qed

text \<open>A symmetric relation between all members of a list, from two parts of it.\<close>

lemma sorted_wrt_parts:
  assumes "\<And>x y. R x y \<Longrightarrow> R y x" and "sorted_wrt R (map f (filter P xs))"
    and "sorted_wrt R (map f (filter (\<lambda>x. \<not> P x) xs))"
    and "\<forall>x\<in>set xs. \<forall>y\<in>set xs. P x \<longrightarrow> \<not> P y \<longrightarrow> R (f x) (f y)"
  shows "sorted_wrt R (map f xs)"
  using assms(2-4)
proof (induction xs)
  case (Cons x xs)
  then have "sorted_wrt R (map f xs)" by (auto split: if_splits)
  moreover have "R (f x) (f y)" if "y \<in> set xs" for y
    using Cons.prems that assms(1) by (cases "P x"; cases "P y") auto
  ultimately show ?case by auto
qed simp

definition offsets_ok :: "Layout \<Rightarrow> bool" where
  "offsets_ok lay \<longleftrightarrow>
     sorted_wrt apart ((0, HEADER_SIZE) # map page_region (ly_pages lay) @ map block_region (ly_blocks lay)) \<and>
     distinct (map pe_bid (ly_pages lay) @ map be_bid (ly_blocks lay)) \<and>
     (\<forall>b\<in>set (ly_blocks lay). 64 dvd be_offset b) \<and>
     (\<forall>p\<in>set (ly_pages lay). pe_ptype p = PTYPE_AMAP \<longrightarrow> is_amap_page_offset (pe_offset p)) \<and>
     (\<forall>a. is_amap_page_offset a \<longrightarrow>
        a = AMAP_FIRST_OFFSET \<or> (\<exists>b\<in>set (ly_blocks lay). a < be_offset b) \<or>
          (\<exists>p\<in>set (ly_pages lay). pe_ptype p \<noteq> PTYPE_AMAP \<and> a < pe_offset p) \<longrightarrow>
        (\<exists>p\<in>set (ly_pages lay). pe_ptype p = PTYPE_AMAP \<and> pe_offset p = a))"

definition settled :: "Layout \<Rightarrow> Layout \<Rightarrow> bool" where
  "settled lay lay' \<longleftrightarrow>
     offsets_ok lay' \<and> list_all2 moved_from (ly_blocks lay) (ly_blocks lay') \<and>
     map (pe_offset_update (\<lambda>_. 0)) (filter (\<lambda>p. pe_ptype p \<noteq> PTYPE_AMAP) (ly_pages lay')) = ly_pages lay \<and>
     ly_pages lay' = filter (\<lambda>p. pe_ptype p = PTYPE_AMAP) (ly_pages lay') @
       filter (\<lambda>p. pe_ptype p \<noteq> PTYPE_AMAP) (ly_pages lay') \<and>
     ly_nodes lay' = ly_nodes lay \<and>
     map_option ew_file (ly_eager lay') = map_option ew_file (ly_eager lay)"

lemma amap_pages_apart:
  assumes "amaps_ok p"
  shows "sorted_wrt apart (map page_region (sort_key pe_offset (pl_amap_pages p)))"
proof -
  let ?ps = "sort_key pe_offset (pl_amap_pages p)"
  have "sorted (map pe_offset ?ps)" "distinct (map pe_offset ?ps)"
    using assms by (simp_all add: amaps_ok_def distinct_map inj_on_def)
  then have "sorted_wrt (<) (map pe_offset ?ps)" by (simp add: strict_sorted_iff)
  then have "sorted_wrt (\<lambda>x y. pe_offset x < pe_offset y) ?ps" by (simp add: sorted_wrt_map)
  then have "sorted_wrt (\<lambda>x y. apart (page_region x) (page_region y)) ?ps"
  proof (rule sorted_wrt_mono_rel [rotated])
    fix x y assume "x \<in> set ?ps" "y \<in> set ?ps" "pe_offset x < pe_offset y"
    moreover from this have "pe_offset x + AMAP_INTERVAL \<le> pe_offset y"
      using assms amap_slots_apart [of "pe_offset x" "pe_offset y"] by (auto simp: amaps_ok_def)
    ultimately show "apart (page_region x) (page_region y)"
      by (simp add: apart_def page_region_def AMAP_INTERVAL_def PAGE_SIZE_def)
  qed
  then show ?thesis by (simp add: sorted_wrt_map)
qed

lemma moved_from_blocks:
  assumes "list_all2 moved_from bs bs'"
  shows "map be_bid bs' = map be_bid bs" "map be_on_disk bs' = map be_on_disk bs" "map be_len bs' = map be_len bs"
    "\<forall>b\<in>set bs. be_on_disk b \<longrightarrow> be_offset b \<noteq> 0 \<Longrightarrow>
       filter be_on_disk bs' = filter be_on_disk bs"
  using assms by (induction rule: list_all2_induct) (auto simp: moved_from_def in_place_def)

lemma calculate_offsets_eq:
  "calculate_offsets lay =
     (case place_pages (filter (\<lambda>p. pe_ptype p \<noteq> PTYPE_AMAP) (ly_pages lay)) (start_placing lay) of
        None \<Rightarrow> None
      | Some (other_pages, p) \<Rightarrow>
          (case place_blocks (ly_blocks lay) p of
             None \<Rightarrow> None
           | Some (blocks, p) \<Rightarrow>
               case ensure_all_slots (if pl_cursor p \<le> AMAP_FIRST_OFFSET then AMAP_FIRST_OFFSET + PAGE_SIZE
                                      else pl_cursor p) p of
                 None \<Rightarrow> None
               | Some p \<Rightarrow> Some (lay \<lparr> ly_blocks := blocks,
                   ly_pages := sort_key pe_offset (pl_amap_pages p) @ other_pages,
                   ly_used_bids := pl_used_bids p, ly_next_bid_counter := pl_next_bid p,
                   ly_eager := map_option (\<lambda>ew. ew \<lparr> ew_amap_pages := [], ew_amap_page_offsets := {||} \<rparr>) (ly_eager lay) \<rparr>)))"
  unfolding calculate_offsets_def start_placing_def eager_pages_def Let_def
  by (cases "ly_eager lay") simp_all

lemma clear_apart_slot: "clear_region r \<Longrightarrow> is_amap_page_offset (pe_offset p) \<Longrightarrow> apart (page_region p) r"
  by (auto simp: clear_region_def page_region_def intro: apart_sym)

lemma below_above: "fst r + snd r \<le> c \<Longrightarrow> c \<le> fst s \<Longrightarrow> apart r s"
  by (auto simp: apart_def)

lemma blocks_apart:
  assumes "disk_blocks_ok bs c" and "list_all2 moved_from bs bs'" and "\<forall>b\<in>set bs. be_on_disk b \<longrightarrow> be_offset b \<noteq> 0"
    and "regions_between lo hi (map block_region (filter (\<lambda>b. \<not> be_on_disk b) bs'))" and "c \<le> lo" and "HEADER_SIZE \<le> lo"
  shows "sorted_wrt apart (map block_region bs')"
    and "\<forall>b\<in>set bs'. HEADER_SIZE \<le> be_offset b \<and> clear_region (block_region b) \<and> 64 dvd be_offset b \<and>
      (if be_on_disk b then be_offset b + block_size_of (be_len b) \<le> c
       else lo \<le> be_offset b \<and> be_offset b + block_size_of (be_len b) \<le> hi)"
proof -
  have disk: "filter be_on_disk bs' = filter be_on_disk bs" using moved_from_blocks(4) [OF assms(2,3)] .
  have on_disk: "HEADER_SIZE \<le> be_offset b \<and> clear_region (block_region b) \<and> 64 dvd be_offset b \<and>
      be_offset b + block_size_of (be_len b) \<le> c" if "b \<in> set bs'" "be_on_disk b" for b
  proof -
    have "b \<in> set (filter be_on_disk bs')" using that by simp
    then have "b \<in> set (filter be_on_disk bs)" unfolding disk .
    with assms(1) show ?thesis by (auto simp: disk_blocks_ok_def)
  qed
  have in_memory: "lo \<le> be_offset b \<and> be_offset b + block_size_of (be_len b) \<le> hi \<and> clear_region (block_region b)"
    if "b \<in> set bs'" "\<not> be_on_disk b" for b
    using assms(4) that by (auto simp: regions_between_def block_region_def)
  have aligned: "64 dvd be_offset b" if "b \<in> set bs'" "\<not> be_on_disk b" for b
  proof -
    from that(1) assms(2) obtain b0 where "moved_from b0 b"
      by (metis in_set_conv_nth list_all2_conv_all_nth)
    with that(2) show ?thesis by (auto simp: moved_from_def in_place_def)
  qed
  show "sorted_wrt apart (map block_region bs')"
  proof (rule sorted_wrt_parts [where P = be_on_disk])
    show "sorted_wrt apart (map block_region (filter be_on_disk bs'))"
      using assms(1) disk by (simp add: disk_blocks_ok_def)
    show "sorted_wrt apart (map block_region (filter (\<lambda>b. \<not> be_on_disk b) bs'))"
      using assms(4) by (simp add: regions_between_def)
    show "\<forall>x\<in>set bs'. \<forall>y\<in>set bs'. be_on_disk x \<longrightarrow> \<not> be_on_disk y \<longrightarrow> apart (block_region x) (block_region y)"
      using on_disk in_memory assms(5) by (fastforce simp: block_region_def intro!: below_above)
  qed (rule apart_sym)
  show "\<forall>b\<in>set bs'. HEADER_SIZE \<le> be_offset b \<and> clear_region (block_region b) \<and> 64 dvd be_offset b \<and>
      (if be_on_disk b then be_offset b + block_size_of (be_len b) \<le> c
       else lo \<le> be_offset b \<and> be_offset b + block_size_of (be_len b) \<le> hi)"
    using on_disk in_memory aligned assms(6) by fastforce
qed

lemma calculate_offsets_settles:
  assumes "layout_ok lay"
  shows "\<exists>lay'. calculate_offsets lay = Some lay' \<and> settled lay lay'"
proof -
  have pages: "filter (\<lambda>p. pe_ptype p \<noteq> PTYPE_AMAP) (ly_pages lay) = ly_pages lay" "\<forall>p\<in>set (ly_pages lay). pe_offset p = 0"
    and kinds: "\<forall>p\<in>set (ly_pages lay). pe_ptype p \<noteq> PTYPE_AMAP"
    using assms by (auto simp: layout_ok_def)
  have disk0: "\<forall>b\<in>set (ly_blocks lay). be_on_disk b \<longrightarrow> be_offset b \<noteq> 0"
    and small: "\<forall>b\<in>set (ly_blocks lay). be_len b \<le> MAX_BLOCK_DATA"
    and disk: "disk_blocks_ok (ly_blocks lay) (eager_end lay)" and start: "HEADER_SIZE \<le> eager_end lay"
  proof -
    have "\<forall>b\<in>set (ly_blocks lay). be_on_disk b \<longrightarrow> HEADER_SIZE \<le> be_offset b"
      using assms by (auto simp: layout_ok_def eager_ok_def disk_blocks_ok_def split: option.splits)
    then show "\<forall>b\<in>set (ly_blocks lay). be_on_disk b \<longrightarrow> be_offset b \<noteq> 0" by (auto simp: HEADER_SIZE_def)
    show "\<forall>b\<in>set (ly_blocks lay). be_len b \<le> MAX_BLOCK_DATA"
      using assms by (auto simp: layout_ok_def memory_block_ok_def)
    show "disk_blocks_ok (ly_blocks lay) (eager_end lay)" "HEADER_SIZE \<le> eager_end lay"
      using assms eager_end_eq [OF assms]
      by (auto simp: layout_ok_def eager_ok_def disk_blocks_ok_def filter_False split: option.splits)
  qed
  let ?p0 = "start_placing lay"
  have c0: "pl_cursor ?p0 = eager_end lay" by (simp add: start_placing_def)
  obtain pages' p1 where p1: "place_pages (ly_pages lay) ?p0 = Some (pages', p1)" "placing_ok p1" "placing_grows ?p0 p1"
    "pl_cursor ?p0 \<le> pl_cursor p1" "regions_between (pl_cursor ?p0) (pl_cursor p1) (map page_region pages')"
    "map (pe_offset_update (\<lambda>_. 0)) pages' = ly_pages lay"
    using place_pages_spec [OF start_placing_ok [OF assms] pages(2)] by auto
  obtain blocks' p2 where p2: "place_blocks (ly_blocks lay) p1 = Some (blocks', p2)" "placing_ok p2" "placing_grows p1 p2"
    "pl_cursor p1 \<le> pl_cursor p2" "list_all2 moved_from (ly_blocks lay) blocks'"
    "regions_between (pl_cursor p1) (pl_cursor p2) (map block_region (filter (\<lambda>b. \<not> be_on_disk b) blocks'))"
    using place_blocks_spec [OF p1(2), of "ly_blocks lay"] small disk0 by auto
  let ?stop = "if pl_cursor p2 \<le> AMAP_FIRST_OFFSET then AMAP_FIRST_OFFSET + PAGE_SIZE else pl_cursor p2"
  obtain p3 where p3: "ensure_all_slots ?stop p2 = Some p3" "amaps_ok p3" "placing_grows p2 p3" "slots_known ?stop p3"
    using ensure_all_slots_spec [of p2 ?stop] p2(2) by (auto simp: placing_ok_def)
  let ?amaps = "sort_key pe_offset (pl_amap_pages p3)"
  let ?lay = "lay \<lparr> ly_blocks := blocks', ly_pages := ?amaps @ pages', ly_used_bids := pl_used_bids p3,
    ly_next_bid_counter := pl_next_bid p3,
    ly_eager := map_option (\<lambda>ew. ew \<lparr> ew_amap_pages := [], ew_amap_page_offsets := {||} \<rparr>) (ly_eager lay) \<rparr>"
  have calc: "calculate_offsets lay = Some ?lay"
    unfolding calculate_offsets_eq pages(1) using p1(1) p2(1) p3(1) by simp
  have le1: "eager_end lay \<le> pl_cursor p1" "HEADER_SIZE \<le> pl_cursor p1" using p1(4) c0 start by simp_all
  note blocks = blocks_apart [OF disk p2(5) disk0 p2(6) le1]
  have page_at: "pe_offset p + PAGE_SIZE \<le> pl_cursor p1 \<and> eager_end lay \<le> pe_offset p \<and> clear_region (page_region p)"
    if "p \<in> set pages'" for p
    using p1(5) that c0 by (auto simp: regions_between_def page_region_def)
  have amap_at: "is_amap_page_offset (pe_offset p) \<and> pe_ptype p = PTYPE_AMAP" if "p \<in> set ?amaps" for p
    using p3(2) that by (auto simp: amaps_ok_def)
  have new_kinds: "pe_ptype p \<noteq> PTYPE_AMAP" if "p \<in> set pages'" for p
  proof -
    have "p \<lparr> pe_offset := 0 \<rparr> \<in> set (ly_pages lay)" using that p1(6) by (metis image_eqI list.set_map)
    with kinds show ?thesis by fastforce
  qed
  have header: "HEADER_SIZE \<le> pe_offset p" if "p \<in> set ?amaps \<or> p \<in> set pages'" for p
    using that amap_at page_at start by (fastforce simp: amap_slot_iff HEADER_SIZE_def)
  have page_block: "apart (page_region p) (block_region b)" if "p \<in> set pages'" "b \<in> set blocks'" for p b
    using page_at [OF that(1)] blocks(2) that(2)
    by (cases "be_on_disk b") (auto simp: apart_def page_region_def block_region_def)
  have "sorted_wrt apart ((0, HEADER_SIZE) # map page_region (?amaps @ pages') @ map block_region blocks')"
    using amap_pages_apart [OF p3(2)] p1(5) blocks amap_at page_at header page_block
    by (auto simp: sorted_wrt_append regions_between_def intro!: clear_apart_slot)
      (auto simp: apart_def page_region_def block_region_def)
  moreover have "distinct (map pe_bid (?amaps @ pages') @ map be_bid blocks')"
  proof -
    have grows: "placing_grows ?p0 p3"
      using placing_grows_trans [OF placing_grows_trans [OF p1(3) p2(3)] p3(3)] .
    then obtain new where new: "pl_amap_pages p3 = eager_pages lay @ new"
      "pe_bid ` set new \<inter> fset (ly_used_bids lay) = {}"
      by (auto simp: placing_grows_def start_placing_def)
    have "map pe_bid pages' = map pe_bid (ly_pages lay)"
      using arg_cong [OF p1(6), of "map pe_bid"] by (simp add: comp_def)
    then have "mset (map pe_bid (?amaps @ pages') @ map be_bid blocks') = mset (all_bids lay @ map pe_bid new)"
      using new(1) moved_from_blocks(1) [OF p2(5)]
      by (simp add: all_bids_def amap_bids_def eager_pages_def split: option.splits)
    moreover have "distinct (all_bids lay @ map pe_bid new)"
      using new p3(2) assms by (auto simp: layout_ok_def amaps_ok_def)
    ultimately show ?thesis by (metis mset_eq_imp_distinct_iff)
  qed
  moreover have "\<exists>p\<in>set (?amaps @ pages'). pe_ptype p = PTYPE_AMAP \<and> pe_offset p = a"
    if a: "is_amap_page_offset a" and below: "a = AMAP_FIRST_OFFSET \<or> (\<exists>b\<in>set blocks'. a < be_offset b) \<or>
      (\<exists>p\<in>set (?amaps @ pages'). pe_ptype p \<noteq> PTYPE_AMAP \<and> a < pe_offset p)" for a
  proof -
    have blk: "be_offset b \<le> pl_cursor p2" if "b \<in> set blocks'" for b
    proof -
      have "if be_on_disk b then be_offset b + block_size_of (be_len b) \<le> eager_end lay
          else pl_cursor p1 \<le> be_offset b \<and> be_offset b + block_size_of (be_len b) \<le> pl_cursor p2"
        using blocks(2) that by blast
      then show ?thesis using le1(1) p2(4) by (auto split: if_splits)
    qed
    have pg: "pe_offset p \<le> pl_cursor p2" if "p \<in> set (?amaps @ pages')" "pe_ptype p \<noteq> PTYPE_AMAP" for p
    proof -
      have "p \<in> set pages'" using that amap_at by auto
      with page_at [of p] p2(4) show ?thesis by simp
    qed
    have "a < ?stop" using below blk pg by (fastforce simp: PAGE_SIZE_def)
    with p3(4) a have "a |\<in>| pl_amap_page_offsets p3" by (simp add: slots_known_def)
    then show ?thesis using p3(2) by (auto simp: amaps_ok_def)
  qed
  ultimately have "offsets_ok ?lay"
    using blocks(2) amap_at new_kinds unfolding offsets_ok_def by auto
  moreover have "filter (\<lambda>p. pe_ptype p \<noteq> PTYPE_AMAP) (?amaps @ pages') = pages'"
    using amap_at new_kinds by (simp add: filter_True filter_False)
  moreover have "filter (\<lambda>p. pe_ptype p = PTYPE_AMAP) (?amaps @ pages') = ?amaps"
    using amap_at new_kinds by (simp add: filter_True filter_False)
  ultimately have "settled lay ?lay"
    using p2(5) p1(6) by (auto simp: settled_def option.map_comp comp_def)
  with calc show ?thesis by blast
qed

text \<open>
  C8: the final offsets. For a layout that keeps the invariant of the writer the computation of the
  offsets returns; afterwards the header, the pages and the blocks do not overlap, no two carry the same
  identifier, the blocks are aligned, every allocation-map page stands at one of its fixed slots, and
  every slot before the last page or block has its page. Blocks that are in the temporary file already
  stay where they are, and nothing but offsets changes.
\<close>

theorem final_offsets_disjoint:
  assumes "layout_ok lay"
  shows "\<exists>lay'. calculate_offsets lay = Some lay' \<and> offsets_ok lay' \<and>
    list_all2 moved_from (ly_blocks lay) (ly_blocks lay') \<and>
    map (pe_offset_update (\<lambda>_. 0)) (filter (\<lambda>p. pe_ptype p \<noteq> PTYPE_AMAP) (ly_pages lay')) = ly_pages lay \<and>
    ly_nodes lay' = ly_nodes lay"
  using calculate_offsets_settles [OF assms] by (auto simp: settled_def)

theorem final_offsets_disjoint_witness:
  "\<exists>lay'. calculate_offsets (layout_new \<lparr> ly_blocks := [block_in_memory 16 [1, 2, 3], block_in_memory 20 [4]],
       ly_pages := [\<lparr> pe_bid = 2, pe_ptype = 0x80, pe_offset = 0 \<rparr>], ly_used_bids := {|2, 16, 20|} \<rparr>) = Some lay' \<and>
     offsets_ok lay' \<and> length (ly_blocks lay') = 2"
proof -
  let ?lay = "layout_new \<lparr> ly_blocks := [block_in_memory 16 [1, 2, 3], block_in_memory 20 [4]],
       ly_pages := [\<lparr> pe_bid = 2, pe_ptype = 0x80, pe_offset = 0 \<rparr>], ly_used_bids := {|2, 16, 20|} \<rparr>"
  have "layout_ok ?lay"
    by (simp add: layout_ok_def layout_new_def all_bids_def amap_bids_def memory_block_ok_def block_in_memory_def
        MAX_BLOCK_DATA_def PTYPE_AMAP_def)
  from final_offsets_disjoint [OF this] show ?thesis by (auto dest!: list_all2_lengthD)
qed

end
