(* ===== verification/Tree_Pages.thy ===== *)
theory Tree_Pages
  imports Layout_Offsets Block_Reader
begin

text \<open>
  The pages of the node and block B-trees: the reader (\<^verbatim>\<open>pst-reader/src/ndb/page.rs\<close> and
  \<^verbatim>\<open>btree.rs\<close>) and the page writers (\<^verbatim>\<open>pst-writer/src/production.rs\<close>).
\<close>

subsection \<open>Reading pages\<close>

definition PTYPE_BBT :: nat where
  "PTYPE_BBT = 0x80"

definition PTYPE_NBT :: nat where
  "PTYPE_NBT = 0x81"

record PageTrailer =
  pt_ptype :: nat
  pt_ptype_repeat :: nat
  pt_w_sig :: nat
  pt_dw_crc :: u32
  pt_bid :: u64

definition page_read_at :: "bytes \<Rightarrow> u64 \<Rightarrow> bytes rd" where
  "page_read_at file offset = rd_lift (read_exact_at file offset PAGE_SIZE)"

definition trailer :: "bytes \<Rightarrow> PageTrailer" where
  "trailer page =
     (let t = drop 496 page
      in \<lparr> pt_ptype = unat (t ! 0), pt_ptype_repeat = unat (t ! 1), pt_w_sig = read_u16 2 t,
           pt_dw_crc = read_u32 4 t, pt_bid = read_u64 8 t \<rparr>)"

definition page_validate :: "(bytes \<Rightarrow> 32 word) \<Rightarrow> nat \<Rightarrow> bytes \<Rightarrow> unit rd" where
  "page_validate crc expected_ptype page =
     (let t = trailer page
      in if pt_ptype t \<noteq> expected_ptype then rd_fail (PeInvalidPageType expected_ptype (pt_ptype t))
         else if pt_ptype t \<noteq> pt_ptype_repeat t
         then rd_fail (PePageTypeMismatch (pt_ptype t) (pt_ptype_repeat t))
         else rd_bind (rd_note NotePageRead) (\<lambda>_.
           let computed = unat (crc (take 496 page))
           in rd_when (computed \<noteq> pt_dw_crc t) (rd_note (NotePageCrc (pt_bid t) computed (pt_dw_crc t)))))"

record BtPageHeader =
  bh_c_entries :: nat
  bh_c_ent_max :: nat
  bh_cb_ent_key :: nat
  bh_c_level :: nat

definition bt_header :: "bytes \<Rightarrow> BtPageHeader" where
  "bt_header page =
     \<lparr> bh_c_entries = unat (page ! 488), bh_c_ent_max = unat (page ! 489),
       bh_cb_ent_key = unat (page ! 490), bh_c_level = unat (page ! 491) \<rparr>"

definition entries_data :: "bytes \<Rightarrow> bytes" where
  "entries_data page = take 488 page"

subsection \<open>Reading trees\<close>

definition MAX_BTREE_DEPTH :: nat where
  "MAX_BTREE_DEPTH = 32"

definition enter_btree_page :: "u64 \<Rightarrow> nat \<Rightarrow> unit rd" where
  "enter_btree_page page_offset depth =
     rd_enter (\<lambda>d. PeResourceLimit (lit ''B-tree depth '' @ show_nat d @ lit '' exceeds max '' @
         show_nat MAX_BTREE_DEPTH @ lit '' at offset 0x'' @ show_hex page_offset)) MAX_BTREE_DEPTH page_offset depth"

record NbtEntry =
  nb_nid :: u64
  nb_bid_data :: u64
  nb_bid_sub :: u64
  nb_nid_parent :: u32

type_synonym NbtIndex = "u64 \<rightharpoonup> NbtEntry"

text \<open>The records of a page, up to its count or the end of the entries region.\<close>

definition page_rows :: "nat \<Rightarrow> nat \<Rightarrow> bytes \<Rightarrow> bytes list" where
  "page_rows width c_entries data =
     map (\<lambda>i. slice_of (i * width) (i * width + width) data)
       (takeWhile (\<lambda>i. i * width + width \<le> length data) [0..<c_entries])"

text \<open>
  The two traversals of the code differ in the page type and the leaf records only. The depth check
  bounds the recursion, so it runs on the depth left, as for subnode blocks.
\<close>

fun bt_traverse ::
  "(bytes \<Rightarrow> 32 word) \<Rightarrow> bytes \<Rightarrow> nat \<Rightarrow> nat \<Rightarrow> (bytes \<Rightarrow> 'm \<Rightarrow> 'm) \<Rightarrow> nat \<Rightarrow> u64 \<Rightarrow> 'm \<Rightarrow> 'm rd" where
  "bt_traverse crc file ptype width add 0 page_offset entries =
     rd_bind (enter_btree_page page_offset (Suc MAX_BTREE_DEPTH)) (\<lambda>_. rd_ret entries)"
| "bt_traverse crc file ptype width add (Suc k) page_offset entries =
     rd_bind (enter_btree_page page_offset (MAX_BTREE_DEPTH - k)) (\<lambda>_.
     rd_bind (page_read_at file page_offset) (\<lambda>page.
     rd_bind (page_validate crc ptype page) (\<lambda>_.
       let hdr = bt_header page; data = entries_data page
       in if bh_c_level hdr = 0
          then rd_ret (fold add (page_rows width (bh_c_entries hdr) data) entries)
          else rd_each (\<lambda>row entries. bt_traverse crc file ptype width add k (read_u64 16 row) entries)
                 (page_rows 24 (bh_c_entries hdr) data) entries)))"

definition nbt_add :: "bytes \<Rightarrow> NbtIndex \<Rightarrow> NbtIndex" where
  "nbt_add entry_data entries =
     (let nid = read_u64 0 entry_data
      in entries(nid \<mapsto> \<lparr> nb_nid = nid, nb_bid_data = read_u64 8 entry_data,
            nb_bid_sub = read_u64 16 entry_data, nb_nid_parent = read_u32 24 entry_data \<rparr>))"

definition bbt_add :: "bytes \<Rightarrow> BbtIndex \<Rightarrow> BbtIndex" where
  "bbt_add entry_data entries =
     (let bid = read_u64 0 entry_data
      in entries(bid \<mapsto> \<lparr> bb_bref = \<lparr> bf_bid = bid, bf_ib = read_u64 8 entry_data \<rparr>,
            bb_cb = read_u16 16 entry_data, bb_c_ref = read_u16 18 entry_data \<rparr>))"

definition nbt_build :: "(bytes \<Rightarrow> 32 word) \<Rightarrow> bytes \<Rightarrow> u64 \<Rightarrow> NbtIndex rd" where
  "nbt_build crc file root_offset =
     (if root_offset = 0 then rd_ret Map.empty
      else rd_fresh (bt_traverse crc file PTYPE_NBT 32 nbt_add (Suc MAX_BTREE_DEPTH) root_offset Map.empty))"

definition bbt_build :: "(bytes \<Rightarrow> 32 word) \<Rightarrow> bytes \<Rightarrow> u64 \<Rightarrow> BbtIndex rd" where
  "bbt_build crc file root_offset =
     (if root_offset = 0 then rd_ret Map.empty
      else rd_fresh (bt_traverse crc file PTYPE_BBT 24 bbt_add (Suc MAX_BTREE_DEPTH) root_offset Map.empty))"

subsection \<open>Writing pages\<close>

definition bt_page_bytes ::
  "(bytes \<Rightarrow> 32 word) \<Rightarrow> u64 \<Rightarrow> u64 \<Rightarrow> nat \<Rightarrow> nat \<Rightarrow> bytes \<Rightarrow> nat \<Rightarrow> usize \<Rightarrow> bytes" where
  "bt_page_bytes crc offset bid ptype c_level region c_entries entry_size =
     (let c_ent_max = min (488 div max entry_size 1) 255;
          body = resize 488 0 region @
            [word_of_nat c_entries, word_of_nat c_ent_max, 8, word_of_nat c_level, 0, 0, 0, 0]
      in body @ page_trailer crc ptype offset bid body)"

text \<open>
  The writers below produce the writes they issue, a list of offsets and bytes in their order. An
  index beyond a list panics, which is \<open>None\<close>.
\<close>

type_synonym 'a panics = "(WriterError + 'a) option"

type_synonym writes = "(u64 \<times> bytes) list"

definition then_writes :: "'a panics \<Rightarrow> ('a \<Rightarrow> 'b panics) \<Rightarrow> 'b panics" where
  "then_writes r f = (case r of None \<Rightarrow> None | Some (Inl e) \<Rightarrow> Some (Inl e) | Some (Inr x) \<Rightarrow> f x)"

definition offset_or :: "string \<Rightarrow> (u64 \<rightharpoonup> u64) \<Rightarrow> u64 \<Rightarrow> u64 panics" where
  "offset_or msg page_offsets bid =
     (case page_offsets bid of None \<Rightarrow> Some (Inl (WeLayout (lit msg))) | Some offset \<Rightarrow> Some (Inr offset))"

fun leaf_writes ::
  "(bytes \<Rightarrow> 32 word) \<Rightarrow> (u64 \<rightharpoonup> u64) \<Rightarrow> nat \<Rightarrow> usize \<Rightarrow> u64 list \<Rightarrow> (bytes \<times> nat) list \<Rightarrow> writes panics" where
  "leaf_writes crc page_offsets ptype entry_size [] pages = Some (Inr [])"
| "leaf_writes crc page_offsets ptype entry_size (bid # bids) pages =
     then_writes (offset_or ''missing leaf page offset'' page_offsets bid) (\<lambda>offset.
       case pages of
         [] \<Rightarrow> None
       | (region, c_entries) # pages \<Rightarrow>
           then_writes (leaf_writes crc page_offsets ptype entry_size bids pages) (\<lambda>rest.
             Some (Inr ((offset, bt_page_bytes crc offset bid ptype 0 region c_entries entry_size) # rest))))"

fun child_region :: "(u64 \<rightharpoonup> u64) \<Rightarrow> u64 list \<Rightarrow> u64 list \<Rightarrow> bytes panics" where
  "child_region page_offsets [] keys = Some (Inr [])"
| "child_region page_offsets (bid # bids) keys =
     then_writes (offset_or ''missing child page offset'' page_offsets bid) (\<lambda>offset.
       case keys of
         [] \<Rightarrow> None
       | key # keys \<Rightarrow> then_writes (child_region page_offsets bids keys) (\<lambda>rest.
           Some (Inr (le_bytes 8 key @ le_bytes 8 bid @ le_bytes 8 offset @ rest))))"

text \<open>One level: the writes, and the smallest keys of its pages.\<close>

fun level_writes ::
  "(bytes \<Rightarrow> 32 word) \<Rightarrow> (u64 \<rightharpoonup> u64) \<Rightarrow> nat \<Rightarrow> nat \<Rightarrow> u64 list \<Rightarrow> u64 list \<Rightarrow> u64 list \<Rightarrow>
   (writes \<times> u64 list) panics" where
  "level_writes crc page_offsets ptype level [] prev_bids prev_min_keys = Some (Inr ([], []))"
| "level_writes crc page_offsets ptype level (bid # bids) prev_bids prev_min_keys =
     (if prev_bids = [] then Some (Inr ([], []))
      else
        let children = take INTERMEDIATE_ENTRIES_PER_PAGE prev_bids
        in then_writes (child_region page_offsets children prev_min_keys) (\<lambda>region.
           case prev_min_keys of
             [] \<Rightarrow> None
           | key # _ \<Rightarrow>
               then_writes (offset_or ''missing intermediate page offset'' page_offsets bid) (\<lambda>offset.
               then_writes (level_writes crc page_offsets ptype level bids
                   (drop INTERMEDIATE_ENTRIES_PER_PAGE prev_bids) (drop INTERMEDIATE_ENTRIES_PER_PAGE prev_min_keys))
                 (\<lambda>(rest, keys). Some (Inr ((offset, bt_page_bytes crc offset bid ptype level region
                     (length children) INTERMEDIATE_ENTRY_SIZE) # rest, key # keys))))))"

fun upper_writes ::
  "(bytes \<Rightarrow> 32 word) \<Rightarrow> (u64 \<rightharpoonup> u64) \<Rightarrow> nat \<Rightarrow> nat \<Rightarrow> u64 list list \<Rightarrow> u64 list \<Rightarrow> u64 list \<Rightarrow> writes panics" where
  "upper_writes crc page_offsets ptype level [] prev_bids prev_min_keys = Some (Inr [])"
| "upper_writes crc page_offsets ptype level (bids # levels) prev_bids prev_min_keys =
     then_writes (level_writes crc page_offsets ptype level bids prev_bids prev_min_keys) (\<lambda>(now, keys).
     then_writes (upper_writes crc page_offsets ptype (level + 1) levels bids keys) (\<lambda>rest.
       Some (Inr (now @ rest))))"

definition tree_writes ::
  "(bytes \<Rightarrow> 32 word) \<Rightarrow> TreePlan \<Rightarrow> (u64 \<rightharpoonup> u64) \<Rightarrow> u64 list \<Rightarrow> (bytes \<times> nat) list \<Rightarrow> writes panics" where
  "tree_writes crc plan page_offsets leaf_min_keys leaf_pages =
     (case tp_levels plan of
        [] \<Rightarrow> None
      | leaves # levels \<Rightarrow>
          then_writes (leaf_writes crc page_offsets (tp_ptype plan) (tp_leaf_entry_size plan) leaves leaf_pages) (\<lambda>now.
          then_writes (upper_writes crc page_offsets (tp_ptype plan) 1 levels leaves leaf_min_keys) (\<lambda>rest.
            Some (Inr (now @ rest)))))"

definition NBT_LEAF_ENTRY_SIZE :: usize where
  "NBT_LEAF_ENTRY_SIZE = 32"

definition BBT_LEAF_ENTRY_SIZE :: usize where
  "BBT_LEAF_ENTRY_SIZE = 24"

definition encode_nbt_leaf :: "NodeEntry \<Rightarrow> bytes" where
  "encode_nbt_leaf n =
     le_bytes 8 (ne_nid n) @ le_bytes 8 (ne_bid_data n) @ le_bytes 8 (ne_bid_sub n) @
     le_bytes 4 (ne_nid_parent n) @ replicate 4 0"

definition encode_bbt_leaf :: "BlockEntry \<Rightarrow> bytes" where
  "encode_bbt_leaf b =
     le_bytes 8 (be_bid b) @ le_bytes 8 (be_offset b) @ le_bytes 2 (be_len b) @ le_bytes 2 1 @ replicate 4 0"

text \<open>The leaf pages over sorted entries; a tree without entries has one empty leaf.\<close>

definition leaf_pages :: "('a \<Rightarrow> bytes) \<Rightarrow> usize \<Rightarrow> 'a list \<Rightarrow> (bytes \<times> nat) list" where
  "leaf_pages encode per_leaf entries =
     (if entries = [] then [([], 0)]
      else map (\<lambda>chunk. (concat (map encode chunk), length chunk)) (chunks per_leaf entries))"

definition leaf_min_keys :: "('a \<Rightarrow> u64) \<Rightarrow> usize \<Rightarrow> 'a list \<Rightarrow> u64 list" where
  "leaf_min_keys key per_leaf entries =
     (if entries = [] then [0] else map (\<lambda>chunk. key (hd chunk)) (chunks per_leaf entries))"

definition nbt_writes ::
  "(bytes \<Rightarrow> 32 word) \<Rightarrow> Layout \<Rightarrow> TreePlan \<Rightarrow> (u64 \<rightharpoonup> u64) \<Rightarrow> writes panics" where
  "nbt_writes crc lay plan page_offsets =
     (let nodes = sort_key ne_nid (ly_nodes lay)
      in case first_repeat (map (\<lambda>n. (ne_nid n, 0, 0)) nodes) of
           Some nid \<Rightarrow> Some (Inl (WeLayout (lit ''duplicate NBT nid 0x'' @ show_hex nid)))
         | None \<Rightarrow> tree_writes crc plan page_offsets
             (leaf_min_keys ne_nid (tp_per_leaf_capacity plan) nodes)
             (leaf_pages encode_nbt_leaf (tp_per_leaf_capacity plan) nodes))"

definition bbt_writes ::
  "(bytes \<Rightarrow> 32 word) \<Rightarrow> Layout \<Rightarrow> TreePlan \<Rightarrow> (u64 \<rightharpoonup> u64) \<Rightarrow> writes panics" where
  "bbt_writes crc lay plan page_offsets =
     (let blocks = sort_key be_bid (ly_blocks lay)
      in tree_writes crc plan page_offsets
           (leaf_min_keys be_bid (tp_per_leaf_capacity plan) blocks)
           (leaf_pages encode_bbt_leaf (tp_per_leaf_capacity plan) blocks))"

definition page_offset_map :: "Layout \<Rightarrow> (u64 \<rightharpoonup> u64)" where
  "page_offset_map lay = map_of (rev (map (\<lambda>p. (pe_bid p, pe_offset p)) (ly_pages lay)))"

end
