(* ===== verification/Subnode_Store.thy ===== *)
theory Subnode_Store
  imports Chain_Writer
begin

text \<open>
  Nodes and subnodes: the writer's subnode leaves (SLBLOCK) against the reader's listing and
  search, and the nodes of the layout.
\<close>

subsection \<open>Subnode leaves\<close>

type_synonym slentry = "u64 \<times> u64 \<times> u64"

definition entry_of :: "slentry \<Rightarrow> SubnodeEntry" where
  "entry_of e = \<lparr> se_nid = fst e, se_bid_data = fst (snd e), se_bid_sub = snd (snd e) \<rparr>"

definition slentry_ok :: "slentry \<Rightarrow> bool" where
  "slentry_ok e \<longleftrightarrow> fst e < 2 ^ 64 \<and> fst (snd e) < 2 ^ 64 \<and> snd (snd e) < 2 ^ 64"

definition slentry_bytes :: "slentry \<Rightarrow> bytes" where
  "slentry_bytes e = le_bytes 8 (fst e) @ le_bytes 8 (fst (snd e)) @ le_bytes 8 (snd (snd e))"

lemma length_slentry_bytes [simp]: "length (slentry_bytes e) = 24"
  by (simp add: slentry_bytes_def)

lemma slblock_payload_eq:
  "slblock_payload es = ([2, 0] @ le_bytes 2 (length es) @ le_bytes 4 0) @ concat (map slentry_bytes es)"
  unfolding slblock_payload_def slentry_bytes_def by (simp add: case_prod_beta')

lemma slblock_fields:
  assumes "length (slblock_payload es) \<le> MAX_BLOCK_DATA" and "\<forall>e\<in>set es. slentry_ok e"
  shows "length (slblock_payload es) = 8 + length es * 24"
    and "unat (slblock_payload es ! 0) = 2" "unat (slblock_payload es ! 1) = 0"
    and "map (slentry_at (slblock_payload es)) (table_rows 24 (slblock_payload es)) = map entry_of es"
proof -
  let ?p = "slblock_payload es" and ?tab = "concat (map slentry_bytes es)"
  have tab: "length ?tab = length es * 24"
    using length_concat_width [of "map slentry_bytes es" 24] by simp
  then show len: "length ?p = 8 + length es * 24" by (simp add: slblock_payload_eq)
  show "unat (?p ! 0) = 2" "unat (?p ! 1) = 0" by (simp_all add: slblock_payload_def)
  have n: "length es < 65536" using assms(1) len by (simp add: MAX_BLOCK_DATA_def)
  have count: "read_u16 2 ?p = length es"
    using read_u16_append2 [of "[2, 0]" 2 "le_bytes 2 (length es) @ le_bytes 4 0 @ ?tab"] n
    by (simp add: slblock_payload_eq read_le_field)
  have rows: "takeWhile (\<lambda>i. 8 + i * 24 + 24 \<le> length ?p) [0..<length es] = [0..<length es]"
    using len by (intro takeWhile_eq_all_conv [THEN iffD2]) auto
  have "slentry_at ?p (8 + i * 24) = entry_of (es ! i)" if i: "i < length es" for i
  proof -
    have "slice_of (8 + i * 24) (8 + i * 24 + 24) ?p = slice_of (i * 24) (i * 24 + 24) (?tab @ [])"
      unfolding slblock_payload_eq by (subst slice_append2) (simp_all add: add.commute)
    also have "\<dots> = slentry_bytes (es ! i)"
      using slice_records [of i "map slentry_bytes es" 24 "[]"] i by simp
    finally have row: "slice_of (8 + i * 24) (8 + i * 24 + 24) ?p = slentry_bytes (es ! i)" .
    have "read_u64 (8 + i * 24 + k) ?p = read_u64 k (slentry_bytes (es ! i))" if "k + 8 \<le> 24" for k
      using read_slice_of(3) [of "8 + i * 24" k "8 + i * 24 + 24" ?p] that unfolding row by simp
    note field = this [of 0] this [of 8] this [of 16]
    have "slentry_ok (es ! i)" using assms(2) i by simp
    with field show ?thesis
      by (simp add: slentry_at_def entry_of_def slentry_bytes_def slentry_ok_def slice_simps add.assoc)
  qed
  then show "map (slentry_at ?p) (table_rows 24 ?p) = map entry_of es"
    unfolding table_rows_def count rows by (intro nth_equalityI) simp_all
qed

text \<open>The errors of the writer: equal node identifiers, or too many entries for one block.\<close>

lemma first_repeat_None: "first_repeat es = None \<longleftrightarrow> distinct (map fst es)" if "sorted (map fst es)"
  using that
proof (induction es)
  case (Cons e es)
  then show ?case
    by (cases es) (auto simp: first_repeat_def find_None_iff)
qed (simp add: first_repeat_def)

lemma yields_fresh:
  assumes "\<And>s. rd_visited s = {} \<Longrightarrow> \<exists>ns v. quiet ns \<and> m s = (Inr x, s \<lparr> rd_notes := rd_notes s @ ns, rd_visited := v \<rparr>)"
  shows "yields (rd_fresh m) x"
  unfolding yields_def
proof
  fix s :: RdState
  from assms [of "s \<lparr> rd_visited := {} \<rparr>"] obtain ns v where "quiet ns"
    "m (s \<lparr> rd_visited := {} \<rparr>) = (Inr x, s \<lparr> rd_notes := rd_notes s @ ns, rd_visited := v \<rparr>)" by auto
  then show "\<exists>ns. quiet ns \<and> rd_fresh m s = (Inr x, s \<lparr> rd_notes := rd_notes s @ ns \<rparr>)"
    by (intro exI [where x = ns]) (simp add: rd_fresh_def)
qed

text \<open>A read that goes on after the first block has been entered.\<close>

lemma yields_fresh_enter:
  assumes "depth \<le> max_depth" and "yields m x"
  shows "yields (rd_fresh (rd_bind (rd_enter too_deep max_depth place depth) (\<lambda>_. m))) x"
proof (rule yields_fresh)
  fix s :: RdState
  assume s: "rd_visited s = {}"
  let ?s = "s \<lparr> rd_visited := {place} \<rparr>"
  from assms(2) obtain ns where "quiet ns" "m ?s = (Inr x, ?s \<lparr> rd_notes := rd_notes ?s @ ns \<rparr>)"
    unfolding yields_def by blast
  with s assms(1) show "\<exists>ns v. quiet ns \<and> rd_bind (rd_enter too_deep max_depth place depth) (\<lambda>_. m) s =
      (Inr x, s \<lparr> rd_notes := rd_notes s @ ns, rd_visited := v \<rparr>)"
    by (intro exI [where x = ns] exI [where x = "{place}"]) (simp add: rd_bind_def rd_enter_def)
qed

lemma depth_start: "depth_at (Suc MAX_SUBNODE_DEPTH) = 0"
  by (simp add: depth_at_def)

lemma list_subnode_leaf:
  assumes "serves crc file bbt bid (slblock_payload es)" and "0 < bid"
    and "length (slblock_payload es) \<le> MAX_BLOCK_DATA" and "\<forall>e\<in>set es. slentry_ok e"
  shows "yields (list_subnode_entries crc file bbt bid) (map entry_of es)"
proof -
  note fields = slblock_fields [OF assms(3,4)]
  have payload: "yields (rd_bind (read_payload crc file bbt bid) f) x" if "yields (f (slblock_payload es)) x" for f and x :: "SubnodeEntry list"
    using that by (rule yields_bind [where f = f, OF read_payload_served [OF assms(1)]])
  show ?thesis
    unfolding list_subnode_entries_def list_subnode_entries_at.simps enter_subnode_block_def depth_start
    using assms(2) fields
    by (auto simp: bid_is_null_def Let_def intro!: yields_fresh_enter payload)
qed

lemma read_subnode_leaf:
  assumes "serves crc file bbt bid (slblock_payload es)" and "0 < bid"
    and "length (slblock_payload es) \<le> MAX_BLOCK_DATA" and "\<forall>e\<in>set es. slentry_ok e"
    and "distinct (map fst es)" and "(nid, bid_data, bid_sub) \<in> set es"
    and "yields (read_block_data crc file bbt bid_data crypt) data"
  shows "yields (read_subnode_data crc file bbt bid nid crypt) data"
proof -
  note fields = slblock_fields [OF assms(3,4)]
  have find: "find (\<lambda>e. se_nid e = nid) (map entry_of es) = Some (entry_of (nid, bid_data, bid_sub))"
    using assms(5,6)
  proof (induction es)
    case (Cons e es)
    then show ?case by (cases e) (force simp: entry_of_def)
  qed simp
  have payload: "yields (rd_bind (read_payload crc file bbt bid) f) x" if "yields (f (slblock_payload es)) x" for f and x :: bytes
    using that by (rule yields_bind [where f = f, OF read_payload_served [OF assms(1)]])
  have "se_bid_data (entry_of (nid, bid_data, bid_sub)) = bid_data" by (simp add: entry_of_def)
  then show ?thesis
    unfolding read_subnode_data_def read_subnode_data_at.simps enter_subnode_block_def depth_start
    using assms(2,7) fields find
    by (auto simp: bid_is_null_def Let_def intro!: yields_fresh_enter payload)
qed

lemma sort_key_distinct: "distinct (map fst es) \<Longrightarrow> distinct (map fst (sort_key fst es))"
  by (simp add: distinct_map inj_on_def)

lemma add_subnode_leaf_spec:
  assumes "distinct (map fst es)" and "8 + 24 * length es \<le> MAX_BLOCK_DATA"
  shows "lay_spec crc Q (add_subnode_leaf es)
    (\<lambda>bid lay. 0 < bid \<and> holds crc lay bid (slblock_payload (sort_key fst es)))"
proof -
  let ?es = "sort_key fst es"
  have none: "first_repeat ?es = None"
    using first_repeat_None [of ?es] sort_key_distinct [OF assms(1)] by simp
  have "length (concat (map slentry_bytes ?es)) = length es * 24"
    using length_concat_width [of "map slentry_bytes ?es" 24] by simp
  then have len: "length (slblock_payload ?es) \<le> MAX_BLOCK_DATA"
    using assms(2) by (simp add: slblock_payload_eq)
  from lay_spec_weaken [OF push_block_spec [OF len]] none len show ?thesis
    by (simp add: add_subnode_leaf_def Let_def)
qed

text \<open>What the writer refuses: equal identifiers, or more entries than one block holds.\<close>

lemma add_subnode_leaf_refuses:
  assumes "\<not> distinct (map fst es) \<or> MAX_BLOCK_DATA < 8 + 24 * length es"
  shows "\<exists>msg. add_subnode_leaf es lay = Some (Inl (WeLayout msg), lay)"
proof -
  let ?es = "sort_key fst es"
  have "length (concat (map slentry_bytes ?es)) = length es * 24"
    using length_concat_width [of "map slentry_bytes ?es" 24] by simp
  then have len: "length (slblock_payload ?es) = 8 + 24 * length es" by (simp add: slblock_payload_eq)
  show ?thesis
  proof (cases "first_repeat ?es")
    case None
    then have "distinct (map fst ?es)" using first_repeat_None [of ?es] by simp
    then have "distinct (map fst es)" by (metis distinct_map distinct_sort set_sort)
    with assms len None show ?thesis by (simp add: add_subnode_leaf_def Let_def lay_fail_def)
  next
    case (Some nid)
    then show ?thesis by (simp add: add_subnode_leaf_def Let_def lay_fail_def)
  qed
qed

subsection \<open>Nodes\<close>

definition with_node :: "NodeEntry \<Rightarrow> Layout \<Rightarrow> Layout" where
  "with_node n lay = lay \<lparr> ly_used_nids := finsert (ne_nid n) (ly_used_nids lay), ly_nodes := ly_nodes lay @ [n] \<rparr>"

lemma with_node_ok:
  assumes "layout_ok lay" and "ne_nid n |\<notin>| ly_used_nids lay"
  shows "layout_ok (with_node n lay)" and "holds crc (with_node n lay) = holds crc lay"
    and "io_ok (with_node n lay) = io_ok lay"
proof -
  have "eager_ok (with_node n lay) ew = eager_ok lay ew" for ew
    by (simp add: eager_ok_def with_node_def eager_placing_def)
  then show "layout_ok (with_node n lay)"
    using assms by (auto simp: layout_ok_def with_node_def all_bids_def amap_bids_def split: option.splits)
  show "holds crc (with_node n lay) = holds crc lay" by (simp add: with_node_def holds_def fun_eq_iff)
  show "io_ok (with_node n lay) = io_ok lay" by (simp add: with_node_def io_ok_def)
qed

lemma add_node_data_spec:
  assumes "layout_ok lay" and "io_ok lay" and "length data \<le> I32_MAX" and "nid |\<notin>| ly_used_nids lay"
  shows "\<exists>bid lay'. add_node_data crc nid data nid_parent sub_bid lay = Some (Inr bid, lay') \<and>
    layout_ok lay' \<and> io_ok lay' \<and> holds crc lay \<le> holds crc lay' \<and>
    chain_data CryptNone (holds crc lay') bid data \<and> ly_pages lay' = ly_pages lay \<and>
    (ly_eager lay' = None \<longleftrightarrow> ly_eager lay = None) \<and>
    ly_nodes lay' = ly_nodes lay @ [\<lparr> ne_nid = nid, ne_bid_data = bid, ne_bid_sub = sub_bid, ne_nid_parent = nid_parent \<rparr>]"
proof -
  obtain bid lay1 where w: "write_data_chain crc data lay = Some (Inr bid, lay1)"
    and step: "lay_step crc lay lay1" and chain: "chain_data CryptNone (holds crc lay1) bid data"
    using write_data_chain_spec [OF assms(3), of crc "\<lambda>_. True"] assms(1,2)
    unfolding lay_spec_def by (fastforce split: sum.splits)
  from step have keeps: "layout_ok lay1" "io_ok lay1" "holds crc lay \<le> holds crc lay1" "ly_pages lay1 = ly_pages lay"
    "ly_nodes lay1 = ly_nodes lay" "ly_used_nids lay1 = ly_used_nids lay" "ly_eager lay1 = None \<longleftrightarrow> ly_eager lay = None"
    using assms(2) by (auto simp: lay_step_def lay_keeps_def)
  let ?n = "\<lparr> ne_nid = nid, ne_bid_data = bid, ne_bid_sub = sub_bid, ne_nid_parent = nid_parent \<rparr>"
  have "add_node_data crc nid data nid_parent sub_bid lay = Some (Inr bid, with_node ?n lay1)"
    using w assms(4) keeps(6) by (simp add: add_node_data_def lay_bind_def with_node_def)
  with with_node_ok [OF keeps(1), of ?n] keeps assms(4) chain show ?thesis
    by (intro exI [where x = bid] exI [where x = "with_node ?n lay1"]) (auto simp: with_node_def)
qed

text \<open>A node whose identifier is taken is refused, and the nodes stay as they are.\<close>

lemma add_node_data_duplicate:
  assumes "layout_ok lay" and "io_ok lay" and "length data \<le> I32_MAX" and "nid |\<in>| ly_used_nids lay"
  shows "\<exists>lay'. add_node_data crc nid data nid_parent sub_bid lay =
      Some (Inl (WeLayout (lit ''duplicate NBT nid 0x'' @ show_hex nid @
        lit '' (reserved template collision or double insert)'')), lay') \<and> ly_nodes lay' = ly_nodes lay"
proof -
  obtain bid lay1 where w: "write_data_chain crc data lay = Some (Inr bid, lay1)"
    and step: "lay_step crc lay lay1"
    using write_data_chain_spec [OF assms(3), of crc "\<lambda>_. True"] assms(1,2)
    unfolding lay_spec_def by (fastforce split: sum.splits)
  then have "ly_nodes lay1 = ly_nodes lay" "ly_used_nids lay1 = ly_used_nids lay"
    by (auto simp: lay_step_def lay_keeps_def)
  with w assms(4) show ?thesis by (simp add: add_node_data_def lay_bind_def)
qed

subsection \<open>Subnodes come back\<close>

text \<open>
  C16: subnode leaves. A list of entries with different node identifiers that fits one block is stored
  in order of the identifiers; from any file that serves the blocks of the layout the reader lists
  exactly these entries and reads the data of each. Any other list is refused, and the layout stays
  as it was.
\<close>

theorem subnode_leaf_round_trip:
  assumes "layout_ok lay" and "\<forall>e\<in>set es. slentry_ok e"
  shows "if distinct (map fst es) \<and> 8 + 24 * length es \<le> MAX_BLOCK_DATA
     then \<exists>bid lay'. add_subnode_leaf es lay = Some (Inr bid, lay') \<and>
       layout_ok lay' \<and> holds crc lay \<le> holds crc lay' \<and>
       (\<forall>file bbt crypt. (\<forall>b p. holds crc lay' b p \<longrightarrow> serves crc file bbt b p) \<longrightarrow>
         yields (list_subnode_entries crc file bbt bid) (map entry_of (sort_key fst es)) \<and>
         (\<forall>(nid, bid_data, bid_sub) \<in> set es. \<forall>data.
            yields (read_block_data crc file bbt bid_data crypt) data \<longrightarrow>
            yields (read_subnode_data crc file bbt bid nid crypt) data))
     else \<exists>msg. add_subnode_leaf es lay = Some (Inl (WeLayout msg), lay)"
proof (cases "distinct (map fst es) \<and> 8 + 24 * length es \<le> MAX_BLOCK_DATA")
  case False
  then have "\<exists>msg. add_subnode_leaf es lay = Some (Inl (WeLayout msg), lay)"
    by (intro add_subnode_leaf_refuses) auto
  then show ?thesis unfolding if_not_P [OF False] .
next
  case True
  let ?es = "sort_key fst es"
  have "length (concat (map slentry_bytes ?es)) = length es * 24"
    using length_concat_width [of "map slentry_bytes ?es" 24] by simp
  then have len: "length (slblock_payload ?es) \<le> MAX_BLOCK_DATA" using True by (simp add: slblock_payload_eq)
  have ok: "\<forall>e\<in>set ?es. slentry_ok e" "distinct (map fst ?es)"
    using assms(2) sort_key_distinct True by auto
  then have "first_repeat ?es = None" using first_repeat_None [of ?es] by simp
  with len obtain bid lay' where w: "add_subnode_leaf es lay = Some (Inr bid, lay')"
    by (cases "alloc_bid True lay") (simp add: add_subnode_leaf_def Let_def push_block_def)
  with add_subnode_leaf_spec [of es crc "\<lambda>_. True"] True assms(1)
  have step: "lay_step crc lay lay'" and bid: "0 < bid" "holds crc lay' bid (slblock_payload ?es)"
    unfolding lay_spec_def by fastforce+
  have "yields (list_subnode_entries crc file bbt bid) (map entry_of ?es) \<and>
      (\<forall>(nid, bid_data, bid_sub) \<in> set es. \<forall>data. yields (read_block_data crc file bbt bid_data crypt) data \<longrightarrow>
        yields (read_subnode_data crc file bbt bid nid crypt) data)"
    if "\<forall>b p. holds crc lay' b p \<longrightarrow> serves crc file bbt b p" for "file" bbt crypt
  proof -
    have s: "serves crc file bbt bid (slblock_payload ?es)" using that bid(2) by blast
    show ?thesis
      using list_subnode_leaf [OF s bid(1) len ok(1)] read_subnode_leaf [OF s bid(1) len ok(1,2)] by auto
  qed
  with w lay_stepD [OF step] show ?thesis unfolding if_P [OF True] by blast
qed

theorem subnode_leaf_round_trip_witness:
  "\<exists>bid lay'. add_subnode_leaf [(0x692, 4, 0), (0x671, 8, 0)] layout_new = Some (Inr bid, lay') \<and> layout_ok lay' \<and>
     (\<forall>file bbt. (\<forall>b p. holds (\<lambda>_. 0) lay' b p \<longrightarrow> serves (\<lambda>_. 0) file bbt b p) \<longrightarrow>
        yields (list_subnode_entries (\<lambda>_. 0) file bbt bid) (map entry_of [(0x671, 8, 0), (0x692, 4, 0)]))"
proof -
  have lay: "layout_ok layout_new" by (simp add: layout_ok_def layout_new_def all_bids_def amap_bids_def)
  let ?es = "[(0x692, 4, 0), (0x671, 8, 0)] :: slentry list"
  have es: "\<forall>e\<in>set ?es. slentry_ok e" "distinct (map fst ?es) \<and> 8 + 24 * length ?es \<le> MAX_BLOCK_DATA"
    "sort_key fst ?es = [(0x671, 8, 0), (0x692, 4, 0)]"
    by (simp_all add: slentry_ok_def MAX_BLOCK_DATA_def)
  from subnode_leaf_round_trip [OF lay es(1), of "\<lambda>_. 0"] show ?thesis unfolding if_P [OF es(2)] es(3) by blast
qed

end
