(* ===== verification/Tree_Proofs.thy ===== *)
theory Tree_Proofs
  imports Tree_Pages Subnode_Store
begin

text \<open>
  The trees the writer puts into a file are the trees the reader traverses: every entry is found
  again, without a mismatch noted.
\<close>

subsection \<open>One page\<close>

lemma length_bt_page_bytes [simp]: "length (bt_page_bytes crc offset bid ptype level region n esize) = 512"
  by (simp add: bt_page_bytes_def page_trailer_def resize_def Let_def)

lemma bt_page_fields:
  assumes "bid < 2 ^ 64" and "ptype < 256" and "level < 256" and "n < 256"
    and "page = bt_page_bytes crc offset bid ptype level region n esize"
  shows "yields (page_validate crc ptype page) ()" and "bh_c_entries (bt_header page) = n"
    and "bh_c_level (bt_header page) = level" and "entries_data page = resize 488 0 region"
proof -
  let ?body = "resize 488 0 region @ [word_of_nat n, word_of_nat (min (488 div max esize 1) 255), 8, word_of_nat level, 0, 0, 0, 0]"
  have page: "page = ?body @ page_trailer crc ptype offset bid ?body"
    by (simp add: assms(5) bt_page_bytes_def Let_def)
  have len: "length (resize 488 0 region) = 488" "length ?body = 496" by (simp_all add: resize_def)
  show "bh_c_entries (bt_header page) = n" "bh_c_level (bt_header page) = level"
    using assms(3,4) len(1) by (simp_all add: page bt_header_def nth_append unat_of_nat)
  show "entries_data page = resize 488 0 region" using len(1) by (simp add: page entries_data_def)
  have t: "drop 496 page = page_trailer crc ptype offset bid ?body" "take 496 page = ?body"
    using len(2) by (simp_all add: page)
  let ?t = "[word_of_nat ptype, word_of_nat ptype] @ le_bytes 2 (page_sig offset bid)"
  have "unat (crc ?body) < 4294967296" using unsigned_less [of "crc ?body"] by simp
  then have "read_u32 4 (?t @ le_bytes 4 (unat (crc ?body)) @ le_bytes 8 bid) = unat (crc ?body)"
    by (subst read_u32_append2) (simp_all add: read_le_field)
  then have "read_u32 4 (page_trailer crc ptype offset bid ?body) = unat (crc ?body)"
    by (simp add: page_trailer_def)
  then have "pt_ptype (trailer page) = ptype" "pt_ptype_repeat (trailer page) = ptype"
    "pt_dw_crc (trailer page) = unat (crc ?body)"
    using assms(2) by (simp_all add: trailer_def t(1) Let_def) (simp_all add: page_trailer_def unat_of_nat)
  then show "yields (page_validate crc ptype page) ()"
    unfolding page_validate_def t(2) by (auto simp: Let_def rd_when_def intro!: yields_bind [OF yields_note])
qed

lemma page_rows_resize:
  assumes "\<forall>r\<in>set rows. length r = w" and "length rows * w \<le> 488"
  shows "page_rows w (length rows) (resize 488 0 (concat rows)) = rows"
proof -
  have len: "length (concat rows) = length rows * w" by (rule length_concat_width [OF assms(1)])
  have region: "resize 488 0 (concat rows) = concat rows @ replicate (488 - length rows * w) 0"
    using len assms(2) by (simp add: resize_def)
  have fits: "i * w + w \<le> length rows * w" if "i < length rows" for i
    using that mult_le_mono1 [of "Suc i" "length rows" w] by (simp add: add.commute)
  have all: "takeWhile (\<lambda>i. i * w + w \<le> length (resize 488 0 (concat rows))) [0..<length rows] = [0..<length rows]"
  proof (rule takeWhile_eq_all_conv [THEN iffD2], intro ballI)
    fix i assume "i \<in> set [0..<length rows]"
    with fits [of i] assms(2) show "i * w + w \<le> length (resize 488 0 (concat rows))" by (simp add: resize_def)
  qed
  show ?thesis
    unfolding page_rows_def all unfolding region
    by (intro nth_equalityI) (simp_all add: slice_records [OF _ assms(1)])
qed

subsection \<open>A stored tree\<close>

definition page_in_file :: "bytes \<Rightarrow> u64 \<Rightarrow> bytes \<Rightarrow> bool" where
  "page_in_file file offset page \<longleftrightarrow> read_exact_at file offset PAGE_SIZE = Inr page"

text \<open>
  \<open>tree_stored level offset pages rows\<close>: the tree at \<open>offset\<close> has its pages at \<open>pages\<close> and the
  records \<open>rows\<close>, from left to right.
\<close>

type_synonym subtree = "u64 \<times> u64 list \<times> bytes list"

definition child_row :: "u64 \<Rightarrow> u64 \<Rightarrow> u64 \<Rightarrow> bytes" where
  "child_row key bid offset = le_bytes 8 key @ le_bytes 8 bid @ le_bytes 8 offset"

inductive tree_stored ::
  "(bytes \<Rightarrow> 32 word) \<Rightarrow> bytes \<Rightarrow> nat \<Rightarrow> nat \<Rightarrow> nat \<Rightarrow> u64 \<Rightarrow> u64 list \<Rightarrow> bytes list \<Rightarrow> bool"
  for crc "file" ptype width where
  tree_leaf: "page_in_file file offset (bt_page_bytes crc offset bid ptype 0 (concat rows) (length rows) esize) \<Longrightarrow>
    bid < 2 ^ 64 \<Longrightarrow> \<forall>r\<in>set rows. length r = width \<Longrightarrow> length rows * width \<le> 488 \<Longrightarrow> length rows < 256 \<Longrightarrow>
    tree_stored crc file ptype width 0 offset [offset] rows"
| tree_node: "page_in_file file offset (bt_page_bytes crc offset bid ptype (Suc level)
      (concat (map (\<lambda>(key, bid, child). child_row key bid (fst child)) children)) (length children) esize) \<Longrightarrow>
    bid < 2 ^ 64 \<Longrightarrow> length children \<le> 20 \<Longrightarrow> Suc level < 256 \<Longrightarrow>
    \<forall>(key, bid, child) \<in> set children. fst child < 2 ^ 64 \<and>
      tree_stored crc file ptype width level (fst child) (fst (snd child)) (snd (snd child)) \<Longrightarrow>
    tree_stored crc file ptype width (Suc level) offset (offset # concat (map (fst \<circ> snd \<circ> snd \<circ> snd) children))
      (concat (map (snd \<circ> snd \<circ> snd \<circ> snd) children))"

text \<open>Reading a stored tree.\<close>

definition traverses :: "'m rd \<Rightarrow> RdState \<Rightarrow> 'm \<Rightarrow> u64 set \<Rightarrow> bool" where
  "traverses m s x new \<longleftrightarrow>
     (\<exists>ns. quiet ns \<and> m s = (Inr x, s \<lparr> rd_notes := rd_notes s @ ns, rd_visited := rd_visited s \<union> new \<rparr>))"

lemma traverses_ret: "x = y \<Longrightarrow> traverses (rd_ret x) s y {}"
  unfolding traverses_def rd_ret_def by (intro exI [where x = "[]"]) simp

lemma traverses_yields: "yields m x \<Longrightarrow> traverses m s x {}"
  unfolding traverses_def yields_def by simp

lemma traverses_bind:
  assumes "traverses m s x A" and "\<And>s'. rd_visited s' = rd_visited s \<union> A \<Longrightarrow> traverses (f x) s' y B"
  shows "traverses (rd_bind m f) s y (A \<union> B)"
proof -
  from assms(1) obtain ns where ns: "quiet ns" "m s = (Inr x, s \<lparr> rd_notes := rd_notes s @ ns, rd_visited := rd_visited s \<union> A \<rparr>)"
    unfolding traverses_def by blast
  let ?s = "s \<lparr> rd_notes := rd_notes s @ ns, rd_visited := rd_visited s \<union> A \<rparr>"
  from assms(2) [of ?s] obtain ms where "quiet ms"
    "f x ?s = (Inr y, ?s \<lparr> rd_notes := rd_notes ?s @ ms, rd_visited := rd_visited ?s \<union> B \<rparr>)"
    unfolding traverses_def by auto
  with ns show ?thesis
    unfolding traverses_def by (intro exI [where x = "ns @ ms"]) (simp add: rd_bind_def Un_assoc)
qed

lemma traverses_each:
  assumes "\<forall>x\<in>set xs. \<forall>a s. set (pages x) \<inter> rd_visited s = {} \<longrightarrow> traverses (f x a) s (g x a) (set (pages x))"
    and "distinct (concat (map pages xs))" and "set (concat (map pages xs)) \<inter> rd_visited s = {}"
  shows "traverses (rd_each f xs a) s (fold g xs a) (set (concat (map pages xs)))"
  using assms
proof (induction xs arbitrary: a s)
  case Nil
  then show ?case by (simp add: traverses_ret)
next
  case (Cons x xs)
  have "set (pages x) \<inter> rd_visited s = {}" using Cons.prems(3) by auto
  with Cons.prems(1) have "traverses (f x a) s (g x a) (set (pages x))" by simp
  moreover have "traverses (rd_each f xs (g x a)) s' (fold g xs (g x a)) (set (concat (map pages xs)))"
    if "rd_visited s' = rd_visited s \<union> set (pages x)" for s'
    using Cons.prems that by (intro Cons.IH) auto
  ultimately have "traverses (rd_bind (f x a) (rd_each f xs)) s (fold g xs (g x a))
      (set (pages x) \<union> set (concat (map pages xs)))" by (rule traverses_bind)
  then show ?case by simp
qed

lemma rd_each_map: "rd_each f (map h xs) a = rd_each (\<lambda>x. f (h x)) xs a"
proof (induction xs arbitrary: a)
  case (Cons x xs)
  have "rd_each f (map h xs) = rd_each (\<lambda>x. f (h x)) xs" by (rule ext) (rule Cons)
  then show ?case by simp
qed simp

lemma fold_concat_map: "fold f (concat (map g xs)) a = fold (\<lambda>x. fold f (g x)) xs a"
  by (induction xs arbitrary: a) simp_all

lemma traverses_enter:
  assumes "depth \<le> MAX_BTREE_DEPTH" and "offset \<notin> rd_visited s"
  shows "traverses (enter_btree_page offset depth) s () {offset}"
  unfolding traverses_def enter_btree_page_def rd_enter_def
  using assms by (intro exI [where x = "[]"]) simp

lemma child_row_facts:
  "offset < 2 ^ 64 \<Longrightarrow> read_u64 16 (child_row key bid offset) = offset" "length (child_row key bid offset) = 24"
proof -
  assume "offset < 2 ^ 64"
  then show "read_u64 16 (child_row key bid offset) = offset"
    using read_u64_append2 [of "le_bytes 8 key @ le_bytes 8 bid" 16 "le_bytes 8 offset"]
    by (simp add: child_row_def read_le_field)
qed (simp add: child_row_def)

lemma traverse_stored:
  assumes "tree_stored crc file ptype width level offset pages rows" and "ptype < 256"
    and "distinct pages" and "set pages \<inter> rd_visited s = {}" and "level < k" and "k \<le> Suc MAX_BTREE_DEPTH"
  shows "traverses (bt_traverse crc file ptype width add k offset m) s (fold add rows m) (set pages)"
  using assms(1,3-6)
proof (induction arbitrary: k s m rule: tree_stored.induct)
  case (tree_leaf offset bid rows esize)
  then obtain j where k: "k = Suc j" "j \<le> MAX_BTREE_DEPTH" by (cases k) auto
  note fields = bt_page_fields [OF tree_leaf(2) assms(2) _ tree_leaf(5) refl]
  note fields = fields [of 0, simplified]
  have "traverses (bt_traverse crc file ptype width add (Suc j) offset m) s (fold add rows m) ({offset} \<union> ({} \<union> ({} \<union> {})))"
    unfolding bt_traverse.simps
    using tree_leaf(1,3,4,7) k(2) fields page_rows_resize [OF tree_leaf(3,4)]
    by (intro traverses_bind [OF traverses_enter] traverses_bind [OF traverses_yields] traverses_ret)
      (auto simp: page_read_at_def page_in_file_def Let_def intro!: yields_lift traverses_ret)
  then show ?case by (simp add: k)
next
  case (tree_node offset bid level children esize)
  then obtain j where k: "k = Suc j" "j \<le> MAX_BTREE_DEPTH" "level < j" by (cases k) auto
  let ?row = "\<lambda>(key, bid, child). child_row key bid (fst child)"
  let ?pages = "fst \<circ> snd \<circ> snd \<circ> snd" and ?rows = "snd \<circ> snd \<circ> snd \<circ> snd"
  let ?page = "bt_page_bytes crc offset bid ptype (Suc level) (concat (map ?row children)) (length children) esize"
  have n: "length children < 256" using tree_node(3) by simp
  note fields = bt_page_fields [OF tree_node(2) assms(2) tree_node(4) n refl]
  have rows: "page_rows 24 (length children) (resize 488 0 (concat (map ?row children))) = map ?row children"
    using page_rows_resize [of "map ?row children" 24] tree_node(3) child_row_facts(2)
    by (simp add: case_prod_beta)
  let ?f = "\<lambda>row m. bt_traverse crc file ptype width add j (read_u64 16 row) m"
  have child: "\<forall>c\<in>set children. \<forall>m s. set (?pages c) \<inter> rd_visited s = {} \<longrightarrow>
      traverses (?f (?row c) m) s (fold add (?rows c) m) (set (?pages c))"
  proof (intro ballI allI impI)
    fix c m and s :: RdState
    assume c: "c \<in> set children" and s: "set (?pages c) \<inter> rd_visited s = {}"
    obtain key cbid off pages rows where eq: "c = (key, cbid, off, pages, rows)" by (cases c) auto
    from tree_node(5) c have off: "off < 2 ^ 64" unfolding eq by fastforce
    from tree_node(5) c have "distinct pages \<longrightarrow> set pages \<inter> rd_visited s = {} \<longrightarrow> level < j \<longrightarrow> j \<le> Suc MAX_BTREE_DEPTH \<longrightarrow>
        traverses (bt_traverse crc file ptype width add j off m) s (fold add rows m) (set pages)"
      unfolding eq by fastforce
    moreover have "distinct pages" using tree_node(6) c unfolding eq by (auto simp: distinct_concat_iff)
    ultimately show "traverses (?f (?row c) m) s (fold add (?rows c) m) (set (?pages c))"
      using s k child_row_facts(1) [OF off] by (simp add: eq)
  qed
  have each: "traverses (rd_each ?f (map ?row children) m) s' (fold add (concat (map ?rows children)) m)
      (set (concat (map ?pages children)))" if "rd_visited s' = rd_visited s \<union> {offset}" for s'
    unfolding rd_each_map fold_concat_map
    using tree_node(6,7) that by (intro traverses_each [OF child]) (auto simp: comp_def)
  have "traverses (bt_traverse crc file ptype width add (Suc j) offset m) s (fold add (concat (map ?rows children)) m)
      ({offset} \<union> ({} \<union> ({} \<union> set (concat (map ?pages children)))))"
    unfolding bt_traverse.simps
  proof (intro traverses_bind)
    show "traverses (enter_btree_page offset (MAX_BTREE_DEPTH - j)) s () {offset}"
      using tree_node(7) by (intro traverses_enter) simp_all
    show "traverses (page_read_at file offset) s' ?page {}" for s'
      unfolding page_read_at_def using tree_node(1) by (intro traverses_yields yields_lift) (simp add: page_in_file_def)
    show "traverses (page_validate crc ptype ?page) s' () {}" for s'
      using fields(1) by (rule traverses_yields)
  qed (use each fields rows in \<open>simp add: Let_def\<close>)
  then show ?case by (simp add: k)
qed

subsection \<open>The writer stores trees\<close>

lemma length_chunks_eq: "0 < n \<Longrightarrow> length (chunks n xs) = div_ceil (length xs) n"
proof (induction n xs rule: chunks.induct)
  case (1 n xs)
  show ?case
  proof (cases "xs = []")
    case True
    with 1(2) show ?thesis by (simp add: div_ceil_def)
  next
    case nonempty: False
    show ?thesis
    proof (cases "length xs \<le> n")
      case True
      have "0 < length xs" using nonempty by simp
      with True 1(2) have "length xs + (n - 1) = (length xs - 1) + n" "length xs - 1 < n" by linarith+
      then have "(length xs + (n - 1)) div n = 1" using 1(2) by (simp only: div_add_self2) simp
      with True nonempty 1(2) show ?thesis by (simp add: chunks_step div_ceil_def)
    next
      case False
      then have "length xs + (n - 1) = (length xs - n + (n - 1)) + n" using 1(2) by simp
      then have "div_ceil (length xs) n = Suc (div_ceil (length (drop n xs)) n)"
        using 1(2) unfolding div_ceil_def by (simp only: div_add_self2 length_drop)
      with nonempty 1 show ?thesis by (simp add: chunks_step)
    qed
  qed
qed

definition stored_writes :: "bytes \<Rightarrow> writes \<Rightarrow> bool" where
  "stored_writes file ws \<longleftrightarrow> (\<forall>(offset, page) \<in> set ws. page_in_file file offset page)"

lemma stored_writes_simps [simp]:
  "stored_writes file []" "stored_writes file (w # ws) \<longleftrightarrow> page_in_file file (fst w) (snd w) \<and> stored_writes file ws"
  "stored_writes file (ws @ vs) \<longleftrightarrow> stored_writes file ws \<and> stored_writes file vs"
  by (auto simp: stored_writes_def)

definition offsets_for :: "(u64 \<rightharpoonup> u64) \<Rightarrow> u64 list \<Rightarrow> bool" where
  "offsets_for po bids \<longleftrightarrow> (\<forall>b\<in>set bids. b < 2 ^ 64 \<and> (\<exists>off. po b = Some off \<and> off < 2 ^ 64))"

lemma offsets_for_simps [simp]:
  "offsets_for po []" "offsets_for po (b # bs) \<longleftrightarrow> b < 2 ^ 64 \<and> (\<exists>off. po b = Some off \<and> off < 2 ^ 64) \<and> offsets_for po bs"
  "offsets_for po (bs @ cs) \<longleftrightarrow> offsets_for po bs \<and> offsets_for po cs"
  by (auto simp: offsets_for_def)

text \<open>A subtree is given by the identifiers of its pages and its rows.\<close>

definition sub_ok ::
  "(bytes \<Rightarrow> 32 word) \<Rightarrow> bytes \<Rightarrow> (u64 \<rightharpoonup> u64) \<Rightarrow> nat \<Rightarrow> nat \<Rightarrow> nat \<Rightarrow> u64 \<Rightarrow> u64 list \<times> bytes list \<Rightarrow> bool" where
  "sub_ok crc file po ptype width level bid sub \<longleftrightarrow>
     tree_stored crc file ptype width level (the (po bid)) (map (the \<circ> po) (fst sub)) (snd sub)"

lemma then_writes_ok [simp]: "then_writes (Some (Inr x)) f = f x"
  by (simp add: then_writes_def)

lemma offset_or_ok [simp]: "po bid = Some off \<Longrightarrow> offset_or msg po bid = Some (Inr off)"
  by (simp add: offset_or_def)

lemma leaf_writes_stored:
  assumes "length bids = length groups" and "offsets_for po bids"
    and "\<forall>rows\<in>set groups. length rows * width \<le> 488 \<and> length rows < 256 \<and> (\<forall>r\<in>set rows. length r = width)"
  shows "\<exists>ws. leaf_writes crc po ptype esize bids (map (\<lambda>rows. (concat rows, length rows)) groups) = Some (Inr ws) \<and>
    map fst ws = map (the \<circ> po) bids \<and> (\<forall>w\<in>set ws. length (snd w) = 512) \<and>
    (stored_writes file ws \<longrightarrow>
      list_all2 (sub_ok crc file po ptype width 0) bids (zip (map (\<lambda>b. [b]) bids) groups))"
  using assms
proof (induction bids arbitrary: groups)
  case (Cons bid bids)
  then obtain rows gs where groups: "groups = rows # gs" by (cases groups) auto
  from Cons.prems(2) obtain off where off: "po bid = Some off" "bid < 2 ^ 64" by auto
  from Cons.IH [of gs] Cons.prems obtain ws where
    ws: "leaf_writes crc po ptype esize bids (map (\<lambda>rows. (concat rows, length rows)) gs) = Some (Inr ws)"
      "map fst ws = map (the \<circ> po) bids" "\<forall>w\<in>set ws. length (snd w) = 512"
      "stored_writes file ws \<longrightarrow> list_all2 (sub_ok crc file po ptype width 0) bids (zip (map (\<lambda>b. [b]) bids) gs)"
    unfolding groups by auto
  let ?w = "(off, bt_page_bytes crc off bid ptype 0 (concat rows) (length rows) esize)"
  have "sub_ok crc file po ptype width 0 bid ([bid], rows)" if "page_in_file file (fst ?w) (snd ?w)"
    using that Cons.prems(3) off unfolding groups sub_ok_def by (auto intro!: tree_leaf)
  with ws off show ?case unfolding groups by (intro exI [where x = "?w # ws"]) simp
qed simp

lemma child_region_ok:
  assumes "length bids \<le> length keys" and "offsets_for po bids"
  shows "child_region po bids keys =
    Some (Inr (concat (map (\<lambda>(key, bid). child_row key bid (the (po bid))) (zip keys bids))))"
  using assms
proof (induction bids arbitrary: keys)
  case (Cons bid bids)
  then show ?case by (cases keys) (auto simp: child_row_def)
qed simp

definition merge_subs :: "u64 \<Rightarrow> (u64 list \<times> bytes list) list \<Rightarrow> u64 list \<times> bytes list" where
  "merge_subs bid subs = (bid # concat (map fst subs), concat (map snd subs))"

lemma merge_subs_ok:
  assumes "list_all2 (sub_ok crc file po ptype width level) bids subs" and "length keys = length bids"
    and "length bids \<le> 20" and "Suc level < 256" and "offsets_for po (bid # bids)"
    and "page_in_file file (the (po bid)) (bt_page_bytes crc (the (po bid)) bid ptype (Suc level)
      (concat (map (\<lambda>(key, bid). child_row key bid (the (po bid))) (zip keys bids))) (length bids) esize)"
  shows "sub_ok crc file po ptype width (Suc level) bid (merge_subs bid subs)"
proof -
  have len: "length bids = length subs" using assms(1) by (rule list_all2_lengthD)
  let ?children = "map (\<lambda>(key, bid, sub). (key, bid, the (po bid), map (the \<circ> po) (fst sub), snd sub))
    (zip keys (zip bids subs))"
  have region: "map (\<lambda>(key, bid, child). child_row key bid (fst child)) ?children =
      map (\<lambda>(key, bid). child_row key bid (the (po bid))) (zip keys bids)"
    using assms(2) len by (intro nth_equalityI) (simp_all add: case_prod_beta)
  have pages: "map (fst \<circ> snd \<circ> snd \<circ> snd) ?children = map (map (the \<circ> po) \<circ> fst) subs"
    using assms(2) len by (intro nth_equalityI) (simp_all add: case_prod_beta)
  have rows: "map (snd \<circ> snd \<circ> snd \<circ> snd) ?children = map snd subs"
    using assms(2) len by (intro nth_equalityI) (simp_all add: case_prod_beta)
  have children: "\<forall>(key, bid, child) \<in> set ?children. fst child < 2 ^ 64 \<and>
      tree_stored crc file ptype width level (fst child) (fst (snd child)) (snd (snd child))"
  proof
    fix c assume "c \<in> set ?children"
    then obtain i where i: "i < length bids" "c = (keys ! i, bids ! i, the (po (bids ! i)),
        map (the \<circ> po) (fst (subs ! i)), snd (subs ! i))"
      using assms(2) len by (auto simp: in_set_zip case_prod_beta)
    then have "bids ! i \<in> set bids" "sub_ok crc file po ptype width level (bids ! i) (subs ! i)"
      using assms(1) by (auto simp: list_all2_conv_all_nth)
    with assms(5) i(2) show "case c of (key, bid, child) \<Rightarrow> fst child < 2 ^ 64 \<and>
        tree_stored crc file ptype width level (fst child) (fst (snd child)) (snd (snd child))"
      by (fastforce simp: sub_ok_def offsets_for_def)
  qed
  have "length ?children = length bids" using assms(2) len by simp
  from tree_node [of "file" "the (po bid)" crc bid ptype level ?children esize width, unfolded region pages rows this]
    assms(3-6) children
  show ?thesis by (simp add: sub_ok_def merge_subs_def map_concat comp_def)
qed

lemma entries_per_page: "INTERMEDIATE_ENTRIES_PER_PAGE = 20"
  by (simp add: INTERMEDIATE_ENTRIES_PER_PAGE_def INTERMEDIATE_ENTRY_SIZE_def)

lemma level_writes_stored:
  assumes "length bids = length (chunks 20 prev)" and "length keys = length prev" and "offsets_for po (bids @ prev)"
    and "list_all2 (sub_ok crc file po ptype width level) prev subs \<or> \<not> stored" and "Suc level < 256"
    and "length subs = length prev"
  shows "\<exists>ws keys'. level_writes crc po ptype (Suc level) bids prev keys = Some (Inr (ws, keys')) \<and>
    length keys' = length bids \<and> map fst ws = map (the \<circ> po) bids \<and> (\<forall>w\<in>set ws. length (snd w) = 512) \<and>
    (stored \<longrightarrow> stored_writes file ws \<longrightarrow>
      list_all2 (sub_ok crc file po ptype width (Suc level)) bids (map2 merge_subs bids (chunks 20 subs)))"
  using assms
proof (induction bids arbitrary: prev keys subs)
  case Nil
  then show ?case by simp
next
  case (Cons bid bids)
  from Cons.prems(1) have prev: "prev \<noteq> []" by auto
  with Cons.prems(6) have subs: "subs \<noteq> []" by auto
  have n20: "0 < (20 :: nat)" by simp
  note step = chunks_step [OF n20 prev] chunks_step [OF n20 subs]
  from prev Cons.prems(2) obtain key ks where keys: "keys = key # ks" by (cases keys) auto
  from Cons.prems(3) obtain off where off: "po bid = Some off" by auto
  let ?cb = "take 20 prev" and ?ck = "take 20 keys"
  let ?region = "concat (map (\<lambda>(key, bid). child_row key bid (the (po bid))) (zip keys ?cb))"
  have "offsets_for po ?cb" using Cons.prems(3) by (auto simp: offsets_for_def dest: in_set_takeD)
  then have region: "child_region po ?cb keys = Some (Inr ?region)"
    using Cons.prems(2) by (intro child_region_ok) simp_all
  have "\<exists>ws keys'. level_writes crc po ptype (Suc level) bids (drop 20 prev) (drop 20 keys) = Some (Inr (ws, keys')) \<and>
    length keys' = length bids \<and> map fst ws = map (the \<circ> po) bids \<and> (\<forall>w\<in>set ws. length (snd w) = 512) \<and>
    (stored \<longrightarrow> stored_writes file ws \<longrightarrow>
      list_all2 (sub_ok crc file po ptype width (Suc level)) bids (map2 merge_subs bids (chunks 20 (drop 20 subs))))"
    using Cons.prems step by (intro Cons.IH) (auto simp: offsets_for_def dest: in_set_dropD)
  then obtain ws keys' where rest: "level_writes crc po ptype (Suc level) bids (drop 20 prev) (drop 20 keys) = Some (Inr (ws, keys'))"
    "length keys' = length bids" "map fst ws = map (the \<circ> po) bids" "\<forall>w\<in>set ws. length (snd w) = 512"
    "stored \<longrightarrow> stored_writes file ws \<longrightarrow>
      list_all2 (sub_ok crc file po ptype width (Suc level)) bids (map2 merge_subs bids (chunks 20 (drop 20 subs)))" by blast
  let ?w = "(off, bt_page_bytes crc off bid ptype (Suc level) ?region (length ?cb) INTERMEDIATE_ENTRY_SIZE)"
  have this_level: "level_writes crc po ptype (Suc level) (bid # bids) prev keys = Some (Inr (?w # ws, key # keys'))"
    using region off rest(1) prev
    by (simp add: entries_per_page keys Let_def del: child_region.simps)
  have merged: "sub_ok crc file po ptype width (Suc level) bid (merge_subs bid (take 20 subs))"
    if "stored" "page_in_file file (fst ?w) (snd ?w)"
  proof (rule merge_subs_ok [where bids = ?cb and keys = ?ck])
    show "list_all2 (sub_ok crc file po ptype width level) ?cb (take 20 subs)"
      using Cons.prems(4) that(1) by (simp add: list_all2_takeI)
    have "zip ?ck ?cb = zip keys ?cb"
      using Cons.prems(2) by (intro nth_equalityI) simp_all
    then show "page_in_file file (the (po bid)) (bt_page_bytes crc (the (po bid)) bid ptype (Suc level)
      (concat (map (\<lambda>(key, bid). child_row key bid (the (po bid))) (zip ?ck ?cb))) (length ?cb) INTERMEDIATE_ENTRY_SIZE)"
      using that(2) off by simp
    show "offsets_for po (bid # ?cb)" using Cons.prems(3) \<open>offsets_for po ?cb\<close> by auto
  qed (use Cons.prems(2,5) in simp_all)
  show ?case
    using this_level rest(2-5) merged off step(2) by (intro exI [where x = "?w # ws"] exI [where x = "key # keys'"]) simp
qed

text \<open>The levels above \<open>n\<close> pages: each has just enough pages, and the last one has a single page.\<close>

fun plan_ok :: "nat \<Rightarrow> u64 list list \<Rightarrow> bool" where
  "plan_ok n [] \<longleftrightarrow> n = 1"
| "plan_ok n (bids # levels) \<longleftrightarrow> 1 < n \<and> length bids = div_ceil n 20 \<and> plan_ok (length bids) levels"

lemma upper_writes_stored:
  assumes "plan_ok (length prev) levels" and "length keys = length prev" and "offsets_for po (concat levels @ prev)"
    and "list_all2 (sub_ok crc file po ptype width level) prev subs \<or> \<not> stored" and "level + length levels < 256"
    and "length subs = length prev"
  shows "\<exists>ws. upper_writes crc po ptype (Suc level) levels prev keys = Some (Inr ws) \<and>
    map fst ws = map (the \<circ> po) (concat levels) \<and> (\<forall>w\<in>set ws. length (snd w) = 512) \<and>
    (stored \<longrightarrow> stored_writes file ws \<longrightarrow>
      (\<exists>sub. sub_ok crc file po ptype width (level + length levels) (hd (last (prev # levels))) sub \<and>
        snd sub = concat (map snd subs) \<and> mset (fst sub) = mset (concat (map fst subs) @ concat levels)))"
  using assms
proof (induction levels arbitrary: prev keys subs level stored)
  case Nil
  then obtain b s where "prev = [b]" "subs = [s]" by (auto simp: length_Suc_conv)
  with Nil show ?case by (auto intro!: exI [where x = "fst s"])
next
  case (Cons bids levels)
  have "length bids = length (chunks 20 prev)" using Cons.prems(1) by (simp add: length_chunks_eq)
  moreover have "offsets_for po (bids @ prev)" using Cons.prems(3) by simp
  ultimately obtain ws keys' where now: "level_writes crc po ptype (Suc level) bids prev keys = Some (Inr (ws, keys'))"
    "length keys' = length bids" "map fst ws = map (the \<circ> po) bids" "\<forall>w\<in>set ws. length (snd w) = 512"
    "stored \<longrightarrow> stored_writes file ws \<longrightarrow>
      list_all2 (sub_ok crc file po ptype width (Suc level)) bids (map2 merge_subs bids (chunks 20 subs))"
    using level_writes_stored [of bids prev keys po crc "file" ptype width level subs stored] Cons.prems by auto
  let ?subs = "map2 merge_subs bids (chunks 20 subs)"
  have lens: "length (chunks 20 subs) = length bids"
    using Cons.prems(1,6) by (simp add: length_chunks_eq)
  have plan: "plan_ok (length bids) levels" and offs: "offsets_for po (concat levels @ bids)"
    and height: "Suc level + length levels < 256"
    using Cons.prems(1,3,5) by auto
  have subs_ok: "list_all2 (sub_ok crc file po ptype width (Suc level)) bids ?subs \<or> \<not> (stored \<and> stored_writes file ws)"
    using now(5) by blast
  have subs_len: "length ?subs = length bids" using lens by simp
  obtain vs where rest: "upper_writes crc po ptype (Suc (Suc level)) levels bids keys' = Some (Inr vs)"
    "map fst vs = map (the \<circ> po) (concat levels)" "\<forall>w\<in>set vs. length (snd w) = 512"
    "stored \<and> stored_writes file ws \<longrightarrow> stored_writes file vs \<longrightarrow>
      (\<exists>sub. sub_ok crc file po ptype width (Suc level + length levels) (hd (last (bids # levels))) sub \<and>
        snd sub = concat (map snd ?subs) \<and> mset (fst sub) = mset (concat (map fst ?subs) @ concat levels))"
    using Cons.IH [OF plan now(2) offs subs_ok height subs_len] by blast
  have snds: "concat (map snd ?subs) = concat (map snd subs)"
  proof -
    have "map snd ?subs = map (\<lambda>c. concat (map snd c)) (chunks 20 subs)"
      using lens by (intro nth_equalityI) (simp_all add: merge_subs_def)
    then have "concat (map snd ?subs) = concat (map snd (concat (chunks 20 subs)))"
      by (simp add: map_concat concat_of_concat comp_def)
    then show ?thesis by (simp add: concat_chunks)
  qed
  have fsts: "mset (concat (map fst ?subs)) = mset (bids @ concat (map fst subs))"
  proof -
    have "mset (concat (map fst (map2 merge_subs bs cs))) = mset (bs @ concat (map fst (concat cs)))"
      if "length cs = length bs" for bs and cs :: "(u64 list \<times> bytes list) list list"
      using that
    proof (induction bs arbitrary: cs)
      case (Cons b bs)
      then obtain c cs' where "cs = c # cs'" by (cases cs) auto
      with Cons show ?case by (simp add: merge_subs_def)
    qed simp
    from this [OF lens] show ?thesis by (simp add: concat_chunks)
  qed
  have writes: "upper_writes crc po ptype (Suc level) (bids # levels) prev keys = Some (Inr (ws @ vs))"
    using now(1) rest(1) by simp
  have tree: "\<exists>sub. sub_ok crc file po ptype width (level + length (bids # levels)) (hd (last (prev # bids # levels))) sub \<and>
      snd sub = concat (map snd subs) \<and> mset (fst sub) = mset (concat (map fst subs) @ concat (bids # levels))"
    if "stored" "stored_writes file (ws @ vs)"
  proof -
    from that rest(4) obtain sub where sub: "sub_ok crc file po ptype width (Suc level + length levels) (hd (last (bids # levels))) sub"
      "snd sub = concat (map snd ?subs)" "mset (fst sub) = mset (concat (map fst ?subs) @ concat levels)" by auto
    have "mset (fst sub) = mset (concat (map fst subs) @ concat (bids # levels))"
      using sub(3) fsts by (simp add: ac_simps)
    with sub(1,2) snds show ?thesis by (intro exI [where x = sub]) simp
  qed
  show ?case using writes now(3,4) rest(2,3) tree by (intro exI [where x = "ws @ vs"]) auto
qed

definition leaf_groups :: "('a \<Rightarrow> bytes) \<Rightarrow> usize \<Rightarrow> 'a list \<Rightarrow> bytes list list" where
  "leaf_groups encode per_leaf entries =
     (if entries = [] then [[]] else map (map encode) (chunks per_leaf entries))"

lemma leaf_pages_groups:
  "leaf_pages encode per_leaf entries = map (\<lambda>rows. (concat rows, length rows)) (leaf_groups encode per_leaf entries)"
  by (simp add: leaf_pages_def leaf_groups_def comp_def)

lemma leaf_groups_facts:
  assumes "0 < per_leaf" and "per_leaf * width \<le> 488" and "per_leaf < 256" and "\<forall>e\<in>set entries. length (encode e) = width"
  shows "concat (leaf_groups encode per_leaf entries) = map encode entries"
    and "length (leaf_groups encode per_leaf entries) = max (div_ceil (length entries) per_leaf) 1"
    and "\<forall>rows\<in>set (leaf_groups encode per_leaf entries).
      length rows * width \<le> 488 \<and> length rows < 256 \<and> (\<forall>r\<in>set rows. length r = width)"
    and "length (leaf_min_keys key per_leaf entries) = length (leaf_groups encode per_leaf entries)"
proof -
  show "concat (leaf_groups encode per_leaf entries) = map encode entries"
    using concat_chunks [OF assms(1), of entries] by (simp add: leaf_groups_def map_concat [symmetric])
  have "entries \<noteq> [] \<Longrightarrow> chunks per_leaf entries \<noteq> []" using assms(1) by (simp add: chunks_step)
  then have "entries \<noteq> [] \<Longrightarrow> 1 \<le> div_ceil (length entries) per_leaf"
    using length_chunks_eq [OF assms(1), of entries] by (metis One_nat_def Suc_leI length_greater_0_conv)
  then show "length (leaf_groups encode per_leaf entries) = max (div_ceil (length entries) per_leaf) 1"
    using length_chunks_eq [OF assms(1), of entries] assms(1) by (auto simp: leaf_groups_def div_ceil_def)
  show "length (leaf_min_keys key per_leaf entries) = length (leaf_groups encode per_leaf entries)"
    by (simp add: leaf_min_keys_def leaf_groups_def)
  show "\<forall>rows\<in>set (leaf_groups encode per_leaf entries).
      length rows * width \<le> 488 \<and> length rows < 256 \<and> (\<forall>r\<in>set rows. length r = width)"
  proof
    fix rows assume "rows \<in> set (leaf_groups encode per_leaf entries)"
    then consider "rows = []" | c where "c \<in> set (chunks per_leaf entries)" "rows = map encode c"
      by (auto simp: leaf_groups_def split: if_splits)
    then show "length rows * width \<le> 488 \<and> length rows < 256 \<and> (\<forall>r\<in>set rows. length r = width)"
    proof cases
      case (2 c)
      have "length c \<le> per_leaf" using chunks_bounds [OF 2(1)] by simp
      moreover from this have "length c * width \<le> 488"
        using assms(2) by (meson le_trans mult_le_mono1)
      moreover have "set c \<subseteq> set entries"
        using 2(1) concat_chunks [OF assms(1), of entries] by (metis UN_upper set_concat)
      ultimately show ?thesis using 2(2) assms(2-4) by auto
    qed simp
  qed
qed

lemma tree_writes_stored:
  assumes "tp_levels plan = leaves # levels" and "plan_ok (length leaves) levels" and "length leaves = length groups"
    and "length keys = length leaves" and "offsets_for po (concat (leaves # levels))" and "length levels < 256"
    and "\<forall>rows\<in>set groups. length rows * width \<le> 488 \<and> length rows < 256 \<and> (\<forall>r\<in>set rows. length r = width)"
  shows "\<exists>ws. tree_writes crc plan po keys (map (\<lambda>rows. (concat rows, length rows)) groups) = Some (Inr ws) \<and>
    map fst ws = map (the \<circ> po) (concat (leaves # levels)) \<and> (\<forall>w\<in>set ws. length (snd w) = 512) \<and>
    (stored_writes file ws \<longrightarrow> (\<exists>pages. mset pages = mset (map (the \<circ> po) (concat (leaves # levels))) \<and>
      tree_stored crc file (tp_ptype plan) width (length levels) (the (po (hd (last (leaves # levels))))) pages (concat groups)))"
proof -
  have "offsets_for po leaves" using assms(5) by simp
  from leaf_writes_stored [OF assms(3) this assms(7), of crc "tp_ptype plan" "tp_leaf_entry_size plan" "file"]
  obtain ws where ws: "leaf_writes crc po (tp_ptype plan) (tp_leaf_entry_size plan) leaves
      (map (\<lambda>rows. (concat rows, length rows)) groups) = Some (Inr ws)"
    "map fst ws = map (the \<circ> po) leaves" "\<forall>w\<in>set ws. length (snd w) = 512"
    "stored_writes file ws \<longrightarrow>
      list_all2 (sub_ok crc file po (tp_ptype plan) width 0) leaves (zip (map (\<lambda>b. [b]) leaves) groups)" by blast
  let ?subs = "zip (map (\<lambda>b. [b]) leaves) groups"
  have "offsets_for po (concat levels @ leaves)" using assms(5) by simp
  moreover have "list_all2 (sub_ok crc file po (tp_ptype plan) width 0) leaves ?subs \<or> \<not> stored_writes file ws"
    using ws(4) by blast
  moreover have "length ?subs = length leaves" using assms(3) by simp
  moreover have "0 + length levels < 256" using assms(6) by simp
  ultimately obtain vs where vs: "upper_writes crc po (tp_ptype plan) (Suc 0) levels leaves keys = Some (Inr vs)"
    "map fst vs = map (the \<circ> po) (concat levels)" "\<forall>w\<in>set vs. length (snd w) = 512"
    "stored_writes file ws \<longrightarrow> stored_writes file vs \<longrightarrow>
      (\<exists>sub. sub_ok crc file po (tp_ptype plan) width (0 + length levels) (hd (last (leaves # levels))) sub \<and>
        snd sub = concat (map snd ?subs) \<and> mset (fst sub) = mset (concat (map fst ?subs) @ concat levels))"
    using upper_writes_stored [OF assms(2,4)] by blast
  have zip_facts: "concat (map snd ?subs) = concat groups" "concat (map fst ?subs) = leaves"
    using assms(3) by simp_all
  have "tree_writes crc plan po keys (map (\<lambda>rows. (concat rows, length rows)) groups) = Some (Inr (ws @ vs))"
    using ws(1) vs(1) by (simp add: tree_writes_def assms(1))
  moreover have "\<exists>pages. mset pages = mset (map (the \<circ> po) (concat (leaves # levels))) \<and>
      tree_stored crc file (tp_ptype plan) width (length levels) (the (po (hd (last (leaves # levels))))) pages (concat groups)"
    if "stored_writes file (ws @ vs)"
  proof -
    from that vs(4) obtain sub where sub: "sub_ok crc file po (tp_ptype plan) width (length levels) (hd (last (leaves # levels))) sub"
      "snd sub = concat groups" "mset (fst sub) = mset (leaves @ concat levels)"
      unfolding zip_facts by auto
    have "mset (map (the \<circ> po) (fst sub)) = mset (map (the \<circ> po) (concat (leaves # levels)))"
      using sub(3) by (simp only: mset_map concat.simps)
    with sub(1,2) show ?thesis unfolding sub_ok_def by (intro exI [where x = "map (the \<circ> po) (fst sub)"]) simp
  qed
  ultimately show ?thesis
    using ws(2,3) vs(2,3) by (intro exI [where x = "ws @ vs"]) auto
qed

subsection \<open>Building the indexes\<close>

lemma yields_build:
  assumes "tree_stored crc file ptype width level offset pages rows" and "ptype < 256" and "distinct pages" and "level \<le> MAX_BTREE_DEPTH"
  shows "yields (rd_fresh (bt_traverse crc file ptype width add (Suc MAX_BTREE_DEPTH) offset m)) (fold add rows m)"
proof (rule yields_fresh)
  fix s :: RdState assume "rd_visited s = {}"
  with traverse_stored [OF assms(1-3), of s "Suc MAX_BTREE_DEPTH" add m] assms(4)
  show "\<exists>ns v. quiet ns \<and> bt_traverse crc file ptype width add (Suc MAX_BTREE_DEPTH) offset m s =
      (Inr (fold add rows m), s \<lparr> rd_notes := rd_notes s @ ns, rd_visited := v \<rparr>)"
    unfolding traverses_def by fastforce
qed

end
