(* ===== verification/Pst_Header.thy ===== *)
theory Pst_Header
  imports Tree_Proofs
begin

text \<open>
  The header of a file: the reader (\<^verbatim>\<open>pst-reader/src/header.rs\<close>) and the production header writer
  (\<^verbatim>\<open>write_header_v1\<close>, \<^verbatim>\<open>pst-writer/src/production.rs\<close>).
\<close>

definition PST_MAGIC :: u32 where
  "PST_MAGIC = 0x4E444221"

definition CLIENT_MAGIC :: nat where
  "CLIENT_MAGIC = 0x4D53"

definition MIN_UNICODE_VERSION :: nat where
  "MIN_UNICODE_VERSION = 23"

definition UNICODE_VERSION :: nat where
  "UNICODE_VERSION = 23"

record RootStructure =
  rs_ib_file_eof :: u64
  rs_ib_amap_last :: u64
  rs_cb_amap_free :: u64
  rs_bref_nbt :: Bref
  rs_bref_bbt :: Bref
  rs_f_amap_valid :: bool

record PstHeader =
  ph_version :: nat
  ph_ver_client :: nat
  ph_crypt_method :: CryptMethod
  ph_root :: RootStructure
  ph_bid_next_b :: u64

subsection \<open>The reader\<close>

text \<open>A little-endian field of the given width at the position the sequential reads have reached.\<close>

definition read_field :: "bytes \<Rightarrow> nat \<Rightarrow> nat \<Rightarrow> PstError + nat" where
  "read_field file pos width = try_then (read_exact_at file pos width) (\<lambda>bs. Inr (of_le_bytes bs))"

definition bref_read :: "bytes \<Rightarrow> nat \<Rightarrow> PstError + Bref" where
  "bref_read file pos =
     try_then (read_field file pos 8) (\<lambda>bid. try_then (read_field file (pos + 8) 8) (\<lambda>ib.
       Inr \<lparr> bf_bid = bid, bf_ib = ib \<rparr>))"

definition read_root :: "bytes \<Rightarrow> nat \<Rightarrow> PstError + RootStructure" where
  "read_root file pos =
     try_then (read_field file pos 4) (\<lambda>_.
     try_then (read_field file (pos + 4) 8) (\<lambda>ib_file_eof.
     try_then (read_field file (pos + 12) 8) (\<lambda>ib_amap_last.
     try_then (read_field file (pos + 20) 8) (\<lambda>cb_amap_free.
     try_then (read_field file (pos + 28) 8) (\<lambda>_.
     try_then (bref_read file (pos + 36)) (\<lambda>bref_nbt.
     try_then (bref_read file (pos + 52)) (\<lambda>bref_bbt.
     try_then (read_field file (pos + 68) 1) (\<lambda>amap_valid.
     try_then (read_field file (pos + 69) 1) (\<lambda>_.
     try_then (read_field file (pos + 70) 2) (\<lambda>_.
       Inr \<lparr> rs_ib_file_eof = ib_file_eof, rs_ib_amap_last = ib_amap_last, rs_cb_amap_free = cb_amap_free,
             rs_bref_nbt = bref_nbt, rs_bref_bbt = bref_bbt, rs_f_amap_valid = (amap_valid \<noteq> 0) \<rparr>))))))))))"

definition header_read :: "bytes \<Rightarrow> PstError + PstHeader" where
  "header_read file =
     try_then (read_field file 0 4) (\<lambda>magic.
     if magic \<noteq> PST_MAGIC then Inl (PeInvalidMagic magic)
     else try_then (read_field file 4 4) (\<lambda>_.
     try_then (read_field file 8 2) (\<lambda>client_magic.
     if client_magic \<noteq> CLIENT_MAGIC then Inl (PeInvalidClientMagic client_magic)
     else try_then (read_field file 10 2) (\<lambda>version.
     if version < MIN_UNICODE_VERSION then Inl (PeAnsiPstNotSupported version)
     else try_then (read_field file 12 2) (\<lambda>ver_client.
     try_then (read_exact_at file 14 30) (\<lambda>_.
     try_then (read_exact_at file 44 128) (\<lambda>_.
     try_then (read_field file 172 8) (\<lambda>_.
     try_then (read_root file 180) (\<lambda>root.
     try_then (read_field file 252 4) (\<lambda>_.
     try_then (read_exact_at file 256 256) (\<lambda>_.
     try_then (read_field file 512 1) (\<lambda>_.
     try_then (read_field file 513 1) (\<lambda>crypt_byte.
     try_then (crypt_from_byte crypt_byte) (\<lambda>crypt_method.
     try_then (read_field file 514 2) (\<lambda>_.
     try_then (read_field file 516 8) (\<lambda>bid_next_b.
       Inr \<lparr> ph_version = version, ph_ver_client = ver_client, ph_crypt_method = crypt_method,
             ph_root = root, ph_bid_next_b = bid_next_b \<rparr>))))))))))))))))"

subsection \<open>The writer\<close>

definition header_fields :: "u64 \<Rightarrow> u64 \<Rightarrow> u64 \<Rightarrow> u64 \<times> u64 \<Rightarrow> u64 \<times> u64 \<Rightarrow> bytes" where
  "header_fields next_bid eof amap_last nbt bbt =
     le_bytes 4 PST_MAGIC @ le_bytes 4 0 @ le_bytes 2 CLIENT_MAGIC @ le_bytes 2 UNICODE_VERSION @
     le_bytes 2 0x36 @ [1, 1] @ le_bytes 4 0 @ le_bytes 4 0 @ le_bytes 8 0 @ le_bytes 8 next_bid @
     le_bytes 4 1 @ replicate 128 0 @ le_bytes 8 0 @
     le_bytes 4 0 @ le_bytes 8 eof @ le_bytes 8 amap_last @ le_bytes 8 0 @ le_bytes 8 0 @
     le_bytes 8 (fst nbt) @ le_bytes 8 (snd nbt) @ le_bytes 8 (fst bbt) @ le_bytes 8 (snd bbt) @
     [1] @ replicate 3 0 @ le_bytes 4 0 @ replicate 256 0 @ [0x80] @ [0] @ le_bytes 2 0 @ le_bytes 8 next_bid"

definition plan_root :: "string \<Rightarrow> TreePlan \<Rightarrow> WriterError + u64" where
  "plan_root msg plan =
     (case tp_levels plan of
        [] \<Rightarrow> Inl (WeLayout (lit msg))
      | levels \<Rightarrow> (case last levels of [] \<Rightarrow> Inl (WeLayout (lit msg)) | bid # _ \<Rightarrow> Inr bid))"

definition found_or :: "string \<Rightarrow> 'a option \<Rightarrow> WriterError + 'a" where
  "found_or msg r = (case r of None \<Rightarrow> Inl (WeLayout (lit msg)) | Some x \<Rightarrow> Inr x)"

definition header_bytes :: "Layout \<Rightarrow> TreePlan \<Rightarrow> TreePlan \<Rightarrow> WriterError + bytes" where
  "header_bytes lay nbt_plan bbt_plan =
     try_then (plan_root ''empty NBT plan'' nbt_plan) (\<lambda>root_nbt_bid.
     try_then (plan_root ''empty BBT plan'' bbt_plan) (\<lambda>root_bbt_bid.
     try_then (found_or ''missing NBT root offset'' (page_offset_map lay root_nbt_bid)) (\<lambda>nbt_offset.
     try_then (found_or ''missing BBT root offset'' (page_offset_map lay root_bbt_bid)) (\<lambda>bbt_offset.
     try_then (found_or ''missing AMap page (ibAMapLast)'' (ib_amap_last lay)) (\<lambda>amap_last.
       let buf = header_fields (ly_next_bid_counter lay) (file_size lay) amap_last
                   (root_nbt_bid, nbt_offset) (root_bbt_bid, bbt_offset)
       in Inr (buf @ replicate (HEADER_SIZE - length buf) 0))))))"

subsection \<open>The round trip\<close>

lemma length_header_fields [simp]: "length (header_fields next_bid eof amap_last nbt bbt) = 524"
  by (simp add: header_fields_def)

text \<open>A field behind fields of known length.\<close>

lemma read_field_here: "read_field (le_bytes width n @ ys) 0 width = Inr (n mod 256 ^ width)"
  by (simp add: read_field_def read_exact_at_def slice_of_def of_le_bytes_le_bytes_mod)

lemma read_field_later: "length xs \<le> pos \<Longrightarrow> read_field (xs @ ys) pos width = read_field ys (pos - length xs) width"
proof -
  assume "length xs \<le> pos"
  then obtain k where "pos = length xs + k" by (auto simp: le_iff_add)
  then show ?thesis by (simp add: read_field_def read_exact_at_def slice_append2 add.assoc)
qed

lemma header_fields_eq:
  "header_fields next_bid eof amap_last nbt bbt =
     le_bytes 4 PST_MAGIC @ le_bytes 4 0 @ le_bytes 2 CLIENT_MAGIC @ le_bytes 2 UNICODE_VERSION @
     le_bytes 2 0x36 @ le_bytes 1 1 @ le_bytes 1 1 @ le_bytes 4 0 @ le_bytes 4 0 @ le_bytes 8 0 @ le_bytes 8 next_bid @
     le_bytes 4 1 @ replicate 128 0 @ le_bytes 8 0 @
     le_bytes 4 0 @ le_bytes 8 eof @ le_bytes 8 amap_last @ le_bytes 8 0 @ le_bytes 8 0 @
     le_bytes 8 (fst nbt) @ le_bytes 8 (snd nbt) @ le_bytes 8 (fst bbt) @ le_bytes 8 (snd bbt) @
     le_bytes 1 1 @ le_bytes 1 0 @ le_bytes 2 0 @ le_bytes 4 0 @ replicate 256 0 @ le_bytes 1 0x80 @ le_bytes 1 0 @
     le_bytes 2 0 @ le_bytes 8 next_bid"
proof -
  have one: "le_bytes 1 n = [word_of_nat n]" for n by simp
  have three: "replicate 3 (0 :: byte) @ xs = le_bytes 1 0 @ le_bytes 2 0 @ xs" for xs
  proof -
    have "replicate 3 (0 :: byte) = le_bytes 1 0 @ le_bytes 2 0"
      by (simp add: le_bytes_zero numeral_3_eq_3 numeral_2_eq_2)
    then show ?thesis by simp
  qed
  have bits: "[1, 1] @ xs = le_bytes 1 1 @ le_bytes 1 1 @ xs" "[1] @ xs = le_bytes 1 1 @ xs"
    "[0] @ xs = le_bytes 1 0 @ xs" "[0x80] @ xs = le_bytes 1 0x80 @ xs" for xs :: bytes
    by (simp_all add: one)
  show ?thesis unfolding header_fields_def three bits ..
qed

lemma read_exact_within: "pos + n \<le> length file \<Longrightarrow> \<exists>bs. read_exact_at file pos n = Inr bs"
  by (simp add: read_exact_at_def)

lemma try_then_skip: "\<exists>bs. r = Inr bs \<Longrightarrow> try_then r (\<lambda>_. m) = m"
  by auto

lemma header_read_fields:
  assumes "next_bid < 2 ^ 64" "eof < 2 ^ 64" "amap_last < 2 ^ 64" "fst nbt < 2 ^ 64" "snd nbt < 2 ^ 64"
    "fst bbt < 2 ^ 64" "snd bbt < 2 ^ 64"
  shows "header_read (header_fields next_bid eof amap_last nbt bbt @ rest) =
    Inr \<lparr> ph_version = 23, ph_ver_client = 0x36, ph_crypt_method = CryptNone,
      ph_root = \<lparr> rs_ib_file_eof = eof, rs_ib_amap_last = amap_last, rs_cb_amap_free = 0,
        rs_bref_nbt = \<lparr> bf_bid = fst nbt, bf_ib = snd nbt \<rparr>,
        rs_bref_bbt = \<lparr> bf_bid = fst bbt, bf_ib = snd bbt \<rparr>, rs_f_amap_valid = True \<rparr>,
      ph_bid_next_b = next_bid \<rparr>"
proof -
  let ?file = "header_fields next_bid eof amap_last nbt bbt @ rest"
  have len: "524 \<le> length ?file" by simp
  have fields: "read_field ?file 0 4 = Inr PST_MAGIC" "read_field ?file 4 4 = Inr 0"
    "read_field ?file 8 2 = Inr CLIENT_MAGIC" "read_field ?file 10 2 = Inr UNICODE_VERSION"
    "read_field ?file 12 2 = Inr 0x36" "read_field ?file 172 8 = Inr 0" "read_field ?file 180 4 = Inr 0"
    "read_field ?file 184 8 = Inr eof" "read_field ?file 192 8 = Inr amap_last" "read_field ?file 200 8 = Inr 0"
    "read_field ?file 208 8 = Inr 0" "read_field ?file 216 8 = Inr (fst nbt)" "read_field ?file 224 8 = Inr (snd nbt)"
    "read_field ?file 232 8 = Inr (fst bbt)" "read_field ?file 240 8 = Inr (snd bbt)"
    "read_field ?file 248 1 = Inr 1" "read_field ?file 249 1 = Inr 0" "read_field ?file 250 2 = Inr 0"
    "read_field ?file 252 4 = Inr 0" "read_field ?file 512 1 = Inr 0x80" "read_field ?file 513 1 = Inr 0"
    "read_field ?file 514 2 = Inr 0" "read_field ?file 516 8 = Inr next_bid"
    unfolding header_fields_eq append_assoc using assms
    by (simp_all add: read_field_later read_field_here PST_MAGIC_def CLIENT_MAGIC_def UNICODE_VERSION_def
        del: le_bytes.simps One_nat_def)
  have skips: "\<exists>bs. read_exact_at ?file 14 30 = Inr bs" "\<exists>bs. read_exact_at ?file 44 128 = Inr bs"
    "\<exists>bs. read_exact_at ?file 256 256 = Inr bs"
    using len by (intro read_exact_within; simp)+
  show ?thesis
    unfolding header_read_def read_root_def bref_read_def
    by (simp add: fields skips [THEN try_then_skip] UNICODE_VERSION_def MIN_UNICODE_VERSION_def crypt_from_byte_def
        del: One_nat_def)
qed

end
