(* ===== verification/Pst_File.thy ===== *)
theory Pst_File
  imports Pst_Header
begin

text \<open>
  A whole file: the writer's final stage (\<^verbatim>\<open>write_unicode_pst\<close>, \<^verbatim>\<open>pst-writer/src/production.rs\<close>),
  which places what is left, and writes the header, the allocation-map pages, the two trees and
  the blocks in memory into the temporary file; opening a file and reading a node
  (\<^verbatim>\<open>pst-reader/src/lib.rs\<close>). That every node comes back is in \<^verbatim>\<open>Pst_Round_Trip\<close>.
\<close>

subsection \<open>The final stage\<close>

definition amap_writes :: "(bytes \<Rightarrow> 32 word) \<Rightarrow> Layout \<Rightarrow> WriterError + writes" where
  "amap_writes crc lay =
     (let amaps = filter (\<lambda>p. pe_ptype p = PTYPE_AMAP) (ly_pages lay)
      in if amaps = [] then Inl (WeLayout (lit ''missing AMap page''))
         else Inr (map (\<lambda>p. (pe_offset p, amap_page_bytes crc (pe_offset p) (pe_bid p))) amaps))"

definition block_writes :: "(bytes \<Rightarrow> 32 word) \<Rightarrow> Layout \<Rightarrow> writes" where
  "block_writes crc lay =
     map (\<lambda>b. (be_offset b, data_block_bytes crc (be_bid b) (be_data b)))
       (filter (\<lambda>b. \<not> be_on_disk b) (ly_blocks lay))"

text \<open>Seek, then write.\<close>

fun write_all_at :: "writes \<Rightarrow> File \<Rightarrow> WriterError + File" where
  "write_all_at [] f = Inr f"
| "write_all_at ((offset, data) # ws) f =
     (case file_write offset data f of
        (Inl e, f) \<Rightarrow> Inl e
      | (Inr _, f) \<Rightarrow> write_all_at ws (f \<lparr> fl_pos := offset + length data \<rparr>))"

definition write_stage :: "writes panics \<Rightarrow> File \<Rightarrow> File panics" where
  "write_stage ws f = then_writes ws (\<lambda>ws. Some (write_all_at ws f))"

text \<open>
  The file is closed, hashed and renamed after this stage; what an error leaves in the temporary
  file is discarded with it.
\<close>

definition finalize_ndb :: "(bytes \<Rightarrow> 32 word) \<Rightarrow> Layout \<Rightarrow> (Layout \<times> File) panics" where
  "finalize_ndb crc lay =
     (let (nbt_plan, lay) = plan_tree PTYPE_NBT NBT_LEAF_ENTRY_SIZE (length (ly_nodes lay)) lay;
          (bbt_plan, lay) = plan_tree PTYPE_BBT BBT_LEAF_ENTRY_SIZE (length (ly_blocks lay)) lay
      in case calculate_offsets lay of
           None \<Rightarrow> None
         | Some lay \<Rightarrow>
             (case ly_eager lay of
                None \<Rightarrow> Some (Inl (WeLayout (lit ''eager temp writer missing at finalize'')))
              | Some ew \<Rightarrow>
                  let lay = lay \<lparr> ly_eager := None \<rparr>; page_offsets = page_offset_map lay
                  in then_writes (write_stage (Some (try_then (header_bytes lay nbt_plan bbt_plan) (\<lambda>h. Inr [(0, h)]))) (ew_file ew)) (\<lambda>f.
                     then_writes (write_stage (Some (amap_writes crc lay)) f) (\<lambda>f.
                     then_writes (write_stage (nbt_writes crc lay nbt_plan page_offsets) f) (\<lambda>f.
                     then_writes (write_stage (bbt_writes crc lay bbt_plan page_offsets) f) (\<lambda>f.
                     then_writes (write_stage (Some (Inr (block_writes crc lay))) f) (\<lambda>f.
                       Some (Inr (lay, f)))))))))"

subsection \<open>Opening a file and reading a node\<close>

record PstFile =
  pf_header :: PstHeader
  pf_nbt :: NbtIndex
  pf_bbt :: BbtIndex

definition pst_open :: "(bytes \<Rightarrow> 32 word) \<Rightarrow> bytes \<Rightarrow> PstFile rd" where
  "pst_open crc file =
     rd_bind (rd_lift (header_read file)) (\<lambda>header.
     rd_bind (nbt_build crc file (bf_ib (rs_bref_nbt (ph_root header)))) (\<lambda>nbt.
     rd_bind (bbt_build crc file (bf_ib (rs_bref_bbt (ph_root header)))) (\<lambda>bbt.
       rd_ret \<lparr> pf_header = header, pf_nbt = nbt, pf_bbt = bbt \<rparr>)))"

definition read_node_data :: "(bytes \<Rightarrow> 32 word) \<Rightarrow> bytes \<Rightarrow> PstFile \<Rightarrow> u64 \<Rightarrow> bytes rd" where
  "read_node_data crc file pst nid =
     (case pf_nbt pst nid of
        None \<Rightarrow> rd_fail (PeNodeNotFound nid)
      | Some nbt_entry \<Rightarrow>
          if nb_bid_data nbt_entry = 0 then rd_ret []
          else read_block_data crc file (pf_bbt pst) (nb_bid_data nbt_entry) (ph_crypt_method (pf_header pst)))"

definition file_read_subnode_data :: "(bytes \<Rightarrow> 32 word) \<Rightarrow> bytes \<Rightarrow> PstFile \<Rightarrow> u64 \<Rightarrow> u64 \<Rightarrow> bytes rd" where
  "file_read_subnode_data crc file pst nid sub_nid =
     (case pf_nbt pst nid of
        None \<Rightarrow> rd_fail (PeNodeNotFound nid)
      | Some nbt_entry \<Rightarrow>
          if nb_bid_sub nbt_entry = 0 then rd_fail (PeNoSubnodeBTree nid)
          else read_subnode_data crc file (pf_bbt pst) (nb_bid_sub nbt_entry) sub_nid (ph_crypt_method (pf_header pst)))"

subsection \<open>Planned pages\<close>

definition reserved :: "Layout \<Rightarrow> Layout \<Rightarrow> nat \<Rightarrow> u64 list \<Rightarrow> bool" where
  "reserved lay lay' ptype bids \<longleftrightarrow>
     layout_ok lay' \<and> ly_nodes lay' = ly_nodes lay \<and> ly_blocks lay' = ly_blocks lay \<and> ly_eager lay' = ly_eager lay \<and>
     ly_pages lay' = ly_pages lay @ map (\<lambda>bid. \<lparr> pe_bid = bid, pe_ptype = ptype, pe_offset = 0 \<rparr>) bids"

lemma reserved_trans: "reserved a b ptype bids \<Longrightarrow> reserved b c ptype cs \<Longrightarrow> reserved a c ptype (bids @ cs)"
  by (simp add: reserved_def)

lemma reserve_page_ok:
  assumes "layout_ok lay" and "ptype \<noteq> PTYPE_AMAP" and "reserve_page ptype lay = (bid, lay')"
  shows "reserved lay lay' ptype [bid]"
proof -
  obtain lay1 where alloc: "alloc_bid True lay = (bid, lay1)"
    and lay': "lay' = lay1 \<lparr> ly_pages := ly_pages lay1 @ [\<lparr> pe_bid = bid, pe_ptype = ptype, pe_offset = 0 \<rparr>] \<rparr>"
    using assms(3) by (auto simp: reserve_page_def split: prod.splits)
  note spec = alloc_bid_spec [OF assms(1) alloc] and fresh = alloc_fresh [OF assms(1) alloc]
  have "eager_ok lay' ew = eager_ok lay1 ew" for ew
    by (simp add: lay' eager_ok_def eager_placing_def)
  moreover have "distinct (all_bids lay')" "set (all_bids lay') \<subseteq> fset (ly_used_bids lay')"
    using spec(4) fresh by (auto simp: lay' layout_ok_def all_bids_def amap_bids_def)
  ultimately have "layout_ok lay'"
    using spec(4) assms(2) by (auto simp: lay' layout_ok_def split: option.splits)
  with spec(5) show ?thesis by (auto simp: reserved_def lay')
qed

lemma reserve_pages_ok:
  "layout_ok lay \<Longrightarrow> ptype \<noteq> PTYPE_AMAP \<Longrightarrow> reserve_pages ptype n lay = (bids, lay') \<Longrightarrow>
    length bids = n \<and> reserved lay lay' ptype bids"
proof (induction n arbitrary: lay bids)
  case 0
  then show ?case by (simp add: reserved_def)
next
  case (Suc n)
  obtain bid lay1 where first: "reserve_page ptype lay = (bid, lay1)" by (cases "reserve_page ptype lay")
  obtain bs lay2 where rest: "reserve_pages ptype n lay1 = (bs, lay2)" by (cases "reserve_pages ptype n lay1")
  from Suc.prems(3) first rest have eq: "bids = bid # bs" "lay' = lay2" by simp_all
  note one = reserve_page_ok [OF Suc.prems(1,2) first]
  then have "layout_ok lay1" by (simp add: reserved_def)
  from Suc.IH [OF this Suc.prems(2), of bs] rest eq(2) have "length bs = n \<and> reserved lay1 lay2 ptype bs" by simp
  with reserved_trans [OF one] eq show ?case by fastforce
qed

lemma plan_levels_ok:
  assumes "plan_levels ptype n lay = (levels, lay')" and "layout_ok lay" and "ptype \<noteq> PTYPE_AMAP" and "1 \<le> n"
  shows "plan_ok n levels \<and> reserved lay lay' ptype (concat levels) \<and> length levels < n + 1 \<and> (\<forall>h. n \<le> 20 ^ h \<longrightarrow> length levels \<le> h)"
  using assms
proof (induction ptype n lay arbitrary: levels rule: plan_levels.induct)
  case (1 ptype n lay)
  show ?case
  proof (cases "1 < n")
    case False
    with 1(2,3,5) show ?thesis by (auto simp: plan_levels.simps [of ptype n] reserved_def)
  next
    case True
    let ?m = "div_ceil n 20"
    have m: "max (div_ceil n INTERMEDIATE_ENTRIES_PER_PAGE) 1 = ?m" "1 \<le> ?m"
      using True by (simp_all add: entries_per_page div_ceil_def)
    obtain bids lay1 where first: "reserve_pages ptype ?m lay = (bids, lay1)" by (cases "reserve_pages ptype ?m lay")
    obtain ls lay2 where rest: "plan_levels ptype ?m lay1 = (ls, lay2)" by (cases "plan_levels ptype ?m lay1")
    have eq: "levels = bids # ls" "lay' = lay2"
      using 1(2) True first rest m(1) by (simp_all add: plan_levels.simps [of ptype n] Let_def)
    note one = reserve_pages_ok [OF 1(3,4) first]
    then have "layout_ok lay1" by (simp add: reserved_def)
    with 1(1) [OF True refl, unfolded m, OF first [symmetric] refl, of ls] rest eq(2) 1(4) m(2)
    have ih: "plan_ok ?m ls \<and> reserved lay1 lay2 ptype (concat ls) \<and> length ls < ?m + 1 \<and> (\<forall>h. ?m \<le> 20 ^ h \<longrightarrow> length ls \<le> h)"
      by simp
    have "?m < n" using div_ceil_less [OF True] by (simp add: entries_per_page)
    moreover have "length ls + 1 \<le> h" if "n \<le> 20 ^ h" for h
    proof (cases h)
      case 0
      with that True show ?thesis by simp
    next
      case (Suc k)
      with that have "(n + 19) div 20 \<le> (20 * 20 ^ k + 19) div 20" by (intro div_le_mono) simp
      also have "\<dots> = 20 ^ k" by simp
      finally have "?m \<le> 20 ^ k" by (simp add: div_ceil_def)
      with ih Suc show ?thesis by simp
    qed
    ultimately show ?thesis
      using ih one eq True reserved_trans [of lay lay1 ptype bids lay2 "concat ls"] by auto
  qed
qed

lemma plan_tree_ok:
  assumes "plan_tree ptype esize n lay = (plan, lay')" and "layout_ok lay" and "ptype \<noteq> PTYPE_AMAP"
  shows "\<exists>leaves levels. tp_levels plan = leaves # levels \<and> plan_ok (length leaves) levels \<and>
      length leaves = max (div_ceil n (max (488 div esize) 1)) 1 \<and>
      (\<forall>h. length leaves \<le> 20 ^ h \<longrightarrow> length levels \<le> h)"
    and "tp_ptype plan = ptype" "tp_leaf_entry_size plan = esize" "tp_per_leaf_capacity plan = max (488 div esize) 1"
    and "reserved lay lay' ptype (concat (tp_levels plan))"
proof -
  let ?k = "max (div_ceil n (max (488 div esize) 1)) 1"
  obtain leaves lay1 where first: "reserve_pages ptype ?k lay = (leaves, lay1)" by (cases "reserve_pages ptype ?k lay")
  obtain levels lay2 where rest: "plan_levels ptype ?k lay1 = (levels, lay2)" by (cases "plan_levels ptype ?k lay1")
  have plan: "plan = \<lparr> tp_ptype = ptype, tp_levels = leaves # levels, tp_leaf_entry_size = esize,
      tp_per_leaf_capacity = max (488 div esize) 1 \<rparr>" "lay' = lay2"
    using assms(1) first rest by (simp_all add: plan_tree_def Let_def)
  note one = reserve_pages_ok [OF assms(2,3) first]
  then have "layout_ok lay1" by (simp add: reserved_def)
  note two = plan_levels_ok [OF rest this assms(3)]
  show "\<exists>leaves levels. tp_levels plan = leaves # levels \<and> plan_ok (length leaves) levels \<and>
      length leaves = ?k \<and> (\<forall>h. length leaves \<le> 20 ^ h \<longrightarrow> length levels \<le> h)"
    using one two plan by simp
  show "tp_ptype plan = ptype" "tp_leaf_entry_size plan = esize" "tp_per_leaf_capacity plan = max (488 div esize) 1"
    using plan by simp_all
  show "reserved lay lay' ptype (concat (tp_levels plan))"
    using reserved_trans [of lay lay1 ptype leaves lay2 "concat levels"] one two plan by simp
qed

lemma distinct_below: "distinct xs \<Longrightarrow> \<forall>x\<in>set xs. x < (n :: nat) \<Longrightarrow> length xs \<le> n"
  using card_mono [of "{..<n}" "set xs"] by (auto simp: distinct_card [symmetric])

lemma tree_round_trip:
  assumes "plan_tree ptype esize (length entries) lay = (plan, lay')" and "layout_ok lay"
    and "ptype \<noteq> PTYPE_AMAP" "ptype < 256" and "2 \<le> esize" "esize \<le> 488" and "\<forall>e\<in>set entries. length (encode e) = esize"
    and "offsets_for po (concat (tp_levels plan))" and "distinct (map (the \<circ> po) (concat (tp_levels plan)))"
  shows "\<exists>ws. tree_writes crc plan po (leaf_min_keys key (tp_per_leaf_capacity plan) entries)
      (leaf_pages encode (tp_per_leaf_capacity plan) entries) = Some (Inr ws) \<and>
    map fst ws = map (the \<circ> po) (concat (tp_levels plan)) \<and> (\<forall>w\<in>set ws. length (snd w) = 512) \<and>
    (stored_writes file ws \<longrightarrow>
      yields (rd_fresh (bt_traverse crc file ptype esize add (Suc MAX_BTREE_DEPTH) (the (po (hd (last (tp_levels plan))))) m))
        (fold add (map encode entries) m))"
proof -
  note plan = plan_tree_ok [OF assms(1-3)]
  from plan(1) obtain leaves levels where levels: "tp_levels plan = leaves # levels" "plan_ok (length leaves) levels"
    "length leaves = max (div_ceil (length entries) (max (488 div esize) 1)) 1"
    "\<forall>h. length leaves \<le> 20 ^ h \<longrightarrow> length levels \<le> h" by blast
  let ?per = "488 div esize"
  have per: "0 < ?per" "?per * esize \<le> 488" "?per < 256" "max ?per 1 = ?per"
  proof -
    show "0 < ?per" using assms(5,6) by (simp add: div_greater_zero_iff)
    then show "max ?per 1 = ?per" by simp
    show "?per * esize \<le> 488" by simp
    have "?per \<le> 488 div 2" using assms(5) by (intro div_le_mono2) simp_all
    then show "?per < 256" by simp
  qed
  note groups = leaf_groups_facts [OF per(1-3) assms(7)]
  have "distinct leaves" "\<forall>b\<in>set leaves. b < 2 ^ 64"
    using assms(8,9) levels(1) by (auto simp: offsets_for_def distinct_map)
  then have "length leaves \<le> 2 ^ 64" by (rule distinct_below)
  then have "length leaves \<le> 20 ^ 32" by (rule le_trans) simp
  with levels(4) have height: "length levels \<le> 32" by blast
  have "length leaves = length (leaf_groups encode ?per entries)" using levels(3) groups(2) per(4) by simp
  moreover from this have "length (leaf_min_keys key ?per entries) = length leaves" using groups(4) [of key] by simp
  moreover have "length levels < 256" using height by simp
  ultimately obtain ws where ws: "tree_writes crc plan po (leaf_min_keys key ?per entries)
      (map (\<lambda>rows. (concat rows, length rows)) (leaf_groups encode ?per entries)) = Some (Inr ws)"
    "map fst ws = map (the \<circ> po) (concat (leaves # levels))" "\<forall>w\<in>set ws. length (snd w) = 512"
    "stored_writes file ws \<longrightarrow> (\<exists>pages. mset pages = mset (map (the \<circ> po) (concat (leaves # levels))) \<and>
      tree_stored crc file (tp_ptype plan) esize (length levels) (the (po (hd (last (leaves # levels))))) pages
        (concat (leaf_groups encode ?per entries)))"
    using tree_writes_stored [OF levels(1,2) _ _ assms(8) [unfolded levels(1)] _ groups(3)] by blast
  have "yields (rd_fresh (bt_traverse crc file ptype esize add (Suc MAX_BTREE_DEPTH) (the (po (hd (last (tp_levels plan))))) m))
        (fold add (map encode entries) m)" if "stored_writes file ws"
  proof -
    from that ws(4) obtain pages where pages: "mset pages = mset (map (the \<circ> po) (concat (leaves # levels)))"
      "tree_stored crc file ptype esize (length levels) (the (po (hd (last (leaves # levels))))) pages (map encode entries)"
      unfolding plan(2) groups(1) by blast
    from pages(1) assms(9) levels(1) have "distinct pages" by (metis mset_eq_imp_distinct_iff)
    moreover have "length levels \<le> MAX_BTREE_DEPTH" using height by (simp add: MAX_BTREE_DEPTH_def)
    ultimately show ?thesis unfolding levels(1) by (intro yields_build [OF pages(2) assms(4)])
  qed
  with ws show ?thesis
    unfolding plan(4) per(4) leaf_pages_groups levels(1) by (intro exI [where x = ws]) auto
qed

subsection \<open>Writes that do not overlap\<close>

definition write_region :: "u64 \<times> bytes \<Rightarrow> nat \<times> nat" where
  "write_region w = (fst w, length (snd w))"

definition put_all :: "writes \<Rightarrow> bytes \<Rightarrow> bytes" where
  "put_all ws file = fold (\<lambda>w bytes. put_bytes (fst w) (snd w) bytes) ws file"

lemma put_all_simps [simp]:
  "put_all [] file = file" "put_all (w # ws) file = put_all ws (put_bytes (fst w) (snd w) file)"
  "put_all (ws @ vs) file = put_all vs (put_all ws file)"
  by (simp_all add: put_all_def)

lemma put_all_kept:
  assumes "a + n \<le> length file" and "\<forall>w\<in>set ws. apart (a, n) (write_region w)"
  shows "a + n \<le> length (put_all ws file) \<and> slice_of a (a + n) (put_all ws file) = slice_of a (a + n) file"
  using assms
proof (induction ws arbitrary: "file")
  case (Cons w ws)
  have "a + n \<le> length (put_bytes (fst w) (snd w) file)" using Cons.prems(1) by (simp add: length_put_bytes)
  moreover have "slice_of a (a + n) (put_bytes (fst w) (snd w) file) = slice_of a (a + n) file"
    using Cons.prems by (intro slice_put_bytes_apart) (simp_all add: write_region_def)
  ultimately show ?case using Cons.IH Cons.prems(2) by simp
qed simp

lemma put_all_written:
  assumes "sorted_wrt apart (map write_region ws)" and "w \<in> set ws"
  shows "fst w + length (snd w) \<le> length (put_all ws file) \<and>
    slice_of (fst w) (fst w + length (snd w)) (put_all ws file) = snd w"
  using assms
proof (induction ws arbitrary: "file")
  case (Cons v ws)
  show ?case
  proof (cases "w \<in> set ws")
    case False
    with Cons.prems(2) have "w = v" by simp
    moreover have "\<forall>u\<in>set ws. apart (fst v, length (snd v)) (write_region u)"
      using Cons.prems(1) by (simp add: write_region_def)
    from put_all_kept [OF _ this, of "put_bytes (fst v) (snd v) file"]
    have "fst v + length (snd v) \<le> length (put_all (v # ws) file) \<and>
        slice_of (fst v) (fst v + length (snd v)) (put_all (v # ws) file) = snd v"
      by (simp add: length_put_bytes slice_put_bytes_same)
    ultimately show ?thesis by simp
  qed (use Cons in simp)
qed simp

lemma write_all_at_ok:
  assumes "set (fl_outcomes f) \<subseteq> {None}"
  shows "\<exists>f'. write_all_at ws f = Inr f' \<and> fl_bytes f' = put_all ws (fl_bytes f) \<and> set (fl_outcomes f') \<subseteq> {None}"
  using assms
proof (induction ws arbitrary: f)
  case (Cons w ws)
  obtain off data where w: "w = (off, data)" by (cases w)
  let ?f = "f \<lparr> fl_bytes := put_bytes off data (fl_bytes f), fl_outcomes := tl (fl_outcomes f), fl_pos := off + length data \<rparr>"
  have "set (fl_outcomes ?f) \<subseteq> {None}" using Cons.prems by (cases "fl_outcomes f") auto
  from Cons.IH [OF this] have "\<exists>f'. write_all_at ws ?f = Inr f' \<and> fl_bytes f' = put_all ws (fl_bytes ?f) \<and>
      set (fl_outcomes f') \<subseteq> {None}" .
  moreover have "write_all_at (w # ws) f = write_all_at ws ?f"
    using Cons.prems by (auto simp: w file_write_def split: list.splits)
  ultimately show ?case by (simp add: w)
qed simp

end
