(* ===== verification/Pst_Store.thy ===== *)
theory Pst_Store
  imports Pst_File
begin

text \<open>
  The composition of writer and reader: what a layout holds can be read from the file it is
  finalized into.
\<close>

subsection \<open>Index entries\<close>

definition node_entry :: "NodeEntry \<Rightarrow> NbtEntry" where
  "node_entry n =
     \<lparr> nb_nid = ne_nid n, nb_bid_data = ne_bid_data n, nb_bid_sub = ne_bid_sub n,
       nb_nid_parent = ne_nid_parent n mod 2 ^ 32 \<rparr>"

definition block_entry :: "BlockEntry \<Rightarrow> BbtEntry" where
  "block_entry b =
     \<lparr> bb_bref = \<lparr> bf_bid = be_bid b, bf_ib = be_offset b \<rparr>, bb_cb = be_len b mod 2 ^ 16, bb_c_ref = 1 \<rparr>"

definition node_fits :: "NodeEntry \<Rightarrow> bool" where
  "node_fits n \<longleftrightarrow> ne_nid n < 2 ^ 64 \<and> ne_bid_data n < 2 ^ 64 \<and> ne_bid_sub n < 2 ^ 64"

lemma length_leaf_records [simp]: "length (encode_nbt_leaf n) = 32" "length (encode_bbt_leaf b) = 24"
  by (simp_all add: encode_nbt_leaf_def encode_bbt_leaf_def)

lemma nbt_add_encoded: "node_fits n \<Longrightarrow> nbt_add (encode_nbt_leaf n) m = m(ne_nid n \<mapsto> node_entry n)"
  by (simp add: nbt_add_def encode_nbt_leaf_def node_fits_def node_entry_def Let_def slice_simps del: le_bytes.simps)

lemma bbt_add_encoded:
  "be_bid b < 2 ^ 64 \<Longrightarrow> be_offset b < 2 ^ 64 \<Longrightarrow> bbt_add (encode_bbt_leaf b) m = m(be_bid b \<mapsto> block_entry b)"
  by (simp add: bbt_add_def encode_bbt_leaf_def block_entry_def Let_def slice_simps del: le_bytes.simps)

lemma fold_updates:
  assumes "\<forall>x\<in>set xs. \<forall>m. add (encode x) m = m(key x \<mapsto> val x)" and "distinct (map key xs)"
  shows "fold add (map encode xs) m k =
    (if k \<in> key ` set xs then map_option val (find (\<lambda>x. key x = k) xs) else m k)"
  using assms
proof (induction xs arbitrary: m)
  case (Cons x xs)
  then show ?case by (force simp: fold_map)
qed simp

lemma find_key: "distinct (map key xs) \<Longrightarrow> x \<in> set xs \<Longrightarrow> find (\<lambda>y. key y = key x) xs = Some x"
  by (induction xs) (auto simp: image_iff)

lemma index_lookup:
  assumes "\<forall>x\<in>set xs. \<forall>m. add (encode x) m = m(key x \<mapsto> val x)" and "distinct (map key xs)" and "x \<in> set xs"
  shows "fold add (map encode (sort_key key xs)) m (key x) = Some (val x)"
proof -
  let ?xs = "sort_key key xs"
  have "distinct (map key ?xs)" using assms(2) by (simp add: distinct_map inj_on_def)
  then have "find (\<lambda>y. key y = key x) ?xs = Some x"
    using assms(3) by (intro find_key) simp_all
  moreover have "fold add (map encode ?xs) m (key x) =
      (if key x \<in> key ` set ?xs then map_option val (find (\<lambda>y. key y = key x) ?xs) else m (key x))"
    using assms(1) \<open>distinct (map key ?xs)\<close> by (intro fold_updates) simp_all
  ultimately show ?thesis using assms(3) by simp
qed

subsection \<open>The final layout\<close>

definition final_layout :: "Layout \<Rightarrow> Layout option" where
  "final_layout lay =
     map_option (\<lambda>lay. lay \<lparr> ly_eager := None \<rparr>)
       (calculate_offsets (snd (plan_tree PTYPE_BBT BBT_LEAF_ENTRY_SIZE (length (ly_blocks lay))
         (snd (plan_tree PTYPE_NBT NBT_LEAF_ENTRY_SIZE (length (ly_nodes lay)) lay)))))"

text \<open>Identifiers and positions fit their 64-bit fields.\<close>

definition fits64 :: "Layout \<Rightarrow> bool" where
  "fits64 lay \<longleftrightarrow>
     (\<forall>bid\<in>set (map pe_bid (ly_pages lay) @ map be_bid (ly_blocks lay)). bid < 2 ^ 64) \<and>
     (\<forall>n\<in>set (ly_nodes lay). node_fits n) \<and> file_size lay < 2 ^ 64 \<and> ly_next_bid_counter lay < 2 ^ 64"

lemma fold_max_ge1: "c \<le> fold (\<lambda>x m. max m (f x)) xs (c :: nat)"
  by (induction xs arbitrary: c) (auto intro: le_trans [OF max.cobounded1])

lemma fold_max_ge2: "x \<in> set xs \<Longrightarrow> f x \<le> fold (\<lambda>x m. max m (f x)) xs (c :: nat)"
proof (induction xs arbitrary: c)
  case (Cons y ys)
  then show ?case using fold_max_ge1 [of "max c (f y)" f ys] by auto
qed simp

lemma distinct_sorted_wrt: "distinct xs \<longleftrightarrow> sorted_wrt (\<noteq>) xs"
  by (induction xs) auto

lemma offsets_below_size:
  "p \<in> set (ly_pages lay) \<Longrightarrow> pe_offset p + PAGE_SIZE \<le> file_size lay"
  "b \<in> set (ly_blocks lay) \<Longrightarrow> be_offset b + block_size_of (be_len b) \<le> file_size lay"
proof -
  show "b \<in> set (ly_blocks lay) \<Longrightarrow> be_offset b + block_size_of (be_len b) \<le> file_size lay"
    unfolding file_size_def by (rule fold_max_ge2)
  assume "p \<in> set (ly_pages lay)"
  from fold_max_ge2 [OF this, of "\<lambda>p. pe_offset p + PAGE_SIZE" HEADER_SIZE]
  show "pe_offset p + PAGE_SIZE \<le> file_size lay"
    unfolding file_size_def by (rule le_trans [OF _ fold_max_ge1])
qed

lemma page_offset_map_page:
  assumes "distinct (map pe_bid (ly_pages lay))" and "p \<in> set (ly_pages lay)"
  shows "page_offset_map lay (pe_bid p) = Some (pe_offset p)"
proof -
  have "distinct (map fst (rev (map (\<lambda>p. (pe_bid p, pe_offset p)) (ly_pages lay))))"
    using assms(1) by (simp add: rev_map [symmetric] comp_def)
  moreover have "(pe_bid p, pe_offset p) \<in> set (rev (map (\<lambda>p. (pe_bid p, pe_offset p)) (ly_pages lay)))"
    using assms(2) by auto
  ultimately show ?thesis unfolding page_offset_map_def by (rule map_of_is_SomeI)
qed

text \<open>What the trees of the plans rest on: the pages reserved for them have their final offsets.\<close>

lemma planned_pages:
  assumes "distinct (map pe_bid (ly_pages lay))" and "ly_pages lay = amaps @ others" and "map pe_bid others = bids"
    and "sorted_wrt apart (map page_region (ly_pages lay))" and "fits64 lay"
  shows "map (the \<circ> page_offset_map lay) bids = map pe_offset others"
    and "offsets_for (page_offset_map lay) bids" and "distinct (map (the \<circ> page_offset_map lay) bids)"
proof -
  have po: "page_offset_map lay (pe_bid p) = Some (pe_offset p)" if "p \<in> set others" for p
    using that assms(2) by (intro page_offset_map_page [OF assms(1)]) simp
  then show offs: "map (the \<circ> page_offset_map lay) bids = map pe_offset others"
    unfolding assms(3) [symmetric] by simp
  show "offsets_for (page_offset_map lay) bids"
    unfolding offsets_for_def assms(3) [symmetric]
  proof
    fix b assume "b \<in> set (map pe_bid others)"
    then obtain p where p: "p \<in> set others" "b = pe_bid p" by auto
    then have "p \<in> set (ly_pages lay)" using assms(2) by simp
    with assms(5) offsets_below_size(1) [OF this] have "b < 2 ^ 64" "pe_offset p < 2 ^ 64"
      using p(2) by (auto simp: fits64_def)
    with po [OF p(1)] p(2) show "b < 2 ^ 64 \<and> (\<exists>off. page_offset_map lay b = Some off \<and> off < 2 ^ 64)" by simp
  qed
  have "sorted_wrt (\<lambda>p q. apart (page_region p) (page_region q)) others"
    using assms(2,4) by (simp add: sorted_wrt_append sorted_wrt_map)
  then have "sorted_wrt (\<lambda>p q. pe_offset p \<noteq> pe_offset q) others"
    by (rule sorted_wrt_mono_rel [rotated]) (auto simp: apart_def page_region_def PAGE_SIZE_def)
  then show "distinct (map (the \<circ> page_offset_map lay) bids)"
    unfolding offs by (simp add: distinct_sorted_wrt sorted_wrt_map)
qed

lemma sorted_wrt_pair:
  assumes "\<And>x y. R x y \<Longrightarrow> R y x" and "sorted_wrt R (map f xs)" and "x \<in> set xs" "y \<in> set xs" "x \<noteq> y"
  shows "R (f x) (f y)"
  using assms(2-5)
proof (induction xs)
  case (Cons z zs)
  then show ?case using assms(1) by auto
qed simp

subsection \<open>The writes of the final stage\<close>

definition store_writes :: "(bytes \<Rightarrow> 32 word) \<Rightarrow> Layout \<Rightarrow> bytes \<Rightarrow> writes \<Rightarrow> writes \<Rightarrow> writes" where
  "store_writes crc lay h nbt bbt =
     [(0, h)] @
     map (\<lambda>p. (pe_offset p, amap_page_bytes crc (pe_offset p) (pe_bid p)))
       (filter (\<lambda>p. pe_ptype p = PTYPE_AMAP) (ly_pages lay)) @
     nbt @ bbt @ block_writes crc lay"

definition memory_blocks_ok :: "Layout \<Rightarrow> bool" where
  "memory_blocks_ok lay \<longleftrightarrow> (\<forall>b\<in>set (ly_blocks lay). \<not> be_on_disk b \<longrightarrow> be_len b = length (be_data b))"

lemma sorted_wrt_append_sub:
  "sorted_wrt R (xs @ ys) \<Longrightarrow> sorted_wrt R zs \<Longrightarrow> set zs \<subseteq> set ys \<Longrightarrow> sorted_wrt R (xs @ zs)"
  by (auto simp: sorted_wrt_append)

lemma store_writes_apart:
  assumes "offsets_ok lay" and "memory_blocks_ok lay" and "length h = HEADER_SIZE"
    and pages: "ly_pages lay = filter (\<lambda>p. pe_ptype p = PTYPE_AMAP) (ly_pages lay) @ others"
    and trees: "map fst (nbt @ bbt) = map pe_offset others" "\<forall>w\<in>set (nbt @ bbt). length (snd w) = 512"
  shows "sorted_wrt apart (map write_region (store_writes crc lay h nbt bbt))"
    and "b \<in> set (ly_blocks lay) \<Longrightarrow> be_on_disk b \<Longrightarrow> w \<in> set (store_writes crc lay h nbt bbt) \<Longrightarrow>
      apart (block_region b) (write_region w)"
proof -
  let ?amaps = "filter (\<lambda>p. pe_ptype p = PTYPE_AMAP) (ly_pages lay)"
  let ?mem = "filter (\<lambda>b. \<not> be_on_disk b) (ly_blocks lay)"
  have "map write_region (nbt @ bbt) = map (\<lambda>w. (fst w, PAGE_SIZE)) (nbt @ bbt)"
    using trees(2) by (simp add: write_region_def PAGE_SIZE_def)
  also have "\<dots> = map (\<lambda>off. (off, PAGE_SIZE)) (map fst (nbt @ bbt))" by simp
  finally have tree_regions: "map write_region nbt @ map write_region bbt = map page_region others"
    unfolding trees(1) by (simp add: page_region_def)
  have blocks: "map write_region (block_writes crc lay) = map block_region ?mem"
    using assms(2) by (auto simp: block_writes_def write_region_def block_region_def memory_blocks_ok_def)
  have regions: "map write_region (store_writes crc lay h nbt bbt) =
      (0, HEADER_SIZE) # map page_region (?amaps @ others) @ map block_region ?mem"
    using tree_regions blocks assms(3)
    by (simp add: store_writes_def write_region_def page_region_def comp_def)
  have all: "sorted_wrt apart ((0, HEADER_SIZE) # map page_region (?amaps @ others) @ map block_region (ly_blocks lay))"
    using assms(1) pages by (simp add: offsets_ok_def)
  moreover from all have "sorted_wrt apart (map block_region ?mem)"
    by (simp add: sorted_wrt_append sorted_wrt_map sorted_wrt_filter)
  ultimately show "sorted_wrt apart (map write_region (store_writes crc lay h nbt bbt))"
    unfolding regions append_Cons [symmetric] by (rule sorted_wrt_append_sub) auto
  assume b: "b \<in> set (ly_blocks lay)" "be_on_disk b" and w: "w \<in> set (store_writes crc lay h nbt bbt)"
  then have "write_region w \<in> set ((0, HEADER_SIZE) # map page_region (?amaps @ others) @ map block_region ?mem)"
    unfolding regions [symmetric] by simp
  then consider "write_region w \<in> set ((0, HEADER_SIZE) # map page_region (?amaps @ others))"
    | c where "c \<in> set (ly_blocks lay)" "\<not> be_on_disk c" "write_region w = block_region c" by auto
  then show "apart (block_region b) (write_region w)"
  proof cases
    case 1
    with all b(1) have "apart (write_region w) (block_region b)" by (auto simp: sorted_wrt_append)
    then show ?thesis by (rule apart_sym)
  next
    case (2 c)
    with b(2) have "b \<noteq> c" by auto
    moreover have "sorted_wrt apart (map block_region (ly_blocks lay))" using all by (simp add: sorted_wrt_append)
    ultimately show ?thesis unfolding 2(3)
      using sorted_wrt_pair [of apart block_region "ly_blocks lay" b c] apart_sym b(1) 2(1) by blast
  qed
qed

text \<open>The stages run one after the other when no write fails.\<close>

lemma write_stage_ok:
  assumes "ws = Some (Inr xs)" and "set (fl_outcomes f) \<subseteq> {None}"
  shows "\<exists>f'. write_stage ws f = Some (Inr f') \<and> fl_bytes f' = put_all xs (fl_bytes f) \<and> set (fl_outcomes f') \<subseteq> {None}"
  using write_all_at_ok [OF assms(2), of xs] assms(1) by (auto simp: write_stage_def)

lemma stages_ok:
  assumes "set (fl_outcomes f) \<subseteq> {None}" and "header_bytes lay p1 p2 = Inr h"
    and "amap_writes crc lay = Inr aw" and "nw = Some (Inr nbt)" and "bw = Some (Inr bbt)"
  shows "\<exists>g. then_writes (write_stage (Some (try_then (header_bytes lay p1 p2) (\<lambda>h. Inr [(0, h)]))) f) (\<lambda>f.
      then_writes (write_stage (Some (amap_writes crc lay)) f) (\<lambda>f.
      then_writes (write_stage nw f) (\<lambda>f.
      then_writes (write_stage bw f) (\<lambda>f.
      then_writes (write_stage (Some (Inr (block_writes crc lay))) f) (\<lambda>f.
        Some (Inr (lay, f))))))) = Some (Inr (lay, g)) \<and>
    fl_bytes g = put_all (store_writes crc lay h nbt bbt) (fl_bytes f)"
proof -
  have aw: "aw = map (\<lambda>p. (pe_offset p, amap_page_bytes crc (pe_offset p) (pe_bid p)))
      (filter (\<lambda>p. pe_ptype p = PTYPE_AMAP) (ly_pages lay))"
    using assms(3) by (auto simp: amap_writes_def Let_def split: if_splits)
  have h: "Some (try_then (header_bytes lay p1 p2) (\<lambda>h. Inr [(0, h)])) = Some (Inr [(0, h)])"
    using assms(2) by simp
  obtain f1 where f1: "write_stage (Some (try_then (header_bytes lay p1 p2) (\<lambda>h. Inr [(0, h)]))) f = Some (Inr f1)"
    "fl_bytes f1 = put_all [(0, h)] (fl_bytes f)" "set (fl_outcomes f1) \<subseteq> {None}"
    using write_stage_ok [OF h assms(1)] by blast
  obtain f2 where f2: "write_stage (Some (amap_writes crc lay)) f1 = Some (Inr f2)"
    "fl_bytes f2 = put_all aw (fl_bytes f1)" "set (fl_outcomes f2) \<subseteq> {None}"
    using write_stage_ok [of _ aw, OF _ f1(3)] assms(3) by blast
  obtain f3 where f3: "write_stage nw f2 = Some (Inr f3)"
    "fl_bytes f3 = put_all nbt (fl_bytes f2)" "set (fl_outcomes f3) \<subseteq> {None}"
    using write_stage_ok [OF assms(4) f2(3)] by blast
  obtain f4 where f4: "write_stage bw f3 = Some (Inr f4)"
    "fl_bytes f4 = put_all bbt (fl_bytes f3)" "set (fl_outcomes f4) \<subseteq> {None}"
    using write_stage_ok [OF assms(5) f3(3)] by blast
  obtain f5 where f5: "write_stage (Some (Inr (block_writes crc lay))) f4 = Some (Inr f5)"
    "fl_bytes f5 = put_all (block_writes crc lay) (fl_bytes f4)"
    using write_stage_ok [OF refl f4(3)] by blast
  show ?thesis
    using f1(1,2) f2(1,2) f3(1,2) f4(1,2) f5 aw
    by (intro exI [where x = f5]) (simp add: store_writes_def del: put_all_simps(2), simp)
qed

subsection \<open>From the layout to the file\<close>

lemma final_layout_facts:
  assumes "layout_ok lay" and "ly_eager lay = Some ew" and "ly_pages lay = []" and "final_layout lay = Some lay'"
  shows "\<exists>nplan bplan lay1 lay2 lay3 ew3 others.
    plan_tree PTYPE_NBT NBT_LEAF_ENTRY_SIZE (length (ly_nodes lay)) lay = (nplan, lay1) \<and>
    plan_tree PTYPE_BBT BBT_LEAF_ENTRY_SIZE (length (ly_blocks lay1)) lay1 = (bplan, lay2) \<and>
    calculate_offsets lay2 = Some lay3 \<and> ly_eager lay3 = Some ew3 \<and> ew_file ew3 = ew_file ew \<and>
    lay' = lay3 \<lparr> ly_eager := None \<rparr> \<and> layout_ok lay1 \<and> ly_blocks lay1 = ly_blocks lay \<and> offsets_ok lay' \<and>
    list_all2 moved_from (ly_blocks lay) (ly_blocks lay') \<and> ly_nodes lay' = ly_nodes lay \<and>
    ly_pages lay' = filter (\<lambda>p. pe_ptype p = PTYPE_AMAP) (ly_pages lay') @ others \<and>
    map pe_bid others = concat (tp_levels nplan) @ concat (tp_levels bplan)"
proof -
  obtain nplan lay1 where n: "plan_tree PTYPE_NBT NBT_LEAF_ENTRY_SIZE (length (ly_nodes lay)) lay = (nplan, lay1)"
    by (cases "plan_tree PTYPE_NBT NBT_LEAF_ENTRY_SIZE (length (ly_nodes lay)) lay")
  have kinds: "PTYPE_NBT \<noteq> PTYPE_AMAP" "PTYPE_BBT \<noteq> PTYPE_AMAP"
    by (simp_all add: PTYPE_NBT_def PTYPE_BBT_def PTYPE_AMAP_def)
  note r1 = plan_tree_ok(5) [OF n assms(1) kinds(1), unfolded reserved_def]
  obtain bplan lay2 where b: "plan_tree PTYPE_BBT BBT_LEAF_ENTRY_SIZE (length (ly_blocks lay1)) lay1 = (bplan, lay2)"
    by (cases "plan_tree PTYPE_BBT BBT_LEAF_ENTRY_SIZE (length (ly_blocks lay1)) lay1")
  from r1 have ok1: "layout_ok lay1" by simp
  note r2 = plan_tree_ok(5) [OF b ok1 kinds(2), unfolded reserved_def]
  then have "layout_ok lay2" by simp
  then obtain lay3 where calc: "calculate_offsets lay2 = Some lay3" and settled: "settled lay2 lay3"
    using calculate_offsets_settles by blast
  have lay': "lay' = lay3 \<lparr> ly_eager := None \<rparr>"
    using assms(4) n b calc r1 by (simp add: final_layout_def)
  have "map_option ew_file (ly_eager lay3) = Some (ew_file ew)"
    using settled r1 r2 assms(2) by (simp add: settled_def)
  then obtain ew3 where ew3: "ly_eager lay3 = Some ew3" "ew_file ew3 = ew_file ew" by auto
  let ?others = "filter (\<lambda>p. pe_ptype p \<noteq> PTYPE_AMAP) (ly_pages lay3)"
  have "map (pe_offset_update (\<lambda>_. 0)) ?others = ly_pages lay2" using settled by (simp add: settled_def)
  from arg_cong [OF this, of "map pe_bid"] have "map pe_bid ?others = map pe_bid (ly_pages lay2)"
    by (simp add: comp_def)
  also have "\<dots> = concat (tp_levels nplan) @ concat (tp_levels bplan)"
    using r1 r2 assms(3) by (simp add: comp_def)
  finally have others: "map pe_bid ?others = concat (tp_levels nplan) @ concat (tp_levels bplan)" .
  have "offsets_ok lay'" "list_all2 moved_from (ly_blocks lay) (ly_blocks lay')" "ly_nodes lay' = ly_nodes lay"
    "ly_pages lay' = filter (\<lambda>p. pe_ptype p = PTYPE_AMAP) (ly_pages lay') @ ?others"
    using settled r1 r2 lay' by (simp_all add: settled_def offsets_ok_def)
  with n b calc ew3 lay' ok1 others r1 show ?thesis by blast
qed

lemma final_layout_total: "layout_ok lay \<Longrightarrow> \<exists>lay'. final_layout lay = Some lay'"
proof -
  assume lay: "layout_ok lay"
  have kinds: "PTYPE_NBT \<noteq> PTYPE_AMAP" "PTYPE_BBT \<noteq> PTYPE_AMAP"
    by (simp_all add: PTYPE_NBT_def PTYPE_BBT_def PTYPE_AMAP_def)
  obtain nplan lay1 where n: "plan_tree PTYPE_NBT NBT_LEAF_ENTRY_SIZE (length (ly_nodes lay)) lay = (nplan, lay1)"
    by (cases "plan_tree PTYPE_NBT NBT_LEAF_ENTRY_SIZE (length (ly_nodes lay)) lay")
  obtain bplan lay2 where b: "plan_tree PTYPE_BBT BBT_LEAF_ENTRY_SIZE (length (ly_blocks lay)) lay1 = (bplan, lay2)"
    by (cases "plan_tree PTYPE_BBT BBT_LEAF_ENTRY_SIZE (length (ly_blocks lay)) lay1")
  from plan_tree_ok(5) [OF n lay kinds(1)] have "layout_ok lay1" by (simp add: reserved_def)
  from plan_tree_ok(5) [OF b this kinds(2)] have "layout_ok lay2" by (simp add: reserved_def)
  from calculate_offsets_settles [OF this] n b show ?thesis by (auto simp: final_layout_def)
qed

text \<open>One of the two trees: its writes, and what its traversal finds in a file that has them.\<close>

lemma layout_tree:
  assumes "plan_tree ptype esize (length entries) lay = (plan, lay1)" and "layout_ok lay"
    and "ptype \<noteq> PTYPE_AMAP" "ptype < 256" and "2 \<le> esize" "esize \<le> 488" and "\<forall>e\<in>set entries. length (encode e) = esize"
    and "distinct (map pe_bid (ly_pages lay'))" and "sorted_wrt apart (map page_region (ly_pages lay'))" and "fits64 lay'"
    and "ly_pages lay' = before @ mine @ after" and "map pe_bid mine = concat (tp_levels plan)"
  shows "\<exists>ws. tree_writes crc plan (page_offset_map lay') (leaf_min_keys key (tp_per_leaf_capacity plan) entries)
      (leaf_pages encode (tp_per_leaf_capacity plan) entries) = Some (Inr ws) \<and>
    map fst ws = map pe_offset mine \<and> (\<forall>w\<in>set ws. length (snd w) = 512) \<and>
    (stored_writes file ws \<longrightarrow>
      yields (rd_fresh (bt_traverse crc file ptype esize add (Suc MAX_BTREE_DEPTH)
          (the (page_offset_map lay' (hd (last (tp_levels plan))))) m)) (fold add (map encode entries) m))"
proof -
  let ?po = "page_offset_map lay'"
  have ok: "offsets_for ?po (concat (tp_levels plan))" "distinct (map (the \<circ> ?po) (concat (tp_levels plan)))"
    "map (the \<circ> ?po) (concat (tp_levels plan)) = map pe_offset mine"
  proof -
    note p = planned_pages [OF assms(8) assms(11) _ assms(9,10), of "map pe_bid (mine @ after)", OF refl]
    from p show "offsets_for ?po (concat (tp_levels plan))" "distinct (map (the \<circ> ?po) (concat (tp_levels plan)))"
      unfolding assms(12) [symmetric] by simp_all
    from p(1) show "map (the \<circ> ?po) (concat (tp_levels plan)) = map pe_offset mine"
      unfolding assms(12) [symmetric] by simp
  qed
  from tree_round_trip [OF assms(1-7) ok(1,2), of crc key "file" add m] show ?thesis unfolding ok(3) by blast
qed

lemma plan_root_ok:
  assumes "plan_tree ptype esize n lay = (plan, lay1)" and "layout_ok lay" and "ptype \<noteq> PTYPE_AMAP"
  shows "plan_root msg plan = Inr (hd (last (tp_levels plan)))" "hd (last (tp_levels plan)) \<in> set (concat (tp_levels plan))"
proof -
  from plan_tree_ok(1) [OF assms] obtain leaves levels where levels: "tp_levels plan = leaves # levels"
    "plan_ok (length leaves) levels" "1 \<le> length leaves" by auto
  have one: "plan_ok (length ls) us \<Longrightarrow> 1 \<le> length ls \<Longrightarrow> length (last (ls # us)) = 1" for ls :: "u64 list" and us
  proof (induction us arbitrary: ls)
    case (Cons u us)
    then have "1 \<le> length u" by (auto simp: div_ceil_def)
    moreover have "plan_ok (length u) us" using Cons.prems(1) unfolding plan_ok.simps by blast
    ultimately have "length (last (u # us)) = 1" by (intro Cons.IH)
    then show ?case by simp
  qed simp
  obtain root where root: "last (tp_levels plan) = [root]"
    using one [OF levels(2,3)] levels(1) by (auto simp: length_Suc_conv)
  then show "plan_root msg plan = Inr (hd (last (tp_levels plan)))"
    by (simp add: plan_root_def levels(1))
  have "last (tp_levels plan) \<in> set (tp_levels plan)" by (simp add: levels(1))
  then have "set (last (tp_levels plan)) \<subseteq> set (concat (tp_levels plan))" by auto
  with root show "hd (last (tp_levels plan)) \<in> set (concat (tp_levels plan))" by simp
qed

text \<open>The result of the final stage, with the file it leaves.\<close>

definition file_of :: "(bytes \<Rightarrow> 32 word) \<Rightarrow> Layout \<Rightarrow> bytes \<Rightarrow> bytes \<Rightarrow> bool" where
  "file_of crc lay start file \<longleftrightarrow>
     (\<exists>h nbt bbt others nbt_root bbt_root.
        file = put_all (store_writes crc lay h nbt bbt) start \<and>
        sorted_wrt apart (map write_region (store_writes crc lay h nbt bbt)) \<and>
        (\<forall>b\<in>set (ly_blocks lay). be_on_disk b \<longrightarrow>
           (\<forall>w\<in>set (store_writes crc lay h nbt bbt). apart (block_region b) (write_region w))) \<and>
        length h = HEADER_SIZE \<and>
        (\<exists>amap_last. h = header_fields (ly_next_bid_counter lay) (file_size lay) amap_last
             (fst nbt_root, snd nbt_root) (fst bbt_root, snd bbt_root) @ replicate (HEADER_SIZE - 524) 0 \<and>
           amap_last \<le> file_size lay) \<and>
        (\<forall>r\<in>{nbt_root, bbt_root}. \<exists>p\<in>set others. r = (pe_bid p, pe_offset p)) \<and> set others \<subseteq> set (ly_pages lay) \<and>
        (stored_writes file nbt \<longrightarrow> (\<forall>m :: NbtIndex. yields
           (rd_fresh (bt_traverse crc file PTYPE_NBT 32 nbt_add (Suc MAX_BTREE_DEPTH) (snd nbt_root) m))
           (fold nbt_add (map encode_nbt_leaf (sort_key ne_nid (ly_nodes lay))) m))) \<and>
        (stored_writes file bbt \<longrightarrow> (\<forall>m :: BbtIndex. yields
           (rd_fresh (bt_traverse crc file PTYPE_BBT 24 bbt_add (Suc MAX_BTREE_DEPTH) (snd bbt_root) m))
           (fold bbt_add (map encode_bbt_leaf (sort_key be_bid (ly_blocks lay))) m))) \<and>
        (\<forall>w\<in>set (nbt @ bbt). length (snd w) = 512))"

lemma length_header: "length (header_fields a b c d e @ replicate (HEADER_SIZE - 524) 0) = HEADER_SIZE"
  by (simp add: HEADER_SIZE_def)

lemma ib_amap_last_page:
  "p \<in> set (filter (\<lambda>p. pe_ptype p = PTYPE_AMAP) (ly_pages lay)) \<Longrightarrow>
    \<exists>off. ib_amap_last lay = Some off \<and> off \<in> pe_offset ` set (ly_pages lay)"
proof -
  assume p: "p \<in> set (filter (\<lambda>p. pe_ptype p = PTYPE_AMAP) (ly_pages lay))"
  have max_in: "fold max os o1 \<in> insert o1 (set os)" for os and o1 :: nat
    by (induction os arbitrary: o1) (auto simp: max_def)
  obtain o1 os where os: "map pe_offset (filter (\<lambda>p. pe_ptype p = PTYPE_AMAP) (ly_pages lay)) = o1 # os"
    using p by (cases "filter (\<lambda>p. pe_ptype p = PTYPE_AMAP) (ly_pages lay)") auto
  then have "insert o1 (set os) = pe_offset ` set (filter (\<lambda>p. pe_ptype p = PTYPE_AMAP) (ly_pages lay))"
    by (metis list.set_map list.simps(15))
  with max_in [of os o1] have "fold max os o1 \<in> pe_offset ` set (ly_pages lay)" by auto
  with os show ?thesis by (simp add: ib_amap_last_def)
qed

lemma finalize_writes_file:
  assumes "layout_ok lay" and "ly_eager lay = Some ew" and "io_ok lay" and "ly_pages lay = []"
    and "final_layout lay = Some lay'" and "fits64 lay'"
  shows "\<exists>f. finalize_ndb crc lay = Some (Inr (lay', f)) \<and> file_of crc lay' (fl_bytes (ew_file ew)) (fl_bytes f)"
proof -
  from final_layout_facts [OF assms(1,2,4,5)] obtain nplan bplan lay1 lay2 lay3 ew3 others where
    n: "plan_tree PTYPE_NBT NBT_LEAF_ENTRY_SIZE (length (ly_nodes lay)) lay = (nplan, lay1)"
    and b: "plan_tree PTYPE_BBT BBT_LEAF_ENTRY_SIZE (length (ly_blocks lay1)) lay1 = (bplan, lay2)"
    and calc: "calculate_offsets lay2 = Some lay3" "ly_eager lay3 = Some ew3" "ew_file ew3 = ew_file ew"
      "lay' = lay3 \<lparr> ly_eager := None \<rparr>"
    and ok1: "layout_ok lay1" and blocks1: "ly_blocks lay1 = ly_blocks lay" and offs: "offsets_ok lay'"
    and moved: "list_all2 moved_from (ly_blocks lay) (ly_blocks lay')" and nodes: "ly_nodes lay' = ly_nodes lay"
    and pages: "ly_pages lay' = filter (\<lambda>p. pe_ptype p = PTYPE_AMAP) (ly_pages lay') @ others"
    and others: "map pe_bid others = concat (tp_levels nplan) @ concat (tp_levels bplan)" by blast
  obtain mine_n mine_b where mine: "others = mine_n @ mine_b" "map pe_bid mine_n = concat (tp_levels nplan)"
    "map pe_bid mine_b = concat (tp_levels bplan)"
    using others by (metis map_eq_append_conv)
  let ?amaps = "filter (\<lambda>p. pe_ptype p = PTYPE_AMAP) (ly_pages lay')"
  have kinds: "PTYPE_NBT \<noteq> PTYPE_AMAP" "PTYPE_BBT \<noteq> PTYPE_AMAP" "PTYPE_NBT < 256" "PTYPE_BBT < 256"
    by (simp_all add: PTYPE_NBT_def PTYPE_BBT_def PTYPE_AMAP_def)
  have apart_pages: "sorted_wrt apart (map page_region (ly_pages lay'))" and bids: "distinct (map pe_bid (ly_pages lay'))"
    using offs by (simp_all add: offsets_ok_def sorted_wrt_append)
  let ?po = "page_offset_map lay'"
  let ?nodes = "sort_key ne_nid (ly_nodes lay')" and ?blocks = "sort_key be_bid (ly_blocks lay')"
  let ?nroot = "hd (last (tp_levels nplan))" and ?broot = "hd (last (tp_levels bplan))"
  have n': "plan_tree PTYPE_NBT 32 (length ?nodes) lay = (nplan, lay1)"
    using n nodes by (simp add: NBT_LEAF_ENTRY_SIZE_def)
  have b': "plan_tree PTYPE_BBT 24 (length ?blocks) lay1 = (bplan, lay2)"
    using b blocks1 list_all2_lengthD [OF moved] by (simp add: BBT_LEAF_ENTRY_SIZE_def)
  have pages_n: "ly_pages lay' = ?amaps @ mine_n @ mine_b" and pages_b: "ly_pages lay' = (?amaps @ mine_n) @ mine_b @ []"
    using pages mine(1) by simp_all
  have recs: "\<forall>e\<in>set ?nodes. length (encode_nbt_leaf e) = 32" "\<forall>e\<in>set ?blocks. length (encode_bbt_leaf e) = 24" by simp_all
  note ntree = layout_tree [OF n' assms(1) kinds(1,3) _ _ recs(1) bids apart_pages assms(6) pages_n mine(2), of crc ne_nid]
  note btree = layout_tree [OF b' ok1 kinds(2,4) _ _ recs(2) bids apart_pages assms(6) pages_b mine(3), of crc be_bid]
  obtain nbt where nbt: "tree_writes crc nplan ?po (leaf_min_keys ne_nid (tp_per_leaf_capacity nplan) ?nodes)
      (leaf_pages encode_nbt_leaf (tp_per_leaf_capacity nplan) ?nodes) = Some (Inr nbt)"
    "map fst nbt = map pe_offset mine_n" "\<forall>w\<in>set nbt. length (snd w) = 512"
    using ntree [of "[]" nbt_add Map.empty] by auto
  obtain bbt where bbt: "tree_writes crc bplan ?po (leaf_min_keys be_bid (tp_per_leaf_capacity bplan) ?blocks)
      (leaf_pages encode_bbt_leaf (tp_per_leaf_capacity bplan) ?blocks) = Some (Inr bbt)"
    "map fst bbt = map pe_offset mine_b" "\<forall>w\<in>set bbt. length (snd w) = 512"
    using btree [of "[]" bbt_add Map.empty] by auto
  have distinct_nids: "distinct (map ne_nid (ly_nodes lay'))" using assms(1) nodes by (simp add: layout_ok_def)
  then have "first_repeat (map (\<lambda>n. (ne_nid n, 0, 0)) ?nodes) = None"
    by (subst first_repeat_None) (simp_all add: comp_def distinct_map inj_on_def)
  then have nw: "nbt_writes crc lay' nplan ?po = Some (Inr nbt)" using nbt(1) by (simp add: nbt_writes_def)
  have bw: "bbt_writes crc lay' bplan ?po = Some (Inr bbt)" using bbt(1) by (simp add: bbt_writes_def)
  note nroot = plan_root_ok [OF n' assms(1) kinds(1)] and broot = plan_root_ok [OF b' ok1 kinds(2)]
  obtain np where np: "np \<in> set mine_n" "pe_bid np = ?nroot"
    using nroot(2) mine(2) by (metis (no_types, lifting) image_iff list.set_map)
  obtain bp where bp: "bp \<in> set mine_b" "pe_bid bp = ?broot"
    using broot(2) mine(3) by (metis (no_types, lifting) image_iff list.set_map)
  have "set mine_n \<union> set mine_b \<subseteq> set (ly_pages lay')" by (subst pages_n) auto
  then have "np \<in> set (ly_pages lay')" "bp \<in> set (ly_pages lay')" using np(1) bp(1) by blast+
  from this [THEN page_offset_map_page [OF bids]]
  have roots: "?po ?nroot = Some (pe_offset np)" "?po ?broot = Some (pe_offset bp)" unfolding np(2) bp(2) .
  have "is_amap_page_offset AMAP_FIRST_OFFSET" by (auto simp: amap_slot_iff AMAP_FIRST_OFFSET_def)
  then obtain ap where ap: "ap \<in> set ?amaps" using offs by (fastforce simp: offsets_ok_def)
  then obtain amap_last where last: "ib_amap_last lay' = Some amap_last" "amap_last \<in> pe_offset ` set (ly_pages lay')"
    using ib_amap_last_page [OF ap] by auto
  then have last_size: "amap_last \<le> file_size lay'" using offsets_below_size(1) by fastforce
  let ?h = "header_fields (ly_next_bid_counter lay') (file_size lay') amap_last (?nroot, pe_offset np) (?broot, pe_offset bp)
    @ replicate (HEADER_SIZE - 524) 0"
  have h: "header_bytes lay' nplan bplan = Inr ?h"
    using nroot(1) broot(1) roots last(1) by (simp add: header_bytes_def found_or_def Let_def)
  obtain aw where aw: "amap_writes crc lay' = Inr aw" using ap by (cases "?amaps = []") (auto simp: amap_writes_def Let_def)
  have quiet: "set (fl_outcomes (ew_file ew)) \<subseteq> {None}" using assms(2,3) by (simp add: io_ok_def)
  obtain f where f: "finalize_ndb crc lay = Some (Inr (lay', f))"
    "fl_bytes f = put_all (store_writes crc lay' ?h nbt bbt) (fl_bytes (ew_file ew))"
    using stages_ok [OF quiet h aw nw bw] n b calc
    by (auto simp: finalize_ndb_def Let_def simp del: write_all_at.simps)
  have mem: "memory_blocks_ok lay'"
    unfolding memory_blocks_ok_def
  proof (intro ballI impI)
    fix b assume "b \<in> set (ly_blocks lay')" "\<not> be_on_disk b"
    then obtain b0 where "b0 \<in> set (ly_blocks lay)" "moved_from b0 b"
      using moved by (metis in_set_conv_nth list_all2_conv_all_nth)
    then show "be_len b = length (be_data b)"
      using assms(1) \<open>\<not> be_on_disk b\<close> by (auto simp: moved_from_def layout_ok_def memory_block_ok_def)
  qed
  have tree_offsets: "map fst (nbt @ bbt) = map pe_offset others" "\<forall>w\<in>set (nbt @ bbt). length (snd w) = 512"
    using nbt(2,3) bbt(2,3) mine(1) by auto
  note regions = store_writes_apart [OF offs mem length_header pages tree_offsets, where crc = crc]
  let ?n = "(?nroot, pe_offset np)" and ?b = "(?broot, pe_offset bp)"
  let ?writes = "store_writes crc lay' ?h nbt bbt"
  have apart_writes: "sorted_wrt apart (map write_region ?writes)"
    "\<forall>b\<in>set (ly_blocks lay'). be_on_disk b \<longrightarrow> (\<forall>w\<in>set ?writes. apart (block_region b) (write_region w))"
    using regions(1) regions(2) by blast+
  have fields: "\<exists>amap_last. ?h = header_fields (ly_next_bid_counter lay') (file_size lay') amap_last
      (fst ?n, snd ?n) (fst ?b, snd ?b) @ replicate (HEADER_SIZE - 524) 0 \<and> amap_last \<le> file_size lay'"
    using last_size by auto
  have placed: "\<forall>r\<in>{?n, ?b}. \<exists>p\<in>set others. r = (pe_bid p, pe_offset p)" "set others \<subseteq> set (ly_pages lay')"
    subgoal using np bp mine(1) by (intro ballI) (auto intro: bexI [of _ np] bexI [of _ bp])
    subgoal by (subst pages) simp
    done
  have nread: "stored_writes (fl_bytes f) nbt \<longrightarrow> (\<forall>m :: NbtIndex. yields
      (rd_fresh (bt_traverse crc (fl_bytes f) PTYPE_NBT 32 nbt_add (Suc MAX_BTREE_DEPTH) (snd ?n) m))
      (fold nbt_add (map encode_nbt_leaf ?nodes) m))"
    using ntree [of "fl_bytes f" nbt_add] nbt(1) roots(1) by (simp del: bt_traverse.simps)
  have bread: "stored_writes (fl_bytes f) bbt \<longrightarrow> (\<forall>m :: BbtIndex. yields
      (rd_fresh (bt_traverse crc (fl_bytes f) PTYPE_BBT 24 bbt_add (Suc MAX_BTREE_DEPTH) (snd ?b) m))
      (fold bbt_add (map encode_bbt_leaf ?blocks) m))"
    using btree [of "fl_bytes f" bbt_add] bbt(1) roots(2) by (simp del: bt_traverse.simps)
  have "file_of crc lay' (fl_bytes (ew_file ew)) (fl_bytes f)"
    unfolding file_of_def
    by (rule exI [where x = ?h], rule exI [where x = nbt], rule exI [where x = bbt], rule exI [where x = others],
        rule exI [where x = ?n], rule exI [where x = ?b])
      (intro conjI f(2) apart_writes length_header fields placed nread bread tree_offsets(2))
  with f(1) show ?thesis by blast
qed

end
