(* ===== verification/Pst_Round_Trip.thy ===== *)
theory Pst_Round_Trip
  imports Pst_Store
begin

text \<open>
  Writer and reader together: a layout with an eager writer is finalized into a file, the file is
  opened, and every node reads back what the layout holds for it.
\<close>

lemma apart_header: "apart (0, HEADER_SIZE) (a, n) \<Longrightarrow> 0 < n \<Longrightarrow> HEADER_SIZE \<le> a"
  by (auto simp: apart_def HEADER_SIZE_def)

lemma page_past_header: "offsets_ok lay \<Longrightarrow> p \<in> set (ly_pages lay) \<Longrightarrow> HEADER_SIZE \<le> pe_offset p"
  by (rule apart_header [of _ PAGE_SIZE]) (auto simp: offsets_ok_def page_region_def PAGE_SIZE_def)

lemma stored_among:
  assumes "sorted_wrt apart (map write_region ws)" and "set vs \<subseteq> set ws" and "\<forall>w\<in>set vs. length (snd w) = 512"
  shows "stored_writes (put_all ws start) vs"
  unfolding stored_writes_def
proof clarify
  fix off page
  assume "(off, page) \<in> set vs"
  with put_all_written [OF assms(1), of "(off, page)" start] assms(2,3)
  show "page_in_file (put_all ws start) off page"
    by (force simp: page_in_file_def read_exact_at_def PAGE_SIZE_def)
qed

text \<open>Opening the file: the header, then the two indexes.\<close>

definition opened :: "Layout \<Rightarrow> PstFile \<Rightarrow> bool" where
  "opened lay pst \<longleftrightarrow>
     pf_nbt pst = fold nbt_add (map encode_nbt_leaf (sort_key ne_nid (ly_nodes lay))) Map.empty \<and>
     pf_bbt pst = fold bbt_add (map encode_bbt_leaf (sort_key be_bid (ly_blocks lay))) Map.empty \<and>
     ph_crypt_method (pf_header pst) = CryptNone"

lemma file_opens:
  assumes "file_of crc lay start file" and "offsets_ok lay" and "fits64 lay"
  shows "\<exists>pst. yields (pst_open crc file) pst \<and> opened lay pst"
proof -
  from assms(1) obtain h nbt bbt others nroot broot amap_last where
    ws: "file = put_all (store_writes crc lay h nbt bbt) start"
      "sorted_wrt apart (map write_region (store_writes crc lay h nbt bbt))"
    and len: "length h = HEADER_SIZE"
    and h: "h = header_fields (ly_next_bid_counter lay) (file_size lay) amap_last nroot broot @ replicate (HEADER_SIZE - 524) 0"
      "amap_last \<le> file_size lay"
    and roots: "\<forall>r\<in>{nroot, broot}. \<exists>p\<in>set others. r = (pe_bid p, pe_offset p)" "set others \<subseteq> set (ly_pages lay)"
    and nread: "stored_writes file nbt \<longrightarrow> (\<forall>m :: NbtIndex. yields
      (rd_fresh (bt_traverse crc file PTYPE_NBT 32 nbt_add (Suc MAX_BTREE_DEPTH) (snd nroot) m))
      (fold nbt_add (map encode_nbt_leaf (sort_key ne_nid (ly_nodes lay))) m))"
    and bread: "stored_writes file bbt \<longrightarrow> (\<forall>m :: BbtIndex. yields
      (rd_fresh (bt_traverse crc file PTYPE_BBT 24 bbt_add (Suc MAX_BTREE_DEPTH) (snd broot) m))
      (fold bbt_add (map encode_bbt_leaf (sort_key be_bid (ly_blocks lay))) m))"
    and pages: "\<forall>w\<in>set (nbt @ bbt). length (snd w) = 512"
    unfolding file_of_def prod.collapse by blast
  have in_range: "fst r < 2 ^ 64 \<and> snd r < 2 ^ 64 \<and> snd r \<noteq> 0" if "r \<in> {nroot, broot}" for r
  proof -
    from that roots obtain p where p: "p \<in> set (ly_pages lay)" "r = (pe_bid p, pe_offset p)" by blast
    with assms(3) offsets_below_size(1) [OF p(1)] page_past_header [OF assms(2) p(1)] show ?thesis
      by (auto simp: fits64_def HEADER_SIZE_def)
  qed
  have "(0, h) \<in> set (store_writes crc lay h nbt bbt)" by (simp add: store_writes_def)
  from put_all_written [OF ws(2) this, of start] have "take HEADER_SIZE file = h"
    unfolding ws(1) [symmetric] len by (simp add: take_slice len)
  then have "file = h @ drop HEADER_SIZE file" by (metis append_take_drop_id)
  then have whole: "file = header_fields (ly_next_bid_counter lay) (file_size lay) amap_last nroot broot
      @ (replicate (HEADER_SIZE - 524) 0 @ drop HEADER_SIZE file)" by (simp add: h(1))
  have "ly_next_bid_counter lay < 2 ^ 64" "file_size lay < 2 ^ 64" using assms(3) by (simp_all add: fits64_def)
  with in_range [of nroot] in_range [of broot] h(2)
  have header: "\<exists>hd. header_read file = Inr hd \<and> bf_ib (rs_bref_nbt (ph_root hd)) = snd nroot \<and>
      bf_ib (rs_bref_bbt (ph_root hd)) = snd broot \<and> ph_crypt_method hd = CryptNone"
    by (subst whole, subst header_read_fields) simp_all
  then obtain hd where hd: "header_read file = Inr hd" "bf_ib (rs_bref_nbt (ph_root hd)) = snd nroot"
    "bf_ib (rs_bref_bbt (ph_root hd)) = snd broot" "ph_crypt_method hd = CryptNone" by blast
  have "stored_writes file nbt" "stored_writes file bbt"
    unfolding ws(1) using pages by (intro stored_among [OF ws(2)]; auto simp: store_writes_def)+
  moreover have "snd nroot \<noteq> 0" "snd broot \<noteq> 0" using in_range by blast+
  ultimately have
    "yields (nbt_build crc file (bf_ib (rs_bref_nbt (ph_root hd))))
      (fold nbt_add (map encode_nbt_leaf (sort_key ne_nid (ly_nodes lay))) Map.empty)"
    "yields (bbt_build crc file (bf_ib (rs_bref_bbt (ph_root hd))))
      (fold bbt_add (map encode_bbt_leaf (sort_key be_bid (ly_blocks lay))) Map.empty)"
    using nread bread hd by (simp_all add: nbt_build_def bbt_build_def del: bt_traverse.simps)
  then have "yields (pst_open crc file) \<lparr> pf_header = hd,
      pf_nbt = fold nbt_add (map encode_nbt_leaf (sort_key ne_nid (ly_nodes lay))) Map.empty,
      pf_bbt = fold bbt_add (map encode_bbt_leaf (sort_key be_bid (ly_blocks lay))) Map.empty \<rparr>"
    unfolding pst_open_def by (intro yields_bind [OF yields_lift [OF hd(1)]] yields_bind) (assumption | simp)+
  then show ?thesis using hd(4) by (intro exI conjI) (assumption, simp add: opened_def)
qed

lemma fits64_block:
  assumes "fits64 lay" and "b \<in> set (ly_blocks lay)"
  shows "be_bid b < 2 ^ 64" "be_offset b < 2 ^ 64"
proof -
  from assms show "be_bid b < 2 ^ 64" unfolding fits64_def set_append set_map by blast
  have "be_offset b \<le> file_size lay" using offsets_below_size(2) [OF assms(2)] by linarith
  also have "\<dots> < 2 ^ 64" using assms(1) unfolding fits64_def by blast
  finally show "be_offset b < 2 ^ 64" .
qed

text \<open>Every block the layout holds is served by the file.\<close>

lemma file_serves:
  assumes "file_of crc lay' (fl_bytes (ew_file ew)) file" and "opened lay' pst" and "offsets_ok lay'" and "fits64 lay'"
    and "layout_ok lay" and "ly_eager lay = Some ew" and "list_all2 moved_from (ly_blocks lay) (ly_blocks lay')"
    and "holds crc lay bid payload"
  shows "serves crc file (pf_bbt pst) bid payload"
proof -
  from assms(8,6) obtain b where b: "b \<in> set (ly_blocks lay)" "block_holds crc (Some ew) b bid payload"
    by (auto simp: holds_def)
  with assms(7) obtain b' where b': "b' \<in> set (ly_blocks lay')" "moved_from b b'"
    by (metis in_set_conv_nth list_all2_conv_all_nth)
  then have same: "be_bid b' = bid" "be_len b' = length payload" "be_on_disk b' = be_on_disk b" "be_data b' = be_data b"
    using b(2) by (auto simp: moved_from_def block_holds_def)
  have len: "length payload \<le> MAX_BLOCK_DATA"
    using assms(5) b by (auto simp: layout_ok_def memory_block_ok_def block_holds_def)
  have ids: "bid < 2 ^ 64" "be_offset b' < 2 ^ 64"
    using fits64_block [OF assms(4) b'(1)] same(1) by simp_all
  have "\<forall>x\<in>set (ly_blocks lay'). \<forall>m. bbt_add (encode_bbt_leaf x) m = m(be_bid x \<mapsto> block_entry x)"
    using fits64_block [OF assms(4)] by (blast intro: bbt_add_encoded)
  from index_lookup [where key = be_bid and val = block_entry and encode = encode_bbt_leaf and add = bbt_add,
      OF this _ b'(1), of Map.empty] assms(2,3)
  have entry: "pf_bbt pst bid = Some (block_entry b')" by (simp add: opened_def offsets_ok_def same(1))
  from assms(1) obtain h nbt bbt where
    ws: "file = put_all (store_writes crc lay' h nbt bbt) (fl_bytes (ew_file ew))"
      "sorted_wrt apart (map write_region (store_writes crc lay' h nbt bbt))"
      "\<forall>b\<in>set (ly_blocks lay'). be_on_disk b \<longrightarrow>
         (\<forall>w\<in>set (store_writes crc lay' h nbt bbt). apart (block_region b) (write_region w))"
    unfolding file_of_def by blast
  have "block_in_file crc file (be_offset b') bid payload"
  proof (cases "be_on_disk b")
    case True
    then have "be_offset b \<noteq> 0"
      using assms(5,6) b(1) by (auto simp: layout_ok_def eager_ok_def disk_blocks_ok_def HEADER_SIZE_def)
    with True b'(2) have "b' = b" by (simp add: moved_from_def in_place_def)
    moreover from True b(2) have "block_in_file crc (fl_bytes (ew_file ew)) (be_offset b) bid payload"
      by (simp add: block_holds_def)
    ultimately show ?thesis
      using put_all_kept [of "be_offset b" "block_size_of (length payload)" "fl_bytes (ew_file ew)"] ws(3) b'(1) True same(2)
      unfolding ws(1) by (auto simp: block_in_file_def block_region_def)
  next
    case False
    with b(2) same b'(1) have "(be_offset b', data_block_bytes crc bid payload) \<in> set (store_writes crc lay' h nbt bbt)"
      by (force simp: store_writes_def block_writes_def block_holds_def)
    from put_all_written [OF ws(2) this] show ?thesis
      unfolding ws(1) by (simp add: block_in_file_def)
  qed
  then show ?thesis
    using ids entry len same(2) by (simp add: serves_def block_entry_def MAX_BLOCK_DATA_def)
qed

text \<open>Every node whose data the layout holds can be read from the finished file.\<close>

lemma finalize_serves:
  assumes "layout_ok lay" and "ly_eager lay = Some ew" and "io_ok lay" and "ly_pages lay = []"
    and "final_layout lay = Some lay'" and "fits64 lay'"
  shows "\<exists>f pst. finalize_ndb crc lay = Some (Inr (lay', f)) \<and> yields (pst_open crc (fl_bytes f)) pst \<and>
    ph_crypt_method (pf_header pst) = CryptNone \<and>
    (\<forall>n\<in>set (ly_nodes lay). pf_nbt pst (ne_nid n) = Some (node_entry n)) \<and>
    (\<forall>bid payload. holds crc lay bid payload \<longrightarrow> serves crc (fl_bytes f) (pf_bbt pst) bid payload)"
proof -
  from finalize_writes_file [OF assms] obtain f where f: "finalize_ndb crc lay = Some (Inr (lay', f))"
    "file_of crc lay' (fl_bytes (ew_file ew)) (fl_bytes f)" by blast
  from final_layout_facts [OF assms(1,2,4,5)] have offs: "offsets_ok lay'"
    and moved: "list_all2 moved_from (ly_blocks lay) (ly_blocks lay')" and nodes: "ly_nodes lay' = ly_nodes lay" by auto
  from file_opens [OF f(2) offs assms(6)] obtain pst where pst: "yields (pst_open crc (fl_bytes f)) pst" "opened lay' pst" by blast
  have "pf_nbt pst (ne_nid n) = Some (node_entry n)" if "n \<in> set (ly_nodes lay)" for n
  proof -
    have "\<forall>x\<in>set (ly_nodes lay'). \<forall>m. nbt_add (encode_nbt_leaf x) m = m(ne_nid x \<mapsto> node_entry x)"
      using assms(6) by (auto simp: fits64_def nbt_add_encoded)
    from index_lookup [where key = ne_nid and val = node_entry and encode = encode_nbt_leaf and add = nbt_add,
        OF this, of n Map.empty] that assms(1) nodes pst(2)
    show ?thesis by (simp add: opened_def layout_ok_def)
  qed
  moreover have "ph_crypt_method (pf_header pst) = CryptNone" using pst(2) by (simp add: opened_def)
  ultimately show ?thesis
    using f(1) pst(1) file_serves [OF f(2) pst(2) offs assms(6,1,2) moved] by blast
qed

lemma served_node_reads:
  assumes "pf_nbt pst (ne_nid n) = Some (node_entry n)" and "ph_crypt_method (pf_header pst) = CryptNone"
    and "\<forall>bid payload. holds crc lay bid payload \<longrightarrow> serves crc file (pf_bbt pst) bid payload"
    and "chain_data CryptNone (holds crc lay) (ne_bid_data n) data" and "length data \<le> MAX_XBLOCK_ASSEMBLE"
  shows "yields (read_node_data crc file pst (ne_nid n)) data"
proof (cases "ne_bid_data n = 0")
  case True
  with assms(4) have "data = []" by cases (auto simp: xblock_of_def)
  with True assms(1) show ?thesis by (simp add: read_node_data_def node_entry_def)
next
  case False
  from read_chain [OF assms(4) _ assms(5)] assms(3)
  have "yields (read_block_data crc file (pf_bbt pst) (ne_bid_data n) CryptNone) data" by blast
  with False assms(1,2) show ?thesis by (simp add: read_node_data_def node_entry_def)
qed

subsection \<open>A file from a list of nodes\<close>

text \<open>The start of a write (\<^verbatim>\<open>write_unicode_pst\<close>): an empty layout with an eager writer.\<close>

definition attach_eager :: "EagerWriteCtx \<Rightarrow> Layout \<Rightarrow> Layout" where
  "attach_eager ew lay = lay \<lparr> ly_eager := Some ew \<rparr>"

lemma eager_start:
  assumes "eager_create outcomes = Inr ew" and "set outcomes \<subseteq> {None}"
  shows "layout_ok (attach_eager ew layout_new)" and "io_ok (attach_eager ew layout_new)"
proof -
  have ew: "ew_cursor ew = HEADER_SIZE" "ew_amap_pages ew = []" "ew_amap_page_offsets ew = {||}"
    "ew_file_pos ew = fl_pos (ew_file ew)" "set (fl_outcomes (ew_file ew)) \<subseteq> {None}"
    using assms by (auto simp: eager_create_def file_write_def split: list.splits option.splits)
  have "clear_of_amaps HEADER_SIZE"
    by (auto simp: clear_of_amaps_def HEADER_SIZE_def is_amap_page_offset_def AMAP_FIRST_OFFSET_def)
  with ew have "eager_ok (attach_eager ew layout_new) ew"
    by (auto simp: eager_ok_def attach_eager_def layout_new_def eager_placing_def amaps_ok_def slots_below_def
        disk_blocks_ok_def is_amap_page_offset_def HEADER_SIZE_def AMAP_FIRST_OFFSET_def)
  with ew show "layout_ok (attach_eager ew layout_new)"
    by (simp add: layout_ok_def attach_eager_def layout_new_def all_bids_def amap_bids_def)
  show "io_ok (attach_eager ew layout_new)" using ew(5) by (simp add: io_ok_def attach_eager_def)
qed

type_synonym stored_node = "u64 \<times> bytes \<times> u64"

definition add_nodes :: "(bytes \<Rightarrow> 32 word) \<Rightarrow> stored_node list \<Rightarrow> u64 lay" where
  "add_nodes crc nodes = lay_each (\<lambda>(nid, data, parent) _. add_node_data crc nid data parent 0) nodes 0"

definition node_stored :: "(bytes \<Rightarrow> 32 word) \<Rightarrow> Layout \<Rightarrow> stored_node \<Rightarrow> bool" where
  "node_stored crc lay n \<longleftrightarrow>
     (case n of (nid, data, parent) \<Rightarrow> \<exists>bid. chain_data CryptNone (holds crc lay) bid data \<and>
        \<lparr> ne_nid = nid, ne_bid_data = bid, ne_bid_sub = 0, ne_nid_parent = parent \<rparr> \<in> set (ly_nodes lay))"

lemma add_nodes_stores:
  assumes "layout_ok lay" and "io_ok lay" and "ly_eager lay \<noteq> None" and "\<forall>(nid, data, parent) \<in> set nodes. length data \<le> I32_MAX"
    and "distinct (map fst nodes)" and "fset (ly_used_nids lay) \<inter> fst ` set nodes = {}"
  shows "\<exists>bid lay'. lay_each (\<lambda>(nid, data, parent) _. add_node_data crc nid data parent 0) nodes b lay = Some (Inr bid, lay') \<and>
    layout_ok lay' \<and> io_ok lay' \<and> ly_eager lay' \<noteq> None \<and> ly_pages lay' = ly_pages lay \<and> holds crc lay \<le> holds crc lay' \<and>
    set (ly_nodes lay) \<subseteq> set (ly_nodes lay') \<and> (\<forall>n\<in>set nodes. node_stored crc lay' n)"
  using assms
proof (induction nodes arbitrary: lay b)
  case Nil
  then show ?case by (simp add: lay_ret_def)
next
  case (Cons n nodes)
  obtain nid data parent where n: "n = (nid, data, parent)" by (cases n)
  have "nid |\<notin>| ly_used_nids lay" "length data \<le> I32_MAX" using Cons.prems n by auto
  from add_node_data_spec [OF Cons.prems(1,2) this(2,1), of crc parent 0] obtain bid lay1 where
    add: "add_node_data crc nid data parent 0 lay = Some (Inr bid, lay1)" and lay1: "layout_ok lay1" "io_ok lay1"
      "holds crc lay \<le> holds crc lay1" "chain_data CryptNone (holds crc lay1) bid data" "ly_pages lay1 = ly_pages lay" "ly_eager lay1 = None \<longleftrightarrow> ly_eager lay = None"
      "ly_nodes lay1 = ly_nodes lay @ [\<lparr> ne_nid = nid, ne_bid_data = bid, ne_bid_sub = 0, ne_nid_parent = parent \<rparr>]"
    by (elim exE conjE) (rule that; assumption)
  have "fset (ly_used_nids lay1) = insert nid (fset (ly_used_nids lay))"
    using Cons.prems(1) lay1(1,7) by (simp add: layout_ok_def)
  then have "fset (ly_used_nids lay1) \<inter> fst ` set nodes = {}" using Cons.prems(5,6) n by auto
  from Cons.IH [OF lay1(1,2) _ _ _ this, of bid] Cons.prems(3-5) lay1(6) obtain last lay2 where
    rest: "lay_each (\<lambda>(nid, data, parent) _. add_node_data crc nid data parent 0) nodes bid lay1 = Some (Inr last, lay2)"
    and lay2: "layout_ok lay2" "io_ok lay2" "ly_eager lay2 \<noteq> None" "ly_pages lay2 = ly_pages lay1"
      "holds crc lay1 \<le> holds crc lay2" "set (ly_nodes lay1) \<subseteq> set (ly_nodes lay2)" "\<forall>n\<in>set nodes. node_stored crc lay2 n"
    by auto
  have "chain_data CryptNone (holds crc lay2) bid data"
    using lay2(5) by (intro chain_data_mono [OF lay1(4)]) (auto simp: le_fun_def)
  then have "node_stored crc lay2 n" using lay1(7) lay2(6) n by (auto simp: node_stored_def)
  then show ?case
    using add rest lay1 lay2 n by (intro exI [where x = last] exI [where x = lay2]) (auto simp: lay_bind_def)
qed


text \<open>The positions and identifiers of the file that a layout will be written to fit 64 bits.\<close>

definition final_fits64 :: "Layout \<Rightarrow> bool" where
  "final_fits64 lay \<longleftrightarrow> (case final_layout lay of None \<Rightarrow> True | Some lay' \<Rightarrow> fits64 lay')"

text \<open>
  C4: Nodes written through the eager writer come back from the finished file. When the writes to the
  temporary file succeed, the identifiers differ and no value is longer than the reader assembles
  (64 MiB), adding the nodes succeeds; and when the positions of the file fit 64 bits, the final stage
  writes a file that opens, in which every node has its parent and its data, without a mismatch of a
  checksum, a signature or an identifier being noted.
\<close>

theorem store_round_trip:
  assumes "eager_create outcomes = Inr ew" and "set outcomes \<subseteq> {None}" and "distinct (map fst nodes)"
    and "\<forall>(nid, data, parent) \<in> set nodes. length data \<le> MAX_XBLOCK_ASSEMBLE \<and> parent < 2 ^ 32"
  shows "\<exists>bid lay. add_nodes crc nodes (attach_eager ew layout_new) = Some (Inr bid, lay) \<and>
    (final_fits64 lay \<longrightarrow>
      (\<exists>lay' f pst. finalize_ndb crc lay = Some (Inr (lay', f)) \<and> yields (pst_open crc (fl_bytes f)) pst \<and>
        (\<forall>(nid, data, parent) \<in> set nodes.
          (\<exists>e. pf_nbt pst nid = Some e \<and> nb_nid e = nid \<and> nb_nid_parent e = parent) \<and>
          yields (read_node_data crc (fl_bytes f) pst nid) data)))"
proof -
  note start = eager_start [OF assms(1,2)]
  have empty: "ly_pages (attach_eager ew layout_new) = []" "ly_eager (attach_eager ew layout_new) \<noteq> None"
    "fset (ly_used_nids (attach_eager ew layout_new)) \<inter> fst ` set nodes = {}"
    by (simp_all add: attach_eager_def layout_new_def)
  have "\<forall>(nid, data, parent) \<in> set nodes. length data \<le> I32_MAX"
    using assms(4) by (fastforce simp: MAX_XBLOCK_ASSEMBLE_def I32_MAX_def)
  from add_nodes_stores [OF start empty(2) this assms(3) empty(3), of crc 0] empty(1) obtain bid lay where
    add: "add_nodes crc nodes (attach_eager ew layout_new) = Some (Inr bid, lay)"
    and lay: "layout_ok lay" "io_ok lay" "ly_eager lay \<noteq> None" "ly_pages lay = []" "\<forall>n\<in>set nodes. node_stored crc lay n"
    unfolding add_nodes_def by auto
  have "\<exists>lay' f pst. finalize_ndb crc lay = Some (Inr (lay', f)) \<and> yields (pst_open crc (fl_bytes f)) pst \<and>
      (\<forall>(nid, data, parent) \<in> set nodes.
        (\<exists>e. pf_nbt pst nid = Some e \<and> nb_nid e = nid \<and> nb_nid_parent e = parent) \<and>
        yields (read_node_data crc (fl_bytes f) pst nid) data)" if fits: "final_fits64 lay"
  proof -
    from lay(3) obtain ew' where ew': "ly_eager lay = Some ew'" by auto
    obtain lay' where lay': "final_layout lay = Some lay'" using final_layout_total [OF lay(1)] by blast
    with fits have "fits64 lay'" by (simp add: final_fits64_def)
    from finalize_serves [OF lay(1) ew' lay(2,4) lay' this] obtain f pst where
      f: "finalize_ndb crc lay = Some (Inr (lay', f))" "yields (pst_open crc (fl_bytes f)) pst"
      and none: "ph_crypt_method (pf_header pst) = CryptNone"
      and nodes: "\<forall>n\<in>set (ly_nodes lay). pf_nbt pst (ne_nid n) = Some (node_entry n)"
      and serves: "\<forall>bid payload. holds crc lay bid payload \<longrightarrow> serves crc (fl_bytes f) (pf_bbt pst) bid payload"
      by blast
    have "(\<exists>e. pf_nbt pst nid = Some e \<and> nb_nid e = nid \<and> nb_nid_parent e = parent) \<and>
        yields (read_node_data crc (fl_bytes f) pst nid) data" if n: "(nid, data, parent) \<in> set nodes" for nid data parent
    proof -
      from lay(5) n obtain bid where bid: "chain_data CryptNone (holds crc lay) bid data"
        "\<lparr> ne_nid = nid, ne_bid_data = bid, ne_bid_sub = 0, ne_nid_parent = parent \<rparr> \<in> set (ly_nodes lay)"
        by (fastforce simp: node_stored_def)
      from assms(4) n have small: "length data \<le> MAX_XBLOCK_ASSEMBLE" "parent < 2 ^ 32" by auto
      let ?n = "\<lparr> ne_nid = nid, ne_bid_data = bid, ne_bid_sub = 0, ne_nid_parent = parent \<rparr>"
      from nodes bid(2) have entry: "pf_nbt pst (ne_nid ?n) = Some (node_entry ?n)" by blast
      from served_node_reads [OF entry none serves _ small(1)] bid(1) entry small(2) show ?thesis
        by (simp add: node_entry_def)
    qed
    with f show ?thesis by blast
  qed
  with add show ?thesis by blast
qed

subsection \<open>A file of two nodes\<close>

lemma unset_bit_1: "unset_bit (Suc 0) (n :: nat) = n mod 2 + 2 * (2 * (n div 2 div 2))"
  using unset_bit_Suc [of 0 n] by (simp add: unset_bit_0)

lemmas placing_eval = amap_place_region_def amap_place_loop.simps alloc_bid_loop.simps bid_of_def unset_bit_1 set_bit_eq
  is_amap_page_offset_def next_amap_at_or_after_def align_up_def saturating_add64_def eager_placing_def eager_placed_def
  AMAP_FIRST_OFFSET_def AMAP_INTERVAL_def HEADER_SIZE_def PAGE_SIZE_def BLOCK_ALIGN_def PTYPE_AMAP_def block_size_of_def
  amap_ensure_page_def Let_def

lemmas adding_eval = add_nodes_def add_node_data_def write_data_chain_def I32_MAX_def MAX_BLOCK_DATA_def lay_bind_def lay_ret_def
  push_leaf_def alloc_bid_def layout_new_def push_leaf_block_def place_and_write_block_def positioned_write_all_def
  file_write_def write_stubs.simps block_on_disk_def

lemmas final_eval = alloc_bid_def final_fits64_def final_layout_def plan_tree_def plan_levels.simps reserve_page_def calculate_offsets_def
  eager_end_def ensure_all_slots.simps ensure_slots.simps fits64_def node_fits_def file_size_def
  NBT_LEAF_ENTRY_SIZE_def BBT_LEAF_ENTRY_SIZE_def PTYPE_NBT_def PTYPE_BBT_def div_ceil_def

definition two_nodes :: "stored_node list" where
  "two_nodes = [(0x21, [1, 2, 3], 0), (0x122, [7], 0x21)]"

lemma two_nodes_start:
  "eager_create [] = Inr
     \<lparr> ew_file = \<lparr> fl_bytes = put_bytes 0 (replicate 4096 0) [], fl_pos = 4096, fl_outcomes = [] \<rparr>, ew_cursor = 4096,
       ew_amap_pages = [], ew_amap_stubs_written = {||}, ew_amap_page_offsets = {||},
       ew_stubbed_upto = 0, ew_file_pos = 4096, ew_amap_scan_steps = 0 \<rparr>"
  by (simp add: eager_create_def file_write_def HEADER_SIZE_def)

lemma two_nodes_layout:
  assumes "eager_create [] = Inr ew" and "add_nodes crc two_nodes (attach_eager ew layout_new) = Some (Inr bid, lay)"
  shows "final_fits64 lay"
proof -
  let ?ew = "\<lparr> ew_file = \<lparr> fl_bytes = put_bytes 0 (replicate 4096 0) [], fl_pos = 4096, fl_outcomes = [] \<rparr>,
       ew_cursor = 4096, ew_amap_pages = [], ew_amap_stubs_written = {||}, ew_amap_page_offsets = {||},
       ew_stubbed_upto = 0, ew_file_pos = 4096, ew_amap_scan_steps = 0 \<rparr>"
  from assms(1) two_nodes_start have "ew = ?ew" by simp
  from assms(2) [unfolded this] show ?thesis
    apply (simp add: two_nodes_def adding_eval placing_eval attach_eager_def)
    apply (erule conjE)
    apply hypsubst
    apply (simp add: final_eval placing_eval)
    done
qed

theorem store_round_trip_witness:
  "\<exists>ew bid lay lay' f pst. eager_create [] = Inr ew \<and>
     add_nodes (\<lambda>_. 0) two_nodes (attach_eager ew layout_new) = Some (Inr bid, lay) \<and>
     finalize_ndb (\<lambda>_. 0) lay = Some (Inr (lay', f)) \<and> yields (pst_open (\<lambda>_. 0) (fl_bytes f)) pst \<and>
     yields (read_node_data (\<lambda>_. 0) (fl_bytes f) pst 0x21) [1, 2, 3] \<and>
     yields (read_node_data (\<lambda>_. 0) (fl_bytes f) pst 0x122) [7]"
proof -
  obtain ew where ew: "eager_create [] = Inr ew" using two_nodes_start by blast
  have "\<exists>bid lay. add_nodes (\<lambda>_. 0) two_nodes (attach_eager ew layout_new) = Some (Inr bid, lay) \<and>
    (final_fits64 lay \<longrightarrow>
      (\<exists>lay' f pst. finalize_ndb (\<lambda>_. 0) lay = Some (Inr (lay', f)) \<and> yields (pst_open (\<lambda>_. 0) (fl_bytes f)) pst \<and>
        (\<forall>(nid, data, parent) \<in> set two_nodes.
          (\<exists>e. pf_nbt pst nid = Some e \<and> nb_nid e = nid \<and> nb_nid_parent e = parent) \<and>
          yields (read_node_data (\<lambda>_. 0) (fl_bytes f) pst nid) data)))"
    by (rule store_round_trip [OF ew]) (simp_all add: two_nodes_def MAX_XBLOCK_ASSEMBLE_def)
  then obtain bid lay where lay: "add_nodes (\<lambda>_. 0) two_nodes (attach_eager ew layout_new) = Some (Inr bid, lay)"
    and read: "final_fits64 lay \<longrightarrow>
      (\<exists>lay' f pst. finalize_ndb (\<lambda>_. 0) lay = Some (Inr (lay', f)) \<and> yields (pst_open (\<lambda>_. 0) (fl_bytes f)) pst \<and>
        (\<forall>(nid, data, parent) \<in> set two_nodes.
          (\<exists>e. pf_nbt pst nid = Some e \<and> nb_nid e = nid \<and> nb_nid_parent e = parent) \<and>
          yields (read_node_data (\<lambda>_. 0) (fl_bytes f) pst nid) data))" by blast
  from read two_nodes_layout [OF ew lay] ew lay show ?thesis
    by (fastforce simp: two_nodes_def)
qed

end
