(* ===== verification/Table_Reader.thy ===== *)
theory Table_Reader
  imports Property_Context Pst_File
begin

text \<open>
  Node identifiers (\<^verbatim>\<open>pst-reader/src/ndb/nid.rs\<close>) and table contexts
  (\<^verbatim>\<open>pst-reader/src/ltp/tc.rs\<close>): a table is a heap with its schema and the index of its rows, a
  matrix of rows on the heap or in a subnode, and cells that refer to heap allocations or subnodes.
\<close>

subsection \<open>Node identifiers\<close>

datatype NidType =
    NtHid | NtInternal | NtNormalFolder | NtSearchFolder | NtNormalMessage | NtAttachment
  | NtSearchUpdateQueue | NtSearchCriteria | NtAssocMessage | NtContentsTableInternal
  | NtReceiveFolderTable | NtOutgoingQueueTable | NtHierarchyTable | NtContentsTable
  | NtAssocContentsTable | NtSearchContentsTable | NtAttachmentTable | NtRecipientTable
  | NtSearchTableIndex | NtLtp | NtUnknown nat

definition nid_type_from_raw :: "nat \<Rightarrow> NidType" where
  "nid_type_from_raw v =
     (if v = 0x00 then NtHid else if v = 0x01 then NtInternal else if v = 0x02 then NtNormalFolder
      else if v = 0x03 then NtSearchFolder else if v = 0x04 then NtNormalMessage
      else if v = 0x05 then NtAttachment else if v = 0x06 then NtSearchUpdateQueue
      else if v = 0x07 then NtSearchCriteria else if v = 0x08 then NtAssocMessage
      else if v = 0x0A then NtContentsTableInternal else if v = 0x0B then NtReceiveFolderTable
      else if v = 0x0C then NtOutgoingQueueTable else if v = 0x0D then NtHierarchyTable
      else if v = 0x0E then NtContentsTable else if v = 0x0F then NtAssocContentsTable
      else if v = 0x10 then NtSearchContentsTable else if v = 0x11 then NtAttachmentTable
      else if v = 0x12 then NtRecipientTable else if v = 0x13 then NtSearchTableIndex
      else if v = 0x1F then NtLtp else NtUnknown v)"

definition nid_type :: "u64 \<Rightarrow> NidType" where
  "nid_type nid = nid_type_from_raw (nid mod 32)"

definition nid_index :: "u64 \<Rightarrow> u32" where
  "nid_index nid = nid div 32 mod 2 ^ 27"

definition nid_new :: "nat \<Rightarrow> u32 \<Rightarrow> u64" where
  "nid_new raw_type index = index * 32 OR raw_type"

text \<open>The tables of a folder: the same index under another type.\<close>

definition hierarchy_table :: "u64 \<Rightarrow> u64" where
  "hierarchy_table nid = nid div 32 * 32 OR 0x0D"

definition contents_table :: "u64 \<Rightarrow> u64" where
  "contents_table nid = nid div 32 * 32 OR 0x0E"

definition associated_contents_table :: "u64 \<Rightarrow> u64" where
  "associated_contents_table nid = nid div 32 * 32 OR 0x0F"

subsection \<open>The schema\<close>

record TcColumnDesc =
  cd_prop_id :: nat
  cd_prop_type :: nat
  cd_ib_data :: nat
  cd_cb_data :: nat
  cd_i_bit :: nat

record TcInfo =
  ti_c_cols :: nat
  ti_rgib :: "nat list"
  ti_hid_row_index :: Hid
  ti_hnid_rows :: u32
  ti_columns :: "TcColumnDesc list"

definition column_at :: "bytes \<Rightarrow> nat \<Rightarrow> TcColumnDesc" where
  "column_at data col_offset =
     (let col_data = slice_of col_offset (col_offset + 8) data
      in \<lparr> cd_prop_id = read_u16 0 col_data, cd_prop_type = read_u16 2 col_data,
           cd_ib_data = read_u16 4 col_data, cd_cb_data = unat (col_data ! 6), cd_i_bit = unat (col_data ! 7) \<rparr>)"

definition parse_tc_info :: "bytes \<Rightarrow> PstError + TcInfo" where
  "parse_tc_info data =
     (if length data < 18 then Inl (PeDataTruncated 18 (length data))
      else
        let c_cols = unat (data ! 1)
        in Inr \<lparr> ti_c_cols = c_cols,
                 ti_rgib = [read_u16 2 data, read_u16 4 data, read_u16 6 data, read_u16 8 data],
                 ti_hid_row_index = read_u32 10 data, ti_hnid_rows = read_u32 14 data,
                 ti_columns = map (\<lambda>i. column_at data (18 + i * 8))
                   (takeWhile (\<lambda>i. 18 + i * 8 + 8 \<le> length data) [0..<c_cols]) \<rparr>)"

subsection \<open>Rows\<close>

text \<open>The identifiers of the rows; an unreadable index leaves them unknown.\<close>

definition enter_row_id :: "BthRecord \<Rightarrow> u32 list \<Rightarrow> u32 list" where
  "enter_row_id rec row_ids =
     (if length (br_key rec) < 4 then row_ids
      else
        let row_id = read_u32 0 (br_key rec); data = br_data rec
        in case (if 4 \<le> length data then Some (read_u32 0 data)
                 else if length data = 2 then Some (read_u16 0 data)
                 else if length data = 1 then Some (unat (data ! 0))
                 else None) of
             None \<Rightarrow> row_ids
           | Some row_index \<Rightarrow> if row_index < length row_ids then row_ids[row_index := row_id] else row_ids)"

definition load_row_ids :: "Heap \<Rightarrow> TcInfo \<Rightarrow> usize \<Rightarrow> u32 list" where
  "load_row_ids heap info row_count =
     (let row_ids = replicate row_count 0
      in if hid_is_null (ti_hid_row_index info) \<or> row_count = 0 then row_ids
         else case read_bth_header heap (ti_hid_row_index info) of
                Inl e \<Rightarrow> row_ids
              | Inr hdr \<Rightarrow>
                  (case collect_records heap hdr of
                     Inl e \<Rightarrow> row_ids
                   | Inr recs \<Rightarrow> fold enter_row_id recs row_ids))"

text \<open>
  The matrix of rows over the blocks of its data tree: no row spans two blocks, so all but the last
  block end in unused bytes.
\<close>

function unpack_rows :: "usize \<Rightarrow> usize \<Rightarrow> bytes \<Rightarrow> bytes" where
  "unpack_rows row_bytes row_size payload =
     (if payload = [] then []
      else if MAX_BLOCK_DATA < length payload
      then take row_bytes payload @ unpack_rows row_bytes row_size (drop MAX_BLOCK_DATA payload)
      else take (length payload div row_size * row_size) payload)"
  by pat_completeness auto

termination
  by (relation "measure (\<lambda>(row_bytes, row_size, payload). length payload)") (auto simp: MAX_BLOCK_DATA_def)

declare unpack_rows.simps [simp del]

definition extract_rows_per_block :: "bytes \<Rightarrow> usize \<Rightarrow> PstError + bytes \<times> usize" where
  "extract_rows_per_block payload row_size =
     (if row_size = 0 then Inl (PeResourceLimit (lit ''TC row width is 0; cannot unpack row matrix''))
      else
        let rows_per_block = MAX_BLOCK_DATA div row_size
        in if rows_per_block = 0
           then Inl (PeResourceLimit (lit ''TC row width '' @ show_nat row_size @
                  lit '' exceeds block payload '' @ show_nat MAX_BLOCK_DATA))
           else let out = unpack_rows (rows_per_block * row_size) row_size payload
                in Inr (out, length out div row_size))"

subsection \<open>Loading\<close>

text \<open>
  A resolver gives the data of a subnode of the table by its identifier. The resolver over the node
  database finds the entry and reads its chain.
\<close>

type_synonym resolver = "u32 \<Rightarrow> bytes rd"

definition resolve_subnode ::
  "(bytes \<Rightarrow> 32 word) \<Rightarrow> bytes \<Rightarrow> BbtIndex \<Rightarrow> u64 \<Rightarrow> CryptMethod \<Rightarrow> resolver" where
  "resolve_subnode crc file bbt bid_sub crypt nid =
     (if bid_is_null bid_sub then rd_fail (PeSubnodeNotFound nid)
      else rd_bind (find_subnode_entry crc file bbt bid_sub nid) (\<lambda>entry.
        case entry of
          None \<Rightarrow> rd_fail (PeSubnodeNotFound nid)
        | Some entry \<Rightarrow> read_block_data crc file bbt (se_bid_data entry) crypt))"

record TableContext =
  tc_heap :: Heap
  tc_info :: TcInfo
  tc_row_data :: bytes
  tc_row_size :: usize
  tc_row_count :: usize
  tc_row_ids :: "u32 list"
  tc_cell_subnodes :: "u32 \<rightharpoonup> bytes"

text \<open>The places that can hold an HNID: string and binary columns of width 4, row by row.\<close>

definition hnid_places :: "TcInfo \<Rightarrow> usize \<Rightarrow> usize \<Rightarrow> usize list" where
  "hnid_places info row_size row_count =
     concat (map (\<lambda>row_index. map (\<lambda>col. row_index * row_size + cd_ib_data col)
       (filter (\<lambda>col. cd_cb_data col = 4 \<and> cd_prop_type col \<in> {0x001F, 0x001E, 0x0102}) (ti_columns info)))
       [0..<row_count])"

definition collect_cell :: "resolver \<Rightarrow> bytes \<Rightarrow> usize \<Rightarrow> (u32 \<rightharpoonup> bytes) \<Rightarrow> (u32 \<rightharpoonup> bytes) rd" where
  "collect_cell resolver row_data data_offset out =
     (if length row_data < data_offset + 4 then rd_ret out
      else
        let hnid = read_u32 data_offset row_data
        in if hnid = 0 \<or> hid_type hnid = 0 \<or> out hnid \<noteq> None then rd_ret out
           else (\<lambda>s. case resolver hnid s of
                   (Inr bytes, s) \<Rightarrow> (Inr (out(hnid \<mapsto> bytes)), s)
                 | (Inl (PeSubnodeNotFound _), s) \<Rightarrow> (Inr out, s)
                 | (Inl e, s) \<Rightarrow> (Inl e, s)))"

definition collect_cell_subnodes ::
  "resolver \<Rightarrow> TcInfo \<Rightarrow> bytes \<Rightarrow> usize \<Rightarrow> usize \<Rightarrow> (u32 \<rightharpoonup> bytes) rd" where
  "collect_cell_subnodes resolver info row_data row_size row_count =
     (if row_size = 0 \<or> row_count = 0 then rd_ret Map.empty
      else rd_each (collect_cell resolver row_data) (hnid_places info row_size row_count) Map.empty)"

definition load_rows :: "resolver option \<Rightarrow> Heap \<Rightarrow> TcInfo \<Rightarrow> usize \<Rightarrow> (bytes \<times> usize) rd" where
  "load_rows resolver heap info row_size =
     (if ti_hnid_rows info = 0 then rd_ret ([], 0)
      else if hid_type (ti_hnid_rows info) = 0
      then rd_bind (rd_lift (heap_get heap (ti_hnid_rows info))) (\<lambda>inline_data.
             rd_ret (inline_data, if row_size = 0 then 0 else length inline_data div row_size))
      else case resolver of
             None \<Rightarrow> rd_fail (PeSubnodeNotFound (ti_hnid_rows info))
           | Some resolve \<Rightarrow> rd_bind (resolve (ti_hnid_rows info)) (\<lambda>payload.
               rd_lift (extract_rows_per_block payload row_size)))"

definition tc_load_inner :: "bytes \<Rightarrow> resolver option \<Rightarrow> TableContext rd" where
  "tc_load_inner data resolver =
     rd_bind (rd_lift (heap_parse data (node_block_size data))) (\<lambda>heap.
     rd_bind (rd_lift (heap_get heap (hh_hid_user_root (hp_header heap)))) (\<lambda>tc_data.
     rd_bind (rd_lift (parse_tc_info tc_data)) (\<lambda>info.
       let row_size = ti_rgib info ! 3
       in rd_bind (load_rows resolver heap info row_size) (\<lambda>(row_data, row_count).
          rd_bind (case resolver of
                     None \<Rightarrow> rd_ret Map.empty
                   | Some resolve \<Rightarrow> collect_cell_subnodes resolve info row_data row_size row_count) (\<lambda>cell_subnodes.
            rd_ret \<lparr> tc_heap = heap, tc_info = info, tc_row_data = row_data, tc_row_size = row_size,
              tc_row_count = row_count, tc_row_ids = load_row_ids heap info row_count,
              tc_cell_subnodes = cell_subnodes \<rparr>)))))"

definition tc_load :: "bytes \<Rightarrow> TableContext rd" where
  "tc_load data = tc_load_inner data None"

definition load_from_table_bids ::
  "(bytes \<Rightarrow> 32 word) \<Rightarrow> bytes \<Rightarrow> BbtIndex \<Rightarrow> bytes \<Rightarrow> u64 \<Rightarrow> CryptMethod \<Rightarrow> TableContext rd" where
  "load_from_table_bids crc file bbt data bid_sub crypt =
     tc_load_inner data (Some (resolve_subnode crc file bbt bid_sub crypt))"

definition load_tc ::
  "(bytes \<Rightarrow> 32 word) \<Rightarrow> bytes \<Rightarrow> NbtIndex \<Rightarrow> BbtIndex \<Rightarrow> u64 \<Rightarrow> CryptMethod \<Rightarrow> TableContext rd" where
  "load_tc crc file nbt bbt nid crypt =
     (case nbt nid of
        None \<Rightarrow> rd_fail (PeNodeNotFound nid)
      | Some nbt_entry \<Rightarrow>
          rd_bind (read_block_data crc file bbt (nb_bid_data nbt_entry) crypt) (\<lambda>data.
            load_from_table_bids crc file bbt data (nb_bid_sub nbt_entry) crypt))"

subsection \<open>Cells\<close>

definition find_column :: "TableContext \<Rightarrow> nat \<Rightarrow> TcColumnDesc option" where
  "find_column t prop_id = find (\<lambda>c. cd_prop_id c = prop_id) (ti_columns (tc_info t))"

definition get_row_id :: "TableContext \<Rightarrow> usize \<Rightarrow> u32 option" where
  "get_row_id t row_index =
     (if length (tc_row_ids t) \<le> row_index then None
      else let row_id = tc_row_ids t ! row_index in if row_id = 0 then None else Some row_id)"

definition get_row_u32 :: "TableContext \<Rightarrow> usize \<Rightarrow> nat \<Rightarrow> u32 option" where
  "get_row_u32 t row_index prop_id =
     (case find_column t prop_id of
        None \<Rightarrow> None
      | Some col \<Rightarrow>
          let data_offset = row_index * tc_row_size t + cd_ib_data col;
              data_end = data_offset + cd_cb_data col
          in if length (tc_row_data t) < data_end then None
             else if cd_cb_data col = 4 then Some (read_u32 data_offset (tc_row_data t))
             else if cd_cb_data col = 2 then Some (read_u16 data_offset (tc_row_data t))
             else if cd_cb_data col = 1 then Some (unat (tc_row_data t ! data_offset))
             else None)"

definition get_row_u64 :: "TableContext \<Rightarrow> usize \<Rightarrow> nat \<Rightarrow> u64 option" where
  "get_row_u64 t row_index prop_id =
     (case find_column t prop_id of
        None \<Rightarrow> None
      | Some col \<Rightarrow>
          let data_offset = row_index * tc_row_size t + cd_ib_data col
          in if cd_cb_data col \<noteq> 8 \<or> length (tc_row_data t) < data_offset + 8 then None
             else Some (read_u64 data_offset (tc_row_data t)))"

definition get_row_string :: "TableContext \<Rightarrow> usize \<Rightarrow> nat \<Rightarrow> PstError + str option" where
  "get_row_string t row_index prop_id =
     (case find_column t prop_id of
        None \<Rightarrow> Inr None
      | Some col \<Rightarrow>
          if cd_prop_type col \<noteq> 0x001F then Inr None
          else
            let data_offset = row_index * tc_row_size t + cd_ib_data col
            in if cd_cb_data col = 4 \<and> data_offset + 4 \<le> length (tc_row_data t)
               then
                 let hnid = read_u32 data_offset (tc_row_data t)
                 in if hnid = 0 then Inr (Some [])
                    else try_then (if hid_type hnid = 0 then heap_get (tc_heap t) hnid
                                   else case tc_cell_subnodes t hnid of
                                          Some b \<Rightarrow> Inr b
                                        | None \<Rightarrow> Inl (PeSubnodeNotFound hnid)) (\<lambda>bytes.
                         try_then (pc_decode bytes) (\<lambda>s. Inr (Some s)))
               else Inr None)"

end
