(* ===== verification/Table_Writer.thy ===== *)
theory Table_Writer
  imports Table_Reader Subnode_Store Recipient
begin

unbundle bit_operations_syntax

text \<open>
  The table contexts the writer builds (\<^verbatim>\<open>pst-writer/src/production.rs\<close>): the column schemas of
  the fixed tables, the attachment table and the recipient table of a message. The cells go to a
  heap of many pages or, when long, to subnodes; the rows go to a subnode of their own.
\<close>

subsection \<open>Columns\<close>

type_synonym TcColumnTuple = "nat \<times> nat \<times> nat \<times> nat \<times> nat"

datatype TcColType = TctI32 | TctI64 | TctBool | TctTime | TctStringRef | TctBinaryRef | TctMultiI32Ref

fun tct_width :: "TcColType \<Rightarrow> nat" where
  "tct_width TctI64 = 8"
| "tct_width TctTime = 8"
| "tct_width TctI32 = 4"
| "tct_width TctStringRef = 4"
| "tct_width TctBinaryRef = 4"
| "tct_width TctMultiI32Ref = 4"
| "tct_width TctBool = 1"

fun tct_prop_type :: "TcColType \<Rightarrow> nat" where
  "tct_prop_type TctI32 = 0x0003"
| "tct_prop_type TctI64 = 0x0014"
| "tct_prop_type TctBool = 0x000B"
| "tct_prop_type TctTime = 0x0040"
| "tct_prop_type TctStringRef = 0x001F"
| "tct_prop_type TctBinaryRef = 0x0102"
| "tct_prop_type TctMultiI32Ref = 0x1003"

fun place_columns :: "nat \<Rightarrow> nat \<Rightarrow> (nat \<times> TcColType) list \<Rightarrow> TcColumnTuple list \<times> nat" where
  "place_columns idx offset [] = ([], offset)"
| "place_columns idx offset ((tag, ty) # specs) =
     (let (columns, stop) = place_columns (idx + 1) (offset + tct_width ty) specs
      in ((tag, tct_prop_type ty, offset, tct_width ty, idx) # columns, stop))"

definition build_template_tc_columns :: "(nat \<times> TcColType) list \<Rightarrow> TcColumnTuple list \<times> nat" where
  "build_template_tc_columns specs =
     (let group8 = filter (\<lambda>(tag, ty). tct_width ty = 8) specs;
          group4 = filter (\<lambda>(tag, ty). tct_width ty = 4) specs;
          group1 = filter (\<lambda>(tag, ty). tct_width ty \<noteq> 8 \<and> tct_width ty \<noteq> 4) specs;
          (columns, offset) = place_columns 0 0 (group8 @ group4 @ group1);
          bitmap_bytes = (length specs + 7) div 8
      in (columns, offset + bitmap_bytes))"

definition HIERARCHY_TABLE_TEMPLATE_COLUMNS :: "(nat \<times> TcColType) list" where
  "HIERARCHY_TABLE_TEMPLATE_COLUMNS =
     [(0x0E30, TctI32), (0x0E33, TctI64), (0x0E34, TctBinaryRef), (0x0E38, TctI32), (0x3001, TctStringRef),
      (0x3602, TctI32), (0x3603, TctI32), (0x360A, TctBool), (0x3613, TctBinaryRef), (0x6635, TctI32),
      (0x6636, TctI32), (0x67F2, TctI32), (0x67F3, TctI32)]"

definition CONTENTS_TABLE_TEMPLATE_COLUMNS :: "(nat \<times> TcColType) list" where
  "CONTENTS_TABLE_TEMPLATE_COLUMNS =
     [(0x0017, TctI32), (0x001A, TctStringRef), (0x0036, TctI32), (0x0037, TctStringRef), (0x0039, TctTime),
      (0x0042, TctStringRef), (0x0057, TctBool), (0x0058, TctBool), (0x0070, TctStringRef),
      (0x0071, TctBinaryRef), (0x0E03, TctStringRef), (0x0E04, TctStringRef), (0x0E06, TctTime),
      (0x0E07, TctI32), (0x0E08, TctI32), (0x0E17, TctI32), (0x0E30, TctI32), (0x0E33, TctI64),
      (0x0E34, TctBinaryRef), (0x0E38, TctI32), (0x0E3C, TctBinaryRef), (0x0E3D, TctBinaryRef),
      (0x1097, TctI32), (0x3008, TctTime), (0x65C6, TctI32), (0x67F2, TctI32), (0x67F3, TctI32)]"

definition ASSOC_CONTENTS_TABLE_TEMPLATE_COLUMNS :: "(nat \<times> TcColType) list" where
  "ASSOC_CONTENTS_TABLE_TEMPLATE_COLUMNS =
     [(0x001A, TctStringRef), (0x0E07, TctI32), (0x0E17, TctI32), (0x3001, TctStringRef), (0x67F2, TctI32),
      (0x67F3, TctI32), (0x6800, TctStringRef), (0x6803, TctBool), (0x6805, TctMultiI32Ref),
      (0x7003, TctI32), (0x7004, TctBinaryRef), (0x7005, TctBinaryRef), (0x7006, TctStringRef),
      (0x7007, TctI32)]"

definition SEARCH_CONTENTS_TABLE_TEMPLATE_COLUMNS :: "(nat \<times> TcColType) list" where
  "SEARCH_CONTENTS_TABLE_TEMPLATE_COLUMNS =
     [(0x0017, TctI32), (0x001A, TctStringRef), (0x0036, TctI32), (0x0E07, TctI32), (0x0E17, TctI32),
      (0x0037, TctStringRef), (0x0042, TctStringRef), (0x0057, TctBool), (0x0E03, TctStringRef),
      (0x0E04, TctStringRef), (0x0E05, TctStringRef), (0x0E06, TctTime), (0x0E08, TctI32),
      (0x0E2A, TctBool), (0x3008, TctTime), (0x67F1, TctI32), (0x67F2, TctI32), (0x67F3, TctI32)]"

definition ATTACHMENT_TABLE_COLUMNS :: "(nat \<times> TcColType) list" where
  "ATTACHMENT_TABLE_COLUMNS =
     [(0x0E20, TctI32), (0x3704, TctStringRef), (0x3705, TctI32), (0x370B, TctI32), (0x67F2, TctI32),
      (0x67F3, TctI32)]"

definition RECIPIENT_TABLE_COLUMNS :: "(nat \<times> TcColType) list" where
  "RECIPIENT_TABLE_COLUMNS =
     [(0x0C15, TctI32), (0x0E0F, TctBool), (0x0FF9, TctBinaryRef), (0x0FFE, TctI32), (0x0FFF, TctBinaryRef),
      (0x3001, TctStringRef), (0x3002, TctStringRef), (0x3003, TctStringRef), (0x300B, TctBinaryRef),
      (0x3900, TctI32), (0x39FE, TctStringRef), (0x39FF, TctStringRef), (0x3A40, TctBool),
      (0x67F2, TctI32), (0x67F3, TctI32)]"

text \<open>
  The schema of a table (TCINFO): its two references are patched once the index and the rows are
  placed.
\<close>

definition column_bytes :: "TcColumnTuple \<Rightarrow> bytes" where
  "column_bytes c = (case c of (prop_id, prop_type, ib, cb, i_bit) \<Rightarrow>
     le_bytes 2 prop_id @ le_bytes 2 prop_type @ le_bytes 2 ib @ [word_of_nat cb, word_of_nat i_bit])"

definition tcinfo_bytes :: "TcColumnTuple list \<Rightarrow> nat \<Rightarrow> bytes" where
  "tcinfo_bytes columns total_row_width =
     [0x7C, word_of_nat (length columns)] @ le_bytes 2 0 @ le_bytes 2 0 @ le_bytes 2 0 @
     le_bytes 2 total_row_width @ le_bytes 4 0 @ le_bytes 4 0 @ concat (map column_bytes columns)"

text \<open>A table whose rows lie on the heap of its schema, as the templates and empty tables have it.\<close>

definition build_tc_inline_checked_sized ::
  "HeapBuilder \<Rightarrow> TcColumnTuple list \<Rightarrow> bytes list \<Rightarrow> nat \<Rightarrow> WriterError + Hid \<times> HeapBuilder" where
  "build_tc_inline_checked_sized heap columns rows total_row_width =
     try_then (heap_try_alloc heap (tcinfo_bytes columns total_row_width)) (\<lambda>(hid_tcinfo, heap).
     try_then (heap_try_alloc heap (concat rows)) (\<lambda>(hid_rows, heap).
     try_then (heap_patch_u32 heap hid_tcinfo 14 hid_rows) (\<lambda>heap. Inr (hid_tcinfo, heap))))"

definition build_tc_inline_checked ::
  "HeapBuilder \<Rightarrow> TcColumnTuple list \<Rightarrow> bytes list \<Rightarrow> WriterError + Hid \<times> HeapBuilder" where
  "build_tc_inline_checked heap columns rows =
     build_tc_inline_checked_sized heap columns rows
       (case rows of [] \<Rightarrow> 0 | r # _ \<Rightarrow> length r mod 65536)"

subsection \<open>The state of a table under construction\<close>

record TableBuild =
  tb_heap :: PagedHeapBuilder
  tb_sub_counter :: u32
  tb_subs :: "(u64 \<times> u64 \<times> u64) list"
  tb_extra :: u64

definition table_start :: TableBuild where
  "table_start = \<lparr> tb_heap = paged_new 0xBC, tb_sub_counter = 0, tb_subs = [], tb_extra = 0 \<rparr>"

definition lay_lift :: "WriterError + 'a \<Rightarrow> 'a lay" where
  "lay_lift r lay = Some (r, lay)"

text \<open>The low five bits tell a subnode from a heap allocation.\<close>

definition next_subnode_nid :: "u32 \<Rightarrow> u64 \<times> u32" where
  "next_subnode_nid counter = ((counter + 1) * 32 OR 0x1F, counter + 1)"

definition MAX_HEAP_VALUE_SIZE :: usize where
  "MAX_HEAP_VALUE_SIZE = 2048"

definition alloc_tc_value :: "(bytes \<Rightarrow> 32 word) \<Rightarrow> bytes \<Rightarrow> TableBuild \<Rightarrow> (u32 \<times> TableBuild) lay" where
  "alloc_tc_value crc bytes tb =
     (if MAX_HEAP_VALUE_SIZE < length bytes
      then
        let (nid, counter) = next_subnode_nid (tb_sub_counter tb)
        in lay_bind (write_data_chain crc bytes) (\<lambda>bid.
             lay_ret (nid mod 2 ^ 32, tb \<lparr> tb_sub_counter := counter, tb_subs := tb_subs tb @ [(nid, bid, 0)],
               tb_extra := saturating_add64 (tb_extra tb) (length bytes) \<rparr>))
      else lay_bind (lay_lift (paged_try_alloc (tb_heap tb) bytes)) (\<lambda>(hid, heap).
             lay_ret (hid, tb \<lparr> tb_heap := heap \<rparr>)))"

text \<open>The bit of a column in the map at the end of a row.\<close>

definition mark_present :: "nat \<Rightarrow> nat \<Rightarrow> bytes \<Rightarrow> bytes" where
  "mark_present bitmap_start i_bit row =
     row[bitmap_start + i_bit div 8 := row ! (bitmap_start + i_bit div 8) OR push_bit (i_bit mod 8) 1]"

record TableBuilt =
  tt_heap :: bytes
  tt_bid_sub :: u64
  tt_extra_content_bytes :: u64

text \<open>
  The end both tables share: the schema with its reference to the index, the matrix as a subnode of
  the table, and the leaf that lists the subnodes.
\<close>

definition finish_table ::
  "(bytes \<Rightarrow> 32 word) \<Rightarrow> TcColumnTuple list \<Rightarrow> nat \<Rightarrow> Hid \<Rightarrow> bytes \<Rightarrow> TableBuild \<Rightarrow> TableBuilt lay" where
  "finish_table crc columns total_row_width hid_row_index row_matrix tb =
     lay_bind (lay_lift (paged_try_alloc (tb_heap tb) (tcinfo_bytes columns total_row_width))) (\<lambda>(hid_tcinfo, heap).
     lay_bind (lay_lift (paged_patch_u32 heap hid_tcinfo 10 hid_row_index)) (\<lambda>heap.
     lay_bind (write_row_matrix_tree crc row_matrix total_row_width) (\<lambda>(matrix_bid, matrix_bytes).
       let extra = saturating_add64 (tb_extra tb) matrix_bytes;
           (matrix_nid, counter) = next_subnode_nid (tb_sub_counter tb)
       in lay_bind (lay_lift (paged_patch_u32 heap hid_tcinfo 14 (matrix_nid mod 2 ^ 32))) (\<lambda>heap.
          lay_bind (add_subnode_leaf (tb_subs tb @ [(matrix_nid, matrix_bid, 0)])) (\<lambda>table_bid_sub.
            lay_ret \<lparr> tt_heap = paged_finalize heap hid_tcinfo, tt_bid_sub = table_bid_sub,
              tt_extra_content_bytes = extra \<rparr>)))))"

subsection \<open>The attachment table\<close>

text \<open>A row: the subnode of the attachment, its size, its method and its file name.\<close>

type_synonym attachment_row = "u64 \<times> u32 \<times> int \<times> str"

definition attachment_cell :: "nat \<Rightarrow> attachment_row \<Rightarrow> u32 \<Rightarrow> nat \<Rightarrow> WriterError + bytes" where
  "attachment_cell i row fname_hid prop_id =
     (case row of (attach_nid, sz, meth, filename) \<Rightarrow>
        if prop_id = 0x0E20 then Inr (le_bytes 4 sz)
        else if prop_id = 0x3704 then Inr (le_bytes 4 fname_hid)
        else if prop_id = 0x3705 then Inr (le_bytes 4 (to_unsigned 32 meth))
        else if prop_id = 0x370B then Inr (le_bytes 4 0xFFFFFFFF)
        else if prop_id = 0x67F2 then Inr (le_bytes 4 (attach_nid mod 2 ^ 32))
        else if prop_id = 0x67F3 then Inr (le_bytes 4 (i mod 2 ^ 32 + 1))
        else Inl (WeLayout (lit ''build_attachment_table_strategy_a: unexpected column prop 0x'' @ show_hex prop_id)))"

definition put_attachment_column ::
  "nat \<Rightarrow> attachment_row \<Rightarrow> u32 \<Rightarrow> nat \<Rightarrow> TcColumnTuple \<Rightarrow> bytes \<Rightarrow> WriterError + bytes" where
  "put_attachment_column i row fname_hid row_width col out =
     (case col of (prop_id, _, ib, cb, _) \<Rightarrow>
        try_then (attachment_cell i row fname_hid prop_id) (\<lambda>bytes.
          if row_width < ib + cb \<or> 4 < cb
          then Inl (WeLayout (lit ''build_attachment_table_strategy_a: column 0x'' @ show_hex prop_id @
                 lit '' out of row bounds (ib='' @ show_nat ib @ lit '' cb='' @ show_nat cb @
                 lit '' row_width='' @ show_nat row_width @ lit '')''))
          else Inr (overwrite ib (take cb bytes) out)))"

definition attachment_row_bytes ::
  "TcColumnTuple list \<Rightarrow> nat \<Rightarrow> nat \<Rightarrow> attachment_row \<Rightarrow> u32 \<Rightarrow> WriterError + bytes" where
  "attachment_row_bytes columns row_width i row fname_hid =
     try_then (try_fold (put_attachment_column i row fname_hid row_width) columns (replicate row_width 0)) (\<lambda>out.
       let bitmap_start = row_width - (length columns + 7) div 8
       in Inr (fold (\<lambda>(_, _, _, _, i_bit). mark_present bitmap_start i_bit) columns out))"

type_synonym built_rows = "TableBuild \<times> bytes \<times> (u32 \<times> bytes) list"

definition add_attachment_row ::
  "(bytes \<Rightarrow> 32 word) \<Rightarrow> TcColumnTuple list \<Rightarrow> nat \<Rightarrow> nat \<times> attachment_row \<Rightarrow> built_rows \<Rightarrow> built_rows lay" where
  "add_attachment_row crc columns row_width indexed acc =
     (case (indexed, acc) of ((i, row), (tb, row_matrix, row_index_records)) \<Rightarrow>
        case row of (attach_nid, sz, meth, filename) \<Rightarrow>
        lay_bind (alloc_tc_value crc (utf16le_bytes filename) tb) (\<lambda>(fname_hid, tb).
        lay_bind (lay_lift (attachment_row_bytes columns row_width i row fname_hid)) (\<lambda>bytes.
          lay_ret (tb, row_matrix @ bytes,
            row_index_records @ [(attach_nid mod 2 ^ 32, le_bytes 4 (i mod 2 ^ 32))]))))"

definition build_attachment_table_strategy_a ::
  "(bytes \<Rightarrow> 32 word) \<Rightarrow> attachment_row list \<Rightarrow> TableBuilt lay" where
  "build_attachment_table_strategy_a crc rows =
     (if rows = []
      then lay_fail (WeLayout (lit ''build_attachment_table_strategy_a called with zero rows; '' @
             lit ''omit NID_ATTACHMENT_TABLE instead''))
      else
        let (columns, total_row_width) = build_template_tc_columns ATTACHMENT_TABLE_COLUMNS
        in if total_row_width = 0
           then lay_fail (WeLayout (lit ''attachment TC row_width is 0; cannot pack row matrix''))
           else
             lay_bind (lay_each (add_attachment_row crc columns total_row_width) (enumerate 0 rows)
               (table_start, [], [])) (\<lambda>(tb, row_matrix, row_index_records).
             lay_bind (lay_lift (build_bth_u32_checked paged_try_alloc paged_patch_u32 (tb_heap tb) 4 4
               row_index_records)) (\<lambda>(hid_row_index, heap).
               finish_table crc columns total_row_width hid_row_index row_matrix (tb \<lparr> tb_heap := heap \<rparr>))))"

subsection \<open>The recipient table\<close>

datatype WriteRecipientType = WrTo | WrCc | WrBcc | WrOther u32

fun wrt_from_mapi :: "u32 \<Rightarrow> WriteRecipientType" where
  "wrt_from_mapi v =
     (if v = 1 then WrTo else if v = 2 then WrCc else if v = 3 then WrBcc else WrOther v)"

fun wrt_to_mapi :: "WriteRecipientType \<Rightarrow> u32" where
  "wrt_to_mapi WrTo = 1"
| "wrt_to_mapi WrCc = 2"
| "wrt_to_mapi WrBcc = 3"
| "wrt_to_mapi (WrOther v) = v"

record WriteRecipient =
  wr_recipient_type :: WriteRecipientType
  wr_display_name :: "str option"
  wr_address_type :: "str option"
  wr_email_address :: "str option"
  wr_smtp_address :: "str option"

text \<open>The text of a field, trimmed; \<^verbatim>\<open>trim\<close> then \<^verbatim>\<open>filter\<close> as at every use in the writer.\<close>

definition wr_nonempty :: "str option \<Rightarrow> str option" where
  "wr_nonempty s = (case s of None \<Rightarrow> None | Some t \<Rightarrow> if trim t = [] then None else Some (trim t))"

definition resolve_recipient_address_type :: "WriteRecipient \<Rightarrow> str" where
  "resolve_recipient_address_type recip =
     (case wr_nonempty (wr_address_type recip) of
        Some t \<Rightarrow> t
      | None \<Rightarrow>
          if wr_nonempty (wr_smtp_address recip) \<noteq> None then lit ''SMTP''
          else case wr_nonempty (wr_email_address recip) of
                 None \<Rightarrow> []
               | Some email \<Rightarrow>
                   if str_contains (to_ascii_uppercase email) (lit ''/O='') then lit ''EX''
                   else if 64 \<in> set email then lit ''SMTP''
                   else [])"

definition synthesize_recipient_record_key ::
  "(bytes \<Rightarrow> 32 word) \<Rightarrow> u32 \<Rightarrow> str \<Rightarrow> str \<Rightarrow> str \<Rightarrow> bytes" where
  "synthesize_recipient_record_key crc row_id email display addr_type =
     (let seed = le_bytes 4 row_id @ utf8 addr_type @ [0] @ utf8 email @ [0] @ utf8 display
      in concat (map (\<lambda>salt. le_bytes 4 (unat (crc (le_bytes 4 salt @ seed))))
           [0x0C150001, 0x0C150002, 0x0C150003, 0x0C150004]))"

definition synthesize_recipient_search_key :: "str \<Rightarrow> str \<Rightarrow> str option \<Rightarrow> bytes" where
  "synthesize_recipient_search_key addr_type email smtp =
     (let ty = (if addr_type = [] then lit ''UNKNOWN'' else addr_type);
          addr = (case smtp of Some s \<Rightarrow> s | None \<Rightarrow> email)
      in utf8 (to_ascii_uppercase ty @ lit '':'' @ to_ascii_uppercase addr))"

definition build_folder_entry_id :: "u64 \<Rightarrow> bytes \<Rightarrow> bytes" where
  "build_folder_entry_id folder_nid provider_uid =
     le_bytes 4 0 @ provider_uid @ le_bytes 4 (folder_nid mod 2 ^ 32)"

definition copy_col_bytes :: "bytes \<Rightarrow> nat \<Rightarrow> nat \<Rightarrow> bytes \<Rightarrow> WriterError + bytes" where
  "copy_col_bytes row ib cb bytes =
     (if length row < ib + cb \<or> length bytes < cb
      then Inl (WeLayout (lit ''recipient TC column out of bounds (ib='' @ show_nat ib @ lit '' cb='' @
             show_nat cb @ lit '' row_len='' @ show_nat (length row) @ lit '' val_len='' @
             show_nat (length bytes) @ lit '')''))
      else Inr (overwrite ib (take cb bytes) row))"

text \<open>The references of a row to its cells, in the order they are allocated.\<close>

record RecipientHids =
  rh_display :: u32
  rh_addr_type :: u32
  rh_email :: u32
  rh_seven :: u32
  rh_record_key :: u32
  rh_entry_id :: u32
  rh_search_key :: u32
  rh_smtp :: "u32 option"

definition put_recipient_column ::
  "nat \<Rightarrow> u32 \<Rightarrow> WriteRecipient \<Rightarrow> RecipientHids \<Rightarrow> nat \<times> TcColumnTuple \<Rightarrow> bytes \<times> bool list \<Rightarrow>
   WriterError + bytes \<times> bool list" where
  "put_recipient_column i row_id recip hids indexed acc =
     (case (indexed, acc) of ((col_idx, prop_id, _, ib, cb, _), (row, present_bits)) \<Rightarrow>
        let copy = (\<lambda>v. try_then (copy_col_bytes row ib cb (le_bytes 4 v)) (\<lambda>row. Inr (row, present_bits)))
        in if prop_id = 0x0C15 then copy (wrt_to_mapi (wr_recipient_type recip))
           else if prop_id = 0x0E0F
           then (if cb < 1 then Inl (WeLayout (lit ''build_recipient_table_tc: Responsibility column width 0''))
                 else Inr (row[ib := 1], present_bits))
           else if prop_id = 0x0FF9 then copy (rh_record_key hids)
           else if prop_id = 0x0FFE then copy 6
           else if prop_id = 0x0FFF then copy (rh_entry_id hids)
           else if prop_id = 0x3001 then copy (rh_display hids)
           else if prop_id = 0x3002 then copy (rh_addr_type hids)
           else if prop_id = 0x3003 then copy (rh_email hids)
           else if prop_id = 0x300B then copy (rh_search_key hids)
           else if prop_id = 0x3900 then copy 0
           else if prop_id = 0x39FE
           then (case rh_smtp hids of
                   Some hid \<Rightarrow> copy hid
                 | None \<Rightarrow> Inr (row, present_bits[col_idx := False]))
           else if prop_id = 0x39FF then copy (rh_seven hids)
           else if prop_id = 0x3A40
           then (if cb < 1 then Inl (WeLayout (lit ''build_recipient_table_tc: SendRichInfo column width 0''))
                 else Inr (row[ib := 0], present_bits))
           else if prop_id = 0x67F2 then copy row_id
           else if prop_id = 0x67F3 then copy (min (i mod 2 ^ 32 + 1) (2 ^ 32 - 1))
           else Inl (WeLayout (lit ''build_recipient_table_tc: unexpected column prop 0x'' @ show_hex prop_id)))"

definition recipient_row_bytes ::
  "TcColumnTuple list \<Rightarrow> nat \<Rightarrow> nat \<Rightarrow> u32 \<Rightarrow> WriteRecipient \<Rightarrow> RecipientHids \<Rightarrow> WriterError + bytes" where
  "recipient_row_bytes columns row_width i row_id recip hids =
     try_then (try_fold (put_recipient_column i row_id recip hids) (enumerate 0 columns)
       (replicate row_width 0, replicate (length columns) True)) (\<lambda>(row, present_bits).
       let bitmap_start = row_width - (length columns + 7) div 8
       in Inr (fold (\<lambda>(col_idx, _, _, _, _, i_bit) row.
            if present_bits ! col_idx then mark_present bitmap_start i_bit row else row) (enumerate 0 columns) row))"

definition alloc_recipient_cells ::
  "(bytes \<Rightarrow> 32 word) \<Rightarrow> u32 \<Rightarrow> WriteRecipient \<Rightarrow> TableBuild \<Rightarrow> (RecipientHids \<times> TableBuild) lay" where
  "alloc_recipient_cells crc row_id recip tb =
     (let display = (case wr_nonempty (wr_display_name recip) of None \<Rightarrow> [] | Some s \<Rightarrow> s);
          email = (case wr_nonempty (wr_email_address recip) of None \<Rightarrow> [] | Some s \<Rightarrow> s);
          addr_type = resolve_recipient_address_type recip;
          smtp = wr_nonempty (wr_smtp_address recip);
          seven_bit = (if display \<noteq> [] then display else if email \<noteq> [] then email
                       else case smtp of None \<Rightarrow> [] | Some s \<Rightarrow> s);
          record_key = synthesize_recipient_record_key crc row_id email display addr_type;
          entry_id = build_folder_entry_id row_id record_key;
          search_key = synthesize_recipient_search_key addr_type email smtp
      in lay_bind (alloc_tc_value crc (utf16le_bytes display) tb) (\<lambda>(display_hid, tb).
         lay_bind (alloc_tc_value crc (utf16le_bytes addr_type) tb) (\<lambda>(addr_type_hid, tb).
         lay_bind (alloc_tc_value crc (utf16le_bytes email) tb) (\<lambda>(email_hid, tb).
         lay_bind (alloc_tc_value crc (utf16le_bytes seven_bit) tb) (\<lambda>(seven_hid, tb).
         lay_bind (alloc_tc_value crc record_key tb) (\<lambda>(record_key_hid, tb).
         lay_bind (alloc_tc_value crc entry_id tb) (\<lambda>(entry_id_hid, tb).
         lay_bind (alloc_tc_value crc search_key tb) (\<lambda>(search_key_hid, tb).
         lay_bind (case smtp of
                     Some s \<Rightarrow> lay_bind (alloc_tc_value crc (utf16le_bytes s) tb) (\<lambda>(hid, tb). lay_ret (Some hid, tb))
                   | None \<Rightarrow> lay_ret (None, tb)) (\<lambda>(smtp_hid, tb).
           lay_ret (\<lparr> rh_display = display_hid, rh_addr_type = addr_type_hid, rh_email = email_hid,
             rh_seven = seven_hid, rh_record_key = record_key_hid, rh_entry_id = entry_id_hid,
             rh_search_key = search_key_hid, rh_smtp = smtp_hid \<rparr>, tb))))))))))"

definition add_recipient_row ::
  "(bytes \<Rightarrow> 32 word) \<Rightarrow> TcColumnTuple list \<Rightarrow> nat \<Rightarrow> nat \<times> WriteRecipient \<Rightarrow> built_rows \<Rightarrow> built_rows lay" where
  "add_recipient_row crc columns row_width indexed acc =
     (case (indexed, acc) of ((i, recip), (tb, row_matrix, row_index_records)) \<Rightarrow>
        let row_id = min (i mod 2 ^ 32 + 1) (2 ^ 32 - 1)
        in lay_bind (alloc_recipient_cells crc row_id recip tb) (\<lambda>(hids, tb).
           lay_bind (lay_lift (recipient_row_bytes columns row_width i row_id recip hids)) (\<lambda>bytes.
             lay_ret (tb, row_matrix @ bytes, row_index_records @ [(row_id, le_bytes 4 (i mod 2 ^ 32))]))))"

text \<open>A message without recipients has an empty table: no index, no rows, no subnodes.\<close>

definition empty_table :: "TcColumnTuple list \<Rightarrow> nat \<Rightarrow> PagedHeapBuilder \<Rightarrow> WriterError + TableBuilt" where
  "empty_table columns total_row_width heap =
     try_then (paged_try_alloc heap (tcinfo_bytes columns total_row_width)) (\<lambda>(hid_tcinfo, heap).
     try_then (paged_patch_u32 heap hid_tcinfo 10 0) (\<lambda>heap.
     try_then (paged_patch_u32 heap hid_tcinfo 14 0) (\<lambda>heap.
       Inr \<lparr> tt_heap = paged_finalize heap hid_tcinfo, tt_bid_sub = 0, tt_extra_content_bytes = 0 \<rparr>)))"

definition build_recipient_table_strategy_a ::
  "(bytes \<Rightarrow> 32 word) \<Rightarrow> WriteRecipient list \<Rightarrow> TableBuilt lay" where
  "build_recipient_table_strategy_a crc rows =
     (let (columns, total_row_width) = build_template_tc_columns RECIPIENT_TABLE_COLUMNS
      in if total_row_width = 0
         then lay_fail (WeLayout (lit ''recipient TC row_width is 0; cannot pack row matrix''))
         else
           lay_bind (lay_each (add_recipient_row crc columns total_row_width) (enumerate 0 rows)
             (table_start, [], [])) (\<lambda>(tb, row_matrix, row_index_records).
           if rows = [] then lay_lift (empty_table columns total_row_width (tb_heap tb))
           else lay_bind (lay_lift (build_bth_u32_checked paged_try_alloc paged_patch_u32 (tb_heap tb) 4 4
                  row_index_records)) (\<lambda>(hid_row_index, heap).
                finish_table crc columns total_row_width hid_row_index row_matrix (tb \<lparr> tb_heap := heap \<rparr>))))"

end
