(* ===== verification/Row_Matrix.thy ===== *)
theory Row_Matrix
  imports Table_Writer
begin

text \<open>
  The row matrix of a table: the writer packs whole rows into blocks and fills all but the last, the
  reader drops the fill again. What is stored is a chain like any other.
\<close>

definition padded_matrix :: "bytes \<Rightarrow> usize \<Rightarrow> bytes list" where
  "padded_matrix m w =
     (let payloads = chunks (MAX_BLOCK_DATA div w * w) m
      in map (\<lambda>p. resize MAX_BLOCK_DATA 0 p) (butlast payloads) @ [last payloads])"

lemma rows_per_block:
  assumes "0 < w" and "w \<le> MAX_BLOCK_DATA"
  shows "0 < MAX_BLOCK_DATA div w" and "MAX_BLOCK_DATA div w * w \<le> MAX_BLOCK_DATA"
    and "0 < MAX_BLOCK_DATA div w * w" and "MAX_BLOCK_DATA \<le> 2 * (MAX_BLOCK_DATA div w * w)"
proof -
  show pos: "0 < MAX_BLOCK_DATA div w" using assms by (simp add: div_greater_zero_iff)
  then show "0 < MAX_BLOCK_DATA div w * w" using assms(1) by simp
  show "MAX_BLOCK_DATA div w * w \<le> MAX_BLOCK_DATA" by (rule div_times_less_eq_dividend)
  have "MAX_BLOCK_DATA = MAX_BLOCK_DATA div w * w + MAX_BLOCK_DATA mod w" by simp
  moreover have "MAX_BLOCK_DATA mod w < w" "w \<le> MAX_BLOCK_DATA div w * w" using assms(1) pos by simp_all
  ultimately show "MAX_BLOCK_DATA \<le> 2 * (MAX_BLOCK_DATA div w * w)" by linarith
qed

lemma drop_shorter: "0 < n \<Longrightarrow> \<not> length m \<le> n \<Longrightarrow> drop n m \<noteq> [] \<and> length (drop n m) < length m"
  by auto

lemma chunks_eq_Nil: "0 < n \<Longrightarrow> chunks n xs = [] \<longleftrightarrow> xs = []"
  by (subst chunks.simps) simp

lemma padded_matrix_small:
  "m \<noteq> [] \<Longrightarrow> 0 < w \<Longrightarrow> w \<le> MAX_BLOCK_DATA \<Longrightarrow> length m \<le> MAX_BLOCK_DATA div w * w \<Longrightarrow> padded_matrix m w = [m]"
  using rows_per_block [of w] by (simp add: padded_matrix_def Let_def chunks_step)

lemma padded_matrix_large:
  assumes "0 < w" and "w \<le> MAX_BLOCK_DATA" and "MAX_BLOCK_DATA div w * w < length m"
  shows "padded_matrix m w =
    resize MAX_BLOCK_DATA 0 (take (MAX_BLOCK_DATA div w * w) m) # padded_matrix (drop (MAX_BLOCK_DATA div w * w) m) w"
proof -
  let ?n = "MAX_BLOCK_DATA div w * w"
  note n = rows_per_block [OF assms(1,2)]
  have "drop ?n m \<noteq> []" "m \<noteq> []" using assms(3) by auto
  then have "chunks ?n (drop ?n m) \<noteq> []" "chunks ?n m = take ?n m # chunks ?n (drop ?n m)"
    by (simp_all only: chunks_eq_Nil [OF n(3)] chunks_step [OF n(3)] not_False_eq_True list.simps)
  then show ?thesis by (simp add: padded_matrix_def Let_def)
qed

lemma padded_matrix_neq: "padded_matrix m w \<noteq> []"
  by (simp add: padded_matrix_def Let_def)

lemma length_resize: "length xs \<le> n \<Longrightarrow> length (resize n x xs) = n"
  by (simp add: resize_def)

lemma padded_matrix_blocks:
  assumes "0 < w" and "w \<le> MAX_BLOCK_DATA"
  shows "p \<in> set (padded_matrix m w) \<Longrightarrow> m \<noteq> [] \<Longrightarrow> length p \<le> MAX_BLOCK_DATA \<and> p \<noteq> []"
proof (induction "length m" arbitrary: m rule: less_induct)
  case less
  note n = rows_per_block [OF assms]
  show ?case
  proof (cases "length m \<le> MAX_BLOCK_DATA div w * w")
    case True
    with less.prems show ?thesis using padded_matrix_small [OF _ assms True] order_trans [OF True n(2)] by auto
  next
    case False
    let ?n = "MAX_BLOCK_DATA div w * w"
    have "length (resize MAX_BLOCK_DATA 0 (take ?n m)) = MAX_BLOCK_DATA" using n(2) by (intro length_resize) (simp add: min_le_iff_disj)
    then have pad: "length (resize MAX_BLOCK_DATA 0 (take ?n m)) \<le> MAX_BLOCK_DATA \<and> resize MAX_BLOCK_DATA 0 (take ?n m) \<noteq> []"
      by (auto simp: MAX_BLOCK_DATA_def)
    have rest: "drop ?n m \<noteq> []" "length (drop ?n m) < length m" using drop_shorter [OF n(3) False] by simp_all
    have "MAX_BLOCK_DATA div w * w < length m" using False by simp
    from less.prems(1) [unfolded padded_matrix_large [OF assms this]]
    show ?thesis using pad less.hyps [OF rest(2) _ rest(1)] unfolding list.set(2) by (metis insert_iff)
  qed
qed

lemma unpack_padded:
  assumes "0 < w" and "w \<le> MAX_BLOCK_DATA"
  shows "w dvd length m \<Longrightarrow> m \<noteq> [] \<Longrightarrow>
    unpack_rows (MAX_BLOCK_DATA div w * w) w (concat (padded_matrix m w)) = m"
proof (induction "length m" arbitrary: m rule: less_induct)
  case less
  note n = rows_per_block [OF assms]
  let ?n = "MAX_BLOCK_DATA div w * w"
  show ?case
  proof (cases "length m \<le> ?n")
    case True
    with order_trans [OF True n(2)] less.prems show ?thesis
      by (subst unpack_rows.simps) (simp add: padded_matrix_small [OF _ assms True] not_less)
  next
    case False
    let ?rest = "concat (padded_matrix (drop ?n m) w)" and ?pad = "resize MAX_BLOCK_DATA 0 (take ?n m)"
    have rest: "drop ?n m \<noteq> []" "length (drop ?n m) < length m" "w dvd length (drop ?n m)"
      using drop_shorter [OF n(3) False] less.prems(1) by simp_all
    then have "?rest \<noteq> []" using padded_matrix_blocks [OF assms, of "hd (padded_matrix (drop ?n m) w)" "drop ?n m"]
        padded_matrix_neq [of "drop ?n m" w] by (cases "padded_matrix (drop ?n m) w") auto
    moreover have pad: "length ?pad = MAX_BLOCK_DATA" using n(2) by (intro length_resize) (simp add: min_le_iff_disj)
    moreover have "take ?n ?pad = take ?n m" using False n(2) by (simp add: resize_def)
    moreover have "concat (padded_matrix m w) = ?pad @ ?rest" using False padded_matrix_large [OF assms] by simp
    ultimately show ?thesis
      using less.hyps [OF rest(2,3,1)] n(2) by (subst unpack_rows.simps) (auto simp: MAX_BLOCK_DATA_def)
  qed
qed

lemma extract_padded:
  assumes "0 < w" and "w \<le> MAX_BLOCK_DATA" and "w dvd length m" and "m \<noteq> []"
  shows "extract_rows_per_block (concat (padded_matrix m w)) w = Inr (m, length m div w)"
  using assms unpack_padded [OF assms] rows_per_block [OF assms(1,2)]
  by (simp add: extract_rows_per_block_def Let_def)

text \<open>The blocks together are at most twice as long as the rows, but for the last block.\<close>

lemma length_padded:
  assumes "0 < w" and "w \<le> MAX_BLOCK_DATA" and "m \<noteq> []"
  shows "length (concat (padded_matrix m w)) \<le> 2 * length m"
  using assms(3)
proof (induction "length m" arbitrary: m rule: less_induct)
  case less
  note n = rows_per_block [OF assms(1,2)]
  let ?n = "MAX_BLOCK_DATA div w * w"
  show ?case
  proof (cases "length m \<le> ?n")
    case True
    then show ?thesis using padded_matrix_small [OF less.prems assms(1,2) True] by simp
  next
    case False
    have "length (resize MAX_BLOCK_DATA 0 (take ?n m)) = MAX_BLOCK_DATA" using n(2) by (intro length_resize) (simp add: min_le_iff_disj)
    moreover have "drop ?n m \<noteq> []" "length (drop ?n m) < length m" using drop_shorter [OF n(3) False] by simp_all
    ultimately show ?thesis
      using less.hyps [of "drop ?n m"] padded_matrix_large [OF assms(1,2), of m] False n(4) by simp
  qed
qed

lemma count_padded:
  assumes "0 < w" and "w \<le> MAX_BLOCK_DATA" and "m \<noteq> []"
  shows "length (padded_matrix m w) * MAX_BLOCK_DATA < length (concat (padded_matrix m w)) + MAX_BLOCK_DATA"
  using assms(3)
proof (induction "length m" arbitrary: m rule: less_induct)
  case less
  note n = rows_per_block [OF assms(1,2)]
  let ?n = "MAX_BLOCK_DATA div w * w"
  show ?case
  proof (cases "length m \<le> ?n")
    case True
    then show ?thesis using padded_matrix_small [OF less.prems assms(1,2) True] less.prems by simp
  next
    case False
    have "length (resize MAX_BLOCK_DATA 0 (take ?n m)) = MAX_BLOCK_DATA"
      using n(2) by (intro length_resize) (simp add: min_le_iff_disj)
    moreover have "drop ?n m \<noteq> []" "length (drop ?n m) < length m" using drop_shorter [OF n(3) False] by simp_all
    ultimately show ?thesis
      using less.hyps [of "drop ?n m"] padded_matrix_large [OF assms(1,2), of m] False by simp
  qed
qed

lemma write_row_matrix_spec:
  assumes "0 < w" and "w \<le> MAX_BLOCK_DATA" and "w dvd length m" and "m \<noteq> []" and "2 * length m \<le> I32_MAX"
  shows "lay_spec crc Q (write_row_matrix_tree crc m w)
    (\<lambda>x lay. chain_data CryptNone (holds crc lay) (fst x) (concat (padded_matrix m w)))"
proof -
  let ?ps = "padded_matrix m w"
  note blocks = padded_matrix_blocks [OF assms(1,2) _ assms(4)]
  then have "\<forall>p\<in>set ?ps. length p \<le> MAX_BLOCK_DATA" by blast
  note leaves = push_leaves_spec [OF this, of crc Q]
  have total: "length (concat ?ps) \<le> I32_MAX" using length_padded [OF assms(1,2,4)] assms(5) by simp
  then have count: "length ?ps * MAX_BLOCK_DATA < I32_MAX + MAX_BLOCK_DATA"
    using count_padded [OF assms(1,2,4)] by linarith
  let ?P = "\<lambda>x lay. chain_data CryptNone (holds crc lay) (fst x) (concat ?ps)"
  let ?root = "\<lambda>leaves. let total = sum_list (map snd leaves)
     in case leaves of [(bid, _)] \<Rightarrow> lay_ret (bid, total)
      | _ \<Rightarrow> lay_bind (build_chain_root (\<lambda>n. lit ''row matrix requires '' @ show_nat n @
                lit '' XBLOCKs, exceeding one XXBLOCK capacity'') (total mod 2 ^ 32) leaves)
              (\<lambda>bid. lay_ret (bid, total))"
  have root: "lay_spec crc (\<lambda>lay. leaves_hold crc lay leaves ?ps) (?root leaves) ?P" for leaves
  proof (cases "\<exists>bid n. leaves = [(bid, n)]")
    case True
    then obtain bid n where l: "leaves = [(bid, n)]" by blast
    have "?P (bid, sum_list (map snd leaves)) lay" if "leaves_hold crc lay leaves ?ps" for lay
    proof -
      from that l obtain p where p: "?ps = [p]" by (auto simp: leaves_hold_def list_all2_Cons1)
      with that l blocks [of p] show ?thesis by (auto simp: leaves_hold_def intro!: chain_leaf)
    qed
    with l show ?thesis by (auto simp: Let_def intro!: lay_spec_ret)
  next
    case False
    then have many: "?root leaves = lay_bind (build_chain_root (\<lambda>n. lit ''row matrix requires '' @ show_nat n @
        lit '' XBLOCKs, exceeding one XXBLOCK capacity'') (sum_list (map snd leaves) mod 2 ^ 32) leaves)
        (\<lambda>bid. lay_ret (bid, sum_list (map snd leaves)))"
      by (auto simp: Let_def split: list.splits)
    show ?thesis
    proof (cases "length leaves = length ?ps \<and> sum_list (map snd leaves) = length (concat ?ps)")
      case True
      then have "length leaves * MAX_BLOCK_DATA < I32_MAX + MAX_BLOCK_DATA" using count by simp
      moreover have "length (concat ?ps) = sum_list (map snd leaves) mod 2 ^ 32"
        using True total by (simp add: I32_MAX_def)
      ultimately show ?thesis
        unfolding many by (intro lay_spec_bind [OF build_chain_root_spec]) (auto intro: lay_spec_ret)
    next
      case False
      then have "\<not> leaves_hold crc lay leaves ?ps" for lay
        using leaves_hold_pairs(4) [of crc lay leaves ?ps]
        by (auto simp: leaves_hold_def dest: list_all2_lengthD)
      then show ?thesis by (simp add: lay_spec_def)
    qed
  qed
  have "MAX_BLOCK_DATA div w \<noteq> 0" using rows_per_block(1) [OF assms(1,2)] by simp
  moreover have "length m mod w = 0" using assms(3) by simp
  ultimately have "write_row_matrix_tree crc m w = lay_bind (push_leaves crc ?ps) ?root"
    using assms(1,4) by (simp add: write_row_matrix_tree_def padded_matrix_def Let_def)
  then show ?thesis by (simp only: lay_spec_bind [OF leaves root])
qed

text \<open>
  C13: a row matrix comes back as it was. Whole rows that fit a block are always stored, unless a write
  to the temporary file fails, and the layout keeps its invariant and what it held; whoever reads the
  chain and unpacks it by the width of a row gets back exactly the rows, without the fill at the end
  of each block, and their number.
\<close>

theorem row_matrix_round_trip:
  assumes "layout_ok lay" and "0 < w" and "w \<le> MAX_BLOCK_DATA" and "rows \<noteq> []"
    and "\<forall>r\<in>set rows. length r = w" and "2 * w * length rows \<le> MAX_XBLOCK_ASSEMBLE"
  shows "\<exists>r lay'. write_row_matrix_tree crc (concat rows) w lay = Some (r, lay') \<and>
    (case r of
       Inl e \<Rightarrow> \<not> io_ok lay \<and> (\<exists>msg. e = WeIo msg)
     | Inr (bid, n) \<Rightarrow> layout_ok lay' \<and> holds crc lay \<le> holds crc lay' \<and>
         (\<forall>file bbt. (\<forall>b p. holds crc lay' b p \<longrightarrow> serves crc file bbt b p) \<longrightarrow>
           yields (rd_bind (read_block_data crc file bbt bid CryptNone)
               (\<lambda>payload. rd_lift (extract_rows_per_block payload w)))
             (concat rows, length rows)))"
proof -
  let ?m = "concat rows"
  have len: "length ?m = length rows * w" using length_concat_width assms(5) by blast
  moreover have "0 < length ?m" using len assms(2,4) by simp
  ultimately have m: "w dvd length ?m" "?m \<noteq> []" "2 * length ?m \<le> I32_MAX" "2 * length ?m \<le> MAX_XBLOCK_ASSEMBLE"
    using assms(6) by (auto simp del: concat_eq_Nil_conv simp: I32_MAX_def MAX_XBLOCK_ASSEMBLE_def mult.commute)
  from write_row_matrix_spec [OF assms(2,3) m(1-3), of crc "\<lambda>_. True"] assms(1) obtain r lay' where
    w: "write_row_matrix_tree crc ?m w lay = Some (r, lay')"
    "case r of Inl e \<Rightarrow> \<not> io_ok lay \<and> (\<exists>msg. e = WeIo msg)
     | Inr x \<Rightarrow> lay_step crc lay lay' \<and> chain_data CryptNone (holds crc lay') (fst x) (concat (padded_matrix ?m w))"
    unfolding lay_spec_def by blast
  have small: "length (concat (padded_matrix ?m w)) \<le> MAX_XBLOCK_ASSEMBLE"
    using length_padded [OF assms(2,3) m(2)] m(4) by linarith
  have "extract_rows_per_block (concat (padded_matrix ?m w)) w = Inr (?m, length rows)"
    using extract_padded [OF assms(2,3) m(1,2)] len assms(2) by simp
  note unpacked = yields_lift [OF this]
  have "yields (rd_bind (read_block_data crc file bbt bid CryptNone)
      (\<lambda>payload. rd_lift (extract_rows_per_block payload w))) (?m, length rows)"
    if "\<forall>b p. holds crc lay' b p \<longrightarrow> serves crc file bbt b p"
      and "chain_data CryptNone (holds crc lay') bid (concat (padded_matrix ?m w))" for "file" bbt bid
  proof -
    have "yields (read_block_data crc file bbt bid CryptNone) (concat (padded_matrix ?m w))"
      using that(1) by (intro read_chain [OF that(2) _ small]) simp
    then show ?thesis using unpacked by (rule yields_bind)
  qed
  then have "case r of
       Inl e \<Rightarrow> \<not> io_ok lay \<and> (\<exists>msg. e = WeIo msg)
     | Inr (bid, n) \<Rightarrow> layout_ok lay' \<and> holds crc lay \<le> holds crc lay' \<and>
         (\<forall>file bbt. (\<forall>b p. holds crc lay' b p \<longrightarrow> serves crc file bbt b p) \<longrightarrow>
           yields (rd_bind (read_block_data crc file bbt bid CryptNone)
               (\<lambda>payload. rd_lift (extract_rows_per_block payload w))) (?m, length rows))"
    using w(2) lay_stepD [of crc lay lay'] by (cases r) auto
  with w(1) show ?thesis by blast
qed

theorem row_matrix_round_trip_witness:
  "\<exists>bid n lay'. write_row_matrix_tree (\<lambda>_. 0) [1, 2, 3, 4] 2 layout_new = Some (Inr (bid, n), lay') \<and>
     (\<forall>file bbt. (\<forall>b p. holds (\<lambda>_. 0) lay' b p \<longrightarrow> serves (\<lambda>_. 0) file bbt b p) \<longrightarrow>
        yields (rd_bind (read_block_data (\<lambda>_. 0) file bbt bid CryptNone)
          (\<lambda>payload. rd_lift (extract_rows_per_block payload 2))) ([1, 2, 3, 4], 2))"
proof -
  have lay: "layout_ok layout_new" "io_ok layout_new"
    by (simp_all add: layout_ok_def layout_new_def all_bids_def amap_bids_def io_ok_def)
  let ?rows = "[[1, 2], [3, 4]] :: bytes list"
  have rows: "?rows \<noteq> []" "\<forall>r\<in>set ?rows. length r = 2" "2 * 2 * length ?rows \<le> MAX_XBLOCK_ASSEMBLE"
    "concat ?rows = [1, 2, 3, 4]" "length ?rows = 2" "(2 :: nat) \<le> MAX_BLOCK_DATA"
    by (simp_all add: MAX_XBLOCK_ASSEMBLE_def MAX_BLOCK_DATA_def)
  from row_matrix_round_trip [OF lay(1) _ rows(6,1,2,3), of "\<lambda>_. 0"] lay(2) show ?thesis
    unfolding rows(4,5) by (fastforce split: sum.splits)
qed

end
