(* ===== verification/Table_Loading.thy ===== *)
theory Table_Loading
  imports Row_Matrix
begin

text \<open>
  What the reader makes of a table whose parts are in place: the schema, the identifiers of the
  rows, the matrix, and the cells that lie in subnodes.
\<close>

subsection \<open>The schema\<close>

definition column_desc :: "TcColumnTuple \<Rightarrow> TcColumnDesc" where
  "column_desc c = (case c of (prop_id, prop_type, ib, cb, i_bit) \<Rightarrow>
     \<lparr> cd_prop_id = prop_id, cd_prop_type = prop_type, cd_ib_data = ib, cd_cb_data = cb, cd_i_bit = i_bit \<rparr>)"

definition column_ok :: "TcColumnTuple \<Rightarrow> bool" where
  "column_ok c = (case c of (prop_id, prop_type, ib, cb, i_bit) \<Rightarrow>
     prop_id < 65536 \<and> prop_type < 65536 \<and> ib < 65536 \<and> cb < 256 \<and> i_bit < 256)"

lemma length_column_bytes [simp]: "length (column_bytes c) = 8"
  by (simp add: column_bytes_def split: prod.split)

definition info_bytes :: "TcColumnTuple list \<Rightarrow> nat \<Rightarrow> u32 \<Rightarrow> u32 \<Rightarrow> bytes" where
  "info_bytes columns w hid_rows_index hnid_rows =
     [0x7C, word_of_nat (length columns), 0, 0, 0, 0, 0, 0] @ le_bytes 2 w @ le_bytes 4 hid_rows_index @
     le_bytes 4 hnid_rows @ concat (map column_bytes columns)"

lemma length_tcinfo: "length (tcinfo_bytes columns w) = 18 + 8 * length columns"
  using length_concat_width [of "map column_bytes columns" 8] by (simp add: tcinfo_bytes_def)

lemma tcinfo_patched:
  "overwrite 14 (le_bytes 4 b) (overwrite 10 (le_bytes 4 a) (tcinfo_bytes columns w)) = info_bytes columns w a b"
proof -
  let ?c = "concat (map column_bytes columns)"
  have zeros: "le_bytes 2 0 = [0, 0]" "le_bytes 4 0 = [0, 0, 0, 0]" by (simp_all add: le_bytes_unfold)
  have a: "overwrite 10 (le_bytes 4 a) (tcinfo_bytes columns w) =
      ([0x7C, word_of_nat (length columns), 0, 0, 0, 0, 0, 0] @ le_bytes 2 w @ le_bytes 4 a) @ [0, 0, 0, 0] @ ?c"
    by (simp add: tcinfo_bytes_def zeros overwrite_def)
  show ?thesis unfolding a by (simp add: info_bytes_def overwrite_def)
qed

lemma column_at_bytes:
  assumes "slice_of a (a + 8) data = column_bytes c" and "column_ok c"
  shows "column_at data a = column_desc c"
proof -
  obtain prop_id prop_type ib cb i_bit where c: "c = (prop_id, prop_type, ib, cb, i_bit)" by (cases c)
  show ?thesis
    using assms unfolding column_at_def Let_def assms(1)
    by (simp add: c column_bytes_def column_desc_def column_ok_def slice_simps unat_of_nat nth_append)
qed

lemma parse_info:
  assumes "\<forall>c\<in>set columns. column_ok c" and "length columns < 256" and "w < 65536"
  shows "parse_tc_info (info_bytes columns w a b) =
    Inr \<lparr> ti_c_cols = length columns, ti_rgib = [0, 0, 0, w], ti_hid_row_index = a mod 2 ^ 32,
      ti_hnid_rows = b mod 2 ^ 32, ti_columns = map column_desc columns \<rparr>"
proof -
  let ?d = "info_bytes columns w a b" and ?n = "length columns" and ?tab = "concat (map column_bytes columns)"
  let ?h = "[0x7C, word_of_nat ?n, 0, 0, 0, 0, 0, 0] :: bytes"
  let ?head = "?h @ le_bytes 2 w @ le_bytes 4 a @ le_bytes 4 b"
  have d: "?d = ?head @ ?tab" by (simp add: info_bytes_def)
  have len: "length ?d = 18 + 8 * ?n"
    using length_concat_width [of "map column_bytes columns" 8] by (simp add: d)
  have cols: "unat (?d ! 1) = ?n" using assms(2) by (simp add: info_bytes_def unat_of_nat)
  have col: "column_at ?d (18 + i * 8) = column_desc (columns ! i)" if i: "i < ?n" for i
  proof (rule column_at_bytes)
    have "slice_of (18 + i * 8) (18 + i * 8 + 8) ?d = slice_of (i * 8) (i * 8 + 8) (?tab @ [])"
      unfolding d by (subst slice_append2) (simp_all add: add.commute)
    also have "\<dots> = column_bytes (columns ! i)"
      using slice_records [of i "map column_bytes columns" 8 "[]"] i by simp
    finally show "slice_of (18 + i * 8) (18 + i * 8 + 8) ?d = column_bytes (columns ! i)" .
    show "column_ok (columns ! i)" using assms(1) i by simp
  qed
  have all: "takeWhile (\<lambda>i. 18 + i * 8 + 8 \<le> length ?d) [0..<?n] = [0..<?n]"
    unfolding len by (intro takeWhile_eq_all_conv [THEN iffD2]) auto
  have columns: "map (\<lambda>i. column_at ?d (18 + i * 8)) [0..<?n] = map column_desc columns"
    by (intro nth_equalityI) (simp_all add: col)
  have zeros: "read_u16 2 ?d = 0" "read_u16 4 ?d = 0" "read_u16 6 ?d = 0"
    by (simp_all add: info_bytes_def read_u16_def slice_of_def)
  have fields: "read_u16 8 ?d = w" "read_u32 10 ?d = a mod 2 ^ 32" "read_u32 14 ?d = b mod 2 ^ 32"
    using assms(3) read_u16_append2 [of ?h 8 "le_bytes 2 w @ le_bytes 4 a @ le_bytes 4 b @ ?tab"]
      read_u32_append2 [of "?h @ le_bytes 2 w" 10 "le_bytes 4 a @ le_bytes 4 b @ ?tab"]
      read_u32_append2 [of "?h @ le_bytes 2 w @ le_bytes 4 a" 14 "le_bytes 4 b @ ?tab"]
    by (simp_all add: info_bytes_def read_le_field)
  show ?thesis
    unfolding parse_tc_info_def Let_def cols all columns zeros fields using len by simp
qed

subsection \<open>The identifiers of the rows\<close>

lemma enter_row_id_u32:
  "i < 2 ^ 32 \<Longrightarrow> enter_row_id \<lparr> br_key = u32_key 4 key, br_data = le_bytes 4 i \<rparr> ids =
    (if i < length ids then ids[i := key mod 2 ^ 32] else ids)"
  by (simp add: enter_row_id_def u32_key_def read_le_field)

lemma fold_row_ids:
  assumes "distinct (map snd recs)" and "\<forall>(key, i)\<in>set recs. i < length ids" and "length ids \<le> 2 ^ 32"
  shows "length (fold enter_row_id (map (\<lambda>(key, i). \<lparr> br_key = u32_key 4 key, br_data = le_bytes 4 i \<rparr>) recs) ids) = length ids \<and>
    (\<forall>k<length ids. fold enter_row_id (map (\<lambda>(key, i). \<lparr> br_key = u32_key 4 key, br_data = le_bytes 4 i \<rparr>) recs) ids ! k =
       (case find (\<lambda>r. snd r = k) recs of None \<Rightarrow> ids ! k | Some r \<Rightarrow> fst r mod 2 ^ 32))"
  using assms
proof (induction recs arbitrary: ids)
  case (Cons r recs)
  obtain key i where r: "r = (key, i)" by (cases r)
  have i: "i < length ids" "i < 2 ^ 32" using Cons.prems r by auto
  let ?ids = "ids[i := key mod 2 ^ 32]"
  have step: "enter_row_id \<lparr> br_key = u32_key 4 key, br_data = le_bytes 4 i \<rparr> ids = ?ids"
    using enter_row_id_u32 [OF i(2)] i(1) by simp
  have "find (\<lambda>r. snd r = i) recs = None" using Cons.prems(1) r by (force simp: find_None_iff)
  then show ?case
    using Cons.IH [of ?ids] Cons.prems i unfolding r
    by (simp add: step nth_list_update del: fold_simps add: fold_simps) (auto split: option.splits)
qed simp

lemma find_distinct:
  assumes "distinct (map f xs)" and "x \<in> set xs"
  shows "find (\<lambda>y. f y = f x) xs = Some x"
  using assms by (induction xs) (auto simp: image_iff)

lemma insort_key_map: "insort_key f (g x) (map g xs) = map g (insort_key (f \<circ> g) x xs)"
  by (induction xs) auto

lemma sort_key_map: "sort_key f (map g xs) = map g (sort_key (f \<circ> g) xs)"
  by (induction xs) (simp_all add: insort_key_map [of f g, unfolded comp_def] comp_def)

lemma load_row_ids_built:
  assumes "bth_reads h r 4 4 (map (map_prod (u32_key 4) id) (sort_key fst (map (\<lambda>i. (key i, le_bytes 4 i)) [0..<n])))"
    and "ti_hid_row_index info = r" and "r \<noteq> 0" and "n \<le> 2 ^ 32"
  shows "load_row_ids h info n = map (\<lambda>i. key i mod 2 ^ 32) [0..<n]"
proof (cases "n = 0")
  case True
  then show ?thesis by (simp add: load_row_ids_def)
next
  case False
  let ?recs = "sort_key fst (map (\<lambda>i. (key i, i)) [0..<n])"
  let ?rec = "\<lambda>(key, i). \<lparr> br_key = u32_key 4 key, br_data = le_bytes 4 i \<rparr>"
  from assms(1) obtain hdr where hdr: "read_bth_header h r = Inr hdr" and recs: "collect_records h hdr =
      Inr (map (\<lambda>(key, data). \<lparr> br_key = key, br_data = data \<rparr>)
        (map (map_prod (u32_key 4) id) (sort_key fst (map (\<lambda>i. (key i, le_bytes 4 i)) [0..<n]))))"
    unfolding bth_reads_def by blast
  have "map (\<lambda>i. (key i, le_bytes 4 i)) [0..<n] = map (map_prod id (le_bytes 4)) (map (\<lambda>i. (key i, i)) [0..<n])"
    by simp
  then have "sort_key fst (map (\<lambda>i. (key i, le_bytes 4 i)) [0..<n]) = map (map_prod id (le_bytes 4)) ?recs"
    by (simp only: sort_key_map) (simp add: comp_def)
  then have recs: "collect_records h hdr = Inr (map ?rec ?recs)"
    using recs by (simp add: comp_def case_prod_unfold)
  have mset: "mset (map snd ?recs) = mset [0..<n]"
  proof -
    have "mset (map snd ?recs) = mset (map snd (map (\<lambda>i. (key i, i)) [0..<n]))" by (simp only: mset_map mset_sort)
    then show ?thesis by (simp only: map_map comp_def snd_conv map_ident)
  qed
  have distinct: "distinct (map snd ?recs)"
    using mset_eq_imp_distinct_iff [OF mset] by simp
  have find: "find (\<lambda>r. snd r = i) ?recs = Some (key i, i)" if "i < n" for i
    using find_distinct [OF distinct, of "(key i, i)"] that by simp
  have less: "\<forall>(k, i)\<in>set ?recs. i < length (replicate n 0)" by auto
  have fold: "fold enter_row_id (map ?rec ?recs) (replicate n 0) = map (\<lambda>i. key i mod 2 ^ 32) [0..<n]"
    using fold_row_ids [OF distinct less] assms(4) by (intro nth_equalityI) (simp_all add: find)
  show ?thesis
    using False assms(2,3) hdr recs fold by (simp add: load_row_ids_def hid_is_null_def)
qed

subsection \<open>Cells in subnodes\<close>

definition cell_resolves :: "resolver \<Rightarrow> (u32 \<rightharpoonup> bytes) \<Rightarrow> u32 \<Rightarrow> bool" where
  "cell_resolves resolve D hnid \<longleftrightarrow>
     hnid = 0 \<or> hid_type hnid = 0 \<or> (\<exists>bs. D hnid = Some bs \<and> yields (resolve hnid) bs)"

lemma collect_cell_step:
  assumes "p + 4 \<le> length m \<longrightarrow> cell_resolves resolve D (read_u32 p m)" and "out \<subseteq>\<^sub>m D"
  shows "\<exists>out'. yields (collect_cell resolve m p out) out' \<and> out' \<subseteq>\<^sub>m D \<and> out \<subseteq>\<^sub>m out' \<and>
    (p + 4 \<le> length m \<longrightarrow> hid_type (read_u32 p m) \<noteq> 0 \<longrightarrow> out' (read_u32 p m) = D (read_u32 p m))"
proof -
  let ?h = "read_u32 p m"
  show ?thesis
  proof (cases "length m < p + 4 \<or> ?h = 0 \<or> hid_type ?h = 0 \<or> out ?h \<noteq> None")
    case True
    then have "collect_cell resolve m p out = rd_ret out"
      by (auto simp: collect_cell_def Let_def)
    moreover have "out ?h \<noteq> None \<Longrightarrow> out ?h = D ?h"
      using assms(2) by (auto simp: map_le_def dom_def)
    ultimately show ?thesis
      using True assms(2) by (intro exI [where x = out]) (auto simp: hid_type_def map_le_def)
  next
    case False
    then obtain bs where bs: "D ?h = Some bs" "yields (resolve ?h) bs"
      using assms(1) by (auto simp: cell_resolves_def)
    have "yields (collect_cell resolve m p out) (out(?h \<mapsto> bs))"
      unfolding yields_def
    proof
      fix s
      from bs(2) obtain ns where "quiet ns" "resolve ?h s = (Inr bs, s \<lparr> rd_notes := rd_notes s @ ns \<rparr>)"
        unfolding yields_def by blast
      with False show "\<exists>ns. quiet ns \<and> collect_cell resolve m p out s =
          (Inr (out(?h \<mapsto> bs)), s \<lparr> rd_notes := rd_notes s @ ns \<rparr>)"
        by (intro exI [where x = ns]) (simp add: collect_cell_def Let_def)
    qed
    with bs(1) assms(2) False show ?thesis
      by (intro exI [where x = "out(?h \<mapsto> bs)"]) (auto simp: map_le_def)
  qed
qed

lemma collect_cells:
  assumes "\<forall>p\<in>set ps. p + 4 \<le> length m \<longrightarrow> cell_resolves resolve D (read_u32 p m)" and "out \<subseteq>\<^sub>m D"
  shows "\<exists>out'. yields (rd_each (collect_cell resolve m) ps out) out' \<and> out' \<subseteq>\<^sub>m D \<and> out \<subseteq>\<^sub>m out' \<and>
    (\<forall>p\<in>set ps. p + 4 \<le> length m \<longrightarrow> hid_type (read_u32 p m) \<noteq> 0 \<longrightarrow> out' (read_u32 p m) = D (read_u32 p m))"
  using assms
proof (induction ps arbitrary: out)
  case Nil
  then show ?case by (intro exI [where x = out]) simp
next
  case (Cons p ps)
  from collect_cell_step [of p m resolve D out] Cons.prems obtain out1 where
    out1: "yields (collect_cell resolve m p out) out1" "out1 \<subseteq>\<^sub>m D" "out \<subseteq>\<^sub>m out1"
    "p + 4 \<le> length m \<longrightarrow> hid_type (read_u32 p m) \<noteq> 0 \<longrightarrow> out1 (read_u32 p m) = D (read_u32 p m)" by auto
  from Cons.IH [OF _ out1(2)] Cons.prems(1) obtain out2 where
    out2: "yields (rd_each (collect_cell resolve m) ps out1) out2" "out2 \<subseteq>\<^sub>m D" "out1 \<subseteq>\<^sub>m out2"
    "\<forall>p\<in>set ps. p + 4 \<le> length m \<longrightarrow> hid_type (read_u32 p m) \<noteq> 0 \<longrightarrow> out2 (read_u32 p m) = D (read_u32 p m)" by auto
  have "yields (rd_each (collect_cell resolve m) (p # ps) out) out2"
    unfolding rd_each.simps by (rule yields_bind [where f = "rd_each (collect_cell resolve m) ps", OF out1(1) out2(1)])
  moreover have "out2 h = D h" if "out1 h = D h" for h
    using that out2(2,3) unfolding map_le_def dom_def by (metis (mono_tags, lifting) mem_Collect_eq not_Some_eq)
  ultimately show ?case
    using out2 out1(3,4) map_le_trans [OF out1(3) out2(3)] by (intro exI [where x = out2]) auto
qed

subsection \<open>The whole table\<close>

definition info_of :: "TcColumnTuple list \<Rightarrow> nat \<Rightarrow> u32 \<Rightarrow> u32 \<Rightarrow> TcInfo" where
  "info_of columns w a b =
     \<lparr> ti_c_cols = length columns, ti_rgib = [0, 0, 0, w], ti_hid_row_index = a, ti_hnid_rows = b,
       ti_columns = map column_desc columns \<rparr>"

definition cell_places :: "TcColumnTuple list \<Rightarrow> nat \<Rightarrow> nat \<Rightarrow> nat set" where
  "cell_places columns w n =
     (\<Union>i<n. (\<lambda>d. i * w + cd_ib_data d) ` {d \<in> column_desc ` set columns.
        cd_cb_data d = 4 \<and> cd_prop_type d \<in> {0x001F, 0x001E, 0x0102}})"

lemma set_hnid_places: "set (hnid_places (info_of columns w a b) w n) = cell_places columns w n"
  by (simp add: hnid_places_def info_of_def cell_places_def atLeast0LessThan)

lemma tc_loads:
  assumes "heap_parse data (node_block_size data) = Inr h"
    and "heap_get h (hh_hid_user_root (hp_header h)) = Inr (info_bytes columns w a b)"
    and "\<forall>c\<in>set columns. column_ok c" and "length columns < 256" and "0 < w" and "w < 65536"
    and "a < 2 ^ 32" and "b < 2 ^ 32" and "hid_type b \<noteq> 0"
    and "yields (rd_bind (resolve b) (\<lambda>payload. rd_lift (extract_rows_per_block payload w))) (m, n)"
    and "\<forall>p\<in>cell_places columns w n. p + 4 \<le> length m \<longrightarrow> cell_resolves resolve D (read_u32 p m)"
  obtains t where "yields (tc_load_inner data (Some resolve)) t" and "tc_heap t = h"
    and "tc_info t = info_of columns w a b" and "tc_row_data t = m" and "tc_row_size t = w"
    and "tc_row_count t = n" and "tc_row_ids t = load_row_ids h (info_of columns w a b) n"
    and "\<And>p. p \<in> cell_places columns w n \<Longrightarrow> p + 4 \<le> length m \<Longrightarrow> hid_type (read_u32 p m) \<noteq> 0 \<Longrightarrow>
      tc_cell_subnodes t (read_u32 p m) = D (read_u32 p m)"
proof -
  let ?info = "info_of columns w a b"
  have info: "parse_tc_info (info_bytes columns w a b) = Inr ?info"
    using parse_info [OF assms(3,4,6)] assms(7,8) by (simp add: info_of_def)
  have fields: "ti_rgib ?info ! 3 = w" "ti_hnid_rows ?info = b" by (simp_all add: info_of_def)
  have rows: "yields (load_rows (Some resolve) h ?info w) (m, n)"
  proof -
    have "b \<noteq> 0" using assms(9) by (auto simp: hid_type_def)
    then show ?thesis using assms(9,10) by (simp only: load_rows_def fields if_False option.case)
  qed
  obtain out where out: "yields (rd_each (collect_cell resolve m) (hnid_places ?info w n) Map.empty) out"
    "\<forall>p\<in>cell_places columns w n. p + 4 \<le> length m \<longrightarrow> hid_type (read_u32 p m) \<noteq> 0 \<longrightarrow> out (read_u32 p m) = D (read_u32 p m)"
    using collect_cells [of "hnid_places ?info w n" m resolve D Map.empty] assms(11)
    unfolding set_hnid_places by auto
  obtain out' where cells: "yields (collect_cell_subnodes resolve ?info m w n) out'"
    "\<forall>p\<in>cell_places columns w n. p + 4 \<le> length m \<longrightarrow> hid_type (read_u32 p m) \<noteq> 0 \<longrightarrow> out' (read_u32 p m) = D (read_u32 p m)"
  proof (cases "n = 0")
    case True
    then show ?thesis using that [of Map.empty] assms(5) by (simp add: collect_cell_subnodes_def cell_places_def)
  next
    case False
    then show ?thesis using that [of out] out assms(5) by (simp add: collect_cell_subnodes_def)
  qed
  let ?t = "\<lparr> tc_heap = h, tc_info = ?info, tc_row_data = m, tc_row_size = w, tc_row_count = n,
     tc_row_ids = load_row_ids h ?info n, tc_cell_subnodes = out' \<rparr>"
  have "yields (rd_bind (collect_cell_subnodes resolve ?info m w n) (\<lambda>cell_subnodes.
      rd_ret \<lparr> tc_heap = h, tc_info = ?info, tc_row_data = m, tc_row_size = w, tc_row_count = n,
        tc_row_ids = load_row_ids h ?info n, tc_cell_subnodes = cell_subnodes \<rparr>)) ?t"
    by (rule yields_bind [OF cells(1)]) simp
  then have "yields (tc_load_inner data (Some resolve)) ?t"
    unfolding tc_load_inner_def
    by (intro yields_bind [OF yields_lift [OF assms(1)]] yields_bind [OF yields_lift [OF assms(2)]]
        yields_bind [OF yields_lift [OF info]])
      (simp add: Let_def fields yields_bind [OF rows])
  with that [of ?t] cells(2) show thesis by simp
qed

subsection \<open>Reading the cells of a row\<close>

lemma read_row_field:
  assumes "\<forall>r\<in>set rows. length r = w" and "i < length rows" and "ib + 4 \<le> w"
  shows "read_u32 (i * w + ib) (concat rows) = read_u32 ib (rows ! i)"
    and "i * w + ib + 4 \<le> length (concat rows)"
proof -
  have "i * w + w \<le> length rows * w" using assms(2) mult_le_mono1 [of "Suc i" "length rows" w] by simp
  then show "i * w + ib + 4 \<le> length (concat rows)"
    using assms(3) by (simp add: length_concat_width [OF assms(1)])
  show "read_u32 (i * w + ib) (concat rows) = read_u32 ib (rows ! i)"
    using read_slice_of(2) [of "i * w" ib "i * w + w" "concat rows"] assms(3)
    unfolding slice_concat [OF assms(2,1)] by simp
qed

definition row_reads :: "TableContext \<Rightarrow> bytes list \<Rightarrow> nat \<Rightarrow> bool" where
  "row_reads t rows w \<longleftrightarrow>
     tc_row_data t = concat rows \<and> tc_row_size t = w \<and> (\<forall>r\<in>set rows. length r = w)"

lemma row_u32:
  assumes "row_reads t rows w" and "i < length rows"
    and "find_column t prop_id = Some d" and "cd_cb_data d = 4" and "cd_ib_data d + 4 \<le> w"
  shows "get_row_u32 t i prop_id = Some (read_u32 (cd_ib_data d) (rows ! i))"
  using assms read_row_field [of rows w i "cd_ib_data d"]
  by (simp add: get_row_u32_def Let_def row_reads_def)

lemma row_string:
  assumes "row_reads t rows w" and "i < length rows"
    and "find_column t prop_id = Some d" and "cd_cb_data d = 4" and "cd_ib_data d + 4 \<le> w"
    and "cd_prop_type d = 0x001F"
  shows "read_u32 (cd_ib_data d) (rows ! i) = 0 \<Longrightarrow> get_row_string t i prop_id = Inr (Some [])"
    and "\<lbrakk>read_u32 (cd_ib_data d) (rows ! i) = hnid; hnid \<noteq> 0;
      (if hid_type hnid = 0 then heap_get (tc_heap t) hnid = Inr (utf16le_bytes s)
       else tc_cell_subnodes t hnid = Some (utf16le_bytes s)); scalar_str s\<rbrakk> \<Longrightarrow>
      get_row_string t i prop_id = Inr (Some s)"
  using assms read_row_field [of rows w i "cd_ib_data d"]
  by (auto simp: get_row_string_def Let_def row_reads_def pc_decode_def decode_encode_utf16 split: if_splits)

lemma row_id_loaded:
  "tc_row_ids t = map f [0..<n] \<Longrightarrow> i < n \<Longrightarrow> get_row_id t i = (if f i = 0 then None else Some (f i))"
  by (simp add: get_row_id_def Let_def)

end
