(* ===== verification/Table_Building.thy ===== *)
theory Table_Building
  imports Table_Loading
begin

text \<open>
  A table under construction: what its heap and its subnodes hold, the rules for operations that may
  be refused, and the contract of a builder of rows under which the finished table reads back.
\<close>

subsection \<open>Operations that may be refused\<close>

text \<open>
  The operation returns; an error that comes from the file means the file fails, and any other
  refuses the input; after success the layout has made a step and the result is as promised.
\<close>

definition lay_run ::
  "(bytes \<Rightarrow> 32 word) \<Rightarrow> (Layout \<Rightarrow> bool) \<Rightarrow> 'a lay \<Rightarrow> ('a \<Rightarrow> Layout \<Rightarrow> bool) \<Rightarrow> bool" where
  "lay_run crc Q m P \<longleftrightarrow>
     (\<forall>lay. layout_ok lay \<longrightarrow> Q lay \<longrightarrow>
        (\<exists>r lay'. m lay = Some (r, lay') \<and>
          (case r of Inl e \<Rightarrow> (\<exists>msg. e = WeIo msg) \<longrightarrow> \<not> io_ok lay | Inr x \<Rightarrow> lay_step crc lay lay' \<and> P x lay')))"

lemma lay_run_ret: "(\<And>lay. Q lay \<Longrightarrow> P x lay) \<Longrightarrow> lay_run crc Q (lay_ret x) P"
  by (auto simp: lay_run_def lay_ret_def lay_step_refl)

lemma lay_run_fail: "(\<And>msg. e \<noteq> WeIo msg) \<Longrightarrow> lay_run crc Q (lay_fail e) P"
  by (simp add: lay_run_def lay_fail_def)

lemma lay_run_lift:
  "(\<And>msg. r \<noteq> Inl (WeIo msg)) \<Longrightarrow> (\<And>x lay. r = Inr x \<Longrightarrow> Q lay \<Longrightarrow> P x lay) \<Longrightarrow> lay_run crc Q (lay_lift r) P"
  by (cases r) (auto simp: lay_run_def lay_lift_def lay_step_refl)

lemma lay_spec_run: "lay_spec crc Q m P \<Longrightarrow> lay_run crc Q m P"
  unfolding lay_spec_def lay_run_def by (fastforce split: sum.splits)

lemma lay_run_weaken:
  assumes "lay_run crc Q m P" and "\<And>lay. R lay \<Longrightarrow> Q lay" and "\<And>x lay. P x lay \<Longrightarrow> P' x lay"
  shows "lay_run crc R m P'"
  unfolding lay_run_def
proof (intro allI impI)
  fix lay assume "layout_ok lay" "R lay"
  with assms(1,2) obtain r lay' where "m lay = Some (r, lay')"
    "case r of Inl e \<Rightarrow> (\<exists>msg. e = WeIo msg) \<longrightarrow> \<not> io_ok lay | Inr x \<Rightarrow> lay_step crc lay lay' \<and> P x lay'"
    unfolding lay_run_def by blast
  then show "\<exists>r lay'. m lay = Some (r, lay') \<and>
      (case r of Inl e \<Rightarrow> (\<exists>msg. e = WeIo msg) \<longrightarrow> \<not> io_ok lay | Inr x \<Rightarrow> lay_step crc lay lay' \<and> P' x lay')"
    using assms(3) by (cases r) auto
qed

lemma lay_run_bind:
  assumes "lay_run crc Q m P" and "\<And>x. lay_run crc (P x) (f x) R"
  shows "lay_run crc Q (lay_bind m f) R"
  unfolding lay_run_def
proof (intro allI impI)
  fix lay assume lay: "layout_ok lay" "Q lay"
  with assms(1) obtain r lay1 where m: "m lay = Some (r, lay1)"
    "case r of Inl e \<Rightarrow> (\<exists>msg. e = WeIo msg) \<longrightarrow> \<not> io_ok lay | Inr x \<Rightarrow> lay_step crc lay lay1 \<and> P x lay1"
    unfolding lay_run_def by blast
  show "\<exists>r lay'. lay_bind m f lay = Some (r, lay') \<and>
      (case r of Inl e \<Rightarrow> (\<exists>msg. e = WeIo msg) \<longrightarrow> \<not> io_ok lay | Inr x \<Rightarrow> lay_step crc lay lay' \<and> R x lay')"
  proof (cases r)
    case (Inl e)
    with m show ?thesis by (auto simp: lay_bind_def)
  next
    case (Inr x)
    with m have step: "lay_step crc lay lay1" "P x lay1" by auto
    then have "layout_ok lay1" by (simp add: lay_stepD)
    with assms(2) [of x] step(2) obtain q lay2 where f: "f x lay1 = Some (q, lay2)"
      "case q of Inl e \<Rightarrow> (\<exists>msg. e = WeIo msg) \<longrightarrow> \<not> io_ok lay1 | Inr y \<Rightarrow> lay_step crc lay1 lay2 \<and> R y lay2"
      unfolding lay_run_def by blast
    have "\<not> io_ok lay1 \<Longrightarrow> \<not> io_ok lay" using step(1) by (auto dest: lay_stepD)
    with f step(1) m(1) Inr show ?thesis
      by (auto simp: lay_bind_def split: sum.splits intro: lay_step_trans)
  qed
qed

lemma lay_run_frame:
  assumes "lay_run crc Q m P" and "\<And>lay lay'. lay_step crc lay lay' \<Longrightarrow> F lay \<Longrightarrow> F lay'"
  shows "lay_run crc (\<lambda>lay. Q lay \<and> F lay) m (\<lambda>x lay. P x lay \<and> F lay)"
  unfolding lay_run_def
proof (intro allI impI, elim conjE)
  fix lay assume lay: "layout_ok lay" "Q lay" "F lay"
  with assms(1) obtain r lay' where m: "m lay = Some (r, lay')"
    "case r of Inl e \<Rightarrow> (\<exists>msg. e = WeIo msg) \<longrightarrow> \<not> io_ok lay | Inr x \<Rightarrow> lay_step crc lay lay' \<and> P x lay'"
    unfolding lay_run_def by blast
  then show "\<exists>r lay'. m lay = Some (r, lay') \<and> (case r of Inl e \<Rightarrow> (\<exists>msg. e = WeIo msg) \<longrightarrow> \<not> io_ok lay |
      Inr x \<Rightarrow> lay_step crc lay lay' \<and> P x lay' \<and> F lay')"
    using assms(2) lay(3) by (cases r) auto
qed

lemma lay_run_pre: "(\<And>lay. Q lay \<Longrightarrow> lay_run crc (\<lambda>l. l = lay) m P) \<Longrightarrow> lay_run crc Q m P"
  unfolding lay_run_def by blast

lemma lay_run_ex: "(\<And>y. lay_run crc (Q y) m P) \<Longrightarrow> lay_run crc (\<lambda>lay. \<exists>y. Q y lay) m P"
  unfolding lay_run_def by blast

lemma lay_run_conj: "(F \<Longrightarrow> lay_run crc Q m P) \<Longrightarrow> lay_run crc (\<lambda>lay. F \<and> Q lay) m P"
  unfolding lay_run_def by blast

lemma lay_run_each:
  assumes "\<And>k a. k < length xs \<Longrightarrow> lay_run crc (I k a) (f (xs ! k) a) (I (Suc k))"
  shows "lay_run crc (I 0 a) (lay_each f xs a) (I (length xs))"
  using assms
proof (induction xs arbitrary: I a)
  case (Cons x xs)
  have "lay_run crc (I 1 b) (lay_each f xs b) (I (Suc (length xs)))" for b
    using Cons.IH [of "\<lambda>k. I (Suc k)" b] Cons.prems [of "Suc _"] by simp
  moreover have "lay_run crc (I 0 a) (f x a) (I 1)" using Cons.prems [of 0 a] by simp
  ultimately show ?case by (simp add: lay_run_bind)
qed (simp add: lay_run_ret)

subsection \<open>What a table under construction holds\<close>

definition sub_nid :: "nat \<Rightarrow> u64" where
  "sub_nid k = k * 32 + 31"

definition subs_hold ::
  "(bytes \<Rightarrow> 32 word) \<Rightarrow> nat \<Rightarrow> (u64 \<times> u64 \<times> u64) list \<Rightarrow> (u32 \<rightharpoonup> bytes) \<Rightarrow> Layout \<Rightarrow> bool" where
  "subs_hold crc n subs D lay \<longleftrightarrow>
     map fst subs = map sub_nid [1..<Suc n] \<and> dom D = set (map fst subs) \<and>
     (\<forall>(nid, bid, sub) \<in> set subs. sub = 0 \<and>
        (\<exists>bs. D nid = Some bs \<and> length bs \<le> MAX_XBLOCK_ASSEMBLE \<and> chain_data CryptNone (holds crc lay) bid bs))"

definition building ::
  "(bytes \<Rightarrow> 32 word) \<Rightarrow> TableBuild \<Rightarrow> (Hid \<rightharpoonup> bytes) \<Rightarrow> (u32 \<rightharpoonup> bytes) \<Rightarrow> Layout \<Rightarrow> bool" where
  "building crc tb m D lay \<longleftrightarrow>
     paged_maps (tb_heap tb) m \<and> (\<forall>hid\<in>dom m. hid mod 32 = 0 \<and> 0 < hid \<and> hid < 2 ^ 32) \<and>
     subs_hold crc (tb_sub_counter tb) (tb_subs tb) D lay"

text \<open>A reference to a cell: a heap allocation or a subnode, told apart by the type bits.\<close>

definition cell_in :: "(Hid \<rightharpoonup> bytes) \<Rightarrow> (u32 \<rightharpoonup> bytes) \<Rightarrow> u32 \<Rightarrow> bytes \<Rightarrow> bool" where
  "cell_in m D hnid bs \<longleftrightarrow>
     hnid \<noteq> 0 \<and> hnid < 2 ^ 32 \<and> (if hid_type hnid = 0 then m hnid = Some bs else D hnid = Some bs)"

lemma cell_in_less: "cell_in m D hid bs \<Longrightarrow> hid < 2 ^ 32"
  by (simp add: cell_in_def)

lemma map_leD: "m \<subseteq>\<^sub>m m' \<Longrightarrow> m k = Some v \<Longrightarrow> m' k = Some v"
  by (auto simp: map_le_def dom_def)

lemma cell_in_mono: "cell_in m D hnid bs \<Longrightarrow> m \<subseteq>\<^sub>m m' \<Longrightarrow> D \<subseteq>\<^sub>m D' \<Longrightarrow> cell_in m' D' hnid bs"
  by (auto simp: cell_in_def map_leD split: if_splits)

lemma next_subnode_nid_eq: "next_subnode_nid c = (sub_nid (c + 1), c + 1)"
proof -
  have "(31 :: nat) = mask 5" by (simp add: mask_eq_exp_minus_1)
  then have "(c + 1) * 32 AND 31 = ((c + 1) * 32) mod 2 ^ 5"
    by (simp only: take_bit_eq_mod flip: take_bit_eq_mask)
  then have "(c + 1) * 32 AND (31 :: nat) = 0" by simp
  from disjunctive_add_eq_or [OF this] show ?thesis by (simp add: next_subnode_nid_def sub_nid_def)
qed

lemma sub_nid_type: "hid_type (sub_nid k) = 31" "sub_nid k \<noteq> 0"
  by (simp_all add: hid_type_def sub_nid_def)

lemma sub_nid_inj: "sub_nid a = sub_nid b \<longleftrightarrow> a = b"
  by (simp add: sub_nid_def)

lemma building_start: "building crc table_start Map.empty Map.empty lay"
  using paged_maps_new by (simp add: building_def subs_hold_def table_start_def)

lemma subs_hold_entry:
  "subs_hold crc n subs D lay \<Longrightarrow> (nid, bid, sub) \<in> set subs \<Longrightarrow>
    sub = 0 \<and> (\<exists>bs. D nid = Some bs \<and> length bs \<le> MAX_XBLOCK_ASSEMBLE \<and> chain_data CryptNone (holds crc lay) bid bs)"
  by (auto simp: subs_hold_def)

lemma subs_hold_find:
  assumes "subs_hold crc n subs D lay" and "D nid = Some bs"
  obtains bid where "(nid, bid, 0) \<in> set subs" and "length bs \<le> MAX_XBLOCK_ASSEMBLE"
    and "chain_data CryptNone (holds crc lay) bid bs"
proof -
  have "dom D = set (map fst subs)" using assms(1) by (simp only: subs_hold_def)
  then have "nid \<in> set (map fst subs)" using assms(2) by blast
  then obtain bid sub where e: "(nid, bid, sub) \<in> set subs" by auto
  from subs_hold_entry [OF assms(1) e] assms(2) e that show thesis by auto
qed

lemma subs_hold_names:
  assumes "subs_hold crc n subs D lay"
  shows "length subs = n" and "fst ` set subs = sub_nid ` {1..<Suc n}" and "distinct (map fst subs)"
    and "dom D = sub_nid ` {1..<Suc n}"
proof -
  have names: "map fst subs = map sub_nid [1..<Suc n]" and dom: "dom D = set (map fst subs)"
    using assms by (simp_all only: subs_hold_def)
  show "length subs = n" using arg_cong [OF names, of length] by simp
  show "fst ` set subs = sub_nid ` {1..<Suc n}" using arg_cong [OF names, of set] by (simp only: set_map set_upt)
  with dom show "dom D = sub_nid ` {1..<Suc n}" by (simp only: set_map)
  show "distinct (map fst subs)" unfolding names by (simp add: distinct_map inj_on_def sub_nid_inj)
qed

lemma subs_hold_step:
  assumes "lay_step crc lay lay'" and "subs_hold crc n subs D lay"
  shows "subs_hold crc n subs D lay'"
proof -
  have "holds crc lay \<le> holds crc lay'" using lay_stepD [OF assms(1)] by simp
  then have "chain_data CryptNone (holds crc lay) bid bs \<Longrightarrow> chain_data CryptNone (holds crc lay') bid bs" for bid bs
    by (erule_tac chain_data_mono) auto
  with assms(2) show ?thesis unfolding subs_hold_def by fast
qed

lemma building_step: "lay_step crc lay lay' \<Longrightarrow> building crc tb m D lay \<Longrightarrow> building crc tb m D lay'"
  unfolding building_def by (blast intro: subs_hold_step)

lemma subs_hold_fresh: "subs_hold crc n subs D lay \<Longrightarrow> n < k \<Longrightarrow> D (sub_nid k) = None"
proof -
  assume hold: "subs_hold crc n subs D lay" and "n < k"
  then have "sub_nid k \<notin> dom D" unfolding subs_hold_names(4) [OF hold] by (auto simp: sub_nid_inj)
  then show ?thesis by auto
qed

lemma subs_hold_snoc:
  assumes "subs_hold crc n subs D lay" and "chain_data CryptNone (holds crc lay) bid bs"
    and "length bs \<le> MAX_XBLOCK_ASSEMBLE"
  shows "subs_hold crc (Suc n) (subs @ [(sub_nid (Suc n), bid, 0)]) (D(sub_nid (Suc n) \<mapsto> bs)) lay"
proof -
  let ?nid = "sub_nid (Suc n)"
  note old = assms(1) [unfolded subs_hold_def]
  have names: "map fst subs @ [?nid] = map sub_nid [1..<Suc (Suc n)]"
    by (simp only: old upt_Suc_append [of 1 "Suc n"] map_append list.map)
  have "nid \<noteq> ?nid" if "(nid, bid', sub) \<in> set subs" for nid bid' sub
    using subs_hold_entry [OF assms(1) that] subs_hold_fresh [OF assms(1), of "Suc n"] by auto
  then have kept: "\<forall>(nid, bid', sub) \<in> set subs. sub = 0 \<and> (\<exists>bs'. (D(?nid \<mapsto> bs)) nid = Some bs' \<and>
      length bs' \<le> MAX_XBLOCK_ASSEMBLE \<and> chain_data CryptNone (holds crc lay) bid' bs')"
    using subs_hold_entry [OF assms(1)] by fastforce
  have "dom D = set (map fst subs)" using old by (simp only:)
  with names kept assms(2,3) show ?thesis
    unfolding subs_hold_def by (simp only: map_append list.map fst_conv set_append ball_Un dom_fun_upd option.simps if_False) simp
qed

lemma paged_maps_type:
  assumes "paged_maps pages m" and "m hid = Some bs"
  shows "hid mod 32 = 0" and "0 < hid" and "hid < 2 ^ 32"
proof -
  from assms(1) obtain css where css: "pages_hold pages css" "m = paged_map css" by (auto simp: paged_maps_def)
  note short = pages_hold_short [OF css(1)]
  from assms(2) css(2) paged_map_Some [OF short] obtain b i where
    b: "b < length css" "i < length (css ! b)" "hid = b * 65536 + Suc i * 32" by auto
  have "i < 2047" using short b(1,2) by (meson le_trans less_le_trans nth_mem)
  moreover have "length css \<le> 8" using css(1) pages_hold_length [OF css(1)] by (simp add: pages_hold_def)
  ultimately show "hid mod 32 = 0" "0 < hid" "hid < 2 ^ 32" using b(1) unfolding b(3)
    by (simp_all only: paged_hid) simp_all
qed

lemma paged_alloc_error: "paged_try_alloc pages bs \<noteq> Inl (WeIo msg)"
  by (auto simp: paged_try_alloc_def paged_room_def paged_start_new_page_def Let_def split: if_splits
      elim!: try_then.elims)

lemma paged_patch_error: "paged_patch_u32 pages hid off v \<noteq> Inl (WeIo msg)"
  by (auto simp: paged_patch_u32_def Let_def split: if_splits prod.splits)

lemma building_alloc:
  assumes "building crc tb m D lay" and "paged_try_alloc (tb_heap tb) bs = Inr (hid, heap)"
  shows "building crc (tb \<lparr> tb_heap := heap \<rparr>) (m(hid \<mapsto> bs)) D lay"
    and "m \<subseteq>\<^sub>m m(hid \<mapsto> bs)" and "cell_in (m(hid \<mapsto> bs)) D hid bs"
proof -
  have maps: "paged_maps (tb_heap tb) m" using assms(1) by (simp add: building_def)
  note new = paged_maps_alloc [OF maps assms(2)]
  have type: "hid mod 32 = 0" using new paged_maps_type(1) [of heap "m(hid \<mapsto> bs)" hid bs] by simp
  show "building crc (tb \<lparr> tb_heap := heap \<rparr>) (m(hid \<mapsto> bs)) D lay"
    using assms(1) new type unfolding building_def by simp
  show "m \<subseteq>\<^sub>m m(hid \<mapsto> bs)" using new by (auto simp: map_le_def)
  show "cell_in (m(hid \<mapsto> bs)) D hid bs" using new type by (simp add: cell_in_def hid_type_def)
qed

lemma building_sub:
  assumes "building crc tb m D lay" and "chain_data CryptNone (holds crc lay) bid bs"
    and "length bs \<le> MAX_XBLOCK_ASSEMBLE" and "tb_sub_counter tb < 2 ^ 26"
  defines "nid \<equiv> sub_nid (tb_sub_counter tb + 1)"
  shows "building crc (tb \<lparr> tb_sub_counter := tb_sub_counter tb + 1, tb_subs := tb_subs tb @ [(nid, bid, 0)],
      tb_extra := e \<rparr>) m (D(nid \<mapsto> bs)) lay"
    and "D \<subseteq>\<^sub>m D(nid \<mapsto> bs)" and "cell_in m (D(nid \<mapsto> bs)) nid bs" and "nid mod 2 ^ 32 = nid"
proof -
  have subs: "subs_hold crc (tb_sub_counter tb) (tb_subs tb) D lay" using assms(1) by (simp add: building_def)
  have "D nid = None" using subs_hold_fresh [OF subs, of "tb_sub_counter tb + 1"] by (simp add: nid_def)
  then show "D \<subseteq>\<^sub>m D(nid \<mapsto> bs)" by (auto simp: map_le_def)
  have small: "nid < 2 ^ 32" using assms(4) by (simp add: nid_def sub_nid_def)
  then show "nid mod 2 ^ 32 = nid" by simp
  show "cell_in m (D(nid \<mapsto> bs)) nid bs" using small by (simp add: cell_in_def nid_def sub_nid_type)
  show "building crc (tb \<lparr> tb_sub_counter := tb_sub_counter tb + 1, tb_subs := tb_subs tb @ [(nid, bid, 0)],
      tb_extra := e \<rparr>) m (D(nid \<mapsto> bs)) lay"
    using assms(1) subs_hold_snoc [OF subs assms(2,3)] by (simp add: building_def nid_def)
qed

lemma alloc_tc_value_run:
  assumes "length bs \<le> MAX_XBLOCK_ASSEMBLE" and "tb_sub_counter tb < 2 ^ 26"
  shows "lay_run crc (building crc tb m D) (alloc_tc_value crc bs tb)
    (\<lambda>(hnid, tb') lay. \<exists>m' D'. building crc tb' m' D' lay \<and> m \<subseteq>\<^sub>m m' \<and> D \<subseteq>\<^sub>m D' \<and> cell_in m' D' hnid bs \<and>
       tb_sub_counter tb' \<le> tb_sub_counter tb + 1)" (is "lay_run _ _ _ ?P")
proof (cases "MAX_HEAP_VALUE_SIZE < length bs")
  case True
  have "length bs \<le> I32_MAX" using assms(1) by (simp add: MAX_XBLOCK_ASSEMBLE_def I32_MAX_def)
  note run = lay_run_frame [OF lay_spec_run [OF write_data_chain_spec [OF this, of crc "\<lambda>_. True"]],
    where F = "building crc tb m D"]
  have written: "lay_run crc (\<lambda>lay. True \<and> building crc tb m D lay) (write_data_chain crc bs)
      (\<lambda>bid lay. chain_data CryptNone (holds crc lay) bid bs \<and> building crc tb m D lay)"
    by (rule run, rule building_step)
  have "lay_run crc (\<lambda>lay. chain_data CryptNone (holds crc lay) bid bs \<and> building crc tb m D lay)
      (lay_ret (sub_nid (tb_sub_counter tb + 1) mod 2 ^ 32, tb \<lparr> tb_sub_counter := tb_sub_counter tb + 1,
        tb_subs := tb_subs tb @ [(sub_nid (tb_sub_counter tb + 1), bid, 0)],
        tb_extra := saturating_add64 (tb_extra tb) (length bs) \<rparr>)) ?P" for bid
    by (rule lay_run_ret, elim conjE) (use building_sub [OF _ _ assms] in fastforce)
  with written True show ?thesis
    by (simp add: alloc_tc_value_def next_subnode_nid_eq lay_run_bind)
next
  case False
  have "lay_run crc (building crc tb m D) (lay_lift (paged_try_alloc (tb_heap tb) bs))
      (\<lambda>x lay. building crc tb m D lay \<and> paged_try_alloc (tb_heap tb) bs = Inr x)"
    by (rule lay_run_lift) (simp_all add: paged_alloc_error)
  moreover have "lay_run crc (\<lambda>lay. building crc tb m D lay \<and> paged_try_alloc (tb_heap tb) bs = Inr x)
      (case x of (hid, heap) \<Rightarrow> lay_ret (hid, tb \<lparr> tb_heap := heap \<rparr>)) ?P" for x
    by (cases x) (auto intro!: lay_run_ret, use building_alloc in fastforce)
  ultimately show ?thesis
    using False by (simp add: alloc_tc_value_def lay_run_bind)
qed

subsection \<open>The end of a table\<close>

text \<open>What a file must give back of a table: its subnodes, listed and read.\<close>

lemma chain_bid:
  assumes "chain_data crypt S bid bs" and "\<And>b p. S b p \<Longrightarrow> serves crc file bbt b p"
  shows "bid < 2 ^ 64"
  using assms(1)
proof cases
  case (chain_leaf)
  then show ?thesis using serves_bid [OF assms(2)] by blast
next
  case (chain_xblock leaves)
  then show ?thesis using serves_bid [OF assms(2)] by (auto simp only: xblock_of_def)
next
  case (chain_xxblock groups)
  then show ?thesis using serves_bid [OF assms(2)] by blast
qed simp

lemma subs_resolve:
  assumes "subs_hold crc n subs D lay" and "holds crc lay bid_sub (slblock_payload (sort_key fst subs))"
    and "0 < bid_sub" and "8 + 24 * n \<le> MAX_BLOCK_DATA"
    and "\<forall>b p. holds crc lay b p \<longrightarrow> serves crc file bbt b p" and "D nid = Some bs"
  shows "yields (resolve_subnode crc file bbt bid_sub CryptNone nid) bs"
proof -
  let ?es = "sort_key fst subs"
  note names = subs_hold_names [OF assms(1)]
  have "n < 2 ^ 26" using assms(4) by (simp add: MAX_BLOCK_DATA_def)
  then have small: "sub_nid k < 2 ^ 64" if "k \<in> {1..<Suc n}" for k using that by (simp add: sub_nid_def)
  have ok: "\<forall>e\<in>set ?es. slentry_ok e"
  proof
    fix e assume "e \<in> set ?es"
    moreover obtain nid bid sub where "e = (nid, bid, sub)" by (cases e)
    ultimately have e: "e = (nid, bid, sub)" "(nid, bid, sub) \<in> set subs" by simp_all
    from subs_hold_entry [OF assms(1) e(2)] obtain bs where
      "sub = 0" and chain: "chain_data CryptNone (holds crc lay) bid bs" by blast
    have "nid \<in> fst ` set subs" using e(2) by force
    then have "nid < 2 ^ 64" using names(2) small by auto
    moreover have "bid < 2 ^ 64" using chain_bid [OF chain] assms(5) by blast
    ultimately show "slentry_ok e" using \<open>sub = 0\<close> by (simp add: slentry_ok_def e(1))
  qed
  have "length (concat (map slentry_bytes ?es)) = length subs * 24"
    using length_concat_width [of "map slentry_bytes ?es" 24] by simp
  then have fits: "length (slblock_payload ?es) \<le> MAX_BLOCK_DATA"
    using assms(4) names(1) by (simp add: slblock_payload_eq)
  have "serves crc file bbt bid_sub (slblock_payload ?es)" using assms(2,5) by blast
  note listed = list_subnode_leaf [OF this assms(3) fits ok]
  from subs_hold_find [OF assms(1,6)] obtain bid where e: "(nid, bid, 0) \<in> set subs"
    and small: "length bs \<le> MAX_XBLOCK_ASSEMBLE" and chain: "chain_data CryptNone (holds crc lay) bid bs" .
  have "find (\<lambda>e. fst e = fst (nid, bid, 0 :: nat)) ?es = Some (nid, bid, 0)"
    using e by (intro find_distinct [OF sort_key_distinct [OF names(3)]]) simp
  then have found: "find (\<lambda>e. se_nid e = nid) (map entry_of ?es) = Some (entry_of (nid, bid, 0))"
    by (simp add: find_map comp_def entry_of_def)
  have entry: "yields (find_subnode_entry crc file bbt bid_sub nid) (Some (entry_of (nid, bid, 0)))"
    unfolding find_subnode_entry_def by (rule yields_bind [OF listed]) (simp add: found)
  have "yields (read_block_data crc file bbt bid CryptNone) bs"
    using assms(5) by (intro read_chain [OF chain _ small]) blast
  then show ?thesis
    unfolding resolve_subnode_def using assms(3)
    by (auto simp: bid_is_null_def entry_of_def intro!: yields_bind [OF entry])
qed

text \<open>What the loaded table shows of the rows, the heap and the subnodes it was built from.\<close>

definition table_shows ::
  "TableContext \<Rightarrow> TcColumnTuple list \<Rightarrow> nat \<Rightarrow> bytes list \<Rightarrow> (Hid \<rightharpoonup> bytes) \<Rightarrow> (u32 \<rightharpoonup> bytes) \<Rightarrow> bool" where
  "table_shows t columns w rows m D \<longleftrightarrow>
     row_reads t rows w \<and> tc_row_count t = length rows \<and> ti_columns (tc_info t) = map column_desc columns \<and>
     (\<forall>hid bs. m hid = Some bs \<longrightarrow> heap_get (tc_heap t) hid = Inr bs) \<and>
     (\<forall>p\<in>cell_places columns w (length rows). hid_type (read_u32 p (concat rows)) \<noteq> 0 \<longrightarrow>
        tc_cell_subnodes t (read_u32 p (concat rows)) = D (read_u32 p (concat rows)))"

definition columns_fit :: "TcColumnTuple list \<Rightarrow> nat \<Rightarrow> bool" where
  "columns_fit columns w \<longleftrightarrow>
     (\<forall>c\<in>set columns. column_ok c) \<and> length columns < 256 \<and> 0 < w \<and> w \<le> MAX_BLOCK_DATA \<and>
     (\<forall>(prop_id, prop_type, ib, cb, i_bit) \<in> set columns. ib + cb \<le> w)"

lemma cell_places_inside:
  assumes "columns_fit columns w" and "p \<in> cell_places columns w n"
  shows "p + 4 \<le> n * w"
proof -
  from assms(2) obtain i c where p: "i < n" "c \<in> set columns" "p = i * w + cd_ib_data (column_desc c)"
    "cd_cb_data (column_desc c) = 4" by (auto simp: cell_places_def)
  obtain prop_id prop_type ib cb i_bit where c: "c = (prop_id, prop_type, ib, cb, i_bit)" by (cases c)
  with assms(1) p have "ib + 4 \<le> w" "p = i * w + ib" by (auto simp: columns_fit_def column_desc_def)
  moreover have "i * w + w \<le> n * w" using p(1) mult_le_mono1 [of "Suc i" n w] by simp
  ultimately show ?thesis by linarith
qed

lemma finished_table_loads:
  assumes "columns_fit columns w" and "rows \<noteq> []" and "\<forall>r\<in>set rows. length r = w"
    and "2 * w * length rows \<le> MAX_XBLOCK_ASSEMBLE" and "a < 2 ^ 32" and "n < 2 ^ 26"
    and "paged_maps heap m'" and "m \<subseteq>\<^sub>m m'" and "m' hid = Some (info_bytes columns w a (sub_nid (Suc n)))"
    and "hid < 2 ^ 32" and "D (sub_nid (Suc n)) = None"
    and "subs_hold crc (Suc n) subs (D(sub_nid (Suc n) \<mapsto> concat (padded_matrix (concat rows) w))) lay"
    and "holds crc lay bid_sub (slblock_payload (sort_key fst subs))"
    and "0 < bid_sub" and "8 + 24 * Suc n \<le> MAX_BLOCK_DATA"
    and "\<forall>p\<in>cell_places columns w (length rows).
       read_u32 p (concat rows) = 0 \<or> (\<exists>bs. cell_in m D (read_u32 p (concat rows)) bs)"
    and "\<forall>b p. holds crc lay b p \<longrightarrow> serves crc file bbt b p"
  shows "\<exists>t. yields (load_from_table_bids crc file bbt (paged_finalize heap hid) bid_sub CryptNone) t \<and>
    table_shows t columns w rows m D \<and>
    tc_row_ids t = load_row_ids (tc_heap t) (info_of columns w a (sub_nid (Suc n))) (length rows)"
proof -
  let ?nid = "sub_nid (Suc n)" and ?m = "concat rows"
  let ?resolve = "resolve_subnode crc file bbt bid_sub CryptNone"
  let ?D = "D(?nid \<mapsto> concat (padded_matrix ?m w))"
  from paged_maps_reads [OF assms(7), of hid] obtain h where
    h: "heap_parse (paged_finalize heap hid) (node_block_size (paged_finalize heap hid)) = Inr h"
    "hh_hid_user_root (hp_header h) = hid mod 4294967296"
    "\<And>hid bs. m' hid = Some bs \<Longrightarrow> heap_get h hid = Inr bs" by blast
  have root: "heap_get h (hh_hid_user_root (hp_header h)) = Inr (info_bytes columns w a ?nid)"
    using h(2) h(3) [OF assms(9)] assms(10) by simp
  note fit = assms(1) [unfolded columns_fit_def]
  have resolve: "yields (?resolve nid) bs" if "?D nid = Some bs" for nid bs
    using subs_resolve [OF assms(12-15,17) that] .
  have len: "length ?m = length rows * w" using length_concat_width assms(3) by blast
  moreover have "0 < length ?m" using len assms(2) fit by simp
  ultimately have m: "w dvd length ?m" "?m \<noteq> []" by (auto simp del: concat_eq_Nil_conv)
  have w: "0 < w" "w \<le> MAX_BLOCK_DATA" "w < 65536" using fit by (auto simp: MAX_BLOCK_DATA_def)
  have unpacked: "extract_rows_per_block (concat (padded_matrix ?m w)) w = Inr (?m, length rows)"
    using extract_padded [OF w(1,2) m] len w(1) by simp
  have "?D ?nid = Some (concat (padded_matrix ?m w))" by simp
  from yields_bind [where f = "\<lambda>payload. rd_lift (extract_rows_per_block payload w)", OF resolve [OF this] yields_lift [OF unpacked]]
  have rows: "yields (rd_bind (?resolve ?nid) (\<lambda>payload. rd_lift (extract_rows_per_block payload w))) (?m, length rows)" .
  have cells: "\<forall>p\<in>cell_places columns w (length rows). p + 4 \<le> length ?m \<longrightarrow> cell_resolves ?resolve ?D (read_u32 p ?m)"
  proof (intro ballI impI)
    fix p assume "p \<in> cell_places columns w (length rows)"
    from bspec [OF assms(16) this] show "cell_resolves ?resolve ?D (read_u32 p ?m)"
    proof (elim disjE exE)
      fix bs assume "cell_in m D (read_u32 p ?m) bs"
      then have "hid_type (read_u32 p ?m) = 0 \<or> ?D (read_u32 p ?m) = Some bs"
        using assms(11) by (auto simp: cell_in_def split: if_splits)
      with resolve show ?thesis by (auto simp: cell_resolves_def)
    qed (simp add: cell_resolves_def)
  qed
  have nid: "?nid < 2 ^ 32" "hid_type ?nid \<noteq> 0" using assms(6) by (simp_all add: sub_nid_def hid_type_def)
  from tc_loads [OF h(1) root _ _ w(1,3) assms(5) nid rows cells] fit obtain t where
    t: "yields (tc_load_inner (paged_finalize heap hid) (Some ?resolve)) t" "tc_heap t = h"
    "tc_info t = info_of columns w a ?nid" "tc_row_data t = ?m" "tc_row_size t = w" "tc_row_count t = length rows"
    "tc_row_ids t = load_row_ids h (info_of columns w a ?nid) (length rows)"
    "\<And>p. p \<in> cell_places columns w (length rows) \<Longrightarrow> p + 4 \<le> length ?m \<Longrightarrow> hid_type (read_u32 p ?m) \<noteq> 0 \<Longrightarrow>
      tc_cell_subnodes t (read_u32 p ?m) = ?D (read_u32 p ?m)" by blast
  have "tc_cell_subnodes t (read_u32 p ?m) = D (read_u32 p ?m)"
    if p: "p \<in> cell_places columns w (length rows)" "hid_type (read_u32 p ?m) \<noteq> 0" for p
  proof -
    have "read_u32 p ?m \<noteq> 0" using p(2) by (auto simp: hid_type_def)
    with assms(16) p obtain bs where "D (read_u32 p ?m) = Some bs" by (auto simp: cell_in_def)
    with assms(11) t(8) [OF p(1) _ p(2)] cell_places_inside [OF assms(1) p(1)] show ?thesis by (auto simp: len)
  qed
  then have "table_shows t columns w rows m D"
    using t(2-6) assms(3,8) h(3) by (auto simp: table_shows_def row_reads_def info_of_def map_leD)
  with t(1,2,7) show ?thesis unfolding load_from_table_bids_def by blast
qed

lemma lay_bind_lift [simp]:
  "lay_bind (lay_lift (Inr x)) f = f x" "lay_bind (lay_lift (Inl e)) f = lay_fail e"
  by (simp_all add: fun_eq_iff lay_bind_def lay_lift_def lay_fail_def)

lemma lay_bind_ret: "lay_bind (lay_ret x) f = f x"
  by (simp add: fun_eq_iff lay_bind_def lay_ret_def)

lemma building_patch:
  assumes "building crc tb m D lay" and "m hid = Some bs" and "off + 4 \<le> length bs"
  shows "\<exists>heap. paged_patch_u32 (tb_heap tb) hid off v = Inr heap \<and>
    building crc (tb \<lparr> tb_heap := heap \<rparr>) (m(hid \<mapsto> overwrite off (le_bytes 4 v) bs)) D lay"
  using paged_maps_patch [of "tb_heap tb" m hid bs off v] assms by (auto simp: building_def dom_def)

text \<open>The schema with both references in place, in a heap that keeps all it held.\<close>

lemma schema_placed:
  assumes "paged_maps heap m" and "paged_try_alloc heap (tcinfo_bytes columns w) = Inr (hid, heap1)"
  obtains heap2 where "paged_patch_u32 heap1 hid 10 a = Inr heap2"
    and "\<And>b. \<exists>heap3 m3. paged_patch_u32 heap2 hid 14 b = Inr heap3 \<and> paged_maps heap3 m3 \<and> m \<subseteq>\<^sub>m m3 \<and>
      m3 hid = Some (info_bytes columns w a b) \<and> hid < 2 ^ 32"
proof -
  let ?i = "tcinfo_bytes columns w"
  note new = paged_maps_alloc [OF assms]
  then have maps: "paged_maps heap1 (m(hid \<mapsto> ?i))" "(m(hid \<mapsto> ?i)) hid = Some ?i" by simp_all
  have len: "18 \<le> length ?i" by (simp add: length_tcinfo)
  from paged_maps_patch [OF maps, of 10 a] len obtain heap2 where heap2:
    "paged_patch_u32 heap1 hid 10 a = Inr heap2"
    "paged_maps heap2 (m(hid \<mapsto> overwrite 10 (le_bytes 4 a) ?i))" by (auto simp del: fun_upd_apply)
  have "\<exists>heap3 m3. paged_patch_u32 heap2 hid 14 b = Inr heap3 \<and> paged_maps heap3 m3 \<and> m \<subseteq>\<^sub>m m3 \<and>
      m3 hid = Some (info_bytes columns w a b) \<and> hid < 2 ^ 32" for b
  proof -
    from paged_maps_patch [OF heap2(2), of hid _ 14 b] len obtain heap3 where heap3:
      "paged_patch_u32 heap2 hid 14 b = Inr heap3"
      "paged_maps heap3 (m(hid \<mapsto> overwrite 14 (le_bytes 4 b) (overwrite 10 (le_bytes 4 a) ?i)))"
      by (auto simp: fun_upd_same simp del: fun_upd_apply)
    have "m \<subseteq>\<^sub>m m(hid \<mapsto> info_bytes columns w a b)" using new by (auto simp: map_le_def)
    with heap3 new show ?thesis unfolding tcinfo_patched
      by (intro exI [where x = heap3] exI [where x = "m(hid \<mapsto> info_bytes columns w a b)"]) simp
  qed
  with heap2(1) that show thesis by blast
qed

text \<open>A finished table, as any file that holds its blocks gives it back.\<close>

definition table_served ::
  "(bytes \<Rightarrow> 32 word) \<Rightarrow> TcColumnTuple list \<Rightarrow> nat \<Rightarrow> u32 \<Rightarrow> bytes list \<Rightarrow> (Hid \<rightharpoonup> bytes) \<Rightarrow> (u32 \<rightharpoonup> bytes) \<Rightarrow>
   TableBuilt \<Rightarrow> Layout \<Rightarrow> bool" where
  "table_served crc columns w a rows m D built lay \<longleftrightarrow>
     0 < length (tt_heap built) \<and> length (tt_heap built) \<le> 8 * MAX_BLOCK_DATA \<and>
     (\<forall>file bbt. (\<forall>b p. holds crc lay b p \<longrightarrow> serves crc file bbt b p) \<longrightarrow> tt_bid_sub built < 2 ^ 64 \<and>
       (\<exists>t b. yields (load_from_table_bids crc file bbt (tt_heap built) (tt_bid_sub built) CryptNone) t \<and>
          table_shows t columns w rows m D \<and>
          tc_row_ids t = load_row_ids (tc_heap t) (info_of columns w a b) (length rows)))"

lemma finish_table_run:
  assumes "columns_fit columns w" and "rows \<noteq> []" and "\<forall>r\<in>set rows. length r = w"
    and "2 * w * length rows \<le> MAX_XBLOCK_ASSEMBLE" and "a < 2 ^ 32" and "tb_sub_counter tb < 2 ^ 26"
    and "\<forall>p\<in>cell_places columns w (length rows).
       read_u32 p (concat rows) = 0 \<or> (\<exists>bs. cell_in m D (read_u32 p (concat rows)) bs)"
  shows "lay_run crc (building crc tb m D) (finish_table crc columns w a (concat rows) tb)
    (table_served crc columns w a rows m D)"
proof (cases "paged_try_alloc (tb_heap tb) (tcinfo_bytes columns w)")
  case (Inl e)
  then show ?thesis using paged_alloc_error by (auto simp: finish_table_def intro!: lay_run_fail)
next
  case (Inr r)
  obtain hid heap1 where r: "r = (hid, heap1)" by (cases r)
  let ?n = "tb_sub_counter tb" and ?nid = "sub_nid (Suc (tb_sub_counter tb))" and ?m = "concat rows"
  let ?D = "D(?nid \<mapsto> concat (padded_matrix ?m w))"
  let ?subs = "\<lambda>bid. tb_subs tb @ [(?nid, bid, 0)]"
  note fit = assms(1) [unfolded columns_fit_def]
  show ?thesis
  proof (rule lay_run_pre)
    fix lay0 assume lay0: "building crc tb m D lay0"
    then have maps: "paged_maps (tb_heap tb) m" by (simp add: building_def)
    from schema_placed [OF maps Inr [unfolded r], of a] obtain heap2 where heap2:
      "paged_patch_u32 heap1 hid 10 a = Inr heap2"
      "\<And>b. \<exists>heap3 m3. paged_patch_u32 heap2 hid 14 b = Inr heap3 \<and> paged_maps heap3 m3 \<and> m \<subseteq>\<^sub>m m3 \<and>
        m3 hid = Some (info_bytes columns w a b) \<and> hid < 2 ^ 32" by blast
    from heap2(2) [of ?nid] obtain heap3 m3 where heap3: "paged_patch_u32 heap2 hid 14 ?nid = Inr heap3"
      "paged_maps heap3 m3" "m \<subseteq>\<^sub>m m3" "m3 hid = Some (info_bytes columns w a ?nid)" "hid < 2 ^ 32" by blast
    have nid: "?nid mod 4294967296 = ?nid" using assms(6) by (simp add: sub_nid_def)
    have fresh: "D ?nid = None" using lay0 subs_hold_fresh by (fastforce simp: building_def)
    have len: "length ?m = length rows * w" using length_concat_width assms(3) by blast
    moreover have "0 < length ?m" using len assms(2) fit by simp
    ultimately have mat: "w dvd length ?m" "?m \<noteq> []" "2 * length ?m \<le> I32_MAX" "2 * length ?m \<le> MAX_XBLOCK_ASSEMBLE"
      using assms(4) by (auto simp del: concat_eq_Nil_conv simp: I32_MAX_def MAX_XBLOCK_ASSEMBLE_def mult.commute)
    have w: "0 < w" "w \<le> MAX_BLOCK_DATA" using fit by simp_all
    have padded: "length (concat (padded_matrix ?m w)) \<le> MAX_XBLOCK_ASSEMBLE"
      using length_padded [OF w mat(2)] mat(4) by linarith
    let ?leaf = "\<lambda>bid. add_subnode_leaf (?subs bid)"
    let ?done = "\<lambda>e bid_sub. \<lparr> tt_heap = paged_finalize heap3 hid, tt_bid_sub = bid_sub, tt_extra_content_bytes = e \<rparr>"
    have eq: "finish_table crc columns w a ?m tb = lay_bind (write_row_matrix_tree crc ?m w) (\<lambda>(bid, n).
        lay_bind (?leaf bid) (\<lambda>bid_sub. lay_ret (?done (saturating_add64 (tb_extra tb) n) bid_sub)))"
      unfolding finish_table_def Inr r by (simp add: heap2(1) next_subnode_nid_eq nid heap3(1) case_prod_unfold)
    have step1: "lay_run crc (\<lambda>l. l = lay0) (write_row_matrix_tree crc ?m w)
        (\<lambda>x lay. subs_hold crc (Suc ?n) (?subs (fst x)) ?D lay)"
    proof -
      have "lay_run crc (\<lambda>lay. True \<and> subs_hold crc ?n (tb_subs tb) D lay) (write_row_matrix_tree crc ?m w)
          (\<lambda>x lay. chain_data CryptNone (holds crc lay) (fst x) (concat (padded_matrix ?m w)) \<and> subs_hold crc ?n (tb_subs tb) D lay)"
        by (rule lay_run_frame [OF lay_spec_run [OF write_row_matrix_spec [OF w mat(1-3)]] subs_hold_step])
      then show ?thesis
        by (rule lay_run_weaken) (use lay0 padded in \<open>auto simp: building_def intro: subs_hold_snoc\<close>)
    qed
    have step2: "lay_run crc (\<lambda>lay. subs_hold crc (Suc ?n) (?subs bid) ?D lay)
        (lay_bind (?leaf bid) (\<lambda>bid_sub. lay_ret (?done e bid_sub))) (table_served crc columns w a rows m D)" for bid e
    proof (rule lay_run_pre)
      fix lay1 assume subs: "subs_hold crc (Suc ?n) (?subs bid) ?D lay1"
      note names = subs_hold_names [OF subs]
      show "lay_run crc (\<lambda>l. l = lay1) (lay_bind (?leaf bid) (\<lambda>bid_sub. lay_ret (?done e bid_sub))) (table_served crc columns w a rows m D)"
      proof (cases "8 + 24 * Suc ?n \<le> MAX_BLOCK_DATA")
        case False
        then have "\<exists>msg. add_subnode_leaf (?subs bid) lay1 = Some (Inl (WeLayout msg), lay1)"
          using names(1) by (intro add_subnode_leaf_refuses) simp
        then show ?thesis by (auto simp: lay_run_def lay_bind_def)
      next
        case True
        with names(1) have fits: "8 + 24 * length (?subs bid) \<le> MAX_BLOCK_DATA" by simp
        have "lay_run crc (\<lambda>lay. True \<and> subs_hold crc (Suc ?n) (?subs bid) ?D lay) (?leaf bid)
            (\<lambda>bid_sub lay. (0 < bid_sub \<and> holds crc lay bid_sub (slblock_payload (sort_key fst (?subs bid)))) \<and>
               subs_hold crc (Suc ?n) (?subs bid) ?D lay)"
          by (rule lay_run_frame [OF lay_spec_run [OF add_subnode_leaf_spec [OF names(3) fits]] subs_hold_step])
        then have leaf: "lay_run crc (\<lambda>l. l = lay1) (?leaf bid)
            (\<lambda>bid_sub lay. (0 < bid_sub \<and> holds crc lay bid_sub (slblock_payload (sort_key fst (?subs bid)))) \<and>
               subs_hold crc (Suc ?n) (?subs bid) ?D lay)"
          by (rule lay_run_weaken) (use subs in auto)
        have "table_served crc columns w a rows m D (?done e bid_sub) lay"
          if "0 < bid_sub" "holds crc lay bid_sub (slblock_payload (sort_key fst (?subs bid)))"
            "subs_hold crc (Suc ?n) (?subs bid) ?D lay" for bid_sub lay
          unfolding table_served_def
        proof (intro conjI allI impI)
          show "0 < length (tt_heap (?done e bid_sub))" "length (tt_heap (?done e bid_sub)) \<le> 8 * MAX_BLOCK_DATA"
            using paged_maps_size [OF heap3(2), of hid] by simp_all
          fix "file" bbt assume serves: "\<forall>b p. holds crc lay b p \<longrightarrow> serves crc file bbt b p"
          then have "serves crc file bbt bid_sub (slblock_payload (sort_key fst (?subs bid)))" using that(2) by blast
          from serves_bid [OF this] show "tt_bid_sub (?done e bid_sub) < 2 ^ 64" by simp
          from finished_table_loads [OF assms(1-6) heap3(2-5) fresh that(3,2,1) True assms(7) serves]
          show "\<exists>t b. yields (load_from_table_bids crc file bbt (tt_heap (?done e bid_sub)) (tt_bid_sub (?done e bid_sub)) CryptNone) t \<and>
              table_shows t columns w rows m D \<and> tc_row_ids t = load_row_ids (tc_heap t) (info_of columns w a b) (length rows)"
            unfolding TableBuilt.simps by blast
        qed
        then show ?thesis by (intro lay_run_bind [OF leaf] lay_run_ret) blast
      qed
    qed
    show "lay_run crc (\<lambda>l. l = lay0) (finish_table crc columns w a ?m tb) (table_served crc columns w a rows m D)"
      unfolding eq by (rule lay_run_bind [OF step1]) (simp add: case_prod_unfold step2)
  qed
qed

text \<open>A text cell of a loaded table.\<close>

lemma shown_string:
  assumes "table_shows t columns w rows m D" and "i < length rows" and "find_column t prop_id = Some d"
    and "cd_cb_data d = 4" and "cd_prop_type d = 0x001F" and "cd_ib_data d + 4 \<le> w"
    and "cell_in m D (read_u32 (cd_ib_data d) (rows ! i)) (utf16le_bytes s)" and "scalar_str s"
  shows "get_row_string t i prop_id = Inr (Some s)"
proof (rule row_string(2) [OF _ assms(2-4,6,5) refl _ _ assms(8)])
  let ?h = "read_u32 (cd_ib_data d) (rows ! i)"
  note shown = assms(1) [unfolded table_shows_def]
  then show "row_reads t rows w" "?h \<noteq> 0" using assms(7) by (simp_all add: cell_in_def)
  have "d \<in> set (map column_desc columns)" using assms(3) shown by (auto simp: find_column_def find_Some_iff)
  then have "i * w + cd_ib_data d \<in> cell_places columns w (length rows)"
    using assms(2,4,5) by (auto simp: cell_places_def)
  moreover have "read_u32 (i * w + cd_ib_data d) (concat rows) = ?h"
    using read_row_field(1) [OF _ assms(2,6)] shown by (simp add: row_reads_def)
  ultimately show "if hid_type ?h = 0 then heap_get (tc_heap t) ?h = Inr (utf16le_bytes s)
      else tc_cell_subnodes t ?h = Some (utf16le_bytes s)"
    using assms(7) shown by (auto simp: cell_in_def split: if_splits)
qed

subsection \<open>The cells of a row\<close>

text \<open>The cells allocated since \<^verbatim>\<open>m\<close> and \<^verbatim>\<open>D\<close>, with the references they got.\<close>

definition cells_built ::
  "(bytes \<Rightarrow> 32 word) \<Rightarrow> (Hid \<rightharpoonup> bytes) \<Rightarrow> (u32 \<rightharpoonup> bytes) \<Rightarrow> nat \<Rightarrow> (u32 \<times> bytes) list \<Rightarrow> TableBuild \<Rightarrow> Layout \<Rightarrow>
   bool" where
  "cells_built crc m D k cells tb lay \<longleftrightarrow>
     tb_sub_counter tb \<le> k \<and>
     (\<exists>m' D'. building crc tb m' D' lay \<and> m \<subseteq>\<^sub>m m' \<and> D \<subseteq>\<^sub>m D' \<and> (\<forall>(hnid, bs)\<in>set cells. cell_in m' D' hnid bs))"

lemma cells_built_start: "building crc tb m D lay \<Longrightarrow> cells_built crc m D (tb_sub_counter tb) [] tb lay"
  unfolding cells_built_def by (intro conjI exI [where x = m] exI [where x = D]) simp_all

lemma alloc_cell_run:
  assumes "length bs \<le> MAX_XBLOCK_ASSEMBLE" and "k < 2 ^ 26"
  shows "lay_run crc (cells_built crc m D k cells tb) (alloc_tc_value crc bs tb)
    (\<lambda>(hnid, tb'). cells_built crc m D (k + 1) (cells @ [(hnid, bs)]) tb')"
  unfolding cells_built_def
proof (intro lay_run_conj lay_run_ex)
  fix m1 D1
  assume k: "tb_sub_counter tb \<le> k"
  let ?P = "\<lambda>(hnid, tb') lay. tb_sub_counter tb' \<le> k + 1 \<and> (\<exists>m' D'. building crc tb' m' D' lay \<and> m \<subseteq>\<^sub>m m' \<and>
    D \<subseteq>\<^sub>m D' \<and> (\<forall>(hnid, bs)\<in>set (cells @ [(hnid, bs)]). cell_in m' D' hnid bs))"
  have step: "lay_run crc (\<lambda>l. l = lay) (alloc_tc_value crc bs tb) ?P"
    if q: "building crc tb m1 D1 lay" "m \<subseteq>\<^sub>m m1" "D \<subseteq>\<^sub>m D1" "\<forall>(hnid, bs)\<in>set cells. cell_in m1 D1 hnid bs" for lay
  proof (rule lay_run_weaken [OF alloc_tc_value_run [OF assms(1)]])
    show "tb_sub_counter tb < 2 ^ 26" using k assms(2) by simp
    show "l = lay \<Longrightarrow> building crc tb m1 D1 l" for l using q(1) by simp
    fix x l
    assume "(case x of (hnid, tb') \<Rightarrow> \<lambda>lay. \<exists>m' D'. building crc tb' m' D' lay \<and> m1 \<subseteq>\<^sub>m m' \<and> D1 \<subseteq>\<^sub>m D' \<and>
      cell_in m' D' hnid bs \<and> tb_sub_counter tb' \<le> tb_sub_counter tb + 1) l"
    then obtain hnid tb' m' D' where x: "x = (hnid, tb')" "building crc tb' m' D' l" "m1 \<subseteq>\<^sub>m m'" "D1 \<subseteq>\<^sub>m D'"
      "cell_in m' D' hnid bs" "tb_sub_counter tb' \<le> tb_sub_counter tb + 1" by (cases x) auto
    have "\<forall>(hnid, bs)\<in>set (cells @ [(hnid, bs)]). cell_in m' D' hnid bs"
      using q(4) x(5) cell_in_mono [OF _ x(3,4)] by fastforce
    with x(2) map_le_trans [OF q(2) x(3)] map_le_trans [OF q(3) x(4)] have built: "\<exists>m' D'. building crc tb' m' D' l \<and>
        m \<subseteq>\<^sub>m m' \<and> D \<subseteq>\<^sub>m D' \<and> (\<forall>(hnid, bs)\<in>set (cells @ [(hnid, bs)]). cell_in m' D' hnid bs)" by blast
    have "tb_sub_counter tb' \<le> k + 1" using x(6) k by linarith
    then show "?P x l" unfolding x(1) prod.case using built by (rule conjI)
  qed
  show "lay_run crc (\<lambda>lay. building crc tb m1 D1 lay \<and> m \<subseteq>\<^sub>m m1 \<and> D \<subseteq>\<^sub>m D1 \<and>
      (\<forall>(hnid, bs)\<in>set cells. cell_in m1 D1 hnid bs)) (alloc_tc_value crc bs tb) ?P"
    by (rule lay_run_pre, elim conjE) (rule step)
qed

text \<open>Pieces of a row put in place one after another, and the bits of its map.\<close>

lemma overwrite_zeros: "length ys \<le> n \<Longrightarrow> overwrite 0 ys (replicate n x) = ys @ replicate (n - length ys) x"
  by (simp add: overwrite_def)

lemma mark_present_last:
  "length p = s \<Longrightarrow> i_bit < 8 \<Longrightarrow> mark_present s i_bit (p @ [v]) = p @ [v OR push_bit i_bit 1]"
  by (simp add: mark_present_def nth_append list_update_append)

subsection \<open>The contract of a builder of rows\<close>

definition built_row_ids :: "(nat \<Rightarrow> 'r \<Rightarrow> u32) \<Rightarrow> 'r list \<Rightarrow> (u32 \<times> bytes) list" where
  "built_row_ids row_id rows = map (\<lambda>i. (row_id i (rows ! i), le_bytes 4 i)) [0..<length rows]"

definition build_rows ::
  "(bytes \<Rightarrow> 32 word) \<Rightarrow> TcColumnTuple list \<Rightarrow> nat \<Rightarrow> (nat \<times> 'r \<Rightarrow> built_rows \<Rightarrow> built_rows lay) \<Rightarrow> 'r list \<Rightarrow>
   TableBuilt lay" where
  "build_rows crc columns w add_row rows =
     lay_bind (lay_each add_row (enumerate 0 rows) (table_start, [], [])) (\<lambda>(tb, row_matrix, row_index_records).
     lay_bind (lay_lift (build_bth_u32_checked paged_try_alloc paged_patch_u32 (tb_heap tb) 4 4 row_index_records))
       (\<lambda>(hid_row_index, heap). finish_table crc columns w hid_row_index row_matrix (tb \<lparr> tb_heap := heap \<rparr>)))"

lemma try_then_Inl: "try_then r f = Inl e \<longleftrightarrow> r = Inl e \<or> (\<exists>x. r = Inr x \<and> f x = Inl e)"
  by (cases r) auto

lemma u32_leaf_error: "try_fold (u32_leaf_entry k e) recs leaf \<noteq> Inl (WeIo msg)"
proof (induction recs arbitrary: leaf)
  case (Cons r recs)
  have "u32_leaf_entry k e r leaf \<noteq> Inl (WeIo msg)"
    by (auto simp: u32_leaf_entry_def Let_def split: prod.splits)
  with Cons show ?case by (cases "u32_leaf_entry k e r leaf") auto
qed simp

lemma build_bth_error:
  "build_bth_u32_checked paged_try_alloc paged_patch_u32 heap k e recs \<noteq> Inl (WeIo msg)"
  using u32_leaf_error paged_alloc_error paged_patch_error
  by (auto simp: build_bth_u32_checked_def Let_def try_then_Inl split: if_splits)

text \<open>A heap of one page that has room left: nothing small is refused.\<close>

definition small_heap :: "PagedHeapBuilder \<Rightarrow> nat \<Rightarrow> nat \<Rightarrow> bool" where
  "small_heap pages n c \<longleftrightarrow>
     (\<exists>p m. pages = [p] \<and> length (pg_data p) \<le> n \<and> length (pg_allocations p) \<le> c \<and> paged_maps pages m)"

lemma small_start: "small_heap (tb_heap table_start) 12 0"
proof -
  have "paged_maps (tb_heap table_start) Map.empty" by (simp add: table_start_def paged_maps_new)
  then show ?thesis
    unfolding small_heap_def by (auto simp: table_start_def paged_new_def page_page0_def)
qed

lemma small_alloc:
  assumes "small_heap pages n c" and "n + length bs + 2 * c + 10 \<le> MAX_BLOCK_DATA" and "c < 2047"
  obtains hid pages' where "paged_try_alloc pages bs = Inr (hid, pages')"
    and "small_heap pages' (n + length bs) (Suc c)"
proof -
  from assms(1) obtain p m where p: "pages = [p]" "length (pg_data p) \<le> n" "length (pg_allocations p) \<le> c"
    and maps: "paged_maps pages m" by (auto simp: small_heap_def)
  let ?p = "p \<lparr> pg_data := pg_data p @ bs,
      pg_allocations := pg_allocations p @ [(length (pg_data p), length (pg_data p) + length bs)] \<rparr>"
  let ?hid = "Suc (length (pg_allocations p)) * 32 mod 2 ^ 32"
  have "page_fits p (length bs)" using assms(2,3) p(2,3)
    by (auto simp: page_fits_def page_projected_len_def MAX_BLOCK_DATA_def Let_def)
  then have alloc: "paged_try_alloc pages bs = Inr (?hid, [?p])" unfolding p(1) by (rule paged_alloc_single)
  have "paged_maps [?p] (m(?hid \<mapsto> bs))" using paged_maps_alloc [OF maps alloc] by blast
  then have "small_heap [?p] (n + length bs) (Suc c)" using p(2,3) by (auto simp: small_heap_def)
  with alloc show thesis by (rule that)
qed

text \<open>A cell that stays on the heap.\<close>

lemma small_cell:
  assumes "small_heap (tb_heap tb) n c" and "n + length bs + 2 * c + 10 \<le> MAX_BLOCK_DATA" and "c < 2047"
    and "length bs \<le> MAX_HEAP_VALUE_SIZE"
  obtains hid heap where "alloc_tc_value crc bs tb = lay_ret (hid, tb \<lparr> tb_heap := heap \<rparr>)"
    and "small_heap heap (n + length bs) (Suc c)"
proof -
  from small_alloc [OF assms(1-3)] obtain hid heap where "paged_try_alloc (tb_heap tb) bs = Inr (hid, heap)"
    "small_heap heap (n + length bs) (Suc c)" .
  then show thesis using assms(4) by (intro that) (simp_all add: alloc_tc_value_def)
qed

lemma spans_size: "spans a cs = spans a ds \<Longrightarrow> length (concat cs) = length (concat ds)"
proof (induction cs arbitrary: a ds)
  case Nil
  then show ?case by (cases ds) auto
next
  case (Cons c cs)
  from Cons.prems obtain d ds' where ds: "ds = d # ds'" by (cases ds) auto
  from Cons.prems have len: "length c = length d" and "spans (a + length c) cs = spans (a + length d) ds'"
    unfolding ds by auto
  then have "spans (a + length d) cs = spans (a + length d) ds'" by metis
  from Cons.IH [OF this] len show ?case unfolding ds by simp
qed

lemma paged_maps_page:
  assumes "paged_maps [p] m"
  obtains cs where "length (pg_data p) = 12 + length (concat cs)" and "pg_allocations p = spans 12 cs"
proof -
  from assms obtain css where css: "pages_hold [p] css" by (auto simp: paged_maps_def)
  then have "page_open 12 p (last css)" by (simp add: pages_hold_def header_size_of_def)
  then show thesis using that by (auto simp: page_open_def page_bytes_def)
qed

lemma small_patch:
  assumes "small_heap pages n c" and "paged_patch_u32 pages hid off v = Inr pages'" and "paged_maps pages' m"
  shows "small_heap pages' n c"
proof -
  from assms(1) obtain p m0 where p: "pages = [p]" "length (pg_data p) \<le> n" "length (pg_allocations p) \<le> c"
    "paged_maps [p] m0" by (auto simp: small_heap_def)
  from assms(2) obtain q where q: "pages' = [q]" "pg_allocations q = pg_allocations p"
    by (auto simp: p(1) paged_patch_u32_def Let_def split: if_splits prod.splits)
  from paged_maps_page [OF p(4)] obtain cs where cs: "length (pg_data p) = 12 + length (concat cs)"
    "pg_allocations p = spans 12 cs" .
  from paged_maps_page [of q] assms(3) q(1) obtain ds where ds: "length (pg_data q) = 12 + length (concat ds)"
    "pg_allocations q = spans 12 ds" by blast
  have "length (pg_data q) = length (pg_data p)"
    using cs ds q(2) spans_size [of 12 cs ds] by simp
  with p q assms(3) show ?thesis by (auto simp: small_heap_def)
qed

lemma small_bth:
  assumes "small_heap heap n c" and "\<forall>(key, data)\<in>set recs. length data = 4"
    and "n + 8 + 8 * length recs + 2 * c + 12 \<le> MAX_BLOCK_DATA" and "c < 2046"
  obtains rid heap' where "build_bth_u32_checked paged_try_alloc paged_patch_u32 heap 4 4 recs = Inr (rid, heap')"
    and "small_heap heap' (n + 8 + 8 * length recs) (c + 2)"
proof -
  let ?leaf = "concat (map (\<lambda>(key, data). u32_key 4 key @ data) (sort_key fst recs))"
  have leaf: "try_fold (u32_leaf_entry 4 4) (sort_key fst recs) [] = Inr ?leaf"
    using assms(2) by (subst u32_leaf_fold) auto
  have "\<forall>r\<in>set (map (\<lambda>(key, data). u32_key 4 key @ data) (sort_key fst recs)). length r = 8"
    using assms(2) by (auto simp: length_u32_key)
  from length_concat_width [OF this] have len: "length ?leaf = 8 * length recs" by simp
  have room: "n + length (bth_header_bytes 4 4) + 2 * c + 10 \<le> MAX_BLOCK_DATA" "c < 2047"
    "n + 8 + length ?leaf + 2 * Suc c + 10 \<le> MAX_BLOCK_DATA" "Suc c < 2047"
    using assms(3,4) len by simp_all
  from small_alloc [OF assms(1) room(1,2)] obtain r h1 where
    h1: "paged_try_alloc heap (bth_header_bytes 4 4) = Inr (r, h1)" "small_heap h1 (n + 8) (Suc c)"
    unfolding length_bth_header .
  from small_alloc [OF h1(2) room(3,4)] obtain l h2 where
    h2: "paged_try_alloc h1 ?leaf = Inr (l, h2)" "small_heap h2 (n + 8 + 8 * length recs) (Suc (Suc c))"
    unfolding len .
  from assms(1) obtain m where "paged_maps heap m" by (auto simp: small_heap_def)
  from paged.bth_block [OF this h1(1) h2(1)] obtain h3 m3 where
    h3: "paged_patch_u32 h2 r 4 l = Inr h3" "paged_maps h3 m3" by auto
  have "small_heap h3 (n + 8 + 8 * length recs) (c + 2)" using h2(2) h3 by (auto intro: small_patch)
  moreover have "build_bth_u32_checked paged_try_alloc paged_patch_u32 heap 4 4 recs = Inr (r, h3)"
    by (simp add: build_bth_u32_checked_def h1(1) h2(1) h3(1) leaf del: le_bytes.simps)
  ultimately show thesis by (intro that)
qed

lemma lay_spec_ok:
  assumes "lay_spec crc Q m P" and "layout_ok lay" and "Q lay" and "io_ok lay"
  shows "\<exists>x lay'. m lay = Some (Inr x, lay') \<and> lay_step crc lay lay' \<and> P x lay'"
proof -
  from assms(1-3) obtain r lay' where "m lay = Some (r, lay')"
    "case r of Inl e \<Rightarrow> \<not> io_ok lay \<and> (\<exists>msg. e = WeIo msg) | Inr x \<Rightarrow> lay_step crc lay lay' \<and> P x lay'"
    unfolding lay_spec_def by blast
  with assms(4) show ?thesis by (cases r) auto
qed

text \<open>The end of a small table: only the file can fail.\<close>

lemma small_finish:
  assumes "layout_ok lay" and "io_ok lay" and "columns_fit columns w" and "matrix \<noteq> []" and "w dvd length matrix"
    and "2 * length matrix \<le> I32_MAX" and "small_heap (tb_heap tb) n c"
    and "n + 18 + 8 * length columns + 2 * c + 10 \<le> MAX_BLOCK_DATA" and "c < 2047"
    and "tb_subs tb = []"
  shows "\<exists>built lay'. finish_table crc columns w rid matrix tb lay = Some (Inr built, lay')"
proof -
  have "n + length (tcinfo_bytes columns w) + 2 * c + 10 \<le> MAX_BLOCK_DATA"
    using assms(8) by (simp add: length_tcinfo)
  from small_alloc [OF assms(7) this assms(9)] obtain hid h1 where
    h1: "paged_try_alloc (tb_heap tb) (tcinfo_bytes columns w) = Inr (hid, h1)" .
  from assms(7) obtain m where "paged_maps (tb_heap tb) m" by (auto simp: small_heap_def)
  from schema_placed [OF this h1, of rid] obtain h2 where h2: "paged_patch_u32 h1 hid 10 rid = Inr h2"
    "\<And>b. \<exists>h3 m3. paged_patch_u32 h2 hid 14 b = Inr h3 \<and> paged_maps h3 m3 \<and> m \<subseteq>\<^sub>m m3 \<and>
       m3 hid = Some (info_bytes columns w rid b) \<and> hid < 2 ^ 32" by blast
  obtain nid k where nid: "next_subnode_nid (tb_sub_counter tb) = (nid, k)" by (cases "next_subnode_nid (tb_sub_counter tb)")
  from h2(2) [of "nid mod 4294967296"] obtain h3 where
    h3: "paged_patch_u32 h2 hid 14 (nid mod 4294967296) = Inr h3" by blast
  have w: "0 < w" "w \<le> MAX_BLOCK_DATA" using assms(3) by (simp_all add: columns_fit_def)
  from lay_spec_ok [OF write_row_matrix_spec [OF w assms(5,4,6), of crc] assms(1) TrueI assms(2)] obtain bid k lay1 where
    m: "write_row_matrix_tree crc matrix w lay = Some (Inr (bid, k), lay1)" and step: "lay_step crc lay lay1" by auto
  note lay1 = lay_stepD [OF step]
  have "distinct (map fst [(nid, bid, 0 :: nat)])" "8 + 24 * length [(nid, bid, 0 :: nat)] \<le> MAX_BLOCK_DATA"
    by (simp_all add: MAX_BLOCK_DATA_def)
  from lay_spec_ok [OF add_subnode_leaf_spec [OF this, of crc] _ TrueI] lay1 assms(2) obtain s lay2 where
    "add_subnode_leaf [(nid, bid, 0)] lay1 = Some (Inr s, lay2)" by blast
  then show ?thesis
    unfolding finish_table_def h1 by (simp add: h2(1) nid h3 assms(10) lay_bind_def m lay_ret_def)
qed

locale row_builder =
  fixes crc :: "bytes \<Rightarrow> 32 word"
    and columns :: "TcColumnTuple list"
    and w :: nat
    and add_row :: "nat \<times> 'r \<Rightarrow> built_rows \<Rightarrow> built_rows lay"
    and row_id :: "nat \<Rightarrow> 'r \<Rightarrow> u32"
    and valid :: "'r \<Rightarrow> bool"
    and row_ok :: "(Hid \<rightharpoonup> bytes) \<Rightarrow> (u32 \<rightharpoonup> bytes) \<Rightarrow> nat \<Rightarrow> 'r \<Rightarrow> bytes \<Rightarrow> bool"
    and space :: "'r \<Rightarrow> nat"
    and small :: "'r \<Rightarrow> bool"
  assumes fit: "columns_fit columns w" and narrow: "w \<le> 64" and few: "length columns \<le> 16"
    and add_row_small: "small x \<Longrightarrow> i < 500000 \<Longrightarrow> small_heap (tb_heap tb) n c \<Longrightarrow>
      n + space x + 2 * c + 26 \<le> MAX_BLOCK_DATA \<Longrightarrow> c < 2039 \<Longrightarrow>
      \<exists>heap row. add_row (i, x) (tb, matrix, index) =
        lay_ret (tb \<lparr> tb_heap := heap \<rparr>, matrix @ row, index @ [(row_id i x, le_bytes 4 i)]) \<and>
        small_heap heap (n + space x) (c + 8) \<and> length row = w"
    and add_row_run: "valid x \<Longrightarrow> i < 500000 \<Longrightarrow> tb_sub_counter tb < 2 ^ 25 \<Longrightarrow>
      lay_run crc (building crc tb m D) (add_row (i, x) (tb, matrix, index))
        (\<lambda>(tb', matrix', index') lay. \<exists>m' D' row. building crc tb' m' D' lay \<and> m \<subseteq>\<^sub>m m' \<and> D \<subseteq>\<^sub>m D' \<and>
           matrix' = matrix @ row \<and> index' = index @ [(row_id i x, le_bytes 4 i)] \<and> length row = w \<and>
           row_ok m' D' i x row \<and> tb_sub_counter tb' \<le> tb_sub_counter tb + 8)"
    and row_ok_mono: "row_ok m D i x row \<Longrightarrow> m \<subseteq>\<^sub>m m' \<Longrightarrow> D \<subseteq>\<^sub>m D' \<Longrightarrow> row_ok m' D' i x row"
    and row_ok_cells: "row_ok m D i x row \<Longrightarrow> d \<in> column_desc ` set columns \<Longrightarrow> cd_cb_data d = 4 \<Longrightarrow>
      cd_prop_type d \<in> {0x001F, 0x001E, 0x0102} \<Longrightarrow>
      read_u32 (cd_ib_data d) row = 0 \<or> (\<exists>bs. cell_in m D (read_u32 (cd_ib_data d) row) bs)"

context row_builder
begin

definition rows_ok :: "(Hid \<rightharpoonup> bytes) \<Rightarrow> (u32 \<rightharpoonup> bytes) \<Rightarrow> 'r list \<Rightarrow> bytes list \<Rightarrow> bool" where
  "rows_ok m D xs rows \<longleftrightarrow> length rows = length xs \<and> (\<forall>r\<in>set rows. length r = w) \<and>
     (\<forall>i<length xs. row_ok m D i (xs ! i) (rows ! i))"

definition rows_built :: "'r list \<Rightarrow> nat \<Rightarrow> built_rows \<Rightarrow> Layout \<Rightarrow> bool" where
  "rows_built xs k acc lay \<longleftrightarrow>
     (case acc of (tb, matrix, index) \<Rightarrow> \<exists>m D rows. building crc tb m D lay \<and> rows_ok m D (take k xs) rows \<and>
        matrix = concat rows \<and> index = built_row_ids row_id (take k xs) \<and> tb_sub_counter tb \<le> 8 * k)"

lemma rows_ok_mono: "rows_ok m D xs rows \<Longrightarrow> m \<subseteq>\<^sub>m m' \<Longrightarrow> D \<subseteq>\<^sub>m D' \<Longrightarrow> rows_ok m' D' xs rows"
  unfolding rows_ok_def using row_ok_mono by blast

lemma rows_ok_snoc:
  "rows_ok m D xs rows \<Longrightarrow> length row = w \<Longrightarrow> row_ok m D (length xs) x row \<Longrightarrow> rows_ok m D (xs @ [x]) (rows @ [row])"
  by (auto simp: rows_ok_def nth_append less_Suc_eq)

lemma built_row_ids_snoc:
  "built_row_ids row_id (xs @ [x]) = built_row_ids row_id xs @ [(row_id (length xs) x, le_bytes 4 (length xs))]"
  by (simp add: built_row_ids_def nth_append)

lemma rows_built_step:
  assumes "\<forall>x\<in>set xs. valid x" and "length xs \<le> 500000" and "k < length xs"
  shows "lay_run crc (rows_built xs k acc) (add_row (enumerate 0 xs ! k) acc) (rows_built xs (Suc k))"
proof -
  obtain tb matrix index where acc: "acc = (tb, matrix, index)" by (cases acc)
  have e: "enumerate 0 xs ! k = (k, xs ! k)" using assms(3) by (simp add: nth_enumerate_eq)
  have len: "length (take k xs) = k" "take (Suc k) xs = take k xs @ [xs ! k]"
    using assms(3) by (simp_all add: take_Suc_conv_app_nth)
  have step: "lay_run crc (\<lambda>lay. building crc tb m D lay) (add_row (k, xs ! k) acc) (rows_built xs (Suc k))"
    if "rows_ok m D (take k xs) rows" "matrix = concat rows" "index = built_row_ids row_id (take k xs)"
      "tb_sub_counter tb \<le> 8 * k" for m D rows
    unfolding acc
  proof (rule lay_run_weaken [OF add_row_run [where m = m and D = D]])
    show "valid (xs ! k)" "k < 500000" "tb_sub_counter tb < 2 ^ 25" using assms that(4) by auto
    fix x lay
    assume "(case x of (tb', matrix', index') \<Rightarrow> \<lambda>lay. \<exists>m' D' row. building crc tb' m' D' lay \<and> m \<subseteq>\<^sub>m m' \<and> D \<subseteq>\<^sub>m D' \<and>
      matrix' = matrix @ row \<and> index' = index @ [(row_id k (xs ! k), le_bytes 4 k)] \<and> length row = w \<and>
      row_ok m' D' k (xs ! k) row \<and> tb_sub_counter tb' \<le> tb_sub_counter tb + 8) lay"
    then obtain tb' m' D' row where x: "x = (tb', matrix @ row, index @ [(row_id k (xs ! k), le_bytes 4 k)])"
      "building crc tb' m' D' lay" "m \<subseteq>\<^sub>m m'" "D \<subseteq>\<^sub>m D'" "length row = w" "row_ok m' D' k (xs ! k) row"
      "tb_sub_counter tb' \<le> tb_sub_counter tb + 8" by (cases x) auto
    have "rows_ok m' D' (take (Suc k) xs) (rows @ [row])"
      using rows_ok_snoc [OF rows_ok_mono [OF that(1) x(3,4)] x(5), of "xs ! k"] x(6) len by simp
    moreover have "index @ [(row_id k (xs ! k), le_bytes 4 k)] = built_row_ids row_id (take (Suc k) xs)"
      using that(3) built_row_ids_snoc [of "take k xs" "xs ! k"] len by simp
    ultimately show "rows_built xs (Suc k) x lay"
      using x(2,7) that(2,4) unfolding rows_built_def x(1) prod.case
      by (intro exI [where x = m'] exI [where x = D'] exI [where x = "rows @ [row]"]) auto
  qed auto
  show ?thesis
    unfolding e
  proof (rule lay_run_pre)
    fix lay assume "rows_built xs k acc lay"
    then obtain m D rows where b: "building crc tb m D lay" "rows_ok m D (take k xs) rows"
      "matrix = concat rows" "index = built_row_ids row_id (take k xs)" "tb_sub_counter tb \<le> 8 * k"
      unfolding rows_built_def acc by auto
    show "lay_run crc (\<lambda>l. l = lay) (add_row (k, xs ! k) acc) (rows_built xs (Suc k))"
      by (rule lay_run_weaken [OF step [OF b(2-5)]]) (use b(1) in auto)
  qed
qed

lemma cells_of_rows:
  assumes "rows_ok m D xs rows"
  shows "\<forall>p\<in>cell_places columns w (length rows).
    read_u32 p (concat rows) = 0 \<or> (\<exists>bs. cell_in m D (read_u32 p (concat rows)) bs)"
proof
  fix p assume "p \<in> cell_places columns w (length rows)"
  then obtain i d where p: "i < length rows" "d \<in> column_desc ` set columns" "p = i * w + cd_ib_data d"
    "cd_cb_data d = 4" "cd_prop_type d \<in> {0x001F, 0x001E, 0x0102}" by (auto simp: cell_places_def)
  have "cd_ib_data d + 4 \<le> w"
    using fit p(2,4) by (auto simp: columns_fit_def column_desc_def split: prod.splits)
  with assms p(1) have "read_u32 p (concat rows) = read_u32 (cd_ib_data d) (rows ! i)"
    unfolding p(3) by (intro read_row_field(1)) (simp_all add: rows_ok_def)
  moreover have "row_ok m D i (xs ! i) (rows ! i)" using assms p(1) by (simp add: rows_ok_def)
  ultimately show "read_u32 p (concat rows) = 0 \<or> (\<exists>bs. cell_in m D (read_u32 p (concat rows)) bs)"
    using row_ok_cells [OF _ p(2,4,5)] by metis
qed

text \<open>The rows a loaded table shows, and their identifiers.\<close>

definition rows_read :: "'r list \<Rightarrow> TableContext \<Rightarrow> bool" where
  "rows_read xs t \<longleftrightarrow>
     (\<exists>m D rows. table_shows t columns w rows m D \<and> rows_ok m D xs rows) \<and>
     (\<forall>i<length xs. get_row_id t i =
        (if row_id i (xs ! i) mod 2 ^ 32 = 0 then None else Some (row_id i (xs ! i) mod 2 ^ 32)))"

definition table_reads :: "'r list \<Rightarrow> TableBuilt \<Rightarrow> Layout \<Rightarrow> bool" where
  "table_reads xs built lay \<longleftrightarrow>
     0 < length (tt_heap built) \<and> length (tt_heap built) \<le> 8 * MAX_BLOCK_DATA \<and>
     (\<forall>file bbt. (\<forall>b p. holds crc lay b p \<longrightarrow> serves crc file bbt b p) \<longrightarrow>
       tt_bid_sub built < 2 ^ 64 \<and>
       (\<exists>t. yields (load_from_table_bids crc file bbt (tt_heap built) (tt_bid_sub built) CryptNone) t \<and> rows_read xs t))"

theorem build_rows_run:
  assumes "\<forall>x\<in>set xs. valid x" and "length xs \<le> 500000" and "xs \<noteq> []"
  shows "lay_run crc (\<lambda>_. True) (build_rows crc columns w add_row xs) (table_reads xs)"
    (is "lay_run _ _ _ ?P")
  unfolding build_rows_def
proof (rule lay_run_bind)
  have "lay_run crc (rows_built xs 0 (table_start, [], [])) (lay_each add_row (enumerate 0 xs) (table_start, [], []))
      (rows_built xs (length (enumerate 0 xs)))"
    by (rule lay_run_each) (use rows_built_step [OF assms(1,2)] in simp)
  then show "lay_run crc (\<lambda>_. True) (lay_each add_row (enumerate 0 xs) (table_start, [], [])) (rows_built xs (length xs))"
  proof (rule lay_run_weaken)
    show "rows_built xs 0 (table_start, [], []) lay" for lay
      using building_start [of crc lay] unfolding rows_built_def prod.case
      by (intro exI [where x = Map.empty] exI [where x = "[]"]) (simp add: rows_ok_def built_row_ids_def table_start_def)
  qed simp
next
  fix acc :: built_rows
  obtain tb matrix index where acc: "acc = (tb, matrix, index)" by (cases acc)
  let ?finish = "\<lambda>(hid_row_index, heap). finish_table crc columns w hid_row_index matrix (tb \<lparr> tb_heap := heap \<rparr>)"
  let ?bth = "build_bth_u32_checked paged_try_alloc paged_patch_u32 (tb_heap tb) 4 4 index"
  have "lay_run crc (rows_built xs (length xs) acc) (lay_bind (lay_lift ?bth) ?finish) ?P"
  proof (rule lay_run_pre)
    fix lay assume "rows_built xs (length xs) acc lay"
    then obtain m D rows where b: "building crc tb m D lay" "rows_ok m D xs rows"
      "matrix = concat rows" "index = built_row_ids row_id xs" "tb_sub_counter tb \<le> 8 * length xs"
      unfolding rows_built_def acc by auto
    show "lay_run crc (\<lambda>l. l = lay) (lay_bind (lay_lift ?bth) ?finish) ?P"
    proof (cases ?bth)
      case (Inl e)
      then show ?thesis using build_bth_error by (auto intro!: lay_run_fail)
    next
      case (Inr r)
      obtain rid heap where r: "r = (rid, heap)" by (cases r)
      have maps: "paged_maps (tb_heap tb) m" using b(1) by (simp add: building_def)
      from paged.built_bth_u32 [OF maps Inr [unfolded r]] obtain m' l where m':
        "paged_maps heap m'" "m \<subseteq>\<^sub>m m'" "l \<noteq> 0" "l < 2 ^ 32" "(4 :: nat) \<le> 4"
        "m' rid = Some (overwrite 4 (le_bytes 4 l) (bth_header_bytes 4 4))"
        "m' l = Some (concat (map (\<lambda>(key, data). u32_key 4 key @ data) (sort_key fst index)))"
        "\<forall>(key, data)\<in>set index. length data = 4" .
      let ?tb = "tb \<lparr> tb_heap := heap \<rparr>"
      have building: "building crc ?tb m' D lay"
        using b(1) m'(1) paged_maps_type [OF m'(1)] by (auto simp: building_def dom_def)
      have ok: "rows_ok m' D xs rows" using rows_ok_mono [OF b(2) m'(2)] by simp
      have rows: "rows \<noteq> []" "\<forall>r\<in>set rows. length r = w" "length rows = length xs"
        using b(2) assms(3) by (auto simp: rows_ok_def)
      have "w * length rows \<le> 64 * 500000"
        using narrow assms(2) rows(3) by (intro mult_le_mono) simp_all
      then have size: "2 * w * length rows \<le> MAX_XBLOCK_ASSEMBLE" by (simp add: MAX_XBLOCK_ASSEMBLE_def)
      have count: "tb_sub_counter ?tb < 2 ^ 26" using b(5) assms(2) by simp
      have rid: "rid < 2 ^ 32" "rid \<noteq> 0" using paged_maps_type [OF m'(1,6)] by auto
      have run: "lay_run crc (building crc ?tb m' D) (finish_table crc columns w rid (concat rows) ?tb)
          (table_served crc columns w rid rows m' D)"
        by (rule finish_table_run [OF fit rows(1,2) size rid(1) count cells_of_rows [OF ok]])
      have read: "rows_read xs t" if t: "table_shows t columns w rows m' D"
        "tc_row_ids t = load_row_ids (tc_heap t) (info_of columns w rid c) (length rows)" for t c
      proof -
        have get: "heap_get (tc_heap t) hid = Inr bs" if "m' hid = Some bs" for hid bs
          using t(1) that by (simp add: table_shows_def)
        let ?recs = "map (map_prod (u32_key 4) id) (sort_key fst index)"
        have "\<forall>(key, data)\<in>set ?recs. length key = 4 \<and> length data = 4"
          using m'(8) by (auto simp: length_u32_key)
        from bth_readsI [OF get [OF m'(6)] get [OF m'(7) [unfolded u32_records]] this _ _ _ m'(3,4)]
        have "bth_reads (tc_heap t) rid 4 4 ?recs" by simp
        then have "tc_row_ids t = map (\<lambda>i. row_id i (xs ! i) mod 2 ^ 32) [0..<length xs]"
          unfolding t(2) rows(3) b(4) built_row_ids_def
          using assms(2) rid(2) by (intro load_row_ids_built) (simp_all add: info_of_def)
        with t(1) ok show ?thesis
          unfolding rows_read_def by (auto simp: row_id_loaded)
      qed
      have post: "?P built lay'" if "table_served crc columns w rid rows m' D built lay'" for built lay'
        using that read unfolding table_served_def table_reads_def by blast
      have "lay_run crc (\<lambda>l. l = lay) (finish_table crc columns w rid (concat rows) ?tb) ?P"
        by (rule lay_run_weaken [OF run _ post]) (use building in auto)
      then show ?thesis unfolding Inr r b(3) by simp
    qed
  qed
  then show "lay_run crc (rows_built xs (length xs) acc)
      (case acc of (tb, row_matrix, row_index_records) \<Rightarrow>
        lay_bind (lay_lift (build_bth_u32_checked paged_try_alloc paged_patch_u32 (tb_heap tb) 4 4 row_index_records))
          (\<lambda>(hid_row_index, heap). finish_table crc columns w hid_row_index row_matrix (tb \<lparr> tb_heap := heap \<rparr>))) ?P"
    by (simp add: acc)
qed

text \<open>A small table is built unless the file fails.\<close>

lemma each_small:
  assumes "\<forall>x\<in>set xs. small x" and "k + length xs \<le> 500000" and "small_heap (tb_heap tb) n c"
    and "n + sum_list (map space xs) + 2 * c + 16 * length xs + 10 \<le> MAX_BLOCK_DATA" and "c + 8 * length xs < 2047"
    and "length matrix = w * k" and "length index = k" and "\<forall>(key, data)\<in>set index. length data = 4"
  shows "\<exists>heap matrix' index'. lay_each add_row (enumerate k xs) (tb, matrix, index) =
      lay_ret (tb \<lparr> tb_heap := heap \<rparr>, matrix', index') \<and>
    small_heap heap (n + sum_list (map space xs)) (c + 8 * length xs) \<and> length matrix' = w * (k + length xs) \<and>
    length index' = k + length xs \<and> (\<forall>(key, data)\<in>set index'. length data = 4)"
  using assms
proof (induction xs arbitrary: k tb n c matrix index)
  case Nil
  then show ?case by (intro exI [where x = "tb_heap tb"] exI [where x = matrix] exI [where x = index]) simp
next
  case (Cons x xs)
  have "small x" "k < 500000" "n + space x + 2 * c + 26 \<le> MAX_BLOCK_DATA" "c < 2039"
    using Cons.prems(1,2,4,5) by simp_all
  from add_row_small [OF this(1,2) Cons.prems(3) this(3,4)] obtain heap row where
    row: "add_row (k, x) (tb, matrix, index) =
      lay_ret (tb \<lparr> tb_heap := heap \<rparr>, matrix @ row, index @ [(row_id k x, le_bytes 4 k)])"
    "small_heap heap (n + space x) (c + 8)" "length row = w" by blast
  let ?tb = "tb \<lparr> tb_heap := heap \<rparr>"
  have heap: "small_heap (tb_heap ?tb) (n + space x) (c + 8)" using row(2) by simp
  obtain heap' matrix' index' where rest: "lay_each add_row (enumerate (Suc k) xs)
      (?tb, matrix @ row, index @ [(row_id k x, le_bytes 4 k)]) = lay_ret (?tb \<lparr> tb_heap := heap' \<rparr>, matrix', index')"
    "small_heap heap' (n + space x + sum_list (map space xs)) (c + 8 + 8 * length xs)"
    "length matrix' = w * (Suc k + length xs)" "length index' = Suc k + length xs"
    "\<forall>(key, data)\<in>set index'. length data = 4"
    using Cons.IH [of "Suc k" ?tb "n + space x" "c + 8" "matrix @ row" "index @ [(row_id k x, le_bytes 4 k)]"]
      Cons.prems heap row(3) by auto
  show ?case
    using rest by (intro exI [where x = heap'] exI [where x = matrix'] exI [where x = index'])
      (simp add: row(1) lay_bind_ret add.assoc)
qed

theorem build_rows_small:
  assumes "\<forall>x\<in>set xs. small x" and "sum_list (map (\<lambda>x. space x + 32) xs) \<le> 7900" and "xs \<noteq> []"
    and "layout_ok lay" and "io_ok lay"
  shows "\<exists>built lay'. build_rows crc columns w add_row xs lay = Some (Inr built, lay')"
proof -
  have total: "sum_list (map space xs) + 32 * length xs \<le> 7900"
    using assms(2) by (simp add: sum_list_addf sum_list_triv mult.commute)
  let ?n = "12 + sum_list (map space xs)" and ?c = "8 * length xs"
  have room: "12 + sum_list (map space xs) + 2 * 0 + 16 * length xs + 10 \<le> MAX_BLOCK_DATA"
    "0 + 8 * length xs < 2047" "0 + length xs \<le> 500000"
    using total by (simp_all add: MAX_BLOCK_DATA_def)
  from each_small [OF assms(1) room(3) small_start room(1,2), of "[]" "[]"] obtain heap matrix index where
    rows: "lay_each add_row (enumerate 0 xs) (table_start, [], []) =
      lay_ret (table_start \<lparr> tb_heap := heap \<rparr>, matrix, index)" "small_heap heap ?n ?c"
    "length matrix = w * length xs" "length index = length xs" "\<forall>(key, data)\<in>set index. length data = 4" by auto
  have room2: "?n + 8 + 8 * length index + 2 * ?c + 12 \<le> MAX_BLOCK_DATA" "?c < 2046"
    using total rows(4) by (simp_all add: MAX_BLOCK_DATA_def)
  from small_bth [OF rows(2,5) room2] obtain rid heap' where
    bth: "build_bth_u32_checked paged_try_alloc paged_patch_u32 heap 4 4 index = Inr (rid, heap')"
    "small_heap heap' (?n + 8 + 8 * length index) (?c + 2)" .
  let ?tb = "table_start \<lparr> tb_heap := heap \<rparr> \<lparr> tb_heap := heap' \<rparr>"
  have w: "0 < w" using fit by (simp add: columns_fit_def)
  have "length matrix \<le> 64 * 7900" using narrow total rows(3) mult_le_mono [of w 64 "length xs" 7900] by simp
  moreover have "0 < length matrix" using rows(3) w assms(3) by simp
  ultimately have mat: "matrix \<noteq> []" "w dvd length matrix" "2 * length matrix \<le> I32_MAX"
    using rows(3) by (auto simp: I32_MAX_def)
  have heap: "small_heap (tb_heap ?tb) (?n + 8 + 8 * length index) (?c + 2)" "tb_subs ?tb = []"
    using bth(2) by (simp_all add: table_start_def)
  have room3: "?n + 8 + 8 * length index + 18 + 8 * length columns + 2 * (?c + 2) + 10 \<le> MAX_BLOCK_DATA" "?c + 2 < 2047"
    using total few rows(4) by (simp_all add: MAX_BLOCK_DATA_def)
  from small_finish [OF assms(4,5) fit mat heap(1) room3 heap(2), of crc rid]
  show ?thesis unfolding build_rows_def rows(1) by (simp add: lay_bind_ret bth(1))
qed

end

end
