(* ===== verification/Attachment_Table.thy ===== *)
theory Attachment_Table
  imports Table_Building
begin

text \<open>
  The attachment table of a message: its rows have the image one expects, so the contract of the row
  builder holds and the reader gets back every attachment that was listed.
\<close>

definition attachment_columns :: "TcColumnTuple list" where
  "attachment_columns = fst (build_template_tc_columns ATTACHMENT_TABLE_COLUMNS)"

lemma attachment_template: "build_template_tc_columns ATTACHMENT_TABLE_COLUMNS =
    ([(0x0E20, 0x0003, 0, 4, 0), (0x3704, 0x001F, 4, 4, 1), (0x3705, 0x0003, 8, 4, 2), (0x370B, 0x0003, 12, 4, 3),
      (0x67F2, 0x0003, 16, 4, 4), (0x67F3, 0x0003, 20, 4, 5)], 25)"
  by (simp add: build_template_tc_columns_def ATTACHMENT_TABLE_COLUMNS_def)

lemmas attachment_columns_eq = attachment_columns_def [unfolded attachment_template fst_conv]

subsection \<open>Rows\<close>

definition attachment_image :: "nat \<Rightarrow> attachment_row \<Rightarrow> u32 \<Rightarrow> bytes" where
  "attachment_image i row fname_hid =
     (case row of (attach_nid, sz, meth, filename) \<Rightarrow>
        (le_bytes 4 sz @ le_bytes 4 fname_hid @ le_bytes 4 (to_unsigned 32 meth) @ le_bytes 4 0xFFFFFFFF @
         le_bytes 4 (attach_nid mod 2 ^ 32) @ le_bytes 4 (i mod 2 ^ 32 + 1)) @ [0x3F])"

lemma attachment_row_image:
  "attachment_row_bytes attachment_columns 25 i row fname_hid = Inr (attachment_image i row fname_hid)"
proof -
  obtain attach_nid sz meth filename where row: "row = (attach_nid, sz, meth, filename)" by (cases row)
  let ?p = "le_bytes 4 sz @ le_bytes 4 fname_hid @ le_bytes 4 (to_unsigned 32 meth) @ le_bytes 4 0xFFFFFFFF @
    le_bytes 4 (attach_nid mod 2 ^ 32) @ le_bytes 4 (i mod 2 ^ 32 + 1)"
  have fields: "try_fold (put_attachment_column i row fname_hid 25) attachment_columns (replicate 25 0) = Inr (?p @ [0])"
    by (simp add: attachment_columns_eq row put_attachment_column_def attachment_cell_def overwrite_zeros overwrite_beyond)
  have marks: "fold (\<lambda>(_, _, _, _, i_bit). mark_present 24 i_bit) attachment_columns (p @ [0]) = p @ [0x3F]"
    if "length p = 24" for p
    unfolding attachment_columns_eq by (simp add: mark_present_last [OF that])
  show ?thesis
    unfolding attachment_row_bytes_def fields
    using marks [of ?p] by (simp add: attachment_columns_eq attachment_image_def row)
qed

lemma read_attachment_image:
  "read_u32 0 (attachment_image i (nid, sz, meth, name) hid) = sz mod 2 ^ 32"
  "read_u32 4 (attachment_image i (nid, sz, meth, name) hid) = hid mod 2 ^ 32"
  "read_u32 8 (attachment_image i (nid, sz, meth, name) hid) = to_unsigned 32 meth"
  "length (attachment_image i (nid, sz, meth, name) hid) = 25"
  using to_unsigned_less [of 32 meth]
  by (simp_all add: attachment_image_def read_u32_append2 read_le_field)

text \<open>What the rows of a finished table promise.\<close>

definition attachment_row_id :: "nat \<Rightarrow> attachment_row \<Rightarrow> u32" where
  "attachment_row_id i row = fst row mod 2 ^ 32"

definition attachment_valid :: "attachment_row \<Rightarrow> bool" where
  "attachment_valid row = (case row of (attach_nid, sz, meth, filename) \<Rightarrow>
     sz < 2 ^ 32 \<and> scalar_str filename \<and> length (utf16le_bytes filename) \<le> MAX_XBLOCK_ASSEMBLE)"

definition attachment_row_ok ::
  "(Hid \<rightharpoonup> bytes) \<Rightarrow> (u32 \<rightharpoonup> bytes) \<Rightarrow> nat \<Rightarrow> attachment_row \<Rightarrow> bytes \<Rightarrow> bool" where
  "attachment_row_ok m D i row bytes \<longleftrightarrow>
     (\<exists>hid. cell_in m D hid (utf16le_bytes (snd (snd (snd row)))) \<and> bytes = attachment_image i row hid)"

lemma add_attachment_row_run:
  assumes "attachment_valid row" and "i < 500000" and "tb_sub_counter tb < 2 ^ 25"
  shows "lay_run crc (building crc tb m D) (add_attachment_row crc attachment_columns 25 (i, row) (tb, matrix, index))
    (\<lambda>(tb', matrix', index') lay. \<exists>m' D' r. building crc tb' m' D' lay \<and> m \<subseteq>\<^sub>m m' \<and> D \<subseteq>\<^sub>m D' \<and>
       matrix' = matrix @ r \<and> index' = index @ [(attachment_row_id i row, le_bytes 4 i)] \<and> length r = 25 \<and>
       attachment_row_ok m' D' i row r \<and> tb_sub_counter tb' \<le> tb_sub_counter tb + 8)"
    (is "lay_run _ _ _ ?P")
proof -
  obtain attach_nid sz meth filename where row: "row = (attach_nid, sz, meth, filename)" by (cases row)
  let ?alloc = "\<lambda>(hid, tb') lay. \<exists>m' D'. building crc tb' m' D' lay \<and> m \<subseteq>\<^sub>m m' \<and> D \<subseteq>\<^sub>m D' \<and>
    cell_in m' D' hid (utf16le_bytes filename) \<and> tb_sub_counter tb' \<le> tb_sub_counter tb + 1"
  have size: "length (utf16le_bytes filename) \<le> MAX_XBLOCK_ASSEMBLE" "tb_sub_counter tb < 2 ^ 26"
    using assms by (simp_all add: attachment_valid_def row)
  have i: "i mod 2 ^ 32 = i" using assms(2) by simp
  note alloc = alloc_tc_value_run [OF size, of crc m D]
  have rest: "lay_run crc (?alloc x) (case x of (hid, tb') \<Rightarrow>
      lay_ret (tb', matrix @ attachment_image i row hid, index @ [(attachment_row_id i row, le_bytes 4 i)])) ?P" for x
  proof -
    obtain hid tb' where x: "x = (hid, tb')" by (cases x)
    have "?P (tb', matrix @ attachment_image i row hid, index @ [(attachment_row_id i row, le_bytes 4 i)]) lay"
      if "building crc tb' m' D' lay" "m \<subseteq>\<^sub>m m'" "D \<subseteq>\<^sub>m D'" "cell_in m' D' hid (utf16le_bytes filename)"
        "tb_sub_counter tb' \<le> tb_sub_counter tb + 1" for m' D' lay
      using that read_attachment_image(4) [of i attach_nid sz meth filename hid] unfolding prod.case
      by (intro exI [where x = m'] exI [where x = D'] exI [where x = "attachment_image i row hid"])
        (auto simp: attachment_row_ok_def row)
    then show ?thesis unfolding x by (auto intro!: lay_run_ret)
  qed
  have "add_attachment_row crc attachment_columns 25 (i, row) (tb, matrix, index) =
      lay_bind (alloc_tc_value crc (utf16le_bytes filename) tb) (\<lambda>(hid, tb').
        lay_ret (tb', matrix @ attachment_image i row hid, index @ [(attachment_row_id i row, le_bytes 4 i)]))"
    unfolding add_attachment_row_def prod.case row attachment_row_image i
    by (simp add: attachment_row_id_def)
  with lay_run_bind [OF alloc rest] show ?thesis by simp
qed

lemma attachment_cells:
  assumes "attachment_row_ok m D i row bytes" and "d \<in> column_desc ` set attachment_columns" and "cd_cb_data d = 4"
    and "cd_prop_type d \<in> {0x001F, 0x001E, 0x0102}"
  shows "read_u32 (cd_ib_data d) bytes = 0 \<or> (\<exists>bs. cell_in m D (read_u32 (cd_ib_data d) bytes) bs)"
proof -
  obtain attach_nid sz meth filename where row: "row = (attach_nid, sz, meth, filename)" by (cases row)
  from assms(1) obtain hid where hid: "cell_in m D hid (utf16le_bytes filename)" "bytes = attachment_image i row hid"
    by (auto simp: attachment_row_ok_def row)
  have "cd_ib_data d = 4" using assms(2,4) by (auto simp: attachment_columns_eq column_desc_def)
  moreover have "read_u32 4 bytes = hid"
    using cell_in_less [OF hid(1)] by (simp add: hid(2) row read_attachment_image)
  ultimately show ?thesis using hid(1) by auto
qed

text \<open>A row whose name stays on the heap.\<close>

definition attachment_space :: "attachment_row \<Rightarrow> nat" where
  "attachment_space row = length (utf16le_bytes (snd (snd (snd row))))"

definition attachment_small :: "attachment_row \<Rightarrow> bool" where
  "attachment_small row \<longleftrightarrow> attachment_space row \<le> MAX_HEAP_VALUE_SIZE"

lemma add_attachment_row_small:
  assumes "attachment_small row" and "i < 500000" and "small_heap (tb_heap tb) n c"
    and "n + attachment_space row + 2 * c + 26 \<le> MAX_BLOCK_DATA" and "c < 2039"
  shows "\<exists>heap r. add_attachment_row crc attachment_columns 25 (i, row) (tb, matrix, index) =
      lay_ret (tb \<lparr> tb_heap := heap \<rparr>, matrix @ r, index @ [(attachment_row_id i row, le_bytes 4 i)]) \<and>
    small_heap heap (n + attachment_space row) (c + 8) \<and> length r = 25"
proof -
  obtain attach_nid sz meth filename where row: "row = (attach_nid, sz, meth, filename)" by (cases row)
  let ?bs = "utf16le_bytes filename"
  have room: "n + length ?bs + 2 * c + 10 \<le> MAX_BLOCK_DATA" "c < 2047" "length ?bs \<le> MAX_HEAP_VALUE_SIZE"
    using assms(1,4,5) by (simp_all add: attachment_small_def attachment_space_def row)
  from small_cell [OF assms(3) room, of crc] obtain hid heap where
    cell: "alloc_tc_value crc ?bs tb = lay_ret (hid, tb \<lparr> tb_heap := heap \<rparr>)" "small_heap heap (n + length ?bs) (Suc c)" .
  have "small_heap heap (n + length ?bs) (c + 8)"
    using cell(2) by (fastforce simp: small_heap_def)
  moreover have "i mod 2 ^ 32 = i" using assms(2) by simp
  ultimately show ?thesis
    by (intro exI [where x = heap] exI [where x = "attachment_image i row hid"])
      (simp add: add_attachment_row_def row cell(1) lay_bind_ret attachment_row_image read_attachment_image
        attachment_space_def attachment_row_id_def)
qed

interpretation attachments:
  row_builder crc attachment_columns 25 "add_attachment_row crc attachment_columns 25" attachment_row_id
    attachment_valid attachment_row_ok attachment_space attachment_small for crc
proof unfold_locales
  show "columns_fit attachment_columns 25"
    by (simp add: columns_fit_def attachment_columns_eq column_ok_def MAX_BLOCK_DATA_def)
  show "length attachment_columns \<le> 16" by (simp add: attachment_columns_eq)
  show "attachment_row_ok m D i x row \<Longrightarrow> m \<subseteq>\<^sub>m m' \<Longrightarrow> D \<subseteq>\<^sub>m D' \<Longrightarrow> attachment_row_ok m' D' i x row" for m D i x row m' D'
    unfolding attachment_row_ok_def using cell_in_mono by blast
qed ((rule add_attachment_row_run; assumption) | (rule add_attachment_row_small; assumption) |
    (rule attachment_cells; assumption) | simp)+

subsection \<open>The table\<close>

lemma attachment_column:
  assumes "table_shows t attachment_columns 25 rows m D"
  shows "find_column t 0x0E20 = Some (column_desc (0x0E20, 0x0003, 0, 4, 0))"
    and "find_column t 0x3704 = Some (column_desc (0x3704, 0x001F, 4, 4, 1))"
    and "find_column t 0x3705 = Some (column_desc (0x3705, 0x0003, 8, 4, 2))"
  using assms by (simp_all add: table_shows_def find_column_def attachment_columns_eq column_desc_def)

definition attachment_read :: "TableContext \<Rightarrow> nat \<Rightarrow> attachment_row \<Rightarrow> bool" where
  "attachment_read t i row = (case row of (attach_nid, sz, meth, filename) \<Rightarrow>
     get_row_id t i = (if attach_nid mod 2 ^ 32 = 0 then None else Some (attach_nid mod 2 ^ 32)) \<and>
     get_row_u32 t i 0x0E20 = Some sz \<and> get_row_u32 t i 0x3705 = Some (to_unsigned 32 meth) \<and>
     get_row_string t i 0x3704 = Inr (Some filename))"

lemma attachments_read:
  assumes "attachments.rows_read xs t" and "\<forall>x\<in>set xs. attachment_valid x" and "i < length xs"
  shows "attachment_read t i (xs ! i)"
proof -
  from assms(1) obtain m D rows where t: "table_shows t attachment_columns 25 rows m D"
    "attachments.rows_ok m D xs rows" unfolding attachments.rows_read_def by blast
  obtain attach_nid sz meth filename where x: "xs ! i = (attach_nid, sz, meth, filename)" by (cases "xs ! i")
  have i: "i < length rows" using t(2) assms(3) by (simp add: attachments.rows_ok_def)
  have "attachment_row_ok m D i (xs ! i) (rows ! i)"
    using t(2) assms(3) unfolding attachments.rows_ok_def by blast
  then obtain hid where hid: "cell_in m D hid (utf16le_bytes filename)"
    "rows ! i = attachment_image i (attach_nid, sz, meth, filename) hid"
    unfolding attachment_row_ok_def x snd_conv by blast
  have "attachment_valid (xs ! i)" using assms(2,3) by simp
  then have valid: "sz < 2 ^ 32" "scalar_str filename" unfolding x attachment_valid_def by simp_all
  note fields = read_attachment_image [of i attach_nid sz meth filename hid, folded hid(2)]
  have reads: "row_reads t rows 25" using t(1) by (simp add: table_shows_def)
  note columns = attachment_column [OF t(1)]
  have "get_row_u32 t i 0x0E20 = Some sz" "get_row_u32 t i 0x3705 = Some (to_unsigned 32 meth)"
    using row_u32 [OF reads i columns(1)] row_u32 [OF reads i columns(3)] valid(1) fields(1,3)
    by (simp_all add: column_desc_def)
  moreover have "get_row_string t i 0x3704 = Inr (Some filename)"
    using shown_string [OF t(1) i columns(2)] hid(1) valid(2) fields(2) cell_in_less [OF hid(1)]
    by (simp add: column_desc_def)
  moreover have "get_row_id t i = (if attach_nid mod 2 ^ 32 = 0 then None else Some (attach_nid mod 2 ^ 32))"
    using assms(1,3) x by (simp add: attachments.rows_read_def attachment_row_id_def)
  ultimately show ?thesis by (simp add: attachment_read_def x)
qed

lemma attachment_table_rows:
  "rows \<noteq> [] \<Longrightarrow> build_attachment_table_strategy_a crc rows =
    build_rows crc attachment_columns 25 (add_attachment_row crc attachment_columns 25) rows"
  by (simp add: build_attachment_table_strategy_a_def build_rows_def attachment_template attachment_columns_eq)

text \<open>
  C12: the attachment table reads back. Building it always returns; an input or output error means a
  write to the temporary file fails, and any other error refuses the table (its heap or its index
  would not fit). Otherwise the layout keeps its invariant and what it held, and from any file that
  serves its blocks the reader loads a table with one row per attachment, in order, whose identifier,
  size, method and file name are those given, however long the name. A small table is never refused:
  with names of at most 2048 bytes each and of at most 7900 bytes together, each counted with 32 more,
  only a failing write can stop it.
\<close>

theorem attachment_table_round_trip:
  assumes "layout_ok lay" and "rows \<noteq> []" and "length rows \<le> 500000" and "\<forall>row\<in>set rows. attachment_valid row"
  shows "\<exists>r lay'. build_attachment_table_strategy_a crc rows lay = Some (r, lay') \<and>
    (case r of
       Inl e \<Rightarrow> (\<exists>msg. e = WeIo msg) \<longrightarrow> \<not> io_ok lay
     | Inr built \<Rightarrow> layout_ok lay' \<and> holds crc lay \<le> holds crc lay' \<and>
         (\<forall>file bbt. (\<forall>b p. holds crc lay' b p \<longrightarrow> serves crc file bbt b p) \<longrightarrow>
           (\<exists>t. yields (load_from_table_bids crc file bbt (tt_heap built) (tt_bid_sub built) CryptNone) t \<and>
              tc_row_count t = length rows \<and> (\<forall>i<length rows. attachment_read t i (rows ! i))))) \<and>
    ((\<forall>row\<in>set rows. attachment_small row) \<and> sum_list (map (\<lambda>row. attachment_space row + 32) rows) \<le> 7900 \<and>
       io_ok lay \<longrightarrow> (\<exists>built. r = Inr built))"
proof -
  note eq = attachment_table_rows [OF assms(2), of crc]
  from attachments.build_rows_run [OF assms(4,3,2), of crc] assms(1) obtain r lay' where
    r: "build_attachment_table_strategy_a crc rows lay = Some (r, lay')"
    "case r of Inl e \<Rightarrow> (\<exists>msg. e = WeIo msg) \<longrightarrow> \<not> io_ok lay
     | Inr built \<Rightarrow> lay_step crc lay lay' \<and> attachments.table_reads crc rows built lay'"
    unfolding lay_run_def eq by blast
  have count: "attachments.rows_read rows t \<Longrightarrow> tc_row_count t = length rows" for t
    unfolding attachments.rows_read_def by (auto simp: table_shows_def attachments.rows_ok_def)
  have small: "\<exists>built. r = Inr built"
    if "\<forall>row\<in>set rows. attachment_small row" "sum_list (map (\<lambda>row. attachment_space row + 32) rows) \<le> 7900" "io_ok lay"
    using attachments.build_rows_small [OF that(1,2) assms(2,1) that(3), of crc] r(1) unfolding eq by auto
  show ?thesis
  proof (cases r)
    case (Inr built)
    with r(2) have step: "lay_step crc lay lay'" by simp
    have "\<exists>t. yields (load_from_table_bids crc file bbt (tt_heap built) (tt_bid_sub built) CryptNone) t \<and>
        tc_row_count t = length rows \<and> (\<forall>i<length rows. attachment_read t i (rows ! i))"
      if "\<forall>b p. holds crc lay' b p \<longrightarrow> serves crc file bbt b p" for "file" bbt
    proof -
      from r(2) [unfolded Inr sum.case attachments.table_reads_def] that obtain t where t:
        "yields (load_from_table_bids crc file bbt (tt_heap built) (tt_bid_sub built) CryptNone) t"
        "attachments.rows_read rows t" by blast
      with count [OF t(2)] attachments_read [OF t(2) assms(4)] show ?thesis by blast
    qed
    with r(1) Inr lay_stepD [OF step] show ?thesis by simp
  qed (use r small in auto)
qed

theorem attachment_table_round_trip_witness:
  "\<exists>built lay'. build_attachment_table_strategy_a (\<lambda>_. 0) [(0x25, 10, 1, [97, 46, 98]), (0x45, 7, 5, [233])] layout_new =
       Some (Inr built, lay') \<and>
     (\<forall>file bbt. (\<forall>b p. holds (\<lambda>_. 0) lay' b p \<longrightarrow> serves (\<lambda>_. 0) file bbt b p) \<longrightarrow>
       (\<exists>t. yields (load_from_table_bids (\<lambda>_. 0) file bbt (tt_heap built) (tt_bid_sub built) CryptNone) t \<and>
          get_row_id t 1 = Some 0x45 \<and> get_row_string t 1 0x3704 = Inr (Some [233])))"
proof -
  have lay: "layout_ok layout_new" "io_ok layout_new"
    by (simp_all add: layout_ok_def layout_new_def all_bids_def amap_bids_def io_ok_def)
  let ?rows = "[(0x25, 10, 1, [97, 46, 98]), (0x45, 7, 5, [233])] :: attachment_row list"
  have rows: "?rows \<noteq> []" "length ?rows \<le> 500000" "\<forall>row\<in>set ?rows. attachment_valid row"
    "\<forall>row\<in>set ?rows. attachment_small row" "sum_list (map (\<lambda>row. attachment_space row + 32) ?rows) \<le> 7900"
    by (simp_all add: attachment_valid_def attachment_small_def attachment_space_def utf16le_bytes_def
        utf16_units_def MAX_XBLOCK_ASSEMBLE_def MAX_HEAP_VALUE_SIZE_def)
  have read: "attachment_read t 1 (?rows ! 1) \<Longrightarrow> get_row_id t 1 = Some 0x45 \<and> get_row_string t 1 0x3704 = Inr (Some [233])" for t
    by (simp add: attachment_read_def)
  have one: "1 < length ?rows" by simp
  from attachment_table_round_trip [OF lay(1) rows(1-3), of "\<lambda>_. 0"] lay(2) rows(4,5) obtain built lay' where
    b: "build_attachment_table_strategy_a (\<lambda>_. 0) ?rows layout_new = Some (Inr built, lay')"
    "\<forall>file bbt. (\<forall>b p. holds (\<lambda>_. 0) lay' b p \<longrightarrow> serves (\<lambda>_. 0) file bbt b p) \<longrightarrow>
       (\<exists>t. yields (load_from_table_bids (\<lambda>_. 0) file bbt (tt_heap built) (tt_bid_sub built) CryptNone) t \<and>
          tc_row_count t = length ?rows \<and> (\<forall>i<length ?rows. attachment_read t i (?rows ! i)))"
    by (elim exE conjE) (erule impE, simp, elim exE, simp only: sum.case sum.inject option.inject prod.inject, blast)
  with read one show ?thesis by blast
qed

end
