(* ===== verification/Recipient_Rows.thy ===== *)
theory Recipient_Rows
  imports Table_Building
begin

text \<open>
  The rows of the recipient table a message gets (\<^verbatim>\<open>pst-writer/src/production.rs\<close>): the image of a
  row, the cells it refers to, and the contract of the row builder, also for recipients whose cells
  all stay on the heap.
\<close>

subsection \<open>Rows\<close>

definition recipient_columns :: "TcColumnTuple list" where
  "recipient_columns = fst (build_template_tc_columns RECIPIENT_TABLE_COLUMNS)"

lemma recipient_template: "build_template_tc_columns RECIPIENT_TABLE_COLUMNS =
    ([(0x0C15, 0x0003, 0, 4, 0), (0x0FF9, 0x0102, 4, 4, 1), (0x0FFE, 0x0003, 8, 4, 2), (0x0FFF, 0x0102, 12, 4, 3),
      (0x3001, 0x001F, 16, 4, 4), (0x3002, 0x001F, 20, 4, 5), (0x3003, 0x001F, 24, 4, 6), (0x300B, 0x0102, 28, 4, 7),
      (0x3900, 0x0003, 32, 4, 8), (0x39FE, 0x001F, 36, 4, 9), (0x39FF, 0x001F, 40, 4, 10), (0x67F2, 0x0003, 44, 4, 11),
      (0x67F3, 0x0003, 48, 4, 12), (0x0E0F, 0x000B, 52, 1, 13), (0x3A40, 0x000B, 53, 1, 14)], 56)"
  by (simp add: build_template_tc_columns_def RECIPIENT_TABLE_COLUMNS_def)

lemmas recipient_columns_eq = recipient_columns_def [unfolded recipient_template fst_conv]

definition recipient_image :: "nat \<Rightarrow> u32 \<Rightarrow> WriteRecipient \<Rightarrow> RecipientHids \<Rightarrow> bytes" where
  "recipient_image i row_id recip hids =
     (le_bytes 4 (wrt_to_mapi (wr_recipient_type recip)) @ le_bytes 4 (rh_record_key hids) @ le_bytes 4 6 @
      le_bytes 4 (rh_entry_id hids) @ le_bytes 4 (rh_display hids) @ le_bytes 4 (rh_addr_type hids) @
      le_bytes 4 (rh_email hids) @ le_bytes 4 (rh_search_key hids) @ le_bytes 4 0 @
      le_bytes 4 (case rh_smtp hids of None \<Rightarrow> 0 | Some hid \<Rightarrow> hid) @ le_bytes 4 (rh_seven hids) @
      le_bytes 4 row_id @ le_bytes 4 (min (i mod 2 ^ 32 + 1) (2 ^ 32 - 1)) @ [1, 0]) @
     [0xFF, if rh_smtp hids = None then 0x7D else 0x7F]"

text \<open>A row whose columns are put in place one after another.\<close>

definition filled :: "bytes \<Rightarrow> nat \<Rightarrow> bytes" where
  "filled p n = p @ replicate n 0"

lemma copy_col_next:
  "length p = ib \<Longrightarrow> 4 \<le> n \<Longrightarrow>
    copy_col_bytes (filled p n) ib 4 (le_bytes 4 v) = Inr (filled (p @ le_bytes 4 v) (n - 4))"
  by (simp add: copy_col_bytes_def overwrite_beyond overwrite_zeros filled_def)

lemma put_next:
  assumes "length p = ib" and "4 \<le> n" and "prop_id \<in> {0x0C15, 0x0FF9, 0x0FFE, 0x0FFF, 0x3001, 0x3002, 0x3003, 0x300B, 0x3900, 0x39FF, 0x67F2, 0x67F3}"
  shows "put_recipient_column i row_id recip hids (k, prop_id, ty, ib, 4, b) (filled p n, bits) =
    Inr (filled (p @ le_bytes 4 (if prop_id = 0x0C15 then wrt_to_mapi (wr_recipient_type recip)
       else if prop_id = 0x0FF9 then rh_record_key hids else if prop_id = 0x0FFE then 6
       else if prop_id = 0x0FFF then rh_entry_id hids else if prop_id = 0x3001 then rh_display hids
       else if prop_id = 0x3002 then rh_addr_type hids else if prop_id = 0x3003 then rh_email hids
       else if prop_id = 0x300B then rh_search_key hids else if prop_id = 0x3900 then 0
       else if prop_id = 0x39FF then rh_seven hids else if prop_id = 0x67F2 then row_id
       else min (i mod 2 ^ 32 + 1) (2 ^ 32 - 1))) (n - 4), bits)"
  using assms(3) unfolding put_recipient_column_def Let_def prod.case
  by (auto simp: copy_col_next [OF assms(1,2)])

lemma put_smtp:
  assumes "length p = ib" and "4 \<le> n"
  shows "put_recipient_column i row_id recip hids (k, 0x39FE, ty, ib, 4, b) (filled p n, bits) =
    Inr (filled (p @ le_bytes 4 (case rh_smtp hids of None \<Rightarrow> 0 | Some hid \<Rightarrow> hid)) (n - 4),
      if rh_smtp hids = None then bits[k := False] else bits)"
proof -
  have "filled (p @ le_bytes 4 0) (n - 4) = filled p n"
    unfolding filled_def le_bytes_zero append_assoc replicate_add [symmetric] using assms(2) by simp
  then show ?thesis unfolding put_recipient_column_def Let_def prod.case
    by (cases "rh_smtp hids") (simp_all add: copy_col_next [OF assms])
qed

lemma put_flag:
  assumes "length p = ib" and "0 < n" and "prop_id \<in> {0x0E0F, 0x3A40}"
  shows "put_recipient_column i row_id recip hids (k, prop_id, ty, ib, 1, b) (filled p n, bits) =
    Inr (filled (p @ [if prop_id = 0x0E0F then 1 else 0]) (n - 1), bits)"
  using assms unfolding put_recipient_column_def Let_def prod.case filled_def
  by (cases n) (auto simp: list_update_append)

lemma mark_present_two:
  assumes "length p = s"
  shows "i_bit < 8 \<Longrightarrow> mark_present s i_bit (p @ [a, b]) = p @ [a OR push_bit i_bit 1, b]"
    and "8 \<le> i_bit \<Longrightarrow> i_bit < 16 \<Longrightarrow> mark_present s i_bit (p @ [a, b]) = p @ [a, b OR push_bit (i_bit - 8) 1]"
proof -
  show "mark_present s i_bit (p @ [a, b]) = p @ [a OR push_bit i_bit 1, b]" if "i_bit < 8"
    using assms that by (simp add: mark_present_def nth_append list_update_append)
  assume "8 \<le> i_bit" "i_bit < 16"
  then have "i_bit div 8 = 1" "i_bit mod 8 = i_bit - 8" by (simp_all add: div_nat_eqI mod_if)
  then show "mark_present s i_bit (p @ [a, b]) = p @ [a, b OR push_bit (i_bit - 8) 1]"
    using assms by (simp add: mark_present_def nth_append list_update_append)
qed

definition present_list :: "bool \<Rightarrow> bool list" where
  "present_list smtp =
     [True, True, True, True, True, True, True, True, True, smtp, True, True, True, True, True]"

lemma recipient_fields:
  "try_fold (put_recipient_column i row_id recip hids) (enumerate 0 recipient_columns)
      (filled [] 56, present_list True) =
    Inr (filled (take 54 (recipient_image i row_id recip hids)) 2, present_list (rh_smtp hids \<noteq> None))"
  unfolding recipient_columns_eq
  by (simp add: put_next put_smtp put_flag [unfolded One_nat_def] recipient_image_def present_list_def)

lemma length_recipient_image: "length (recipient_image i row_id recip hids) = 56"
  by (simp add: recipient_image_def)

lemma recipient_row_image:
  "recipient_row_bytes recipient_columns 56 i row_id recip hids = Inr (recipient_image i row_id recip hids)"
proof -
  let ?p = "take 54 (recipient_image i row_id recip hids)"
  have p: "length ?p = 54" by (simp add: length_recipient_image)
  have "length recipient_columns = 15" "replicate 15 True = present_list True"
    by (simp_all add: recipient_columns_eq) (simp add: present_list_def numeral_eq_Suc)
  then have start: "(replicate 56 0, replicate (length recipient_columns) True) = (filled [] 56, present_list True)"
    by (simp add: filled_def)
  have two: "filled ?p 2 = ?p @ [0, 0]" by (simp add: filled_def numeral_eq_Suc)
  have marks: "fold (\<lambda>(col_idx, _, _, _, _, i_bit) row.
      if present_list (rh_smtp hids \<noteq> None) ! col_idx then mark_present 54 i_bit row else row)
      (enumerate 0 recipient_columns) (q @ [0, 0]) = q @ [0xFF, if rh_smtp hids = None then 0x7D else 0x7F]"
    if "length q = 54" for q
    unfolding recipient_columns_eq present_list_def by (cases "rh_smtp hids") (simp_all add: mark_present_two [OF that])
  have "recipient_image i row_id recip hids = ?p @ [0xFF, if rh_smtp hids = None then 0x7D else 0x7F]"
    by (simp add: recipient_image_def)
  then show ?thesis
    unfolding recipient_row_bytes_def start recipient_fields
    using marks [OF p] by (simp add: two recipient_columns_eq)
qed

lemma read_recipient_image:
  "read_u32 0 (recipient_image i row_id recip hids) = wrt_to_mapi (wr_recipient_type recip) mod 2 ^ 32"
  "read_u32 4 (recipient_image i row_id recip hids) = rh_record_key hids mod 2 ^ 32"
  "read_u32 12 (recipient_image i row_id recip hids) = rh_entry_id hids mod 2 ^ 32"
  "read_u32 16 (recipient_image i row_id recip hids) = rh_display hids mod 2 ^ 32"
  "read_u32 20 (recipient_image i row_id recip hids) = rh_addr_type hids mod 2 ^ 32"
  "read_u32 24 (recipient_image i row_id recip hids) = rh_email hids mod 2 ^ 32"
  "read_u32 28 (recipient_image i row_id recip hids) = rh_search_key hids mod 2 ^ 32"
  "read_u32 36 (recipient_image i row_id recip hids) = (case rh_smtp hids of None \<Rightarrow> 0 | Some hid \<Rightarrow> hid mod 2 ^ 32)"
  "read_u32 40 (recipient_image i row_id recip hids) = rh_seven hids mod 2 ^ 32"
  by (simp_all add: recipient_image_def read_u32_append2 read_le_field split: option.split)

subsection \<open>Cells\<close>

definition recipient_text :: "str option \<Rightarrow> str" where
  "recipient_text s = (case wr_nonempty s of None \<Rightarrow> [] | Some t \<Rightarrow> t)"

definition recipient_seven_bit :: "WriteRecipient \<Rightarrow> str" where
  "recipient_seven_bit recip =
     (if recipient_text (wr_display_name recip) \<noteq> [] then recipient_text (wr_display_name recip)
      else if recipient_text (wr_email_address recip) \<noteq> [] then recipient_text (wr_email_address recip)
      else recipient_text (wr_smtp_address recip))"

definition recipient_record_key :: "(bytes \<Rightarrow> 32 word) \<Rightarrow> u32 \<Rightarrow> WriteRecipient \<Rightarrow> bytes" where
  "recipient_record_key crc row_id recip =
     synthesize_recipient_record_key crc row_id (recipient_text (wr_email_address recip))
       (recipient_text (wr_display_name recip)) (resolve_recipient_address_type recip)"

definition recipient_search_key :: "WriteRecipient \<Rightarrow> bytes" where
  "recipient_search_key recip =
     synthesize_recipient_search_key (resolve_recipient_address_type recip) (recipient_text (wr_email_address recip))
       (wr_nonempty (wr_smtp_address recip))"

text \<open>The references of a row with the values they stand for.\<close>

definition recipient_cells ::
  "(bytes \<Rightarrow> 32 word) \<Rightarrow> u32 \<Rightarrow> WriteRecipient \<Rightarrow> RecipientHids \<Rightarrow> (u32 \<times> bytes) list" where
  "recipient_cells crc row_id recip hids =
     [(rh_display hids, utf16le_bytes (recipient_text (wr_display_name recip))),
      (rh_addr_type hids, utf16le_bytes (resolve_recipient_address_type recip)),
      (rh_email hids, utf16le_bytes (recipient_text (wr_email_address recip))),
      (rh_seven hids, utf16le_bytes (recipient_seven_bit recip)),
      (rh_record_key hids, recipient_record_key crc row_id recip),
      (rh_entry_id hids, build_folder_entry_id row_id (recipient_record_key crc row_id recip)),
      (rh_search_key hids, recipient_search_key recip)] @
     (case rh_smtp hids of None \<Rightarrow> [] | Some hid \<Rightarrow> [(hid, utf16le_bytes (recipient_text (wr_smtp_address recip)))])"

lemma alloc_recipient_cells_eq:
  "alloc_recipient_cells crc row_id recip tb =
     lay_bind (alloc_tc_value crc (utf16le_bytes (recipient_text (wr_display_name recip))) tb) (\<lambda>(display_hid, tb).
     lay_bind (alloc_tc_value crc (utf16le_bytes (resolve_recipient_address_type recip)) tb) (\<lambda>(addr_type_hid, tb).
     lay_bind (alloc_tc_value crc (utf16le_bytes (recipient_text (wr_email_address recip))) tb) (\<lambda>(email_hid, tb).
     lay_bind (alloc_tc_value crc (utf16le_bytes (recipient_seven_bit recip)) tb) (\<lambda>(seven_hid, tb).
     lay_bind (alloc_tc_value crc (recipient_record_key crc row_id recip) tb) (\<lambda>(record_key_hid, tb).
     lay_bind (alloc_tc_value crc (build_folder_entry_id row_id (recipient_record_key crc row_id recip)) tb) (\<lambda>(entry_id_hid, tb).
     lay_bind (alloc_tc_value crc (recipient_search_key recip) tb) (\<lambda>(search_key_hid, tb).
     lay_bind (case wr_nonempty (wr_smtp_address recip) of
                 Some s \<Rightarrow> lay_bind (alloc_tc_value crc (utf16le_bytes s) tb) (\<lambda>(hid, tb). lay_ret (Some hid, tb))
               | None \<Rightarrow> lay_ret (None, tb)) (\<lambda>(smtp_hid, tb).
       lay_ret (\<lparr> rh_display = display_hid, rh_addr_type = addr_type_hid, rh_email = email_hid,
         rh_seven = seven_hid, rh_record_key = record_key_hid, rh_entry_id = entry_id_hid,
         rh_search_key = search_key_hid, rh_smtp = smtp_hid \<rparr>, tb)))))))))"
  unfolding alloc_recipient_cells_def Let_def recipient_record_key_def recipient_search_key_def
    recipient_seven_bit_def recipient_text_def ..

text \<open>The texts a writer can be given: Rust strings of at most a million characters.\<close>

definition text_ok :: "str option \<Rightarrow> bool" where
  "text_ok s = (case s of None \<Rightarrow> True | Some t \<Rightarrow> scalar_str t \<and> length t \<le> 1000000)"

definition recipient_valid :: "WriteRecipient \<Rightarrow> bool" where
  "recipient_valid recip \<longleftrightarrow>
     wrt_to_mapi (wr_recipient_type recip) < 2 ^ 32 \<and> text_ok (wr_display_name recip) \<and>
     text_ok (wr_address_type recip) \<and> text_ok (wr_email_address recip) \<and> text_ok (wr_smtp_address recip)"

lemma trim_within: "set (trim s) \<subseteq> set s \<and> length (trim s) \<le> length s"
proof -
  from trim_start_by_suffix [of s is_whitespace] obtain t where t: "s = t @ trim_start_by is_whitespace s" by blast
  from trim_end_by_prefix [of "trim_start_by is_whitespace s" is_whitespace] obtain u where
    u: "trim_start_by is_whitespace s = trim s @ u" by (auto simp: trim_def)
  have "s = t @ trim s @ u" using t u by simp
  then have "set s = set (t @ trim s @ u)" "length s = length (t @ trim s @ u)" by metis+
  then show ?thesis by auto
qed

lemma recipient_text_ok:
  assumes "text_ok s"
  shows "scalar_str (recipient_text s)" and "length (recipient_text s) \<le> 1000000"
  using assms trim_within
  by (auto simp: text_ok_def recipient_text_def wr_nonempty_def scalar_str_def split: option.splits)
    (meson subsetD | meson le_trans)+

lemma recipient_address_type_cases:
  "resolve_recipient_address_type recip \<in>
     {recipient_text (wr_address_type recip), lit ''SMTP'', lit ''EX'', []}"
  by (auto simp: resolve_recipient_address_type_def recipient_text_def split: option.splits)

lemma length_utf16le_le: "length (utf16le_bytes s) \<le> 4 * length s"
proof -
  have "length (concat (map utf16_units s)) \<le> 2 * length s"
    by (induction s) (auto simp: utf16_units_def)
  then show ?thesis by (simp add: length_utf16le)
qed

lemma length_utf8_le: "length (utf8 s) \<le> 4 * length s"
  by (induction s) (auto simp: utf8_char_def)

lemma recipient_texts_ok:
  assumes "recipient_valid recip"
  shows "scalar_str (resolve_recipient_address_type recip)" and "length (resolve_recipient_address_type recip) \<le> 1000000"
    and "scalar_str (recipient_seven_bit recip)" and "length (recipient_seven_bit recip) \<le> 1000000"
  using assms recipient_text_ok recipient_address_type_cases [of recip]
  by (auto simp: recipient_valid_def recipient_seven_bit_def lit_def scalar_str_def)

lemma length_record_key [simp]: "length (recipient_record_key crc row_id recip) = 16"
  by (simp add: recipient_record_key_def synthesize_recipient_record_key_def Let_def)

lemma length_entry_id [simp]: "length (build_folder_entry_id nid uid) = 8 + length uid"
  by (simp add: build_folder_entry_id_def)

lemma recipient_search_key_small:
  assumes "recipient_valid recip"
  shows "length (recipient_search_key recip) \<le> 20000000"
proof -
  let ?ty = "resolve_recipient_address_type recip" and ?s = "wr_nonempty (wr_smtp_address recip)"
  let ?a = "case ?s of Some s \<Rightarrow> s | None \<Rightarrow> recipient_text (wr_email_address recip)"
  have "length ?a \<le> 1000000"
    using assms recipient_text_ok(2) [of "wr_smtp_address recip"] recipient_text_ok(2) [of "wr_email_address recip"]
    by (auto simp: recipient_valid_def recipient_text_def split: option.splits)
  moreover have "length (recipient_search_key recip) \<le> 4 * (8 + length ?ty + length ?a)"
    using length_utf8_le [of "to_ascii_uppercase (if ?ty = [] then lit ''UNKNOWN'' else ?ty) @ lit '':'' @ to_ascii_uppercase ?a"]
    by (auto simp: recipient_search_key_def synthesize_recipient_search_key_def Let_def lit_def split: option.splits if_splits)
  moreover have "x \<le> 4 * (8 + t + a) \<Longrightarrow> t \<le> 1000000 \<Longrightarrow> a \<le> 1000000 \<Longrightarrow> x \<le> 20000000" for x t a :: nat
    by simp
  ultimately show ?thesis using recipient_texts_ok(2) [OF assms] by blast
qed

lemma lay_bind_assoc: "lay_bind (lay_bind m f) g = lay_bind m (\<lambda>x. lay_bind (f x) g)"
  by (auto simp: fun_eq_iff lay_bind_def split: option.split sum.split prod.split)

lemma alloc_then:
  assumes "length bs \<le> MAX_XBLOCK_ASSEMBLE" and "k < 2 ^ 26"
    and "\<And>hnid tb'. lay_run crc (cells_built crc m D (k + 1) (cells @ [(hnid, bs)]) tb') (f hnid tb') R"
  shows "lay_run crc (cells_built crc m D k cells tb) (lay_bind (alloc_tc_value crc bs tb) (\<lambda>(hnid, tb'). f hnid tb')) R"
proof (rule lay_run_bind [OF alloc_cell_run [OF assms(1,2)]])
  show "lay_run crc (case x of (hnid, tb') \<Rightarrow> cells_built crc m D (k + 1) (cells @ [(hnid, bs)]) tb')
      (case x of (hnid, tb') \<Rightarrow> f hnid tb') R" for x
    by (cases x) (simp only: prod.case assms(3))
qed

lemma cells_built_le: "cells_built crc m D k cells tb lay \<Longrightarrow> k \<le> n \<Longrightarrow> cells_built crc m D n cells tb lay"
  by (auto simp: cells_built_def)

definition hids_for :: "WriteRecipient \<Rightarrow> RecipientHids \<Rightarrow> bool" where
  "hids_for recip hids \<longleftrightarrow> (rh_smtp hids = None \<longleftrightarrow> wr_nonempty (wr_smtp_address recip) = None)"

lemma recipient_cells_small:
  assumes "recipient_valid recip"
  shows "length (utf16le_bytes (recipient_text (wr_display_name recip))) \<le> MAX_XBLOCK_ASSEMBLE"
    and "length (utf16le_bytes (resolve_recipient_address_type recip)) \<le> MAX_XBLOCK_ASSEMBLE"
    and "length (utf16le_bytes (recipient_text (wr_email_address recip))) \<le> MAX_XBLOCK_ASSEMBLE"
    and "length (utf16le_bytes (recipient_seven_bit recip)) \<le> MAX_XBLOCK_ASSEMBLE"
    and "length (recipient_record_key crc row_id recip) \<le> MAX_XBLOCK_ASSEMBLE"
    and "length (build_folder_entry_id row_id (recipient_record_key crc row_id recip)) \<le> MAX_XBLOCK_ASSEMBLE"
    and "length (recipient_search_key recip) \<le> MAX_XBLOCK_ASSEMBLE"
    and "length (utf16le_bytes (recipient_text (wr_smtp_address recip))) \<le> MAX_XBLOCK_ASSEMBLE"
proof -
  have small: "length (utf16le_bytes s) \<le> MAX_XBLOCK_ASSEMBLE" if "length s \<le> 1000000" for s
    using that length_utf16le_le [of s] by (simp add: MAX_XBLOCK_ASSEMBLE_def)
  note valid = assms [unfolded recipient_valid_def]
  show "length (utf16le_bytes (recipient_text (wr_display_name recip))) \<le> MAX_XBLOCK_ASSEMBLE"
    "length (utf16le_bytes (resolve_recipient_address_type recip)) \<le> MAX_XBLOCK_ASSEMBLE"
    "length (utf16le_bytes (recipient_text (wr_email_address recip))) \<le> MAX_XBLOCK_ASSEMBLE"
    "length (utf16le_bytes (recipient_seven_bit recip)) \<le> MAX_XBLOCK_ASSEMBLE"
    "length (utf16le_bytes (recipient_text (wr_smtp_address recip))) \<le> MAX_XBLOCK_ASSEMBLE"
    using valid recipient_texts_ok [OF assms] by (auto intro: small recipient_text_ok(2))
  show "length (recipient_record_key crc row_id recip) \<le> MAX_XBLOCK_ASSEMBLE"
    "length (build_folder_entry_id row_id (recipient_record_key crc row_id recip)) \<le> MAX_XBLOCK_ASSEMBLE"
    by (simp_all add: MAX_XBLOCK_ASSEMBLE_def)
  show "length (recipient_search_key recip) \<le> MAX_XBLOCK_ASSEMBLE"
    using recipient_search_key_small [OF assms] by (simp add: MAX_XBLOCK_ASSEMBLE_def)
qed

lemma alloc_recipient_cells_run:
  assumes "recipient_valid recip" and "k < 2 ^ 25"
  shows "lay_run crc (cells_built crc m D k [] tb) (alloc_recipient_cells crc row_id recip tb)
    (\<lambda>(hids, tb') lay. cells_built crc m D (k + 8) (recipient_cells crc row_id recip hids) tb' lay \<and> hids_for recip hids)"
proof -
  have k: "k < 2 ^ 26" "k + 1 < 2 ^ 26" "k + 1 + 1 < 2 ^ 26" "k + 1 + 1 + 1 < 2 ^ 26" "k + 1 + 1 + 1 + 1 < 2 ^ 26"
    "k + 1 + 1 + 1 + 1 + 1 < 2 ^ 26" "k + 1 + 1 + 1 + 1 + 1 + 1 < 2 ^ 26" "k + 1 + 1 + 1 + 1 + 1 + 1 + 1 < 2 ^ 26"
    using assms(2) by simp_all
  note small = recipient_cells_small [OF assms(1)]
  let ?P = "\<lambda>(hids, tb') lay. cells_built crc m D (k + 8) (recipient_cells crc row_id recip hids) tb' lay \<and> hids_for recip hids"
  show ?thesis
    unfolding alloc_recipient_cells_eq
  proof (rule alloc_then [OF small(1) k(1)], rule alloc_then [OF small(2) k(2)], rule alloc_then [OF small(3) k(3)],
      rule alloc_then [OF small(4) k(4)], rule alloc_then [OF small(5) k(5)], rule alloc_then [OF small(6) k(6)],
      rule alloc_then [OF small(7) k(7)])
    fix h1 tb1 h2 tb2 h3 tb3 h4 tb4 h5 tb5 h6 tb6 h7 tb'
    let ?hids = "\<lambda>smtp. \<lparr> rh_display = h1, rh_addr_type = h2, rh_email = h3, rh_seven = h4, rh_record_key = h5,
      rh_entry_id = h6, rh_search_key = h7, rh_smtp = smtp \<rparr>"
    let ?smtp = "wr_nonempty (wr_smtp_address recip)"
    show "lay_run crc (cells_built crc m D (k + 1 + 1 + 1 + 1 + 1 + 1 + 1) ((((((([] @
          [(h1, utf16le_bytes (recipient_text (wr_display_name recip)))]) @
          [(h2, utf16le_bytes (resolve_recipient_address_type recip))]) @
          [(h3, utf16le_bytes (recipient_text (wr_email_address recip)))]) @
          [(h4, utf16le_bytes (recipient_seven_bit recip))]) @ [(h5, recipient_record_key crc row_id recip)]) @
          [(h6, build_folder_entry_id row_id (recipient_record_key crc row_id recip))]) @
          [(h7, recipient_search_key recip)]) tb')
        (lay_bind (case ?smtp of
            Some s \<Rightarrow> lay_bind (alloc_tc_value crc (utf16le_bytes s) tb') (\<lambda>(hid, tb). lay_ret (Some hid, tb))
          | None \<Rightarrow> lay_ret (None, tb')) (\<lambda>(smtp_hid, tb). lay_ret (?hids smtp_hid, tb))) ?P"
    proof (cases ?smtp)
      case None
      then show ?thesis
        by (auto simp: lay_bind_ret hids_for_def recipient_cells_def intro!: lay_run_ret) (erule cells_built_le, simp)
    next
      case (Some s)
      then have "recipient_text (wr_smtp_address recip) = s" by (simp add: recipient_text_def)
      with small(8) have "length (utf16le_bytes s) \<le> MAX_XBLOCK_ASSEMBLE" by simp
      note alloc = alloc_then [OF this k(8), where f = "\<lambda>hid tb. lay_ret (?hids (Some hid), tb)"]
      show ?thesis
        unfolding Some option.case lay_bind_assoc case_prod_unfold lay_bind_ret fst_conv snd_conv
      proof (rule alloc [unfolded case_prod_unfold], rule lay_run_ret)
        fix hid tb lay
        assume "cells_built crc m D (k + 1 + 1 + 1 + 1 + 1 + 1 + 1 + 1) (((((((([] @
          [(h1, utf16le_bytes (recipient_text (wr_display_name recip)))]) @
          [(h2, utf16le_bytes (resolve_recipient_address_type recip))]) @
          [(h3, utf16le_bytes (recipient_text (wr_email_address recip)))]) @
          [(h4, utf16le_bytes (recipient_seven_bit recip))]) @ [(h5, recipient_record_key crc row_id recip)]) @
          [(h6, build_folder_entry_id row_id (recipient_record_key crc row_id recip))]) @
          [(h7, recipient_search_key recip)]) @ [(hid, utf16le_bytes s)]) tb lay"
        then show "cells_built crc m D (k + 8) (recipient_cells crc row_id recip (fst (?hids (Some hid), tb)))
            (snd (?hids (Some hid), tb)) lay \<and> hids_for recip (fst (?hids (Some hid), tb))"
          using Some by (simp add: recipient_cells_def hids_for_def recipient_text_def numeral_eq_Suc)
      qed
    qed
  qed
qed

subsection \<open>The contract of the row builder\<close>

definition recipient_row_id :: "nat \<Rightarrow> WriteRecipient \<Rightarrow> u32" where
  "recipient_row_id i recip = min (i mod 2 ^ 32 + 1) (2 ^ 32 - 1)"

definition recipient_row_ok ::
  "(bytes \<Rightarrow> 32 word) \<Rightarrow> (Hid \<rightharpoonup> bytes) \<Rightarrow> (u32 \<rightharpoonup> bytes) \<Rightarrow> nat \<Rightarrow> WriteRecipient \<Rightarrow> bytes \<Rightarrow> bool" where
  "recipient_row_ok crc m D i recip bytes \<longleftrightarrow>
     (\<exists>hids. hids_for recip hids \<and>
        (\<forall>(hnid, bs)\<in>set (recipient_cells crc (recipient_row_id i recip) recip hids). cell_in m D hnid bs) \<and>
        bytes = recipient_image i (recipient_row_id i recip) recip hids)"

lemma add_recipient_row_eq:
  "i < 500000 \<Longrightarrow> add_recipient_row crc recipient_columns 56 (i, recip) (tb, matrix, index) =
    lay_bind (alloc_recipient_cells crc (recipient_row_id i recip) recip tb) (\<lambda>(hids, tb').
      lay_ret (tb', matrix @ recipient_image i (recipient_row_id i recip) recip hids,
        index @ [(recipient_row_id i recip, le_bytes 4 i)]))"
  by (simp add: add_recipient_row_def recipient_row_id_def Let_def recipient_row_image)

lemma add_recipient_row_run:
  assumes "recipient_valid recip" and "i < 500000" and "tb_sub_counter tb < 2 ^ 25"
  shows "lay_run crc (building crc tb m D) (add_recipient_row crc recipient_columns 56 (i, recip) (tb, matrix, index))
    (\<lambda>(tb', matrix', index') lay. \<exists>m' D' r. building crc tb' m' D' lay \<and> m \<subseteq>\<^sub>m m' \<and> D \<subseteq>\<^sub>m D' \<and>
       matrix' = matrix @ r \<and> index' = index @ [(recipient_row_id i recip, le_bytes 4 i)] \<and> length r = 56 \<and>
       recipient_row_ok crc m' D' i recip r \<and> tb_sub_counter tb' \<le> tb_sub_counter tb + 8)"
    (is "lay_run _ _ _ ?P")
proof -
  let ?id = "recipient_row_id i recip" and ?k = "tb_sub_counter tb"
  let ?cells = "\<lambda>(hids, tb') lay. cells_built crc m D (?k + 8) (recipient_cells crc ?id recip hids) tb' lay \<and> hids_for recip hids"
  have start: "building crc tb m D lay \<Longrightarrow> cells_built crc m D ?k [] tb lay" for lay
    by (rule cells_built_start)
  have alloc: "lay_run crc (building crc tb m D) (alloc_recipient_cells crc ?id recip tb) ?cells"
    by (rule lay_run_weaken [OF alloc_recipient_cells_run [OF assms(1,3)] start])
  have rest: "lay_run crc (?cells x) (case x of (hids, tb') \<Rightarrow> lay_ret (tb', matrix @ recipient_image i ?id recip hids,
      index @ [(?id, le_bytes 4 i)])) ?P" for x
  proof -
    obtain hids tb' where x: "x = (hids, tb')" by (cases x)
    show ?thesis
      unfolding x prod.case
    proof (rule lay_run_ret, elim conjE)
      fix lay assume cells: "cells_built crc m D (?k + 8) (recipient_cells crc ?id recip hids) tb' lay" and hids: "hids_for recip hids"
      from cells obtain m' D' where m': "building crc tb' m' D' lay" "m \<subseteq>\<^sub>m m'" "D \<subseteq>\<^sub>m D'"
        "\<forall>(hnid, bs)\<in>set (recipient_cells crc ?id recip hids). cell_in m' D' hnid bs" "tb_sub_counter tb' \<le> ?k + 8"
        unfolding cells_built_def by blast
      then have "recipient_row_ok crc m' D' i recip (recipient_image i ?id recip hids)"
        using hids unfolding recipient_row_ok_def by blast
      with m' show "?P (tb', matrix @ recipient_image i ?id recip hids, index @ [(?id, le_bytes 4 i)]) lay"
        unfolding prod.case using length_recipient_image by blast
    qed
  qed
  show ?thesis unfolding add_recipient_row_eq [OF assms(2)] by (rule lay_run_bind [OF alloc rest])
qed

lemma recipient_hnid_cells:
  assumes "recipient_row_ok crc m D i recip bytes" and "d \<in> column_desc ` set recipient_columns" and "cd_cb_data d = 4"
    and "cd_prop_type d \<in> {0x001F, 0x001E, 0x0102}"
  shows "read_u32 (cd_ib_data d) bytes = 0 \<or> (\<exists>bs. cell_in m D (read_u32 (cd_ib_data d) bytes) bs)"
proof -
  let ?id = "recipient_row_id i recip"
  from assms(1) obtain hids where bytes: "bytes = recipient_image i ?id recip hids"
    and cells: "\<forall>(hnid, bs)\<in>set (recipient_cells crc ?id recip hids). cell_in m D hnid bs"
    unfolding recipient_row_ok_def by blast
  have cell: "\<exists>bs. cell_in m D (hnid mod 2 ^ 32) bs" if "hnid \<in> fst ` set (recipient_cells crc ?id recip hids)" for hnid
  proof -
    from that obtain bs where "cell_in m D hnid bs" using cells by fastforce
    with cell_in_less [OF this] show ?thesis by auto
  qed
  have "cd_ib_data d \<in> {4, 12, 16, 20, 24, 28, 36, 40}"
    using assms(2,4) by (auto simp: recipient_columns_eq column_desc_def)
  then show ?thesis
    unfolding bytes
    by (elim insertE emptyE; cases "rh_smtp hids")
      (simp_all only: read_recipient_image option.case, auto intro!: cell [simplified] simp: recipient_cells_def)
qed

text \<open>A recipient whose cells stay on the heap.\<close>

definition recipient_space :: "WriteRecipient \<Rightarrow> nat" where
  "recipient_space recip =
     length (utf16le_bytes (recipient_text (wr_display_name recip))) +
     length (utf16le_bytes (resolve_recipient_address_type recip)) +
     length (utf16le_bytes (recipient_text (wr_email_address recip))) +
     length (utf16le_bytes (recipient_seven_bit recip)) + 16 + 24 + length (recipient_search_key recip) +
     length (utf16le_bytes (recipient_text (wr_smtp_address recip)))"

definition recipient_small :: "WriteRecipient \<Rightarrow> bool" where
  "recipient_small recip \<longleftrightarrow> recipient_space recip \<le> MAX_HEAP_VALUE_SIZE"

lemma alloc_recipient_cells_small:
  assumes "recipient_small recip" and "small_heap (tb_heap tb) n c"
    and "n + recipient_space recip + 2 * c + 26 \<le> MAX_BLOCK_DATA" and "c < 2039"
  shows "\<exists>hids heap. alloc_recipient_cells crc row_id recip tb = lay_ret (hids, tb \<lparr> tb_heap := heap \<rparr>) \<and>
    small_heap heap (n + recipient_space recip) (c + 8)"
proof -
  let ?b1 = "utf16le_bytes (recipient_text (wr_display_name recip))"
  let ?b2 = "utf16le_bytes (resolve_recipient_address_type recip)"
  let ?b3 = "utf16le_bytes (recipient_text (wr_email_address recip))"
  let ?b4 = "utf16le_bytes (recipient_seven_bit recip)"
  let ?b5 = "recipient_record_key crc row_id recip"
  let ?b6 = "build_folder_entry_id row_id ?b5"
  let ?b7 = "recipient_search_key recip"
  let ?b8 = "utf16le_bytes (recipient_text (wr_smtp_address recip))"
  have len: "length ?b5 = 16" "length ?b6 = 24" by simp_all
  note room = assms(1,3,4) [unfolded recipient_small_def recipient_space_def]
  have next_cell: "\<exists>hid heap'. alloc_tc_value crc bs (tb \<lparr> tb_heap := heap \<rparr>) = lay_ret (hid, tb \<lparr> tb_heap := heap' \<rparr>) \<and>
      small_heap heap' (k + length bs) (Suc j)"
    if "small_heap heap k j" "k + length bs + 2 * j + 10 \<le> MAX_BLOCK_DATA" "j < 2047" "length bs \<le> MAX_HEAP_VALUE_SIZE"
    for bs heap k j
    using small_cell [of "tb \<lparr> tb_heap := heap \<rparr>" k j bs crc] that by fastforce
  have "small_heap (tb_heap tb) n c" by (rule assms(2))
  then obtain h1 heap1 where h1: "alloc_tc_value crc ?b1 tb = lay_ret (h1, tb \<lparr> tb_heap := heap1 \<rparr>)"
    "small_heap heap1 (n + length ?b1) (Suc c)"
    using next_cell [of "tb_heap tb" n c ?b1] room by auto
  obtain h2 heap2 where h2: "alloc_tc_value crc ?b2 (tb \<lparr> tb_heap := heap1 \<rparr>) = lay_ret (h2, tb \<lparr> tb_heap := heap2 \<rparr>)"
    "small_heap heap2 (n + length ?b1 + length ?b2) (Suc (Suc c))"
    using next_cell [OF h1(2), of ?b2] room by auto
  obtain h3 heap3 where h3: "alloc_tc_value crc ?b3 (tb \<lparr> tb_heap := heap2 \<rparr>) = lay_ret (h3, tb \<lparr> tb_heap := heap3 \<rparr>)"
    "small_heap heap3 (n + length ?b1 + length ?b2 + length ?b3) (Suc (Suc (Suc c)))"
    using next_cell [OF h2(2), of ?b3] room by auto
  obtain h4 heap4 where h4: "alloc_tc_value crc ?b4 (tb \<lparr> tb_heap := heap3 \<rparr>) = lay_ret (h4, tb \<lparr> tb_heap := heap4 \<rparr>)"
    "small_heap heap4 (n + length ?b1 + length ?b2 + length ?b3 + length ?b4) (Suc (Suc (Suc (Suc c))))"
    using next_cell [OF h3(2), of ?b4] room by auto
  obtain h5 heap5 where h5: "alloc_tc_value crc ?b5 (tb \<lparr> tb_heap := heap4 \<rparr>) = lay_ret (h5, tb \<lparr> tb_heap := heap5 \<rparr>)"
    "small_heap heap5 (n + length ?b1 + length ?b2 + length ?b3 + length ?b4 + 16) (Suc (Suc (Suc (Suc (Suc c)))))"
    using next_cell [OF h4(2), of ?b5] room len by (auto simp: MAX_HEAP_VALUE_SIZE_def)
  obtain h6 heap6 where h6: "alloc_tc_value crc ?b6 (tb \<lparr> tb_heap := heap5 \<rparr>) = lay_ret (h6, tb \<lparr> tb_heap := heap6 \<rparr>)"
    "small_heap heap6 (n + length ?b1 + length ?b2 + length ?b3 + length ?b4 + 16 + 24) (Suc (Suc (Suc (Suc (Suc (Suc c))))))"
    using next_cell [OF h5(2), of ?b6] room len by (auto simp: MAX_HEAP_VALUE_SIZE_def)
  obtain h7 heap7 where h7: "alloc_tc_value crc ?b7 (tb \<lparr> tb_heap := heap6 \<rparr>) = lay_ret (h7, tb \<lparr> tb_heap := heap7 \<rparr>)"
    "small_heap heap7 (n + length ?b1 + length ?b2 + length ?b3 + length ?b4 + 16 + 24 + length ?b7)
      (Suc (Suc (Suc (Suc (Suc (Suc (Suc c)))))))"
    using next_cell [OF h6(2), of ?b7] room by auto
  obtain h8 heap8 where h8: "alloc_tc_value crc ?b8 (tb \<lparr> tb_heap := heap7 \<rparr>) = lay_ret (h8, tb \<lparr> tb_heap := heap8 \<rparr>)"
    "small_heap heap8 (n + recipient_space recip) (c + 8)"
    using next_cell [OF h7(2), of ?b8] room by (auto simp: recipient_space_def add.assoc numeral_eq_Suc)
  have more: "small_heap heap7 (n + recipient_space recip) (c + 8)"
    using h7(2) unfolding recipient_space_def by (fastforce simp: small_heap_def)
  show ?thesis
  proof (cases "wr_nonempty (wr_smtp_address recip)")
    case None
    with more show ?thesis unfolding alloc_recipient_cells_eq
      by (simp add: h1(1) h2(1) h3(1) h4(1) h5(1) h6(1) h7(1) lay_bind_ret) (intro exI conjI, rule refl, assumption)
  next
    case (Some s)
    then have "recipient_text (wr_smtp_address recip) = s" by (simp add: recipient_text_def)
    with Some h8 show ?thesis unfolding alloc_recipient_cells_eq
      by (simp add: h1(1) h2(1) h3(1) h4(1) h5(1) h6(1) h7(1) lay_bind_ret) (intro exI conjI, rule refl, assumption)
  qed
qed

lemma add_recipient_row_small:
  assumes "recipient_small recip" and "i < 500000" and "small_heap (tb_heap tb) n c"
    and "n + recipient_space recip + 2 * c + 26 \<le> MAX_BLOCK_DATA" and "c < 2039"
  shows "\<exists>heap r. add_recipient_row crc recipient_columns 56 (i, recip) (tb, matrix, index) =
      lay_ret (tb \<lparr> tb_heap := heap \<rparr>, matrix @ r, index @ [(recipient_row_id i recip, le_bytes 4 i)]) \<and>
    small_heap heap (n + recipient_space recip) (c + 8) \<and> length r = 56"
proof -
  from alloc_recipient_cells_small [OF assms(1,3-5), of crc "recipient_row_id i recip"] obtain hids heap where
    "alloc_recipient_cells crc (recipient_row_id i recip) recip tb = lay_ret (hids, tb \<lparr> tb_heap := heap \<rparr>)"
    "small_heap heap (n + recipient_space recip) (c + 8)" by blast
  then show ?thesis
    unfolding add_recipient_row_eq [OF assms(2)]
    by (intro exI [where x = heap] exI [where x = "recipient_image i (recipient_row_id i recip) recip hids"])
      (simp add: lay_bind_ret length_recipient_image)
qed

interpretation recipients:
  row_builder crc recipient_columns 56 "add_recipient_row crc recipient_columns 56" recipient_row_id
    recipient_valid "recipient_row_ok crc" recipient_space recipient_small for crc
proof unfold_locales
  show "columns_fit recipient_columns 56"
    by (simp add: columns_fit_def recipient_columns_eq column_ok_def MAX_BLOCK_DATA_def)
  show "length recipient_columns \<le> 16" by (simp add: recipient_columns_eq)
  show "recipient_row_ok crc m D i x row \<Longrightarrow> m \<subseteq>\<^sub>m m' \<Longrightarrow> D \<subseteq>\<^sub>m D' \<Longrightarrow> recipient_row_ok crc m' D' i x row" for m D i x row m' D'
    unfolding recipient_row_ok_def using cell_in_mono by fast
qed ((rule add_recipient_row_run; assumption) | (rule add_recipient_row_small; assumption) |
    (rule recipient_hnid_cells; assumption) | simp)+

end
