(* ===== verification/Recipient_Reader.thy ===== *)
theory Recipient_Reader
  imports Table_Reader Recipient
begin

text \<open>
  Reading the recipients of a message (\<^verbatim>\<open>pst-reader/src/messaging/recipient.rs\<close>): the recipient
  table is the subnode of type 0x12 of the message. A missing or unreadable table gives no
  recipients; the display fields of the message are never used in its place.
\<close>

definition MSGFLAG_UNSENT :: u32 where
  "MSGFLAG_UNSENT = 0x8"

definition message_flags_is_unsent :: "u32 \<Rightarrow> bool" where
  "message_flags_is_unsent flags \<longleftrightarrow> flags AND MSGFLAG_UNSENT \<noteq> 0"

definition opt_row_string :: "PstError + str option \<Rightarrow> str option" where
  "opt_row_string s =
     (case s of
        Inr (Some v) \<Rightarrow> nonempty_str (Some v)
      | Inr None \<Rightarrow> None
      | Inl e \<Rightarrow> None)"

definition recipient_at :: "TableContext \<Rightarrow> usize \<Rightarrow> Recipient" where
  "recipient_at table row =
     (let raw_type = (case get_row_u32 table row 0x0C15 of None \<Rightarrow> 0 | Some v \<Rightarrow> v)
      in \<lparr> rcp_recipient_type = rt_from_mapi raw_type,
           rcp_display_name = opt_row_string (get_row_string table row 0x3001),
           rcp_address_type = opt_row_string (get_row_string table row 0x3002),
           rcp_email_address = opt_row_string (get_row_string table row 0x3003),
           rcp_smtp_address = opt_row_string (get_row_string table row 0x39FE) \<rparr>)"

definition table_recipients :: "TableContext \<Rightarrow> Recipient list" where
  "table_recipients table = map (recipient_at table) [0..<tc_row_count table]"

text \<open>The result of a step whose error is answered by a default; what was noted stays noted.\<close>

definition rd_or :: "'a rd \<Rightarrow> 'a \<Rightarrow> 'a rd" where
  "rd_or m d s = (case m s of (Inl e, s') \<Rightarrow> (Inr d, s') | (Inr x, s') \<Rightarrow> (Inr x, s'))"

definition list_recipients_inner ::
  "(bytes \<Rightarrow> 32 word) \<Rightarrow> bytes \<Rightarrow> PstFile \<Rightarrow> u64 \<Rightarrow> Recipient list rd" where
  "list_recipients_inner crc file pst message_nid =
     (case pf_nbt pst message_nid of
        None \<Rightarrow> rd_ret []
      | Some nbt_entry \<Rightarrow>
          if bid_is_null (nb_bid_sub nbt_entry) then rd_ret []
          else rd_bind (list_subnode_entries crc file (pf_bbt pst) (nb_bid_sub nbt_entry)) (\<lambda>sub_entries.
            case find (\<lambda>e. nid_type (se_nid e) = NtRecipientTable) sub_entries of
              None \<Rightarrow> rd_ret []
            | Some recip_entry \<Rightarrow>
                if bid_is_null (se_bid_data recip_entry) then rd_ret []
                else
                  let crypt = ph_crypt_method (pf_header pst)
                  in rd_bind (read_block_data crc file (pf_bbt pst) (se_bid_data recip_entry) crypt) (\<lambda>data.
                     rd_or (rd_bind (load_from_table_bids crc file (pf_bbt pst) data (se_bid_sub recip_entry) crypt)
                       (\<lambda>table. rd_ret (table_recipients table))) [])))"

definition list_recipients ::
  "(bytes \<Rightarrow> 32 word) \<Rightarrow> bytes \<Rightarrow> PstFile \<Rightarrow> u64 \<Rightarrow> Recipient list rd" where
  "list_recipients crc file pst message_nid = rd_or (list_recipients_inner crc file pst message_nid) []"

subsection \<open>Lemmas\<close>

lemma yields_or: "yields m x \<Longrightarrow> yields (rd_or m d) x"
  unfolding yields_def rd_or_def by (elim all_forward ex_forward) simp

lemma list_recipients_total: "\<exists>rows s'. list_recipients crc file pst nid s = (Inr rows, s')"
  by (auto simp: list_recipients_def rd_or_def split: prod.split sum.split)

lemma list_recipients_yields:
  assumes "pf_nbt pst nid = Some n" and "nb_bid_sub n \<noteq> 0" and "ph_crypt_method (pf_header pst) = CryptNone"
    and "yields (list_subnode_entries crc file (pf_bbt pst) (nb_bid_sub n)) es"
    and "find (\<lambda>e. nid_type (se_nid e) = NtRecipientTable) es = Some e" and "se_bid_data e \<noteq> 0"
    and "yields (read_block_data crc file (pf_bbt pst) (se_bid_data e) CryptNone) data"
    and "yields (load_from_table_bids crc file (pf_bbt pst) data (se_bid_sub e) CryptNone) t"
  shows "yields (list_recipients crc file pst nid) (table_recipients t)"
proof -
  have "yields (rd_or (rd_bind (load_from_table_bids crc file (pf_bbt pst) data (se_bid_sub e) CryptNone)
      (\<lambda>table. rd_ret (table_recipients table))) []) (table_recipients t)"
    by (intro yields_or yields_bind [where f = "\<lambda>table. rd_ret (table_recipients table)", OF assms(8)]) simp
  then have "yields (list_recipients_inner crc file pst nid) (table_recipients t)"
    using assms(1-3,5,6) unfolding list_recipients_inner_def
    by (auto simp: bid_is_null_def Let_def intro!: yields_bind [OF assms(4)] yields_bind [OF assms(7)])
  then show ?thesis unfolding list_recipients_def by (rule yields_or)
qed

end
