(* ===== verification/Recipient_Table.thy ===== *)
theory Recipient_Table
  imports Recipient_Rows Recipient_Reader
begin

text \<open>
  The recipient table of a message, from the recipients handed to the writer
  (\<^verbatim>\<open>pst-writer/src/production.rs\<close>) to the recipients the reader lists
  (\<^verbatim>\<open>pst-reader/src/messaging/recipient.rs\<close>): every recipient comes back, trimmed.
\<close>

subsection \<open>The recipients of a message\<close>

definition wrt_is_bcc :: "WriteRecipientType \<Rightarrow> bool" where
  "wrt_is_bcc t \<longleftrightarrow> (case t of WrBcc \<Rightarrow> True | _ \<Rightarrow> False)"

definition recipient_class_rank :: "WriteRecipientType \<Rightarrow> nat" where
  "recipient_class_rank t = (case t of WrTo \<Rightarrow> 0 | WrCc \<Rightarrow> 1 | WrBcc \<Rightarrow> 2 | WrOther _ \<Rightarrow> 3)"

definition order_recipients_for_tc :: "WriteRecipient list \<Rightarrow> WriteRecipient list" where
  "order_recipients_for_tc rows =
     map snd (sort_by (\<lambda>a b. recipient_class_rank (wr_recipient_type (snd a)) < recipient_class_rank (wr_recipient_type (snd b)) \<or>
       recipient_class_rank (wr_recipient_type (snd a)) = recipient_class_rank (wr_recipient_type (snd b)) \<and> fst a \<le> fst b)
       (enumerate 0 rows))"

definition NID_RECIPIENT_TABLE :: u64 where
  "NID_RECIPIENT_TABLE = 0x692"

text \<open>The part of \<^verbatim>\<open>build_message_node\<close> that adds the recipient table to the subnodes of a message.\<close>

definition write_recipient_table ::
  "(bytes \<Rightarrow> 32 word) \<Rightarrow> bool \<Rightarrow> WriteRecipient list \<Rightarrow> (u64 \<times> u64 \<times> u64) list \<Rightarrow> u64 \<Rightarrow>
   ((u64 \<times> u64 \<times> u64) list \<times> u64) lay" where
  "write_recipient_table crc include_bcc_recipients recipients subnode_entries written_content_bytes =
     (let recip_filtered = filter (\<lambda>r. include_bcc_recipients \<or> \<not> wrt_is_bcc (wr_recipient_type r)) recipients;
          recip_ordered = order_recipients_for_tc recip_filtered
      in lay_bind (build_recipient_table_strategy_a crc recip_ordered) (\<lambda>recip_built.
         lay_bind (write_data_chain crc (tt_heap recip_built)) (\<lambda>recip_table_bid.
           lay_ret (subnode_entries @ [(NID_RECIPIENT_TABLE, recip_table_bid, tt_bid_sub recip_built)],
             written_content_bytes +
               saturating_add64 (length (tt_heap recip_built)) (tt_extra_content_bytes recip_built)))))"

text \<open>Recipients are listed class by class, each class in the given order.\<close>

lemma insert_by_insort:
  assumes "\<forall>y\<in>set ys. le x y \<longleftrightarrow> f x \<le> f y"
  shows "insert_by le x ys = insort_key f x ys"
  using assms by (induction ys) auto

lemma sort_by_enumerate:
  "sort_by (\<lambda>a b. f (snd a) < f (snd b) \<or> f (snd a) = f (snd b) \<and> fst a \<le> fst b) (enumerate n xs) =
    sort_key (\<lambda>a. f (snd a) :: nat) (enumerate n xs)"
proof (induction xs arbitrary: n)
  case (Cons x xs)
  let ?le = "\<lambda>a b. f (snd a) < f (snd b) \<or> f (snd a) = f (snd b) \<and> fst a \<le> fst b"
  have "n \<le> fst y" if "y \<in> set (enumerate (Suc n) xs)" for y
    using that by (auto simp: in_set_enumerate_eq)
  then have "\<forall>y\<in>set (sort_key (\<lambda>a. f (snd a)) (enumerate (Suc n) xs)). ?le (n, x) y \<longleftrightarrow> f (snd (n, x)) \<le> f (snd y)"
    by (auto simp: le_less)
  from insert_by_insort [of "sort_key (\<lambda>a. f (snd a)) (enumerate (Suc n) xs)" ?le "(n, x)" "\<lambda>a. f (snd a)", OF this] show ?case
    using Cons.IH [of "Suc n"] by (simp add: sort_by_def)
qed (simp add: sort_by_def)

lemma order_recipients: "order_recipients_for_tc rows = sort_key (recipient_class_rank \<circ> wr_recipient_type) rows"
proof -
  have "map snd (sort_key ((recipient_class_rank \<circ> wr_recipient_type) \<circ> snd) (enumerate 0 rows)) =
      sort_key (recipient_class_rank \<circ> wr_recipient_type) (map snd (enumerate 0 rows))"
    by (rule sort_key_map [symmetric])
  then show ?thesis
    using sort_by_enumerate [of "recipient_class_rank \<circ> wr_recipient_type" 0 rows]
    by (simp add: order_recipients_for_tc_def comp_def)
qed

subsection \<open>Recipients read from a table\<close>

text \<open>What is left of a recipient: its type, its texts trimmed, an address type where none was given.\<close>

definition written_recipient :: "WriteRecipient \<Rightarrow> Recipient" where
  "written_recipient recip =
     \<lparr> rcp_recipient_type = rt_from_mapi (wrt_to_mapi (wr_recipient_type recip)),
       rcp_display_name = nonempty_str (wr_display_name recip),
       rcp_address_type = nonempty_str (Some (resolve_recipient_address_type recip)),
       rcp_email_address = nonempty_str (wr_email_address recip),
       rcp_smtp_address = nonempty_str (wr_smtp_address recip) \<rparr>"

lemma nonempty_text: "nonempty_str (Some (recipient_text s)) = nonempty_str s"
  by (auto simp: nonempty_str_def recipient_text_def wr_nonempty_def Let_def split: option.split)

lemma recipient_column:
  assumes "table_shows t recipient_columns 56 rows m D"
  shows "find_column t 0x0C15 = Some (column_desc (0x0C15, 0x0003, 0, 4, 0))"
    and "find_column t 0x3001 = Some (column_desc (0x3001, 0x001F, 16, 4, 4))"
    and "find_column t 0x3002 = Some (column_desc (0x3002, 0x001F, 20, 4, 5))"
    and "find_column t 0x3003 = Some (column_desc (0x3003, 0x001F, 24, 4, 6))"
    and "find_column t 0x39FE = Some (column_desc (0x39FE, 0x001F, 36, 4, 9))"
  using assms by (simp_all add: table_shows_def find_column_def recipient_columns_eq column_desc_def)

lemma recipient_read:
  assumes "recipients.rows_read crc xs t" and "\<forall>x\<in>set xs. recipient_valid x" and "i < length xs"
  shows "recipient_at t i = written_recipient (xs ! i)"
proof -
  from assms(1) obtain m D rows where t: "table_shows t recipient_columns 56 rows m D"
    "recipients.rows_ok crc m D xs rows" unfolding recipients.rows_read_def by blast
  let ?r = "xs ! i"
  let ?id = "recipient_row_id i ?r"
  have i: "i < length rows" using t(2) assms(3) by (simp add: recipients.rows_ok_def)
  have "recipient_row_ok crc m D i ?r (rows ! i)"
    using t(2) assms(3) unfolding recipients.rows_ok_def by blast
  then obtain hids where hids: "hids_for ?r hids" "rows ! i = recipient_image i ?id ?r hids"
    "\<forall>(hnid, bs)\<in>set (recipient_cells crc ?id ?r hids). cell_in m D hnid bs"
    unfolding recipient_row_ok_def by blast
  have valid: "recipient_valid ?r" using assms(2,3) by simp
  note texts = valid [unfolded recipient_valid_def]
  note fields = read_recipient_image [of i ?id ?r hids, folded hids(2)]
  have reads: "row_reads t rows 56" using t(1) by (simp add: table_shows_def)
  note columns = recipient_column [OF t(1)]
  have cells: "cell_in m D (rh_display hids) (utf16le_bytes (recipient_text (wr_display_name ?r)))"
    "cell_in m D (rh_addr_type hids) (utf16le_bytes (resolve_recipient_address_type ?r))"
    "cell_in m D (rh_email hids) (utf16le_bytes (recipient_text (wr_email_address ?r)))"
    using hids(3) by (simp_all add: recipient_cells_def)
  have "get_row_u32 t i 0x0C15 = Some (wrt_to_mapi (wr_recipient_type ?r))"
    using row_u32 [OF reads i columns(1)] texts fields(1) by (simp add: column_desc_def)
  moreover have "get_row_string t i 0x3001 = Inr (Some (recipient_text (wr_display_name ?r)))"
    using shown_string [OF t(1) i columns(2)] cells(1) texts recipient_text_ok(1) fields(4) cell_in_less [OF cells(1)]
    by (simp add: column_desc_def)
  moreover have "get_row_string t i 0x3002 = Inr (Some (resolve_recipient_address_type ?r))"
    using shown_string [OF t(1) i columns(3)] cells(2) recipient_texts_ok(1) [OF valid] fields(5) cell_in_less [OF cells(2)]
    by (simp add: column_desc_def)
  moreover have "get_row_string t i 0x3003 = Inr (Some (recipient_text (wr_email_address ?r)))"
    using shown_string [OF t(1) i columns(4)] cells(3) texts recipient_text_ok(1) fields(6) cell_in_less [OF cells(3)]
    by (simp add: column_desc_def)
  moreover have "get_row_string t i 0x39FE = Inr (Some (recipient_text (wr_smtp_address ?r)))"
  proof (cases "rh_smtp hids")
    case None
    then have "recipient_text (wr_smtp_address ?r) = []" using hids(1) by (simp add: hids_for_def recipient_text_def)
    then show ?thesis
      using row_string(1) [OF reads i columns(5)] fields(8) None by (simp add: column_desc_def)
  next
    case (Some h)
    then have cell: "cell_in m D h (utf16le_bytes (recipient_text (wr_smtp_address ?r)))"
      using hids(3) by (simp add: recipient_cells_def)
    then show ?thesis
      using shown_string [OF t(1) i columns(5)] texts recipient_text_ok(1) fields(8) Some cell_in_less [OF cell]
      by (simp add: column_desc_def)
  qed
  ultimately show ?thesis
    by (simp add: recipient_at_def written_recipient_def opt_row_string_def nonempty_text)
qed

lemma recipients_read:
  assumes "recipients.rows_read crc xs t" and "\<forall>x\<in>set xs. recipient_valid x"
  shows "table_recipients t = map written_recipient xs"
proof -
  have "tc_row_count t = length xs"
    using assms(1) unfolding recipients.rows_read_def by (auto simp: table_shows_def recipients.rows_ok_def)
  with recipient_read [OF assms] show ?thesis
    by (intro nth_equalityI) (simp_all add: table_recipients_def)
qed

subsection \<open>The finished table\<close>

definition recipients_served ::
  "(bytes \<Rightarrow> 32 word) \<Rightarrow> WriteRecipient list \<Rightarrow> TableBuilt \<Rightarrow> Layout \<Rightarrow> bool" where
  "recipients_served crc xs built lay \<longleftrightarrow>
     0 < length (tt_heap built) \<and> length (tt_heap built) \<le> 8 * MAX_BLOCK_DATA \<and>
     (\<forall>file bbt. (\<forall>b p. holds crc lay b p \<longrightarrow> serves crc file bbt b p) \<longrightarrow> tt_bid_sub built < 2 ^ 64 \<and>
       (\<exists>t. yields (load_from_table_bids crc file bbt (tt_heap built) (tt_bid_sub built) CryptNone) t \<and>
          table_recipients t = map written_recipient xs))"

lemma rd_lift_bind: "rd_bind (rd_lift (Inr x)) f = f x"
  by (simp add: fun_eq_iff rd_bind_def rd_lift_def)

lemma rd_ret_bind: "rd_bind (rd_ret x) f = f x"
  by (simp add: fun_eq_iff rd_bind_def rd_ret_def)

lemma rowless_loads:
  assumes "paged_maps heap m" and "m hid = Some (info_bytes columns w 0 0)" and "hid < 2 ^ 32" and "columns_fit columns w"
  shows "\<exists>t. yields (load_from_table_bids crc file bbt (paged_finalize heap hid) bid_sub crypt) t \<and> tc_row_count t = 0"
proof -
  from paged_maps_reads [OF assms(1), of hid] obtain h where
    h: "heap_parse (paged_finalize heap hid) (node_block_size (paged_finalize heap hid)) = Inr h"
    "hh_hid_user_root (hp_header h) = hid mod 4294967296"
    "\<And>hid bs. m hid = Some bs \<Longrightarrow> heap_get h hid = Inr bs" by blast
  have root: "heap_get h (hh_hid_user_root (hp_header h)) = Inr (info_bytes columns w 0 0)"
    using h(2) h(3) [OF assms(2)] assms(3) by simp
  have "w < 65536" using assms(4) by (simp add: columns_fit_def MAX_BLOCK_DATA_def)
  from parse_info [of columns w 0 0] this assms(4) have info: "parse_tc_info (info_bytes columns w 0 0) =
      Inr (info_of columns w 0 0)" by (simp add: columns_fit_def info_of_def)
  have width: "ti_rgib (info_of columns w 0 0) ! 3 = w" by (simp add: info_of_def)
  have rows: "load_rows resolver h (info_of columns w 0 0) w = rd_ret ([], 0)" for resolver
    by (simp add: load_rows_def info_of_def)
  let ?t = "\<lparr> tc_heap = h, tc_info = info_of columns w 0 0, tc_row_data = [], tc_row_size = w, tc_row_count = 0,
    tc_row_ids = load_row_ids h (info_of columns w 0 0) 0, tc_cell_subnodes = Map.empty \<rparr>"
  have "load_from_table_bids crc file bbt (paged_finalize heap hid) bid_sub crypt = rd_ret ?t"
    unfolding load_from_table_bids_def tc_load_inner_def h(1) root info rd_lift_bind Let_def width rows
    by (simp add: rd_ret_bind collect_cell_subnodes_def)
  then have "yields (load_from_table_bids crc file bbt (paged_finalize heap hid) bid_sub crypt) ?t" by simp
  then show ?thesis by (intro exI [where x = ?t]) simp
qed

lemma empty_table_built:
  "\<exists>built. empty_table recipient_columns 56 (tb_heap table_start) = Inr built \<and> recipients_served crc [] built lay"
proof -
  have maps: "paged_maps (tb_heap table_start) Map.empty" by (simp add: table_start_def paged_maps_new)
  have room: "12 + length (tcinfo_bytes recipient_columns 56) + 2 * 0 + 10 \<le> MAX_BLOCK_DATA" "(0 :: nat) < 2047"
    by (simp_all add: length_tcinfo recipient_columns_eq MAX_BLOCK_DATA_def)
  from small_alloc [OF small_start room] obtain hid heap1 where
    heap1: "paged_try_alloc (tb_heap table_start) (tcinfo_bytes recipient_columns 56) = Inr (hid, heap1)" .
  from schema_placed [OF maps heap1, of 0] obtain heap2 where heap2: "paged_patch_u32 heap1 hid 10 0 = Inr heap2"
    "\<And>b. \<exists>heap3 m3. paged_patch_u32 heap2 hid 14 b = Inr heap3 \<and> paged_maps heap3 m3 \<and> Map.empty \<subseteq>\<^sub>m m3 \<and>
      m3 hid = Some (info_bytes recipient_columns 56 0 b) \<and> hid < 2 ^ 32" by blast
  from heap2(2) [of 0] obtain heap3 m3 where heap3: "paged_patch_u32 heap2 hid 14 0 = Inr heap3" "paged_maps heap3 m3"
    "m3 hid = Some (info_bytes recipient_columns 56 0 0)" "hid < 2 ^ 32" by blast
  let ?built = "\<lparr> tt_heap = paged_finalize heap3 hid, tt_bid_sub = 0, tt_extra_content_bytes = 0 \<rparr>"
  have "empty_table recipient_columns 56 (tb_heap table_start) = Inr ?built"
    by (simp add: empty_table_def heap1 heap2(1) heap3(1))
  moreover have "\<exists>t. yields (load_from_table_bids crc file bbt (tt_heap ?built) (tt_bid_sub ?built) CryptNone) t \<and>
      table_recipients t = map written_recipient []" for "file" bbt
    using rowless_loads [OF heap3(2-4) recipients.fit, of crc "file" bbt 0 CryptNone] by (auto simp: table_recipients_def)
  ultimately show ?thesis
    using paged_maps_size [OF heap3(2), of hid] unfolding recipients_served_def by auto
qed

lemma recipient_table_rows:
  "rows \<noteq> [] \<Longrightarrow> build_recipient_table_strategy_a crc rows =
    build_rows crc recipient_columns 56 (add_recipient_row crc recipient_columns 56) rows"
  "build_recipient_table_strategy_a crc [] = lay_lift (empty_table recipient_columns 56 (tb_heap table_start))"
  by (simp_all add: build_recipient_table_strategy_a_def build_rows_def recipient_template recipient_columns_eq lay_bind_ret)

lemma recipient_table_run:
  assumes "\<forall>x\<in>set xs. recipient_valid x" and "length xs \<le> 500000"
  shows "lay_run crc (\<lambda>_. True) (build_recipient_table_strategy_a crc xs) (recipients_served crc xs)"
proof (cases "xs = []")
  case True
  from empty_table_built [of crc] obtain built where
    "empty_table recipient_columns 56 (tb_heap table_start) = Inr built" "\<And>lay. recipients_served crc [] built lay"
    by (metis Inr_inject)
  then show ?thesis unfolding True recipient_table_rows by (intro lay_run_lift) auto
next
  case False
  have post: "recipients_served crc xs built lay" if "recipients.table_reads crc xs built lay" for built lay
    using that recipients_read [OF _ assms(1)] unfolding recipients.table_reads_def recipients_served_def by blast
  show ?thesis
    unfolding recipient_table_rows(1) [OF False]
    by (rule lay_run_weaken [OF recipients.build_rows_run [OF assms False] _ post]) simp
qed

lemma recipient_table_small:
  assumes "\<forall>x\<in>set xs. recipient_small x" and "sum_list (map (\<lambda>x. recipient_space x + 32) xs) \<le> 7900"
    and "layout_ok lay" and "io_ok lay"
  shows "\<exists>built lay'. build_recipient_table_strategy_a crc xs lay = Some (Inr built, lay')"
proof (cases "xs = []")
  case True
  with empty_table_built show ?thesis by (fastforce simp: recipient_table_rows lay_lift_def)
next
  case False
  from recipients.build_rows_small [OF assms(1,2) False assms(3,4)] show ?thesis
    unfolding recipient_table_rows(1) [OF False] .
qed

subsection \<open>The recipients of a stored message\<close>

lemma served_later:
  assumes "lay_step crc lay lay'" and "recipients_served crc xs built lay"
  shows "recipients_served crc xs built lay'"
proof -
  have "holds crc lay \<le> holds crc lay'" using lay_stepD [OF assms(1)] by simp
  then have "\<forall>b p. holds crc lay' b p \<longrightarrow> serves crc file bbt b p \<Longrightarrow> \<forall>b p. holds crc lay b p \<longrightarrow> serves crc file bbt b p"
    for "file" bbt by (auto simp: le_fun_def)
  with assms(2) show ?thesis unfolding recipients_served_def by blast
qed

lemma add_subnode_leaf_run:
  "lay_run crc (\<lambda>_. True) (add_subnode_leaf es) (\<lambda>bid lay. 0 < bid \<and> holds crc lay bid (slblock_payload (sort_key fst es)) \<and>
     distinct (map fst es) \<and> 8 + 24 * length es \<le> MAX_BLOCK_DATA)"
proof (cases "distinct (map fst es) \<and> 8 + 24 * length es \<le> MAX_BLOCK_DATA")
  case False
  show ?thesis
    unfolding lay_run_def
  proof (intro allI impI)
    fix lay
    from False have "\<not> distinct (map fst es) \<or> MAX_BLOCK_DATA < 8 + 24 * length es" by auto
    from add_subnode_leaf_refuses [OF this, of lay] obtain msg where
      "add_subnode_leaf es lay = Some (Inl (WeLayout msg), lay)" by blast
    then show "\<exists>r lay'. add_subnode_leaf es lay = Some (r, lay') \<and> (case r of
        Inl e \<Rightarrow> (\<exists>msg. e = WeIo msg) \<longrightarrow> \<not> io_ok lay
      | Inr bid \<Rightarrow> lay_step crc lay lay' \<and> 0 < bid \<and> holds crc lay' bid (slblock_payload (sort_key fst es)) \<and>
          distinct (map fst es) \<and> 8 + 24 * length es \<le> MAX_BLOCK_DATA)" by simp
  qed
next
  case True
  then show ?thesis
    by (intro lay_run_weaken [OF lay_spec_run [OF add_subnode_leaf_spec [of es crc "\<lambda>_. True"]]]) auto
qed

text \<open>A table with its heap in a chain of its own.\<close>

definition table_stored ::
  "(bytes \<Rightarrow> 32 word) \<Rightarrow> WriteRecipient list \<Rightarrow> u64 \<Rightarrow> u64 \<Rightarrow> Layout \<Rightarrow> bool" where
  "table_stored crc xs bid sub lay \<longleftrightarrow>
     (\<exists>built. tt_bid_sub built = sub \<and> chain_data CryptNone (holds crc lay) bid (tt_heap built) \<and>
        recipients_served crc xs built lay)"

lemma stored_later: "lay_step crc lay lay' \<Longrightarrow> table_stored crc xs bid sub lay \<Longrightarrow> table_stored crc xs bid sub lay'"
proof -
  assume step: "lay_step crc lay lay'" and stored: "table_stored crc xs bid sub lay"
  have "holds crc lay \<le> holds crc lay'" using lay_stepD [OF step] by simp
  then have "chain_data CryptNone (holds crc lay) b bs \<Longrightarrow> chain_data CryptNone (holds crc lay') b bs" for b bs
    by (erule_tac chain_data_mono) auto
  with stored served_later [OF step] show ?thesis unfolding table_stored_def by blast
qed

abbreviation recipients_for :: "bool \<Rightarrow> WriteRecipient list \<Rightarrow> WriteRecipient list" where
  "recipients_for include_bcc recips \<equiv>
     sort_key (recipient_class_rank \<circ> wr_recipient_type)
       (filter (\<lambda>r. include_bcc \<or> \<not> wrt_is_bcc (wr_recipient_type r)) recips)"

lemma write_recipient_table_run:
  assumes "\<forall>r\<in>set recips. recipient_valid r" and "length recips \<le> 500000"
  shows "lay_run crc (\<lambda>_. True) (write_recipient_table crc incl recips es n) (\<lambda>(es', n') lay.
    \<exists>bid sub. es' = es @ [(0x692, bid, sub)] \<and> table_stored crc (recipients_for incl recips) bid sub lay)"
    (is "lay_run _ _ _ ?P")
proof -
  let ?xs = "recipients_for incl recips"
  have xs: "\<forall>r\<in>set ?xs. recipient_valid r" "length ?xs \<le> 500000"
    using assms(1) order_trans [OF length_filter_le assms(2)] by simp_all
  have store: "lay_run crc (recipients_served crc ?xs built) (lay_bind (write_data_chain crc (tt_heap built)) (\<lambda>bid.
      lay_ret (es @ [(NID_RECIPIENT_TABLE, bid, tt_bid_sub built)],
        n + saturating_add64 (length (tt_heap built)) (tt_extra_content_bytes built)))) ?P" for built
  proof (rule lay_run_pre)
    fix lay assume served: "recipients_served crc ?xs built lay"
    then have small: "length (tt_heap built) \<le> I32_MAX"
      by (simp add: recipients_served_def I32_MAX_def MAX_BLOCK_DATA_def)
    have "lay_run crc (\<lambda>l. True \<and> recipients_served crc ?xs built l) (write_data_chain crc (tt_heap built))
        (\<lambda>bid l. chain_data CryptNone (holds crc l) bid (tt_heap built) \<and> recipients_served crc ?xs built l)"
      by (rule lay_run_frame [OF lay_spec_run [OF write_data_chain_spec [OF small]]]) (rule served_later)
    then have chain: "lay_run crc (\<lambda>l. l = lay) (write_data_chain crc (tt_heap built))
        (\<lambda>bid l. chain_data CryptNone (holds crc l) bid (tt_heap built) \<and> recipients_served crc ?xs built l)"
      by (rule lay_run_weaken) (use served in simp_all)
    show "lay_run crc (\<lambda>l. l = lay) (lay_bind (write_data_chain crc (tt_heap built)) (\<lambda>bid.
        lay_ret (es @ [(NID_RECIPIENT_TABLE, bid, tt_bid_sub built)],
          n + saturating_add64 (length (tt_heap built)) (tt_extra_content_bytes built)))) ?P"
      by (rule lay_run_bind [OF chain], rule lay_run_ret)
        (auto simp: NID_RECIPIENT_TABLE_def table_stored_def)
  qed
  show ?thesis
    unfolding write_recipient_table_def Let_def order_recipients
    by (rule lay_run_bind [OF recipient_table_run [OF xs] store])
qed

lemma find_unique: "x \<in> set xs \<Longrightarrow> P x \<Longrightarrow> (\<And>y. y \<in> set xs \<Longrightarrow> P y \<Longrightarrow> y = x) \<Longrightarrow> find P xs = Some x"
proof (induction xs)
  case (Cons a xs)
  show ?case
  proof (cases "P a")
    case True
    with Cons.prems(3) [of a] show ?thesis by simp
  next
    case False
    with Cons.prems(1,2) have "x \<in> set xs" by auto
    from Cons.IH [OF this Cons.prems(2)] Cons.prems(3) False show ?thesis by simp
  qed
qed simp

lemma chain_zero: "chain_data crypt S 0 data \<Longrightarrow> data = []"
  by (erule chain_data.cases) (auto simp: xblock_of_def)

lemma stored_recipients_read:
  assumes "table_stored crc xs bid sub lay" and "0 < leaf"
    and "holds crc lay leaf (slblock_payload (sort_key fst (es @ [(0x692, bid, sub)] @ others)))"
    and "distinct (map fst (es @ [(0x692, bid, sub)] @ others))"
    and "8 + 24 * length (es @ [(0x692, bid, sub)] @ others) \<le> MAX_BLOCK_DATA"
    and "\<forall>e\<in>set (es @ others). slentry_ok e \<and> nid_type (fst e) \<noteq> NtRecipientTable"
    and "\<forall>b p. holds crc lay b p \<longrightarrow> serves crc file (pf_bbt pst) b p" and "ph_crypt_method (pf_header pst) = CryptNone"
    and "pf_nbt pst nid = Some entry" and "nb_bid_sub entry = leaf"
  shows "yields (list_recipients crc file pst nid) (map written_recipient xs)"
proof -
  let ?es = "es @ [(0x692, bid, sub)] @ others"
  from assms(1) obtain built where built: "tt_bid_sub built = sub"
    "chain_data CryptNone (holds crc lay) bid (tt_heap built)" "recipients_served crc xs built lay"
    unfolding table_stored_def by blast
  have size: "0 < length (tt_heap built)" "length (tt_heap built) \<le> 8 * MAX_BLOCK_DATA"
    using built(3) by (simp_all add: recipients_served_def)
  from built(3) assms(7) obtain t where sub: "sub < 2 ^ 64"
    and t: "yields (load_from_table_bids crc file (pf_bbt pst) (tt_heap built) sub CryptNone) t"
    "table_recipients t = map written_recipient xs" unfolding recipients_served_def built(1) [symmetric] by blast
  have serves: "\<And>b p. holds crc lay b p \<Longrightarrow> serves crc file (pf_bbt pst) b p" using assms(7) by blast
  have bid: "bid \<noteq> 0" "bid < 2 ^ 64"
    using built(2) size(1) chain_zero [of CryptNone "holds crc lay" "tt_heap built"] chain_bid [OF built(2) serves]
    by (cases "bid = 0"; simp)+
  have ok: "\<forall>e\<in>set (sort_key fst ?es). slentry_ok e"
    using assms(6) bid(2) sub by (auto simp: slentry_ok_def)
  have "length (concat (map slentry_bytes (sort_key fst ?es))) = length ?es * 24"
    using length_concat_width [of "map slentry_bytes (sort_key fst ?es)" 24] by simp
  then have "length (slblock_payload (sort_key fst ?es)) \<le> MAX_BLOCK_DATA"
    using assms(5) by (simp add: slblock_payload_eq)
  from list_subnode_leaf [OF serves [OF assms(3)] assms(2) this ok] have
    listed: "yields (list_subnode_entries crc file (pf_bbt pst) (nb_bid_sub entry)) (map entry_of (sort_key fst ?es))"
    unfolding assms(10) .
  have "find (\<lambda>e. nid_type (fst e) = NtRecipientTable) (sort_key fst ?es) = Some (0x692, bid, sub)"
  proof (rule find_unique)
    show "y = (0x692, bid, sub)" if "y \<in> set (sort_key fst ?es)" "nid_type (fst y) = NtRecipientTable" for y
      using that assms(6) by auto
  qed (simp_all add: nid_type_def nid_type_from_raw_def)
  then have found: "find (\<lambda>e. nid_type (se_nid e) = NtRecipientTable) (map entry_of (sort_key fst ?es)) =
      Some (entry_of (0x692, bid, sub))"
    by (simp add: find_map comp_def entry_of_def case_prod_unfold)
  have "length (tt_heap built) \<le> MAX_XBLOCK_ASSEMBLE" using size(2) by (simp add: MAX_BLOCK_DATA_def MAX_XBLOCK_ASSEMBLE_def)
  from read_chain [OF built(2) serves this] have
    data: "yields (read_block_data crc file (pf_bbt pst) (se_bid_data (entry_of (0x692, bid, sub))) CryptNone) (tt_heap built)"
    by (simp add: entry_of_def)
  have "nb_bid_sub entry \<noteq> 0" "se_bid_data (entry_of (0x692, bid, sub)) \<noteq> 0"
    "se_bid_sub (entry_of (0x692, bid, sub)) = sub" using assms(2,10) bid(1) by (simp_all add: entry_of_def)
  then have "yields (list_recipients crc file pst nid) (table_recipients t)"
    using t(1) by (intro list_recipients_yields [OF assms(9) _ assms(8) listed found _ data]) simp_all
  then show ?thesis unfolding t(2) .
qed

lemma recipients_stored_run:
  assumes "\<forall>r\<in>set recips. recipient_valid r" and "length recips \<le> 500000"
    and "\<forall>e\<in>set (es @ others). slentry_ok e \<and> nid_type (fst e) \<noteq> NtRecipientTable"
  shows "lay_run crc (\<lambda>_. True)
    (lay_bind (write_recipient_table crc incl recips es n) (\<lambda>(es', n'). add_subnode_leaf (es' @ others)))
    (\<lambda>leaf lay. \<forall>file pst nid entry. (\<forall>b p. holds crc lay b p \<longrightarrow> serves crc file (pf_bbt pst) b p) \<and>
       ph_crypt_method (pf_header pst) = CryptNone \<and> pf_nbt pst nid = Some entry \<and> nb_bid_sub entry = leaf \<longrightarrow>
       yields (list_recipients crc file pst nid) (map written_recipient (recipients_for incl recips)))"
    (is "lay_run _ _ _ ?P")
proof (rule lay_run_bind [OF write_recipient_table_run [OF assms(1,2)]])
  fix x :: "(u64 \<times> u64 \<times> u64) list \<times> u64"
  obtain es' n' where x: "x = (es', n')" by (cases x)
  let ?xs = "recipients_for incl recips"
  have leaf: "lay_run crc (table_stored crc ?xs bid sub) (add_subnode_leaf (es @ [(0x692, bid, sub)] @ others)) ?P" for bid sub
  proof -
    let ?es = "es @ [(0x692, bid, sub)] @ others"
    have post: "?P leaf lay" if "(0 < leaf \<and> holds crc lay leaf (slblock_payload (sort_key fst ?es)) \<and>
        distinct (map fst ?es) \<and> 8 + 24 * length ?es \<le> MAX_BLOCK_DATA) \<and> table_stored crc ?xs bid sub lay" for leaf lay
      using stored_recipients_read [OF _ _ _ _ _ assms(3)] that by blast
    have "lay_run crc (\<lambda>lay. True \<and> table_stored crc ?xs bid sub lay) (add_subnode_leaf ?es) (\<lambda>leaf lay.
        (0 < leaf \<and> holds crc lay leaf (slblock_payload (sort_key fst ?es)) \<and>
         distinct (map fst ?es) \<and> 8 + 24 * length ?es \<le> MAX_BLOCK_DATA) \<and> table_stored crc ?xs bid sub lay)"
      by (rule lay_run_frame [OF add_subnode_leaf_run]) (rule stored_later)
    from lay_run_weaken [OF this _ post] show ?thesis by simp
  qed
  show "lay_run crc (case x of (es', n') \<Rightarrow> \<lambda>lay. \<exists>bid sub. es' = es @ [(0x692, bid, sub)] \<and> table_stored crc ?xs bid sub lay)
      (case x of (es', n') \<Rightarrow> add_subnode_leaf (es' @ others)) ?P"
    unfolding x prod.case
  proof (intro lay_run_ex lay_run_conj)
    show "es' = es @ [(0x692, bid, sub)] \<Longrightarrow> lay_run crc (table_stored crc ?xs bid sub) (add_subnode_leaf (es' @ others)) ?P" for bid sub
      using leaf by simp
  qed
qed

lemma recipients_stored_small:
  assumes "\<forall>r\<in>set recips. recipient_valid r \<and> recipient_small r"
    and "sum_list (map (\<lambda>r. recipient_space r + 32) recips) \<le> 7900" and "length recips \<le> 500000"
    and "distinct (map fst (es @ others))" and "0x692 \<notin> fst ` set (es @ others)" and "length (es @ others) < 340"
    and "layout_ok lay" and "io_ok lay"
  shows "\<exists>leaf lay'. lay_bind (write_recipient_table crc incl recips es n) (\<lambda>(es', n'). add_subnode_leaf (es' @ others)) lay =
    Some (Inr leaf, lay')"
proof -
  let ?f = "\<lambda>r. incl \<or> \<not> wrt_is_bcc (wr_recipient_type r)" and ?s = "\<lambda>r. recipient_space r + 32"
  let ?xs = "recipients_for incl recips"
  have "sum_list (map ?s ?xs) = sum_list (map ?s (filter ?f recips))"
    by (simp only: sum_mset_sum_list [symmetric] mset_map mset_sort)
  then have sum: "sum_list (map ?s ?xs) \<le> 7900"
    using sum_list_filter_le_nat [of ?s ?f recips] assms(2) by linarith
  have xs: "\<forall>x\<in>set ?xs. recipient_small x" "\<forall>x\<in>set ?xs. recipient_valid x" "length ?xs \<le> 500000"
    using assms(1) order_trans [OF length_filter_le assms(3)] by simp_all
  from recipient_table_small [OF xs(1) sum assms(7,8), of crc] obtain built lay1 where
    built: "build_recipient_table_strategy_a crc ?xs lay = Some (Inr built, lay1)" by blast
  with recipient_table_run [OF xs(2,3), of crc] assms(7) have step1: "lay_step crc lay lay1"
    and served: "recipients_served crc ?xs built lay1"
    unfolding lay_run_def by fastforce+
  from lay_stepD [OF step1] assms(8) have lay1: "layout_ok lay1" "io_ok lay1" by auto
  have "length (tt_heap built) \<le> I32_MAX"
    using served by (simp add: recipients_served_def I32_MAX_def MAX_BLOCK_DATA_def)
  from lay_spec_ok [OF write_data_chain_spec [OF this, of crc] lay1(1) TrueI lay1(2)] obtain bid lay2 where
    chain: "write_data_chain crc (tt_heap built) lay1 = Some (Inr bid, lay2)" "lay_step crc lay1 lay2" by auto
  from lay_stepD [OF chain(2)] lay1 have lay2: "layout_ok lay2" "io_ok lay2" by auto
  let ?es = "(es @ [(0x692, bid, tt_bid_sub built)]) @ others"
  have "distinct (map fst ?es)" "8 + 24 * length ?es \<le> MAX_BLOCK_DATA"
    using assms(4-6) by (auto simp: MAX_BLOCK_DATA_def)
  from lay_spec_ok [OF add_subnode_leaf_spec [OF this, of crc] lay2(1) TrueI lay2(2)] obtain leaf lay3 where
    "add_subnode_leaf ?es lay2 = Some (Inr leaf, lay3)" by auto
  then show ?thesis
    unfolding write_recipient_table_def Let_def order_recipients
    by (simp add: lay_bind_def built chain(1) lay_ret_def NID_RECIPIENT_TABLE_def)
qed

subsection \<open>The round trip\<close>

text \<open>
  C5: the recipients of a message come back. Adding the recipient table to the subnodes of a message and
  storing their list always returns; an input or output error means a write to the temporary file fails.
  Otherwise the layout keeps its invariant and what it held, and in any file that serves its blocks the
  reader lists, for the node with this subnode list, exactly the recipients given: To, Cc, Bcc and
  others in turn, each class in the given order, Bcc left out unless asked for; texts trimmed, blank
  texts absent, a missing address type resolved. No recipients give an empty list. Small tables in
  a list that fits are never refused.
\<close>

theorem recipients_round_trip:
  assumes "layout_ok lay" and "\<forall>r\<in>set recips. recipient_valid r" and "length recips \<le> 500000"
    and "\<forall>e\<in>set (es @ others). slentry_ok e \<and> nid_type (fst e) \<noteq> NtRecipientTable"
  shows "\<exists>r lay'. lay_bind (write_recipient_table crc incl recips es n) (\<lambda>(es', n'). add_subnode_leaf (es' @ others)) lay =
      Some (r, lay') \<and>
    (case r of
       Inl e \<Rightarrow> (\<exists>msg. e = WeIo msg) \<longrightarrow> \<not> io_ok lay
     | Inr leaf \<Rightarrow> layout_ok lay' \<and> holds crc lay \<le> holds crc lay' \<and>
         (\<forall>file pst nid entry. (\<forall>b p. holds crc lay' b p \<longrightarrow> serves crc file (pf_bbt pst) b p) \<and>
            ph_crypt_method (pf_header pst) = CryptNone \<and> pf_nbt pst nid = Some entry \<and> nb_bid_sub entry = leaf \<longrightarrow>
            yields (list_recipients crc file pst nid) (map written_recipient
              (sort_key (recipient_class_rank \<circ> wr_recipient_type)
                (filter (\<lambda>r. incl \<or> \<not> wrt_is_bcc (wr_recipient_type r)) recips))))) \<and>
    ((\<forall>r\<in>set recips. recipient_small r) \<and> sum_list (map (\<lambda>r. recipient_space r + 32) recips) \<le> 7900 \<and>
       distinct (map fst (es @ others)) \<and> length (es @ others) < 340 \<and> io_ok lay \<longrightarrow> (\<exists>leaf. r = Inr leaf))"
proof -
  from recipients_stored_run [OF assms(2-4), of crc incl n] assms(1) obtain r lay' where
    r: "lay_bind (write_recipient_table crc incl recips es n) (\<lambda>(es', n'). add_subnode_leaf (es' @ others)) lay = Some (r, lay')"
    "case r of Inl e \<Rightarrow> (\<exists>msg. e = WeIo msg) \<longrightarrow> \<not> io_ok lay | Inr leaf \<Rightarrow> lay_step crc lay lay' \<and>
       (\<forall>file pst nid entry. (\<forall>b p. holds crc lay' b p \<longrightarrow> serves crc file (pf_bbt pst) b p) \<and>
          ph_crypt_method (pf_header pst) = CryptNone \<and> pf_nbt pst nid = Some entry \<and> nb_bid_sub entry = leaf \<longrightarrow>
          yields (list_recipients crc file pst nid) (map written_recipient (recipients_for incl recips)))"
    unfolding lay_run_def by blast
  have "0x692 \<notin> fst ` set (es @ others)"
    using assms(4) by (force simp: nid_type_def nid_type_from_raw_def)
  then have small: "\<exists>leaf. r = Inr leaf"
    if "\<forall>r\<in>set recips. recipient_small r" "sum_list (map (\<lambda>r. recipient_space r + 32) recips) \<le> 7900"
      "distinct (map fst (es @ others))" "length (es @ others) < 340" "io_ok lay"
    using recipients_stored_small [of recips es others lay crc incl n] that assms(1-3) r(1) by auto
  show ?thesis
  proof (cases r)
    case (Inr leaf)
    with r(2) have "lay_step crc lay lay'" by simp
    from lay_stepD [OF this] r Inr show ?thesis by auto
  qed (use r small in auto)
qed

definition sample_recipients :: "WriteRecipient list" where
  "sample_recipients =
     [\<lparr> wr_recipient_type = WrBcc, wr_display_name = Some [66], wr_address_type = None, wr_email_address = None,
        wr_smtp_address = None \<rparr>,
      \<lparr> wr_recipient_type = WrCc, wr_display_name = Some [32, 65, 32], wr_address_type = None,
        wr_email_address = Some [97, 64, 98], wr_smtp_address = None \<rparr>,
      \<lparr> wr_recipient_type = WrTo, wr_display_name = Some [32], wr_address_type = Some [69, 88],
        wr_email_address = None, wr_smtp_address = Some [99, 64, 100, 46, 101] \<rparr>]"

lemmas sample_eval = recipient_text_def wr_nonempty_def trim_def trim_start_by_def trim_end_by_def is_whitespace_def
  utf16le_bytes_def utf16_units_def resolve_recipient_address_type_def to_ascii_uppercase_def ascii_upper_def lit_def
  utf8_char_def MAX_HEAP_VALUE_SIZE_def

lemma sample_recipients_fit:
  "\<forall>r\<in>set sample_recipients. recipient_valid r" "\<forall>r\<in>set sample_recipients. recipient_small r"
  "sum_list (map (\<lambda>r. recipient_space r + 32) sample_recipients) \<le> 7900"
  by (simp_all add: sample_recipients_def recipient_valid_def text_ok_def recipient_small_def recipient_space_def
      recipient_seven_bit_def recipient_search_key_def synthesize_recipient_search_key_def Let_def sample_eval)

lemma sample_recipients_written:
  "map written_recipient (sort_key (recipient_class_rank \<circ> wr_recipient_type)
      (filter (\<lambda>r. False \<or> \<not> wrt_is_bcc (wr_recipient_type r)) sample_recipients)) =
    [\<lparr> rcp_recipient_type = RtTo, rcp_display_name = None, rcp_address_type = Some [69, 88],
       rcp_email_address = None, rcp_smtp_address = Some [99, 64, 100, 46, 101] \<rparr>,
     \<lparr> rcp_recipient_type = RtCc, rcp_display_name = Some [65], rcp_address_type = Some [83, 77, 84, 80],
       rcp_email_address = Some [97, 64, 98], rcp_smtp_address = None \<rparr>]"
  by (simp add: sample_recipients_def written_recipient_def recipient_class_rank_def wrt_is_bcc_def nonempty_str_def
      Let_def sample_eval)

theorem recipients_round_trip_witness:
  "\<exists>leaf lay'. lay_bind (write_recipient_table (\<lambda>_. 0) False sample_recipients [(0x671, 8, 0)] 0)
       (\<lambda>(es', n'). add_subnode_leaf (es' @ [(0x3F, 4, 0)])) layout_new = Some (Inr leaf, lay') \<and>
     (\<forall>file pst nid entry. (\<forall>b p. holds (\<lambda>_. 0) lay' b p \<longrightarrow> serves (\<lambda>_. 0) file (pf_bbt pst) b p) \<and>
        ph_crypt_method (pf_header pst) = CryptNone \<and> pf_nbt pst nid = Some entry \<and> nb_bid_sub entry = leaf \<longrightarrow>
        yields (list_recipients (\<lambda>_. 0) file pst nid)
          [\<lparr> rcp_recipient_type = RtTo, rcp_display_name = None, rcp_address_type = Some [69, 88],
             rcp_email_address = None, rcp_smtp_address = Some [99, 64, 100, 46, 101] \<rparr>,
           \<lparr> rcp_recipient_type = RtCc, rcp_display_name = Some [65], rcp_address_type = Some [83, 77, 84, 80],
             rcp_email_address = Some [97, 64, 98], rcp_smtp_address = None \<rparr>])"
proof -
  have lay: "layout_ok layout_new" "io_ok layout_new"
    by (simp_all add: layout_ok_def layout_new_def all_bids_def amap_bids_def io_ok_def)
  have len: "length sample_recipients \<le> 500000" by (simp add: sample_recipients_def)
  have es: "\<forall>e\<in>set ([(0x671, 8, 0)] @ [(0x3F, 4, 0)]). slentry_ok e \<and> nid_type (fst e) \<noteq> NtRecipientTable"
    "distinct (map fst ([(0x671, 8, 0)] @ [(0x3F :: nat, 4 :: nat, 0 :: nat)]))" "length ([(0x671, 8, 0)] @ [(0x3F :: nat, 4 :: nat, 0 :: nat)]) < 340"
    by (simp_all add: slentry_ok_def nid_type_def nid_type_from_raw_def)
  note fit = sample_recipients_fit
  from recipients_round_trip [OF lay(1) fit(1) len es(1), of "\<lambda>_. 0" False 0] fit(2,3) es(2,3) lay(2) show ?thesis
    unfolding sample_recipients_written
    by (elim exE conjE) (erule impE, simp, elim exE, simp only: sum.case sum.inject option.inject prod.inject, blast)
qed

end
