(* ===== verification/Recipient_Export.thy ===== *)
theory Recipient_Export
  imports Hasher Recipient_Table
begin

text \<open>
  Recipients of the canonical pipeline handed to the writer (\<^verbatim>\<open>write_recipient_from_canonical\<close> in
  \<^verbatim>\<open>pst-writer/src/production.rs\<close>), and what deduplication makes of the exported copy: the recipients
  read back give the same identity keys and the same fingerprint.
\<close>

fun wrt_from_canonical :: "CanonicalRecipientType \<Rightarrow> WriteRecipientType" where
  "wrt_from_canonical CrTo = WrTo"
| "wrt_from_canonical CrCc = WrCc"
| "wrt_from_canonical CrBcc = WrBcc"
| "wrt_from_canonical (CrOther v) = WrOther v"

definition write_recipient_from_canonical :: "CanonicalRecipient \<Rightarrow> WriteRecipient" where
  "write_recipient_from_canonical r =
     \<lparr> wr_recipient_type = wrt_from_canonical (cr_recipient_type r), wr_display_name = cr_display_name r,
       wr_address_type = cr_address_type r, wr_email_address = cr_email_address r,
       wr_smtp_address = cr_smtp_address r \<rparr>"

subsection \<open>One recipient\<close>

text \<open>A recipient as the scan saw it, before it went through the writer.\<close>

definition scanned_recipient :: "WriteRecipient \<Rightarrow> Recipient" where
  "scanned_recipient recip =
     \<lparr> rcp_recipient_type = rt_from_mapi (wrt_to_mapi (wr_recipient_type recip)),
       rcp_display_name = wr_display_name recip, rcp_address_type = wr_address_type recip,
       rcp_email_address = wr_email_address recip, rcp_smtp_address = wr_smtp_address recip \<rparr>"

lemma nonempty_str_idem [simp]:
  "nonempty_str (nonempty_str s) = nonempty_str s"
  by (auto simp: nonempty_str_def Let_def split: option.splits)

lemma wr_nonempty_eq: "wr_nonempty s = nonempty_str s"
  by (simp add: wr_nonempty_def nonempty_str_def Let_def split: option.split)

lemma smtp_ex_text: "nonempty_str (Some (lit ''SMTP'')) = Some (lit ''SMTP'')"
  "nonempty_str (Some (lit ''EX'')) = Some (lit ''EX'')" "nonempty_str (Some []) = None" "nonempty_str None = None"
  "to_ascii_uppercase (lit ''SMTP'') = lit ''SMTP''" "to_ascii_uppercase (lit ''EX'') = lit ''EX''"
  "lit ''EX'' \<noteq> lit ''SMTP''"
  by (simp_all add: nonempty_str_def Let_def sample_eval)

lemma identity_key_cong:
  "nonempty_str (rcp_smtp_address r) = nonempty_str (rcp_smtp_address q) \<Longrightarrow>
   nonempty_str (rcp_display_name r) = nonempty_str (rcp_display_name q) \<Longrightarrow>
   nonempty_str (rcp_address_type r) = nonempty_str (rcp_address_type q) \<Longrightarrow>
   nonempty_str (rcp_email_address r) = nonempty_str (rcp_email_address q) \<Longrightarrow> identity_key r = identity_key q"
  by (simp only: identity_key_def)

text \<open>Whether the address type the writer fills in says the same as the address itself.\<close>

definition type_evident :: "WriteRecipient \<Rightarrow> bool" where
  "type_evident recip =
     (case (nonempty_str (wr_smtp_address recip), nonempty_str (wr_address_type recip), nonempty_str (wr_email_address recip)) of
        (None, None, Some email) \<Rightarrow>
          if str_contains (to_ascii_uppercase email) (lit ''/O='') then \<not> looks_like_smtp email
          else 64 \<in> set email \<longrightarrow> looks_like_smtp email
      | _ \<Rightarrow> True)"

lemma nonempty_str_self: "nonempty_str s = Some t \<Longrightarrow> nonempty_str (Some t) = Some t"
  by (metis nonempty_str_idem)

lemma resolved_type:
  "nonempty_str (wr_address_type recip) = Some t \<Longrightarrow> resolve_recipient_address_type recip = t"
  "nonempty_str (wr_address_type recip) = None \<Longrightarrow> nonempty_str (wr_smtp_address recip) = None \<Longrightarrow>
    resolve_recipient_address_type recip = (case nonempty_str (wr_email_address recip) of
       None \<Rightarrow> []
     | Some email \<Rightarrow> if str_contains (to_ascii_uppercase email) (lit ''/O='') then lit ''EX''
         else if 64 \<in> set email then lit ''SMTP'' else [])"
  by (simp_all add: resolve_recipient_address_type_def wr_nonempty_eq)

lemma written_identity:
  assumes "type_evident recip"
  shows "identity_key (written_recipient recip) = identity_key (scanned_recipient recip)"
proof (cases "nonempty_str (wr_smtp_address recip)")
  case None
  note smtp = None
  show ?thesis
  proof (cases "nonempty_str (wr_address_type recip)")
    case None
    note type = None
    note eval = identity_key_def written_recipient_def scanned_recipient_def resolved_type(2) [OF type smtp] smtp type
    note evident = assms [unfolded type_evident_def smtp type prod.case option.case]
    show ?thesis
    proof (cases "nonempty_str (wr_email_address recip)")
      case None
      then show ?thesis by (simp add: eval smtp_ex_text Let_def del: rt_from_mapi.simps)
    next
      case (Some e)
      note email = Some nonempty_str_self [OF Some]
      consider (path) "str_contains (to_ascii_uppercase e) (lit ''/O='')" | (at) "\<not> str_contains (to_ascii_uppercase e) (lit ''/O='')" "64 \<in> set e"
        | (plain) "\<not> str_contains (to_ascii_uppercase e) (lit ''/O='')" "64 \<notin> set e" by blast
      then show ?thesis
      proof cases
        case path
        with evident have "\<not> looks_like_smtp e" by (simp add: email)
        moreover have "looks_like_x500_dn e" using path by (simp add: looks_like_x500_dn_def Let_def)
        ultimately show ?thesis using path
          by (simp add: eval email smtp_ex_text is_ex_address_def Let_def del: lit_simps rt_from_mapi.simps)
      next
        case at
        with evident have "looks_like_smtp e" by (simp add: email)
        with at show ?thesis by (simp add: eval email smtp_ex_text Let_def del: lit_simps rt_from_mapi.simps)
      next
        case plain
        then show ?thesis by (simp add: eval email smtp_ex_text Let_def del: lit_simps rt_from_mapi.simps)
      qed
    qed
  next
    case (Some t)
    show ?thesis
      by (rule identity_key_cong) (simp_all add: written_recipient_def scanned_recipient_def resolved_type(1) [OF Some]
        nonempty_str_self [OF Some] Some del: rt_from_mapi.simps)
  qed
next
  case (Some a)
  then show ?thesis by (simp add: identity_key_def written_recipient_def scanned_recipient_def nonempty_str_self [OF Some] Let_def
        del: rt_from_mapi.simps)
qed

text \<open>
  Without a type, an address with an at-sign and no dot is not an SMTP identity to the scan, which falls
  back to the display name; the writer calls it SMTP, so the exported copy is identified by the address.
\<close>

lemma recipient_identity_changes:
  "identity_key (scanned_recipient (sample_recipients ! 1)) = Some [97]"
  "identity_key (written_recipient (sample_recipients ! 1)) = Some [97, 64, 98]"
  by (simp_all add: sample_recipients_def identity_key_def written_recipient_def scanned_recipient_def nonempty_str_def
      looks_like_smtp_def is_ex_address_def looks_like_x500_dn_def to_ascii_lowercase_def ascii_lower_def Let_def sample_eval)

subsection \<open>All recipients\<close>

lemma exported_identity:
  assumes "type_evident (write_recipient_from_canonical r)"
  shows "cr_identity_key (cr_from_reader (written_recipient (write_recipient_from_canonical r))) = cr_identity_key r"
proof -
  let ?w = "write_recipient_from_canonical r"
  have "cr_identity_key (cr_from_reader (written_recipient ?w)) = identity_key (written_recipient ?w)"
    unfolding cr_identity_key_def by (rule identity_key_cong) (simp_all add: cr_to_reader_def cr_from_reader_def)
  also have "\<dots> = identity_key (scanned_recipient ?w)" by (rule written_identity [OF assms])
  also have "\<dots> = cr_identity_key r"
    unfolding cr_identity_key_def
    by (rule identity_key_cong) (simp_all add: cr_to_reader_def scanned_recipient_def write_recipient_from_canonical_def)
  finally show ?thesis .
qed

text \<open>The recipients a later scan finds in the exported copy.\<close>

definition exported_recipients :: "bool \<Rightarrow> CanonicalRecipient list \<Rightarrow> CanonicalRecipient list" where
  "exported_recipients include_bcc rows =
     map (\<lambda>r. cr_from_reader (written_recipient r)) (recipients_for include_bcc (map write_recipient_from_canonical rows))"

lemma map_filter_map: "List.map_filter f (map g xs) = List.map_filter (f \<circ> g) xs"
  by (induction xs) (simp_all add: List.map_filter_def)

lemma mset_map_filter_sort: "mset (List.map_filter f (sort_key g xs)) = mset (List.map_filter f xs)"
  by (simp add: List.map_filter_def filter_sort [symmetric] mset_map)

lemma map_filter_cong: "(\<And>x. x \<in> set xs \<Longrightarrow> f x = g x) \<Longrightarrow> List.map_filter f xs = List.map_filter g xs"
  by (induction xs) (simp_all add: List.map_filter_def)

text \<open>
  C6: deduplication knows an exported message by its recipients. When the Bcc recipients are included,
  or there are none, and every address type the writer fills in says the same as the address itself, the
  recipients that are written and read again have the fingerprint and the strong preimage of the
  original recipients, whatever the display fields.
\<close>

theorem exported_recipients_fingerprint:
  assumes "\<forall>r\<in>set rows. type_evident (write_recipient_from_canonical r) \<and>
    (include_bcc \<or> \<not> crt_is_bcc (cr_recipient_type r))"
  shows "recipients_fingerprint_ex sha display_to display_cc display_bcc (Some (exported_recipients include_bcc rows)) =
      recipients_fingerprint_ex sha display_to display_cc display_bcc (Some rows) \<and>
    recipient_strong_preimage_bytes display_to display_cc display_bcc (Some (exported_recipients include_bcc rows)) =
      recipient_strong_preimage_bytes display_to display_cc display_bcc (Some rows)"
proof -
  let ?w = "map write_recipient_from_canonical rows"
  have "\<not> wrt_is_bcc (wr_recipient_type (write_recipient_from_canonical r))" if "\<not> crt_is_bcc (cr_recipient_type r)" for r
    using that by (cases "cr_recipient_type r")
      (simp_all add: wrt_is_bcc_def crt_is_bcc_def write_recipient_from_canonical_def)
  then have all: "filter (\<lambda>r. include_bcc \<or> \<not> wrt_is_bcc (wr_recipient_type r)) ?w = ?w"
    using assms by (auto simp: filter_id_conv)
  let ?key = "\<lambda>r. cr_identity_key (cr_from_reader (written_recipient r))"
  have keys: "keys_of_rows (Some (exported_recipients include_bcc rows)) =
      List.map_filter ?key (sort_key (recipient_class_rank \<circ> wr_recipient_type) ?w)"
    by (simp add: keys_of_rows_def exported_recipients_def all map_filter_map comp_def)
  have "List.map_filter (?key \<circ> write_recipient_from_canonical) rows = List.map_filter cr_identity_key rows"
    by (rule map_filter_cong) (use assms exported_identity in \<open>simp only: comp_apply\<close>)
  then have "mset (List.map_filter ?key ?w) = mset (List.map_filter cr_identity_key rows)"
    by (simp only: map_filter_map)
  then have same: "mset (keys_of_rows (Some (exported_recipients include_bcc rows))) = mset (keys_of_rows (Some rows))"
    unfolding keys mset_map_filter_sort by (simp add: keys_of_rows_def)
  have none: "keys_of_rows (Some (exported_recipients include_bcc rows)) = [] \<longleftrightarrow> keys_of_rows (Some rows) = []"
    using same by (metis mset_zero_iff)
  have "normalize_recipient_identity_keys ks = normalize_recipient_identity_keys qs" if "mset ks = mset qs" for ks qs
  proof -
    have "mset (filter (\<lambda>k. k \<noteq> []) (map trim ks)) = mset (filter (\<lambda>k. k \<noteq> []) (map trim qs))"
      using that by (simp add: mset_filter)
    then have "sort (filter (\<lambda>k. k \<noteq> []) (map trim ks)) = sort (filter (\<lambda>k. k \<noteq> []) (map trim qs))"
      by (metis mset_sort properties_for_sort sorted_sort)
    then show ?thesis by (simp add: normalize_recipient_identity_keys_def)
  qed
  note normal = this [OF same]
  show ?thesis
    unfolding recipients_fingerprint_ex_def recipient_strong_preimage_bytes_def none normal by simp
qed

theorem exported_recipients_fingerprint_witness:
  "recipients_fingerprint_ex (\<lambda>_. replicate 32 7) None None None (Some (exported_recipients False
      [\<lparr> cr_recipient_type = CrCc, cr_display_name = Some [65], cr_address_type = None, cr_email_address = None,
         cr_smtp_address = Some [99, 64, 100] \<rparr>,
       \<lparr> cr_recipient_type = CrTo, cr_display_name = Some [66], cr_address_type = None, cr_email_address = None,
         cr_smtp_address = None \<rparr>])) =
    recipients_fingerprint_ex (\<lambda>_. replicate 32 7) None None None (Some
      [\<lparr> cr_recipient_type = CrCc, cr_display_name = Some [65], cr_address_type = None, cr_email_address = None,
         cr_smtp_address = Some [99, 64, 100] \<rparr>,
       \<lparr> cr_recipient_type = CrTo, cr_display_name = Some [66], cr_address_type = None, cr_email_address = None,
         cr_smtp_address = None \<rparr>])"
  by (rule exported_recipients_fingerprint [THEN conjunct1])
    (simp add: type_evident_def write_recipient_from_canonical_def crt_is_bcc_def nonempty_str_def Let_def sample_eval)

end
