(* ===== verification/Context_Loading.thy ===== *)
theory Context_Loading
  imports Table_Reader
begin

text \<open>
  Loading a property context through the node database (\<^verbatim>\<open>pst-reader/src/ltp/pc.rs\<close>): the block of the
  node, then the subnodes its properties refer to. A budget for the bodies is checked against the
  lengths stored in the file before any subnode is read. The display name of the store is such a
  context (\<^verbatim>\<open>pst-reader/src/messaging/store.rs\<close>).
\<close>

subsection \<open>The referenced subnodes\<close>

definition fetch_subnode ::
  "(bytes \<Rightarrow> 32 word) \<Rightarrow> bytes \<Rightarrow> BbtIndex \<Rightarrow> CryptMethod \<Rightarrow> u32 set \<Rightarrow> SubnodeEntry \<Rightarrow>
   (u32 \<rightharpoonup> bytes) \<Rightarrow> (u32 \<rightharpoonup> bytes) rd" where
  "fetch_subnode crc file bbt crypt needed entry subnodes =
     (let raw_nid = se_nid entry mod 2 ^ 32
      in if raw_nid \<in> needed
         then rd_bind (read_block_data crc file bbt (se_bid_data entry) crypt)
                (\<lambda>bytes. rd_ret (subnodes(raw_nid \<mapsto> bytes)))
         else rd_ret subnodes)"

definition load_pc_from_bids ::
  "(bytes \<Rightarrow> 32 word) \<Rightarrow> bytes \<Rightarrow> BbtIndex \<Rightarrow> u64 \<Rightarrow> u64 \<Rightarrow> CryptMethod \<Rightarrow> PropContext rd" where
  "load_pc_from_bids crc file bbt bid_data bid_sub crypt =
     rd_bind (read_block_data crc file bbt bid_data crypt) (\<lambda>data.
     rd_bind (if bid_is_null bid_sub then rd_ret Map.empty
              else rd_bind (rd_lift (referenced_subnode_nids data)) (\<lambda>needed.
                if needed = {} then rd_ret Map.empty
                else rd_bind (list_subnode_entries crc file bbt bid_sub) (\<lambda>entries.
                  rd_each (fetch_subnode crc file bbt crypt needed) entries Map.empty))) (\<lambda>subnodes.
       rd_lift (pc_load_with_subnodes data subnodes)))"

definition load_pc ::
  "(bytes \<Rightarrow> 32 word) \<Rightarrow> bytes \<Rightarrow> NbtIndex \<Rightarrow> BbtIndex \<Rightarrow> u64 \<Rightarrow> CryptMethod \<Rightarrow> PropContext rd" where
  "load_pc crc file nbt bbt nid crypt =
     (case nbt nid of
        None \<Rightarrow> rd_fail (PeNodeNotFound nid)
      | Some nbt_entry \<Rightarrow> load_pc_from_bids crc file bbt (nb_bid_data nbt_entry) (nb_bid_sub nbt_entry) crypt)"

subsection \<open>A budget for the bodies\<close>

text \<open>The \<^verbatim>\<open>{:04x}\<close> format: lower-case digits, at least four of them.\<close>

definition show_hex_lower :: "nat \<Rightarrow> str" where
  "show_hex_lower n = to_ascii_lowercase (show_hex n)"

definition pad_hex4 :: "nat \<Rightarrow> str" where
  "pad_hex4 n = (let s = show_hex_lower n in replicate (4 - length s) 48 @ s)"

definition budgeted_hnid :: "bytes \<Rightarrow> nat \<Rightarrow> (nat \<times> u32) list \<Rightarrow> PstError + (nat \<times> u32) list" where
  "budgeted_hnid data prop_id acc = try_then (body_subnode_value_hnid data prop_id)
     (\<lambda>hnid. Inr (case hnid of None \<Rightarrow> acc | Some h \<Rightarrow> acc @ [(prop_id, h)]))"

definition charge_hint ::
  "(bytes \<Rightarrow> 32 word) \<Rightarrow> bytes \<Rightarrow> BbtIndex \<Rightarrow> u32 set \<Rightarrow> u64 \<Rightarrow> (nat \<times> u32) \<times> SubnodeEntry \<Rightarrow> u64 \<Rightarrow> u64 rd" where
  "charge_hint crc file bbt needed budget item aggregate_hint =
     (let ((body_prop_id, body_hnid), entry) = item; raw_nid = se_nid entry mod 2 ^ 32
      in if raw_nid \<noteq> body_hnid \<or> raw_nid \<notin> needed then rd_ret aggregate_hint
         else rd_bind (block_payload_len_hint crc file bbt (se_bid_data entry)) (\<lambda>hint.
           let aggregate_hint = saturating_add64 aggregate_hint hint
           in if budget < aggregate_hint
              then rd_fail (PeResourceLimit (lit ''embedded body/html aggregate subnode hint='' @
                     show_nat aggregate_hint @ lit '' (prop 0x'' @ pad_hex4 body_prop_id @ lit '' tip='' @
                     show_nat hint @ lit '') exceeds budget='' @ show_nat budget))
              else rd_ret aggregate_hint))"

definition load_pc_from_bids_with_body_budget ::
  "(bytes \<Rightarrow> 32 word) \<Rightarrow> bytes \<Rightarrow> BbtIndex \<Rightarrow> u64 \<Rightarrow> u64 \<Rightarrow> CryptMethod \<Rightarrow> nat list \<Rightarrow> u64 \<Rightarrow> PropContext rd" where
  "load_pc_from_bids_with_body_budget crc file bbt bid_data bid_sub crypt body_prop_ids body_byte_budget =
     rd_bind (read_block_data crc file bbt bid_data crypt) (\<lambda>data.
     rd_bind (rd_lift (try_fold (budgeted_hnid data) body_prop_ids [])) (\<lambda>budgeted_hnids.
     rd_bind (if bid_is_null bid_sub then rd_ret Map.empty
              else rd_bind (rd_lift (referenced_subnode_nids data)) (\<lambda>needed.
                if needed = {} then rd_ret Map.empty
                else rd_bind (list_subnode_entries crc file bbt bid_sub) (\<lambda>entries.
                  rd_bind (rd_each (charge_hint crc file bbt needed body_byte_budget)
                    (List.product budgeted_hnids entries) 0) (\<lambda>_.
                  rd_each (fetch_subnode crc file bbt crypt needed) entries Map.empty)))) (\<lambda>subnodes.
       rd_lift (pc_load_with_subnodes data subnodes))))"

subsection \<open>The display name of the store\<close>

definition NID_MESSAGE_STORE :: u64 where
  "NID_MESSAGE_STORE = 0x21"

definition display_name :: "(bytes \<Rightarrow> 32 word) \<Rightarrow> bytes \<Rightarrow> PstFile \<Rightarrow> str rd" where
  "display_name crc file pst =
     rd_bind (load_pc crc file (pf_nbt pst) (pf_bbt pst) NID_MESSAGE_STORE (ph_crypt_method (pf_header pst))) (\<lambda>pc.
     rd_bind (rd_lift (pc_get_string pc 0x3001)) (\<lambda>name.
       case name of None \<Rightarrow> rd_fail (PePropertyNotFound 0x3001) | Some s \<Rightarrow> rd_ret s))"

end
