(* ===== verification/Message_Reader.thy ===== *)
theory Message_Reader
  imports Context_Loading Recipient_Reader Civil_Date
begin

text \<open>
  Reading a message (\<^verbatim>\<open>pst-reader/src/messaging/message.rs\<close>): its properties for deduplication, with
  the body cut to 4096 characters, and the full extract. A message is suspect when a block mismatch
  was counted while it was read (the scopes of \<^verbatim>\<open>pst-reader/src/integrity_telemetry.rs\<close>).
\<close>

subsection \<open>Scopes of the integrity counters\<close>

definition tls_block_mismatch_total :: "RdState \<Rightarrow> u64" where
  "tls_block_mismatch_total s =
     saturating_add64
       (min u64_max (length (filter (\<lambda>n. case n of NoteBlockCrc _ _ _ \<Rightarrow> True | _ \<Rightarrow> False) (rd_notes s))))
       (min u64_max (length (filter (\<lambda>n. case n of NoteBlockBid _ _ _ \<Rightarrow> True | _ \<Rightarrow> False) (rd_notes s))))"

definition message_scope_enter :: "u64 rd" where
  "message_scope_enter s = (Inr (tls_block_mismatch_total s), s)"

definition scope_exit :: "u64 \<Rightarrow> bool rd" where
  "scope_exit start s = (Inr (start < tls_block_mismatch_total s), s)"

text \<open>A run whose mismatches also taint the flag it is given.\<close>

definition with_crc_scope :: "bool \<Rightarrow> 'a rd \<Rightarrow> ((PstError + 'a) \<times> bool) rd" where
  "with_crc_scope tainted f s =
     (case f s of (r, s') \<Rightarrow> (Inr (r, tainted \<or> tls_block_mismatch_total s < tls_block_mismatch_total s'), s'))"

subsection \<open>The records\<close>

record MessageProperties =
  mp_nid :: u64
  mp_message_id :: "str option"
  mp_subject :: "str option"
  mp_submit_time :: "i64 option"
  mp_delivery_time :: "i64 option"
  mp_display_bcc :: "str option"
  mp_sender_email :: "str option"
  mp_body_preview :: "str option"
  mp_display_to :: "str option"
  mp_display_cc :: "str option"
  mp_message_size :: "int option"
  mp_has_attachments :: "bool option"
  mp_body_incomplete :: bool
  mp_body_unavailable :: bool
  mp_body_sha256 :: "bytes option"
  mp_body_char_len :: "u64 option"
  mp_crc_suspect :: bool
  mp_recipients :: "Recipient list"
  mp_message_flags :: "u32 option"

record ExtractedMessage =
  em_nid :: u64
  em_message_id :: "str option"
  em_subject :: "str option"
  em_sender_email :: "str option"
  em_display_to :: "str option"
  em_display_cc :: "str option"
  em_display_bcc :: "str option"
  em_submit_time :: "i64 option"
  em_delivery_time :: "i64 option"
  em_body_text :: "str option"
  em_body_html :: "bytes option"
  em_message_size :: "int option"
  em_has_attachments :: "bool option"
  em_in_reply_to :: "str option"
  em_references :: "str option"
  em_conversation_topic :: "str option"
  em_conversation_index_bytes :: "bytes option"
  em_conversation_index_string :: "str option"
  em_message_class :: "str option"
  em_start_date :: "i64 option"
  em_end_date :: "i64 option"
  em_location :: "str option"
  em_crc_suspect :: bool
  em_recipients :: "Recipient list"
  em_message_flags :: "u32 option"

definition mp_is_unsent :: "MessageProperties \<Rightarrow> bool" where
  "mp_is_unsent m \<longleftrightarrow> (case mp_message_flags m of None \<Rightarrow> False | Some f \<Rightarrow> message_flags_is_unsent f)"

definition em_is_unsent :: "ExtractedMessage \<Rightarrow> bool" where
  "em_is_unsent m \<longleftrightarrow> (case em_message_flags m of None \<Rightarrow> False | Some f \<Rightarrow> message_flags_is_unsent f)"

fun is_truncation_or_crc :: "PstError \<Rightarrow> bool" where
  "is_truncation_or_crc (PeDataTruncated _ _) = True"
| "is_truncation_or_crc (PeCrcMismatch _ _) = True"
| "is_truncation_or_crc _ = False"

subsection \<open>Message classes and times\<close>

definition is_calendar_message_class :: "str \<Rightarrow> bool" where
  "is_calendar_message_class cls =
     (let c = trim cls
      in if eq_ignore_ascii_case c (lit ''IPM.Appointment'') then True
         else if eq_ignore_ascii_case c (lit ''IPM.Schedule.Meeting.Request'') then True
         else if eq_ignore_ascii_case c (lit ''IPM.Schedule.Meeting.Canceled'') then True
         else take 25 (to_ascii_lowercase c) = lit ''ipm.schedule.meeting.resp'')"

definition filetime_to_unix :: "i64 \<Rightarrow> i64" where
  "filetime_to_unix ft = rust_div ft 10000000 - 11644473600"

definition format_unix_rfc3339 :: "u64 \<Rightarrow> str" where
  "format_unix_rfc3339 secs =
     (let (y, m, d) = civil_from_days (int (secs div 86400)); tod = secs mod 86400;
          hh = tod div 3600; mm = tod mod 3600 div 60; ss = tod mod 60
      in pad_int 4 y @ lit ''-'' @ pad_int 2 m @ lit ''-'' @ pad_int 2 d @ lit ''T'' @
         pad_nat 2 hh @ lit '':'' @ pad_nat 2 mm @ lit '':'' @ pad_nat 2 ss @ lit ''Z'')"

text \<open>An \<^verbatim>\<open>i64\<close> number of ticks is at most 922 billion seconds, so adding them to the epoch succeeds.\<close>

definition filetime_to_rfc3339 :: "i64 \<Rightarrow> str option" where
  "filetime_to_rfc3339 ft =
     (let unix = filetime_to_unix ft
      in if unix < 0 then None else Some (format_unix_rfc3339 (nat unix)))"

subsection \<open>Soft reads\<close>

definition soft :: "PstError + 'a option \<Rightarrow> 'a option" where
  "soft r = (case r of Inl _ \<Rightarrow> None | Inr v \<Rightarrow> v)"

definition sender_of :: "PropContext \<Rightarrow> PstError + str option" where
  "sender_of pc =
     try_then (pc_get_string pc 0x0C1F) (\<lambda>email.
     try_then (pc_get_string pc 0x5D01) (\<lambda>smtp.
       Inr (case email of None \<Rightarrow> smtp | Some e \<Rightarrow> Some e)))"

definition soft_flags :: "PropContext \<Rightarrow> u32 option" where
  "soft_flags pc = map_option (to_unsigned 32) (soft (pc_get_i32 pc 0x0E07))"

definition full_body_digest :: "(bytes \<Rightarrow> bytes) \<Rightarrow> str \<Rightarrow> bytes \<times> u64" where
  "full_body_digest sha b =
     (let normalized = to_lowercase (filter (\<lambda>c. \<not> is_whitespace c \<or> c = 32) b)
      in (sha (utf8 normalized), length normalized))"

text \<open>Preview, incomplete, unavailable, digest and length of a body.\<close>

definition read_body ::
  "(bytes \<Rightarrow> bytes) \<Rightarrow> bool \<Rightarrow> PstError + str option \<Rightarrow> str option \<times> bool \<times> bool \<times> bytes option \<times> u64 option" where
  "read_body sha compute_body_digest body =
     (case body of
        Inr (Some b) \<Rightarrow>
          let (digest, char_len) =
            (if compute_body_digest
             then (let (d, n) = full_body_digest sha b in (Some d, Some n)) else (None, None));
            preview = (if 4096 < length b then take 4096 b else b)
          in (Some preview, False, False, digest, char_len)
      | Inr None \<Rightarrow> (None, False, False, None, None)
      | Inl e \<Rightarrow> if is_truncation_or_crc e then (None, True, False, None, None)
                 else (None, False, True, None, None))"

subsection \<open>Reading for deduplication\<close>

text \<open>
  The part that only looks at the property context; recipients and suspicion are filled in by the
  caller.
\<close>

definition message_fields ::
  "(bytes \<Rightarrow> bytes) \<Rightarrow> bool \<Rightarrow> u64 \<Rightarrow> PropContext \<Rightarrow> PstError + MessageProperties" where
  "message_fields sha compute_body_digest nid pc =
     try_then (pc_get_string pc 0x1035) (\<lambda>message_id.
     try_then (pc_get_string pc 0x0037) (\<lambda>subject.
     try_then (pc_get_time pc 0x0039) (\<lambda>submit_time.
     try_then (sender_of pc) (\<lambda>sender_email.
       let (body_preview, body_incomplete, body_unavailable, body_sha256, body_char_len) =
             read_body sha compute_body_digest (pc_get_string pc 0x1000)
       in try_then (pc_get_string pc 0x0E04) (\<lambda>display_to.
          try_then (pc_get_i32 pc 0x0E08) (\<lambda>message_size.
          try_then (pc_get_bool pc 0x0E1B) (\<lambda>has_attachments.
            Inr \<lparr> mp_nid = nid, mp_message_id = message_id, mp_subject = subject, mp_submit_time = submit_time,
                  mp_delivery_time = soft (pc_get_time pc 0x0E06), mp_display_bcc = soft (pc_get_string pc 0x0E02),
                  mp_sender_email = sender_email, mp_body_preview = body_preview, mp_display_to = display_to,
                  mp_display_cc = soft (pc_get_string pc 0x0E03), mp_message_size = message_size,
                  mp_has_attachments = has_attachments, mp_body_incomplete = body_incomplete,
                  mp_body_unavailable = body_unavailable, mp_body_sha256 = body_sha256,
                  mp_body_char_len = body_char_len, mp_crc_suspect = False, mp_recipients = [],
                  mp_message_flags = soft_flags pc \<rparr>)))))))"

definition read_message_properties_with_opts ::
  "(bytes \<Rightarrow> 32 word) \<Rightarrow> (bytes \<Rightarrow> bytes) \<Rightarrow> bytes \<Rightarrow> PstFile \<Rightarrow> u64 \<Rightarrow> bool \<Rightarrow> MessageProperties rd" where
  "read_message_properties_with_opts crc sha file pst message_nid compute_body_digest =
     rd_bind message_scope_enter (\<lambda>scope.
     rd_bind (load_pc crc file (pf_nbt pst) (pf_bbt pst) message_nid (ph_crypt_method (pf_header pst))) (\<lambda>pc.
     rd_bind (rd_lift (message_fields sha compute_body_digest message_nid pc)) (\<lambda>m.
     rd_bind (rd_or (list_recipients crc file pst message_nid) []) (\<lambda>recipients.
     rd_bind (scope_exit scope) (\<lambda>crc_suspect.
       rd_ret (m \<lparr> mp_recipients := recipients, mp_crc_suspect := crc_suspect \<rparr>))))))"

definition read_message_properties ::
  "(bytes \<Rightarrow> 32 word) \<Rightarrow> (bytes \<Rightarrow> bytes) \<Rightarrow> bytes \<Rightarrow> PstFile \<Rightarrow> u64 \<Rightarrow> MessageProperties rd" where
  "read_message_properties crc sha file pst message_nid =
     read_message_properties_with_opts crc sha file pst message_nid False"

subsection \<open>The full extract\<close>

definition read_body_html :: "PropContext \<Rightarrow> PstError + bytes option" where
  "read_body_html pc = try_then (pc_get_string pc 0x1013) (\<lambda>s.
     case s of Some s \<Rightarrow> Inr (Some (utf8 s)) | None \<Rightarrow> pc_get_binary pc 0x1013)"

definition extract_fields :: "u64 \<Rightarrow> PropContext \<Rightarrow> PstError + ExtractedMessage" where
  "extract_fields nid pc =
     try_then (pc_get_string pc 0x1035) (\<lambda>message_id.
     try_then (pc_get_string pc 0x0037) (\<lambda>subject.
     try_then (pc_get_time pc 0x0039) (\<lambda>submit_time.
     try_then (pc_get_time pc 0x0E06) (\<lambda>delivery_time.
     try_then (sender_of pc) (\<lambda>sender_email.
     try_then (pc_get_string pc 0x1000) (\<lambda>body_text.
     try_then (pc_get_string pc 0x0E04) (\<lambda>display_to.
     try_then (pc_get_string pc 0x0E03) (\<lambda>display_cc.
     try_then (pc_get_string pc 0x0E02) (\<lambda>display_bcc.
     try_then (pc_get_i32 pc 0x0E08) (\<lambda>message_size.
     try_then (pc_get_bool pc 0x0E1B) (\<lambda>has_attachments.
     try_then (read_body_html pc) (\<lambda>body_html.
     try_then (pc_get_string pc 0x1042) (\<lambda>in_reply_to.
     try_then (pc_get_string pc 0x1039) (\<lambda>references.
     try_then (pc_get_string pc 0x0070) (\<lambda>conversation_topic.
     try_then (pc_get_binary pc 0x0071) (\<lambda>conversation_index_bytes.
     try_then (if conversation_index_bytes = None then pc_get_string pc 0x0071 else Inr None)
       (\<lambda>conversation_index_string.
     try_then (pc_get_string pc 0x001A) (\<lambda>message_class.
     try_then (pc_get_time pc 0x0060) (\<lambda>start_date.
     try_then (pc_get_time pc 0x0061) (\<lambda>end_date.
     try_then (pc_get_string pc 0x3A0D) (\<lambda>location.
       Inr \<lparr> em_nid = nid, em_message_id = message_id, em_subject = subject, em_sender_email = sender_email,
             em_display_to = display_to, em_display_cc = display_cc, em_display_bcc = display_bcc,
             em_submit_time = submit_time, em_delivery_time = delivery_time, em_body_text = body_text,
             em_body_html = body_html, em_message_size = message_size, em_has_attachments = has_attachments,
             em_in_reply_to = in_reply_to, em_references = references, em_conversation_topic = conversation_topic,
             em_conversation_index_bytes = conversation_index_bytes,
             em_conversation_index_string = conversation_index_string, em_message_class = message_class,
             em_start_date = start_date, em_end_date = end_date, em_location = location,
             em_crc_suspect = False, em_recipients = [], em_message_flags = soft_flags pc \<rparr>)))))))))))))))))))))"

definition read_message_extract ::
  "(bytes \<Rightarrow> 32 word) \<Rightarrow> bytes \<Rightarrow> PstFile \<Rightarrow> u64 \<Rightarrow> ExtractedMessage rd" where
  "read_message_extract crc file pst message_nid =
     rd_bind message_scope_enter (\<lambda>scope.
     rd_bind (load_pc crc file (pf_nbt pst) (pf_bbt pst) message_nid (ph_crypt_method (pf_header pst))) (\<lambda>pc.
     rd_bind (rd_lift (extract_fields message_nid pc)) (\<lambda>m.
     rd_bind (rd_or (list_recipients crc file pst message_nid) []) (\<lambda>recipients.
     rd_bind (scope_exit scope) (\<lambda>crc_suspect.
       rd_ret (m \<lparr> em_recipients := recipients, em_crc_suspect := crc_suspect \<rparr>))))))"

end
