(* ===== verification/Name_Id_Map.thy ===== *)
theory Name_Id_Map
  imports Context_Loading
begin

text \<open>
  The map of named properties (\<^verbatim>\<open>pst-reader/src/messaging/named_prop.rs\<close>): a context of the store with
  a stream of property-set identifiers, a stream of entries and a stream of names, from which
  \<^verbatim>\<open>(property set, name or number)\<close> resolves to a property identifier. A missing or damaged map is
  an empty, degraded one.
\<close>

datatype NamedPropId = NpLid nat | NpName str

record NamedPropKey =
  nk_guid :: bytes
  nk_kind :: NamedPropId

record NameIdMap =
  nm_forward :: "NamedPropKey \<rightharpoonup> nat"
  nm_reverse :: "nat \<rightharpoonup> NamedPropKey"
  nm_degraded :: bool

definition NPID_BASE :: nat where
  "NPID_BASE = 0x8000"

definition PS_MAPI :: bytes where
  "PS_MAPI = [0x28, 0x03, 0x02, 0x00, 0x00, 0x00, 0x00, 0x00, 0xC0, 0x00, 0x00, 0x00, 0x00, 0x00, 0x00, 0x46]"

definition PS_PUBLIC_STRINGS :: bytes where
  "PS_PUBLIC_STRINGS = [0x29, 0x03, 0x02, 0x00, 0x00, 0x00, 0x00, 0x00, 0xC0, 0x00, 0x00, 0x00, 0x00, 0x00, 0x00, 0x46]"

definition PSETID_ATTACHMENT :: bytes where
  "PSETID_ATTACHMENT = [0x7F, 0x5F, 0x35, 0x96, 0xE1, 0x59, 0xD0, 0x47, 0x99, 0xA7, 0x46, 0x51, 0x5C, 0x18, 0x3B, 0x54]"

definition NAME_ATTACHMENT_PROVIDER_TYPE :: str where
  "NAME_ATTACHMENT_PROVIDER_TYPE = lit ''AttachmentProviderType''"

definition NAME_ATTACHMENT_PERMISSION_TYPE :: str where
  "NAME_ATTACHMENT_PERMISSION_TYPE = lit ''AttachmentPermissionType''"

definition empty_degraded :: NameIdMap where
  "empty_degraded = \<lparr> nm_forward = Map.empty, nm_reverse = Map.empty, nm_degraded = True \<rparr>"

definition empty_name_map :: NameIdMap where
  "empty_name_map = \<lparr> nm_forward = Map.empty, nm_reverse = Map.empty, nm_degraded = False \<rparr>"

subsection \<open>Lookups\<close>

definition resolve_name :: "NameIdMap \<Rightarrow> bytes \<Rightarrow> str \<Rightarrow> nat option" where
  "resolve_name m guid name = nm_forward m \<lparr> nk_guid = guid, nk_kind = NpName name \<rparr>"

definition resolve_lid :: "NameIdMap \<Rightarrow> bytes \<Rightarrow> nat \<Rightarrow> nat option" where
  "resolve_lid m guid lid = nm_forward m \<lparr> nk_guid = guid, nk_kind = NpLid lid \<rparr>"

definition map_provider_type_npid :: "NameIdMap \<Rightarrow> nat option" where
  "map_provider_type_npid m = resolve_name m PSETID_ATTACHMENT NAME_ATTACHMENT_PROVIDER_TYPE"

definition map_permission_type_npid :: "NameIdMap \<Rightarrow> nat option" where
  "map_permission_type_npid m = resolve_name m PSETID_ATTACHMENT NAME_ATTACHMENT_PERMISSION_TYPE"

subsection \<open>Parsing\<close>

definition resolve_guid_index :: "nat \<Rightarrow> bytes \<Rightarrow> bytes option" where
  "resolve_guid_index w_guid guid_stream =
     (if w_guid = 0 then None
      else if w_guid = 1 then Some PS_MAPI
      else if w_guid = 2 then Some PS_PUBLIC_STRINGS
      else let off = (w_guid - 3) * 16
           in if length guid_stream < off + 16 then None else Some (slice_of off (off + 16) guid_stream))"

definition read_string_stream_name :: "bytes \<Rightarrow> usize \<Rightarrow> str option" where
  "read_string_stream_name string_stream offset =
     (if length string_stream < offset + 4 then None
      else
        let len = read_u32 offset string_stream; data_start = offset + 4; data_end = data_start + len
        in if length string_stream < data_end then None
           else from_utf16 (takeWhile (\<lambda>u. u \<noteq> 0) (u16_chunks (slice_of data_start data_end string_stream))))"

definition parse_nameid_entry :: "bytes \<Rightarrow> bytes \<Rightarrow> bytes \<Rightarrow> (NamedPropKey \<times> nat) option" where
  "parse_nameid_entry entry guid_stream string_stream =
     (if length entry < 8 then None
      else
        let property_id = read_u32 0 entry; guid_n = read_u16 4 entry; prop_idx = read_u16 6 entry;
            npid = min (NPID_BASE + prop_idx) 65535
        in case resolve_guid_index (guid_n div 2) guid_stream of
             None \<Rightarrow> None
           | Some guid \<Rightarrow>
               if odd guid_n
               then (case read_string_stream_name string_stream property_id of
                       None \<Rightarrow> None
                     | Some name \<Rightarrow> Some (\<lparr> nk_guid = guid, nk_kind = NpName name \<rparr>, npid))
               else Some (\<lparr> nk_guid = guid, nk_kind = NpLid (property_id mod 65536) \<rparr>, npid))"

definition enter_nameid :: "(NamedPropKey \<times> nat) option \<Rightarrow> NameIdMap \<Rightarrow> NameIdMap" where
  "enter_nameid e m =
     (case e of
        Some (key, npid) \<Rightarrow> m \<lparr> nm_forward := (nm_forward m)(key \<mapsto> npid), nm_reverse := (nm_reverse m)(npid \<mapsto> key) \<rparr>
      | None \<Rightarrow> m \<lparr> nm_degraded := True \<rparr>)"

text \<open>The whole entries of the stream, then a mark when it ends inside one.\<close>

definition from_streams :: "bytes \<Rightarrow> bytes \<Rightarrow> bytes \<Rightarrow> NameIdMap" where
  "from_streams guid_stream entry_stream string_stream =
     (let chunk = (\<lambda>i. slice_of (8 * i) (8 * i + 8) entry_stream);
          m = fold (\<lambda>i. enter_nameid (parse_nameid_entry (chunk i) guid_stream string_stream))
                [0..<length entry_stream div 8] empty_name_map
      in if length entry_stream mod 8 = 0 then m else m \<lparr> nm_degraded := True \<rparr>)"

definition from_prop_context :: "PropContext \<Rightarrow> PstError + NameIdMap" where
  "from_prop_context pc =
     try_then (pc_get_binary pc 0x0002) (\<lambda>guid.
     try_then (pc_get_binary pc 0x0003) (\<lambda>entry.
     try_then (pc_get_binary pc 0x0004) (\<lambda>string.
       let or_empty = (\<lambda>b. case b of None \<Rightarrow> [] | Some x \<Rightarrow> x)
       in Inr (from_streams (or_empty guid) (or_empty entry) (or_empty string)))))"

subsection \<open>The map of a file\<close>

definition NID_NAME_TO_ID_MAP :: u64 where
  "NID_NAME_TO_ID_MAP = 0x61"

definition load_name_id_map_uncached :: "(bytes \<Rightarrow> 32 word) \<Rightarrow> bytes \<Rightarrow> PstFile \<Rightarrow> NameIdMap rd" where
  "load_name_id_map_uncached crc file pst s =
     (case load_pc crc file (pf_nbt pst) (pf_bbt pst) NID_NAME_TO_ID_MAP (ph_crypt_method (pf_header pst)) s of
        (Inr pc, s) \<Rightarrow> (Inr (case from_prop_context pc of Inr m \<Rightarrow> m | Inl e \<Rightarrow> empty_degraded), s)
      | (Inl e, s) \<Rightarrow> (Inr empty_degraded, s))"

text \<open>Loaded once per open file: the cache is passed along.\<close>

definition name_id_map :: "(bytes \<Rightarrow> 32 word) \<Rightarrow> bytes \<Rightarrow> PstFile \<Rightarrow> NameIdMap option \<Rightarrow> NameIdMap rd" where
  "name_id_map crc file pst cache =
     (case cache of Some m \<Rightarrow> rd_ret m | None \<Rightarrow> load_name_id_map_uncached crc file pst)"

subsection \<open>Encoding\<close>

definition encode_string_stream_entry :: "str \<Rightarrow> bytes" where
  "encode_string_stream_entry name =
     (let utf16 = utf16le_bytes name; out = le_bytes 4 (length utf16) @ utf16
      in out @ replicate ((4 - length out mod 4) mod 4) 0)"

definition encode_nameid_entry :: "u32 \<Rightarrow> bool \<Rightarrow> nat \<Rightarrow> nat \<Rightarrow> bytes" where
  "encode_nameid_entry property_id is_string w_guid prop_idx =
     le_bytes 4 property_id @ le_bytes 2 (2 * w_guid + (if is_string then 1 else 0)) @ le_bytes 2 prop_idx"

end
