(* ===== verification/Write_Message.thy ===== *)
theory Write_Message
  imports Recipient_Table
begin

text \<open>
  Messages as the production writer takes them (\<^verbatim>\<open>pst-writer/src/production.rs\<close>): the message and its
  attachments, with nested messages; and the account the writer keeps of them, the counters and the
  events about attachments that were not written as they were.
\<close>

subsection \<open>Messages and attachments\<close>

datatype WriteAttachment = WriteAttachment
    (wa_filename: str)
    (wa_mime: "str option")
    (wa_size: u32)
    (wa_attach_method: "int option")
    (wa_data: "bytes option")
    (wa_stream_available: bool)
    (wa_attach_nid: "u64 option")
    (wa_source_path: "str option")
    (wa_parent_nid: "u64 option")
    (wa_embedded_message: "WriteMessage option")
    (wa_embedded_depth_limited: bool)
    (wa_is_cloud_link: bool)
    (wa_cloud_provider: "str option")
    (wa_cloud_url: "str option")
    (wa_cloud_permission_type: "int option")
and WriteMessage = WriteMessage
    (wm_message_id: "str option")
    (wm_subject: str)
    (wm_sender: "str option")
    (wm_display_to: "str option")
    (wm_display_cc: "str option")
    (wm_display_bcc: "str option")
    (wm_recipients: "WriteRecipient list")
    (wm_submit_time: "i64 option")
    (wm_body_plain: "str option")
    (wm_body_html: "bytes option")
    (wm_message_class: "str option")
    (wm_message_flags: "u32 option")
    (wm_body_incomplete: bool)
    (wm_attachments_incomplete: bool)
    (wm_body_unavailable: bool)
    (wm_attachments: "WriteAttachment list")
    (wm_source_folder_path: "str option")
    (wm_source_path: "str option")
    (wm_source_msg_nid: "u64 option")
    (wm_attach_list_failed: bool)

text \<open>An attachment that only says which message it came from.\<close>

definition synthetic_attachment :: "WriteMessage \<Rightarrow> str \<Rightarrow> WriteAttachment" where
  "synthetic_attachment msg filename =
     WriteAttachment filename None 0 None None False None (wm_source_path msg) (wm_source_msg_nid msg)
       None False False None None None"

subsection \<open>Events\<close>

datatype AttachEventSeverity = SevFail | SevInfo

datatype AttachmentFidelityKind =
    AkMethodUnsupported | AkCloudLink | AkStreamOpenFailed | AkStreamReadFailed | AkStreamCrc
  | AkBlockNotFound | AkDataTruncated | AkSizeCap | AkDepthLimit | AkEmbeddedUnparsed | AkMetaFailed
  | AkOmittedByPolicy | AkUnknown | AkLedgerTruncated

definition attach_severity_as_str :: "AttachEventSeverity \<Rightarrow> str" where
  "attach_severity_as_str s = (case s of SevFail \<Rightarrow> lit ''fail'' | SevInfo \<Rightarrow> lit ''info'')"

fun attach_kind_as_code :: "AttachmentFidelityKind \<Rightarrow> str" where
  "attach_kind_as_code AkMethodUnsupported = lit ''ATTACH_METHOD_UNSUPPORTED''"
| "attach_kind_as_code AkCloudLink = lit ''ATTACH_CLOUD_LINK''"
| "attach_kind_as_code AkStreamOpenFailed = lit ''ATTACH_STREAM_OPEN_FAILED''"
| "attach_kind_as_code AkStreamReadFailed = lit ''ATTACH_STREAM_READ_FAILED''"
| "attach_kind_as_code AkStreamCrc = lit ''ATTACH_STREAM_CRC''"
| "attach_kind_as_code AkBlockNotFound = lit ''ATTACH_BLOCK_NOT_FOUND''"
| "attach_kind_as_code AkDataTruncated = lit ''ATTACH_DATA_TRUNCATED''"
| "attach_kind_as_code AkSizeCap = lit ''ATTACH_SIZE_CAP''"
| "attach_kind_as_code AkDepthLimit = lit ''ATTACH_DEPTH_LIMIT''"
| "attach_kind_as_code AkEmbeddedUnparsed = lit ''ATTACH_EMBEDDED_UNPARSED''"
| "attach_kind_as_code AkMetaFailed = lit ''ATTACH_META_FAILED''"
| "attach_kind_as_code AkOmittedByPolicy = lit ''ATTACH_OMITTED_BY_POLICY''"
| "attach_kind_as_code AkUnknown = lit ''ATTACH_UNKNOWN''"
| "attach_kind_as_code AkLedgerTruncated = lit ''ATTACH_LEDGER_TRUNCATED''"

definition default_severity :: "AttachmentFidelityKind \<Rightarrow> AttachEventSeverity" where
  "default_severity k =
     (if k \<in> {AkOmittedByPolicy, AkLedgerTruncated, AkStreamCrc} then SevInfo else SevFail)"

record AttachmentFidelityEvent =
  fe_message_subject :: str
  fe_attach_filename :: str
  fe_kind :: AttachmentFidelityKind
  fe_source_path :: str
  fe_folder_path :: str
  fe_msg_nid :: u64
  fe_attach_nid :: "u64 option"
  fe_attach_index :: u32
  fe_size :: "u64 option"
  fe_attach_method :: int
  fe_cloud_provider :: str
  fe_cloud_url :: str
  fe_severity :: AttachEventSeverity

text \<open>\<^verbatim>\<open>unwrap_or\<close> and \<^verbatim>\<open>or\<close>.\<close>

definition opt_or :: "'a option \<Rightarrow> 'a \<Rightarrow> 'a" where
  "opt_or x d = (case x of None \<Rightarrow> d | Some v \<Rightarrow> v)"

definition opt_else :: "'a option \<Rightarrow> 'a option \<Rightarrow> 'a option" where
  "opt_else x y = (case x of None \<Rightarrow> y | Some v \<Rightarrow> Some v)"

definition make_attach_event ::
  "WriteMessage \<Rightarrow> WriteAttachment \<Rightarrow> u32 \<Rightarrow> AttachmentFidelityKind \<Rightarrow> AttachEventSeverity \<Rightarrow> AttachmentFidelityEvent" where
  "make_attach_event msg attach attach_index kind severity =
     \<lparr> fe_message_subject = wm_subject msg, fe_attach_filename = wa_filename attach, fe_kind = kind,
       fe_source_path = opt_or (opt_else (wa_source_path attach) (wm_source_path msg)) [],
       fe_folder_path = opt_or (wm_source_folder_path msg) [],
       fe_msg_nid = opt_or (opt_else (wa_parent_nid attach) (wm_source_msg_nid msg)) 0,
       fe_attach_nid = wa_attach_nid attach, fe_attach_index = attach_index,
       fe_size = (if 0 < wa_size attach then Some (wa_size attach) else map_option length (wa_data attach)),
       fe_attach_method = opt_or (wa_attach_method attach) (- 1),
       fe_cloud_provider = opt_or (wa_cloud_provider attach) [],
       fe_cloud_url = opt_or (wa_cloud_url attach) [], fe_severity = severity \<rparr>"

subsection \<open>The account\<close>

text \<open>
  The counters of a write (those for cut recipient tables are carried, but nothing advances them any
  more); then the events a sink was handed.
\<close>

record RecipientTcTruncatedEvent =
  te_message_subject :: str
  te_source_path :: str
  te_folder_path :: str
  te_msg_nid :: u64
  te_message_id :: str
  te_source_count :: u32
  te_kept_count :: u32
  te_kept_to :: u32
  te_kept_cc :: u32
  te_kept_bcc :: u32
  te_dropped_to :: u32
  te_dropped_cc :: u32
  te_dropped_bcc :: u32

record WriteCounters =
  wc_messages_with_incomplete_body :: u64
  wc_messages_with_unavailable_body :: u64
  wc_attachments_written :: u64
  wc_attachments_failed :: u64
  wc_attachments_omitted_by_policy :: u64
  wc_folders_created :: u64
  wc_embedded_messages_written :: u64
  wc_embedded_depth_limit_hits :: u64
  wc_embedded_unparsed :: u64
  wc_folder_paths_residual :: u64
  wc_folder_paths_degraded :: u64
  wc_attachment_fidelity_events :: "AttachmentFidelityEvent list"
  wc_attachment_fidelity_events_total :: u64
  wc_attachment_fidelity_events_truncated :: bool
  wc_attach_stream_crc_events :: u64
  wc_recipient_tc_truncated_messages :: u64
  wc_recipient_rows_truncated :: u64
  wc_recipient_tc_truncated_events :: "RecipientTcTruncatedEvent list"
  wc_recipient_tc_truncated_events_total :: u64
  wc_recipient_tc_truncated_events_truncated :: bool

record WriteAccount = WriteCounters +
  wc_sink :: "AttachmentFidelityEvent list option"

definition ATTACHMENT_FIDELITY_EVENTS_CAP :: usize where
  "ATTACHMENT_FIDELITY_EVENTS_CAP = 1000"

definition record_attach_event :: "AttachmentFidelityEvent \<Rightarrow> WriteAccount \<Rightarrow> WriteAccount" where
  "record_attach_event event c =
     (let c = (if fe_severity event = SevFail
               then c \<lparr> wc_attachments_failed := saturating_add64 (wc_attachments_failed c) 1 \<rparr> else c);
          c = c \<lparr> wc_sink := map_option (\<lambda>es. es @ [event]) (wc_sink c),
                  wc_attachment_fidelity_events_total := saturating_add64 (wc_attachment_fidelity_events_total c) 1 \<rparr>;
          c = (if fe_kind event = AkStreamCrc
               then c \<lparr> wc_attach_stream_crc_events := saturating_add64 (wc_attach_stream_crc_events c) 1 \<rparr> else c)
      in if length (wc_attachment_fidelity_events c) < ATTACHMENT_FIDELITY_EVENTS_CAP
         then c \<lparr> wc_attachment_fidelity_events := wc_attachment_fidelity_events c @ [event] \<rparr>
         else c \<lparr> wc_attachment_fidelity_events_truncated := True \<rparr>)"

definition note_attach ::
  "WriteMessage \<Rightarrow> WriteAttachment \<Rightarrow> u32 \<Rightarrow> AttachmentFidelityKind \<Rightarrow> AttachEventSeverity \<Rightarrow>
   WriteAccount \<Rightarrow> WriteAccount" where
  "note_attach msg attach attach_index kind severity =
     record_attach_event (make_attach_event msg attach attach_index kind severity)"

end
