(* ===== verification/Named_Prop_Map.thy ===== *)
theory Named_Prop_Map
  imports Name_Id_Map Write_Message
begin

text \<open>
  The map of named properties the writer builds (\<^verbatim>\<open>pst-writer/src/named_prop_map.rs\<close>): which of
  three allowlisted names a write uses, the identifiers they get, and the streams and hash buckets
  of the map. The theorem: the reader resolves every name to the identifier the writer uses.
\<close>

subsection \<open>The plan\<close>

datatype AllowlistedNamedProp = AnPermissionType | AnProviderType | AnUrl

definition NAME_ATTACHMENT_URL :: str where
  "NAME_ATTACHMENT_URL = lit ''AttachmentUrl''"

fun allowlisted_name :: "AllowlistedNamedProp \<Rightarrow> str" where
  "allowlisted_name AnPermissionType = NAME_ATTACHMENT_PERMISSION_TYPE"
| "allowlisted_name AnProviderType = NAME_ATTACHMENT_PROVIDER_TYPE"
| "allowlisted_name AnUrl = NAME_ATTACHMENT_URL"

text \<open>An ordered set of names: one flag for each, read in the declared order.\<close>

record NamedPropWritePlan =
  np_permission_type :: bool
  np_provider_type :: bool
  np_url :: bool

definition plan_empty :: NamedPropWritePlan where
  "plan_empty = \<lparr> np_permission_type = False, np_provider_type = False, np_url = False \<rparr>"

fun plan_insert :: "AllowlistedNamedProp \<Rightarrow> NamedPropWritePlan \<Rightarrow> NamedPropWritePlan" where
  "plan_insert AnPermissionType plan = plan \<lparr> np_permission_type := True \<rparr>"
| "plan_insert AnProviderType plan = plan \<lparr> np_provider_type := True \<rparr>"
| "plan_insert AnUrl plan = plan \<lparr> np_url := True \<rparr>"

definition plan_iter :: "NamedPropWritePlan \<Rightarrow> AllowlistedNamedProp list" where
  "plan_iter plan =
     (if np_permission_type plan then [AnPermissionType] else []) @
     (if np_provider_type plan then [AnProviderType] else []) @ (if np_url plan then [AnUrl] else [])"

fun position_of :: "'a \<Rightarrow> 'a list \<Rightarrow> nat option" where
  "position_of x [] = None"
| "position_of x (y # ys) = (if y = x then Some 0 else map_option Suc (position_of x ys))"

definition plan_npid :: "NamedPropWritePlan \<Rightarrow> AllowlistedNamedProp \<Rightarrow> nat option" where
  "plan_npid plan prop = map_option (\<lambda>i. min (NPID_BASE + i) 65535) (position_of prop (plan_iter plan))"

subsection \<open>Scanning the messages\<close>

text \<open>A text that is present and not blank.\<close>

definition not_blank :: "str option \<Rightarrow> bool" where
  "not_blank s = (case s of None \<Rightarrow> False | Some t \<Rightarrow> trim t \<noteq> [])"

definition scan_attachment_named_props :: "WriteAttachment \<Rightarrow> NamedPropWritePlan \<Rightarrow> NamedPropWritePlan" where
  "scan_attachment_named_props att plan =
     (if \<not> wa_is_cloud_link att then plan
      else
        let plan = (if not_blank (wa_cloud_provider att) then plan_insert AnProviderType plan else plan);
            plan = (if not_blank (wa_cloud_url att) then plan_insert AnUrl plan else plan)
        in if wa_cloud_permission_type att \<noteq> None then plan_insert AnPermissionType plan else plan)"

text \<open>The depth left stands for \<^verbatim>\<open>max_depth - depth\<close>: at none, nested messages are not entered.\<close>

fun scan_message_named_props_at_depth :: "nat \<Rightarrow> WriteMessage \<Rightarrow> NamedPropWritePlan \<Rightarrow> NamedPropWritePlan" where
  "scan_message_named_props_at_depth 0 msg plan = fold scan_attachment_named_props (wm_attachments msg) plan"
| "scan_message_named_props_at_depth (Suc left) msg plan =
     fold (\<lambda>att plan.
       let plan = scan_attachment_named_props att plan
       in case wa_embedded_message att of
            None \<Rightarrow> plan
          | Some embedded \<Rightarrow> scan_message_named_props_at_depth left embedded plan) (wm_attachments msg) plan"

definition scan_messages_with_depth :: "WriteMessage list \<Rightarrow> u32 \<Rightarrow> NamedPropWritePlan" where
  "scan_messages_with_depth messages max_embedded_depth =
     (let max_depth = max 1 (min max_embedded_depth 8)
      in fold (scan_message_named_props_at_depth max_depth) messages plan_empty)"

subsection \<open>The hash\<close>

definition CRC_TABLE_OFFSET32 :: "32 word list" where
  "CRC_TABLE_OFFSET32 = [
    0x00000000, 0x77073096, 0xee0e612c, 0x990951ba, 0x076dc419, 0x706af48f, 0xe963a535, 0x9e6495a3,
    0x0edb8832, 0x79dcb8a4, 0xe0d5e91e, 0x97d2d988, 0x09b64c2b, 0x7eb17cbd, 0xe7b82d07, 0x90bf1d91,
    0x1db71064, 0x6ab020f2, 0xf3b97148, 0x84be41de, 0x1adad47d, 0x6ddde4eb, 0xf4d4b551, 0x83d385c7,
    0x136c9856, 0x646ba8c0, 0xfd62f97a, 0x8a65c9ec, 0x14015c4f, 0x63066cd9, 0xfa0f3d63, 0x8d080df5,
    0x3b6e20c8, 0x4c69105e, 0xd56041e4, 0xa2677172, 0x3c03e4d1, 0x4b04d447, 0xd20d85fd, 0xa50ab56b,
    0x35b5a8fa, 0x42b2986c, 0xdbbbc9d6, 0xacbcf940, 0x32d86ce3, 0x45df5c75, 0xdcd60dcf, 0xabd13d59,
    0x26d930ac, 0x51de003a, 0xc8d75180, 0xbfd06116, 0x21b4f4b5, 0x56b3c423, 0xcfba9599, 0xb8bda50f,
    0x2802b89e, 0x5f058808, 0xc60cd9b2, 0xb10be924, 0x2f6f7c87, 0x58684c11, 0xc1611dab, 0xb6662d3d,
    0x76dc4190, 0x01db7106, 0x98d220bc, 0xefd5102a, 0x71b18589, 0x06b6b51f, 0x9fbfe4a5, 0xe8b8d433,
    0x7807c9a2, 0x0f00f934, 0x9609a88e, 0xe10e9818, 0x7f6a0dbb, 0x086d3d2d, 0x91646c97, 0xe6635c01,
    0x6b6b51f4, 0x1c6c6162, 0x856530d8, 0xf262004e, 0x6c0695ed, 0x1b01a57b, 0x8208f4c1, 0xf50fc457,
    0x65b0d9c6, 0x12b7e950, 0x8bbeb8ea, 0xfcb9887c, 0x62dd1ddf, 0x15da2d49, 0x8cd37cf3, 0xfbd44c65,
    0x4db26158, 0x3ab551ce, 0xa3bc0074, 0xd4bb30e2, 0x4adfa541, 0x3dd895d7, 0xa4d1c46d, 0xd3d6f4fb,
    0x4369e96a, 0x346ed9fc, 0xad678846, 0xda60b8d0, 0x44042d73, 0x33031de5, 0xaa0a4c5f, 0xdd0d7cc9,
    0x5005713c, 0x270241aa, 0xbe0b1010, 0xc90c2086, 0x5768b525, 0x206f85b3, 0xb966d409, 0xce61e49f,
    0x5edef90e, 0x29d9c998, 0xb0d09822, 0xc7d7a8b4, 0x59b33d17, 0x2eb40d81, 0xb7bd5c3b, 0xc0ba6cad,
    0xedb88320, 0x9abfb3b6, 0x03b6e20c, 0x74b1d29a, 0xead54739, 0x9dd277af, 0x04db2615, 0x73dc1683,
    0xe3630b12, 0x94643b84, 0x0d6d6a3e, 0x7a6a5aa8, 0xe40ecf0b, 0x9309ff9d, 0x0a00ae27, 0x7d079eb1,
    0xf00f9344, 0x8708a3d2, 0x1e01f268, 0x6906c2fe, 0xf762575d, 0x806567cb, 0x196c3671, 0x6e6b06e7,
    0xfed41b76, 0x89d32be0, 0x10da7a5a, 0x67dd4acc, 0xf9b9df6f, 0x8ebeeff9, 0x17b7be43, 0x60b08ed5,
    0xd6d6a3e8, 0xa1d1937e, 0x38d8c2c4, 0x4fdff252, 0xd1bb67f1, 0xa6bc5767, 0x3fb506dd, 0x48b2364b,
    0xd80d2bda, 0xaf0a1b4c, 0x36034af6, 0x41047a60, 0xdf60efc3, 0xa867df55, 0x316e8eef, 0x4669be79,
    0xcb61b38c, 0xbc66831a, 0x256fd2a0, 0x5268e236, 0xcc0c7795, 0xbb0b4703, 0x220216b9, 0x5505262f,
    0xc5ba3bbe, 0xb2bd0b28, 0x2bb45a92, 0x5cb36a04, 0xc2d7ffa7, 0xb5d0cf31, 0x2cd99e8b, 0x5bdeae1d,
    0x9b64c2b0, 0xec63f226, 0x756aa39c, 0x026d930a, 0x9c0906a9, 0xeb0e363f, 0x72076785, 0x05005713,
    0x95bf4a82, 0xe2b87a14, 0x7bb12bae, 0x0cb61b38, 0x92d28e9b, 0xe5d5be0d, 0x7cdcefb7, 0x0bdbdf21,
    0x86d3d2d4, 0xf1d4e242, 0x68ddb3f8, 0x1fda836e, 0x81be16cd, 0xf6b9265b, 0x6fb077e1, 0x18b74777,
    0x88085ae6, 0xff0f6a70, 0x66063bca, 0x11010b5c, 0x8f659eff, 0xf862ae69, 0x616bffd3, 0x166ccf45,
    0xa00ae278, 0xd70dd2ee, 0x4e048354, 0x3903b3c2, 0xa7672661, 0xd06016f7, 0x4969474d, 0x3e6e77db,
    0xaed16a4a, 0xd9d65adc, 0x40df0b66, 0x37d83bf0, 0xa9bcae53, 0xdebb9ec5, 0x47b2cf7f, 0x30b5ffe9,
    0xbdbdf21c, 0xcabac28a, 0x53b39330, 0x24b4a3a6, 0xbad03605, 0xcdd70693, 0x54de5729, 0x23d967bf,
    0xb3667a2e, 0xc4614ab8, 0x5d681b02, 0x2a6f2b94, 0xb40bbe37, 0xc30c8ea1, 0x5a05df1b, 0x2d02ef8d]"

fun compute_crc_mspst :: "32 word \<Rightarrow> bytes \<Rightarrow> 32 word" where
  "compute_crc_mspst crc [] = crc"
| "compute_crc_mspst crc (b # data) =
     compute_crc_mspst (CRC_TABLE_OFFSET32 ! unat (and (xor crc (ucast b)) 0xFF) XOR drop_bit 8 crc) data"

definition nameid_bucket_index :: "32 word \<Rightarrow> nat \<Rightarrow> nat \<Rightarrow> nat" where
  "nameid_bucket_index dw_property_id w_guid_n bucket_count =
     unat (dw_property_id XOR word_of_nat w_guid_n) mod bucket_count mod 65536"

subsection \<open>The context\<close>

definition NAMEID_BUCKET_COUNT :: u32 where
  "NAMEID_BUCKET_COUNT = 251"

text \<open>The streams and the buckets after the names seen so far; buckets are kept in their order.\<close>

record NameStreams =
  ns_string_stream :: bytes
  ns_entry_stream :: bytes
  ns_buckets :: "(nat \<times> bytes) list"

fun add_to_bucket :: "nat \<Rightarrow> bytes \<Rightarrow> (nat \<times> bytes) list \<Rightarrow> (nat \<times> bytes) list" where
  "add_to_bucket b bytes [] = [(b, bytes)]"
| "add_to_bucket b bytes ((c, old) # rest) =
     (if b = c then (c, old @ bytes) # rest
      else if b < c then (b, bytes) # (c, old) # rest
      else (c, old) # add_to_bucket b bytes rest)"

definition add_name :: "nat \<times> str \<Rightarrow> NameStreams \<Rightarrow> NameStreams" where
  "add_name indexed ns =
     (let (prop_idx, name) = indexed; w_guid = 3;
          string_offset = length (ns_string_stream ns);
          entry = encode_nameid_entry string_offset True w_guid prop_idx;
          crc = compute_crc_mspst 0 (utf16le_bytes name);
          bucket = nameid_bucket_index crc (2 * w_guid + 1) NAMEID_BUCKET_COUNT;
          bucket_entry = encode_nameid_entry (unat crc) True w_guid prop_idx
      in \<lparr> ns_string_stream = ns_string_stream ns @ encode_string_stream_entry name,
           ns_entry_stream = ns_entry_stream ns @ entry,
           ns_buckets = add_to_bucket bucket bucket_entry (ns_buckets ns) \<rparr>)"

definition build_named_prop_map_pc :: "NamedPropWritePlan \<Rightarrow> (nat \<times> PcValue) list" where
  "build_named_prop_map_pc plan =
     (if plan_iter plan = [] then []
      else
        let ns = fold add_name (enumerate 0 (map allowlisted_name (plan_iter plan)))
                   \<lparr> ns_string_stream = [], ns_entry_stream = [], ns_buckets = [] \<rparr>
        in [(0x0001, PcI32 (int NAMEID_BUCKET_COUNT)), (0x0002, PcBinary PSETID_ATTACHMENT),
            (0x0003, PcBinary (ns_entry_stream ns)), (0x0004, PcBinary (ns_string_stream ns))] @
           map (\<lambda>(bucket, bytes). (min (0x1000 + bucket) 65535, PcBinary bytes)) (ns_buckets ns))"

subsection \<open>Reading the streams\<close>

definition name_ok :: "str \<Rightarrow> bool" where
  "name_ok name \<longleftrightarrow> scalar_str name \<and> 0 \<notin> set name \<and> length (utf16le_bytes name) < 2 ^ 32"

lemma utf16_units_pos: "c \<noteq> 0 \<Longrightarrow> u \<in> set (utf16_units c) \<Longrightarrow> u \<noteq> 0"
  by (auto simp: utf16_units_def split: if_splits)

lemma read_written_name:
  assumes "name_ok name"
  shows "read_string_stream_name (pre @ encode_string_stream_entry name @ post) (length pre) = Some name"
proof -
  let ?u = "concat (map utf16_units name)" and ?b = "utf16le_bytes name"
  let ?s = "pre @ encode_string_stream_entry name @ post"
  note ok = assms [unfolded name_ok_def]
  obtain pad where s: "encode_string_stream_entry name = le_bytes 4 (length ?b) @ ?b @ pad"
    by (simp add: encode_string_stream_entry_def Let_def)
  have len: "read_u32 (length pre) ?s = length ?b"
    using ok by (simp add: s read_u32_append2 read_le_field)
  have data: "slice_of (length pre + 4) (length pre + 4 + length ?b) ?s = ?b"
    by (simp add: s slice_append2 slice_append1 slice_of_def)
  have "map (\<lambda>u. u mod 65536) ?u = ?u"
    using ok utf16_units_small by (intro map_idI) (force simp: scalar_str_def)
  then have units: "u16_chunks ?b = ?u" by (simp add: utf16le_bytes_def u16_chunks_le_bytes)
  have pos: "u \<noteq> 0" if "u \<in> set ?u" for u
  proof -
    from that obtain c where c: "c \<in> set name" "u \<in> set (utf16_units c)" by auto
    with ok have "c \<noteq> 0" by metis
    from utf16_units_pos [OF this c(2)] show ?thesis .
  qed
  have stop: "takeWhile (\<lambda>u. u \<noteq> 0) ?u = ?u"
    unfolding takeWhile_eq_all_conv using pos by blast
  show ?thesis
    using ok from_utf16_units [of name] unfolding read_string_stream_name_def Let_def len data units stop
    by (simp add: s)
qed

lemma length_nameid_entry [simp]: "length (encode_nameid_entry i b w p) = 8"
  by (simp add: encode_nameid_entry_def)

lemma parse_written_entry:
  assumes "read_string_stream_name S off = Some name" and "off < 2 ^ 32" and "i < 32768"
  shows "parse_nameid_entry (encode_nameid_entry off True 3 i) PSETID_ATTACHMENT S =
    Some (\<lparr> nk_guid = PSETID_ATTACHMENT, nk_kind = NpName name \<rparr>, NPID_BASE + i)"
proof -
  let ?e = "encode_nameid_entry off True 3 i"
  have "read_u32 0 ?e = off" "read_u16 4 ?e = 7" "read_u16 6 ?e = i"
    using assms(2,3) by (simp_all add: encode_nameid_entry_def slice_simps)
  moreover have "resolve_guid_index 3 PSETID_ATTACHMENT = Some PSETID_ATTACHMENT"
    by (simp add: resolve_guid_index_def slice_of_def PSETID_ATTACHMENT_def)
  ultimately show ?thesis
    using assms(1,3) by (simp add: parse_nameid_entry_def Let_def NPID_BASE_def)
qed

text \<open>
  After \<open>names\<close> have been added, the entries are those of the names in order, and every name is read
  at its offset, also after more names were added.
\<close>

definition no_names :: NameStreams where
  "no_names = \<lparr> ns_string_stream = [], ns_entry_stream = [], ns_buckets = [] \<rparr>"

lemma add_name_streams:
  "ns_entry_stream (add_name (i, name) ns) =
    ns_entry_stream ns @ encode_nameid_entry (length (ns_string_stream ns)) True 3 i"
  "ns_string_stream (add_name (i, name) ns) = ns_string_stream ns @ encode_string_stream_entry name"
  by (simp_all add: add_name_def Let_def)

lemma names_added:
  assumes "\<forall>name\<in>set names. name_ok name"
    and "ns = fold add_name (enumerate 0 names) no_names"
  shows "\<exists>offs. ns_entry_stream ns = concat (map (\<lambda>i. encode_nameid_entry (offs i) True 3 i) [0..<length names]) \<and>
    (\<forall>i<length names. offs i < length (ns_string_stream ns) \<and>
       (\<forall>post. read_string_stream_name (ns_string_stream ns @ post) (offs i) = Some (names ! i)))"
  using assms
proof (induction names arbitrary: ns rule: rev_induct)
  case (snoc name names)
  let ?old = "fold add_name (enumerate 0 names) no_names" and ?n = "length names"
  from snoc.IH [OF _ refl] snoc.prems(1) obtain offs where
    entries: "ns_entry_stream ?old = concat (map (\<lambda>i. encode_nameid_entry (offs i) True 3 i) [0..<?n])"
    and reads: "\<forall>i<?n. offs i < length (ns_string_stream ?old) \<and>
      (\<forall>post. read_string_stream_name (ns_string_stream ?old @ post) (offs i) = Some (names ! i))" by auto
  let ?offs = "offs(?n := length (ns_string_stream ?old))"
  have ns: "ns_entry_stream ns = ns_entry_stream ?old @ encode_nameid_entry (?offs ?n) True 3 ?n"
    "ns_string_stream ns = ns_string_stream ?old @ encode_string_stream_entry name"
    by (simp_all add: snoc.prems(2) enumerate_append_eq add_name_streams)
  have "ns_entry_stream ns = concat (map (\<lambda>i. encode_nameid_entry (?offs i) True 3 i) [0..<Suc ?n])"
  proof -
    have "map (\<lambda>i. encode_nameid_entry (?offs i) True 3 i) [0..<?n] = map (\<lambda>i. encode_nameid_entry (offs i) True 3 i) [0..<?n]"
      by (rule map_cong) simp_all
    then show ?thesis by (simp only: ns(1) entries upt_Suc map_append concat_append le0 if_True list.map concat.simps append_Nil2)
  qed
  moreover have "0 < length (encode_string_stream_entry name)" by (simp add: encode_string_stream_entry_def Let_def)
  then have "?offs i < length (ns_string_stream ns) \<and>
      (\<forall>post. read_string_stream_name (ns_string_stream ns @ post) (?offs i) = Some ((names @ [name]) ! i))"
    if "i < Suc ?n" for i
    using that reads read_written_name [of name "ns_string_stream ?old"] snoc.prems(1)
    by (cases "i = ?n") (simp_all add: ns(2) nth_append less_Suc_eq trans_less_add1)
  ultimately show ?case by (intro exI [where x = ?offs]) simp
qed (simp add: no_names_def)

lemma fold_names:
  "distinct keys \<Longrightarrow> n \<le> length keys \<Longrightarrow>
    (let m = fold (\<lambda>i. enter_nameid (Some (keys ! i, v i))) [0..<n] empty_name_map
     in nm_forward m k = map_option v (position_of k (take n keys)) \<and> \<not> nm_degraded m)"
proof (induction n)
  case (Suc n)
  have "position_of k (xs @ [x]) =
      (case position_of k xs of None \<Rightarrow> if x = k then Some (length xs) else None | Some i \<Rightarrow> Some i)" for xs x
    by (induction xs) (auto split: option.splits)
  moreover have found: "position_of k xs = Some i \<Longrightarrow> k \<in> set xs" for xs i
    by (induction xs arbitrary: i) (auto split: if_splits)
  moreover have "keys ! n \<notin> set (take n keys)"
    using Suc.prems by (auto simp: in_set_conv_nth nth_eq_iff_index_eq)
  ultimately show ?case
    using Suc by (auto simp: Let_def enter_nameid_def take_Suc_conv_app_nth split: option.splits)
qed (simp add: empty_name_map_def)

lemma streams_resolve:
  assumes "\<forall>name\<in>set names. name_ok name" and "distinct names" and "length names \<le> 32768"
    and ns: "ns = fold add_name (enumerate 0 names) no_names" and "length (ns_string_stream ns) \<le> 2 ^ 32"
  shows "resolve_name (from_streams PSETID_ATTACHMENT (ns_entry_stream ns) (ns_string_stream ns)) PSETID_ATTACHMENT name =
      map_option (\<lambda>i. NPID_BASE + i) (position_of name names)"
    and "\<not> nm_degraded (from_streams PSETID_ATTACHMENT (ns_entry_stream ns) (ns_string_stream ns))"
proof -
  let ?n = "length names" and ?E = "ns_entry_stream ns" and ?S = "ns_string_stream ns"
  let ?key = "\<lambda>name. \<lparr> nk_guid = PSETID_ATTACHMENT, nk_kind = NpName name \<rparr>"
  from names_added [OF assms(1) ns] obtain offs where
    E: "?E = concat (map (\<lambda>i. encode_nameid_entry (offs i) True 3 i) [0..<?n])"
    and S: "\<forall>i<?n. offs i < length ?S \<and> (\<forall>post. read_string_stream_name (?S @ post) (offs i) = Some (names ! i))"
    by blast
  have len: "length ?E = ?n * 8"
    unfolding E by (subst length_concat_width [where w = 8]) auto
  have chunk: "parse_nameid_entry (slice_of (8 * i) (8 * i + 8) ?E) PSETID_ATTACHMENT ?S =
      Some (?key (names ! i), NPID_BASE + i)" if i: "i < ?n" for i
  proof -
    have "slice_of (i * 8) (i * 8 + 8) ?E = encode_nameid_entry (offs i) True 3 i"
      unfolding E using i by (subst slice_concat) auto
    moreover have "read_string_stream_name ?S (offs i) = Some (names ! i)" "offs i < 2 ^ 32"
      using S i assms(5) by (fastforce dest: spec [where x = "[]"])+
    ultimately show ?thesis using parse_written_entry i assms(3) by (simp add: mult.commute)
  qed
  let ?m = "fold (\<lambda>i. enter_nameid (Some (map ?key names ! i, NPID_BASE + i))) [0..<?n] empty_name_map"
  have "fold (\<lambda>i. enter_nameid (parse_nameid_entry (slice_of (8 * i) (8 * i + 8) ?E) PSETID_ATTACHMENT ?S)) [0..<?n]
      empty_name_map = ?m"
    by (rule fold_cong) (simp_all add: chunk)
  then have m: "from_streams PSETID_ATTACHMENT ?E ?S = ?m"
    by (simp add: from_streams_def Let_def len)
  have "distinct (map ?key names)" using assms(2) by (simp add: distinct_map inj_on_def)
  from fold_names [OF this, of ?n "\<lambda>i. NPID_BASE + i" "?key name"]
  have "nm_forward ?m (?key name) = map_option (\<lambda>i. NPID_BASE + i) (position_of (?key name) (map ?key names))"
    "\<not> nm_degraded ?m" by (simp_all add: Let_def)
  moreover have "position_of (?key name) (map ?key names) = position_of name names" by (induction names) auto
  ultimately show "resolve_name (from_streams PSETID_ATTACHMENT ?E ?S) PSETID_ATTACHMENT name =
      map_option (\<lambda>i. NPID_BASE + i) (position_of name names)"
    "\<not> nm_degraded (from_streams PSETID_ATTACHMENT ?E ?S)" by (simp_all add: m resolve_name_def)
qed

subsection \<open>The written map is read back\<close>

lemma buckets_grow:
  "(\<Sum>b\<leftarrow>add_to_bucket b bs buckets. length (snd b)) = length bs + (\<Sum>b\<leftarrow>buckets. length (snd b))"
  "length (add_to_bucket b bs buckets) \<le> Suc (length buckets)"
  by (induction b bs buckets rule: add_to_bucket.induct) auto

lemma add_name_buckets:
  "(\<Sum>b\<leftarrow>ns_buckets (add_name x ns). length (snd b)) = 8 + (\<Sum>b\<leftarrow>ns_buckets ns. length (snd b))"
  "length (ns_buckets (add_name x ns)) \<le> Suc (length (ns_buckets ns))"
  by (cases x, simp only: add_name_def Let_def prod.case NameStreams.simps buckets_grow length_nameid_entry)+

lemma buckets_filled:
  "(\<Sum>b\<leftarrow>ns_buckets (fold add_name xs ns). length (snd b)) = 8 * length xs + (\<Sum>b\<leftarrow>ns_buckets ns. length (snd b)) \<and>
   length (ns_buckets (fold add_name xs ns)) \<le> length xs + length (ns_buckets ns)"
proof (induction xs arbitrary: ns)
  case (Cons x xs)
  from Cons.IH [of "add_name x ns"] add_name_buckets [of x ns] show ?case by simp
qed simp

lemma streams_grow:
  "length (ns_entry_stream (fold add_name xs ns)) = 8 * length xs + length (ns_entry_stream ns) \<and>
   length (ns_string_stream (fold add_name xs ns)) =
     (\<Sum>x\<leftarrow>xs. length (encode_string_stream_entry (snd x))) + length (ns_string_stream ns)"
  by (induction xs arbitrary: ns) (auto simp: add_name_streams)

lemmas allowlisted_names =
  NAME_ATTACHMENT_PERMISSION_TYPE_def NAME_ATTACHMENT_PROVIDER_TYPE_def NAME_ATTACHMENT_URL_def

lemma name_lengths:
  "length NAME_ATTACHMENT_PERMISSION_TYPE = 24" "length NAME_ATTACHMENT_PROVIDER_TYPE = 22"
  "length NAME_ATTACHMENT_URL = 13"
  by (simp_all add: allowlisted_names lit_def)

lemma names_differ:
  "NAME_ATTACHMENT_PERMISSION_TYPE \<noteq> NAME_ATTACHMENT_PROVIDER_TYPE"
  "NAME_ATTACHMENT_PERMISSION_TYPE \<noteq> NAME_ATTACHMENT_URL"
  "NAME_ATTACHMENT_PROVIDER_TYPE \<noteq> NAME_ATTACHMENT_URL"
  using name_lengths by auto

lemma allowlisted_length: "length (allowlisted_name p) \<le> 24"
  by (cases p) (simp_all add: name_lengths)

lemma length_string_entry: "length (encode_string_stream_entry s) \<le> 8 + 4 * length s"
proof -
  have "(4 - n mod 4) mod 4 < (4 :: nat)" for n by simp
  from this [of "4 + length (utf16le_bytes s)"] length_utf16le_le [of s] show ?thesis
    by (simp add: encode_string_stream_entry_def Let_def)
qed

lemma allowlisted_ok: "name_ok (allowlisted_name p)"
proof -
  have "scalar_str (allowlisted_name p)" "0 \<notin> set (allowlisted_name p)"
    by (cases p; simp add: allowlisted_names lit_def)+
  then show ?thesis
    using length_utf16le_le [of "allowlisted_name p"] allowlisted_length [of p] by (simp add: name_ok_def)
qed

lemma plan_names:
  "distinct (plan_iter plan)" "length (plan_iter plan) \<le> 3" "distinct (map allowlisted_name (plan_iter plan))"
  by (simp_all add: plan_iter_def names_differ)

lemma position_of_less: "position_of x xs = Some i \<Longrightarrow> i < length xs"
  by (induction xs arbitrary: i) (auto split: if_splits)

lemma position_of_name:
  "position_of name (map f xs) = (case find (\<lambda>p. f p = name) xs of None \<Rightarrow> None | Some p \<Rightarrow> position_of p xs)"
proof (induction xs)
  case (Cons x xs)
  have "f p = name" if "find (\<lambda>p. f p = name) xs = Some p" for p using that by (auto simp: find_Some_iff)
  with Cons show ?case by (auto split: option.splits)
qed simp

lemma plan_position:
  "map_option (\<lambda>i. NPID_BASE + i) (position_of name (map allowlisted_name (plan_iter plan))) =
    (case find (\<lambda>p. allowlisted_name p = name) (plan_iter plan) of None \<Rightarrow> None | Some p \<Rightarrow> plan_npid plan p)"
proof -
  have "map_option (\<lambda>i. NPID_BASE + i) (position_of p (plan_iter plan)) = plan_npid plan p" for p
  proof (cases "position_of p (plan_iter plan)")
    case (Some i)
    with position_of_less [OF Some] plan_names(2) [of plan] show ?thesis by (simp add: plan_npid_def NPID_BASE_def)
  qed (simp add: plan_npid_def)
  then show ?thesis by (simp add: position_of_name split: option.splits)
qed

lemma plan_streams:
  assumes "ns = fold add_name (enumerate 0 (map allowlisted_name (plan_iter plan))) no_names"
  shows "length (ns_string_stream ns) \<le> 312" and "length (ns_entry_stream ns) \<le> 24"
    and "(\<Sum>b\<leftarrow>ns_buckets ns. length (snd b)) \<le> 24" and "length (ns_buckets ns) \<le> 3"
proof -
  let ?xs = "enumerate 0 (map allowlisted_name (plan_iter plan))"
  have n: "length ?xs \<le> 3" using plan_names(2) [of plan] by simp
  have "(\<Sum>x\<leftarrow>?xs. length (encode_string_stream_entry (snd x))) \<le> (\<Sum>x\<leftarrow>?xs. 104)"
  proof (rule sum_list_mono)
    fix x assume "x \<in> set ?xs"
    then have "snd x \<in> snd ` set ?xs" by blast
    then have "snd x \<in> set (map allowlisted_name (plan_iter plan))"
      by (simp only: set_map [symmetric] map_snd_enumerate)
    then obtain p where "snd x = allowlisted_name p" by auto
    with length_string_entry [of "snd x"] allowlisted_length [of p] show "length (encode_string_stream_entry (snd x)) \<le> 104"
      by simp
  qed
  also have "\<dots> \<le> 312" using n by (simp add: sum_list_triv)
  finally show "length (ns_string_stream ns) \<le> 312"
    using streams_grow [of ?xs no_names] by (simp add: assms no_names_def)
  show "length (ns_entry_stream ns) \<le> 24" using streams_grow [of ?xs no_names] n by (simp add: assms no_names_def)
  show "(\<Sum>b\<leftarrow>ns_buckets ns. length (snd b)) \<le> 24" "length (ns_buckets ns) \<le> 3"
    using buckets_filled [of ?xs no_names] n by (simp_all add: assms no_names_def)
qed

lemma bucket_space: "pc_space (map (\<lambda>(b, bytes). (f b, PcBinary bytes)) bs) = (\<Sum>b\<leftarrow>bs. length (snd b))"
  by (induction bs) auto

lemma bucket_absent:
  "k < (0x1000 :: nat) \<Longrightarrow> find (\<lambda>p. fst p = k) (map (\<lambda>(b, bytes). (min (0x1000 + b) 65535, PcBinary bytes)) bs) = None"
  by (auto simp: find_None_iff)

lemma written_map_reads:
  assumes props: "props = build_named_prop_map_pc plan"
    and ns: "ns = fold add_name (enumerate 0 (map allowlisted_name (plan_iter plan))) no_names"
    and get: "\<forall>k<65536. pc_get pc k = (case find (\<lambda>p. fst p = k) props of None \<Rightarrow> Inr None | Some (_, v) \<Rightarrow> pc_reads subnodes v)"
  shows "from_prop_context pc =
    Inr (if plan_iter plan = [] then from_streams [] [] []
         else from_streams PSETID_ATTACHMENT (ns_entry_stream ns) (ns_string_stream ns))"
proof (cases "plan_iter plan = []")
  case True
  with props have "props = []" by (simp add: build_named_prop_map_pc_def)
  with get True show ?thesis by (simp add: from_prop_context_def pc_get_binary_def)
next
  case False
  then have p: "props = [(0x0001, PcI32 (int NAMEID_BUCKET_COUNT)), (0x0002, PcBinary PSETID_ATTACHMENT),
      (0x0003, PcBinary (ns_entry_stream ns)), (0x0004, PcBinary (ns_string_stream ns))] @
     map (\<lambda>(b, bytes). (min (0x1000 + b) 65535, PcBinary bytes)) (ns_buckets ns)"
    unfolding props ns build_named_prop_map_pc_def Let_def no_names_def by simp
  have "pc_get pc 2 = Inr (Some (PvBinary PSETID_ATTACHMENT))" "pc_get pc 3 = Inr (Some (PvBinary (ns_entry_stream ns)))"
    "pc_get pc 4 = Inr (Some (PvBinary (ns_string_stream ns)))" using get by (simp_all add: p)
  with False show ?thesis by (simp add: from_prop_context_def pc_get_binary_def)
qed

lemma written_map_fits:
  assumes "props = build_named_prop_map_pc plan"
  shows "pc_space props \<le> 376" and "length props \<le> 7"
    and "\<forall>(i, v)\<in>set props. i < 65536 \<and> pc_value_ok v"
proof -
  let ?ns = "fold add_name (enumerate 0 (map allowlisted_name (plan_iter plan))) no_names"
  note s = plan_streams [OF refl, of plan]
  have "length PSETID_ATTACHMENT = 16" by (simp add: PSETID_ATTACHMENT_def)
  with s show "pc_space props \<le> 376" "length props \<le> 7" "\<forall>(i, v)\<in>set props. i < 65536 \<and> pc_value_ok v"
    unfolding assms build_named_prop_map_pc_def Let_def no_names_def [symmetric]
    by (auto simp: bucket_space NAMEID_BUCKET_COUNT_def)
qed

text \<open>
  C14: the named properties of a write survive the file. For every plan the map's property list
  fits one heap node and is built; loading it and parsing its streams gives a map that is not
  degraded, and in it every name (of whatever text) resolves to the identifier the plan gave the
  allowlisted property of that name, and to nothing when the plan has no such property.
\<close>

theorem named_property_map_round_trip:
  "\<exists>r hb pc m. build_pc_v2 (heap_new sig) (build_named_prop_map_pc plan) = Inr (r, hb) \<and>
     pc_load_with_subnodes (fst (heap_finalize hb r)) Map.empty = Inr pc \<and>
     from_prop_context pc = Inr m \<and> \<not> nm_degraded m \<and>
     (\<forall>name. resolve_name m PSETID_ATTACHMENT name =
        (case find (\<lambda>p. allowlisted_name p = name) (plan_iter plan) of None \<Rightarrow> None | Some p \<Rightarrow> plan_npid plan p))"
proof -
  let ?props = "build_named_prop_map_pc plan"
    and ?ns = "fold add_name (enumerate 0 (map allowlisted_name (plan_iter plan))) no_names"
  note fits = written_map_fits [OF refl, of plan]
  have "pc_space ?props + 8 * length ?props + 2 * length ?props + 30 \<le> MAX_BLOCK_DATA" "length ?props \<le> 2045"
    using fits(1,2) by (simp_all add: MAX_BLOCK_DATA_def)
  with pc_builds [of ?props sig] obtain r hb where built: "build_pc_v2 (heap_new sig) ?props = Inr (r, hb)" by blast
  from pc_written [OF built \<open>length ?props \<le> 2045\<close> fits(3), of Map.empty] obtain pc where
    load: "pc_load_with_subnodes (fst (heap_finalize hb r)) Map.empty = Inr pc"
    and get: "\<forall>k<65536. pc_get pc k =
      (case find (\<lambda>p. fst p = k) ?props of None \<Rightarrow> Inr None | Some (_, v) \<Rightarrow> pc_reads Map.empty v)" by blast
  let ?m = "if plan_iter plan = [] then from_streams [] [] []
    else from_streams PSETID_ATTACHMENT (ns_entry_stream ?ns) (ns_string_stream ?ns)"
  have "\<not> nm_degraded ?m \<and> resolve_name ?m PSETID_ATTACHMENT name =
      (case find (\<lambda>p. allowlisted_name p = name) (plan_iter plan) of None \<Rightarrow> None | Some p \<Rightarrow> plan_npid plan p)" for name
  proof (cases "plan_iter plan = []")
    case False
    have ok: "\<forall>name\<in>set (map allowlisted_name (plan_iter plan)). name_ok name" using allowlisted_ok by auto
    have "length (map allowlisted_name (plan_iter plan)) \<le> 32768" "length (ns_string_stream ?ns) \<le> 2 ^ 32"
      using plan_names(2) [of plan] plan_streams(1) [OF refl, of plan] by simp_all
    from streams_resolve [OF ok plan_names(3) this(1) refl this(2)] False show ?thesis by (simp only: plan_position if_False simp_thms)
  qed (simp add: from_streams_def empty_name_map_def resolve_name_def)
  with built load written_map_reads [OF refl refl get] show ?thesis by blast
qed

end
