(* ===== verification/Spec2Isabelle.thy ===== *)
theory Spec2Isabelle
  imports Dedup_Index Integrity Keep_Samples Keep_Csv Property_Context Pst_Round_Trip Attachment_Table Recipient_Export
    Message_Reader Named_Prop_Map
begin

text \<open>
  Verification of \<^verbatim>\<open>pst-dedupe\<close>: the deduplication core, and the mailbox files it reads and writes.

  \<^bold>\<open>The program.\<close> The tool scans mailbox files (PST), computes for every message a normalised
  Message-ID and a content hash, and decides which messages are copies of one another. Two passes
  take that decision: a streaming index answers message by message while scanning, and the
  keep-set pass groups all scanned candidates afterwards, ranks the members of every group, picks a
  winner, and materialises the winners for export. Damaged input is classified on the way, and a
  preflight report says whether an export is advisable. The winners go into a new mailbox file. Files
  are read and written through the same layers: blocks found through two B-trees of pages, chains of
  blocks, subnodes, heaps on nodes, trees on heaps, and on top of them property contexts and tables.

  \<^bold>\<open>Theories and sources\<close> (paths below \<^verbatim>\<open>src/crates\<close>; the names of the definitions are those of the
  code).

  Foundations.
  \<^item> \<^verbatim>\<open>Prelude\<close>: machine integers as bounded naturals, byte lists, sorting by a comparison, sets as
    duplicate-free lists. \<^verbatim>\<open>Unicode_Tables\<close> and \<^verbatim>\<open>Rust_Text\<close>: Rust strings as lists of code points
    with UTF-8 byte lengths, trimming, splitting, case mapping, decimal numbers. \<^verbatim>\<open>Byte_Slices\<close>: slices,
    copies into a slice and little-endian fields. \<^verbatim>\<open>Text_Codecs\<close>: UTF-16 and UTF-8 texts in cells.

  The deduplication core (\<^verbatim>\<open>dedup-engine/src\<close>).
  \<^item> \<^verbatim>\<open>Recipient\<close>: \<^verbatim>\<open>pst-reader/src/messaging/recipient.rs\<close>, the identity key of a recipient row.
  \<^item> \<^verbatim>\<open>Grouping\<close>: \<^verbatim>\<open>grouping.rs\<close>, policies, counters and the compatibility of Message-IDs.
  \<^item> \<^verbatim>\<open>Hasher\<close>: \<^verbatim>\<open>hasher.rs\<close> and \<^verbatim>\<open>embedded_hash.rs\<close>, keys, preimages and hashes.
  \<^item> \<^verbatim>\<open>Dedup_Index\<close>: \<^verbatim>\<open>index.rs\<close>. The state is a record of two maps and counters;
    \<^verbatim>\<open>check_and_insert_item\<close> is composed of its Tier-1, Tier-2 and insertion phases.
  \<^item> \<^verbatim>\<open>Integrity\<close>: \<^verbatim>\<open>integrity.rs\<close> with the error kinds of \<^verbatim>\<open>pst-reader/src/error.rs\<close>. Rates are IEEE
    doubles, modelled as correctly rounded rationals.
  \<^item> \<^verbatim>\<open>keepset.rs\<close> in the order of its phases: \<^verbatim>\<open>Keep_Items\<close> (candidates), \<^verbatim>\<open>Union_Find\<close>,
    \<^verbatim>\<open>Keep_Grouping\<close> (the grouping loop) and \<^verbatim>\<open>Keep_Backfill\<close> (the Tier-1 backfill pass); \<^verbatim>\<open>Keep_Rank\<close>
    (policies and the rank key) with \<^verbatim>\<open>Civil_Date\<close>; \<^verbatim>\<open>Keep_Records\<close> and \<^verbatim>\<open>Keep_Resolve\<close> (entries,
    statistics, decision rows, resolution of groups to winners); \<^verbatim>\<open>Keep_Message\<close> and \<^verbatim>\<open>Keep_Finalize\<close>
    (materialised messages, promotion of peers when one fails, the roles afterwards); \<^verbatim>\<open>Keep_Csv\<close> (the
    decision CSV). \<^verbatim>\<open>Keep_Samples\<close> evaluates the theorems on a sample.

  The storage layers: reader (\<^verbatim>\<open>pst-reader/src\<close>) and writer (\<^verbatim>\<open>pst-writer/src/lib.rs\<close> and
  \<^verbatim>\<open>production.rs\<close>) side by side.
  \<^item> \<^verbatim>\<open>Pst_Error\<close>: the errors of both. \<^verbatim>\<open>Read_Monad\<close>: a read returns a value or an error, logs integrity
    notes and carries the visited set that stops cycles. \<^verbatim>\<open>Pst_Crypto\<close>: \<^verbatim>\<open>crypto.rs\<close>.
  \<^item> \<^verbatim>\<open>Block_Reader\<close>: \<^verbatim>\<open>ndb/block.rs\<close>, blocks, chains of blocks and subnodes. \<^verbatim>\<open>Block_Layout\<close> and
    \<^verbatim>\<open>Layout_Writer\<close>: the \<^verbatim>\<open>Layout\<close> of the writer, a record of nodes, blocks, pages and counters with the
    eager temporary file, and every operation that adds to it. A layout operation returns an option
    (None where the code panics or would not end) of an error or a value with the new layout.
  \<^item> \<^verbatim>\<open>Block_Chains\<close> (what a chain stands for, and the reader's assembly of it), \<^verbatim>\<open>Chain_Writer\<close> (the
    invariant of the layout and the specification of its operations), \<^verbatim>\<open>Subnode_Store\<close> (subnode leaves).
  \<^item> \<^verbatim>\<open>Layout_Offsets\<close> (final offsets around allocation-map pages), \<^verbatim>\<open>Tree_Pages\<close> with \<^verbatim>\<open>Tree_Proofs\<close>
    (\<^verbatim>\<open>ndb/page.rs\<close>, \<^verbatim>\<open>ndb/btree.rs\<close>: the two B-trees), \<^verbatim>\<open>Pst_Header\<close>, \<^verbatim>\<open>Pst_File\<close> (opening a file and the
    final stage of writing), \<^verbatim>\<open>Pst_Store\<close> and \<^verbatim>\<open>Pst_Round_Trip\<close> (their composition).
  \<^item> \<^verbatim>\<open>Heap_Node\<close> and \<^verbatim>\<open>Heap_Pages\<close> (\<^verbatim>\<open>ltp/hn.rs\<close> and the two heap builders), \<^verbatim>\<open>Bth\<close> (\<^verbatim>\<open>ltp/bth.rs\<close> and the
    tree builders), \<^verbatim>\<open>Property_Context\<close> (\<^verbatim>\<open>ltp/pc.rs\<close> and \<^verbatim>\<open>build_pc_v2\<close>).
  \<^item> \<^verbatim>\<open>Table_Reader\<close> (\<^verbatim>\<open>ndb/nid.rs\<close>, \<^verbatim>\<open>ltp/tc.rs\<close>) and \<^verbatim>\<open>Table_Writer\<close> (the table builders);
    \<^verbatim>\<open>Row_Matrix\<close>, \<^verbatim>\<open>Table_Loading\<close> and \<^verbatim>\<open>Table_Building\<close> (packing of rows, what a stored table shows
    when loaded, and the contract of a builder of rows); \<^verbatim>\<open>Attachment_Table\<close>, \<^verbatim>\<open>Recipient_Rows\<close>,
    \<^verbatim>\<open>Recipient_Reader\<close> (listing the recipients of a message), \<^verbatim>\<open>Recipient_Table\<close> and \<^verbatim>\<open>Recipient_Export\<close>
    (recipients from the canonical pipeline through the writer and the reader back to their hash).

  The messaging layer (\<^verbatim>\<open>pst-reader/src/messaging\<close>) and the message data of the writer.
  \<^item> \<^verbatim>\<open>Context_Loading\<close> (loading a property context with its subnodes, a budget for bodies, and
    \<^verbatim>\<open>store.rs\<close>), \<^verbatim>\<open>Message_Reader\<close> (\<^verbatim>\<open>message.rs\<close>: the properties of a message, its full extract, and the
    integrity scopes that mark it as suspect).
  \<^item> \<^verbatim>\<open>Write_Message\<close> (messages and attachments as the writer receives them, the fidelity events and
    counters), \<^verbatim>\<open>Name_Id_Map\<close> (\<^verbatim>\<open>named_prop.rs\<close>, reading the map of named properties) and
    \<^verbatim>\<open>Named_Prop_Map\<close> (\<^verbatim>\<open>pst-writer/src/named_prop_map.rs\<close>, planning and building it).

  \<^bold>\<open>What is proved.\<close>
  \<^item> Normalisation ends and strips every reply prefix; the hash preimages determine the fields they are
    meant to determine (and where they do not, a counterexample is proved).
  \<^item> The index reports only justified duplicates and misses no repeated identifier; its counters are
    conserved. Grouping is a partition with true provenance that never mixes Message-IDs while its guard
    is on and backfill is off, and backfill computes exactly the closure of its edges.
  \<^item> Ranking is a lexicographic total order; every group has one winner that no member outranks; the
    recorded deciding rung is the one that decides; finalisation ends with the first acceptable member
    in rank order; statistics account for every message; streaming the CSV writes what building it does.
  \<^item> Merging of integrity verdicts loses no reason, strict mode fails closed, and the preflight verdict
    is characterised.
  \<^item> Writing never diverges or panics on the inputs considered and fails only where the file fails or
    the input is refused; chains, subnode leaves, heaps, trees on heaps, property contexts, row
    matrices, attachment tables and recipient tables read back as written; in a finished file nothing
    overlaps and every node comes back, with no mismatch noted.
  \<^item> The map of named properties always fits its node, and the reader resolves every name in it to the
    identifier the writer uses.
  \<^item> Exported recipients keep the fingerprint that deduplication uses, under stated conditions.

  \<^bold>\<open>Parameters.\<close> SHA-256 and CRC-32 are functions given to the definitions that use them; where a
  theorem needs it, absence of a collision on the preimages at hand is a hypothesis. The csv library,
  the materializer and the winner callback, the path and file-system answers (a record \<^verbatim>\<open>Platform\<close>) are
  parameters too. The temporary file is a list of bytes with a list of outcomes, the errors its next
  writes will meet.

  \<^bold>\<open>Bounds and fuel.\<close> The find loop of the union-find takes as fuel the number of elements, at least
  the height of any forest with that many nodes. Walks over subnodes, chains and B-tree pages, which the
  code stops at a depth of 32, recurse on the depth that is left (\<^verbatim>\<open>33\<close> minus the depth), so every walk
  of the code is one of the model. The placement of blocks around allocation maps is a partial function
  with an option result, proved total on layouts that satisfy the invariant. All other loops are
  structural or carry a termination proof.

  \<^bold>\<open>Interfaces.\<close> Locales state them: \<^verbatim>\<open>text_codec\<close> (an enumeration and its text form), \<^verbatim>\<open>merging\<close> (a
  structure that merges classes of indices), \<^verbatim>\<open>ranking\<close> (a total preorder to sort by), \<^verbatim>\<open>heap_builder\<close>
  (allocation and patching, used by the tree builders) and \<^verbatim>\<open>row_builder\<close> (adding a row to a table).
  Each is interpreted on the definitions of the model: the two heap builders, and the attachment and
  recipient rows among them.

  \<^bold>\<open>Not modelled.\<close> Folders, attachments and embedded messages as the reader opens them; the folders,
  property sets, bodies and attachments that the writer assembles; EML parsing and packing; reports and JSON; the matter database and
  its services, analytics and jobs; extractors over third-party parsers; the command line and the
  desktop applications. These parts are text and file output, calls into databases and libraries that
  are not part of the repository, or orchestration of the parts above.
\<close>

end
